(* ===== verification/Prelude.thy ===== *)
theory Prelude
  imports Main "HOL-Library.Word" "HOL-Library.Monad_Syntax"
begin

unbundle bit_operations_syntax

text \<open>
  The vocabulary shared by every component theory: clocked machines and the refinement between
  the register-transfer (RTL) and functional-level (FL) model of a component, words built bit by
  bit, and the arithmetic of the lowest set bit of a word.

  A hardware module is a step function: it takes the registers and the input ports of one clock
  cycle and gives the registers after the clock edge and the output ports of the cycle. A
  \<open>combinational\<close> block of the source is a function of the wires it reads and a \<open>tick_rtl\<close> block
  is the next value of a register, so a module is the composition of its blocks in the order of
  their data dependencies. \<open>Bits(n)\<close> is an n-bit word.
\<close>

section \<open>Collections of rewrite rules\<close>

named_theorems rtl_defs \<open>definitions of combinational blocks, unfolded together\<close>
named_theorems fl_defs \<open>definitions of functional-level methods, unfolded together\<close>

section \<open>Clocked machines\<close>

type_synonym ('s, 'i, 'o) machine = "'s \<Rightarrow> 'i \<Rightarrow> 's \<times> 'o"

fun run :: "('s, 'i, 'o) machine \<Rightarrow> 's \<Rightarrow> 'i list \<Rightarrow> 'o list" where
  "run step s [] = []"
| "run step s (i # is) = snd (step s i) # run step (fst (step s i)) is"

fun final :: "('s, 'i, 'o) machine \<Rightarrow> 's \<Rightarrow> 'i list \<Rightarrow> 's" where
  "final step s [] = s"
| "final step s (i # is) = final step (fst (step s i)) is"

lemma length_run [simp]: "length (run step s is) = length is"
  by (induction "is" arbitrary: s) auto

lemma final_append: "final step s (xs @ ys) = final step (final step s xs) ys"
  by (induction xs arbitrary: s) auto

lemma run_append: "run step s (xs @ ys) = run step s xs @ run step (final step s xs) ys"
  by (induction xs arbitrary: s) auto

lemma run_nth:
  "n < length is \<Longrightarrow> run step s is ! n = snd (step (final step s (take n is)) (is ! n))"
proof (induction "is" arbitrary: s n)
  case (Cons i "is")
  then show ?case by (cases n) auto
qed simp

lemma final_take_Suc:
  "n < length is \<Longrightarrow> final step s (take (Suc n) is) = fst (step (final step s (take n is)) (is ! n))"
  by (simp add: take_Suc_conv_app_nth final_append)

lemma run_map_output: "run (\<lambda>s i. apsnd f (step s i)) s is = map f (run step s is)"
  by (induction "is" arbitrary: s) auto

lemma final_map_output: "final (\<lambda>s i. apsnd f (step s i)) s is = final step s is"
  by (induction "is" arbitrary: s) auto

text \<open>
  An environment may have to obey a protocol (assert \<open>call\<close> only when \<open>rdy\<close> is high, keep an
  index below the table size). \<open>runs_ok\<close> says that an input sequence obeys it at every state the
  machine passes through.
\<close>

fun runs_ok :: "('s, 'i, 'o) machine \<Rightarrow> ('s \<Rightarrow> 'i \<Rightarrow> bool) \<Rightarrow> 's \<Rightarrow> 'i list \<Rightarrow> bool" where
  "runs_ok step ok s [] = True"
| "runs_ok step ok s (i # is) = (ok s i \<and> runs_ok step ok (fst (step s i)) is)"

lemma runs_ok_always: "(\<And>s i. ok s i) \<Longrightarrow> runs_ok step ok s is"
  by (induction "is" arbitrary: s) auto

text \<open>
  The refinement contract between the two levels of a component: related states answer one cycle
  with the same outputs and stay related. The repository states it informally in the class
  comment of \<open>Interface\<close> (a precise translation between FL and RTL models).
\<close>

locale cycle_refinement =
  fixes rtl :: "'s \<Rightarrow> 'i \<Rightarrow> 's \<times> 'o"
    and fl :: "'t \<Rightarrow> 'i \<Rightarrow> 't \<times> 'o"
    and R :: "'s \<Rightarrow> 't \<Rightarrow> bool"
    and ok :: "'t \<Rightarrow> 'i \<Rightarrow> bool"
  assumes same_output: "R s t \<Longrightarrow> ok t i \<Longrightarrow> snd (rtl s i) = snd (fl t i)"
    and stay_related: "R s t \<Longrightarrow> ok t i \<Longrightarrow> R (fst (rtl s i)) (fst (fl t i))"
begin

lemma run_refines: "R s t \<Longrightarrow> runs_ok fl ok t is \<Longrightarrow> run rtl s is = run fl t is"
  by (induction "is" arbitrary: s t) (auto simp: same_output stay_related)

lemma final_refines: "R s t \<Longrightarrow> runs_ok fl ok t is \<Longrightarrow> R (final rtl s is) (final fl t is)"
  by (induction "is" arbitrary: s t) (auto simp: stay_related)

end

text \<open>
  A functional model may raise (an index outside a list): its step is then partial and \<open>None\<close> is the
  exception. The register-transfer level must agree wherever the functional model does not raise;
  \<open>ok\<close> restricts the inputs to those the interface permits.
\<close>

fun run_fl :: "('t \<Rightarrow> 'i \<Rightarrow> ('t \<times> 'o) option) \<Rightarrow> 't \<Rightarrow> 'i list \<Rightarrow> 'o list option" where
  "run_fl step t [] = Some []"
| "run_fl step t (i # is) =
     do { (t', out) \<leftarrow> step t i; outs \<leftarrow> run_fl step t' is; Some (out # outs) }"

locale partial_refinement =
  fixes rtl :: "'s \<Rightarrow> 'i \<Rightarrow> 's \<times> 'o"
    and fl :: "'t \<Rightarrow> 'i \<Rightarrow> ('t \<times> 'o) option"
    and R :: "'s \<Rightarrow> 't \<Rightarrow> bool"
    and ok :: "'i \<Rightarrow> bool"
  assumes step_sim: "R s t \<Longrightarrow> ok i \<Longrightarrow> fl t i = Some (t', out) \<Longrightarrow>
                     snd (rtl s i) = out \<and> R (fst (rtl s i)) t'"
begin

lemma partial_run_refines:
  "R s t \<Longrightarrow> list_all ok is \<Longrightarrow> run_fl fl t is = Some outs \<Longrightarrow> run rtl s is = outs"
proof (induction "is" arbitrary: s t outs)
  case (Cons i "is")
  from Cons.prems(3) obtain t' out outs' where fl: "fl t i = Some (t', out)"
    and outs: "run_fl fl t' is = Some outs'" "outs = out # outs'"
    by (auto split: bind_splits)
  from step_sim [OF Cons.prems(1) _ fl] Cons.prems(2) Cons.IH outs show ?case by auto
qed simp

end

text \<open>Conversely the register-transfer level itself may raise. Against a total contract it must not,
  as long as the environment obeys the protocol.\<close>

locale safe_refinement =
  fixes rtl :: "'s \<Rightarrow> 'i \<Rightarrow> ('s \<times> 'o) option"
    and spec :: "'t \<Rightarrow> 'i \<Rightarrow> 't \<times> 'o"
    and R :: "'s \<Rightarrow> 't \<Rightarrow> bool"
    and ok :: "'t \<Rightarrow> 'i \<Rightarrow> bool"
  assumes step_refines: "R s t \<Longrightarrow> ok t i \<Longrightarrow> \<exists>s'. rtl s i = Some (s', snd (spec t i)) \<and> R s' (fst (spec t i))"
begin

lemma safe_run_refines: "R s t \<Longrightarrow> runs_ok spec ok t is \<Longrightarrow> run_fl rtl s is = Some (run spec t is)"
proof (induction "is" arbitrary: s t)
  case (Cons i "is")
  then obtain s' where "rtl s i = Some (s', snd (spec t i))" "R s' (fst (spec t i))"
    using step_refines [of s t i] by auto
  then show ?case using Cons.IH [of s' "fst (spec t i)"] Cons.prems by simp
qed simp

end

text \<open>The same for an invariant: as long as the environment keeps the protocol no cycle raises and the
  outputs of every cycle pass a check. \<open>safe_run\<close> stops looking at the first input outside the protocol.\<close>

fun safe_run ::
  "('s \<Rightarrow> 'i \<Rightarrow> ('s \<times> 'o) option) \<Rightarrow> ('s \<Rightarrow> 'i \<Rightarrow> bool) \<Rightarrow> ('s \<Rightarrow> 'i \<Rightarrow> 'o \<Rightarrow> bool) \<Rightarrow> 's \<Rightarrow> 'i list \<Rightarrow> bool" where
  "safe_run step ok check s [] = True"
| "safe_run step ok check s (i # is) =
     (if ok s i
      then (case step s i of None \<Rightarrow> False
            | Some (s', out) \<Rightarrow> check s i out \<and> safe_run step ok check s' is)
      else True)"

locale guarded_invariant =
  fixes step :: "'s \<Rightarrow> 'i \<Rightarrow> ('s \<times> 'o) option"
    and ok :: "'s \<Rightarrow> 'i \<Rightarrow> bool"
    and check :: "'s \<Rightarrow> 'i \<Rightarrow> 'o \<Rightarrow> bool"
    and inv :: "'s \<Rightarrow> bool"
  assumes step_keeps: "inv s \<Longrightarrow> ok s i \<Longrightarrow> \<exists>s' out. step s i = Some (s', out) \<and> check s i out \<and> inv s'"
begin

lemma runs_safely: "inv s \<Longrightarrow> safe_run step ok check s is"
proof (induction "is" arbitrary: s)
  case (Cons i "is")
  then show ?case using step_keeps [of s i] by (auto split: option.split)
qed simp

end

text \<open>A total functional model with a protocol is the special case that raises outside the protocol.\<close>

lemma run_fl_total:
  "runs_ok fl ok t is \<Longrightarrow>
   run_fl (\<lambda>t i. if ok t i then Some (fl t i) else None) t is = Some (run fl t is)"
  by (induction "is" arbitrary: t) (auto split: prod.splits)

sublocale cycle_refinement \<subseteq> partial:
  partial_refinement rtl "\<lambda>t i. if ok t i then Some (fl t i) else None" R "\<lambda>_. True"
  by unfold_locales (metis fst_conv snd_conv option.inject option.distinct(1) same_output stay_related)

text \<open>
  Invariants of a machine: what the first state satisfies and every step keeps holds after every
  run that obeys the protocol.
\<close>

locale machine_invariant =
  fixes step :: "'s \<Rightarrow> 'i \<Rightarrow> 's \<times> 'o"
    and ok :: "'s \<Rightarrow> 'i \<Rightarrow> bool"
    and Inv :: "'s \<Rightarrow> bool"
  assumes step_inv: "Inv s \<Longrightarrow> ok s i \<Longrightarrow> Inv (fst (step s i))"
begin

lemma final_inv: "Inv s \<Longrightarrow> runs_ok step ok s is \<Longrightarrow> Inv (final step s is)"
  by (induction "is" arbitrary: s) (auto simp: step_inv)

end

section \<open>Words bit by bit\<close>

text \<open>A word whose bit \<open>i\<close> is \<open>f i\<close>: one wire driven per iteration of a generate loop.\<close>

definition word_bits :: "(nat \<Rightarrow> bool) \<Rightarrow> 'a::len word" where
  "word_bits f = horner_sum of_bool 2 (map f [0..<LENGTH('a)])"

lemma bit_word_bits [simp]: "bit (word_bits f :: 'a::len word) i \<longleftrightarrow> i < LENGTH('a) \<and> f i"
  by (auto simp: word_bits_def bit_horner_sum_bit_word_iff)

lemma word_bits_bit [simp]: "word_bits (bit w) = (w :: 'a::len word)"
  by (rule bit_word_eqI) simp

lemma word_bits_cong:
  "(\<And>i. i < LENGTH('a) \<Longrightarrow> f i = g i) \<Longrightarrow> word_bits f = (word_bits g :: 'a::len word)"
  by (rule bit_word_eqI) simp

lemma word_neq_0_bit: "w \<noteq> 0 \<longleftrightarrow> (\<exists>i < LENGTH('a). bit w i)" for w :: "'a::len word"
  by (auto simp: bit_eq_iff dest: bit_imp_le_length)

lemma bit_exp_word [simp]: "bit (2 ^ k :: 'a::len word) i \<longleftrightarrow> k = i \<and> i < LENGTH('a)"
  by (auto simp: bit_exp_iff)

lemma word_eq_of_nat_iff: "k < 2 ^ LENGTH('a) \<Longrightarrow> w = of_nat k \<longleftrightarrow> unat w = k" for w :: "'a::len word"
  by (auto simp: unsigned_of_nat take_bit_nat_eq_self)

lemma unat_of_nat_small: "k < 2 ^ LENGTH('a) \<Longrightarrow> unat (of_nat k :: 'a::len word) = k"
  by (simp add: unsigned_of_nat take_bit_nat_eq_self)

lemma unat_exp_small: "k < LENGTH('a) \<Longrightarrow> unat (2 ^ k :: 'a::len word) = 2 ^ k"
  using unat_of_nat_small [of "2 ^ k", where ?'a = 'a] by simp

text \<open>Reading and driving the slice \<open>w[start:start+n]\<close> of a word, n the width of the part.\<close>

definition get_slice :: "nat \<Rightarrow> 'w::len word \<Rightarrow> 'd::len word" where
  "get_slice start w = ucast (drop_bit start w)"

definition set_slice :: "nat \<Rightarrow> 'd::len word \<Rightarrow> 'w::len word \<Rightarrow> 'w word" where
  "set_slice start x w =
     word_bits (\<lambda>k. if start \<le> k \<and> k < start + LENGTH('d) then bit x (k - start) else bit w k)"

lemma bit_get_slice:
  "bit (get_slice start (w :: 'w::len word) :: 'd::len word) k \<longleftrightarrow> k < LENGTH('d) \<and> bit w (start + k)"
  by (simp add: get_slice_def bit_simps)

lemma bit_set_slice:
  "bit (set_slice start (x :: 'd::len word) (w :: 'w::len word)) k \<longleftrightarrow>
     k < LENGTH('w) \<and> (if start \<le> k \<and> k < start + LENGTH('d) then bit x (k - start) else bit w k)"
  by (simp add: set_slice_def)

lemma get_set_slice_same:
  "start + LENGTH('d) \<le> LENGTH('w) \<Longrightarrow>
   get_slice start (set_slice start x (w :: 'w::len word)) = (x :: 'd::len word)"
  by (rule bit_word_eqI) (auto simp: bit_get_slice bit_set_slice)

lemma get_set_slice_disjoint:
  "a + LENGTH('d) \<le> b \<or> b + LENGTH('e) \<le> a \<Longrightarrow>
   (get_slice a (set_slice b (x :: 'e::len word) (w :: 'w::len word)) :: 'd::len word) = get_slice a w"
  by (rule bit_word_eqI) (auto simp: bit_get_slice bit_set_slice dest: bit_imp_le_length)

section \<open>The lowest set bit\<close>

lemma odd_minus_one: "odd y \<Longrightarrow> y - 1 = unset_bit 0 y" for y :: "'a::len word"
proof -
  assume odd: "odd y"
  have "unset_bit 0 y + 1 = unset_bit 0 y OR 1"
    by (rule disjunctive_add) (auto simp: bit_simps)
  also have "\<dots> = y"
    by (rule bit_word_eqI) (use odd in \<open>auto simp: bit_simps bit_0\<close>)
  finally show ?thesis by (simp add: diff_eq_eq)
qed

lemma lowest_bit_split:
  fixes x :: "'a::len word"
  assumes "\<And>j. j < l \<Longrightarrow> \<not> bit x j"
  shows "x = push_bit l (drop_bit l x)"
proof (rule bit_word_eqI)
  fix n assume "n < LENGTH('a)"
  then show "bit x n = bit (push_bit l (drop_bit l x)) n"
    using assms [of n] by (cases "n < l") (auto simp: bit_simps)
qed

text \<open>Subtracting one clears the lowest set bit and sets every bit below it.\<close>

lemma bit_minus_one:
  fixes x :: "'a::len word"
  assumes l: "bit x l" and low: "\<And>j. j < l \<Longrightarrow> \<not> bit x j" and k: "k < LENGTH('a)"
  shows "bit (x - 1) k \<longleftrightarrow> k < l \<or> (l < k \<and> bit x k)"
proof -
  let ?y = "drop_bit l x"
  have ll: "l < LENGTH('a)" using l by (simp add: bit_imp_le_length)
  have x: "x = push_bit l ?y" using low by (rule lowest_bit_split)
  have odd: "odd ?y" using l by (simp add: bit_iff_odd_drop_bit)
  have "x - 1 = push_bit l (?y - 1) + mask l"
    by (subst x) (simp add: push_bit_eq_mult mask_eq_exp_minus_1 algebra_simps)
  also have "\<dots> = push_bit l (unset_bit 0 ?y) OR mask l"
    unfolding odd_minus_one [OF odd]
    by (rule disjunctive_add) (auto simp: bit_simps)
  finally show ?thesis using k ll
    by (auto simp: bit_simps not_less le_less dest: low)
qed

text \<open>The index of the lowest set bit, searched upwards as the code's loops do.\<close>

definition first_set :: "'a::len word \<Rightarrow> nat option" where
  "first_set w = find (bit w) [0..<LENGTH('a)]"

lemma find_upt_Some_iff:
  "find P [a..<b] = Some i \<longleftrightarrow> a \<le> i \<and> i < b \<and> P i \<and> (\<forall>j. a \<le> j \<and> j < i \<longrightarrow> \<not> P j)"
proof (induction "b - a" arbitrary: a)
  case 0
  then show ?case by simp
next
  case (Suc n)
  then have ab: "a < b" and step: "n = b - Suc a" by simp_all
  note IH = Suc.hyps(1) [OF step]
  have up: "[a..<b] = a # [Suc a..<b]" using ab by (simp add: upt_conv_Cons)
  show ?case
  proof (cases "P a")
    case True
    then show ?thesis using ab by (auto simp: up)
  next
    case False
    then have "a \<le> i \<and> P i \<longleftrightarrow> Suc a \<le> i \<and> P i"
      and "(\<forall>j. a \<le> j \<and> j < i \<longrightarrow> \<not> P j) \<longleftrightarrow> (\<forall>j. Suc a \<le> j \<and> j < i \<longrightarrow> \<not> P j)"
      by (metis le_antisym not_less_eq_eq Suc_leD)+
    then show ?thesis using IH False by (simp add: up) blast
  qed
qed

lemma find_upt_None_iff: "find P [a..<b] = None \<longleftrightarrow> (\<forall>i. a \<le> i \<and> i < b \<longrightarrow> \<not> P i)"
  by (auto simp: find_None_iff)

lemma find_SomeD: "find P xs = Some x \<Longrightarrow> P x \<and> x \<in> set xs"
  by (auto simp: find_Some_iff)

lemma map_le_iff: "m \<subseteq>\<^sub>m m' \<longleftrightarrow> (\<forall>k x. m k = Some x \<longrightarrow> m' k = Some x)"
  by (auto simp: map_le_def dom_def)

lemma find_append: "find P (xs @ ys) = (case find P xs of Some x \<Rightarrow> Some x | None \<Rightarrow> find P ys)"
  by (induction xs) auto

lemma find_upt_split:
  assumes "a \<le> b" "b \<le> c"
  shows "find P [a..<c] = (case find P [a..<b] of Some i \<Rightarrow> Some i | None \<Rightarrow> find P [b..<c])"
proof -
  have "[a..<c] = [a..<b] @ [b..<c]"
    using assms by (metis le_add_diff_inverse upt_add_eq_append)
  then show ?thesis by (simp only: find_append)
qed

lemma first_set_Some_iff:
  "first_set w = Some l \<longleftrightarrow> bit w l \<and> (\<forall>j < l. \<not> bit w j)" for w :: "'a::len word"
  by (auto simp: first_set_def find_upt_Some_iff bit_imp_le_length)

lemma first_set_None_iff [simp]: "first_set w = None \<longleftrightarrow> w = 0" for w :: "'a::len word"
  using word_neq_0_bit [of w] by (auto simp: first_set_def find_upt_None_iff)

lemma first_set_0 [simp]: "first_set 0 = None"
  by simp

lemma first_set_less: "first_set w = Some l \<Longrightarrow> l < LENGTH('a)" for w :: "'a::len word"
  by (auto simp: first_set_Some_iff bit_imp_le_length)

end
