(* ===== verification/Arbiters.thy ===== *)
theory Arbiters
  imports Prelude
begin

text \<open>
  The thermometer mask and the two arbiters: \<open>lizard/util/rtl/thermometer_mask.py\<close>,
  \<open>lizard/util/rtl/arbiters.py\<close> and their functional models \<open>lizard/util/fl/thermometer_mask.py\<close>,
  \<open>lizard/util/fl/arbiters.py\<close>. A request vector of \<open>nreqs\<close> bits is a word of that length.
\<close>

section \<open>Thermometer mask\<close>

definition thermometer_mask :: "'n::len word \<Rightarrow> 'n word" where
  "thermometer_mask inp =
     (let out1 = inp XOR (inp - 1);
          out2 = (if inp = 0 then out1 else NOT out1)
      in out2 OR inp)"

text \<open>The functional model computes on Python integers and truncates at the end.\<close>

definition thermometer_mask_fl :: "int \<Rightarrow> 'n::len word" where
  "thermometer_mask_fl inp =
     (let out = inp XOR (inp - 1);
          out = (if inp = 0 then out else NOT out)
      in word_of_int (out OR inp))"

lemma word_of_int_bitwise:
  "word_of_int (a XOR b) = (word_of_int a XOR word_of_int b :: 'n::len word)"
  "word_of_int (a OR b) = (word_of_int a OR word_of_int b :: 'n::len word)"
  "word_of_int (NOT a) = (NOT (word_of_int a) :: 'n::len word)"
  by (auto intro!: bit_word_eqI simp: bit_simps)

lemma bit_thermometer_mask_Some:
  assumes "first_set x = Some l" and "k < LENGTH('n)"
  shows "bit (thermometer_mask (x :: 'n::len word)) k \<longleftrightarrow> l \<le> k"
proof -
  have l: "bit x l" and low: "\<And>j. j < l \<Longrightarrow> \<not> bit x j"
    using assms(1) by (auto simp: first_set_Some_iff)
  then have "x \<noteq> 0" by auto
  then show ?thesis
    using bit_minus_one [OF l low assms(2)] l low assms(2)
    by (auto simp: thermometer_mask_def bit_simps not_less le_less)
qed

lemma thermometer_mask_0 [simp]: "thermometer_mask 0 = (- 1 :: 'n::len word)"
  by (simp add: thermometer_mask_def)

lemma bit_thermometer_mask:
  "bit (thermometer_mask (x :: 'n::len word)) k \<longleftrightarrow>
     k < LENGTH('n) \<and> (x = 0 \<or> (\<exists>l \<le> k. bit x l))"
proof (cases "first_set x")
  case None
  then show ?thesis by (simp add: bit_simps)
next
  case (Some l)
  then have l: "bit x l" "\<And>j. j < l \<Longrightarrow> \<not> bit x j" and "x \<noteq> 0"
    by (auto simp: first_set_Some_iff)
  then have "l \<le> k \<longleftrightarrow> (\<exists>j \<le> k. bit x j)"
    by (meson le_trans not_le)
  with Some \<open>x \<noteq> 0\<close> show ?thesis
    by (cases "k < LENGTH('n)") (auto simp: bit_thermometer_mask_Some dest: bit_imp_le_length)
qed

section \<open>Priority arbiter\<close>

definition priority_arbiter_grant :: "'n::len word \<Rightarrow> 'n word" where
  "priority_arbiter_grant reqs = reqs AND (0 - reqs)"

text \<open>The loop of \<open>PriorityArbiterFL.grant\<close> over the remaining range, shifting \<open>temp\<close>.\<close>

fun priority_arbiter_fl_loop :: "nat list \<Rightarrow> int \<Rightarrow> int" where
  "priority_arbiter_fl_loop [] temp = 0"
| "priority_arbiter_fl_loop (i # rest) temp =
     (if temp AND 1 \<noteq> 0 then push_bit i 1
      else priority_arbiter_fl_loop rest (drop_bit 1 temp))"

definition priority_arbiter_fl_grant :: "'n::len word \<Rightarrow> int" where
  "priority_arbiter_fl_grant reqs = priority_arbiter_fl_loop [0..<LENGTH('n)] (uint reqs)"

lemma priority_grant_Some:
  assumes "first_set x = Some l"
  shows "priority_arbiter_grant x = push_bit l (1 :: 'n::len word)"
proof -
  have l: "bit x l" and low: "\<And>j. j < l \<Longrightarrow> \<not> bit x j"
    using assms by (auto simp: first_set_Some_iff)
  have eq: "priority_arbiter_grant x = x AND NOT (x - 1)"
    by (simp only: priority_arbiter_grant_def diff_0 minus_eq_not_minus_1)
  show ?thesis
  proof (rule bit_word_eqI)
    fix k assume k: "k < LENGTH('n)"
    have "bit (NOT (x - 1)) k \<longleftrightarrow> l \<le> k \<and> (k \<noteq> l \<longrightarrow> \<not> bit x k)"
      using bit_minus_one [OF l low k] k by (auto simp: bit_simps)
    then show "bit (priority_arbiter_grant x) k = bit (push_bit l (1 :: 'n word)) k"
      using l low k
      by (auto simp: eq bit_and_iff)
  qed
qed

lemma priority_grant_0 [simp]: "priority_arbiter_grant 0 = 0"
  by (simp add: priority_arbiter_grant_def)

text \<open>
  What a client relies on: the grant is the one-hot code of the lowest request, and zero exactly
  when nothing is requested.
\<close>

locale lowest_grant =
  fixes grant :: "'n::len word \<Rightarrow> 'n word"
  assumes grant_none: "grant 0 = 0"
    and grant_some: "first_set x = Some l \<Longrightarrow> grant x = push_bit l 1"
begin

lemma grant_eq: "grant x = (case first_set x of None \<Rightarrow> 0 | Some l \<Rightarrow> push_bit l 1)"
  by (cases "first_set x") (auto simp: grant_none grant_some)

lemma bit_grant: "bit (grant x) k \<longleftrightarrow> first_set x = Some k"
  by (auto simp: grant_eq first_set_less split: option.splits)

lemma grant_0_iff: "grant x = 0 \<longleftrightarrow> x = 0"
proof (cases "first_set x")
  case None
  then show ?thesis by (simp add: grant_none)
next
  case (Some l)
  then have "bit (grant x) l" by (simp add: bit_grant)
  moreover from Some have "x \<noteq> 0" by auto
  ultimately show ?thesis by auto
qed

text \<open>
  Two of these arbiters, one behind a mask, give the lowest request inside the mask if there is
  one and the lowest request otherwise: the select step of a round-robin arbiter.
\<close>

lemma masked_select:
  "(if grant (x AND m) = 0 then grant x else grant (x AND m)) =
   (case first_set (x AND m) of
      Some l \<Rightarrow> push_bit l 1
    | None \<Rightarrow> (case first_set x of None \<Rightarrow> 0 | Some l \<Rightarrow> push_bit l 1))"
  using grant_0_iff [of "x AND m"]
  by (cases "first_set (x AND m)") (auto simp: grant_eq split: option.splits)

end

interpretation parb: lowest_grant priority_arbiter_grant
  by unfold_locales (auto simp: priority_grant_Some)

lemma fl_loop_find:
  "priority_arbiter_fl_loop [a..<b] temp =
     (case find (\<lambda>i. bit temp (i - a)) [a..<b] of None \<Rightarrow> 0 | Some i \<Rightarrow> push_bit i 1)"
proof (induction "b - a" arbitrary: a temp)
  case 0
  then show ?case by simp
next
  case (Suc n)
  then have ab: "a < b" and step: "n = b - Suc a" by simp_all
  have up: "[a..<b] = a # [Suc a..<b]" using ab by (simp add: upt_conv_Cons)
  have odd: "temp AND 1 \<noteq> 0 \<longleftrightarrow> bit temp 0"
    by (simp add: and_one_eq bit_0 mod2_eq_if)
  have cong: "find (\<lambda>i. bit (drop_bit 1 temp) (i - Suc a)) [Suc a..<b] =
              find (\<lambda>i. bit temp (i - a)) [Suc a..<b]"
    by (rule find_cong) (auto simp: bit_simps Suc_diff_Suc)
  show ?case
    unfolding up using Suc.hyps(1) [OF step, of "drop_bit 1 temp"] cong
    by (simp add: odd)
qed

lemma priority_fl_grant_eq:
  "priority_arbiter_fl_grant (x :: 'n::len word) =
     (case first_set x of None \<Rightarrow> 0 | Some l \<Rightarrow> push_bit l 1)"
proof -
  have "find (\<lambda>i. bit (uint x) (i - 0)) [0..<LENGTH('n)] = first_set x"
    by (auto simp: first_set_def bit_uint_iff intro!: find_cong)
  then show ?thesis
    by (simp add: priority_arbiter_fl_grant_def fl_loop_find)
qed

lemma uint_exp_word: "l < LENGTH('n) \<Longrightarrow> uint (push_bit l 1 :: 'n::len word) = push_bit l 1"
  by (rule bit_eqI) (auto simp: bit_uint_iff bit_simps bit_1_iff)

section \<open>Round-robin arbiter\<close>

text \<open>
  The mask register holds the last grant shifted left by one (zero after reset). The masked and
  the raw priority arbiter see the requests with and without the thermometer mask.
\<close>

definition round_robin_final_grant :: "'n::len word \<Rightarrow> 'n word \<Rightarrow> 'n word" where
  "round_robin_final_grant mask_reg reqs =
     (let masked_grant = priority_arbiter_grant (reqs AND thermometer_mask mask_reg)
      in if masked_grant = 0 then priority_arbiter_grant reqs else masked_grant)"

definition round_robin_step :: "('n::len word, 'n word, 'n word) machine" where
  "round_robin_step mask_reg reqs =
     (let final_grant = round_robin_final_grant mask_reg reqs
      in (push_bit 1 final_grant, final_grant))"

definition round_robin_reset :: "'n::len word" where
  "round_robin_reset = 0"

text \<open>The functional model remembers the index granted last, scanning two ranges in turn.\<close>

fun round_robin_fl_scan :: "nat list \<Rightarrow> 'n::len word \<Rightarrow> nat option" where
  "round_robin_fl_scan [] reqs = None"
| "round_robin_fl_scan (i # rest) reqs =
     (if bit reqs i then Some i else round_robin_fl_scan rest reqs)"

definition round_robin_fl_step :: "(nat option, 'n::len word, int) machine" where
  "round_robin_fl_step last_grant reqs =
     (let end = (case last_grant of Some l \<Rightarrow> l + 1 | None \<Rightarrow> LENGTH('n))
      in case round_robin_fl_scan [end..<LENGTH('n)] reqs of
           Some i \<Rightarrow> (Some i, push_bit i 1)
         | None \<Rightarrow> (case round_robin_fl_scan [0..<end] reqs of
             Some i \<Rightarrow> (Some i, push_bit i 1)
           | None \<Rightarrow> (None, 0)))"

definition round_robin_fl_reset :: "nat option" where
  "round_robin_fl_reset = None"

lemma round_robin_fl_scan_find: "round_robin_fl_scan xs reqs = find (bit reqs) xs"
  by (induction xs) auto

text \<open>The order in which the next cycle looks at the requests, as a list of indices.\<close>

definition rr_order :: "nat \<Rightarrow> nat option \<Rightarrow> nat list" where
  "rr_order n last_grant =
     (case last_grant of None \<Rightarrow> [0..<n] | Some l \<Rightarrow> [Suc l..<n] @ [0..<Suc l])"

definition rr_choice :: "nat option \<Rightarrow> 'n::len word \<Rightarrow> nat option" where
  "rr_choice last_grant reqs = find (bit reqs) (rr_order LENGTH('n) last_grant)"

lemma rr_fl_step_choice:
  "round_robin_fl_step lg (reqs :: 'n::len word) =
     (case rr_choice lg reqs of Some i \<Rightarrow> (Some i, push_bit i 1) | None \<Rightarrow> (None, 0))"
  by (auto simp: round_robin_fl_step_def rr_choice_def rr_order_def round_robin_fl_scan_find
      find_append split: option.splits)

definition rr_related :: "'n::len word \<Rightarrow> nat option \<Rightarrow> bool" where
  "rr_related mask_reg last_grant \<longleftrightarrow>
     (case last_grant of None \<Rightarrow> mask_reg = 0
      | Some l \<Rightarrow> l < LENGTH('n) \<and> mask_reg = push_bit (Suc l) 1)"

lemma first_set_masked:
  assumes "e < LENGTH('n)"
  shows "first_set (reqs AND thermometer_mask (push_bit e (1 :: 'n::len word))) =
         find (bit reqs) [e..<LENGTH('n)]"
proof -
  have "(push_bit e 1 :: 'n word) \<noteq> 0"
    using assms by (auto simp: word_neq_0_bit)
  then have "bit (reqs AND thermometer_mask (push_bit e (1 :: 'n word))) =
             (\<lambda>i. e \<le> i \<and> bit reqs i)"
    using assms by (auto simp: fun_eq_iff bit_and_iff bit_thermometer_mask dest: bit_imp_le_length)
  then have "first_set (reqs AND thermometer_mask (push_bit e (1 :: 'n word))) =
             find (\<lambda>i. e \<le> i \<and> bit reqs i) [0..<LENGTH('n)]"
    by (simp only: first_set_def)
  also have "\<dots> = find (\<lambda>i. e \<le> i \<and> bit reqs i) [e..<LENGTH('n)]"
    using assms by (subst find_upt_split [of 0 e]) (auto simp: find_upt_None_iff split: option.splits
      dest!: find_upt_Some_iff [THEN iffD1])
  also have "\<dots> = find (bit reqs) [e..<LENGTH('n)]"
    by (rule find_cong) auto
  finally show ?thesis .
qed

text \<open>The RTL grant is the one-hot code of the choice of the functional model.\<close>

lemma round_robin_grant_choice:
  assumes "rr_related mask_reg lg"
  shows "round_robin_final_grant mask_reg (reqs :: 'n::len word) =
         (case rr_choice lg reqs of None \<Rightarrow> 0 | Some i \<Rightarrow> push_bit i 1)"
proof -
  have full: "first_set reqs = find (bit reqs) [0..<LENGTH('n)]" by (simp add: first_set_def)
  have sel: "round_robin_final_grant mask_reg reqs =
      (case first_set (reqs AND thermometer_mask mask_reg) of
         Some l \<Rightarrow> push_bit l 1
       | None \<Rightarrow> (case first_set reqs of None \<Rightarrow> 0 | Some l \<Rightarrow> push_bit l 1))"
    unfolding round_robin_final_grant_def Let_def by (rule parb.masked_select)
  show ?thesis
  proof (cases lg)
    case None
    with assms have "mask_reg = 0" by (simp add: rr_related_def)
    then show ?thesis
      using sel None by (auto simp: rr_choice_def rr_order_def full split: option.splits)
  next
    case (Some l)
    with assms have l: "l < LENGTH('n)" and m: "mask_reg = push_bit (Suc l) 1"
      by (auto simp: rr_related_def)
    show ?thesis
    proof (cases "Suc l < LENGTH('n)")
      case True
      have "find (bit reqs) [0..<LENGTH('n)] =
            (case find (bit reqs) [0..<Suc l] of Some i \<Rightarrow> Some i
             | None \<Rightarrow> find (bit reqs) [Suc l..<LENGTH('n)])"
        using l by (intro find_upt_split) auto
      then show ?thesis
        using Some True first_set_masked [OF True, of reqs]
        unfolding sel by (auto simp: m rr_choice_def rr_order_def full find_append simp del: upt_Suc
            split: option.splits)
    next
      case False
      then have n: "LENGTH('n) = Suc l" using l by simp
      then have "mask_reg = 0" unfolding m by (intro bit_word_eqI) (auto simp: bit_simps)
      then show ?thesis
        using sel Some n by (auto simp: rr_choice_def rr_order_def full simp del: upt_Suc
            split: option.splits)
    qed
  qed
qed

lemma rr_choice_less: "rr_choice lg (reqs :: 'n::len word) = Some i \<Longrightarrow> i < LENGTH('n) \<and> bit reqs i"
  by (auto simp: rr_choice_def find_Some_iff bit_imp_le_length)

lemma rr_related_next:
  assumes "rr_related mask_reg lg"
  shows "rr_related (push_bit 1 (round_robin_final_grant mask_reg (reqs :: 'n::len word)))
                    (rr_choice lg reqs)"
  using rr_choice_less [of lg reqs]
  by (auto simp: round_robin_grant_choice [OF assms] rr_related_def push_bit_push_bit
      split: option.splits)

lemma uint_two_power: "l < LENGTH('n) \<Longrightarrow> uint (2 ^ l :: 'n::len word) = 2 ^ l"
  using uint_exp_word [of l, where ?'n = 'n] by simp

interpretation rr: cycle_refinement
  "\<lambda>s i. apsnd uint (round_robin_step s (i :: 'n::len word))" round_robin_fl_step rr_related
  "\<lambda>_ _. True"
proof unfold_locales
  fix s :: "'n word" and t and i :: "'n word"
  assume r: "rr_related s t"
  show "snd (apsnd uint (round_robin_step s i)) = snd (round_robin_fl_step t i)"
    using rr_choice_less [of t i]
    by (auto simp: round_robin_step_def rr_fl_step_choice round_robin_grant_choice [OF r]
        uint_two_power Let_def split: option.splits)
  show "rr_related (fst (apsnd uint (round_robin_step s i))) (fst (round_robin_fl_step t i))"
    using rr_related_next [OF r, of i]
    by (auto simp: round_robin_step_def rr_fl_step_choice Let_def split: option.splits)
qed

lemma rr_related_reset: "rr_related round_robin_reset round_robin_fl_reset"
  by (simp add: rr_related_def round_robin_reset_def round_robin_fl_reset_def)

section \<open>Properties\<close>

text \<open>On every request vector of every width the RTL priority arbiter, which isolates the lowest
  set bit with \<open>reqs & (0 - reqs)\<close>, gives the same grant as the shifting loop of the functional
  model.\<close>

theorem priority_arbiter_rtl_eq_fl:
  "uint (priority_arbiter_grant (reqs :: 'n::len word)) = priority_arbiter_fl_grant reqs"
  by (cases "first_set reqs")
     (auto simp: priority_fl_grant_eq parb.grant_eq uint_exp_word [simplified] first_set_less)

text \<open>From reset, on every sequence of request vectors, the RTL round-robin arbiter (mask register,
  thermometer mask, two priority arbiters) grants in every cycle exactly what the functional
  model that remembers the last granted index grants.\<close>

theorem round_robin_refines_fl:
  "map uint (run round_robin_step round_robin_reset reqss) =
   run round_robin_fl_step round_robin_fl_reset (reqss :: 'n::len word list)"
  using rr.run_refines [OF rr_related_reset runs_ok_always]
  by (simp add: run_map_output)

text \<open>The position of request \<open>i\<close> in the scan order.\<close>

definition rr_distance :: "nat \<Rightarrow> nat option \<Rightarrow> nat \<Rightarrow> nat" where
  "rr_distance n lg i =
     (case lg of None \<Rightarrow> i | Some l \<Rightarrow> if l < i then i - l - 1 else n - l - 1 + i)"

lemma rr_distance_less: "i < n \<Longrightarrow> (\<And>l. lg = Some l \<Longrightarrow> l < n) \<Longrightarrow> rr_distance n lg i < n"
  by (auto simp: rr_distance_def split: option.splits)

lemma rr_choice_progress:
  assumes i: "bit (reqs :: 'n::len word) i" and lg: "\<And>l. lg = Some l \<Longrightarrow> l < LENGTH('n)"
  shows "\<exists>j. rr_choice lg reqs = Some j \<and>
             (j = i \<or> rr_distance LENGTH('n) (Some j) i < rr_distance LENGTH('n) lg i)"
proof (cases lg)
  case None
  show ?thesis
  proof (cases "find (bit reqs) [0..<LENGTH('n)]")
    case none: None
    then show ?thesis using i bit_imp_le_length [OF i] by (auto simp: find_upt_None_iff)
  next
    case (Some j)
    then have "j \<le> i"
      using i by (auto simp: find_upt_Some_iff) (meson not_le)
    then show ?thesis using Some None by (auto simp: rr_choice_def rr_order_def rr_distance_def)
  qed
next
  case (Some l)
  have ln: "l < LENGTH('n)" and iN: "i < LENGTH('n)" using lg Some bit_imp_le_length [OF i] by auto
  show ?thesis
  proof (cases "find (bit reqs) [Suc l..<LENGTH('n)]")
    case None
    then have none: "\<And>k. Suc l \<le> k \<Longrightarrow> k < LENGTH('n) \<Longrightarrow> \<not> bit reqs k"
      by (auto simp: find_upt_None_iff)
    then have il: "i \<le> l" using i iN by (meson not_less_eq_eq)
    obtain j where j: "find (bit reqs) [0..<Suc l] = Some j"
      using i il by (cases "find (bit reqs) [0..<Suc l]") (auto simp: find_upt_None_iff simp del: upt_Suc)
    then have "j \<le> i"
      using i il by (auto simp: find_upt_Some_iff simp del: upt_Suc) (meson not_le)
    then show ?thesis
      using j Some \<open>i \<le> l\<close> ln None
      by (auto simp: rr_choice_def rr_order_def find_append rr_distance_def simp del: upt_Suc)
  next
    case (Some j)
    then have j: "Suc l \<le> j" "j < LENGTH('n)" "\<And>k. Suc l \<le> k \<Longrightarrow> k < j \<Longrightarrow> \<not> bit reqs k"
      by (auto simp: find_upt_Some_iff)
    then have "j \<le> i \<or> i \<le> l" using i by (meson not_less_eq_eq not_le)
    then show ?thesis
      using j(1,2) Some \<open>lg = Some l\<close>
      by (auto simp: rr_choice_def rr_order_def find_append rr_distance_def simp del: upt_Suc)
  qed
qed

lemma round_robin_fl_served:
  assumes "i < LENGTH('n)" and "\<And>l. lg = Some l \<Longrightarrow> l < LENGTH('n)"
    and "\<forall>r \<in> set reqss. bit r i" and "rr_distance LENGTH('n) lg i < length reqss"
  shows "push_bit i 1 \<in> set (run round_robin_fl_step lg (reqss :: 'n::len word list))"
  using assms(2-)
proof (induction reqss arbitrary: lg)
  case Nil
  then show ?case by simp
next
  case (Cons r reqss)
  then obtain j where j: "rr_choice lg r = Some j"
    and less: "j = i \<or> rr_distance LENGTH('n) (Some j) i < rr_distance LENGTH('n) lg i"
    using rr_choice_progress [of r i lg] by auto
  show ?case
  proof (cases "j = i")
    case True
    then show ?thesis using j by (simp add: rr_fl_step_choice [of lg r])
  next
    case False
    with less Cons.prems have "rr_distance LENGTH('n) (Some j) i < length reqss" by simp
    then have "push_bit i 1 \<in> set (run round_robin_fl_step (Some j) reqss)"
      using Cons.prems rr_choice_less [OF j] by (intro Cons.IH) auto
    then show ?thesis using j by (simp add: rr_fl_step_choice [of lg r])
  qed
qed

lemma rr_fl_last_less:
  "(\<And>l. lg = Some l \<Longrightarrow> l < LENGTH('n)) \<Longrightarrow>
   final round_robin_fl_step lg (past :: 'n::len word list) = Some l \<Longrightarrow> l < LENGTH('n)"
proof (induction past arbitrary: lg)
  case (Cons r past)
  then show ?case
    using rr_choice_less [of lg r]
    by (cases "rr_choice lg r") (auto simp: rr_fl_step_choice [of lg r])
qed simp

text \<open>C37: the round-robin arbiter starves nobody: whatever happened before, a request that stays
  asserted for as many consecutive cycles as there are requesters is granted in one of them.\<close>

theorem round_robin_no_starvation:
  assumes "i < LENGTH('n)" and "length reqss = LENGTH('n)" and "\<forall>r \<in> set reqss. bit r i"
  shows "push_bit i 1 \<in>
         set (run round_robin_step (final round_robin_step round_robin_reset past)
                  (reqss :: 'n::len word list))"
proof -
  let ?s = "final round_robin_step round_robin_reset past"
  let ?t = "final round_robin_fl_step round_robin_fl_reset past"
  have rel: "rr_related ?s ?t"
    using rr.final_refines [OF rr_related_reset runs_ok_always, of past]
    by (simp add: final_map_output)
  have less: "\<And>l. ?t = Some l \<Longrightarrow> l < LENGTH('n)"
    by (rule rr_fl_last_less [of round_robin_fl_reset past]) (auto simp: round_robin_fl_reset_def)
  have "push_bit i 1 \<in> set (run round_robin_fl_step ?t reqss)"
    using assms less rr_distance_less [OF assms(1) less]
    by (intro round_robin_fl_served) auto
  then have "push_bit i 1 \<in> uint ` set (run round_robin_step ?s reqss)"
    using rr.run_refines [OF rel runs_ok_always, of reqss]
    by (simp add: run_map_output flip: set_map)
  then obtain g where "g \<in> set (run round_robin_step ?s reqss)" and "uint g = uint (2 ^ i :: 'n word)"
    using assms(1) by (auto simp: uint_two_power)
  then show ?thesis by (simp add: word_uint_eq_iff [symmetric])
qed

theorem round_robin_no_starvation_witness:
  "(4 :: 4 word) \<in> set (run round_robin_step (final round_robin_step round_robin_reset [15, 2])
     [7, 13, 5, 12])"
  using round_robin_no_starvation [of 2 "[7, 13, 5, 12] :: 4 word list" "[15, 2]"]
  by (simp add: bit_numeral_rec)

end
