(* ===== verification/Toposort.thy ===== *)
theory Toposort
  imports Prelude
begin

text \<open>
  \<open>lizard/util/toposort.py\<close>: the topological sort that orders the methods of a module and the
  blocks of a wrapped model. A graph is a dictionary from items to their dependences, an
  association list with distinct keys here; the raised \<open>CircularDependencyError\<close> is \<open>None\<close>.
\<close>

type_synonym 'a graph = "('a \<times> 'a list) list"

text \<open>The \<open>while True\<close> loop: peel off the items without dependences, group by group.\<close>

definition ordered_items :: "'a graph \<Rightarrow> 'a list" where
  "ordered_items data = map fst (filter (\<lambda>(item, dep). dep = []) data)"

definition remove_items :: "'a list \<Rightarrow> 'a graph \<Rightarrow> 'a graph" where
  "remove_items ordered data =
     map (\<lambda>(item, dep). (item, filter (\<lambda>x. x \<notin> set ordered) dep))
       (filter (\<lambda>(item, dep). item \<notin> set ordered) data)"

lemma remove_items_shorter:
  assumes "ordered_items data \<noteq> []"
  shows "length (remove_items (ordered_items data) data) < length data"
proof -
  obtain item where "(item, []) \<in> set data"
    using assms by (auto simp: ordered_items_def filter_empty_conv)
  then have "item \<in> set (ordered_items data)"
    by (force simp: ordered_items_def)
  then have "length (filter (\<lambda>(item, dep). item \<notin> set (ordered_items data)) data) < length data"
    using \<open>(item, []) \<in> set data\<close> by (intro length_filter_less) auto
  then show ?thesis by (simp add: remove_items_def)
qed

function toposort_loop :: "'a graph \<Rightarrow> 'a list list \<times> 'a graph" where
  "toposort_loop data =
     (let ordered = ordered_items data
      in if ordered = [] then ([], data)
         else let (groups, rest) = toposort_loop (remove_items ordered data)
              in (ordered # groups, rest))"
  by pat_completeness auto
termination
  by (relation "measure length") (use remove_items_shorter in auto)

declare toposort_loop.simps [simp del]

definition extra_items_in_deps :: "'a graph \<Rightarrow> 'a list" where
  "extra_items_in_deps data =
     filter (\<lambda>x. x \<notin> set (map fst data)) (remdups (concat (map snd data)))"

definition toposort :: "'a::linorder graph \<Rightarrow> 'a list option" where
  "toposort data =
     (if data = [] then Some []
      else let data1 = data @ map (\<lambda>item. (item, [])) (extra_items_in_deps data);
               (groups, rest) = toposort_loop data1
           in if rest \<noteq> [] then None else Some (concat (map sort groups)))"

text \<open>The graph as a relation: \<open>i\<close> has an edge to each of its dependences.\<close>

definition graph_edges :: "'a graph \<Rightarrow> ('a \<times> 'a) set" where
  "graph_edges data = {(i, j). \<exists>dep. (i, dep) \<in> set data \<and> j \<in> set dep}"

definition graph_nodes :: "'a graph \<Rightarrow> 'a set" where
  "graph_nodes data = fst ` set data \<union> snd ` graph_edges data"

section \<open>The loop\<close>

lemma ordered_items_iff:
  "distinct (map fst data) \<Longrightarrow> (k, dep) \<in> set data \<Longrightarrow> k \<in> set (ordered_items data) \<longleftrightarrow> dep = []"
  by (force simp: ordered_items_def dest: eq_key_imp_eq_value)

lemma distinct_ordered_items: "distinct (map fst data) \<Longrightarrow> distinct (ordered_items data)"
  by (auto simp: ordered_items_def distinct_map intro: inj_on_subset)

lemma distinct_remove_items: "distinct (map fst data) \<Longrightarrow> distinct (map fst (remove_items xs data))"
  by (auto simp: remove_items_def distinct_map comp_def split_beta intro: inj_on_subset)

lemma remove_items_mem:
  "(k, dep) \<in> set data \<Longrightarrow> k \<notin> set xs \<Longrightarrow> (k, filter (\<lambda>x. x \<notin> set xs) dep) \<in> set (remove_items xs data)"
  by (force simp: remove_items_def)

lemma keys_remove_items: "fst ` set (remove_items xs data) = fst ` set data - set xs"
  by (force simp: remove_items_def)

definition peeled :: "'a graph \<Rightarrow> 'a list \<Rightarrow> 'a graph \<Rightarrow> bool" where
  "peeled data xs rest \<longleftrightarrow>
     distinct xs \<and> set xs \<union> fst ` set rest = fst ` set data \<and> set xs \<inter> fst ` set rest = {} \<and>
     (\<forall>k dep. (k, dep) \<in> set rest \<longrightarrow> dep \<noteq> []) \<and>
     (\<forall>k dep. (k, dep) \<in> set data \<longrightarrow> k \<notin> set xs \<longrightarrow>
        (k, filter (\<lambda>x. x \<notin> set xs) dep) \<in> set rest) \<and>
     (\<forall>n < length xs. \<forall>dep. (xs ! n, dep) \<in> set data \<longrightarrow> set dep \<subseteq> set (take n xs))"

lemma toposort_loop_peeled:
  assumes "toposort_loop data = (groups, rest)" and "distinct (map fst data)"
  shows "peeled data (concat (map sort groups)) rest"
  using assms
proof (induction data arbitrary: groups rule: toposort_loop.induct)
  case (1 data)
  let ?o = "ordered_items data"
  show ?case
  proof (cases "?o = []")
    case True
    then have "groups = []" "rest = data"
      using "1.prems"(1) by (simp_all add: toposort_loop.simps [of data])
    then show ?thesis
      using True "1.prems"(2) ordered_items_iff [of data] by (auto simp: peeled_def)
  next
    case False
    then obtain gs where gs: "toposort_loop (remove_items ?o data) = (gs, rest)"
      and groups: "groups = ?o # gs"
      using "1.prems"(1) by (auto simp: toposort_loop.simps [of data] Let_def split: prod.splits)
    define ys where "ys = concat (map sort gs)"
    note IH = "1.IH" [OF refl False gs distinct_remove_items [OF "1.prems"(2)], folded ys_def, unfolded peeled_def]
    define xs where "xs = sort ?o @ ys"
    note xs = xs_def
    have sub: "set ?o \<subseteq> fst ` set data" by (auto simp: ordered_items_def)
    have dis: "set ?o \<inter> (set ys \<union> fst ` set rest) = {}"
      using IH by (auto simp: keys_remove_items)
    have "set dep \<subseteq> set (take n xs)" if n: "n < length xs" and k: "(xs ! n, dep) \<in> set data" for n dep
    proof (cases "n < length ?o")
      case True
      then have "xs ! n \<in> set ?o" by (metis length_sort nth_append nth_mem set_sort xs)
      then show ?thesis using ordered_items_iff [OF "1.prems"(2) k] by simp
    next
      case ge: False
      define m where "m = n - length ?o"
      have m: "xs ! n = ys ! m" "m < length ys" "take n xs = sort ?o @ take m ys"
        using ge n by (auto simp: xs m_def nth_append)
      have "ys ! m \<notin> set ?o" using dis m(2) by (metis UnI1 disjoint_iff nth_mem)
      then have "set (filter (\<lambda>x. x \<notin> set ?o) dep) \<subseteq> set (take m ys)"
        using IH m k remove_items_mem by metis
      then show ?thesis by (auto simp: m(3))
    qed
    moreover have "(k, filter (\<lambda>x. x \<notin> set xs) dep) \<in> set rest"
      if k: "(k, dep) \<in> set data" "k \<notin> set xs" for k dep
    proof -
      have "(k, filter (\<lambda>x. x \<notin> set ?o) dep) \<in> set (remove_items ?o data)"
        using k by (intro remove_items_mem) (auto simp: xs)
      moreover have "k \<notin> set ys" using k(2) by (simp add: xs)
      moreover have "\<And>k dep. (k, dep) \<in> set (remove_items ?o data) \<Longrightarrow> k \<notin> set ys \<Longrightarrow>
          (k, filter (\<lambda>x. x \<notin> set ys) dep) \<in> set rest"
        using IH by blast
      ultimately have "(k, filter (\<lambda>x. x \<notin> set ys) (filter (\<lambda>x. x \<notin> set ?o) dep)) \<in> set rest"
        by blast
      then show ?thesis by (simp add: xs conj_commute)
    qed
    ultimately show ?thesis
      using IH dis sub distinct_ordered_items [OF "1.prems"(2)]
      by (auto simp: peeled_def groups xs keys_remove_items simp flip: ys_def)
  qed
qed

section \<open>Cycles\<close>

text \<open>A finite graph in which every one of some nodes has an edge into these nodes has a cycle.\<close>

lemma stuck_cycle:
  assumes "finite S" and "S \<noteq> {}" and step: "\<And>x. x \<in> S \<Longrightarrow> \<exists>y \<in> S. (x, y) \<in> E"
  shows "\<not> acyclic E"
proof
  assume "acyclic E"
  then have "acyclic (E \<inter> S \<times> S)" by (rule acyclic_subset) auto
  then have wf: "wf ((E \<inter> S \<times> S)\<inverse>)"
    using \<open>finite S\<close> by (intro finite_acyclic_wf_converse) auto
  obtain z where "z \<in> S" using \<open>S \<noteq> {}\<close> by auto
  from wf [unfolded wf_eq_minimal, rule_format, OF this]
  obtain x where x: "x \<in> S" "\<And>y. (y, x) \<in> (E \<inter> S \<times> S)\<inverse> \<Longrightarrow> y \<notin> S" by blast
  obtain y where "y \<in> S" "(x, y) \<in> E" using step [OF x(1)] by blast
  then show False using x(1) x(2) [of y] by blast
qed

text \<open>A graph whose nodes stand in a list after their successors has none.\<close>

lemma ordered_acyclic:
  assumes "\<And>i j. (i, j) \<in> E \<Longrightarrow> \<exists>n < length xs. xs ! n = i \<and> j \<in> set (take n xs)"
    and "distinct xs"
  shows "acyclic E"
proof -
  define pos where "pos x = (THE n. n < length xs \<and> xs ! n = x)" for x
  have pos: "pos (xs ! n) = n" if "n < length xs" for n
    unfolding pos_def using that \<open>distinct xs\<close> by (auto simp: nth_eq_iff_index_eq)
  have "(j, i) \<in> measure pos" if "(i, j) \<in> E" for i j
  proof -
    from assms(1) [OF that] obtain n where n: "n < length xs" "xs ! n = i" "j \<in> set (take n xs)"
      by blast
    then obtain m where "m < n" "j = xs ! m" by (metis in_set_conv_nth length_take min_less_iff_conj nth_take)
    then show ?thesis using n pos [of n] pos [of m] by auto
  qed
  then have "E\<inverse> \<subseteq> measure pos" by auto
  then have "wf (E\<inverse>)" using wf_subset by blast
  then show ?thesis using wf_acyclic acyclic_converse by blast
qed

lemma graph_edges_snd: "snd ` graph_edges data = (\<Union>(k, dep) \<in> set data. set dep)"
  by (force simp: graph_edges_def)

lemma extra_items_set: "set (extra_items_in_deps data) = snd ` graph_edges data - fst ` set data"
  by (force simp: extra_items_in_deps_def graph_edges_snd)

lemma toposort_closed_graph:
  fixes data :: "'a::linorder graph"
  defines "data1 \<equiv> data @ map (\<lambda>item. (item, [])) (extra_items_in_deps data)"
  assumes "distinct (map fst data)"
  shows "distinct (map fst data1)" and "graph_edges data1 = graph_edges data"
    and "fst ` set data1 = graph_nodes data"
    and "\<And>k dep. (k, dep) \<in> set data1 \<Longrightarrow> set dep \<subseteq> fst ` set data1"
proof -
  show "distinct (map fst data1)"
    using assms(2) by (auto simp: data1_def extra_items_in_deps_def comp_def)
  show "graph_edges data1 = graph_edges data"
    by (auto simp: data1_def graph_edges_def)
  show "fst ` set data1 = graph_nodes data"
    by (simp add: data1_def graph_nodes_def image_Un image_image extra_items_set)
  show "set dep \<subseteq> fst ` set data1" if k: "(k, dep) \<in> set data1" for k dep
  proof
    fix j assume "j \<in> set dep"
    then have "(k, j) \<in> graph_edges data1" using k by (auto simp: graph_edges_def)
    then have "j \<in> snd ` graph_edges data"
      by (simp only: \<open>graph_edges data1 = graph_edges data\<close>) force
    then show "j \<in> fst ` set data1"
      by (simp add: \<open>fst ` set data1 = graph_nodes data\<close> graph_nodes_def)
  qed
qed

lemma peeledD:
  assumes "peeled data xs rest"
  shows "distinct xs" and "set xs \<union> fst ` set rest = fst ` set data" and "set xs \<inter> fst ` set rest = {}"
    and "(k, dep) \<in> set rest \<Longrightarrow> dep \<noteq> []"
    and "(k, dep) \<in> set data \<Longrightarrow> k \<notin> set xs \<Longrightarrow> (k, filter (\<lambda>x. x \<notin> set xs) dep) \<in> set rest"
  using assms by (simp_all add: peeled_def)

lemma peeled_cycle:
  assumes p: "peeled data xs rest" and d: "distinct (map fst data)" and "rest \<noteq> []"
    and closed: "\<And>k dep. (k, dep) \<in> set data \<Longrightarrow> set dep \<subseteq> fst ` set data"
  shows "\<not> acyclic (graph_edges data)"
proof (rule stuck_cycle [of "fst ` set rest"])
  fix k assume "k \<in> fst ` set rest"
  then have "k \<in> fst ` set data" "k \<notin> set xs" using peeledD(2,3) [OF p] by auto
  then obtain dep where "(k, dep) \<in> set data" by force
  then have "filter (\<lambda>x. x \<notin> set xs) dep \<noteq> []"
    using peeledD(4,5) [OF p] \<open>k \<notin> set xs\<close> by blast
  then obtain j where j: "j \<in> set dep" "j \<notin> set xs" by (auto simp: filter_empty_conv)
  moreover have "j \<in> fst ` set rest"
    using closed [OF \<open>(k, dep) \<in> set data\<close>] j peeledD(2) [OF p] by blast
  ultimately show "\<exists>y \<in> fst ` set rest. (k, y) \<in> graph_edges data"
    using \<open>(k, dep) \<in> set data\<close> by (auto simp: graph_edges_def)
qed (use \<open>rest \<noteq> []\<close> in auto)

lemma peeled_order:
  assumes p: "peeled data xs []" and e: "(i, j) \<in> graph_edges data"
  shows "\<exists>n < length xs. xs ! n = i \<and> j \<in> set (take n xs)"
proof -
  obtain dep where dep: "(i, dep) \<in> set data" "j \<in> set dep" using e by (auto simp: graph_edges_def)
  then have "i \<in> set xs" using p by (force simp: peeled_def)
  then obtain n where n: "n < length xs" "xs ! n = i" by (auto simp: in_set_conv_nth)
  then have "set dep \<subseteq> set (take n xs)" using p dep(1) unfolding peeled_def by blast
  then show ?thesis using n dep(2) by blast
qed

text \<open>The sort returns a list exactly for the acyclic graphs and raises for the others; the
  list holds every node once, each after everything it depends on.\<close>

theorem toposort_correct:
  assumes "distinct (map fst data)"
  shows "case toposort data of
           Some xs \<Rightarrow> acyclic (graph_edges data) \<and> distinct xs \<and> set xs = graph_nodes data \<and>
             (\<forall>(i, j) \<in> graph_edges data. \<exists>n < length xs. xs ! n = i \<and> j \<in> set (take n xs))
         | None \<Rightarrow> \<not> acyclic (graph_edges data)"
proof (cases "data = []")
  case True
  then show ?thesis by (simp add: toposort_def graph_edges_def graph_nodes_def acyclic_def)
next
  case False
  define data1 where "data1 = data @ map (\<lambda>item. (item, [])) (extra_items_in_deps data)"
  note closed = toposort_closed_graph [OF assms, folded data1_def]
  obtain groups rest where loop: "toposort_loop data1 = (groups, rest)" by force
  define xs where "xs = concat (map sort groups)"
  have p: "peeled data1 xs rest"
    unfolding xs_def using loop closed(1) by (rule toposort_loop_peeled)
  have result: "toposort data = (if rest \<noteq> [] then None else Some xs)"
    using False loop by (simp add: toposort_def data1_def xs_def)
  show ?thesis
  proof (cases "rest = []")
    case True
    note order = peeled_order [OF p [unfolded True], unfolded closed(2)]
    have "distinct xs" "set xs = graph_nodes data"
      using p True closed(3) by (auto simp: peeled_def)
    then show ?thesis
      using result True order ordered_acyclic [of "graph_edges data" xs] by auto
  next
    case rest: False
    then show ?thesis
      using result peeled_cycle [OF p closed(1) rest closed(4)] closed(2) by simp
  qed
qed

theorem toposort_correct_witness:
  "distinct (map fst [(5 :: nat, [3, 4]), (4, [1]), (3, [1])]) \<and>
   (case toposort [(5 :: nat, [3, 4]), (4, [1]), (3, [1])] of
      Some xs \<Rightarrow> acyclic (graph_edges [(5 :: nat, [3, 4]), (4, [1]), (3, [1])]) \<and> distinct xs \<and>
        set xs = graph_nodes [(5 :: nat, [3, 4]), (4, [1]), (3, [1])]
    | None \<Rightarrow> \<not> acyclic (graph_edges [(5 :: nat, [3, 4]), (4, [1]), (3, [1])]))"
  using toposort_correct [of "[(5 :: nat, [3, 4]), (4, [1]), (3, [1])]"]
  by (auto split: option.splits)

lemma toposort_example:
  "toposort [(5 :: nat, [3, 4]), (4, [1]), (3, [1])] = Some [1, 3, 4, 5]"
  by (simp add: toposort_def toposort_loop.simps ordered_items_def remove_items_def
      extra_items_in_deps_def)

text \<open>The comment of the source describes the order the other way round: in this order the item
  \<open>2\<close>, which depends on \<open>1\<close>, stands after it although the graph has the edge from \<open>2\<close> to \<open>1\<close>.\<close>

lemma toposort_order_direction:
  "toposort [(2 :: nat, [1])] = Some [1, 2] \<and> (2, 1) \<in> graph_edges [(2 :: nat, [1])]"
  by (simp add: toposort_def toposort_loop.simps ordered_items_def remove_items_def
      extra_items_in_deps_def graph_edges_def)

end
