(* ===== verification/Bitutil.thy ===== *)
theory Bitutil
  imports Prelude
begin

text \<open>
  The helpers of \<open>lizard/bitutil/__init__.py\<close> every module sizes its ports with: the ceiling
  logarithm, slices, byte counts and the enumerations of named bit patterns. Python's unbounded
  integers are \<open>int\<close>; a raised exception or a failed \<open>assert\<close> is \<open>None\<close>.
\<close>

section \<open>Ceiling logarithm\<close>

text \<open>The \<open>while\<close> loop of \<open>clog2\<close> has no bound in the source: not returning is \<open>None\<close>.\<close>

partial_function (option) clog2_loop :: "int \<Rightarrow> int \<Rightarrow> nat \<Rightarrow> nat option" where
  "clog2_loop x v i = (if x > v then clog2_loop x (v * 2) (i + 1) else Some i)"

declare clog2_loop.simps [code]

definition clog2 :: "int \<Rightarrow> nat option" where
  "clog2 x = clog2_loop x 1 0"

definition clog2nz :: "int \<Rightarrow> nat option" where
  "clog2nz x = do { result \<leftarrow> clog2 x; if result = 0 then Some 1 else Some result }"

text \<open>The loop invariant is \<open>v = 2 ^ i\<close>, with every smaller power below \<open>x\<close>.\<close>

lemma clog2_loop_least:
  assumes "\<And>j. j < i \<Longrightarrow> 2 ^ j < x"
  shows "\<exists>n. clog2_loop x (2 ^ i) i = Some n \<and> x \<le> 2 ^ n \<and> (\<forall>j < n. 2 ^ j < x)"
  using assms
proof (induction "nat (x - 2 ^ i)" arbitrary: i rule: less_induct)
  case less
  show ?case
  proof (cases "x > 2 ^ i")
    case True
    have "nat (x - 2 ^ (i + 1)) < nat (x - 2 ^ i)" using True by simp
    moreover have "2 ^ j < x" if "j < i + 1" for j
      using that less.prems True by (cases "j = i") auto
    ultimately have "\<exists>n. clog2_loop x (2 ^ (i + 1)) (i + 1) = Some n \<and> x \<le> 2 ^ n \<and>
        (\<forall>j < n. 2 ^ j < x)"
      by (rule less.hyps)
    then show ?thesis
      using True by (subst clog2_loop.simps) (simp add: mult.commute)
  next
    case False
    then show ?thesis
      using less.prems by (subst clog2_loop.simps) auto
  qed
qed

lemma clog2_least_power: "\<exists>n. clog2 x = Some n \<and> x \<le> 2 ^ n \<and> (\<forall>j < n. 2 ^ j < x)"
  using clog2_loop_least [of 0 x] by (simp add: clog2_def)

lemma clog2_unique:
  assumes "x \<le> 2 ^ n" and "\<And>j. j < n \<Longrightarrow> 2 ^ j < x"
  shows "clog2 x = Some n"
proof -
  obtain k where k: "clog2 x = Some k" "x \<le> 2 ^ k" "\<forall>j < k. 2 ^ j < x"
    using clog2_least_power by blast
  have "\<not> k < n" using assms(2) k(2) by (auto dest: leD)
  moreover have "\<not> n < k" using assms(1) k(3) by (auto dest: leD)
  ultimately show ?thesis using k(1) by simp
qed

section \<open>Slices and byte counts\<close>

text \<open>A slice \<open>[start:stop]\<close>; \<open>bslice(high, low)\<close> names the bits \<open>low..high\<close>.\<close>

type_synonym slice = "nat \<times> nat"

definition slice_len :: "slice \<Rightarrow> nat" where
  "slice_len sl = length [fst sl..<snd sl]"

fun total_slice_len :: "slice list \<Rightarrow> nat" where
  "total_slice_len [] = 0"
| "total_slice_len (sl # slices) = slice_len sl + total_slice_len slices"

definition bslice :: "nat \<Rightarrow> nat option \<Rightarrow> slice" where
  "bslice high lo = (let lo = (case lo of None \<Rightarrow> high | Some l \<Rightarrow> l) in (lo, high + 1))"

definition byte_count :: "nat \<Rightarrow> nat" where
  "byte_count bits = bits div 8 + (if bits mod 8 = 0 then 0 else 1)"

definition data_pack_directive :: "nat \<Rightarrow> string option" where
  "data_pack_directive bits =
     (if bits = 32 then Some ''<I'' else if bits = 64 then Some ''<Q'' else None)"

lemma slice_len_bslice [simp]: "slice_len (bslice high (Some l)) = high + 1 - l"
  "slice_len (bslice high None) = 1"
  by (auto simp: slice_len_def bslice_def Let_def)

lemma byte_count_bounds: "bits \<le> 8 * byte_count bits \<and> 8 * byte_count bits < bits + 8"
  unfolding byte_count_def by presburger

section \<open>Enumerations of bit patterns\<close>

text \<open>
  \<open>bit_enum\<close> builds a class: one attribute per key with its bit pattern, the inverse lookups
  \<open>name\<close> and \<open>short\<close> (a \<open>KeyError\<close> outside their dictionary) and the width. Positional names are
  numbered from zero, keyword pairs carry their value; \<open>Bits(bits, value)\<close> raises when the value
  does not fit.
\<close>

record bit_enum_class =
  enum_data :: "(string \<times> int) list"
  enum_short :: "(int \<times> string) list"
  enum_bits :: nat
  enum_size :: nat

definition bits_value :: "nat \<Rightarrow> int \<Rightarrow> int option" where
  "bits_value n v = (if 0 < n \<and> 0 \<le> v \<and> v < 2 ^ n then Some v else None)"

fun enum_entries :: "nat \<Rightarrow> (string \<times> int) list \<Rightarrow> (string \<times> int) list option" where
  "enum_entries bits [] = Some []"
| "enum_entries bits ((key, v) # rest) =
     do { b \<leftarrow> bits_value bits v; es \<leftarrow> enum_entries bits rest; Some ((key, b) # es) }"

definition bit_enum_names :: "string \<Rightarrow> nat option \<Rightarrow> (string \<times> string) list \<Rightarrow> bit_enum_class option"
where
  "bit_enum_names name bits names =
     do { min_bits \<leftarrow> clog2nz (int (length names));
          let bits = (case bits of None \<Rightarrow> min_bits | Some b \<Rightarrow> if b = 0 then min_bits else b);
          if bits < min_bits then None
          else do {
            data \<leftarrow> enum_entries bits (zip (map fst names) (map int [0..<length names]));
            Some \<lparr> enum_data = data,
                   enum_short = zip (map int [0..<length names]) (map snd names),
                   enum_bits = bits, enum_size = length names \<rparr> } }"

definition bit_enum_pairs :: "string \<Rightarrow> nat option \<Rightarrow> (string \<times> int) list \<Rightarrow> bit_enum_class option"
where
  "bit_enum_pairs name bits pairs =
     (case bits of None \<Rightarrow> None
      | Some bits \<Rightarrow>
          if bits = 0 then None
          else do {
            data \<leftarrow> enum_entries bits pairs;
            Some \<lparr> enum_data = data, enum_short = map (\<lambda>(k, v). (v, k)) pairs,
                   enum_bits = bits, enum_size = 0 \<rparr> })"

definition enum_lookup :: "bit_enum_class \<Rightarrow> string \<Rightarrow> int option" where
  "enum_lookup e k = map_of (rev (enum_data e)) k"

definition enum_name :: "bit_enum_class \<Rightarrow> int \<Rightarrow> string option" where
  "enum_name e v = map_of (rev (map (\<lambda>(k, v). (v, k)) (enum_data e))) v"

definition enum_contains :: "bit_enum_class \<Rightarrow> int \<Rightarrow> bool" where
  "enum_contains e v \<longleftrightarrow> v \<in> set (map snd (enum_data e))"

lemma enum_entries_id: "enum_entries bits es = Some ds \<Longrightarrow> ds = es"
  by (induction bits es arbitrary: ds rule: enum_entries.induct)
     (auto simp: bits_value_def split: if_splits bind_splits)

lemma enum_entries_fits: "enum_entries bits es \<noteq> None \<longleftrightarrow>
    (\<forall>(k, v) \<in> set es. 0 < bits \<and> 0 \<le> v \<and> v < 2 ^ bits)"
  by (induction bits es rule: enum_entries.induct) (auto simp: bits_value_def split: bind_splits)

lemma clog2nz_bound: "\<exists>n. clog2nz x = Some n \<and> 0 < n \<and> x \<le> 2 ^ n"
  using clog2_least_power [of x] by (auto simp: clog2nz_def)

lemma map_of_rev_distinct: "distinct (map fst xs) \<Longrightarrow> map_of (rev xs) = map_of xs"
  by (rule map_of_inject_set [THEN iffD2]) (auto simp flip: rev_map)

lemma map_of_zip_nth_index:
  assumes "distinct ks" "length ks = length vs" "i < length ks"
  shows "map_of (zip ks vs) (ks ! i) = Some (vs ! i)"
  using assms by (simp add: map_of_zip_nth)

text \<open>A default-width enumeration with distinct names always builds, every pattern is
  the position of its name and fits the width, and \<open>name\<close> inverts \<open>lookup\<close>.\<close>

theorem bit_enum_roundtrip:
  assumes "distinct (map fst names)"
  shows "\<exists>e. bit_enum_names cls None names = Some e \<and> int (length names) \<le> 2 ^ enum_bits e \<and>
           (\<forall>i < length names. enum_lookup e (fst (names ! i)) = Some (int i) \<and>
                                enum_name e (int i) = Some (fst (names ! i)))"
proof -
  obtain n where n: "clog2nz (int (length names)) = Some n" "0 < n" "int (length names) \<le> 2 ^ n"
    using clog2nz_bound by blast
  let ?es = "zip (map fst names) (map int [0..<length names])"
  have "enum_entries n ?es \<noteq> None"
    unfolding enum_entries_fits using n(2,3) by (auto simp: set_zip)
  then have es: "enum_entries n ?es = Some ?es"
    by (auto dest: enum_entries_id)
  have swap: "map (\<lambda>(k, v). (v, k)) ?es = zip (map int [0..<length names]) (map fst names)"
    by (rule nth_equalityI) auto
  have "map_of (rev ?es) (fst (names ! i)) = Some (int i)" if "i < length names" for i
    using map_of_zip_nth_index [of "map fst names" "map int [0..<length names]" i] assms that
    by (simp add: map_of_rev_distinct)
  moreover have "map_of (rev (map (\<lambda>(k, v). (v, k)) ?es)) (int i) = Some (fst (names ! i))"
    if "i < length names" for i
    using map_of_zip_nth_index [of "map int [0..<length names]" "map fst names" i] that
    unfolding swap by (simp add: map_of_rev_distinct distinct_map)
  ultimately show ?thesis
    using n es by (simp add: bit_enum_names_def enum_lookup_def enum_name_def Let_def)
qed

theorem bit_enum_roundtrip_witness:
  "\<exists>e. bit_enum_names ''CMPFunc'' None [(''CMP_EQ'', ''eq''), (''CMP_NE'', ''ne''), (''CMP_LT'', ''lt'')]
         = Some e \<and> 3 \<le> (2 :: int) ^ enum_bits e \<and> enum_lookup e ''CMP_LT'' = Some 2 \<and>
       enum_name e 2 = Some ''CMP_LT''"
  using bit_enum_roundtrip [of "[(''CMP_EQ'', ''eq''), (''CMP_NE'', ''ne''), (''CMP_LT'', ''lt'')]" "''CMPFunc''"]
  by (auto simp: All_less_Suc numeral_3_eq_3)

text \<open>\<open>clog2\<close> returns on every integer, with the least exponent whose power of two reaches it.\<close>

theorem clog2_returns_least:
  "\<exists>n. clog2 x = Some n \<and> x \<le> 2 ^ n \<and> (\<forall>j. 2 ^ j < x \<longleftrightarrow> j < n \<and> 1 < x)"
proof -
  obtain n where n: "clog2 x = Some n" "x \<le> 2 ^ n" "\<forall>j < n. 2 ^ j < x"
    using clog2_least_power by blast
  have "2 ^ j < x \<longleftrightarrow> j < n \<and> 1 < x" for j
  proof
    assume "2 ^ j < x"
    moreover have "(2 :: int) ^ n \<le> 2 ^ j" if "n \<le> j" using that by simp
    moreover have "(1 :: int) \<le> 2 ^ j" by simp
    ultimately show "j < n \<and> 1 < x" using n(2) by (meson leD le_less_trans not_le order_trans)
  qed (use n in blast)
  then show ?thesis using n by blast
qed

end
