(* ===== verification/Arith_Units.thy ===== *)
theory Arith_Units
  imports Bitutil
begin

text \<open>
  The single-cycle arithmetic units of \<open>lizard/util/rtl\<close>: \<open>wrap_inc.py\<close>, \<open>extenders.py\<close>,
  \<open>overlap_checker.py\<close>, \<open>alu.py\<close> and \<open>comparator.py\<close>, with the functional models of
  \<open>lizard/util/fl/extenders.py\<close> and \<open>lizard/util/fl/overlap_checker.py\<close>.
\<close>

section \<open>Wrapping increment\<close>

text \<open>\<open>sz\<close> (the source's \<open>size\<close>) and \<open>up\<close> are construction parameters.\<close>

definition wrap_inc :: "bool \<Rightarrow> nat \<Rightarrow> 'n::len word \<Rightarrow> 'n word" where
  "wrap_inc up sz inp =
     (if up then (if uint inp = int sz - 1 then 0 else inp + 1)
      else (if inp = 0 then word_of_int (int sz - 1) else inp - 1))"

text \<open>The chain of \<open>max_ops\<close> units; unit \<open>x\<close> reads the output of unit \<open>x - 1\<close>. Selecting a unit
  outside the list raises.\<close>

fun wrap_inc_unit :: "bool \<Rightarrow> nat \<Rightarrow> 'n::len word \<Rightarrow> nat \<Rightarrow> 'n word" where
  "wrap_inc_unit up sz inp 0 = wrap_inc up sz inp"
| "wrap_inc_unit up sz inp (Suc x) = wrap_inc up sz (wrap_inc_unit up sz inp x)"

definition wrap_inc_var :: "bool \<Rightarrow> nat \<Rightarrow> nat \<Rightarrow> 'n::len word \<Rightarrow> nat \<Rightarrow> 'n word option" where
  "wrap_inc_var up sz max_ops inp ops =
     (if ops = 0 then Some inp
      else if ops - 1 < max_ops then Some (wrap_inc_unit up sz inp (ops - 1)) else None)"

definition wrap_index :: "bool \<Rightarrow> nat \<Rightarrow> int \<Rightarrow> int \<Rightarrow> int" where
  "wrap_index up sz i ops = (if up then i + ops else i - ops) mod int sz"

lemma uint_wrap_inc:
  assumes "sz \<le> 2 ^ LENGTH('n)" and "uint inp < int sz"
  shows "uint (wrap_inc up sz (inp :: 'n::len word)) = wrap_index up sz (uint inp) 1"
proof -
  have sz: "int sz \<le> 2 ^ LENGTH('n)"
    using assms(1) by (metis of_nat_le_iff of_nat_numeral of_nat_power)
  show ?thesis
  proof (cases up)
    case True
    have "uint (inp + 1) = uint inp + 1" if "uint inp + 1 < int sz"
    proof -
      have "uint inp + 1 < 2 ^ LENGTH('n)" using that sz by linarith
      then show ?thesis by (simp add: uint_plus_if')
    qed
    then show ?thesis using True assms(2) by (auto simp: wrap_inc_def wrap_index_def)
  next
    case False
    have ge1: "1 \<le> uint inp" if "inp \<noteq> 0"
      using that uint_ge_0 [of inp] by (metis int_one_le_iff_zero_less less_le uint_0_iff)
    then have "uint (inp - 1) = uint inp - 1" if "inp \<noteq> 0"
      using that by (simp add: uint_sub_if')
    moreover have "uint (word_of_int (int sz - 1) :: 'n word) = int sz - 1"
    proof -
      have "0 \<le> int sz - 1" "int sz - 1 < 2 ^ LENGTH('n)"
        using sz assms(2) uint_ge_0 [of inp] by linarith+
      then show ?thesis by (simp only: uint_word_of_int mod_pos_pos_trivial)
    qed
    ultimately show ?thesis using False assms(2) ge1
      by (cases "inp = 0") (simp_all add: wrap_inc_def wrap_index_def zmod_minus1)
  qed
qed

section \<open>Sign extension\<close>

definition sext_rtl :: "'i::len word \<Rightarrow> 'o::len word" where
  "sext_rtl inp = word_bits (\<lambda>i. bit inp (min i (LENGTH('i) - 1)))"

definition sext_fl :: "'i::len word \<Rightarrow> 'o::len word" where
  "sext_fl inp = scast inp"

lemma sext_rtl_scast: "(sext_rtl (inp :: 'i::len word) :: 'o::len word) = scast inp"
  by (rule bit_word_eqI) (auto simp: sext_rtl_def bit_simps min.commute)

section \<open>Overlap checker\<close>

definition overlap_checker :: "'b::len word \<Rightarrow> 's::len word \<Rightarrow> 'b word \<Rightarrow> 's word \<Rightarrow> bool" where
  "overlap_checker base_a size_a base_b size_b =
     (let size_a_zext = ucast size_a; size_b_zext = ucast size_b;
          end_a = base_a + size_a_zext; end_b = base_b + size_b_zext
      in \<not> (base_a \<ge> base_b \<and> base_a < end_b \<or> base_b \<ge> base_a \<and> base_b < end_a))"

definition overlap_checker_fl :: "'b::len word \<Rightarrow> 's::len word \<Rightarrow> 'b word \<Rightarrow> 's word \<Rightarrow> bool" where
  "overlap_checker_fl base_a size_a base_b size_b =
     (let end_a = base_a + ucast size_a; end_b = base_b + ucast size_b
      in if size_a = 0 \<or> size_b = 0
         then \<not> (base_a \<ge> base_b \<and> base_a < end_b \<or> base_b \<ge> base_a \<and> base_b < end_a)
         else let (base_l, end_s) = (if base_a < base_b then (base_b, end_a) else (base_a, end_b))
              in end_s \<le> base_l)"

section \<open>ALU\<close>

text \<open>The encoding of \<open>ALUFunc\<close>: nine names, so four bits.\<close>

definition "ALU_ADD = (0 :: 4 word)"
definition "ALU_SUB = (1 :: 4 word)"
definition "ALU_AND = (2 :: 4 word)"
definition "ALU_OR = (3 :: 4 word)"
definition "ALU_XOR = (4 :: 4 word)"
definition "ALU_SLL = (5 :: 4 word)"
definition "ALU_SRL = (6 :: 4 word)"
definition "ALU_SRA = (7 :: 4 word)"
definition "ALU_SLT = (8 :: 4 word)"

lemmas alu_func_defs = ALU_ADD_def ALU_SUB_def ALU_AND_def ALU_OR_def ALU_XOR_def ALU_SLL_def
  ALU_SRL_def ALU_SRA_def ALU_SLT_def

text \<open>\<open>concat(up, lower)\<close> of the top bit and the remaining bits of a word.\<close>

definition concat_up :: "bool \<Rightarrow> 'x::len word \<Rightarrow> 'x word" where
  "concat_up up lower =
     (if up then 2 ^ (LENGTH('x) - 1) else 0) + take_bit (LENGTH('x) - 1) lower"

text \<open>The operand as the comparators see it: the top bit is flipped when the comparison is signed.\<close>

definition cmp_operand :: "bool \<Rightarrow> 'x::len word \<Rightarrow> 'x word" where
  "cmp_operand usign src =
     (let up = (if usign then bit src (LENGTH('x) - 1) else \<not> bit src (LENGTH('x) - 1))
      in concat_up up src)"

definition alu_shamt :: "'x::len word \<Rightarrow> nat" where
  "alu_shamt src1 = unat (take_bit (the (clog2 (int LENGTH('x)))) src1)"

text \<open>\<open>sra_\<close> has twice the width of the operands.\<close>

definition alu_sra :: "'x::len word \<Rightarrow> nat \<Rightarrow> 'x word" where
  "alu_sra src0 shamt = ucast (drop_bit shamt (scast src0 :: 'x bit0 word))"

definition alu_exec :: "4 word \<Rightarrow> 'x::len word \<Rightarrow> 'x word \<Rightarrow> bool \<Rightarrow> 'x word" where
  "alu_exec func src0 src1 usign =
     (let cmp_u = cmp_operand usign src0 < cmp_operand usign src1;
          shamt = alu_shamt src1
      in if func = ALU_ADD then src0 + src1
         else if func = ALU_SUB then src0 - src1
         else if func = ALU_AND then src0 AND src1
         else if func = ALU_OR then src0 OR src1
         else if func = ALU_XOR then src0 XOR src1
         else if func = ALU_SLL then push_bit shamt src0
         else if func = ALU_SRL then drop_bit shamt src0
         else if func = ALU_SRA then alu_sra src0 shamt
         else if func = ALU_SLT then of_bool cmp_u
         else 0)"

section \<open>Comparator\<close>

definition "CMP_EQ = (0 :: 2 word)"
definition "CMP_NE = (1 :: 2 word)"
definition "CMP_LT = (2 :: 2 word)"
definition "CMP_GE = (3 :: 2 word)"

lemmas cmp_func_defs = CMP_EQ_def CMP_NE_def CMP_LT_def CMP_GE_def

definition comparator_exec :: "2 word \<Rightarrow> 'x::len word \<Rightarrow> 'x word \<Rightarrow> bool \<Rightarrow> bool" where
  "comparator_exec func src0 src1 usign =
     (let s0 = cmp_operand usign src0; s1 = cmp_operand usign src1;
          eq = (s0 = s1); lt = (s0 < s1)
      in if func = CMP_EQ then eq
         else if func = CMP_NE then \<not> eq
         else if func = CMP_LT then lt
         else if func = CMP_GE then \<not> lt \<or> eq
         else False)"

lemma uint_concat_up:
  "uint (concat_up up (src :: 'x::len word)) =
     (if up then 2 ^ (LENGTH('x) - 1) else 0) + take_bit (LENGTH('x) - 1) (uint src)"
proof -
  have disj: "concat_up up src = (if up then 2 ^ (LENGTH('x) - 1) else 0) OR take_bit (LENGTH('x) - 1) src"
    unfolding concat_up_def by (rule disjunctive_add) (auto simp: bit_simps)
  have "uint (concat_up up src) =
        (if up then 2 ^ (LENGTH('x) - 1) else 0) OR take_bit (LENGTH('x) - 1) (uint src)"
    unfolding disj by (rule bit_eqI) (auto simp: bit_simps bit_uint_iff)
  also have "\<dots> = (if up then 2 ^ (LENGTH('x) - 1) else 0) + take_bit (LENGTH('x) - 1) (uint src)"
    by (rule disjunctive_add [symmetric]) (auto simp: bit_simps)
  finally show ?thesis .
qed

lemma uint_split_top:
  "uint (src :: 'x::len word) =
     (if bit src (LENGTH('x) - 1) then 2 ^ (LENGTH('x) - 1) else 0) + take_bit (LENGTH('x) - 1) (uint src)"
proof -
  have "uint src = take_bit (Suc (LENGTH('x) - 1)) (uint src)"
    by (rule bit_eqI) (auto simp: bit_simps bit_uint_iff dest: bit_imp_le_length)
  then show ?thesis by (subst (asm) take_bit_Suc_from_most) (auto simp: bit_uint_iff)
qed

lemma sint_split_top:
  "sint (src :: 'x::len word) =
     take_bit (LENGTH('x) - 1) (uint src) - (if bit src (LENGTH('x) - 1) then 2 ^ (LENGTH('x) - 1) else 0)"
proof -
  have "sint src = signed_take_bit (LENGTH('x) - 1) (uint src)" by (simp add: sint_uint)
  then show ?thesis
    unfolding signed_take_bit_eq_take_bit_minus take_bit_Suc_from_most power_Suc
    by (auto simp: bit_uint_iff)
qed

lemma uint_cmp_operand:
  "uint (cmp_operand usign (src :: 'x::len word)) =
     (if usign then uint src else sint src + 2 ^ (LENGTH('x) - 1))"
  using uint_split_top [of src] sint_split_top [of src]
  by (auto simp: cmp_operand_def Let_def uint_concat_up)

lemma cmp_operand_less:
  "cmp_operand usign src0 < cmp_operand usign src1 \<longleftrightarrow>
     (if usign then src0 < src1 else src0 <s src1)"
  by (simp add: word_less_def uint_cmp_operand word_sless_alt)

lemma cmp_operand_eq: "cmp_operand usign src0 = cmp_operand usign src1 \<longleftrightarrow> src0 = src1"
  by (simp add: word_uint_eq_iff [of "cmp_operand usign src0"] uint_cmp_operand)
     (metis signed_word_eqI unsigned_word_eqI)

lemma alu_sra_signed:
  assumes "n < LENGTH('x)"
  shows "alu_sra (src :: 'x::len word) n = signed_drop_bit n src"
proof (rule bit_word_eqI)
  fix k assume "k < LENGTH('x)"
  then show "bit (alu_sra src n) k = bit (signed_drop_bit n src) k"
    using assms
    by (cases "n + k" "LENGTH('x) - 1" rule: linorder_cases) (auto simp: alu_sra_def bit_simps min_def)
qed

lemma alu_shamt_mod:
  assumes "LENGTH('x) = 2 ^ k"
  shows "alu_shamt (src1 :: 'x::len word) = unat src1 mod LENGTH('x)"
proof -
  have "clog2 (int LENGTH('x)) = Some k"
    unfolding assms by (rule clog2_unique) simp_all
  then show ?thesis by (simp add: alu_shamt_def assms unsigned_take_bit_eq flip: take_bit_eq_mod)
qed

section \<open>Properties\<close>

text \<open>The chain of wrapping incrementers adds (or subtracts) the number of operations modulo the
  table size, for every size the index width can hold and every operation count the port allows.\<close>

theorem wrap_inc_var_modular:
  assumes "sz \<le> 2 ^ LENGTH('n)" and "uint inp < int sz" and "ops \<le> max_ops"
  shows "\<exists>r. wrap_inc_var up sz max_ops (inp :: 'n::len word) ops = Some r \<and>
             uint r = (if up then uint inp + int ops else uint inp - int ops) mod int sz"
proof -
  have pos: "0 < int sz" using assms(2) uint_ge_0 [of inp] by linarith
  have unit: "uint (wrap_inc_unit up sz inp x) = wrap_index up sz (uint inp) (int (Suc x))" for x
  proof (induction x)
    case 0
    then show ?case using uint_wrap_inc [OF assms(1,2), of up] by simp
  next
    case (Suc x)
    have "uint (wrap_inc_unit up sz inp x) < int sz"
      unfolding Suc.IH wrap_index_def using pos by simp
    from uint_wrap_inc [OF assms(1) this, of up] show ?case
      by (auto simp: Suc.IH wrap_index_def mod_simps algebra_simps)
  qed
  show ?thesis
  proof (cases ops)
    case 0
    then show ?thesis using assms(2) by (simp add: wrap_inc_var_def)
  next
    case (Suc x)
    then show ?thesis using assms(3) unit [of x]
      by (simp add: wrap_inc_var_def wrap_index_def)
  qed
qed

theorem wrap_inc_var_modular_witness:
  "\<exists>r. wrap_inc_var True 6 2 (5 :: 3 word) 2 = Some r \<and> uint r = 1"
  using wrap_inc_var_modular [of 6 "5 :: 3 word" 2 2 True] by simp

text \<open>C?: wiring output bit \<open>i\<close> to input bit \<open>min(i, ibits - 1)\<close> is sign extension.\<close>

theorem sext_rtl_eq_fl: "(sext_rtl (inp :: 'i::len word) :: 'o::len word) = sext_fl inp"
  by (simp add: sext_rtl_scast sext_fl_def)

text \<open>When neither access is empty and neither range wraps, both overlap checkers answer
  whether the two byte ranges are disjoint.\<close>

theorem overlap_checker_correct:
  fixes base_a base_b :: "'b::len word" and size_a size_b :: "'s::len word"
  assumes "LENGTH('s) \<le> LENGTH('b)" and "size_a \<noteq> 0" "size_b \<noteq> 0"
    and "uint base_a + uint size_a < 2 ^ LENGTH('b)" "uint base_b + uint size_b < 2 ^ LENGTH('b)"
  shows "(overlap_checker base_a size_a base_b size_b \<longleftrightarrow>
           {uint base_a ..< uint base_a + uint size_a} \<inter> {uint base_b ..< uint base_b + uint size_b} = {}) \<and>
         overlap_checker_fl base_a size_a base_b size_b = overlap_checker base_a size_a base_b size_b"
proof -
  have zext: "uint (ucast x :: 'b word) = uint x" for x :: "'s word"
    using assms(1) by (simp add: uint_up_ucast is_up)
  have ends: "uint (base_a + ucast size_a) = uint base_a + uint size_a"
    "uint (base_b + ucast size_b) = uint base_b + uint size_b"
    using assms(4,5) by (simp_all add: uint_plus_if' zext)
  have pos: "0 < uint size_a" "0 < uint size_b"
    using assms(2,3) by (metis less_le uint_0_iff uint_ge_0)+
  have "overlap_checker base_a size_a base_b size_b \<longleftrightarrow>
           {uint base_a ..< uint base_a + uint size_a} \<inter> {uint base_b ..< uint base_b + uint size_b} = {}"
    using pos by (auto simp: overlap_checker_def Let_def word_less_def word_le_def ends
        set_eq_iff dest: spec [of _ "uint base_a"] spec [of _ "uint base_b"])
  moreover have "overlap_checker_fl base_a size_a base_b size_b = overlap_checker base_a size_a base_b size_b"
    using pos assms(2,3) by (auto simp: overlap_checker_def overlap_checker_fl_def Let_def
        word_less_def word_le_def ends)
  ultimately show ?thesis by blast
qed

theorem overlap_checker_correct_witness:
  "(overlap_checker (16 :: 64 word) (4 :: 4 word) 18 (8 :: 4 word) \<longleftrightarrow>
     {16 ..< 20} \<inter> {18 ..< 26 :: int} = {}) \<and>
   overlap_checker_fl (16 :: 64 word) (4 :: 4 word) 18 (8 :: 4 word) =
     overlap_checker (16 :: 64 word) (4 :: 4 word) 18 (8 :: 4 word)"
  using overlap_checker_correct [of "4 :: 4 word" "8 :: 4 word" "16 :: 64 word" "18 :: 64 word"]
  by simp

text \<open>Where a range wraps around the end of the address space, the functional overlap checker
  and the RTL disagree.\<close>

theorem overlap_checker_overflow_differs:
  "overlap_checker_fl (254 :: 8 word) (1 :: 4 word) 254 2 \<and>
   \<not> overlap_checker (254 :: 8 word) (1 :: 4 word) 254 2"
  by (simp add: overlap_checker_def overlap_checker_fl_def)

text \<open>Every function of the ALU computes what its name says, for every operand width that is
  a power of two: the shift amount is taken modulo the width, the right shift through the
  double-width sign extension is the arithmetic shift and flipping the top bits makes the unsigned
  comparison the signed one.\<close>

theorem alu_exec_correct:
  fixes src0 src1 :: "'x::len word"
  assumes "LENGTH('x) = 2 ^ k"
  shows "alu_exec ALU_ADD src0 src1 usign = src0 + src1 \<and>
         alu_exec ALU_SUB src0 src1 usign = src0 - src1 \<and>
         alu_exec ALU_AND src0 src1 usign = src0 AND src1 \<and>
         alu_exec ALU_OR src0 src1 usign = src0 OR src1 \<and>
         alu_exec ALU_XOR src0 src1 usign = src0 XOR src1 \<and>
         alu_exec ALU_SLL src0 src1 usign = push_bit (unat src1 mod LENGTH('x)) src0 \<and>
         alu_exec ALU_SRL src0 src1 usign = drop_bit (unat src1 mod LENGTH('x)) src0 \<and>
         alu_exec ALU_SRA src0 src1 usign = signed_drop_bit (unat src1 mod LENGTH('x)) src0 \<and>
         alu_exec ALU_SLT src0 src1 usign = (if (if usign then src0 < src1 else src0 <s src1) then 1 else 0)"
  by (simp_all add: alu_exec_def alu_func_defs alu_shamt_mod [OF assms] alu_sra_signed cmp_operand_less)

theorem alu_exec_correct_witness:
  "LENGTH(64) = 2 ^ 6 \<and> alu_exec ALU_SRA (- 8 :: 64 word) 65 False = signed_drop_bit 1 (- 8) \<and>
   alu_exec ALU_SLT (- 8 :: 64 word) 3 False = 1"
  using alu_exec_correct [where ?'x = 64 and k = 6 and ?src0.0 = "- 8" and ?src1.0 = 65 and usign = False]
    alu_exec_correct [where ?'x = 64 and k = 6 and ?src0.0 = "- 8" and ?src1.0 = 3 and usign = False]
  by (simp add: word_sless_alt)

text \<open>The comparator decides equality, inequality, less-than and its negation, signed or
  unsigned, for every width.\<close>

theorem comparator_exec_correct:
  fixes src0 src1 :: "'x::len word"
  shows "comparator_exec CMP_EQ src0 src1 usign = (src0 = src1) \<and>
         comparator_exec CMP_NE src0 src1 usign = (src0 \<noteq> src1) \<and>
         comparator_exec CMP_LT src0 src1 usign = (if usign then src0 < src1 else src0 <s src1) \<and>
         comparator_exec CMP_GE src0 src1 usign = (if usign then src1 \<le> src0 else src1 \<le>s src0)"
  by (auto simp: comparator_exec_def cmp_func_defs cmp_operand_less cmp_operand_eq
      word_sless_alt word_sle_eq)

end
