(* ===== verification/Divider.thy ===== *)
theory Divider
  imports Prelude "HOL-Library.Signed_Division"
begin

text \<open>
  The multi-cycle non-restoring divider of \<open>lizard/util/rtl/divide.py\<close>. Operands have \<open>'n\<close> bits, the
  accumulator one bit more (the width \<open>'m\<close>), the cycle counter \<open>'c\<close> bits. \<open>nsteps\<close> quotient bits are
  computed per cycle for \<open>ncycles\<close> cycles.
\<close>

section \<open>The step unit\<close>

definition div_step_once ::
  "'n::len word \<Rightarrow> 'm::len word \<times> 'n word \<Rightarrow> 'm word \<times> 'n word" where
  "div_step_once divisor st =
     (let (acc, dividend) = st;
          dividend_end = bit dividend (LENGTH('n) - 1);
          acc_shift = push_bit 1 acc OR of_bool dividend_end;
          acc' = (if bit acc LENGTH('n) then acc_shift + ucast divisor else acc_shift - ucast divisor);
          acc_next_end = (\<not> bit acc' LENGTH('n))
      in (acc', push_bit 1 dividend OR of_bool acc_next_end))"

fun div_step_unit ::
  "nat \<Rightarrow> 'n::len word \<Rightarrow> 'm::len word \<times> 'n word \<Rightarrow> 'm word \<times> 'n word" where
  "div_step_unit 0 divisor st = st"
| "div_step_unit (Suc nsteps) divisor st = div_step_unit nsteps divisor (div_step_once divisor st)"

section \<open>The divider\<close>

record ('n, 'm, 'c) divider =
  dv_acc :: 'm
  dv_divisor :: 'n
  dv_dividend :: 'n
  dv_negate :: bool
  dv_negate_rem :: bool
  dv_counter :: 'c
  dv_busy :: bool

record 'n div_in =
  dv_preempt_call :: bool
  dv_result_call :: bool
  dv_div_call :: bool
  dv_in_dividend :: 'n
  dv_in_divisor :: 'n
  dv_in_signed :: bool

record 'n div_out =
  dv_div_rdy :: bool
  dv_result_rdy :: bool
  dv_quotient :: 'n
  dv_rem :: 'n

text \<open>The data written in the cycles after the call, corrections of the last cycle included.\<close>

definition div_acc_data ::
  "nat \<Rightarrow> ('n::len word, 'm::len word, 'c::len word) divider \<Rightarrow> 'm word \<times> 'n word" where
  "div_acc_data nsteps s =
     (let (acc_next, dividend_next) = div_step_unit nsteps (dv_divisor s) (dv_acc s, dv_dividend s)
      in if dv_counter s = 1
         then (let acc1 = (if bit acc_next LENGTH('n) then acc_next + ucast (dv_divisor s) else acc_next);
                   acc2 = (if dv_negate_rem s then NOT acc1 + 1 else acc1);
                   dividend2 = (if dv_negate s \<and> dv_divisor s \<noteq> 0 then NOT dividend_next + 1
                                else dividend_next)
               in (acc2, dividend2))
         else (acc_next, dividend_next))"

definition divider_step ::
  "nat \<Rightarrow> nat \<Rightarrow> (('n::len word, 'm::len word, 'c::len word) divider, 'n word div_in, 'n word div_out) machine"
where
  "divider_step nsteps ncycles s i =
     (let END = LENGTH('n) - 1;
          counting = (dv_counter s \<noteq> 0);
          (acc_data, dividend_data) =
            (if dv_div_call i
             then (0, if dv_in_signed i \<and> bit (dv_in_dividend i) END
                      then NOT (dv_in_dividend i) + 1 else dv_in_dividend i)
             else div_acc_data nsteps s);
          divisor_data = (if dv_in_signed i \<and> bit (dv_in_divisor i) END
                          then NOT (dv_in_divisor i) + 1 else dv_in_divisor i)
      in (\<lparr> dv_acc = (if dv_div_call i \<or> counting then acc_data else dv_acc s),
            dv_divisor = (if dv_div_call i then divisor_data else dv_divisor s),
            dv_dividend = (if dv_div_call i \<or> counting then dividend_data else dv_dividend s),
            dv_negate = (if dv_div_call i
                         then dv_in_signed i \<and> (bit (dv_in_divisor i) END \<noteq> bit (dv_in_dividend i) END)
                         else dv_negate s),
            dv_negate_rem = (if dv_div_call i then dv_in_signed i \<and> bit (dv_in_dividend i) END
                             else dv_negate_rem s),
            dv_counter = (if counting \<or> dv_div_call i
                          then (if dv_div_call i then of_nat ncycles else dv_counter s - 1)
                          else dv_counter s),
            dv_busy = (if dv_div_call i \<or> dv_result_call i \<or> dv_preempt_call i then dv_div_call i
                       else dv_busy s) \<rparr>,
          \<lparr> dv_div_rdy = (\<not> dv_busy s \<or> dv_result_call i),
            dv_result_rdy = (dv_busy s \<and> dv_counter s = 0),
            dv_quotient = dv_dividend s, dv_rem = ucast (dv_acc s) \<rparr>))"

section \<open>Non-restoring division\<close>

text \<open>The arithmetic of one step: \<open>Y\<close> is the dividend read so far with its new bit, \<open>D\<close> the divisor.\<close>

lemma div_mod_double:
  fixes Y D :: int
  assumes "0 < D" and "0 \<le> Y"
  defines "r \<equiv> Y div 2 mod D" and "b \<equiv> Y mod 2"
  defines "q \<equiv> (if 2 * r + b \<ge> D then 1 else 0)"
  shows "Y div D = 2 * (Y div 2 div D) + q" and "Y mod D = 2 * r + b - q * D"
    and "- D \<le> 2 * r + b - D \<and> 2 * r + b - D < D"
proof -
  have r: "0 \<le> r" "r < D" and b: "0 \<le> b" "b \<le> 1" using assms(1) by (auto simp: r_def b_def)
  have "Y = 2 * (Y div 2) + b" by (simp add: b_def)
  moreover have "Y div 2 = D * (Y div 2 div D) + r" by (simp add: r_def)
  ultimately have Y: "Y = D * (2 * (Y div 2 div D) + q) + (2 * r + b - q * D)"
    by (simp add: algebra_simps)
  have range: "0 \<le> 2 * r + b - q * D" "2 * r + b - q * D < D" using r b by (auto simp: q_def)
  show "Y div D = 2 * (Y div 2 div D) + q" using int_div_pos_eq [OF Y range] .
  show "Y mod D = 2 * r + b - q * D" using int_mod_pos_eq [OF Y range] .
  show "- D \<le> 2 * r + b - D \<and> 2 * r + b - D < D" using r b by auto
qed

text \<open>The invariant after \<open>i\<close> steps on dividend \<open>X\<close>: the accumulator is the partial remainder or one
  divisor below it, the dividend register holds the unread bits above the quotient bits.\<close>

definition div_inv :: "'n::len word \<Rightarrow> 'n word \<Rightarrow> nat \<Rightarrow> 'm::len word \<times> 'n word \<Rightarrow> bool" where
  "div_inv x d i st \<longleftrightarrow>
     (let P = uint x div 2 ^ (LENGTH('n) - i); D = uint d
      in (fst st = word_of_int (P mod D) \<or> (D \<noteq> 0 \<and> fst st = word_of_int (P mod D - D))) \<and>
         uint (snd st) = uint x mod 2 ^ (LENGTH('n) - i) * 2 ^ i +
           (if D = 0 then 2 ^ i - 1 else P div D))"

lemma bit_word_of_int_sign:
  assumes "LENGTH('m) = Suc n" and "- (2 ^ n) \<le> v" and "v < 2 ^ n"
  shows "bit (word_of_int v :: 'm::len word) n \<longleftrightarrow> v < 0"
proof (cases "v < 0")
  case True
  then have "bit (v + 2 ^ Suc n) n" if "0 \<le> v + 2 ^ Suc n"
    using assms by (auto simp: bit_iff_odd div_pos_geq algebra_simps)
  moreover have "bit v n \<longleftrightarrow> bit (v + 2 ^ Suc n) n"
    by (simp add: bit_iff_odd)
  ultimately show ?thesis using True assms by (auto simp: bit_word_of_int_iff)
next
  case False
  then have "\<not> bit v n" using assms by (simp add: bit_iff_odd)
  then show ?thesis using False by (simp add: bit_word_of_int_iff)
qed

lemma shift_in_word: "push_bit 1 w OR of_bool c = 2 * w + of_bool c" for w :: "'a::len word"
proof -
  have "push_bit 1 w OR of_bool c = push_bit 1 w + of_bool c"
    by (rule disjunctive_add [symmetric])
      (auto simp: bit_push_bit_iff bit_of_bool_iff simp del: push_bit_of_Suc_0 push_bit_Suc)
  then show ?thesis by (simp add: push_bit_eq_mult)
qed

lemma uint_shift_in:
  "uint (push_bit 1 w OR of_bool c :: 'a::len word) = 2 * uint w mod 2 ^ LENGTH('a) + of_bool c"
proof -
  obtain k where k: "LENGTH('a) = Suc k" using len_gt_0 [where 'a = 'a] gr0_conv_Suc by blast
  have "uint (2 * w + of_bool c) = (2 * uint w + of_bool c) mod 2 ^ Suc k"
    by (cases c) (simp_all add: uint_word_ariths k [symmetric] mod_simps del: power_Suc)
  also have "\<dots> = 2 * (uint w mod 2 ^ k) + of_bool c"
    by (cases c) (simp_all add: zmod_zmult2_eq)
  also have "\<dots> = 2 * uint w mod 2 ^ Suc k + of_bool c"
    by (simp add: zmod_zmult2_eq)
  finally show ?thesis unfolding shift_in_word k .
qed

text \<open>How the dividend register splits at the border between unread bits and quotient bits.\<close>

lemma dividend_top:
  fixes X Q :: int
  assumes "i < n" and "0 \<le> Q" "Q < 2 ^ i" and "0 \<le> X"
  defines "Y \<equiv> X div 2 ^ (n - Suc i)"
  shows "(X mod 2 ^ (n - i) * 2 ^ i + Q) div 2 ^ (n - 1) = Y mod 2"
    and "2 * (X mod 2 ^ (n - i) * 2 ^ i + Q) mod 2 ^ n = X mod 2 ^ (n - Suc i) * 2 ^ Suc i + 2 * Q"
    and "X div 2 ^ (n - i) = Y div 2"
proof -
  define k where "k = n - Suc i"
  have n: "n = Suc (k + i)" using assms(1) by (simp add: k_def)
  have ni: "n - i = Suc k" "n - Suc i = k" "n - 1 = i + k" using n by auto
  have mod: "X mod 2 ^ Suc k = 2 ^ k * (Y mod 2) + X mod 2 ^ k"
    using zmod_zmult2_eq [of 2 X "2 ^ k"] by (simp add: Y_def ni mult.commute add.commute)
  show "X div 2 ^ (n - i) = Y div 2"
    unfolding ni Y_def by (simp add: zdiv_zmult2_eq [symmetric] mult.commute)
  have "(X mod 2 ^ Suc k * 2 ^ i + Q) div 2 ^ (i + k) = (X mod 2 ^ Suc k * 2 ^ i + Q) div 2 ^ i div 2 ^ k"
    by (simp add: power_add zdiv_zmult2_eq)
  also have "(X mod 2 ^ Suc k * 2 ^ i + Q) div 2 ^ i = X mod 2 ^ Suc k"
    using assms(2,3) by (simp add: div_mult_self3 div_pos_pos_trivial add.commute)
  also have "X mod 2 ^ Suc k div 2 ^ k = Y mod 2"
    unfolding mod by (simp add: div_mult_self4 del: power_Suc)
  finally show "(X mod 2 ^ (n - i) * 2 ^ i + Q) div 2 ^ (n - 1) = Y mod 2" unfolding ni .
  have "2 * (X mod 2 ^ Suc k * 2 ^ i + Q) = (X mod 2 ^ k * 2 ^ Suc i + 2 * Q) + 2 ^ n * (Y mod 2)"
    unfolding mod by (simp add: n algebra_simps power_add)
  then have "2 * (X mod 2 ^ Suc k * 2 ^ i + Q) mod 2 ^ n = (X mod 2 ^ k * 2 ^ Suc i + 2 * Q) mod 2 ^ n"
    by (simp only: mod_mult_self2)
  also have "\<dots> = X mod 2 ^ k * 2 ^ Suc i + 2 * Q"
  proof (rule mod_pos_pos_trivial)
    have "X mod 2 ^ k + 1 \<le> 2 ^ k" by (simp add: add1_zle_eq)
    then have "(X mod 2 ^ k + 1) * 2 ^ Suc i \<le> 2 ^ k * 2 ^ Suc i" by (rule mult_right_mono) simp
    then show "X mod 2 ^ k * 2 ^ Suc i + 2 * Q < 2 ^ n"
      using assms(3) by (simp add: n power_add algebra_simps)
  qed (use assms(2) in simp)
  finally show "2 * (X mod 2 ^ (n - i) * 2 ^ i + Q) mod 2 ^ n = X mod 2 ^ (n - Suc i) * 2 ^ Suc i + 2 * Q"
    by (simp add: ni)
qed

lemma zdiv_less_iff: "X div 2 ^ k < Z \<longleftrightarrow> X < Z * 2 ^ k" for X Z :: int
proof
  assume "X div 2 ^ k < Z"
  then have "(X div 2 ^ k + 1) * 2 ^ k \<le> Z * 2 ^ k" by (intro mult_right_mono) auto
  moreover have "X < (X div 2 ^ k + 1) * 2 ^ k"
    using div_mult_mod_eq [of X "2 ^ k"] pos_mod_bound [of "2 ^ k" X]
    unfolding distrib_right by (simp del: div_mult_mod_eq pos_mod_bound)
  ultimately show "X < Z * 2 ^ k" by (rule less_le_trans [rotated])
next
  assume "X < Z * 2 ^ k"
  moreover have "X div 2 ^ k * 2 ^ k \<le> X"
    using div_mult_mod_eq [of X "2 ^ k"] pos_mod_sign [of "2 ^ k" X]
    by (simp del: div_mult_mod_eq pos_mod_sign)
  ultimately have "X div 2 ^ k * 2 ^ k < Z * 2 ^ k" by (rule le_less_trans [rotated])
  then show "X div 2 ^ k < Z" by (rule mult_right_less_imp_less) (rule zero_le_power, simp)
qed

lemma zdiv_le_self: "0 \<le> a \<Longrightarrow> 0 \<le> b \<Longrightarrow> a div b \<le> a" for a b :: int
proof (cases "b = 0")
  case False
  then show "0 \<le> a \<Longrightarrow> 0 \<le> b \<Longrightarrow> a div b \<le> a" using zdiv_mono2 [of a 1 b] by simp
qed simp

lemma div_step_once_inv:
  fixes x d :: "'n::len word" and st :: "'m::len word \<times> 'n word"
  assumes inv: "div_inv x d i st" and i: "i < LENGTH('n)" and len: "LENGTH('m) = Suc LENGTH('n)"
  shows "div_inv x d (Suc i) (div_step_once d st)"
proof -
  let ?n = "LENGTH('n)"
  obtain acc dv where st: "st = (acc, dv)" by force
  define X D where "X = uint x" and "D = uint d"
  define Y where "Y = X div 2 ^ (?n - Suc i)"
  define b rr where "b = Y mod 2" and "rr = Y div 2 mod D"
  define Q where "Q = (if D = 0 then 2 ^ i - 1 else Y div 2 div D)"
  have X: "0 \<le> X" "X < 2 ^ ?n" and D: "0 \<le> D" "D < 2 ^ ?n" by (auto simp: X_def D_def uint_lt2p)
  have Y0: "0 \<le> Y" using X by (simp add: Y_def pos_imp_zdiv_nonneg_iff)
  have "2 ^ ?n = 2 ^ (?n - Suc i) * (2 :: int) ^ Suc i" using i
    by (subst power_add [symmetric]) simp
  then have "X < 2 ^ Suc i * 2 ^ (?n - Suc i)" using X(2) by (simp only: mult.commute)
  then have Yb: "Y < 2 ^ Suc i" by (simp only: Y_def zdiv_less_iff)
  then have half: "Y div 2 < 2 ^ i" "0 \<le> Y div 2" using Y0 by auto
  have Q: "0 \<le> Q" "Q < 2 ^ i"
    using half D by (auto simp: Q_def pos_imp_zdiv_nonneg_iff intro: le_less_trans [OF zdiv_le_self])
  note top = dividend_top [OF i Q X(1), folded Y_def]
  have acc: "acc = word_of_int rr \<or> (D \<noteq> 0 \<and> acc = word_of_int (rr - D))"
    and dv: "uint dv = X mod 2 ^ (?n - i) * 2 ^ i + Q"
    using inv by (auto simp: div_inv_def st X_def [symmetric] D_def [symmetric] top(3) rr_def Q_def Let_def)
  have "bit dv (?n - 1) \<longleftrightarrow> odd (uint dv div 2 ^ (?n - 1))"
    using bit_uint_iff [of dv "?n - 1"] by (simp add: bit_iff_odd [of "uint dv"])
  then have b: "of_bool (bit dv (?n - 1)) = word_of_int b"
    unfolding dv top(1) b_def by (cases "even Y") (auto simp: even_iff_mod_2_eq_zero odd_iff_mod_2_eq_one)
  have "(2 :: int) ^ i < 2 ^ ?n" using i by simp
  then have Y2: "Y div 2 < 2 ^ ?n" using half(1) by linarith
  have rr: "0 \<le> rr \<and> rr < 2 ^ ?n"
  proof (cases "D = 0")
    case True
    then show ?thesis using Y2 half(2) by (simp add: rr_def)
  next
    case False
    then have "0 < D" using D(1) by simp
    from pos_mod_bound [OF this, of "Y div 2"] pos_mod_sign [OF this, of "Y div 2"] D(2)
    show ?thesis unfolding rr_def by linarith
  qed
  have b01: "0 \<le> b" "b \<le> 1" by (auto simp: b_def)
  have lt: "D \<noteq> 0 \<Longrightarrow> rr < D" using D by (simp add: rr_def)
  have sign: "\<not> bit (word_of_int rr :: 'm word) ?n"
    "D \<noteq> 0 \<Longrightarrow> bit (word_of_int (rr - D) :: 'm word) ?n"
    using rr D lt by (subst bit_word_of_int_sign [OF len]; simp)+
  define a' where "a' = 2 * rr + b - D"
  have dw: "(ucast d :: 'm word) = word_of_int D" by (simp add: D_def)
  have "fst (div_step_once d st) =
      (let acc_shift = push_bit 1 acc OR of_bool (bit dv (?n - 1))
       in if bit acc ?n then acc_shift + word_of_int D else acc_shift - word_of_int D)"
    by (simp add: div_step_once_def st Let_def dw)
  also have "\<dots> = (if bit acc ?n then 2 * acc + word_of_int b + word_of_int D
                  else 2 * acc + word_of_int b - word_of_int D)"
    unfolding Let_def shift_in_word unfolding b ..
  also have "\<dots> = word_of_int a'"
    using acc
  proof
    assume a: "acc = word_of_int rr"
    show ?thesis unfolding a if_not_P [OF sign(1)] by (simp add: a'_def)
  next
    assume a: "D \<noteq> 0 \<and> acc = word_of_int (rr - D)"
    then have s: "bit acc ?n" and a': "acc = word_of_int (rr - D)" using sign(2) by auto
    show ?thesis unfolding if_P [OF s] unfolding a' by (simp add: a'_def)
  qed
  finally have acc': "fst (div_step_once d st) = word_of_int a'" .
  have snd: "snd (div_step_once d st) = push_bit 1 dv OR of_bool (\<not> bit (fst (div_step_once d st)) ?n)"
    by (simp add: div_step_once_def st Let_def)
  show ?thesis
  proof (cases "D = 0")
    case True
    then have a'Y: "a' = Y" by (simp add: a'_def rr_def b_def)
    have "Y < 2 ^ ?n" using Yb i
      by (meson Suc_leI less_le_trans one_le_numeral power_increasing)
    then have "\<not> bit (word_of_int a' :: 'm word) ?n"
      using Y0 by (subst bit_word_of_int_sign [OF len]) (simp_all add: a'Y)
    then have "uint (snd (div_step_once d st)) = 2 * uint dv mod 2 ^ ?n + 1"
      unfolding snd acc' uint_shift_in by simp
    then show ?thesis
      using True top(2) by (simp add: div_inv_def acc' a'Y X_def [symmetric] D_def [symmetric] Y_def [symmetric]
          dv Q_def Let_def)
  next
    case False
    then have D0: "0 < D" using D by simp
    note dm = div_mod_double [OF D0 Y0, folded rr_def b_def]
    have neg: "bit (word_of_int a' :: 'm word) ?n \<longleftrightarrow> a' < 0"
      using dm(3) D by (intro bit_word_of_int_sign [OF len]) (auto simp: a'_def)
    have "uint (snd (div_step_once d st)) = 2 * uint dv mod 2 ^ ?n + of_bool (\<not> a' < 0)"
      unfolding snd acc' uint_shift_in neg by simp
    then show ?thesis
      using False top(2) dm(1,2)
      by (auto simp: div_inv_def acc' a'_def X_def [symmetric] D_def [symmetric] Y_def [symmetric]
          dv Q_def Let_def split: if_splits)
  qed
qed

lemma div_step_unit_inv:
  "div_inv x d i st \<Longrightarrow> i + k \<le> LENGTH('n) \<Longrightarrow> LENGTH('m) = Suc LENGTH('n) \<Longrightarrow>
   div_inv (x :: 'n::len word) d (i + k) (div_step_unit k d (st :: 'm::len word \<times> 'n word))"
proof (induction k arbitrary: i st)
  case (Suc k)
  have "div_inv x d (Suc i) (div_step_once d st)" using Suc.prems by (intro div_step_once_inv) auto
  from Suc.IH [OF this] Suc.prems show ?case by simp
qed simp

lemma div_inv_start: "div_inv x d 0 (0 :: 'm::len word, x :: 'n::len word)"
proof -
  have "uint x div 2 ^ LENGTH('n) = 0" "uint x mod 2 ^ LENGTH('n) = uint x"
    using uint_lt2p [of x] by (auto simp: div_pos_pos_trivial mod_pos_pos_trivial)
  then show ?thesis by (simp add: div_inv_def)
qed


section \<open>The result a call promises\<close>

text \<open>The RISC-V results of \<open>DIV\<close>, \<open>DIVU\<close>, \<open>REM\<close> and \<open>REMU\<close>: truncating division, all ones and the
  dividend for a zero divisor, and the wrapped quotient for the overflowing signed division.\<close>

definition div_result :: "bool \<Rightarrow> 'n::len word \<Rightarrow> 'n word \<Rightarrow> 'n word \<times> 'n word" where
  "div_result sg a b =
     (if b = 0 then (- 1, a)
      else if sg then (word_of_int (sint a sdiv sint b), word_of_int (sint a smod sint b))
      else (a div b, a mod b))"

definition magnitude :: "bool \<Rightarrow> 'n::len word \<Rightarrow> 'n word" where
  "magnitude sg a = (if sg \<and> bit a (LENGTH('n) - 1) then NOT a + 1 else a)"

lemma sign_bit: "bit a (LENGTH('n) - 1) \<longleftrightarrow> sint a < 0" for a :: "'n::len word"
  by (simp add: sint_uint signed_take_bit_negative_iff bit_uint_iff)

lemma uint_magnitude_signed: "uint (magnitude True a) = \<bar>sint a\<bar>" for a :: "'n::len word"
proof -
  have m: "magnitude True a = word_of_int \<bar>sint a\<bar>"
    unfolding magnitude_def sign_bit by (simp add: abs_if minus_eq_not_plus_1 [symmetric])
  have "(2 :: int) ^ (LENGTH('n) - 1) < 2 ^ LENGTH('n)" by simp
  then have "\<bar>sint a\<bar> < 2 ^ LENGTH('n)" using sint_ge [of a] sint_lt [of a] by linarith
  then show ?thesis unfolding m by (simp add: uint_word_of_int_eq take_bit_int_eq_self)
qed

lemma uint_magnitude_unsigned: "uint (magnitude False a) = uint a"
  by (simp add: magnitude_def)

lemma magnitude_eq_0: "magnitude sg a = 0 \<longleftrightarrow> a = 0"
  by (simp add: magnitude_def minus_eq_not_plus_1 [symmetric])

text \<open>Negating quotient and remainder as the registers \<open>negate\<close> and \<open>negate_rem\<close> say gives the
  signed results.\<close>

lemma div_result_signs:
  fixes a b :: "'n::len word" and sg :: bool
  defines "x \<equiv> magnitude sg a" and "d \<equiv> magnitude sg b"
  defines "q \<equiv> (if b = 0 then - 1 else x div d)"
  shows "fst (div_result sg a b) =
           (if (sg \<and> (sint b < 0) \<noteq> (sint a < 0)) \<and> b \<noteq> 0 then - q else q)"
    and "snd (div_result sg a b) = (if sg \<and> sint a < 0 then - (x mod d) else x mod d)"
proof -
  have q: "x div d = word_of_int (uint x div uint d)" and r: "x mod d = word_of_int (uint x mod uint d)"
    by (simp_all add: word_div_def word_mod_def)
  have z: "sint b = 0 \<longleftrightarrow> b = 0" "sint a = 0 \<longleftrightarrow> a = 0" by (metis sint_0 signed_word_eqI)+
  show "fst (div_result sg a b) =
           (if (sg \<and> (sint b < 0) \<noteq> (sint a < 0)) \<and> b \<noteq> 0 then - q else q)"
    unfolding q_def q using z
    by (cases sg; cases "b = 0"; cases "sint a = 0")
      (auto simp: div_result_def x_def d_def uint_magnitude_signed magnitude_def [of False]
        signed_divide_int_def sgn_if word_div_def)
  show "snd (div_result sg a b) = (if sg \<and> sint a < 0 then - (x mod d) else x mod d)"
    unfolding r using z
    by (cases sg; cases "b = 0"; cases "sint a = 0")
      (auto simp: div_result_def x_def d_def uint_magnitude_signed magnitude_def [of False]
        signed_modulo_int_def sgn_if word_mod_def)
qed


section \<open>A call and its cycles\<close>

text \<open>The state \<open>k\<close> cycles after a call that was neither taken nor preempted.\<close>

definition div_running ::
  "nat \<Rightarrow> nat \<Rightarrow> bool \<Rightarrow> 'n::len word \<Rightarrow> 'n word \<Rightarrow> nat \<Rightarrow>
   ('n word, 'm::len word, 'c::len word) divider \<Rightarrow> bool" where
  "div_running nsteps ncycles sg a b k s \<longleftrightarrow>
     dv_busy s \<and> dv_divisor s = magnitude sg b \<and>
     dv_negate s = (sg \<and> (sint b < 0) \<noteq> (sint a < 0)) \<and> dv_negate_rem s = (sg \<and> sint a < 0) \<and>
     dv_counter s = of_nat (ncycles - k) \<and>
     (if k < ncycles
      then div_inv (magnitude sg a) (magnitude sg b) (nsteps * k) (dv_acc s, dv_dividend s)
      else (dv_dividend s, ucast (dv_acc s)) = div_result sg a b)"

definition div_idle :: "'n div_in \<Rightarrow> bool" where
  "div_idle i \<longleftrightarrow> \<not> dv_div_call i \<and> \<not> dv_result_call i \<and> \<not> dv_preempt_call i"

lemma ucast_word_of_int:
  "LENGTH('n) \<le> LENGTH('m) \<Longrightarrow> (ucast (word_of_int k :: 'm::len word) :: 'n::len word) = word_of_int k"
  by (auto intro!: bit_word_eqI simp: bit_ucast_iff bit_word_of_int_iff)

lemma div_finish:
  fixes a b :: "'n::len word" and s :: "('n word, 'm::len word, 'c::len word) divider"
  assumes "div_inv (magnitude sg a) (magnitude sg b) LENGTH('n) (div_step_unit nsteps (dv_divisor s) (dv_acc s, dv_dividend s))"
    and "dv_divisor s = magnitude sg b" and "dv_counter s = 1"
    and "dv_negate s = (sg \<and> (sint b < 0) \<noteq> (sint a < 0))" and "dv_negate_rem s = (sg \<and> sint a < 0)"
    and len: "LENGTH('m) = Suc LENGTH('n)"
  shows "snd (div_acc_data nsteps s) = fst (div_result sg a b)"
    and "ucast (fst (div_acc_data nsteps s)) = snd (div_result sg a b)"
proof -
  obtain acc dv where st: "div_step_unit nsteps (dv_divisor s) (dv_acc s, dv_dividend s) = (acc, dv)" by force
  define x d where "x = magnitude sg a" and "d = magnitude sg b"
  define m where "m = uint x mod uint d"
  have acc: "acc = word_of_int m \<or> (d \<noteq> 0 \<and> acc = word_of_int (m - uint d))"
    and dv: "uint dv = (if d = 0 then 2 ^ LENGTH('n) - 1 else uint x div uint d)"
    using assms(1) by (auto simp: div_inv_def st x_def [symmetric] d_def [symmetric] m_def Let_def uint_0_iff)
  have mu: "m = uint (x mod d)" by (simp add: m_def uint_mod)
  then have m: "0 \<le> m" "m < 2 ^ LENGTH('n)" by (simp_all add: uint_lt2p)
  have d: "0 < uint d" if "d \<noteq> 0" using that by (simp add: word_less_def word_neq_0_conv)
  have md: "m < uint d" if "d \<noteq> 0" unfolding m_def by (rule pos_mod_bound [OF d [OF that]])
  have "- (2 ^ LENGTH('n)) \<le> m - uint d" using m uint_lt2p [of d] by linarith
  then have neg: "\<not> bit (word_of_int m :: 'm word) LENGTH('n)"
    "d \<noteq> 0 \<Longrightarrow> bit (word_of_int (m - uint d) :: 'm word) LENGTH('n)"
    using m md by (subst bit_word_of_int_sign [OF len]; simp)+
  have acc1: "(if bit acc LENGTH('n) then acc + ucast d else acc) = word_of_int m"
    using acc
  proof
    assume a: "acc = word_of_int m"
    show ?thesis unfolding a if_not_P [OF neg(1)] ..
  next
    assume a: "d \<noteq> 0 \<and> acc = word_of_int (m - uint d)"
    then have s: "bit acc LENGTH('n)" and a': "acc = word_of_int (m - uint d)" using neg(2) by auto
    show ?thesis unfolding if_P [OF s] unfolding a' by simp
  qed
  have xm: "word_of_int m = x mod d" unfolding mu by simp
  let ?acc1 = "if bit acc LENGTH('n) then acc + ucast (dv_divisor s) else acc"
  have data: "div_acc_data nsteps s = (if dv_negate_rem s then NOT ?acc1 + 1 else ?acc1,
      if dv_negate s \<and> dv_divisor s \<noteq> 0 then NOT dv + 1 else dv)"
    by (simp add: div_acc_data_def st assms(3))
  have "fst (div_acc_data nsteps s) = word_of_int (if sg \<and> sint a < 0 then - m else m)"
    unfolding data fst_conv assms(2,5) d_def [symmetric] acc1
    by (simp add: minus_eq_not_plus_1 [symmetric])
  then show "ucast (fst (div_acc_data nsteps s)) = snd (div_result sg a b)"
    unfolding div_result_signs(2) x_def [symmetric] d_def [symmetric] xm [symmetric]
    using len by (simp add: ucast_word_of_int)
  have b0: "d = 0 \<longleftrightarrow> b = 0" by (simp add: d_def magnitude_eq_0)
  have q: "dv = (if b = 0 then - 1 else x div d)"
    unfolding b0 [symmetric] by (rule word_uint_eqI) (simp add: dv uint_div unsigned_minus_1_eq_mask mask_eq_exp_minus_1)
  show "snd (div_acc_data nsteps s) = fst (div_result sg a b)"
    unfolding data snd_conv assms(2,4) d_def [symmetric] b0
      div_result_signs(1) x_def [symmetric] q [symmetric]
    by (simp add: minus_eq_not_plus_1 [symmetric])
qed


lemma div_running_start:
  assumes "dv_div_call i" and "0 < ncycles"
  shows "div_running nsteps ncycles (dv_in_signed i) (dv_in_dividend i) (dv_in_divisor i) 0
           (fst (divider_step nsteps ncycles s i))"
  using assms
  by (simp add: div_inv_start div_running_def divider_step_def Let_def magnitude_def sign_bit [simplified])

lemma div_running_idle:
  fixes s :: "('n::len word, 'm::len word, 'c::len word) divider"
  assumes run: "div_running nsteps ncycles sg a b k s" and idle: "div_idle i"
    and len: "LENGTH('m) = Suc LENGTH('n)" "nsteps * ncycles = LENGTH('n)" "ncycles < 2 ^ LENGTH('c)"
  shows "div_running nsteps ncycles sg a b (Suc k) (fst (divider_step nsteps ncycles s i))"
proof (cases "k < ncycles")
  case False
  then have "dv_counter s = 0" using run by (simp add: div_running_def)
  then show ?thesis
    using run idle False by (simp add: div_running_def div_idle_def divider_step_def Let_def split: prod.splits)
next
  case True
  let ?x = "magnitude sg a" and ?d = "magnitude sg b"
  let ?st = "div_step_unit nsteps (dv_divisor s) (dv_acc s, dv_dividend s)"
  have cnt: "unat (dv_counter s) = ncycles - k"
    using run len(3) True
    by (simp add: div_running_def unat_of_nat_small del: of_nat_diff)
  have "nsteps * Suc k \<le> LENGTH('n)" using True mult_le_mono2 [of "Suc k" ncycles nsteps] len(2) by simp
  then have inv: "div_inv ?x ?d (nsteps * Suc k) ?st"
    using div_step_unit_inv [of ?x ?d "nsteps * k" "(dv_acc s, dv_dividend s)" nsteps] run True len(1)
    by (simp add: div_running_def add.commute)
  have next_cnt: "dv_counter s - 1 = of_nat (ncycles - Suc k)"
    using run True by (simp add: div_running_def)
  have c0: "dv_counter s \<noteq> 0" using cnt True by auto
  have "dv_counter s = of_nat 1 \<longleftrightarrow> unat (dv_counter s) = 1"
    using len(3) True by (intro word_eq_of_nat_iff) linarith
  then have one: "dv_counter s = 1 \<longleftrightarrow> Suc k = ncycles" using cnt True by auto
  let ?s' = "fst (divider_step nsteps ncycles s i)"
  have s': "dv_busy ?s'" "dv_divisor ?s' = dv_divisor s" "dv_negate ?s' = dv_negate s"
    "dv_negate_rem ?s' = dv_negate_rem s" "dv_counter ?s' = of_nat (ncycles - Suc k)"
    "(dv_acc ?s', dv_dividend ?s') = div_acc_data nsteps s"
    using idle c0 run next_cnt
    by (simp_all add: div_idle_def divider_step_def Let_def div_running_def split: prod.splits del: of_nat_diff)
  have flags: "dv_divisor s = ?d" "dv_negate s = (sg \<and> (sint b < 0) \<noteq> (sint a < 0))"
    "dv_negate_rem s = (sg \<and> sint a < 0)" using run by (auto simp: div_running_def)
  have data: "if Suc k < ncycles then div_inv ?x ?d (nsteps * Suc k) (dv_acc ?s', dv_dividend ?s')
      else (dv_dividend ?s', ucast (dv_acc ?s')) = div_result sg a b"
  proof (cases "Suc k < ncycles")
    case True
    then have "dv_counter s \<noteq> 1" using one by simp
    then have "div_acc_data nsteps s = ?st" by (simp add: div_acc_data_def split: prod.splits)
    then show ?thesis using True inv s'(6) by simp
  next
    case False
    then have eq: "Suc k = ncycles" using \<open>k < ncycles\<close> by simp
    then have inv': "div_inv ?x ?d LENGTH('n) ?st" using inv len(2) by simp
    note fin = div_finish [OF inv' flags(1) one [THEN iffD2, OF eq] flags(2,3) len(1)]
    have "dv_acc ?s' = fst (div_acc_data nsteps s)" "dv_dividend ?s' = snd (div_acc_data nsteps s)"
      using s'(6) by (metis fst_conv, metis snd_conv)
    then show ?thesis using False fin by (simp add: prod_eq_iff)
  qed
  show ?thesis unfolding div_running_def using s' flags data by simp
qed


lemma div_running_idles:
  fixes s :: "('n::len word, 'm::len word, 'c::len word) divider"
  assumes "div_running nsteps ncycles sg a b k s" and "list_all div_idle is"
    and "LENGTH('m) = Suc LENGTH('n)" "nsteps * ncycles = LENGTH('n)" "ncycles < 2 ^ LENGTH('c)"
  shows "div_running nsteps ncycles sg a b (k + length is) (final (divider_step nsteps ncycles) s is)"
  using assms(1,2)
proof (induction "is" arbitrary: k s)
  case (Cons i "is")
  then show ?case using div_running_idle [OF Cons.prems(1) _ assms(3-5), of i] by fastforce
qed simp

lemma div_running_outputs:
  fixes s :: "('n::len word, 'm::len word, 'c::len word) divider"
  assumes "div_running nsteps ncycles sg a b k s" and "ncycles < 2 ^ LENGTH('c)"
  shows "dv_result_rdy (snd (divider_step nsteps ncycles s j)) \<longleftrightarrow> ncycles \<le> k"
    and "ncycles \<le> k \<Longrightarrow> (dv_quotient (snd (divider_step nsteps ncycles s j)),
             dv_rem (snd (divider_step nsteps ncycles s j))) = div_result sg a b"
proof -
  have "dv_counter s = of_nat 0 \<longleftrightarrow> unat (dv_counter s) = 0" by (rule word_eq_of_nat_iff) simp
  moreover have "unat (dv_counter s) = ncycles - k"
    using assms by (simp add: div_running_def unat_of_nat_small del: of_nat_diff)
  ultimately show "dv_result_rdy (snd (divider_step nsteps ncycles s j)) \<longleftrightarrow> ncycles \<le> k"
    using assms(1) by (simp add: div_running_def divider_step_def Let_def split: prod.splits)
  show "ncycles \<le> k \<Longrightarrow> (dv_quotient (snd (divider_step nsteps ncycles s j)),
             dv_rem (snd (divider_step nsteps ncycles s j))) = div_result sg a b"
    using assms(1) by (simp add: div_running_def divider_step_def Let_def split: prod.splits)
qed

text \<open>C4: A division called in any state, followed by any number of cycles without a call, a taken
  result or a preemption, is ready exactly when \<open>ncycles\<close> cycles have passed, and from then on shows
  the quotient and the remainder that the RISC-V instructions DIV, DIVU, REM and REMU define, zero
  divisors and the signed overflow included. The parameters are those the constructor computes: the
  accumulator is one bit wider than the data, \<open>nsteps\<close> divides the width evenly over the cycles and
  the counter can hold \<open>ncycles\<close>.\<close>

theorem divider_computes:
  fixes s :: "('n::len word, 'm::len word, 'c::len word) divider"
  assumes "LENGTH('m) = Suc LENGTH('n)" and "nsteps * ncycles = LENGTH('n)" and "ncycles < 2 ^ LENGTH('c)"
    and "dv_div_call i" and "list_all div_idle idles"
  shows "let out = snd (divider_step nsteps ncycles (final (divider_step nsteps ncycles) s (i # idles)) j)
         in dv_result_rdy out = (ncycles \<le> length idles) \<and>
            (ncycles \<le> length idles \<longrightarrow>
             (dv_quotient out, dv_rem out) =
               div_result (dv_in_signed i) (dv_in_dividend i) (dv_in_divisor i))"
proof -
  have "0 < ncycles" using assms(2) by (cases ncycles) auto
  from div_running_idles [OF div_running_start [OF assms(4) this] assms(5,1,2,3)]
  have "div_running nsteps ncycles (dv_in_signed i) (dv_in_dividend i) (dv_in_divisor i) (length idles)
          (final (divider_step nsteps ncycles) s (i # idles))" by simp
  from div_running_outputs [OF this assms(3)] show ?thesis unfolding Let_def by blast
qed

text \<open>Four steps a cycle on eight bits: \<open>-128 / -1\<close> overflows to \<open>-128\<close>, remainder 0, after two
  cycles, whatever the state before the call.\<close>

definition div_call_min :: "8 word div_in" where
  "div_call_min = \<lparr> dv_preempt_call = False, dv_result_call = False, dv_div_call = True,
     dv_in_dividend = 128, dv_in_divisor = - 1, dv_in_signed = True \<rparr>"

definition div_no_call :: "8 word div_in" where
  "div_no_call = \<lparr> dv_preempt_call = False, dv_result_call = False, dv_div_call = False,
     dv_in_dividend = 0, dv_in_divisor = 0, dv_in_signed = False \<rparr>"

definition div_zero_state :: "(8 word, 9 word, 2 word) divider" where
  "div_zero_state = \<lparr> dv_acc = 0, dv_divisor = 0, dv_dividend = 0, dv_negate = False,
     dv_negate_rem = False, dv_counter = 0, dv_busy = False \<rparr>"

lemma divider_computes_witness:
  "let out = snd (divider_step 4 2 (final (divider_step 4 2) div_zero_state
                    [div_call_min, div_no_call, div_no_call]) div_no_call)
   in dv_result_rdy out \<and> dv_quotient out = 128 \<and> dv_rem out = 0"
  using divider_computes [where nsteps = 4 and ncycles = 2 and s = div_zero_state and i = div_call_min
      and idles = "[div_no_call, div_no_call]" and j = div_no_call]
  by (simp add: div_call_min_def div_no_call_def div_idle_def div_result_def Let_def
      signed_divide_int_def signed_modulo_int_def)

end
