(* ===== verification/Selectors.thy ===== *)
theory Selectors
  imports Prelude
begin

text \<open>
  The selection and routing primitives: \<open>coders.py\<close>, \<open>onehot.py\<close>, \<open>packers.py\<close>, \<open>mux.py\<close>,
  \<open>case_mux.py\<close>, \<open>lookup_table.py\<close> and \<open>logic.py\<close> of \<open>lizard/util/rtl\<close>, with the functional models
  \<open>mux.py\<close>, \<open>case_mux.py\<close>, \<open>lookup_table.py\<close> and \<open>logic.py\<close> of \<open>lizard/util/fl\<close>. An array of wires is a
  list; the elaboration-time loops that chain one block to the next are recursions on the position
  in the chain.
\<close>

section \<open>Priority decoder\<close>

text \<open>Stage \<open>n\<close> of the chains \<open>valid\<close> and \<open>outs\<close>.\<close>

fun priority_decoder_chain :: "'n::len word \<Rightarrow> nat \<Rightarrow> bool \<times> 'o::len word" where
  "priority_decoder_chain signal 0 = (False, 0)"
| "priority_decoder_chain signal (Suc i) =
     (let (valid, out) = priority_decoder_chain signal i
      in if valid then (True, out)
         else if bit signal i then (True, of_nat i)
         else (False, 0))"

text \<open>The decode method: the decoded index and whether it is valid.\<close>

definition priority_decoder :: "'n::len word \<Rightarrow> 'o::len word \<times> bool" where
  "priority_decoder signal =
     (let (valid, out) = priority_decoder_chain signal LENGTH('n) in (out, valid))"

lemma priority_decoder_chain_find:
  "priority_decoder_chain signal n =
     (case find (bit signal) [0..<n] of None \<Rightarrow> (False, 0) | Some i \<Rightarrow> (True, of_nat i))"
  by (induction n) (auto simp: find_append split: option.splits)

lemma priority_decoder_first_set:
  "priority_decoder signal =
     (case first_set signal of None \<Rightarrow> (0, False) | Some i \<Rightarrow> (of_nat i, True))"
  by (auto simp: priority_decoder_def priority_decoder_chain_find first_set_def split: option.splits)

section \<open>One-hot encoder\<close>

text \<open>\<open>enable\<close> is a construction parameter: with it the output is gated by \<open>encode_call\<close>.\<close>

definition one_hot_encoder :: "bool \<Rightarrow> bool \<Rightarrow> 'i::len word \<Rightarrow> 'o::len word" where
  "one_hot_encoder enable call number =
     word_bits (\<lambda>i. if enable then call \<and> number = of_nat i else number = of_nat i)"

lemma bit_one_hot_encoder:
  assumes "LENGTH('o) \<le> 2 ^ LENGTH('i)"
  shows "bit (one_hot_encoder enable call (number :: 'i::len word) :: 'o::len word) k \<longleftrightarrow>
         k < LENGTH('o) \<and> k = unat number \<and> (enable \<longrightarrow> call)"
  using assms by (auto simp: one_hot_encoder_def word_eq_of_nat_iff)

text \<open>Decoding what was encoded gives the number back, for the \<open>clog2nz\<close> width of the source.\<close>

lemma priority_decoder_one_hot:
  assumes "LENGTH('o) \<le> 2 ^ LENGTH('i)" and "unat number < LENGTH('o)"
  shows "priority_decoder (one_hot_encoder True True (number :: 'i::len word) :: 'o::len word) =
         (number, True)"
proof -
  have "first_set (one_hot_encoder True True number :: 'o word) = Some (unat number)"
    using assms by (auto simp: first_set_Some_iff bit_one_hot_encoder)
  then show ?thesis by (simp add: priority_decoder_first_set)
qed

section \<open>Packer and unpacker\<close>

fun packer_from :: "nat \<Rightarrow> 'd::len word list \<Rightarrow> 'p::len word \<Rightarrow> 'p word" where
  "packer_from i [] packed = packed"
| "packer_from i (x # xs) packed = packer_from (i + 1) xs (set_slice (i * LENGTH('d)) x packed)"

definition packer :: "'d::len word list \<Rightarrow> 'p::len word" where
  "packer inp = packer_from 0 inp 0"

definition unpacker :: "nat \<Rightarrow> 'p::len word \<Rightarrow> 'd::len word list" where
  "unpacker nports packed = map (\<lambda>i. get_slice (i * LENGTH('d)) packed) [0..<nports]"

lemma bit_packer_from:
  "bit (packer_from i (xs :: 'd::len word list) (w :: 'p::len word)) k \<longleftrightarrow>
     k < LENGTH('p) \<and>
     (if i * LENGTH('d) \<le> k \<and> k < (i + length xs) * LENGTH('d)
      then bit (xs ! (k div LENGTH('d) - i)) (k mod LENGTH('d)) else bit w k)"
proof (induction xs arbitrary: i w)
  case Nil
  then show ?case by (auto dest: bit_imp_le_length)
next
  case (Cons x xs)
  let ?d = "LENGTH('d)"
  have blk: "k div ?d = i \<and> k mod ?d = k - i * ?d" if "i * ?d \<le> k" "k < i * ?d + ?d"
  proof -
    have "k div ?d = i" using that by (intro div_nat_eqI) (auto simp: algebra_simps)
    then show ?thesis by (simp add: minus_div_mult_eq_mod [symmetric])
  qed
  have "Suc i \<le> k div ?d" if "i * ?d + ?d \<le> k"
    using that by (simp add: less_eq_div_iff_mult_less_eq)
  then show ?case
    using blk by (auto simp: Cons.IH bit_set_slice algebra_simps nth_Cons' Suc_le_eq)
qed

section \<open>Multiplexers\<close>

text \<open>\<open>Mux\<close> asserts that the select signal is below the number of ports: \<open>None\<close> otherwise.\<close>

definition mux :: "'a list \<Rightarrow> 'i::len word \<Rightarrow> 'a option" where
  "mux inp select = (if unat select < length inp then Some (inp ! unat select) else None)"

text \<open>The functional model indexes a list, which raises outside its bounds.\<close>

definition mux_fl :: "'a list \<Rightarrow> nat \<Rightarrow> 'a option" where
  "mux_fl inp select = (if select < length inp then Some (inp ! select) else None)"

lemma mux_rtl_eq_fl: "mux inp select = mux_fl inp (unat select)"
  by (simp add: mux_def mux_fl_def)

text \<open>
  \<open>CaseMux\<close>: stage \<open>i + 1\<close> of \<open>out_chain\<close> and \<open>valid_chain\<close> takes input \<open>i\<close> when the select signal
  equals the \<open>i\<close>-th value, so the last match wins. The functional model takes the first
  (\<open>svalues.index\<close>).
\<close>

fun case_mux_chain :: "'s list \<Rightarrow> 'a list \<Rightarrow> 'a \<Rightarrow> 's \<Rightarrow> nat \<Rightarrow> 'a \<times> bool" where
  "case_mux_chain svalues inp dflt select 0 = (dflt, False)"
| "case_mux_chain svalues inp dflt select (Suc i) =
     (if select = svalues ! i then (inp ! i, True)
      else case_mux_chain svalues inp dflt select i)"

definition case_mux :: "'s list \<Rightarrow> 'a list \<Rightarrow> 'a \<Rightarrow> 's \<Rightarrow> 'a \<times> bool" where
  "case_mux svalues inp dflt select =
     case_mux_chain svalues inp dflt select (length svalues)"

fun index_of :: "'s \<Rightarrow> 's list \<Rightarrow> nat option" where
  "index_of x [] = None"
| "index_of x (y # ys) = (if x = y then Some 0 else map_option Suc (index_of x ys))"

definition case_mux_fl :: "'s list \<Rightarrow> 'a list \<Rightarrow> 'a \<Rightarrow> 's \<Rightarrow> 'a \<times> bool" where
  "case_mux_fl svalues inp dflt select =
     (case index_of select svalues of Some i \<Rightarrow> (inp ! i, True) | None \<Rightarrow> (dflt, False))"

lemma index_of_Some_iff:
  "index_of x ys = Some i \<longleftrightarrow> i < length ys \<and> ys ! i = x \<and> (\<forall>j < i. ys ! j \<noteq> x)"
proof (induction ys arbitrary: i)
  case (Cons y ys)
  then show ?case by (cases i) (auto simp: All_less_Suc2)
qed simp

lemma index_of_None_iff: "index_of x ys = None \<longleftrightarrow> x \<notin> set ys"
  by (induction ys) auto

lemma case_mux_chain_hit:
  "distinct svalues \<Longrightarrow> n \<le> length svalues \<Longrightarrow> i < n \<Longrightarrow>
   case_mux_chain svalues inp dflt (svalues ! i) n = (inp ! i, True)"
  by (induction n) (auto simp: nth_eq_iff_index_eq)

lemma case_mux_chain_miss:
  "n \<le> length svalues \<Longrightarrow> select \<notin> set svalues \<Longrightarrow>
   case_mux_chain svalues inp dflt select n = (dflt, False)"
  by (induction n) auto

lemma case_mux_rtl_eq_fl:
  "distinct svalues \<Longrightarrow> case_mux svalues inp dflt select = case_mux_fl svalues inp dflt select"
  unfolding case_mux_def case_mux_fl_def
  by (auto simp: index_of_None_iff index_of_Some_iff case_mux_chain_miss case_mux_chain_hit
      split: option.split)

text \<open>With a repeated select value the two models differ.\<close>

lemma case_mux_rtl_neq_fl:
  "case_mux [1, 1] [''a'', ''b''] ''c'' (1 :: nat) \<noteq> case_mux_fl [1, 1] [''a'', ''b''] ''c'' 1"
  by (simp add: case_mux_def case_mux_fl_def numeral_2_eq_2)

section \<open>Lookup table\<close>

text \<open>The mapping is a dictionary: an association list with distinct keys.\<close>

definition lookup_table :: "('k::linorder \<times> 'v::zero) list \<Rightarrow> 'k \<Rightarrow> 'v \<times> bool" where
  "lookup_table mapping inp =
     (let entries = map (\<lambda>key. (key, the (map_of mapping key))) (sort (map fst mapping))
      in case_mux (map fst entries) (map snd entries) 0 inp)"

definition lookup_table_fl :: "('k \<times> 'v::zero) list \<Rightarrow> 'k \<Rightarrow> 'v \<times> bool" where
  "lookup_table_fl mapping inp =
     (case map_of mapping inp of Some v \<Rightarrow> (v, True) | None \<Rightarrow> (0, False))"

lemma lookup_table_rtl_eq_fl:
  assumes "distinct (map fst mapping)"
  shows "lookup_table mapping inp = lookup_table_fl mapping inp"
proof -
  let ?keys = "sort (map fst mapping)"
  have entries: "map fst (map (\<lambda>key. (key, the (map_of mapping key))) ?keys) = ?keys"
    "map snd (map (\<lambda>key. (key, the (map_of mapping key))) ?keys) =
     map (\<lambda>key. the (map_of mapping key)) ?keys"
    by (simp_all add: comp_def)
  have "lookup_table mapping inp =
        case_mux_fl ?keys (map (\<lambda>key. the (map_of mapping key)) ?keys) 0 inp"
    unfolding lookup_table_def Let_def entries
    by (rule case_mux_rtl_eq_fl) (simp add: assms)
  also have "\<dots> = lookup_table_fl mapping inp"
  proof (cases "index_of inp ?keys")
    case None
    then show ?thesis
      by (auto simp: case_mux_fl_def lookup_table_fl_def index_of_None_iff map_of_eq_None_iff
          image_iff split: option.splits dest: map_of_SomeD)
  next
    case (Some i)
    then have i: "i < length ?keys" "?keys ! i = inp" by (auto simp: index_of_Some_iff)
    then have "inp \<in> set (map fst mapping)" by (metis nth_mem set_sort)
    then obtain v where "map_of mapping inp = Some v" by (auto simp: map_of_eq_None_iff dest: weak_map_of_SomeI)
    then show ?thesis using i Some by (simp add: case_mux_fl_def lookup_table_fl_def)
  qed
  finally show ?thesis .
qed

section \<open>Logic operators\<close>

definition equals :: "'a \<Rightarrow> 'a \<Rightarrow> bool" where
  "equals in_a in_b = (in_a = in_b)"

text \<open>The partial results of \<open>And\<close> and \<open>Or\<close> at port \<open>i\<close>; the output is the last one.\<close>

fun and_partial :: "bool list \<Rightarrow> nat \<Rightarrow> bool" where
  "and_partial inp 0 = inp ! 0"
| "and_partial inp (Suc i) = (inp ! Suc i \<and> and_partial inp i)"

definition and_op :: "bool list \<Rightarrow> bool" where
  "and_op inp = and_partial inp (length inp - 1)"

fun or_partial :: "bool list \<Rightarrow> nat \<Rightarrow> bool" where
  "or_partial inp 0 = inp ! 0"
| "or_partial inp (Suc i) = (inp ! Suc i \<or> or_partial inp i)"

definition or_op :: "bool list \<Rightarrow> bool" where
  "or_op inp = or_partial inp (length inp - 1)"

definition equals_fl :: "'a \<Rightarrow> 'a \<Rightarrow> bool" where
  "equals_fl in_a in_b = (in_a = in_b)"

definition and_fl :: "bool list \<Rightarrow> bool" where
  "and_fl inp = list_all (\<lambda>b. b) inp"

definition or_fl :: "bool list \<Rightarrow> bool" where
  "or_fl inp = list_ex (\<lambda>b. b) inp"

lemma and_partial_iff: "and_partial inp i \<longleftrightarrow> (\<forall>j \<le> i. inp ! j)"
  by (induction i) (auto simp: le_Suc_eq)

lemma or_partial_iff: "or_partial inp i \<longleftrightarrow> (\<exists>j \<le> i. inp ! j)"
  by (induction i) (auto simp: le_Suc_eq)

lemma and_rtl_eq_fl: "inp \<noteq> [] \<Longrightarrow> and_op inp = and_fl inp"
  by (cases inp) (auto simp: and_op_def and_fl_def and_partial_iff list_all_length less_Suc_eq_le)

lemma or_rtl_eq_fl: "inp \<noteq> [] \<Longrightarrow> or_op inp = or_fl inp"
  by (cases inp) (auto simp: or_op_def or_fl_def or_partial_iff list_ex_length less_Suc_eq_le)

section \<open>Properties\<close>

text \<open>The lookup table built from a chain of comparators over the sorted keys answers every
  input as the dictionary it was built from.\<close>

theorem lookup_table_correct:
  assumes "distinct (map fst mapping)"
  shows "lookup_table mapping inp = (case map_of mapping inp of Some v \<Rightarrow> (v, True) | None \<Rightarrow> (0, False))"
  using lookup_table_rtl_eq_fl [OF assms] by (simp add: lookup_table_fl_def)

theorem lookup_table_correct_witness:
  "lookup_table [(3 :: nat, 7 :: nat), (1, 5)] 1 = (5, True) \<and>
   lookup_table [(3 :: nat, 7 :: nat), (1, 5)] 2 = (0, False)"
  using lookup_table_correct [of "[(3 :: nat, 7 :: nat), (1, 5)]" 1]
    lookup_table_correct [of "[(3 :: nat, 7 :: nat), (1, 5)]" 2] by simp

text \<open>Packing an array of ports into one vector and unpacking it gives the array back.\<close>

theorem packer_roundtrip:
  assumes "length xs * LENGTH('d) \<le> LENGTH('p)"
  shows "unpacker (length xs) (packer xs :: 'p::len word) = (xs :: 'd::len word list)"
proof (rule nth_equalityI)
  fix i assume "i < length (unpacker (length xs) (packer xs :: 'p word) :: 'd word list)"
  then have i: "i < length xs" by (simp add: unpacker_def)
  have le: "i * LENGTH('d) + k < length xs * LENGTH('d)" if "k < LENGTH('d)" for k
  proof -
    have "i * LENGTH('d) + k < Suc i * LENGTH('d)" using that by simp
    also have "\<dots> \<le> length xs * LENGTH('d)" using i by (intro mult_le_mono1) simp
    finally show ?thesis .
  qed
  show "unpacker (length xs) (packer xs :: 'p word) ! i = xs ! i"
    using i assms le
    by (intro bit_word_eqI)
       (auto simp: unpacker_def packer_def bit_get_slice bit_packer_from intro: less_le_trans)
qed (simp add: unpacker_def)

theorem packer_roundtrip_witness:
  "unpacker 3 (packer [1, 2, 3 :: 4 word] :: 12 word) = [1, 2, 3 :: 4 word]"
  using packer_roundtrip [of "[1, 2, 3 :: 4 word]", where ?'p = 12] by (simp add: numeral_3_eq_3)

end
