(* ===== verification/Registers.thy ===== *)
theory Registers
  imports Selectors
begin

text \<open>
  Storage: \<open>register.py\<close>, \<open>registerfile.py\<close>, \<open>async_ram.py\<close>, \<open>sync_ram.py\<close> and
  \<open>lookup_registerfile.py\<close> of \<open>lizard/util/rtl\<close> and the functional models \<open>registerfile.py\<close> and
  \<open>lookup_registerfile.py\<close> of \<open>lizard/util/fl\<close>. The array of registers is a list; reading outside it
  raises, which is \<open>None\<close> on that port.
\<close>

section \<open>Register\<close>

text \<open>\<open>enable\<close> and \<open>bypass\<close> are construction parameters; the input is \<open>write_call\<close> (tied to 1 without
  \<open>enable\<close>) and \<open>write_data\<close>, the output \<open>read_data\<close>.\<close>

definition register_step :: "bool \<Rightarrow> bool \<Rightarrow> ('a, bool \<times> 'a, 'a) machine" where
  "register_step enable bypass reg_value i =
     (let (write_call, write_data) = i;
          update = (if enable then write_call else True);
          read_data = (if bypass then (if update then write_data else reg_value) else reg_value)
      in (if update then write_data else reg_value, read_data))"

section \<open>Register file\<close>

record ('i, 'a) regfile_in =
  rf_read_addr :: "'i list"
  rf_write_call :: "bool list"
  rf_write_addr :: "'i list"
  rf_write_data :: "'a list"
  rf_set_call :: bool
  rf_set_in :: "'a list"

record 'a regfile_out =
  rf_read_data :: "'a option list"
  rf_dump_out :: "'a list"

definition list_read :: "'a list \<Rightarrow> nat \<Rightarrow> 'a option" where
  "list_read xs i = (if i < length xs then Some (xs ! i) else None)"

text \<open>\<open>write_inc\<close>: register \<open>reg_i\<close> after write port \<open>port\<close>.\<close>

fun regfile_write_inc :: "'a list \<Rightarrow> ('i::len word, 'a) regfile_in \<Rightarrow> nat \<Rightarrow> nat \<Rightarrow> 'a" where
  "regfile_write_inc regs i reg_i 0 =
     (if rf_write_call i ! 0 \<and> unat (rf_write_addr i ! 0) = reg_i then rf_write_data i ! 0
      else regs ! reg_i)"
| "regfile_write_inc regs i reg_i (Suc port) =
     (if rf_write_call i ! Suc port \<and> unat (rf_write_addr i ! Suc port) = reg_i
      then rf_write_data i ! Suc port
      else regfile_write_inc regs i reg_i port)"

definition regfile_after_write :: "'a list \<Rightarrow> ('i::len word, 'a) regfile_in \<Rightarrow> 'a list" where
  "regfile_after_write regs i =
     (let num_write_ports = length (rf_write_call i)
      in map (\<lambda>reg_i. if num_write_ports = 0 then regs ! reg_i
                       else regfile_write_inc regs i reg_i (num_write_ports - 1))
           [0..<length regs])"

definition regfile_after_set :: "'a list \<Rightarrow> ('i::len word, 'a) regfile_in \<Rightarrow> 'a list" where
  "regfile_after_set regs i =
     (let after_write = regfile_after_write regs i
      in map (\<lambda>reg_i. if rf_set_call i then rf_set_in i ! reg_i else after_write ! reg_i)
           [0..<length regs])"

definition regfile_step ::
  "bool \<Rightarrow> bool \<Rightarrow> ('a list, ('i::len word, 'a) regfile_in, 'a regfile_out) machine" where
  "regfile_step write_read_bypass write_dump_bypass regs i =
     (let after_write = regfile_after_write regs i;
          after_set = regfile_after_set regs i;
          read_src = (if write_read_bypass then after_set else regs)
      in (after_set,
          \<lparr> rf_read_data = map (\<lambda>a. list_read read_src (unat a)) (rf_read_addr i),
            rf_dump_out = (if write_dump_bypass then after_write else regs) \<rparr>))"

definition regfile_reset :: "nat \<Rightarrow> 'a::zero list option \<Rightarrow> 'a list" where
  "regfile_reset nregs reset_values =
     (case reset_values of None \<Rightarrow> replicate nregs 0 | Some vs \<Rightarrow> vs)"

text \<open>The functional model, method by method; \<open>s.regs[addr] = data\<close> raises outside the list.\<close>

definition regfile_fl_read :: "'a list \<Rightarrow> nat \<Rightarrow> 'a option" where
  "regfile_fl_read regs addr = list_read regs addr"

definition regfile_fl_write :: "'a list \<Rightarrow> nat \<Rightarrow> 'a \<Rightarrow> 'a list option" where
  "regfile_fl_write regs addr data = (if addr < length regs then Some (regs[addr := data]) else None)"

definition regfile_fl_dump :: "'a list \<Rightarrow> 'a list" where
  "regfile_fl_dump regs = regs"

definition regfile_fl_set :: "'a list \<Rightarrow> 'a list \<Rightarrow> 'a list" where
  "regfile_fl_set regs inp = inp"

text \<open>
  One cycle of the functional model: the methods are called in the order the interface declares,
  the write ports in the order of their index. A read that raises is \<open>None\<close> on its port, a write
  that raises ends the run.
\<close>

fun regfile_fl_writes :: "'a list \<Rightarrow> (bool \<times> nat \<times> 'a) list \<Rightarrow> 'a list option" where
  "regfile_fl_writes regs [] = Some regs"
| "regfile_fl_writes regs ((call, addr, data) # rest) =
     do { regs \<leftarrow> (if call then regfile_fl_write regs addr data else Some regs);
          regfile_fl_writes regs rest }"

definition rf_writes :: "('i::len word, 'a) regfile_in \<Rightarrow> (bool \<times> nat \<times> 'a) list" where
  "rf_writes i = zip (rf_write_call i) (zip (map unat (rf_write_addr i)) (rf_write_data i))"

definition regfile_fl_step ::
  "bool \<Rightarrow> bool \<Rightarrow> 'a list \<Rightarrow> ('i::len word, 'a) regfile_in \<Rightarrow> ('a list \<times> 'a regfile_out) option" where
  "regfile_fl_step write_read_bypass write_dump_bypass regs i =
     do { written \<leftarrow> regfile_fl_writes regs (rf_writes i);
          let read_regs = (if write_read_bypass then written else regs);
          let dump_regs = (if write_dump_bypass then written else regs);
          Some (if rf_set_call i then regfile_fl_set written (rf_set_in i) else written,
                \<lparr> rf_read_data = map (\<lambda>a. regfile_fl_read read_regs (unat a)) (rf_read_addr i),
                  rf_dump_out = regfile_fl_dump dump_regs \<rparr>) }"

text \<open>The shape the ports have, and the one combination of calls the two levels order differently: a
  \<open>set\<close> in a cycle whose reads are bypassed.\<close>

definition regfile_ports_ok :: "nat \<Rightarrow> ('i::len word, 'a) regfile_in \<Rightarrow> bool" where
  "regfile_ports_ok nregs i \<longleftrightarrow>
     length (rf_write_addr i) = length (rf_write_call i) \<and>
     length (rf_write_data i) = length (rf_write_call i) \<and> length (rf_set_in i) = nregs"

definition regfile_ok :: "bool \<Rightarrow> nat \<Rightarrow> ('i::len word, 'a) regfile_in \<Rightarrow> bool" where
  "regfile_ok write_read_bypass nregs i \<longleftrightarrow>
     regfile_ports_ok nregs i \<and> \<not> (write_read_bypass \<and> rf_set_call i)"

text \<open>The register after the first ports, as the last write to it wins.\<close>

lemma regfile_fl_writes_append:
  "regfile_fl_writes regs (xs @ ys) =
     do { regs \<leftarrow> regfile_fl_writes regs xs; regfile_fl_writes regs ys }"
  by (induction regs xs rule: regfile_fl_writes.induct) (auto split: bind_splits)

lemma regfile_fl_writes_length: "regfile_fl_writes regs ws = Some regs' \<Longrightarrow> length regs' = length regs"
  by (induction regs ws rule: regfile_fl_writes.induct)
     (auto simp: regfile_fl_write_def split: bind_splits if_splits)

lemma regfile_write_inc_fl:
  assumes "regfile_ports_ok nregs i" and "port < length (rf_write_call i)" and "reg_i < length regs"
    and "regfile_fl_writes regs (take (Suc port) (rf_writes i)) = Some regs'"
  shows "regfile_write_inc regs i reg_i port = regs' ! reg_i"
  using assms
proof (induction port arbitrary: regs')
  case 0
  then have "rf_writes i \<noteq> []" by (auto simp: rf_writes_def regfile_ports_ok_def)
  then have "take (Suc 0) (rf_writes i) = [rf_writes i ! 0]" by (cases "rf_writes i") auto
  then show ?case
    using 0 by (auto simp: rf_writes_def regfile_ports_ok_def regfile_fl_write_def nth_list_update
        split: bind_splits if_splits)
next
  case (Suc port)
  then have "Suc port < length (rf_writes i)" by (auto simp: rf_writes_def regfile_ports_ok_def)
  then have "take (Suc (Suc port)) (rf_writes i) = take (Suc port) (rf_writes i) @ [rf_writes i ! Suc port]"
    by (simp add: take_Suc_conv_app_nth)
  then obtain regs1 where 1: "regfile_fl_writes regs (take (Suc port) (rf_writes i)) = Some regs1"
    and 2: "regfile_fl_writes regs1 [rf_writes i ! Suc port] = Some regs'"
    using Suc.prems(4) by (auto simp: regfile_fl_writes_append split: bind_splits)
  then have "regfile_write_inc regs i reg_i port = regs1 ! reg_i"
    using Suc by simp
  then show ?case
    using 2 Suc.prems regfile_fl_writes_length [OF 1]
    by (auto simp: rf_writes_def regfile_ports_ok_def regfile_fl_write_def nth_list_update
        split: bind_splits if_splits)
qed

lemma regfile_after_write_fl:
  assumes "regfile_ports_ok nregs i" and "regfile_fl_writes regs (rf_writes i) = Some regs'"
  shows "regfile_after_write regs i = regs'"
proof (cases "rf_write_call i = []")
  case True
  then show ?thesis using assms by (simp add: regfile_after_write_def rf_writes_def map_nth)
next
  case False
  let ?p = "length (rf_write_call i) - 1"
  have "length (rf_writes i) = Suc ?p"
    using False assms(1) by (auto simp: rf_writes_def regfile_ports_ok_def)
  then have "regfile_fl_writes regs (take (Suc ?p) (rf_writes i)) = Some regs'"
    using assms(2) by simp
  then have "regfile_write_inc regs i reg_i ?p = regs' ! reg_i" if "reg_i < length regs" for reg_i
    using False that by (intro regfile_write_inc_fl [OF assms(1)]) auto
  then show ?thesis
    using False regfile_fl_writes_length [OF assms(2)]
    by (intro nth_equalityI) (auto simp: regfile_after_write_def)
qed

interpretation regfile: partial_refinement
  "regfile_step wrb wdb" "regfile_fl_step wrb wdb"
  "\<lambda>regs regs'. regs = regs' \<and> length regs = nregs" "regfile_ok wrb nregs"
  for wrb wdb nregs
proof unfold_locales
  fix s t :: "'a list" and i :: "('i::len word, 'a) regfile_in" and t' out
  assume R: "s = t \<and> length s = nregs" and ok: "regfile_ok wrb nregs i"
    and fl: "regfile_fl_step wrb wdb t i = Some (t', out)"
  from fl obtain w where w: "regfile_fl_writes t (rf_writes i) = Some w"
    by (auto simp: regfile_fl_step_def split: bind_splits)
  have p: "regfile_ports_ok nregs i" using ok by (simp add: regfile_ok_def)
  have aw: "regfile_after_write s i = w" using regfile_after_write_fl [OF p w] R by simp
  have len: "length w = nregs" using regfile_fl_writes_length [OF w] R by auto
  have as: "regfile_after_set s i = (if rf_set_call i then rf_set_in i else w)"
    using R p aw len by (auto simp: regfile_after_set_def regfile_ports_ok_def intro: nth_equalityI)
  show "snd (regfile_step wrb wdb s i) = out \<and>
        fst (regfile_step wrb wdb s i) = t' \<and> length (fst (regfile_step wrb wdb s i)) = nregs"
    using fl ok w aw as len p R
    by (auto simp: regfile_fl_step_def regfile_step_def regfile_ok_def regfile_ports_ok_def
        regfile_fl_read_def regfile_fl_dump_def regfile_fl_set_def)
qed

lemma regfile_step_length:
  "length (fst (regfile_step wrb wdb regs i)) = length regs"
  by (simp add: regfile_step_def regfile_after_set_def Let_def)

section \<open>Asynchronous RAM\<close>

text \<open>A write port is its \<open>call\<close>, \<open>addr\<close> and \<open>data\<close> wires.\<close>

record ('i, 'a) async_ram_in =
  ar_read_addr :: "'i list"
  ar_write :: "(bool \<times> 'i \<times> 'a) list"

fun async_ram_bypass :: "'i \<Rightarrow> 'a \<Rightarrow> (bool \<times> 'i \<times> 'a) list \<Rightarrow> 'a" where
  "async_ram_bypass addr data [] = data"
| "async_ram_bypass addr data ((call, waddr, wdata) # rest) =
     async_ram_bypass addr (if call \<and> waddr = addr then wdata else data) rest"

definition async_ram_read ::
  "bool \<Rightarrow> 'a list \<Rightarrow> (bool \<times> 'i::len word \<times> 'a) list \<Rightarrow> 'i word \<Rightarrow> 'a option" where
  "async_ram_read bypass regs writes addr =
     do { data \<leftarrow> list_read regs (unat addr);
          Some (if bypass then async_ram_bypass addr data writes else data) }"

fun async_ram_writes :: "'a list \<Rightarrow> (bool \<times> 'i::len word \<times> 'a) list \<Rightarrow> 'a list option" where
  "async_ram_writes regs [] = Some regs"
| "async_ram_writes regs ((call, addr, data) # rest) =
     (if \<not> call then async_ram_writes regs rest
      else if unat addr < length regs then async_ram_writes (regs[unat addr := data]) rest
      else None)"

definition async_ram_step ::
  "bool \<Rightarrow> 'a list \<Rightarrow> ('i::len word, 'a) async_ram_in \<Rightarrow> ('a list \<times> 'a option list) option" where
  "async_ram_step bypass regs i =
     do { regs' \<leftarrow> async_ram_writes regs (ar_write i);
          Some (regs', map (async_ram_read bypass regs (ar_write i)) (ar_read_addr i)) }"

lemma async_ram_writes_read:
  "async_ram_writes regs ws = Some regs' \<Longrightarrow> unat addr < length regs \<Longrightarrow>
   regs' ! unat addr = async_ram_bypass addr (regs ! unat addr) ws"
  by (induction regs ws arbitrary: regs' rule: async_ram_writes.induct)
     (auto simp: nth_list_update word_unat_eq_iff split: if_splits)

lemma async_ram_writes_length: "async_ram_writes regs ws = Some regs' \<Longrightarrow> length regs' = length regs"
  by (induction regs ws arbitrary: regs' rule: async_ram_writes.induct) (auto split: if_splits)

section \<open>Synchronous RAM\<close>

text \<open>The read data is a register: the address of this cycle is answered in the next. With the
  bypass the block assigns \<open>regs\<close> with \<open>.v\<close>, so its own reads see the writes.\<close>

record ('i, 'a) sync_ram_in =
  sr_read_next_addr :: "'i list"
  sr_write :: "(bool \<times> 'i \<times> 'a) list"

record 'a sync_ram =
  sr_regs :: "'a list"
  sr_read_data :: "'a list"

definition sync_ram_step ::
  "bool \<Rightarrow> 'a sync_ram \<Rightarrow> ('i::len word, 'a) sync_ram_in \<Rightarrow> ('a sync_ram \<times> 'a list) option" where
  "sync_ram_step bypass s i =
     do { regs' \<leftarrow> async_ram_writes (sr_regs s) (sr_write i);
          reads \<leftarrow> those (map (\<lambda>a. list_read (if bypass then regs' else sr_regs s) (unat a))
                             (sr_read_next_addr i));
          Some (\<lparr> sr_regs = regs', sr_read_data = reads \<rparr>, sr_read_data s) }"

section \<open>Lookup register file\<close>

text \<open>Each group is a list of keys that alias each other; a repeated key fails the assertion.\<close>

fun add_group :: "nat \<Rightarrow> 'k list \<Rightarrow> ('k \<times> nat) list \<Rightarrow> ('k \<times> nat) list option" where
  "add_group i [] mapping = Some mapping"
| "add_group i (key # grp) mapping =
     (if key \<in> fst ` set mapping then None else add_group i grp (mapping @ [(key, i)]))"

fun key_mapping_from :: "nat \<Rightarrow> 'k list list \<Rightarrow> ('k \<times> nat) list \<Rightarrow> ('k \<times> nat) list option" where
  "key_mapping_from i [] mapping = Some mapping"
| "key_mapping_from i (grp # groups) mapping =
     do { mapping \<leftarrow> add_group i grp mapping; key_mapping_from (i + 1) groups mapping }"

definition key_mapping :: "'k list list \<Rightarrow> ('k \<times> nat) list option" where
  "key_mapping key_groups = key_mapping_from 0 key_groups []"

record ('k, 'v) lookup_rf_in =
  lrf_read_key :: "'k list"
  lrf_write :: "(bool \<times> 'k \<times> 'v) list"

record 'v lookup_rf_out =
  lrf_read :: "('v \<times> bool) list"
  lrf_write_valid :: "bool list"

text \<open>The RTL: one lookup table per port in front of the RAM; an invalid read gives zero and an
  invalid write is not forwarded.\<close>

fun lookup_rf_writes :: "('k::linorder \<times> nat) list \<Rightarrow> 'v list \<Rightarrow> (bool \<times> 'k \<times> 'v) list \<Rightarrow> 'v list" where
  "lookup_rf_writes mapping regs [] = regs"
| "lookup_rf_writes mapping regs ((call, key, v) # rest) =
     (let (addr, valid) = lookup_table mapping key
      in lookup_rf_writes mapping (if valid \<and> call then regs[addr := v] else regs) rest)"

definition lookup_rf_step ::
  "('k::linorder \<times> nat) list \<Rightarrow> ('v::zero list, ('k, 'v) lookup_rf_in, 'v lookup_rf_out) machine" where
  "lookup_rf_step mapping regs i =
     (lookup_rf_writes mapping regs (lrf_write i),
      \<lparr> lrf_read = map (\<lambda>key. let (addr, valid) = lookup_table mapping key
                               in (if valid then regs ! addr else 0, valid)) (lrf_read_key i),
        lrf_write_valid = map (\<lambda>(call, key, v). snd (lookup_table mapping key)) (lrf_write i) \<rparr>)"

definition lookup_rf_fl_read :: "('k \<times> nat) list \<Rightarrow> 'v::zero list \<Rightarrow> 'k \<Rightarrow> 'v \<times> bool" where
  "lookup_rf_fl_read mapping values key =
     (case map_of mapping key of Some i \<Rightarrow> (values ! i, True) | None \<Rightarrow> (0, False))"

definition lookup_rf_fl_write :: "('k \<times> nat) list \<Rightarrow> 'v list \<Rightarrow> 'k \<Rightarrow> 'v \<Rightarrow> 'v list \<times> bool" where
  "lookup_rf_fl_write mapping values key v =
     (case map_of mapping key of Some i \<Rightarrow> (values[i := v], True) | None \<Rightarrow> (values, False))"

fun lookup_rf_fl_writes :: "('k \<times> nat) list \<Rightarrow> 'v list \<Rightarrow> (bool \<times> 'k \<times> 'v) list \<Rightarrow> 'v list" where
  "lookup_rf_fl_writes mapping values [] = values"
| "lookup_rf_fl_writes mapping values ((call, key, v) # rest) =
     lookup_rf_fl_writes mapping
       (if call then fst (lookup_rf_fl_write mapping values key v) else values) rest"

definition lookup_rf_fl_step ::
  "('k \<times> nat) list \<Rightarrow> ('v::zero list, ('k, 'v) lookup_rf_in, 'v lookup_rf_out) machine" where
  "lookup_rf_fl_step mapping values i =
     (lookup_rf_fl_writes mapping values (lrf_write i),
      \<lparr> lrf_read = map (lookup_rf_fl_read mapping values) (lrf_read_key i),
        lrf_write_valid = map (\<lambda>(call, key, v). snd (lookup_rf_fl_write mapping values key v))
                            (lrf_write i) \<rparr>)"

lemma add_group_distinct:
  "add_group i grp mapping = Some m \<Longrightarrow> distinct (map fst mapping) \<Longrightarrow> distinct (map fst m)"
  by (induction i grp mapping arbitrary: m rule: add_group.induct) (auto split: if_splits)

lemma key_mapping_from_distinct:
  "key_mapping_from i groups mapping = Some m \<Longrightarrow> distinct (map fst mapping) \<Longrightarrow> distinct (map fst m)"
  by (induction i groups mapping arbitrary: m rule: key_mapping_from.induct)
     (auto split: bind_splits dest: add_group_distinct)

lemma key_mapping_distinct: "key_mapping groups = Some m \<Longrightarrow> distinct (map fst m)"
  by (auto simp: key_mapping_def dest: key_mapping_from_distinct)

lemma lookup_rf_writes_fl:
  "distinct (map fst mapping) \<Longrightarrow> lookup_rf_writes mapping regs ws = lookup_rf_fl_writes mapping regs ws"
  by (induction ws arbitrary: regs)
     (auto simp: lookup_table_rtl_eq_fl lookup_table_fl_def lookup_rf_fl_write_def split: option.splits)

lemma lookup_rf_step_fl:
  "distinct (map fst mapping) \<Longrightarrow> lookup_rf_step mapping regs i = lookup_rf_fl_step mapping regs i"
  by (auto simp: lookup_rf_step_def lookup_rf_fl_step_def lookup_rf_writes_fl lookup_table_rtl_eq_fl
      lookup_table_fl_def lookup_rf_fl_read_def lookup_rf_fl_write_def split: option.splits)

interpretation lookup_rf: cycle_refinement
  "lookup_rf_step mapping" "lookup_rf_fl_step mapping"
  "\<lambda>regs values. regs = values \<and> distinct (map fst mapping)" "\<lambda>_ _. True" for mapping
  by unfold_locales (auto simp: lookup_rf_step_fl)

section \<open>Properties\<close>



text \<open>A \<open>set\<close> in a cycle with bypassed reads is where the two levels differ: the RTL read already
  sees the set, although the interface orders \<open>set\<close> after \<open>read\<close>.\<close>

theorem regfile_bypass_set_differs:
  "\<exists>i :: (1 word, nat) regfile_in. regfile_ports_ok 2 i \<and>
     rf_read_data (snd (regfile_step True False [3, 4] i)) = [Some 7] \<and>
     (\<exists>s out. regfile_fl_step True False [3, 4] i = Some (s, out) \<and> rf_read_data out = [Some 3])"
  by (rule exI [of _ "\<lparr> rf_read_addr = [0], rf_write_call = [], rf_write_addr = [],
        rf_write_data = [], rf_set_call = True, rf_set_in = [7, 8] \<rparr>"])
     (simp add: regfile_step_def regfile_after_set_def regfile_after_write_def regfile_ports_ok_def
        regfile_fl_step_def rf_writes_def regfile_fl_read_def list_read_def)

text \<open>A bypassed read of the asynchronous RAM gives what an unbypassed read gives in the next
  cycle.\<close>

theorem async_ram_bypass_correct:
  assumes "async_ram_step True regs i = Some (regs', outs)"
    and "async_ram_step False regs' j = Some (regs'', outs')"
    and "ar_read_addr j = ar_read_addr i"
  shows "outs = outs'"
  using assms async_ram_writes_read [of regs "ar_write i" regs']
    async_ram_writes_length [of regs "ar_write i" regs']
  by (auto simp: async_ram_step_def async_ram_read_def list_read_def split: bind_splits)

theorem async_ram_bypass_correct_witness:
  "map (async_ram_read True [1, 2, 3 :: nat] [(True, 1, 7)]) [1, 0 :: 2 word] = [Some 7, Some 1]"
  using async_ram_bypass_correct [of "[1, 2, 3 :: nat]"
      "\<lparr> ar_read_addr = [1, 0 :: 2 word], ar_write = [(True, 1, 7)] \<rparr>" _ _
      "\<lparr> ar_read_addr = [1, 0], ar_write = [] \<rparr>"]
  by (simp add: async_ram_step_def async_ram_read_def list_read_def)

text \<open>A register file addressed by keys behaves as the functional model on every input sequence,
  whatever the groups of aliased keys.\<close>

theorem lookup_regfile_refines_fl:
  assumes "key_mapping key_groups = Some mapping"
  shows "run (lookup_rf_step mapping) regs is = run (lookup_rf_fl_step mapping) regs is"
  using key_mapping_distinct [OF assms]
  by (intro lookup_rf.run_refines) (auto intro: runs_ok_always)

theorem lookup_regfile_refines_fl_witness:
  "run (lookup_rf_step [(5 :: nat, 0), (6, 0), (9, 1)]) [0, 0]
     [\<lparr> lrf_read_key = [5], lrf_write = [(True, 6, 3 :: nat), (True, 7, 4)] \<rparr>,
      \<lparr> lrf_read_key = [5, 7, 9], lrf_write = [] \<rparr>] =
   [\<lparr> lrf_read = [(0 :: nat, True)], lrf_write_valid = [True, False] \<rparr>,
    \<lparr> lrf_read = [(3, True), (0, False), (0, True)], lrf_write_valid = [] \<rparr>]"
  using lookup_regfile_refines_fl [of "[[5 :: nat, 6], [9]]" "[(5, 0), (6, 0), (9, 1)]" "[0, 0]"
      "[\<lparr> lrf_read_key = [5], lrf_write = [(True, 6, 3 :: nat), (True, 7, 4)] \<rparr>,
        \<lparr> lrf_read_key = [5, 7, 9], lrf_write = [] \<rparr>]"]
  by (simp add: key_mapping_def lookup_rf_fl_step_def lookup_rf_fl_read_def lookup_rf_fl_write_def)

end
