(* ===== verification/Freelist.thy ===== *)
theory Freelist
  imports Registers
begin

text \<open>
  The free list of \<open>lizard/util/rtl/freelist.py\<close> with its functional model
  \<open>lizard/util/fl/freelist.py\<close>. The state is the free vector: bit \<open>i\<close> is set when slot \<open>i\<close> is free.
  The two bypass flags are construction parameters.
\<close>

section \<open>Ports\<close>

record ('n, 'i) freelist_in =
  fr_free :: "(bool \<times> 'i) list"
  fr_release_call :: bool
  fr_release_mask :: 'n
  fr_alloc_call :: "bool list"
  fr_set_call :: bool
  fr_set_state :: 'n

text \<open>The \<open>alloc\<close> port's wires \<open>rdy\<close>, \<open>index\<close> and \<open>mask\<close>.\<close>

record ('n, 'i) freelist_out =
  fr_state :: 'n
  fr_alloc :: "(bool \<times> 'i \<times> 'n) list"

section \<open>Register-transfer level\<close>

text \<open>The chain \<open>free_masks\<close> over the free ports.\<close>

fun free_masks :: "(bool \<times> 'i::len word) list \<Rightarrow> 'n::len word \<Rightarrow> 'n word" where
  "free_masks [] masks = masks"
| "free_masks ((call, index) # rest) masks =
     free_masks rest (if call then masks OR one_hot_encoder False False index else masks)"

text \<open>The chain \<open>alloc_inc\<close> over the alloc ports: a decoder and an encoder each.\<close>

fun alloc_chain :: "bool list \<Rightarrow> 'n::len word \<Rightarrow> (bool \<times> 'i::len word \<times> 'n word) list \<times> 'n word" where
  "alloc_chain [] inc = ([], inc)"
| "alloc_chain (call # calls) inc =
     (let (decoded, valid) = priority_decoder inc;
          onehot = one_hot_encoder False False decoded;
          (outs, inc') = alloc_chain calls (if call then inc AND NOT onehot else inc)
      in ((valid, decoded, onehot) # outs, inc'))"

definition freelist_alloc_base :: "bool \<Rightarrow> bool \<Rightarrow> 'n::len word \<Rightarrow> ('n word, 'i::len word) freelist_in \<Rightarrow> 'n word"
where
  "freelist_alloc_base free_alloc_bypass release_alloc_bypass free_vector i =
     (let alloc_inc_base =
            (if release_alloc_bypass
             then (if fr_release_call i then free_vector OR fr_release_mask i else free_vector)
             else free_vector)
      in if free_alloc_bypass then alloc_inc_base OR free_masks (fr_free i) 0 else alloc_inc_base)"

definition freelist_step ::
  "bool \<Rightarrow> bool \<Rightarrow> ('n::len word, ('n word, 'i::len word) freelist_in, ('n word, 'i word) freelist_out) machine"
where
  "freelist_step free_alloc_bypass release_alloc_bypass free_vector i =
     (let (outs, alloc_inc) =
            alloc_chain (fr_alloc_call i)
              (freelist_alloc_base free_alloc_bypass release_alloc_bypass free_vector i);
          free_next_base =
            (if release_alloc_bypass then alloc_inc
             else if fr_release_call i then alloc_inc OR fr_release_mask i else alloc_inc);
          free_next = (if free_alloc_bypass then free_next_base
                       else free_next_base OR free_masks (fr_free i) 0);
          mux_out = (if fr_set_call i then fr_set_state i else free_next)
      in (mux_out, \<lparr> fr_state = free_vector, fr_alloc = outs \<rparr>))"

definition freelist_reset :: "nat \<Rightarrow> 'n::len word" where
  "freelist_reset used_slots_initial = word_bits (\<lambda>i. used_slots_initial \<le> i)"

section \<open>Functional model\<close>

text \<open>The methods; \<open>s.bits[index]\<close> raises outside the vector and \<open>alloc\<close> answers not-ready (\<open>None\<close>)
  when nothing is free.\<close>

definition freelist_fl_free :: "nat \<Rightarrow> 'n::len word \<Rightarrow> 'n word option" where
  "freelist_fl_free index bits = (if index < LENGTH('n) then Some (set_bit index bits) else None)"

definition freelist_fl_alloc_rdy :: "'n::len word \<Rightarrow> bool" where
  "freelist_fl_alloc_rdy bits \<longleftrightarrow> bits \<noteq> 0"

fun freelist_fl_alloc_loop :: "nat list \<Rightarrow> 'n::len word \<Rightarrow> ((nat \<times> int) \<times> 'n word) option" where
  "freelist_fl_alloc_loop [] bits = None"
| "freelist_fl_alloc_loop (i # rest) bits =
     (if bit bits i then Some ((i, push_bit i 1), unset_bit i bits)
      else freelist_fl_alloc_loop rest bits)"

definition freelist_fl_alloc :: "'n::len word \<Rightarrow> ((nat \<times> int) \<times> 'n word) option" where
  "freelist_fl_alloc bits =
     (if freelist_fl_alloc_rdy bits then freelist_fl_alloc_loop [0..<LENGTH('n)] bits else None)"

definition freelist_fl_release :: "'n::len word \<Rightarrow> 'n word \<Rightarrow> 'n word" where
  "freelist_fl_release msk bits = bits OR msk"

definition freelist_fl_set :: "'n::len word \<Rightarrow> 'n word \<Rightarrow> 'n word" where
  "freelist_fl_set state bits = state"

text \<open>A cycle of the functional model: the methods in the order of the interface. What a port
  answers is its ready flag and, when it is called and ready, the result.\<close>

fun freelist_fl_frees :: "(bool \<times> 'i::len word) list \<Rightarrow> 'n::len word \<Rightarrow> 'n word option" where
  "freelist_fl_frees [] bits = Some bits"
| "freelist_fl_frees ((call, index) # rest) bits =
     do { bits \<leftarrow> (if call then freelist_fl_free (unat index) bits else Some bits);
          freelist_fl_frees rest bits }"

type_synonym alloc_answer = "bool \<times> (nat \<times> int) option"

fun freelist_fl_allocs :: "bool list \<Rightarrow> 'n::len word \<Rightarrow> alloc_answer list \<times> 'n word" where
  "freelist_fl_allocs [] bits = ([], bits)"
| "freelist_fl_allocs (call # calls) bits =
     (let rdy = freelist_fl_alloc_rdy bits;
          (answer, bits1) = (case (if call then freelist_fl_alloc bits else None) of
                               Some (r, b) \<Rightarrow> (Some r, b) | None \<Rightarrow> (None, bits));
          (answers, bits2) = freelist_fl_allocs calls bits1
      in ((rdy, answer) # answers, bits2))"

definition freelist_fl_step ::
  "bool \<Rightarrow> bool \<Rightarrow> 'n::len word \<Rightarrow> ('n word, 'i::len word) freelist_in
     \<Rightarrow> ('n word \<times> 'n word \<times> alloc_answer list) option" where
  "freelist_fl_step free_alloc_bypass release_alloc_bypass bits i =
     (let release = (\<lambda>b. if fr_release_call i then freelist_fl_release (fr_release_mask i) b else b)
      in do {
        b1 \<leftarrow> (if free_alloc_bypass then freelist_fl_frees (fr_free i) bits else Some bits);
        let b2 = (if release_alloc_bypass then release b1 else b1);
        let (answers, b3) = freelist_fl_allocs (fr_alloc_call i) b2;
        let b4 = (if release_alloc_bypass then b3 else release b3);
        b5 \<leftarrow> (if free_alloc_bypass then Some b4 else freelist_fl_frees (fr_free i) b4);
        Some (if fr_set_call i then freelist_fl_set (fr_set_state i) b5 else b5, bits, answers) })"

text \<open>What a caller sees of the RTL ports: index and mask count only on a port that is called and
  ready.\<close>

definition alloc_answer_of :: "bool \<Rightarrow> bool \<times> 'i::len word \<times> 'n::len word \<Rightarrow> alloc_answer" where
  "alloc_answer_of call out =
     (case out of (rdy, index, msk) \<Rightarrow>
        (rdy, if call \<and> rdy then Some (unat index, uint msk) else None))"

definition freelist_observe ::
  "('n::len word, 'i::len word) freelist_in \<Rightarrow> ('n word, 'i word) freelist_out \<Rightarrow> 'n word \<times> alloc_answer list"
where
  "freelist_observe i out = (fr_state out, map2 alloc_answer_of (fr_alloc_call i) (fr_alloc out))"

section \<open>Refinement\<close>

text \<open>The index port is wide enough for the slots, as \<open>clog2nz\<close> makes it.\<close>

definition freelist_width_ok :: "('n::len word, 'i::len word) freelist_in \<Rightarrow> bool" where
  "freelist_width_ok i \<longleftrightarrow> LENGTH('n) \<le> 2 ^ LENGTH('i)"

lemma bit_free_masks:
  assumes "LENGTH('n) \<le> 2 ^ LENGTH('i)"
  shows "bit (free_masks (fs :: (bool \<times> 'i::len word) list) (w :: 'n::len word)) k \<longleftrightarrow>
           bit w k \<or> (k < LENGTH('n) \<and> (\<exists>idx. (True, idx) \<in> set fs \<and> k = unat idx))"
proof (induction fs w rule: free_masks.induct)
  case (2 call index rest masks)
  show ?case unfolding free_masks.simps 2
    by (auto simp: bit_simps bit_one_hot_encoder [OF assms])
qed (auto dest: bit_imp_le_length)

lemma freelist_fl_frees_masks:
  assumes "LENGTH('n) \<le> 2 ^ LENGTH('i)"
    and "freelist_fl_frees (fs :: (bool \<times> 'i::len word) list) (w :: 'n::len word) = Some w'"
  shows "w' = w OR free_masks fs 0"
  using assms(2)
proof (induction fs arbitrary: w)
  case (Cons f fs)
  obtain call index where f: "f = (call, index)" by force
  have masks: "free_masks (f # fs) (0 :: 'n word) =
      (if call then one_hot_encoder False False index else 0) OR free_masks fs 0"
    by (rule bit_word_eqI) (auto simp: f bit_simps bit_free_masks [OF assms(1)])
  show ?case
  proof (cases call)
    case True
    then have idx: "unat index < LENGTH('n)" and "freelist_fl_frees fs (set_bit (unat index) w) = Some w'"
      using Cons.prems by (auto simp: f freelist_fl_free_def split: bind_splits if_splits)
    then have "w' = set_bit (unat index) w OR free_masks fs 0" using Cons.IH by blast
    also have "\<dots> = w OR free_masks (f # fs) 0"
      unfolding masks using idx True
      by (intro bit_word_eqI) (auto simp: bit_simps bit_one_hot_encoder [OF assms(1)])
    finally show ?thesis .
  next
    case False
    then show ?thesis using Cons by (simp add: f)
  qed
qed simp

lemma freelist_fl_alloc_loop_find:
  "freelist_fl_alloc_loop xs bits =
     (case find (bit bits) xs of None \<Rightarrow> None | Some i \<Rightarrow> Some ((i, push_bit i 1), unset_bit i bits))"
  by (induction xs) auto

lemma freelist_fl_alloc_first:
  "freelist_fl_alloc bits =
     (case first_set bits of None \<Rightarrow> None | Some i \<Rightarrow> Some ((i, push_bit i 1), unset_bit i bits))"
  by (auto simp: freelist_fl_alloc_def freelist_fl_alloc_rdy_def freelist_fl_alloc_loop_find
      first_set_def [symmetric] split: option.splits)

lemma alloc_chain_fl:
  assumes w: "LENGTH('n) \<le> 2 ^ LENGTH('i)"
    and "alloc_chain calls (inc :: 'n::len word) = (outs :: (bool \<times> 'i::len word \<times> 'n word) list, inc')"
  shows "freelist_fl_allocs calls inc = (map2 alloc_answer_of calls outs, inc')"
  using assms(2)
proof (induction calls arbitrary: inc outs inc')
  case (Cons call calls)
  show ?case
  proof (cases "first_set inc")
    case None
    have "0 AND NOT (one_hot_encoder False False (0 :: 'i word) :: 'n word) = 0" by simp
    then show ?thesis
      using Cons None
      by (auto simp: priority_decoder_first_set Let_def freelist_fl_alloc_rdy_def
          freelist_fl_alloc_first alloc_answer_of_def split: prod.splits if_splits)
  next
    case (Some k)
    have k: "k < LENGTH('n)" "bit inc k" using first_set_less [OF Some] Some
      by (auto simp: first_set_Some_iff)
    then have uk: "unat (of_nat k :: 'i word) = k" using w by (intro unat_of_nat_small) simp
    have oh: "(one_hot_encoder False False (of_nat k :: 'i word) :: 'n word) = push_bit k 1"
      using uk k by (intro bit_word_eqI) (auto simp: bit_one_hot_encoder [OF w])
    have un: "inc AND NOT (push_bit k 1) = unset_bit k inc"
      by (intro bit_word_eqI) (auto simp: bit_simps)
    have ui: "uint (push_bit k 1 :: 'n word) = push_bit k 1"
      using k by (intro bit_eqI) (auto simp: bit_uint_iff bit_simps)
    have "inc \<noteq> 0" using Some by auto
    then show ?thesis
      using Cons Some
      by (auto simp: priority_decoder_first_set Let_def freelist_fl_alloc_rdy_def uk oh un ui
          freelist_fl_alloc_first alloc_answer_of_def simp del: push_bit_of_1
          split: prod.splits if_splits)
  qed
qed simp

lemma freelist_step_fl:
  fixes i :: "('n::len word, 'i::len word) freelist_in"
  assumes w: "freelist_width_ok i" and fl: "freelist_fl_step fab rab bits i = Some (bits', obs)"
  shows "fst (freelist_step fab rab bits i) = bits' \<and>
         freelist_observe i (snd (freelist_step fab rab bits i)) = obs"
proof -
  have w': "LENGTH('n) \<le> 2 ^ LENGTH('i)" using w by (simp add: freelist_width_ok_def)
  note frees = freelist_fl_frees_masks [OF w']
  obtain outs inc' where chain: "alloc_chain (fr_alloc_call i)
      (freelist_alloc_base fab rab bits i) = (outs :: (bool \<times> 'i word \<times> 'n word) list, inc')" by force
  note allocs = alloc_chain_fl [OF w' chain]
  show ?thesis
    using fl allocs chain
    by (cases fab; cases rab)
       (auto simp: freelist_fl_step_def freelist_step_def freelist_alloc_base_def Let_def
          freelist_observe_def freelist_fl_release_def freelist_fl_set_def
          split: bind_splits if_splits dest!: frees simp: or.assoc or.left_commute or.commute)
qed

definition freelist_machine ::
  "bool \<Rightarrow> bool \<Rightarrow> ('n::len word, ('n word, 'i::len word) freelist_in, 'n word \<times> alloc_answer list) machine"
where
  "freelist_machine fab rab bits i = apsnd (freelist_observe i) (freelist_step fab rab bits i)"

lemma freelist_machine_fl:
  assumes "freelist_width_ok i" and "freelist_fl_step fab rab bits i = Some (bits', obs)"
  shows "freelist_machine fab rab bits i = (bits', obs)"
  using freelist_step_fl [OF assms]
  by (cases "freelist_step fab rab bits i") (simp add: freelist_machine_def)

interpretation freelist: partial_refinement
  "freelist_machine fab rab" "freelist_fl_step fab rab" "\<lambda>bits bits'. bits = bits'" freelist_width_ok
  for fab rab
  by unfold_locales (auto simp: freelist_machine_def dest: freelist_step_fl)

section \<open>Ownership\<close>

text \<open>The slots handed out in a cycle, and the calls that may return slot \<open>k\<close> to the pool.\<close>

definition allocated :: "alloc_answer list \<Rightarrow> nat list" where
  "allocated answers = map fst (List.map_filter snd answers)"

definition gives_back :: "nat \<Rightarrow> ('n::len word, 'i::len word) freelist_in \<Rightarrow> bool" where
  "gives_back k i \<longleftrightarrow>
     fr_set_call i \<or> fr_release_call i \<and> bit (fr_release_mask i) k \<or>
     (\<exists>index. (True, index) \<in> set (fr_free i) \<and> unat index = k)"

lemma freelist_fl_allocs_owned:
  "freelist_fl_allocs calls bits = (answers, bits') \<Longrightarrow>
   distinct (allocated answers) \<and> (\<forall>k \<in> set (allocated answers). bit bits k) \<and>
   (\<forall>k. bit bits' k \<longleftrightarrow> bit bits k \<and> k \<notin> set (allocated answers))"
proof (induction calls arbitrary: bits answers bits')
  case Nil
  then show ?case by (simp add: allocated_def map_filter_simps)
next
  case (Cons call calls)
  show ?case
  proof (cases "if call then first_set bits else None")
    case None
    then have none: "(if call then freelist_fl_alloc bits else None) = None"
      by (auto simp: freelist_fl_alloc_first split: if_splits)
    obtain as where "answers = (freelist_fl_alloc_rdy bits, None) # as"
      and "freelist_fl_allocs calls bits = (as, bits')"
      using Cons.prems none by (auto simp: Let_def split: prod.splits)
    then show ?thesis
      using Cons.IH [of bits as bits'] by (simp add: allocated_def map_filter_simps)
  next
    case (Some k)
    then have k: "call" "first_set bits = Some k" by (auto split: if_splits)
    then have bk: "bit bits k" "k < LENGTH('a)" by (auto simp: first_set_Some_iff bit_imp_le_length)
    obtain as where as: "answers = (freelist_fl_alloc_rdy bits, Some (k, push_bit k 1)) # as"
      and rest: "freelist_fl_allocs calls (unset_bit k bits) = (as, bits')"
      using Cons.prems k by (auto simp: Let_def freelist_fl_alloc_first split: prod.splits)
    then show ?thesis
      using Cons.IH [OF rest] bk
      by (auto simp: as allocated_def map_filter_simps bit_unset_bit_iff)
  qed
qed

lemma freelist_machine_owned:
  fixes i :: "('n::len word, 'i::len word) freelist_in"
  assumes w: "LENGTH('n) \<le> 2 ^ LENGTH('i)"
    and step: "freelist_machine fab rab bits i = (bits', state, answers)"
  shows "distinct (allocated answers)"
    and "\<not> gives_back k i \<Longrightarrow> k \<in> set (allocated answers) \<Longrightarrow> bit bits k"
    and "\<not> gives_back k i \<Longrightarrow> bit bits' k \<longleftrightarrow> bit bits k \<and> k \<notin> set (allocated answers)"
proof -
  let ?base = "freelist_alloc_base fab rab bits i"
  obtain outs inc' where chain:
    "alloc_chain (fr_alloc_call i) ?base = (outs :: (bool \<times> 'i word \<times> 'n word) list, inc')" by force
  then have answers: "answers = map2 alloc_answer_of (fr_alloc_call i) outs"
    and bits': "bits' = (if fr_set_call i then fr_set_state i
        else (if rab then inc' else if fr_release_call i then inc' OR fr_release_mask i else inc') OR
             (if fab then 0 else free_masks (fr_free i) 0))"
    using step by (auto simp: freelist_machine_def freelist_step_def freelist_observe_def Let_def)
  note owned = freelist_fl_allocs_owned [OF alloc_chain_fl [OF w chain], folded answers]
  show "distinct (allocated answers)" using owned by blast
  assume quiet: "\<not> gives_back k i"
  have base: "bit ?base k \<longleftrightarrow> bit bits k"
    using quiet by (auto simp: freelist_alloc_base_def gives_back_def bit_or_iff bit_free_masks [OF w] Let_def)
  show "k \<in> set (allocated answers) \<Longrightarrow> bit bits k" using owned base by blast
  have "bit bits' k \<longleftrightarrow> bit inc' k"
    using quiet by (auto simp: bits' gives_back_def bit_or_iff bit_free_masks [OF w])
  then show "bit bits' k \<longleftrightarrow> bit bits k \<and> k \<notin> set (allocated answers)" using owned base by blast
qed

lemma freelist_stays_used:
  fixes "is" :: "('n::len word, 'i::len word) freelist_in list"
  assumes w: "LENGTH('n) \<le> 2 ^ LENGTH('i)" and "\<not> bit bits k" and "\<forall>i \<in> set is. \<not> gives_back k i"
  shows "\<not> bit (final (freelist_machine fab rab) bits is) k"
  using assms(2,3)
proof (induction "is" arbitrary: bits)
  case (Cons i "is")
  obtain bits' st as where step: "freelist_machine fab rab bits i = (bits', st, as)"
    by (cases "freelist_machine fab rab bits i") auto
  then show ?case
    using Cons freelist_machine_owned(3) [OF w step, of k] by simp
qed simp

section \<open>Properties\<close>

text \<open>C9: in each of the four bypass configurations, for any number of ports, one cycle after another, the
  free vector, the ready flags and the slots and masks handed out by the RTL chain of decoders
  and masks are those of the method calls of the functional model in interface order, on every
  input sequence on which that model does not raise.\<close>

theorem freelist_refines_fl:
  assumes "LENGTH('n) \<le> 2 ^ LENGTH('i)" and "run_fl (freelist_fl_step fab rab) bits is = Some outs"
  shows "run (freelist_machine fab rab) bits (is :: ('n::len word, 'i::len word) freelist_in list) = outs"
  by (rule freelist.partial_run_refines [OF refl _ assms(2)])
     (simp add: list_all_iff freelist_width_ok_def assms(1))

theorem freelist_refines_fl_witness:
  "run (freelist_machine True False) (6 :: 4 word)
     [\<lparr> fr_free = [(True, 0 :: 2 word)], fr_release_call = True, fr_release_mask = 8,
        fr_alloc_call = [True, True], fr_set_call = False, fr_set_state = 0 \<rparr>] =
   [(6, [(True, Some (0, 1)), (True, Some (1, 2))])]"
proof (rule freelist_refines_fl)
  show "run_fl (freelist_fl_step True False) (6 :: 4 word)
     [\<lparr> fr_free = [(True, 0 :: 2 word)], fr_release_call = True, fr_release_mask = 8,
        fr_alloc_call = [True, True], fr_set_call = False, fr_set_state = 0 \<rparr>] =
     Some [(6, [(True, Some (0, 1)), (True, Some (1, 2))])]"
    by (simp add: freelist_fl_step_def freelist_fl_free_def freelist_fl_alloc_def
        freelist_fl_alloc_rdy_def freelist_fl_release_def upt_rec Let_def bit_numeral_rec
        set_bit_eq_or)
qed simp

text \<open>C12: the RTL free list never hands the same slot out twice: slots given in one cycle differ, and
  a slot that was given is not given again while no free, release or set has returned it.\<close>

theorem freelist_no_double_alloc:
  fixes "is" :: "('n::len word, 'i::len word) freelist_in list"
  assumes "LENGTH('n) \<le> 2 ^ LENGTH('i)" and "m < m'" and "m' < length is"
    and "k \<in> set (allocated (snd (run (freelist_machine fab rab) bits is ! m)))"
    and "\<forall>j \<in> {m..m'}. \<not> gives_back k (is ! j)"
  shows "distinct (allocated (snd (run (freelist_machine fab rab) bits is ! m))) \<and>
         k \<notin> set (allocated (snd (run (freelist_machine fab rab) bits is ! m')))"
proof -
  let ?M = "freelist_machine fab rab" and ?s = "\<lambda>n. final (freelist_machine fab rab) bits (take n is)"
  obtain b1 st1 as1 where m: "?M (?s m) (is ! m) = (b1, st1, as1)"
    by (cases "?M (?s m) (is ! m)") auto
  obtain b2 st2 as2 where m': "?M (?s m') (is ! m') = (b2, st2, as2)"
    by (cases "?M (?s m') (is ! m')") auto
  have k: "k \<in> set (allocated as1)" using assms(2-4) m by (simp add: run_nth)
  have "\<not> bit (?s (Suc m)) k"
    using freelist_machine_owned(3) [OF assms(1) m, of k] k assms(2,3,5) m by (simp add: final_take_Suc)
  moreover have "take m' is = take (Suc m) is @ drop (Suc m) (take m' is)"
    using append_take_drop_id [of "Suc m" "take m' is"] assms(2) by (simp add: min_def)
  then have "?s m' = final ?M (?s (Suc m)) (drop (Suc m) (take m' is))"
    by (metis final_append)
  moreover have "\<forall>i \<in> set (drop (Suc m) (take m' is)). \<not> gives_back k i"
    using assms(3,5) by (auto simp: in_set_conv_nth)
  ultimately have "\<not> bit (?s m') k" using freelist_stays_used [OF assms(1), of "?s (Suc m)" k "drop (Suc m) (take m' is)"] by simp
  then have "k \<notin> set (allocated as2)"
    using freelist_machine_owned(2) [OF assms(1) m', of k] assms(2,5) by auto
  then show ?thesis
    using freelist_machine_owned(1) [OF assms(1) m] assms(2,3) m m' by (simp add: run_nth)
qed

theorem freelist_no_double_alloc_witness:
  "let i = \<lparr> fr_free = [], fr_release_call = False, fr_release_mask = 0, fr_alloc_call = [True],
             fr_set_call = False, fr_set_state = 0 \<rparr> :: (4 word, 2 word) freelist_in
   in 0 \<notin> set (allocated (snd (run (freelist_machine False False) (15 :: 4 word) [i, i] ! 1)))"
  unfolding Let_def
  by (rule freelist_no_double_alloc [where m = 0 and m' = 1, THEN conjunct2])
     (simp_all add: gives_back_def Let_def nth_Cons' freelist_machine_def freelist_step_def
        freelist_alloc_base_def priority_decoder_first_set first_set_def upt_rec bit_numeral_rec
        freelist_observe_def alloc_answer_of_def allocated_def map_filter_simps)

end
