(* ===== verification/Snapshots.thy ===== *)
theory Snapshots
  imports Freelist
begin

text \<open>
  State that can be saved and rolled back: \<open>snapshotting_registerfile.py\<close> and
  \<open>snapshotting_freelist.py\<close> of \<open>lizard/util/rtl\<close> with their functional models in
  \<open>lizard/util/fl\<close>. Both RTL modules are built from the register file of Registers and the free
  list of Freelist, wired as the code wires them. The multiplexer over the snapshots asserts that
  its select signal names a snapshot, so the source of a restore is in range.
\<close>

section \<open>Snapshotting register file\<close>

record ('i, 'a, 'k) snap_rf_in =
  srf_ports :: "('i, 'a) regfile_in"
  srf_snapshot_call :: bool
  srf_target_id :: 'k
  srf_restore_call :: bool
  srf_source_id :: 'k

type_synonym 'a snap_rf = "'a list \<times> 'a list list"

definition regfile_dump :: "bool \<Rightarrow> 'a list \<Rightarrow> ('i::len word, 'a) regfile_in \<Rightarrow> 'a list" where
  "regfile_dump write_dump_bypass regs i =
     (if write_dump_bypass then regfile_after_write regs i else regs)"

text \<open>A snapshot is a register file without read and write ports; only its \<open>set\<close> is used.\<close>

definition snapshot_ports :: "bool \<Rightarrow> 'a list \<Rightarrow> (1 word, 'a) regfile_in" where
  "snapshot_ports set_call set_in =
     \<lparr> rf_read_addr = [], rf_write_call = [], rf_write_addr = [], rf_write_data = [],
       rf_set_call = set_call, rf_set_in = set_in \<rparr>"

definition snap_rf_step ::
  "bool \<Rightarrow> bool \<Rightarrow> ('a snap_rf, ('i::len word, 'a, 'k::len word) snap_rf_in, 'a option list) machine"
where
  "snap_rf_step write_read_bypass write_snapshot_bypass st i =
     (let (regs, snapshots) = st;
          ports = srf_ports i;
          dump = regfile_dump write_snapshot_bypass regs ports;
          snapshots' =
            map (\<lambda>k. fst (regfile_step False False (snapshots ! k)
                       (snapshot_ports (srf_snapshot_call i \<and> unat (srf_target_id i) = k) dump)))
              [0..<length snapshots];
          mux_out =
            rf_dump_out (snd (regfile_step False False (snapshots ! unat (srf_source_id i))
                                (snapshot_ports False [])));
          collide = (srf_snapshot_call i \<and> srf_restore_call i \<and> srf_target_id i = srf_source_id i);
          should_restore =
            (if \<not> write_snapshot_bypass then srf_restore_call i
             else if collide then False else srf_restore_call i);
          restore_vector =
            (if \<not> write_snapshot_bypass then (if collide then dump else mux_out) else mux_out);
          should_set = (should_restore \<or> rf_set_call ports);
          set_in = (if rf_set_call ports then rf_set_in ports else restore_vector);
          (regs', out) = regfile_step write_read_bypass write_snapshot_bypass regs
                           (ports \<lparr> rf_set_call := should_set, rf_set_in := set_in \<rparr>)
      in ((regs', snapshots'), rf_read_data out))"

definition snap_rf_fl_snapshot :: "nat \<Rightarrow> 'a list \<Rightarrow> 'a list list \<Rightarrow> 'a list list option" where
  "snap_rf_fl_snapshot target_id regs snapshots =
     (if target_id < length snapshots
      then Some (snapshots[target_id := regfile_fl_set (snapshots ! target_id) (regfile_fl_dump regs)])
      else None)"

definition snap_rf_fl_restore :: "nat \<Rightarrow> 'a list \<Rightarrow> 'a list list \<Rightarrow> 'a list option" where
  "snap_rf_fl_restore source_id regs snapshots =
     (if source_id < length snapshots
      then Some (regfile_fl_set regs (regfile_fl_dump (snapshots ! source_id))) else None)"

text \<open>A cycle of the functional model in interface order: a bypass flag puts the writes before the
  reads or the snapshot, then come restore and set.\<close>

definition snap_rf_fl_step ::
  "bool \<Rightarrow> bool \<Rightarrow> 'a snap_rf \<Rightarrow> ('i::len word, 'a, 'k::len word) snap_rf_in
     \<Rightarrow> ('a snap_rf \<times> 'a option list) option" where
  "snap_rf_fl_step write_read_bypass write_snapshot_bypass st i =
     (let (regs, snapshots) = st; ports = srf_ports i
      in do {
        written \<leftarrow> regfile_fl_writes regs (rf_writes ports);
        let reads = map (\<lambda>a. regfile_fl_read (if write_read_bypass then written else regs) (unat a))
                      (rf_read_addr ports);
        snapshots' \<leftarrow>
          (if srf_snapshot_call i
           then snap_rf_fl_snapshot (unat (srf_target_id i))
                  (if write_snapshot_bypass then written else regs) snapshots
           else Some snapshots);
        restored \<leftarrow>
          (if srf_restore_call i
           then snap_rf_fl_restore (unat (srf_source_id i)) written snapshots' else Some written);
        Some ((if rf_set_call ports then regfile_fl_set restored (rf_set_in ports) else restored,
               snapshots'), reads) })"

definition snap_rf_ok :: "bool \<Rightarrow> nat \<Rightarrow> nat \<Rightarrow> ('i::len word, 'a, 'k::len word) snap_rf_in \<Rightarrow> bool" where
  "snap_rf_ok write_read_bypass nregs nsnapshots i \<longleftrightarrow>
     regfile_ports_ok nregs (srf_ports i) \<and> unat (srf_source_id i) < nsnapshots \<and>
     \<not> (write_read_bypass \<and> (rf_set_call (srf_ports i) \<or> srf_restore_call i))"

definition snap_rf_shape :: "nat \<Rightarrow> nat \<Rightarrow> 'a snap_rf \<Rightarrow> bool" where
  "snap_rf_shape nregs nsnapshots st \<longleftrightarrow>
     length (fst st) = nregs \<and> length (snd st) = nsnapshots \<and> (\<forall>sn \<in> set (snd st). length sn = nregs)"

lemma regfile_write_inc_set [simp]:
  "regfile_write_inc regs (i\<lparr>rf_set_call := c, rf_set_in := d\<rparr>) reg_i port =
   regfile_write_inc regs i reg_i port"
  by (induction regs i reg_i port rule: regfile_write_inc.induct) auto

lemma regfile_after_write_set [simp]:
  "regfile_after_write regs (i\<lparr>rf_set_call := c, rf_set_in := d\<rparr>) = regfile_after_write regs i"
  by (simp add: regfile_after_write_def)

lemma regfile_after_set_set:
  "length d = length regs \<Longrightarrow> length w = length regs \<Longrightarrow> regfile_after_write regs i = w \<Longrightarrow>
   regfile_after_set regs (i\<lparr>rf_set_call := c, rf_set_in := d\<rparr>) = (if c then d else w)"
  by (auto simp: regfile_after_set_def intro: nth_equalityI)

lemma regfile_after_unset:
  "length w = length regs \<Longrightarrow> regfile_after_write regs i = w \<Longrightarrow>
   regfile_after_set regs (i\<lparr>rf_set_call := False, rf_set_in := d\<rparr>) = w"
  by (auto simp: regfile_after_set_def intro: nth_equalityI)

lemma snapshot_step:
  assumes "length d = length sn"
  shows "regfile_step False False sn (snapshot_ports c d) =
         (if c then d else sn, \<lparr> rf_read_data = [], rf_dump_out = sn \<rparr>)"
  using assms
  by (auto simp: regfile_step_def regfile_after_set_def regfile_after_write_def snapshot_ports_def
      intro: nth_equalityI)

lemma snapshot_dump: "rf_dump_out (snd (regfile_step False False sn (snapshot_ports False []))) = sn"
  by (simp add: regfile_step_def Let_def)

interpretation snap_rf: partial_refinement
  "snap_rf_step wrb wsb" "snap_rf_fl_step wrb wsb"
  "\<lambda>s t. s = t \<and> snap_rf_shape nregs nsnapshots s" "snap_rf_ok wrb nregs nsnapshots"
  for wrb wsb nregs nsnapshots
proof unfold_locales
  fix s t :: "'a snap_rf" and i :: "('i::len word, 'a, 'k::len word) snap_rf_in" and t' out
  assume R: "s = t \<and> snap_rf_shape nregs nsnapshots s" and ok: "snap_rf_ok wrb nregs nsnapshots i"
    and fl: "snap_rf_fl_step wrb wsb t i = Some (t', out)"
  obtain regs snaps where s: "s = (regs, snaps)" by force
  let ?p = "srf_ports i"
  define tgt src where "tgt = unat (srf_target_id i)" and "src = unat (srf_source_id i)"
  from fl R s obtain w where w: "regfile_fl_writes regs (rf_writes ?p) = Some w"
    by (auto simp: snap_rf_fl_step_def Let_def split: bind_splits)
  let ?dump = "if wsb then w else regs"
  let ?snaps = "if srf_snapshot_call i then snaps[tgt := ?dump] else snaps"
  have p: "regfile_ports_ok nregs ?p" and src: "src < nsnapshots"
    and quiet: "\<not> (wrb \<and> (rf_set_call ?p \<or> srf_restore_call i))"
    using ok by (auto simp: snap_rf_ok_def src_def)
  have shape: "length regs = nregs" "length snaps = nsnapshots" "\<And>sn. sn \<in> set snaps \<Longrightarrow> length sn = nregs"
    using R s by (auto simp: snap_rf_shape_def)
  have aw: "regfile_after_write regs ?p = w" by (rule regfile_after_write_fl [OF p w])
  have lw: "length w = nregs" using regfile_fl_writes_length [OF w] shape by simp
  have fl_out: "out = map (\<lambda>a. list_read (if wrb then w else regs) (unat a)) (rf_read_addr ?p)"
    and fl_state: "t' = (if rf_set_call ?p then rf_set_in ?p
                         else if srf_restore_call i then ?snaps ! src else w, ?snaps)"
    and tgt: "srf_snapshot_call i \<Longrightarrow> tgt < nsnapshots"
    using fl R s w shape
    by (auto simp: snap_rf_fl_step_def snap_rf_fl_snapshot_def snap_rf_fl_restore_def Let_def tgt_def
        src_def regfile_fl_set_def regfile_fl_dump_def regfile_fl_read_def split: bind_splits if_splits)
  have snaps': "map (\<lambda>k. fst (regfile_step False False (snaps ! k)
      (snapshot_ports (srf_snapshot_call i \<and> tgt = k) ?dump))) [0..<length snaps] = ?snaps"
    using shape lw by (intro nth_equalityI) (auto simp: snapshot_step nth_list_update)
  have collide: "srf_target_id i = srf_source_id i \<longleftrightarrow> tgt = src"
    by (simp add: tgt_def src_def word_unat_eq_iff)
  have lset: "length (rf_set_in ?p) = nregs" using p by (simp add: regfile_ports_ok_def)
  have lsnap: "length (snaps ! src) = nregs" using shape src by simp
  have dump: "regfile_dump wsb regs ?p = ?dump" by (simp add: regfile_dump_def aw)
  define vec where "vec = (if \<not> wsb then (if srf_snapshot_call i \<and> srf_restore_call i \<and> tgt = src
      then ?dump else snaps ! src) else snaps ! src)"
  define restore where "restore = (if \<not> wsb then srf_restore_call i
      else if srf_snapshot_call i \<and> srf_restore_call i \<and> tgt = src then False else srf_restore_call i)"
  define q where "q = ?p\<lparr>rf_set_call := restore \<or> rf_set_call ?p,
      rf_set_in := if rf_set_call ?p then rf_set_in ?p else vec\<rparr>"
  have rtl: "snap_rf_step wrb wsb s i =
      (let (regs', out) = regfile_step wrb wsb regs q in ((regs', ?snaps), rf_read_data out))"
    unfolding snap_rf_step_def s Let_def prod.case dump snapshot_dump collide
      snaps' [unfolded tgt_def] q_def vec_def restore_def src_def tgt_def ..
  have rq: "rf_read_addr q = rf_read_addr ?p" by (simp add: q_def)
  have lvec: "length vec = nregs" using lsnap shape lw by (simp add: vec_def)
  have as: "regfile_after_set regs q =
      (if restore \<or> rf_set_call ?p then (if rf_set_call ?p then rf_set_in ?p else vec) else w)"
    unfolding q_def using shape lvec lset lw aw by (intro regfile_after_set_set) auto
  have vec: "restore \<Longrightarrow> vec = ?snaps ! src" "\<not> restore \<Longrightarrow> srf_restore_call i \<Longrightarrow> ?snaps ! src = w"
    using shape src by (auto simp: vec_def restore_def nth_list_update split: if_splits)
  have "fst (snap_rf_step wrb wsb s i) = t'"
    using vec by (auto simp: rtl regfile_step_def Let_def as fl_state restore_def split: if_splits)
  moreover have "snd (snap_rf_step wrb wsb s i) = out"
    using quiet rq by (auto simp: rtl regfile_step_def Let_def as fl_out restore_def split: if_splits)
  moreover have "length (?snaps ! src) = nregs"
    using shape lw src lsnap by (cases "tgt = src") simp_all
  then have "snap_rf_shape nregs nsnapshots t'"
    using shape lset lw src by (auto simp: fl_state snap_rf_shape_def dest!: set_update_subset_insert [THEN subsetD])
  ultimately show "snd (snap_rf_step wrb wsb s i) = out \<and> fst (snap_rf_step wrb wsb s i) = t' \<and>
        snap_rf_shape nregs nsnapshots (fst (snap_rf_step wrb wsb s i))"
    by simp
qed

section \<open>Snapshotting free list\<close>

text \<open>The free list is used without bypasses; snapshot \<open>k\<close> is a register file of single bits whose
  write ports follow the alloc ports and whose dump, with the writes bypassed into it, is packed
  into a vector.\<close>

record ('n, 'i, 'k) snap_fl_in =
  sfl_free :: "(bool \<times> 'i) list"
  sfl_alloc_call :: "bool list"
  sfl_set_call :: bool
  sfl_set_state :: 'n
  sfl_reset_call :: bool
  sfl_target_id :: 'k
  sfl_revert_call :: bool
  sfl_source_id :: 'k

type_synonym 'n snap_fl = "'n \<times> bool list list"

definition snap_fl_ports :: "bool list \<Rightarrow> 'i list \<Rightarrow> bool \<Rightarrow> bool list \<Rightarrow> ('i, bool) regfile_in" where
  "snap_fl_ports calls indices set_call set_in =
     \<lparr> rf_read_addr = [], rf_write_call = calls, rf_write_addr = indices,
       rf_write_data = map (\<lambda>_. True) indices, rf_set_call = set_call, rf_set_in = set_in \<rparr>"

definition pack_bits :: "bool list \<Rightarrow> 'n::len word" where
  "pack_bits bs = packer (map (\<lambda>b. of_bool b :: 1 word) bs)"

definition snap_fl_step ::
  "('n::len word snap_fl, ('n word, 'i::len word, 'k::len word) snap_fl_in, 'n word \<times> alloc_answer list) machine"
where
  "snap_fl_step st i =
     (let (free_vector, snapshots) = st;
          outs = fst (alloc_chain (sfl_alloc_call i) free_vector :: (bool \<times> 'i word \<times> 'n word) list \<times> 'n word);
          indices = map (fst \<circ> snd) outs;
          ticked = map (\<lambda>k. regfile_step False True (snapshots ! k)
                      (snap_fl_ports (sfl_alloc_call i) indices
                         (sfl_reset_call i \<and> unat (sfl_target_id i) = k) (replicate LENGTH('n) False)))
                     [0..<length snapshots];
          dump_mux = map (\<lambda>t. pack_bits (rf_dump_out (snd t))) ticked ! unat (sfl_source_id i);
          release_call =
            (if sfl_reset_call i \<and> sfl_revert_call i \<and> sfl_target_id i = sfl_source_id i
             then False else sfl_revert_call i);
          (free_vector', answer) =
            freelist_machine False False free_vector
              \<lparr> fr_free = sfl_free i, fr_release_call = release_call, fr_release_mask = dump_mux,
                fr_alloc_call = sfl_alloc_call i, fr_set_call = sfl_set_call i,
                fr_set_state = sfl_set_state i \<rparr>
      in ((free_vector', map fst ticked), answer))"

text \<open>The functional model: \<open>alloc\<close> marks the slot in every snapshot. Called when nothing is free it
  reads \<open>result.index\<close> of the not-ready answer, which raises.\<close>

type_synonym 'n snap_fl_state = "'n \<times> 'n list"

definition snap_fl_fl_alloc ::
  "'n::len word snap_fl_state \<Rightarrow> ((nat \<times> int) \<times> 'n word snap_fl_state) option" where
  "snap_fl_fl_alloc st =
     (case freelist_fl_alloc (fst st) of
        Some (result, bits) \<Rightarrow> Some (result, bits, map (set_bit (fst result)) (snd st))
      | None \<Rightarrow> None)"

fun snap_fl_fl_allocs ::
  "bool list \<Rightarrow> 'n::len word snap_fl_state \<Rightarrow> (alloc_answer list \<times> 'n word snap_fl_state) option" where
  "snap_fl_fl_allocs [] st = Some ([], st)"
| "snap_fl_fl_allocs (call # calls) st =
     (let rdy = freelist_fl_alloc_rdy (fst st)
      in if call
         then do { (r, st1) \<leftarrow> snap_fl_fl_alloc st;
                   (answers, st2) \<leftarrow> snap_fl_fl_allocs calls st1;
                   Some ((rdy, Some r) # answers, st2) }
         else do { (answers, st2) \<leftarrow> snap_fl_fl_allocs calls st;
                   Some ((rdy, None) # answers, st2) })"

definition snap_fl_fl_reset :: "nat \<Rightarrow> 'n::len word list \<Rightarrow> 'n word list option" where
  "snap_fl_fl_reset target_id snapshots =
     (if target_id < length snapshots then Some (snapshots[target_id := 0]) else None)"

definition snap_fl_fl_revert :: "nat \<Rightarrow> 'n::len word list \<Rightarrow> 'n word \<Rightarrow> 'n word option" where
  "snap_fl_fl_revert source_id snapshots bits =
     (if source_id < length snapshots
      then Some (freelist_fl_release (word_bits (bit (snapshots ! source_id))) bits) else None)"

definition snap_fl_fl_step ::
  "'n::len word snap_fl_state \<Rightarrow> ('n word, 'i::len word, 'k::len word) snap_fl_in
     \<Rightarrow> ('n word snap_fl_state \<times> 'n word \<times> alloc_answer list) option" where
  "snap_fl_fl_step st i = do {
     (answers, bits1, snaps1) \<leftarrow> snap_fl_fl_allocs (sfl_alloc_call i) st;
     bits2 \<leftarrow> freelist_fl_frees (sfl_free i) bits1;
     snaps2 \<leftarrow> (if sfl_reset_call i then snap_fl_fl_reset (unat (sfl_target_id i)) snaps1 else Some snaps1);
     bits3 \<leftarrow> (if sfl_revert_call i then snap_fl_fl_revert (unat (sfl_source_id i)) snaps2 bits2 else Some bits2);
     Some ((if sfl_set_call i then freelist_fl_set (sfl_set_state i) bits3 else bits3, snaps2),
           fst st, answers) }"

text \<open>The bits of each RTL snapshot are the bits of the functional model's snapshot.\<close>

definition snap_fl_rel :: "'n::len word snap_fl \<Rightarrow> 'n word snap_fl_state \<Rightarrow> bool" where
  "snap_fl_rel s t \<longleftrightarrow>
     fst s = fst t \<and> snd s = map (\<lambda>w. map (bit w) [0..<LENGTH('n)]) (snd t)"

definition snap_fl_ok :: "nat \<Rightarrow> ('n::len word, 'i::len word, 'k::len word) snap_fl_in \<Rightarrow> bool" where
  "snap_fl_ok nsnapshots i \<longleftrightarrow>
     LENGTH('n) \<le> 2 ^ LENGTH('i) \<and> unat (sfl_source_id i) < nsnapshots"

lemma pack_bits_bit: "pack_bits (map (bit w) [0..<LENGTH('n)]) = (w :: 'n::len word)"
  by (rule bit_word_eqI) (auto simp: pack_bits_def packer_def bit_packer_from)

text \<open>The allocation calls as one bit mask, both levels.\<close>

definition alloc_mask :: "alloc_answer list \<Rightarrow> 'n::len word" where
  "alloc_mask answers = word_bits (\<lambda>k. k \<in> set (allocated answers))"

lemma alloc_mask_simps [simp]:
  "alloc_mask [] = 0"
  "alloc_mask ((rdy, None) # as) = alloc_mask as"
  "k < LENGTH('n) \<Longrightarrow> alloc_mask ((rdy, Some (k, m)) # as) = (set_bit k (alloc_mask as) :: 'n::len word)"
  by (auto intro!: bit_word_eqI simp: alloc_mask_def allocated_def map_filter_simps bit_simps)

lemma snap_fl_fl_allocs_mask:
  "snap_fl_fl_allocs calls (bits, snaps :: 'n::len word list) = Some (answers, bits', snaps') \<Longrightarrow>
   freelist_fl_allocs calls bits = (answers, bits') \<and> snaps' = map (\<lambda>w. w OR alloc_mask answers) snaps"
proof (induction calls arbitrary: bits snaps answers)
  case (Cons call calls)
  show ?case
  proof (cases call)
    case True
    then obtain k b as where k: "first_set bits = Some k" "b = unset_bit k bits"
      and as: "snap_fl_fl_allocs calls (b, map (set_bit k) snaps) = Some (as, bits', snaps')"
      and answers: "answers = (freelist_fl_alloc_rdy bits, Some (k, push_bit k 1)) # as"
      using Cons.prems by (auto simp: snap_fl_fl_alloc_def freelist_fl_alloc_first Let_def
          split: bind_splits option.splits)
    have "k < LENGTH('n)" using k(1) by (rule first_set_less)
    then have "set_bit k w OR alloc_mask as = w OR alloc_mask answers" for w :: "'n word"
      by (intro bit_word_eqI) (auto simp: answers bit_simps)
    then show ?thesis
      using Cons.IH [OF as] k True by (simp add: answers freelist_fl_alloc_first comp_def)
  next
    case False
    then obtain as where "snap_fl_fl_allocs calls (bits, snaps) = Some (as, bits', snaps')"
      and "answers = (freelist_fl_alloc_rdy bits, None) # as"
      using Cons.prems by (auto simp: Let_def split: bind_splits)
    then show ?thesis using Cons.IH [of bits snaps as] False by simp
  qed
qed simp

lemma freelist_fl_frees_or:
  "freelist_fl_frees fs bits = Some bits' \<Longrightarrow> freelist_fl_frees fs (bits OR m) = Some (bits' OR m)"
proof (induction fs bits rule: freelist_fl_frees.induct)
  case (2 call index rest bits)
  have "set_bit n (bits OR m) = set_bit n bits OR m" for n
    by (intro bit_word_eqI) (auto simp: bit_simps)
  then show ?case using 2 by (auto simp: freelist_fl_free_def split: bind_splits if_splits)
qed simp

text \<open>What the write ports of a snapshot do in one cycle.\<close>

lemma snap_fl_writes:
  assumes w: "LENGTH('n) \<le> 2 ^ LENGTH('i)"
    and "alloc_chain calls (bits :: 'n::len word) = (outs :: (bool \<times> 'i::len word \<times> 'n word) list, inc)"
    and "snap_fl_fl_allocs calls (bits, snaps) = Some (answers, st)" and "length sn = LENGTH('n)"
  shows "regfile_fl_writes sn (rf_writes (snap_fl_ports calls (map (fst \<circ> snd) outs) c d)) =
         Some (map (\<lambda>k. sn ! k \<or> bit (alloc_mask answers :: 'n word) k) [0..<LENGTH('n)])"
  using assms(2-)
proof (induction calls arbitrary: bits outs inc snaps answers sn)
  case Nil
  then show ?case by (auto simp: rf_writes_def snap_fl_ports_def intro: nth_equalityI)
next
  case (Cons call calls)
  let ?pd = "priority_decoder bits :: 'i word \<times> bool"
  let ?inc = "if call then bits AND NOT (one_hot_encoder False False (fst ?pd)) else bits"
  obtain outs1 inc1 where c: "alloc_chain calls ?inc = (outs1 :: (bool \<times> 'i word \<times> 'n word) list, inc1)"
    by force
  then have outs: "outs = (snd ?pd, fst ?pd, one_hot_encoder False False (fst ?pd)) # outs1"
    and chain: "alloc_chain calls ?inc = (outs1, inc)"
    using Cons.prems(1) by (auto simp: Let_def split_beta)
  show ?case
  proof (cases call)
    case False
    then obtain as where as: "snap_fl_fl_allocs calls (bits, snaps) = Some (as, st)"
      and "answers = (freelist_fl_alloc_rdy bits, None) # as"
      using Cons.prems(2) by (auto simp: Let_def split: bind_splits)
    then show ?thesis
      using Cons.IH [OF _ as Cons.prems(3)] chain False
      by (simp add: outs rf_writes_def snap_fl_ports_def)
  next
    case True
    then obtain k as where k: "first_set bits = Some k"
      and as: "snap_fl_fl_allocs calls (unset_bit k bits, map (set_bit k) snaps) = Some (as, st)"
      and answers: "answers = (freelist_fl_alloc_rdy bits, Some (k, push_bit k 1)) # as"
      using Cons.prems(2) by (auto simp: snap_fl_fl_alloc_def freelist_fl_alloc_first Let_def
          split: bind_splits option.splits)
    have kn: "k < LENGTH('n)" using k by (rule first_set_less)
    then have uk: "unat (of_nat k :: 'i word) = k" using w by (intro unat_of_nat_small) simp
    have dec: "fst (priority_decoder bits) = (of_nat k :: 'i word)"
      by (simp add: priority_decoder_first_set k)
    have "?inc = unset_bit k bits"
      using True kn uk by (intro bit_word_eqI) (auto simp: dec bit_simps bit_one_hot_encoder [OF w])
    then have chain': "alloc_chain calls (unset_bit k bits) = (outs1, inc)" using chain by simp
    show ?thesis
      using Cons.IH [OF chain' as, of "sn[k := True]"] Cons.prems(3) True kn
      by (auto simp: outs dec uk rf_writes_def snap_fl_ports_def regfile_fl_write_def answers
          nth_list_update bit_simps)
  qed
qed

lemma snap_fl_tick:
  assumes w: "LENGTH('n) \<le> 2 ^ LENGTH('i)"
    and chain: "alloc_chain calls (bits :: 'n::len word) = (outs :: (bool \<times> 'i::len word \<times> 'n word) list, inc)"
    and fl: "snap_fl_fl_allocs calls (bits, snaps) = Some (answers, st)"
  shows "regfile_step False True (map (bit (sn :: 'n word)) [0..<LENGTH('n)])
           (snap_fl_ports calls (map (fst \<circ> snd) outs) c (replicate LENGTH('n) False)) =
         (map (bit (if c then 0 else sn OR alloc_mask answers)) [0..<LENGTH('n)],
          \<lparr> rf_read_data = [], rf_dump_out = map (bit (sn OR alloc_mask answers)) [0..<LENGTH('n)] \<rparr>)"
proof -
  let ?regs = "map (bit sn) [0..<LENGTH('n)]"
  let ?p = "snap_fl_ports calls (map (fst \<circ> snd) outs) c (replicate LENGTH('n) False)"
  have "length outs = length calls" using chain
    by (induction calls arbitrary: bits outs) (auto simp: Let_def split: prod.splits)
  then have ok: "regfile_ports_ok LENGTH('n) ?p" by (simp add: regfile_ports_ok_def snap_fl_ports_def)
  have "regfile_fl_writes ?regs (rf_writes ?p) =
        Some (map (\<lambda>k. ?regs ! k \<or> bit (alloc_mask answers :: 'n word) k) [0..<LENGTH('n)])"
    by (rule snap_fl_writes [OF w chain fl]) simp
  also have "map (\<lambda>k. ?regs ! k \<or> bit (alloc_mask answers :: 'n word) k) [0..<LENGTH('n)] =
      map (bit (sn OR alloc_mask answers)) [0..<LENGTH('n)]"
    by (auto simp: bit_simps)
  finally have "regfile_after_write ?regs ?p = map (bit (sn OR alloc_mask answers)) [0..<LENGTH('n)]"
    by (rule regfile_after_write_fl [OF ok])
  moreover have "rf_read_addr ?p = []" "rf_set_call ?p = c" "rf_set_in ?p = replicate LENGTH('n) False"
    by (simp_all add: snap_fl_ports_def)
  ultimately show ?thesis
    by (auto simp: regfile_step_def regfile_after_set_def Let_def intro!: nth_equalityI)
qed

text \<open>The functional model of the plain free list does what the snapshotting one does to its bits.\<close>

lemma snap_fl_bits:
  fixes i :: "('n::len word, 'i::len word, 'k::len word) snap_fl_in"
  assumes fl: "snap_fl_fl_step (bits, snaps) i = Some ((bits', snaps'), obs)"
    and mask: "\<And>answers st. snap_fl_fl_allocs (sfl_alloc_call i) (bits, snaps) = Some (answers, st) \<Longrightarrow>
      sfl_revert_call i \<Longrightarrow> (if rc then dm else 0) = snaps' ! unat (sfl_source_id i)"
    and norev: "\<not> sfl_revert_call i \<Longrightarrow> \<not> rc"
  shows "freelist_fl_step False False bits
           \<lparr> fr_free = sfl_free i, fr_release_call = rc, fr_release_mask = dm,
             fr_alloc_call = sfl_alloc_call i, fr_set_call = sfl_set_call i,
             fr_set_state = sfl_set_state i \<rparr> = Some (bits', obs)"
proof -
  from fl obtain answers b1 s1 b2 where
    a: "snap_fl_fl_allocs (sfl_alloc_call i) (bits, snaps) = Some (answers, b1, s1)"
    and f: "freelist_fl_frees (sfl_free i) b1 = Some b2"
    and bits': "bits' = (if sfl_set_call i then sfl_set_state i
        else if sfl_revert_call i then b2 OR snaps' ! unat (sfl_source_id i) else b2)"
    and obs: "obs = (bits, answers)"
    by (auto simp: snap_fl_fl_step_def snap_fl_fl_reset_def snap_fl_fl_revert_def
        freelist_fl_set_def freelist_fl_release_def split: bind_splits if_splits)
  have "b2 OR (if rc then dm else 0) =
        (if sfl_revert_call i then b2 OR snaps' ! unat (sfl_source_id i) else b2)"
    using mask [OF a] norev by auto
  moreover have "freelist_fl_frees (sfl_free i) (b1 OR (if rc then dm else 0)) =
      Some (b2 OR (if rc then dm else 0))"
    by (rule freelist_fl_frees_or [OF f])
  ultimately show ?thesis
    using snap_fl_fl_allocs_mask [OF a]
    by (cases rc) (auto simp: freelist_fl_step_def freelist_fl_release_def freelist_fl_set_def bits' obs)
qed

interpretation snap_fl: partial_refinement
  snap_fl_step snap_fl_fl_step
  "\<lambda>s t. snap_fl_rel s t \<and> length (snd t) = nsnapshots" "snap_fl_ok nsnapshots" for nsnapshots
proof unfold_locales
  fix s and t :: "'n::len word snap_fl_state"
    and i :: "('n word, 'i::len word, 'k::len word) snap_fl_in" and t' out
  assume R: "snap_fl_rel s t \<and> length (snd t) = nsnapshots" and ok: "snap_fl_ok nsnapshots i"
    and fl: "snap_fl_fl_step t i = Some (t', out)"
  obtain bits snaps bits' snaps' where t: "t = (bits, snaps)" "t' = (bits', snaps')" by fastforce
  let ?bools = "\<lambda>w :: 'n word. map (bit w) [0..<LENGTH('n)]"
  define tgt src where "tgt = unat (sfl_target_id i)" and "src = unat (sfl_source_id i)"
  from R t have s: "s = (bits, map ?bools snaps)" and len: "length snaps = nsnapshots"
    by (cases s; simp add: snap_fl_rel_def)+
  from ok have w: "LENGTH('n) \<le> 2 ^ LENGTH('i)" and src: "src < nsnapshots"
    by (auto simp: snap_fl_ok_def src_def)
  obtain answers b1 s1 where a: "snap_fl_fl_allocs (sfl_alloc_call i) (bits, snaps) = Some (answers, b1, s1)"
    using fl by (auto simp: t snap_fl_fl_step_def split: bind_splits)
  define marked where "marked = map (\<lambda>w. w OR alloc_mask answers) snaps"
  have snaps': "snaps' = (if sfl_reset_call i then marked[tgt := 0] else marked)"
    and tgt: "sfl_reset_call i \<Longrightarrow> tgt < nsnapshots"
    using fl a snap_fl_fl_allocs_mask [OF a] len
    by (auto simp: t snap_fl_fl_step_def snap_fl_fl_reset_def marked_def tgt_def
        split: bind_splits if_splits)
  obtain outs :: "(bool \<times> 'i word \<times> 'n word) list" and inc where
    chain: "alloc_chain (sfl_alloc_call i) bits = (outs, inc)" by force
  note tick = snap_fl_tick [OF w chain a]
  let ?ticked = "map (\<lambda>k. regfile_step False True (map ?bools snaps ! k)
      (snap_fl_ports (sfl_alloc_call i) (map (fst \<circ> snd) outs)
        (sfl_reset_call i \<and> tgt = k) (replicate LENGTH('n) False))) [0..<length snaps]"
  have ticked: "map fst ?ticked = map ?bools snaps'"
    using len by (intro nth_equalityI) (auto simp: tick snaps' marked_def nth_list_update)
  have dumped: "map (\<lambda>t. pack_bits (rf_dump_out (snd t))) ?ticked ! src = marked ! src"
    using src len by (simp add: tick marked_def pack_bits_bit)
  define rc where "rc = (if sfl_reset_call i \<and> sfl_revert_call i \<and> tgt = src then False
                         else sfl_revert_call i)"
  have same: "sfl_target_id i = sfl_source_id i \<longleftrightarrow> tgt = src"
    by (simp add: tgt_def src_def word_unat_eq_iff)
  have mask: "sfl_revert_call i \<Longrightarrow> (if rc then marked ! src else 0) = snaps' ! src"
    using src len by (auto simp: rc_def snaps' marked_def nth_list_update)
  let ?in = "\<lparr> fr_free = sfl_free i, fr_release_call = rc, fr_release_mask = marked ! src,
      fr_alloc_call = sfl_alloc_call i, fr_set_call = sfl_set_call i, fr_set_state = sfl_set_state i \<rparr>"
  have step: "snap_fl_step s i =
      (let (b, answer) = freelist_machine False False bits ?in in ((b, map ?bools snaps'), answer))"
    unfolding snap_fl_step_def s Let_def prod.case chain fst_conv length_map same
    unfolding tgt_def [symmetric] src_def [symmetric] ticked dumped rc_def ..
  have "freelist_fl_step False False bits ?in = Some (bits', out)"
    by (rule snap_fl_bits [OF fl [unfolded t]]) (use mask in \<open>auto simp: rc_def src_def\<close>)
  then have "freelist_machine False False bits ?in = (bits', out)"
    using w by (intro freelist_machine_fl) (simp_all add: freelist_width_ok_def)
  then show "snd (snap_fl_step s i) = out \<and>
      snap_fl_rel (fst (snap_fl_step s i)) t' \<and> length (snd t') = nsnapshots"
    using len by (simp add: step t snap_fl_rel_def snaps' marked_def)
qed

section \<open>Properties\<close>

text \<open>For every bypass configuration the RTL register file with snapshots gives, on every input
  sequence on which the functional model does not raise, the reads of the functional model that
  copies whole register files, including a snapshot and a restore of the same slot in one cycle;
  neither a set nor a restore may come in a cycle whose reads are bypassed.\<close>

theorem snapshotting_regfile_refines_fl:
  assumes "snap_rf_shape nregs nsnapshots st" and "list_all (snap_rf_ok wrb nregs nsnapshots) is"
    and "run_fl (snap_rf_fl_step wrb wsb) st is = Some outs"
  shows "run (snap_rf_step wrb wsb) st
           (is :: ('i::len word, 'a, 'k::len word) snap_rf_in list) = outs"
  using assms by (intro snap_rf.partial_run_refines [where nregs = nregs and nsnapshots = nsnapshots]) auto

theorem snapshotting_regfile_refines_fl_witness:
  "run (snap_rf_step False False) ([1, 2 :: nat], [[0, 0]])
     [\<lparr> srf_ports = \<lparr> rf_read_addr = [], rf_write_call = [True], rf_write_addr = [1 :: 1 word],
          rf_write_data = [9], rf_set_call = False, rf_set_in = [0, 0] \<rparr>,
        srf_snapshot_call = True, srf_target_id = 0, srf_restore_call = True,
        srf_source_id = 0 :: 1 word \<rparr>,
      \<lparr> srf_ports = \<lparr> rf_read_addr = [1], rf_write_call = [], rf_write_addr = [],
          rf_write_data = [], rf_set_call = False, rf_set_in = [0, 0] \<rparr>,
        srf_snapshot_call = False, srf_target_id = 0, srf_restore_call = False,
        srf_source_id = 0 \<rparr>] = [[], [Some 2]]"
  by (rule snapshotting_regfile_refines_fl [where nregs = 2 and nsnapshots = 1])
     (simp_all add: snap_rf_shape_def snap_rf_ok_def regfile_ports_ok_def snap_rf_fl_step_def
        rf_writes_def regfile_fl_write_def snap_rf_fl_snapshot_def snap_rf_fl_restore_def
        regfile_fl_set_def regfile_fl_dump_def regfile_fl_read_def list_read_def)

text \<open>C18: the RTL free list with snapshots gives the slots, ready flags and free vectors of the
  functional model on every input sequence on which that model does not raise: the snapshots
  track the slots allocated since they were reset, and reverting to one frees exactly these.\<close>

theorem snapshotting_freelist_refines_fl:
  assumes "length snaps = nsnapshots" and "list_all (snap_fl_ok nsnapshots) is"
    and "run_fl snap_fl_fl_step (bits, snaps) is = Some outs"
  shows "run snap_fl_step (bits, map (\<lambda>w. map (bit w) [0..<LENGTH('n)]) snaps)
           (is :: ('n::len word, 'i::len word, 'k::len word) snap_fl_in list) = outs"
  using assms
  by (intro snap_fl.partial_run_refines [where nsnapshots = nsnapshots]) (auto simp: snap_fl_rel_def)

theorem snapshotting_freelist_refines_fl_witness:
  "run snap_fl_step (15 :: 4 word, map (\<lambda>w. map (bit w) [0..<LENGTH(4)]) [0, 0 :: 4 word])
     [\<lparr> sfl_free = [], sfl_alloc_call = [True, True], sfl_set_call = False, sfl_set_state = 0,
        sfl_reset_call = False, sfl_target_id = 0, sfl_revert_call = False, sfl_source_id = 0 :: 1 word \<rparr>,
      \<lparr> sfl_free = [(False, 0 :: 2 word)], sfl_alloc_call = [False, False], sfl_set_call = False,
        sfl_set_state = 0, sfl_reset_call = False, sfl_target_id = 0, sfl_revert_call = True,
        sfl_source_id = 1 \<rparr>,
      \<lparr> sfl_free = [], sfl_alloc_call = [False, False], sfl_set_call = False, sfl_set_state = 0,
        sfl_reset_call = False, sfl_target_id = 0, sfl_revert_call = False, sfl_source_id = 0 \<rparr>] =
   [(15, [(True, Some (0, 1)), (True, Some (1, 2))]), (12, [(True, None), (True, None)]),
    (15, [(True, None), (True, None)])]"
proof (rule snapshotting_freelist_refines_fl [where nsnapshots = 2])
  show "run_fl snap_fl_fl_step (15 :: 4 word, [0, 0])
     [\<lparr> sfl_free = [], sfl_alloc_call = [True, True], sfl_set_call = False, sfl_set_state = 0,
        sfl_reset_call = False, sfl_target_id = 0, sfl_revert_call = False, sfl_source_id = 0 :: 1 word \<rparr>,
      \<lparr> sfl_free = [(False, 0 :: 2 word)], sfl_alloc_call = [False, False], sfl_set_call = False,
        sfl_set_state = 0, sfl_reset_call = False, sfl_target_id = 0, sfl_revert_call = True,
        sfl_source_id = 1 \<rparr>,
      \<lparr> sfl_free = [], sfl_alloc_call = [False, False], sfl_set_call = False, sfl_set_state = 0,
        sfl_reset_call = False, sfl_target_id = 0, sfl_revert_call = False, sfl_source_id = 0 \<rparr>] =
   Some [(15, [(True, Some (0, 1)), (True, Some (1, 2))]), (12, [(True, None), (True, None)]),
    (15, [(True, None), (True, None)])]"
    by (simp add: snap_fl_fl_step_def snap_fl_fl_alloc_def freelist_fl_alloc_def freelist_fl_alloc_rdy_def
        snap_fl_fl_revert_def freelist_fl_release_def upt_rec Let_def bit_numeral_rec
        set_bit_eq_or unset_bit_eq_and_not)
qed (simp_all add: snap_fl_ok_def)

end
