(* ===== verification/CAM.thy ===== *)
theory CAM
  imports Prelude
begin

text \<open>
  The content-addressed memory with round-robin replacement the branch target buffer is built
  from: \<open>lizard/util/rtl/cam.py\<close> and \<open>lizard/util/fl/cam.py\<close>. The number of entries is the length
  of the list of entries, at least one. The overwrite counter is an index below it.
\<close>

record ('k, 'v) cam_entry =
  ce_key :: 'k
  ce_value :: 'v
  ce_valid :: bool

record ('k, 'v) cam =
  cam_entries :: "('k, 'v) cam_entry list"
  cam_counter :: nat

record ('k, 'v) cam_in =
  cam_read_key :: 'k
  cam_write_call :: bool
  cam_write_key :: 'k
  cam_write_remove :: bool
  cam_write_value :: 'v
  cam_clear_call :: bool

definition cam_entry_zero :: "('k::zero, 'v::zero) cam_entry" where
  "cam_entry_zero = \<lparr> ce_key = 0, ce_value = 0, ce_valid = False \<rparr>"

definition cam_match :: "('k, 'v) cam_entry list \<Rightarrow> 'k \<Rightarrow> nat \<Rightarrow> bool" where
  "cam_match entries key i \<longleftrightarrow> ce_key (entries ! i) = key \<and> ce_valid (entries ! i)"

section \<open>Register-transfer level\<close>

text \<open>The chains over the entries: address and validity of the last entry so far that satisfies the
  condition; the first element of the chain names entry 0 whether it does or not.\<close>

fun cam_chain :: "(nat \<Rightarrow> bool) \<Rightarrow> nat \<Rightarrow> nat \<times> bool" where
  "cam_chain P 0 = (0, P 0)"
| "cam_chain P (Suc i) = (if P (Suc i) then (Suc i, True) else cam_chain P i)"

definition cam_read :: "('k, 'v) cam_entry list \<Rightarrow> 'k \<Rightarrow> 'v \<times> bool" where
  "cam_read entries key =
     (let (addr, valid) = cam_chain (cam_match entries key) (length entries - 1)
      in (ce_value (entries ! addr), valid))"

definition cam_overwrite :: "('k, 'v) cam_entry list \<Rightarrow> ('k, 'v) cam_in \<Rightarrow> bool" where
  "cam_overwrite entries i \<longleftrightarrow>
     \<not> cam_write_remove i \<and>
     \<not> snd (cam_chain (cam_match entries (cam_write_key i)) (length entries - 1)) \<and>
     \<not> snd (cam_chain (\<lambda>n. \<not> ce_valid (entries ! n)) (length entries - 1))"

definition cam_write_entry :: "('k::zero, 'v::zero) cam \<Rightarrow> ('k, 'v) cam_in \<Rightarrow> nat \<Rightarrow> ('k, 'v) cam_entry" where
  "cam_write_entry s i n =
     (let entries = cam_entries s;
          (write_addr, write_valid) = cam_chain (cam_match entries (cam_write_key i)) (length entries - 1);
          (invalid_addr, invalid_valid) = cam_chain (\<lambda>n. \<not> ce_valid (entries ! n)) (length entries - 1);
          overwrite = cam_overwrite entries i
      in if \<not> cam_clear_call i
         then (if cam_write_call i \<and>
                  (overwrite \<and> cam_counter s = n \<or> write_addr = n \<and> write_valid \<or>
                   \<not> write_valid \<and> invalid_addr = n \<and> invalid_valid \<and> \<not> cam_write_remove i)
               then \<lparr> ce_key = cam_write_key i, ce_value = cam_write_value i,
                      ce_valid = (\<not> cam_write_remove i) \<rparr>
               else entries ! n)
         else \<lparr> ce_key = 0, ce_value = 0, ce_valid = False \<rparr>)"

definition cam_step :: "(('k::zero, 'v::zero) cam, ('k, 'v) cam_in, 'v \<times> bool) machine" where
  "cam_step s i =
     (\<lparr> cam_entries = map (cam_write_entry s i) [0..<length (cam_entries s)],
        cam_counter =
          (if cam_write_call i \<and> cam_overwrite (cam_entries s) i
           then (if cam_counter s = length (cam_entries s) - 1 then 0 else cam_counter s + 1)
           else cam_counter s) \<rparr>,
      cam_read (cam_entries s) (cam_read_key i))"

definition cam_reset :: "nat \<Rightarrow> ('k::zero, 'v::zero) cam" where
  "cam_reset nregs = \<lparr> cam_entries = replicate nregs cam_entry_zero, cam_counter = 0 \<rparr>"

section \<open>Functional model\<close>

fun cam_fl_read_loop :: "nat list \<Rightarrow> ('k, 'v) cam_entry list \<Rightarrow> 'k \<Rightarrow> 'v \<times> bool" where
  "cam_fl_read_loop [] entries key = (ce_value (entries ! 0), False)"
| "cam_fl_read_loop (i # rest) entries key =
     (if cam_match entries key i then (ce_value (entries ! i), True)
      else cam_fl_read_loop rest entries key)"

definition cam_fl_read :: "('k, 'v) cam_entry list \<Rightarrow> 'k \<Rightarrow> 'v \<times> bool" where
  "cam_fl_read entries key = cam_fl_read_loop (rev [0..<length entries]) entries key"

text \<open>The loop of \<open>write\<close>: the index it stores to, or what it knows of the last invalid entry when it
  ends (\<open>-1\<close> is \<open>None\<close>).\<close>

fun cam_fl_write_loop ::
  "nat list \<Rightarrow> nat option \<Rightarrow> ('k, 'v) cam_entry list \<Rightarrow> 'k \<Rightarrow> nat + nat option" where
  "cam_fl_write_loop [] last_invalid entries key = Inr last_invalid"
| "cam_fl_write_loop (i # rest) last_invalid entries key =
     (if cam_match entries key i then Inl i
      else cam_fl_write_loop rest
             (if last_invalid = None \<and> \<not> ce_valid (entries ! i) then Some i else last_invalid)
             entries key)"

definition cam_fl_write :: "('k, 'v) cam \<Rightarrow> 'k \<Rightarrow> bool \<Rightarrow> 'v \<Rightarrow> ('k, 'v) cam" where
  "cam_fl_write s key remove v =
     (let entries = cam_entries s;
          new = \<lparr> ce_key = key, ce_value = v, ce_valid = (if remove then False else True) \<rparr>
      in case cam_fl_write_loop (rev [0..<length entries]) None entries key of
           Inl i \<Rightarrow> s\<lparr>cam_entries := entries[i := new]\<rparr>
         | Inr last_invalid \<Rightarrow>
             if remove then s
             else (case last_invalid of
                     Some l \<Rightarrow> s\<lparr>cam_entries := entries[l := new]\<rparr>
                   | None \<Rightarrow>
                       \<lparr> cam_entries = entries[cam_counter s := new],
                         cam_counter = (if cam_counter s = length entries - 1 then 0
                                        else cam_counter s + 1) \<rparr>))"

definition cam_fl_clear :: "('k::zero, 'v::zero) cam \<Rightarrow> ('k, 'v) cam" where
  "cam_fl_clear s = s\<lparr>cam_entries := map (\<lambda>_. cam_entry_zero) (cam_entries s)\<rparr>"

text \<open>The interface declares no ordering; the RTL reads the old entries and lets the clear win, which
  is the order read, write, clear.\<close>

definition cam_fl_step :: "(('k::zero, 'v::zero) cam, ('k, 'v) cam_in, 'v \<times> bool) machine" where
  "cam_fl_step s i =
     (let out = cam_fl_read (cam_entries s) (cam_read_key i);
          s1 = (if cam_write_call i
                then cam_fl_write s (cam_write_key i) (cam_write_remove i) (cam_write_value i) else s);
          s2 = (if cam_clear_call i then cam_fl_clear s1 else s1)
      in (s2, out))"

section \<open>Refinement\<close>

definition cam_shape :: "('k, 'v) cam \<Rightarrow> bool" where
  "cam_shape s \<longleftrightarrow> cam_entries s \<noteq> [] \<and> cam_counter s < length (cam_entries s)"

lemma cam_chain_find:
  "cam_chain P n = (case find P (rev [0..<Suc n]) of Some i \<Rightarrow> (i, True) | None \<Rightarrow> (0, False))"
  by (induction n) auto

lemma rev_upt_length: "xs \<noteq> [] \<Longrightarrow> rev [0..<Suc (length xs - 1)] = rev [0..<length xs]"
  by simp

lemma cam_fl_read_find:
  "cam_fl_read_loop is entries key =
     (case find (cam_match entries key) is of
        Some i \<Rightarrow> (ce_value (entries ! i), True) | None \<Rightarrow> (ce_value (entries ! 0), False))"
  by (induction "is") auto

lemma cam_fl_write_find:
  "cam_fl_write_loop is l entries key =
     (case find (cam_match entries key) is of
        Some i \<Rightarrow> Inl i
      | None \<Rightarrow> Inr (case l of Some j \<Rightarrow> Some j | None \<Rightarrow> find (\<lambda>n. \<not> ce_valid (entries ! n)) is))"
  by (induction "is" arbitrary: l) (auto split: option.splits)

lemma cam_read_fl: "entries \<noteq> [] \<Longrightarrow> cam_read entries key = cam_fl_read entries key"
  by (simp add: cam_read_def cam_fl_read_def cam_chain_find rev_upt_length cam_fl_read_find
      del: upt_Suc split: option.splits)

lemma find_rev_upt_less: "find P (rev [0..<n]) = Some i \<Longrightarrow> i < n"
  by (auto simp: find_Some_iff rev_nth)

lemma cam_step_fl:
  assumes "cam_shape s"
  shows "cam_step s i = cam_fl_step s i"
proof -
  let ?es = "cam_entries s" and ?key = "cam_write_key i"
  have ne: "?es \<noteq> []" and cnt: "cam_counter s < length ?es" using assms by (auto simp: cam_shape_def)
  let ?hit = "find (cam_match ?es ?key) (rev [0..<length ?es])"
  let ?free = "find (\<lambda>n. \<not> ce_valid (?es ! n)) (rev [0..<length ?es])"
  have read: "cam_read ?es (cam_read_key i) = cam_fl_read ?es (cam_read_key i)"
    using ne by (rule cam_read_fl)
  have ow: "cam_overwrite ?es i \<longleftrightarrow> \<not> cam_write_remove i \<and> ?hit = None \<and> ?free = None"
    using ne by (simp add: cam_overwrite_def cam_chain_find rev_upt_length del: upt_Suc split: option.splits)
  let ?new = "\<lparr> ce_key = ?key, ce_value = cam_write_value i, ce_valid = (\<not> cam_write_remove i) \<rparr>"
  let ?target = "case ?hit of Some h \<Rightarrow> Some h | None \<Rightarrow>
      if cam_write_remove i then None else (case ?free of Some f \<Rightarrow> Some f | None \<Rightarrow> Some (cam_counter s))"
  have entry: "cam_write_entry s i n =
      (if cam_clear_call i then cam_entry_zero
       else if cam_write_call i \<and> ?target = Some n then ?new else ?es ! n)" for n
    using ne by (auto simp: cam_write_entry_def cam_entry_zero_def Let_def cam_chain_find rev_upt_length ow
        simp del: upt_Suc split: option.splits)
  have target: "?target = Some n \<Longrightarrow> n < length ?es" for n
    using cnt by (auto dest: find_rev_upt_less split: option.splits if_splits)
  have entries: "map (cam_write_entry s i) [0..<length ?es] =
      (if cam_clear_call i then map (\<lambda>_. cam_entry_zero) ?es
       else if cam_write_call i then (case ?target of Some n \<Rightarrow> ?es[n := ?new] | None \<Rightarrow> ?es) else ?es)"
    using target by (intro nth_equalityI) (auto simp: entry nth_list_update split: option.splits if_splits)
  show ?thesis
    unfolding cam_step_def cam_fl_step_def entries read ow
    by (cases s) (auto simp: Let_def cam_fl_write_def cam_fl_write_find cam_fl_clear_def map_replicate_const
        split: option.splits)
qed

lemma cam_fl_step_shape: "cam_shape s \<Longrightarrow> cam_shape (fst (cam_fl_step s i))"
  by (auto simp: cam_shape_def cam_fl_step_def cam_fl_write_def cam_fl_clear_def Let_def
      split: sum.splits option.splits)

interpretation cam: cycle_refinement cam_step cam_fl_step "\<lambda>s t. s = t \<and> cam_shape s" "\<lambda>_ _. True"
  by unfold_locales (auto simp: cam_step_fl cam_fl_step_shape)

section \<open>The memory as a cache\<close>

text \<open>What a key maps to, and the ideal memory that never forgets.\<close>

definition cam_map :: "('k, 'v) cam_entry list \<Rightarrow> 'k \<Rightarrow> 'v option" where
  "cam_map entries key = (let (v, valid) = cam_fl_read entries key in if valid then Some v else None)"

definition ideal_step :: "('k \<Rightarrow> 'v option) \<Rightarrow> ('k, 'v) cam_in \<Rightarrow> 'k \<Rightarrow> 'v option" where
  "ideal_step m i =
     (if cam_clear_call i then Map.empty
      else if cam_write_call i
           then m(cam_write_key i := (if cam_write_remove i then None else Some (cam_write_value i)))
      else m)"

text \<open>No key is valid in two entries.\<close>

definition cam_unique :: "('k, 'v) cam_entry list \<Rightarrow> bool" where
  "cam_unique entries \<longleftrightarrow>
     (\<forall>i j key. i < length entries \<longrightarrow> j < length entries \<longrightarrow>
        cam_match entries key i \<longrightarrow> cam_match entries key j \<longrightarrow> i = j)"

lemma cam_map_Some_iff:
  assumes "cam_unique entries"
  shows "cam_map entries key = Some v \<longleftrightarrow>
         (\<exists>i < length entries. cam_match entries key i \<and> ce_value (entries ! i) = v)"
proof (cases "find (cam_match entries key) (rev [0..<length entries])")
  case None
  then have "cam_map entries key = None" by (simp add: cam_map_def cam_fl_read_def cam_fl_read_find)
  with None show ?thesis by (auto simp: find_None_iff)
next
  case (Some i)
  then have "i < length entries" "cam_match entries key i"
    using find_rev_upt_less [OF Some] by (auto simp: find_Some_iff)
  then show ?thesis
    using assms Some by (auto simp: cam_map_def cam_fl_read_def cam_fl_read_find cam_unique_def)
qed

text \<open>Storing an entry at a position that no other valid entry contradicts.\<close>

lemma cam_store:
  assumes u: "cam_unique es" and n: "n < length es"
    and other: "ce_valid e \<Longrightarrow> \<forall>j < length es. cam_match es (ce_key e) j \<longrightarrow> j = n"
  shows "cam_unique (es[n := e])"
    and "cam_map (es[n := e]) key = Some v \<Longrightarrow>
           ce_valid e \<and> key = ce_key e \<and> v = ce_value e \<or>
           cam_map es key = Some v \<and> \<not> cam_match es key n"
    and "ce_valid e \<Longrightarrow> cam_map (es[n := e]) (ce_key e) = Some (ce_value e)"
proof -
  have m: "cam_match (es[n := e]) key j \<longleftrightarrow>
      (if j = n then ce_key e = key \<and> ce_valid e else cam_match es key j)" if "j < length es" for key j
    using that n by (auto simp: cam_match_def)
  show u': "cam_unique (es[n := e])"
    unfolding cam_unique_def length_list_update
  proof (intro allI impI)
    fix i j key
    assume ij: "i < length es" "j < length es" "cam_match (es[n := e]) key i" "cam_match (es[n := e]) key j"
    consider "i = n" "j = n" | "i = n" "j \<noteq> n" | "i \<noteq> n" "j = n" | "i \<noteq> n" "j \<noteq> n" by blast
    then show "i = j"
    proof cases
      case 2
      then have "ce_valid e" "cam_match es (ce_key e) j" using ij m by auto
      then show ?thesis using other ij(2) 2 by blast
    next
      case 3
      then have "ce_valid e" "cam_match es (ce_key e) i" using ij m by auto
      then show ?thesis using other ij(1) 3 by blast
    next
      case 4
      then have "cam_match es key i" "cam_match es key j" using ij m by auto
      then show ?thesis using u ij(1,2) by (simp add: cam_unique_def)
    qed simp
  qed
  show "cam_map (es[n := e]) key = Some v \<Longrightarrow> ce_valid e \<and> key = ce_key e \<and> v = ce_value e \<or>
      cam_map es key = Some v \<and> \<not> cam_match es key n"
    using n u by (auto simp: cam_map_Some_iff [OF u'] cam_map_Some_iff [OF u] m cam_unique_def
        split: if_splits)
  show "ce_valid e \<Longrightarrow> cam_map (es[n := e]) (ce_key e) = Some (ce_value e)"
    using n by (auto simp: cam_map_Some_iff [OF u'] m)
qed

definition cam_cache :: "('k, 'v) cam \<Rightarrow> ('k \<Rightarrow> 'v option) \<Rightarrow> bool" where
  "cam_cache s m \<longleftrightarrow> cam_shape s \<and> cam_unique (cam_entries s) \<and> cam_map (cam_entries s) \<subseteq>\<^sub>m m"

lemma cam_map_no_match: "\<forall>j < length es. \<not> cam_match es key j \<Longrightarrow> cam_map es key = None"
proof -
  assume "\<forall>j < length es. \<not> cam_match es key j"
  then have "find (cam_match es key) (rev [0..<length es]) = None" by (simp add: find_None_iff)
  then show ?thesis by (simp add: cam_map_def cam_fl_read_def cam_fl_read_find)
qed

text \<open>A write that stores a new entry for a key at a position where no other entry has the key.\<close>

lemma cam_store_ideal:
  assumes u: "cam_unique es" and le: "cam_map es \<subseteq>\<^sub>m m" and n: "n < length es"
    and only: "\<And>j. j < length es \<Longrightarrow> cam_match es key j \<Longrightarrow> j = n"
  shows "cam_unique (es[n := \<lparr> ce_key = key, ce_value = v, ce_valid = valid \<rparr>]) \<and>
         cam_map (es[n := \<lparr> ce_key = key, ce_value = v, ce_valid = valid \<rparr>])
           \<subseteq>\<^sub>m m(key := (if valid then Some v else None))"
proof -
  let ?e = "\<lparr> ce_key = key, ce_value = v, ce_valid = valid \<rparr>"
  have other: "ce_valid ?e \<Longrightarrow> \<forall>j < length es. cam_match es (ce_key ?e) j \<longrightarrow> j = n" using only by simp
  note store = cam_store [OF u n other]
  have "cam_map (es[n := ?e]) k = Some x \<Longrightarrow> (m(key := (if valid then Some v else None))) k = Some x"
    for k x
  proof -
    assume "cam_map (es[n := ?e]) k = Some x"
    from store(2) [OF _ this] show ?thesis
    proof
      assume "cam_map es k = Some x \<and> \<not> cam_match es k n"
      moreover from this have "k \<noteq> key"
        using only by (auto simp: cam_map_Some_iff [OF u])
      ultimately show ?thesis using le by (auto simp: map_le_def dom_def)
    qed auto
  qed
  then show ?thesis using store(1) unfolding map_le_iff by blast
qed

text \<open>Where a write that is not cleared stores its entry.\<close>

lemma cam_fl_write_entries:
  fixes s :: "('k::zero, 'v::zero) cam"
  defines "es \<equiv> cam_entries s"
  assumes "cam_write_call i" and "\<not> cam_clear_call i"
  shows "cam_entries (fst (cam_fl_step s i)) =
    (let new = \<lparr> ce_key = cam_write_key i, ce_value = cam_write_value i, ce_valid = (\<not> cam_write_remove i) \<rparr>
     in case find (cam_match es (cam_write_key i)) (rev [0..<length es]) of
          Some h \<Rightarrow> es[h := new]
        | None \<Rightarrow> if \<not> cam_write_remove i
                  then es[(case find (\<lambda>n. \<not> ce_valid (es ! n)) (rev [0..<length es]) of
                             Some f \<Rightarrow> f | None \<Rightarrow> cam_counter s) := new] else es)"
  using assms(2,3)
  by (auto simp: es_def cam_fl_step_def cam_fl_write_def cam_fl_write_find Let_def split: option.splits)

lemma cam_cache_step:
  assumes "cam_cache s m"
  shows "cam_cache (fst (cam_fl_step s i)) (ideal_step m i)"
proof -
  let ?es = "cam_entries s" and ?key = "cam_write_key i" and ?valid = "\<not> cam_write_remove i"
  from assms have shape: "cam_shape s" and u: "cam_unique ?es" and le: "cam_map ?es \<subseteq>\<^sub>m m"
    by (auto simp: cam_cache_def)
  let ?s1 = "if cam_write_call i then cam_fl_write s ?key (cam_write_remove i) (cam_write_value i) else s"
  have step: "fst (cam_fl_step s i) = (if cam_clear_call i then cam_fl_clear ?s1 else ?s1)"
    by (simp add: cam_fl_step_def Let_def)
  have zero: "\<not> cam_match (map (\<lambda>_. cam_entry_zero) xs) k j" if "j < length xs" for xs :: "('a, 'b) cam_entry list" and k j
    using that by (simp add: cam_match_def cam_entry_zero_def)
  have cleared: "cam_unique (cam_entries (cam_fl_clear t)) \<and> cam_map (cam_entries (cam_fl_clear t)) = Map.empty"
    for t :: "('a, 'b) cam"
    using zero by (auto simp: cam_fl_clear_def cam_unique_def fun_eq_iff intro!: cam_map_no_match)
  show ?thesis
  proof (cases "cam_clear_call i \<or> \<not> cam_write_call i")
    case True
    then show ?thesis
      using cam_fl_step_shape [OF shape, of i] u le cleared
      by (auto simp: cam_cache_def step ideal_step_def)
  next
    case False
    let ?m = "m(?key := (if ?valid then Some (cam_write_value i) else None))"
    let ?new = "\<lparr> ce_key = ?key, ce_value = cam_write_value i, ce_valid = ?valid \<rparr>"
    let ?hit = "find (cam_match ?es ?key) (rev [0..<length ?es])"
    have nohit: "\<not> cam_match ?es ?key j" if "?hit = None" "j < length ?es" for j
      using that by (auto simp: find_None_iff)
    have counter: "cam_counter s < length ?es" using shape by (simp add: cam_shape_def)
    note entries = cam_fl_write_entries [of i s, unfolded Let_def]
    have "cam_unique (?es[h := ?new]) \<and> cam_map (?es[h := ?new]) \<subseteq>\<^sub>m ?m" if "?hit = Some h" for h
    proof (rule cam_store_ideal [OF u le])
      show "h < length ?es" using that by (rule find_rev_upt_less)
      show "j = h" if "j < length ?es" "cam_match ?es ?key j" for j
        using u that \<open>?hit = Some h\<close> find_rev_upt_less [OF \<open>?hit = Some h\<close>]
        by (auto simp: find_Some_iff cam_unique_def)
    qed
    moreover have "cam_unique (?es[n := ?new]) \<and> cam_map (?es[n := ?new]) \<subseteq>\<^sub>m ?m"
      if "?hit = None" "n < length ?es" for n
      using nohit [OF that(1)] that(2) by (intro cam_store_ideal [OF u le]) auto
    moreover have "cam_map ?es \<subseteq>\<^sub>m ?m" if "?hit = None" "\<not> ?valid"
      using le cam_map_no_match [of ?es ?key] nohit [OF that(1)] that(2) by (auto simp: map_le_def dom_def)
    ultimately show ?thesis
      using cam_fl_step_shape [OF shape, of i] False u counter
      by (auto simp: cam_cache_def ideal_step_def entries dest: find_rev_upt_less split: option.splits)
  qed
qed

interpretation cam_cache: machine_invariant
  "\<lambda>(s, m) i. ((fst (cam_fl_step s i), ideal_step m i), snd (cam_fl_step s i))" "\<lambda>_ _. True"
  "\<lambda>(s, m). cam_cache s m"
  by unfold_locales (auto simp: cam_cache_step)

lemma cam_cache_final:
  "cam_cache s m \<Longrightarrow>
   cam_cache (final cam_fl_step s is) (fold (\<lambda>i m. ideal_step m i) is m)"
  by (induction "is" arbitrary: s m) (auto simp: cam_cache_step)

lemma cam_cache_reset: "0 < n \<Longrightarrow> cam_cache (cam_reset n) Map.empty"
proof -
  assume n: "0 < n"
  have "\<not> cam_match (replicate n cam_entry_zero) k j" if "j < n" for k :: 'a and j
    using that by (simp add: cam_match_def cam_entry_zero_def)
  then show ?thesis
    using n by (auto simp: cam_cache_def cam_reset_def cam_shape_def cam_unique_def map_le_def dom_def
        cam_map_no_match)
qed

section \<open>Properties\<close>

text \<open>With its priority chains and its replacement counter the RTL memory behaves in every cycle
  as the functional model that searches its entries from the top, for every number of entries and
  every sequence of reads, writes, removals and clears.\<close>

theorem cam_refines_fl:
  assumes "0 < nregs"
  shows "run cam_step (cam_reset nregs) is = run cam_fl_step (cam_reset nregs) is"
  using cam_cache_reset [OF assms]
  by (intro cam.run_refines) (auto simp: cam_cache_def intro: runs_ok_always)

theorem cam_refines_fl_witness:
  "run cam_step (cam_reset 2)
     [\<lparr> cam_read_key = 5 :: nat, cam_write_call = True, cam_write_key = 5, cam_write_remove = False,
        cam_write_value = 9, cam_clear_call = False \<rparr>,
      \<lparr> cam_read_key = 5, cam_write_call = True, cam_write_key = 5, cam_write_remove = True,
        cam_write_value = 0, cam_clear_call = False \<rparr>,
      \<lparr> cam_read_key = 5, cam_write_call = False, cam_write_key = 0, cam_write_remove = False,
        cam_write_value = 0, cam_clear_call = True \<rparr>] = [(0 :: nat, False), (9, True), (0 :: nat, False)]"
  by (subst cam_refines_fl)
     (simp_all add: cam_fl_step_def cam_fl_read_def cam_fl_write_def cam_fl_clear_def cam_reset_def
      cam_entry_zero_def cam_match_def numeral_2_eq_2 Let_def)

text \<open>C38: the memory never answers with stale data: after any history from reset, a valid answer for
  a key is the value of the last write to it that no removal, later write or clear superseded; a
  replaced entry may only be missing.\<close>

theorem cam_coherent:
  assumes "0 < nregs"
    and "cam_read (cam_entries (final cam_step (cam_reset nregs) past)) key = (v, True)"
  shows "fold (\<lambda>i m. ideal_step m i) past Map.empty key = Some v"
proof -
  let ?s = "final cam_fl_step (cam_reset nregs) past"
  have "final cam_step (cam_reset nregs) past = ?s"
    using cam.final_refines [of "cam_reset nregs" "cam_reset nregs" past] cam_cache_reset [OF assms(1)]
    by (auto simp: cam_cache_def intro: runs_ok_always)
  moreover have cache: "cam_cache ?s (fold (\<lambda>i m. ideal_step m i) past Map.empty)"
    by (rule cam_cache_final [OF cam_cache_reset [OF assms(1)]])
  ultimately have "cam_map (cam_entries ?s) key = Some v"
    using assms(2) by (auto simp: cam_map_def cam_cache_def cam_shape_def cam_read_fl)
  then show ?thesis using cache by (auto simp: cam_cache_def map_le_def dom_def)
qed

theorem cam_coherent_witness:
  "fold (\<lambda>i m. ideal_step m i)
     [\<lparr> cam_read_key = 5 :: nat, cam_write_call = True, cam_write_key = 5, cam_write_remove = False,
        cam_write_value = 9 :: nat, cam_clear_call = False \<rparr>] Map.empty 5 = Some 9"
  by (rule cam_coherent [of 2])
     (simp_all add: cam_step_def cam_reset_def cam_write_entry_def cam_overwrite_def cam_entry_zero_def
        cam_match_def cam_read_def numeral_2_eq_2 Let_def)

text \<open>A written key is found in the next cycle with its value, replacement included.\<close>

theorem cam_write_then_read:
  assumes "0 < nregs" and "cam_write_call i" and "\<not> cam_write_remove i" and "\<not> cam_clear_call i"
  shows "cam_read (cam_entries (final cam_step (cam_reset nregs) (past @ [i]))) (cam_write_key i) =
         (cam_write_value i, True)"
proof -
  let ?s = "final cam_fl_step (cam_reset nregs) past" and ?key = "cam_write_key i"
  let ?es = "cam_entries ?s"
  have eq: "final cam_step (cam_reset nregs) is = final cam_fl_step (cam_reset nregs) is" for "is"
    using cam.final_refines [of "cam_reset nregs" "cam_reset nregs" "is"] cam_cache_reset [OF assms(1)]
    by (auto simp: cam_cache_def intro: runs_ok_always)
  have cache: "cam_cache ?s (fold (\<lambda>i m. ideal_step m i) past Map.empty)"
    by (rule cam_cache_final [OF cam_cache_reset [OF assms(1)]])
  then have u: "cam_unique ?es" and shape: "cam_shape ?s" by (auto simp: cam_cache_def)
  let ?e = "\<lparr> ce_key = ?key, ce_value = cam_write_value i, ce_valid = True \<rparr>"
  obtain n where n: "n < length ?es" "\<forall>j < length ?es. cam_match ?es ?key j \<longrightarrow> j = n"
    and es: "cam_entries (fst (cam_fl_step ?s i)) = ?es[n := ?e]"
  proof (cases "find (cam_match ?es ?key) (rev [0..<length ?es])")
    case None
    let ?n = "case find (\<lambda>n. \<not> ce_valid (?es ! n)) (rev [0..<length ?es]) of
                Some f \<Rightarrow> f | None \<Rightarrow> cam_counter ?s"
    have "?n < length ?es" using shape by (auto simp: cam_shape_def dest: find_rev_upt_less split: option.split)
    moreover have "\<forall>j < length ?es. cam_match ?es ?key j \<longrightarrow> j = ?n" using None by (auto simp: find_None_iff)
    moreover have "cam_entries (fst (cam_fl_step ?s i)) = ?es[?n := ?e]"
      using assms(2-4) None by (simp add: cam_fl_write_entries Let_def)
    ultimately show thesis by (rule that)
  next
    case (Some h)
    have h: "h < length ?es" "cam_match ?es ?key h" using find_rev_upt_less [OF Some] find_SomeD [OF Some] by auto
    then have "\<forall>j < length ?es. cam_match ?es ?key j \<longrightarrow> j = h" using u by (auto simp: cam_unique_def)
    moreover have "cam_entries (fst (cam_fl_step ?s i)) = ?es[h := ?e]"
      using assms(2-4) Some by (simp add: cam_fl_write_entries Let_def)
    ultimately show thesis using h(1) by (intro that) auto
  qed
  have "cam_map (?es[n := ?e]) ?key = Some (cam_write_value i)"
    using cam_store(3) [OF u n(1), of ?e] n(2) by simp
  moreover have "?es[n := ?e] \<noteq> []" using n(1) by auto
  ultimately have "cam_read (?es[n := ?e]) ?key = (cam_write_value i, True)"
    by (auto simp: cam_map_def cam_read_fl split: prod.splits if_splits)
  then show ?thesis unfolding eq by (simp add: final_append es)
qed

theorem cam_write_then_read_witness:
  "let w = (\<lambda>k v. \<lparr> cam_read_key = 0 :: nat, cam_write_call = True, cam_write_key = k,
              cam_write_remove = False, cam_write_value = v :: nat, cam_clear_call = False \<rparr>)
   in cam_read (cam_entries (final cam_step (cam_reset 1) ([w 3 4] @ [w 5 6]))) 5 = (6, True)"
  unfolding Let_def
  using cam_write_then_read [of 1 "\<lparr> cam_read_key = 0 :: nat, cam_write_call = True,
      cam_write_key = 5, cam_write_remove = False, cam_write_value = 6 :: nat,
      cam_clear_call = False \<rparr>"
      "[\<lparr> cam_read_key = 0, cam_write_call = True, cam_write_key = 3, cam_write_remove = False,
         cam_write_value = 4, cam_clear_call = False \<rparr>]"]
  by simp

end
