(* ===== verification/Pipeline.thy ===== *)
theory Pipeline
  imports Arbiters Selectors
begin

text \<open>
  The elastic pipeline of the core: the drop controllers of \<open>lizard/core/rtl/kill_unit.py\<close> and
  \<open>lizard/core/rtl/frontend/decode.py\<close>, the valid-value manager and the pipeline stage of
  \<open>lizard/util/rtl/pipeline_stage.py\<close>, \<open>lizard/util/rtl/drop_unit.py\<close> and the splitter and arbiter of
  \<open>lizard/core/rtl/pipeline_splitter.py\<close> and \<open>pipeline_arbiter.py\<close>. What a stage computes in a cycle
  (its \<open>process\<close> method) is a parameter: a function from the incoming message to the outgoing
  message and whether it was accepted.
\<close>

section \<open>Drop controllers\<close>

text \<open>The \<open>check\<close> method: given the kill message, the outgoing value and whether to keep it.\<close>

type_synonym ('a, 'k) drop_controller = "'k \<Rightarrow> 'a \<Rightarrow> 'a \<times> bool"

definition null_drop :: "('a, 'k) drop_controller" where
  "null_drop msg inp = (inp, True)"

record 'm kill_type =
  kill_force :: bool
  kill_mask :: 'm
  clear_mask :: 'm

definition kill_drop :: "('m::len word, 'm word kill_type) drop_controller" where
  "kill_drop msg inp =
     (let kill_match = inp AND kill_mask msg
      in (inp AND NOT (clear_mask msg), \<not> (kill_match \<noteq> 0 \<or> kill_force msg)))"

text \<open>The controller of a pipeline message reads and replaces its branch mask; how a message holds
  the mask is given by its two accessors.\<close>

definition pipeline_kill_drop ::
  "('a \<Rightarrow> 'm::len word) \<Rightarrow> ('m word \<Rightarrow> 'a \<Rightarrow> 'a) \<Rightarrow> ('a, 'm word kill_type) drop_controller" where
  "pipeline_kill_drop get_mask set_mask msg inp =
     (let (out, keep) = kill_drop msg (get_mask inp) in (set_mask out inp, keep))"

definition redirect_drop :: "('a, bool) drop_controller" where
  "redirect_drop msg inp = (inp, \<not> msg)"

section \<open>Valid-value manager\<close>

record 'a vvm =
  vv_val :: bool
  vv_out :: 'a
  vv_dead :: bool

record ('a, 'k) vvm_in =
  vv_kill_msg :: 'k
  vv_take_call :: bool
  vv_add_call :: bool
  vv_add_msg :: 'a
  vv_add_dead :: bool

record 'a vvm_out =
  vv_dropping :: bool
  vv_peek_rdy :: bool
  vv_peek_msg :: 'a
  vv_peek_dead :: bool
  vv_add_rdy :: bool

definition vvm_step ::
  "bool \<Rightarrow> ('a, 'k) drop_controller \<Rightarrow> ('a vvm, ('a, 'k) vvm_in, 'a vvm_out) machine" where
  "vvm_step tracking check s i =
     (let (check_out, check_keep) = check (vv_kill_msg i) (vv_out s);
          should_keep = (if tracking then True else check_keep);
          output_rdy = (if vv_val s then should_keep else False);
          dropping = (if vv_val s then \<not> should_keep else False);
          output_clear = (\<not> output_rdy \<or> vv_take_call i);
          peek_dead = (vv_dead s \<or> \<not> check_keep)
      in (\<lparr> vv_val = (if vv_add_call i then True else \<not> output_clear),
            vv_out = (if vv_add_call i then vv_add_msg i else check_out),
            vv_dead = (if vv_add_call i then vv_add_dead i else peek_dead) \<rparr>,
          \<lparr> vv_dropping = dropping, vv_peek_rdy = output_rdy, vv_peek_msg = check_out,
            vv_peek_dead = peek_dead, vv_add_rdy = output_clear \<rparr>))"

text \<open>The reset value of the valid register; the data register has none.\<close>

definition vvm_reset :: "'a \<Rightarrow> 'a vvm" where
  "vvm_reset d = \<lparr> vv_val = False, vv_out = d, vv_dead = False \<rparr>"

text \<open>The contract: a buffer for one message, which the kill message of the cycle is applied to first.\<close>

definition vvm_abs :: "'a vvm \<Rightarrow> 'a option" where
  "vvm_abs s = (if vv_val s then Some (vv_out s) else None)"

definition survives :: "('a, 'k) drop_controller \<Rightarrow> 'k \<Rightarrow> 'a option \<Rightarrow> 'a option" where
  "survives check msg b = do { a \<leftarrow> b; let (out, keep) = check msg a; if keep then Some out else None }"

definition buffer_step :: "('a, 'k) drop_controller \<Rightarrow> 'a option \<Rightarrow> ('a, 'k) vvm_in \<Rightarrow> 'a option \<times> 'a option" where
  "buffer_step check b i =
     (let b' = survives check (vv_kill_msg i) b
      in (if vv_add_call i then Some (vv_add_msg i) else if vv_take_call i then None else b', b'))"

definition vvm_view :: "'a vvm_out \<Rightarrow> 'a option" where
  "vvm_view out = (if vv_peek_rdy out then Some (vv_peek_msg out) else None)"

lemma survives_simps [simp]:
  "survives check msg None = None"
  "survives check msg (Some a) = (if snd (check msg a) then Some (fst (check msg a)) else None)"
  by (auto simp: survives_def split: prod.splits)

lemma vvm_step_buffer:
  "vvm_abs (fst (vvm_step False check s i)) = fst (buffer_step check (vvm_abs s) i)"
  "vvm_view (snd (vvm_step False check s i)) = snd (buffer_step check (vvm_abs s) i)"
  by (auto simp: vvm_step_def buffer_step_def vvm_abs_def vvm_view_def Let_def split: prod.splits)

lemma vvm_add_rdy:
  "vv_add_rdy (snd (vvm_step False check s i)) \<longleftrightarrow>
     survives check (vv_kill_msg i) (vvm_abs s) = None \<or> vv_take_call i"
  by (auto simp: vvm_step_def vvm_abs_def Let_def split: prod.splits)

interpretation vvm: cycle_refinement
  "\<lambda>s i. apsnd vvm_view (vvm_step False check s i)" "buffer_step check" "\<lambda>s b. vvm_abs s = b" "\<lambda>_ _. True"
  for check
  by unfold_locales (auto simp: vvm_step_buffer)

section \<open>Pipeline stage\<close>

record ('i, 'o, 'k) stage_in =
  st_in_peek_rdy :: bool
  st_in_peek_msg :: 'i
  st_process :: "'i \<Rightarrow> 'o \<times> bool"
  st_kill_msg :: 'k
  st_take_call :: bool

record 'o stage_out =
  st_process_call :: bool
  st_in_take_call :: bool
  st_peek_rdy :: bool
  st_peek_msg :: 'o

text \<open>\<open>PipelineStage\<close> around its valid-value manager; \<open>vvm_add_rdy\<close> depends only on the kill message
  and the take call, so it is read before the add is decided.\<close>

definition stage_step ::
  "('o, 'k) drop_controller \<Rightarrow> ('o vvm, ('i, 'o, 'k) stage_in, 'o stage_out) machine" where
  "stage_step check s i =
     (let (process_out, process_accepted) = st_process i (st_in_peek_msg i);
          base = \<lparr> vv_kill_msg = st_kill_msg i, vv_take_call = st_take_call i, vv_add_call = False,
                   vv_add_msg = process_out, vv_add_dead = False \<rparr>;
          output_clear = vv_add_rdy (snd (vvm_step False check s base));
          advance = (output_clear \<and> st_in_peek_rdy i);
          taking = (advance \<and> process_accepted);
          (s', out) = vvm_step False check s (base\<lparr>vv_add_call := taking\<rparr>)
      in (s', \<lparr> st_process_call = advance, st_in_take_call = taking,
                st_peek_rdy = vv_peek_rdy out, st_peek_msg = vv_peek_msg out \<rparr>))"

text \<open>The messages a run of the stage accepts and the messages its consumer takes.\<close>

fun stage_accepted :: "('i, 'o, 'k) stage_in list \<Rightarrow> 'o stage_out list \<Rightarrow> 'o list" where
  "stage_accepted (i # is) (out # outs) =
     (if st_in_take_call out then [fst (st_process i (st_in_peek_msg i))] else []) @ stage_accepted is outs"
| "stage_accepted _ _ = []"

fun stage_taken :: "('i, 'o, 'k) stage_in list \<Rightarrow> 'o stage_out list \<Rightarrow> 'o list" where
  "stage_taken (i # is) (out # outs) =
     (if st_take_call i \<and> st_peek_rdy out then [st_peek_msg out] else []) @ stage_taken is outs"
| "stage_taken _ _ = []"

definition contents :: "'a option \<Rightarrow> 'a list" where
  "contents b = (case b of None \<Rightarrow> [] | Some a \<Rightarrow> [a])"

lemma stage_step_buffer:
  "let b' = survives check (st_kill_msg i) (vvm_abs s);
       (s', out) = stage_step check s i
   in st_peek_rdy out = (b' \<noteq> None) \<and> (b' \<noteq> None \<longrightarrow> st_peek_msg out = the b') \<and>
      st_process_call out = ((b' = None \<or> st_take_call i) \<and> st_in_peek_rdy i) \<and>
      st_in_take_call out = (st_process_call out \<and> snd (st_process i (st_in_peek_msg i))) \<and>
      vvm_abs s' = (if st_in_take_call out then Some (fst (st_process i (st_in_peek_msg i)))
                    else if st_take_call i then None else b')"
  by (auto simp: stage_step_def vvm_step_def vvm_abs_def Let_def split: prod.splits)

lemma stage_step_fifo:
  assumes "stage_step null_drop s i = (s', out)"
  shows "contents (vvm_abs s) @ stage_accepted [i] [out] =
         stage_taken [i] [out] @ contents (vvm_abs s')"
  using stage_step_buffer [of null_drop i s] assms
  by (cases "vvm_abs s") (auto simp: Let_def null_drop_def contents_def)

section \<open>Drop unit\<close>

record 'a drop_in =
  du_drop_call :: bool
  du_output_call :: bool
  du_input_rdy :: bool
  du_input_data :: 'a

record 'a drop_out =
  du_drop_rdy :: bool
  du_occurred :: bool
  du_output_rdy :: bool
  du_output_data :: 'a
  du_input_call :: bool

definition drop_unit_step :: "(bool, 'a drop_in, 'a drop_out) machine" where
  "drop_unit_step drop_pending i =
     (let curr = (drop_pending \<or> du_drop_call i);
          occurred = (curr \<and> du_input_rdy i);
          (input_call, output_rdy, pending') =
            (if occurred then (True, False, False)
             else if curr then (False, False, True)
             else (du_output_call i, du_input_rdy i, False))
      in (pending', \<lparr> du_drop_rdy = (\<not> drop_pending), du_occurred = occurred, du_output_rdy = output_rdy,
                      du_output_data = du_input_data i, du_input_call = input_call \<rparr>))"

text \<open>The environment calls \<open>drop\<close> and \<open>output\<close> only when they are ready.\<close>

definition drop_unit_ok :: "bool \<Rightarrow> 'a drop_in \<Rightarrow> bool" where
  "drop_unit_ok s i \<longleftrightarrow>
     (du_drop_call i \<longrightarrow> du_drop_rdy (snd (drop_unit_step s i))) \<and>
     (du_output_call i \<longrightarrow> du_output_rdy (snd (drop_unit_step s i)))"

section \<open>Pipeline splitter and arbiter\<close>

text \<open>The splitter shows the message to the client the sorting method names and forwards that
  client's take (\<open>None\<close>: the multiplexer's assertion fails).\<close>

definition splitter :: "'p::len word \<Rightarrow> bool \<Rightarrow> 'a \<Rightarrow> bool list \<Rightarrow> (bool \<times> 'a) list \<times> bool option" where
  "splitter sort_pipe in_peek_rdy in_peek_msg take_calls =
     (map (\<lambda>i. (unat sort_pipe = i \<and> in_peek_rdy, in_peek_msg)) [0..<length take_calls],
      mux take_calls sort_pipe)"

definition pipeline_arbiter ::
  "(bool \<times> 'a::zero) list \<Rightarrow> bool \<Rightarrow> 'n::len itself \<Rightarrow> bool \<times> 'a \<times> bool list" where
  "pipeline_arbiter inputs take_call n =
     (let grant = priority_arbiter_grant (word_bits (\<lambda>i. fst (inputs ! i)) :: 'n word);
          (msg, matched) = case_mux (map (\<lambda>i. push_bit i 1) [0..<LENGTH('n)]) (map snd inputs) 0 grant
      in (grant \<noteq> 0, msg, map (\<lambda>i. bit grant i \<and> take_call) [0..<LENGTH('n)]))"

section \<open>Properties\<close>

text \<open>The valid-value manager is a one-place buffer: on every sequence of kills, takes and adds,
  with any drop controller, it shows exactly the message of a buffer to which each cycle's kill
  is applied first, then the take, then the add.\<close>

theorem vvm_refines_buffer:
  "map vvm_view (run (vvm_step False check) s is) = run (buffer_step check) (vvm_abs s) is"
  using vvm.run_refines [of s "vvm_abs s" check "is"]
  by (simp add: run_map_output runs_ok_always)

text \<open>C33: a stage that drops nothing loses, duplicates and reorders nothing: on every run, what it held
  and accepted is what its consumer took, in order, followed by what it still holds.\<close>

theorem stage_fifo:
  "contents (vvm_abs s) @ stage_accepted is (run (stage_step null_drop) s is) =
   stage_taken is (run (stage_step null_drop) s is) @ contents (vvm_abs (final (stage_step null_drop) s is))"
proof (induction "is" arbitrary: s)
  case (Cons i "is")
  obtain s' out where step: "stage_step null_drop s i = (s', out)" by force
  have "contents (vvm_abs s) @ stage_accepted [i] [out] @ stage_accepted is (run (stage_step null_drop) s' is) =
        stage_taken [i] [out] @ contents (vvm_abs s') @ stage_accepted is (run (stage_step null_drop) s' is)"
    using stage_step_fifo [OF step] by (metis append.assoc)
  then show ?case using Cons.IH [of s'] step by simp
qed simp

text \<open>After a kill, the message a stage shows carried no killed branch and lost exactly the cleared
  ones, and a stage whose message was killed or taken can accept a new one in the same cycle.\<close>

theorem stage_kill_exact:
  assumes "vvm_abs s = Some a"
  shows "let (s', out) = stage_step (pipeline_kill_drop get_mask set_mask) s i; k = st_kill_msg i;
             dead = (get_mask a AND kill_mask k \<noteq> 0 \<or> kill_force k)
         in st_peek_rdy out = (\<not> dead) \<and>
            (\<not> dead \<longrightarrow> st_peek_msg out = set_mask (get_mask a AND NOT (clear_mask k)) a) \<and>
            st_process_call out = ((dead \<or> st_take_call i) \<and> st_in_peek_rdy i)"
  using stage_step_buffer [of "pipeline_kill_drop get_mask set_mask" i s] assms
  by (auto simp: Let_def pipeline_kill_drop_def kill_drop_def split: prod.splits)

theorem stage_kill_exact_witness:
  "let s = \<lparr> vv_val = True, vv_out = (6 :: 4 word, ''m''), vv_dead = False \<rparr>;
       i = \<lparr> st_in_peek_rdy = True, st_in_peek_msg = (), st_process = (\<lambda>_. ((0, ''n''), True)),
             st_kill_msg = \<lparr> kill_force = False, kill_mask = 2, clear_mask = 4 \<rparr>, st_take_call = False \<rparr>
   in \<not> st_peek_rdy (snd (stage_step (pipeline_kill_drop fst (\<lambda>m a. (m, snd a))) s i))"
  using stage_kill_exact [of "\<lparr> vv_val = True, vv_out = (6 :: 4 word, ''m''), vv_dead = False \<rparr>"
      "(6, ''m'')" fst "\<lambda>m a. (m, snd a)"
      "\<lparr> st_in_peek_rdy = True, st_in_peek_msg = (), st_process = (\<lambda>_. ((0, ''n''), True)),
         st_kill_msg = \<lparr> kill_force = False, kill_mask = 2, clear_mask = 4 \<rparr>, st_take_call = False \<rparr>"]
  by (simp add: vvm_abs_def Let_def split: prod.splits)

text \<open>Every drop request consumes exactly one input message and nothing else is consumed: along
  every run that respects the ready signals, the messages taken from the input are those given to
  the output and the dropped ones, and the requests are the completed drops and the one pending.\<close>

theorem drop_unit_accounting:
  assumes "runs_ok drop_unit_step drop_unit_ok s is"
  defines "outs \<equiv> run drop_unit_step s is"
  shows "length (filter du_input_call outs) =
           length (filter du_occurred outs) +
           length (filter (\<lambda>(i, out). du_output_call i \<and> du_output_rdy out) (zip is outs)) \<and>
         length (filter du_drop_call is) + of_bool s =
           length (filter du_occurred outs) + of_bool (final drop_unit_step s is)"
  using assms(1) unfolding outs_def
proof (induction "is" arbitrary: s)
  case (Cons i "is")
  let ?s = "fst (drop_unit_step s i)"
  have "runs_ok drop_unit_step drop_unit_ok ?s is" "drop_unit_ok s i" using Cons.prems by auto
  then show ?case
    using Cons.IH [of ?s]
    by (cases s; cases "du_drop_call i"; cases "du_input_rdy i"; cases "du_output_call i")
       (simp_all add: drop_unit_step_def [of _ i] drop_unit_ok_def [of _ i])
qed simp

theorem drop_unit_accounting_witness:
  "let is = [\<lparr> du_drop_call = True, du_output_call = False, du_input_rdy = False, du_input_data = ''a'' \<rparr>,
             \<lparr> du_drop_call = False, du_output_call = False, du_input_rdy = True, du_input_data = ''b'' \<rparr>,
             \<lparr> du_drop_call = False, du_output_call = True, du_input_rdy = True, du_input_data = ''c'' \<rparr>]
   in length (filter du_input_call (run drop_unit_step False is)) = 2"
  using drop_unit_accounting [of False
      "[\<lparr> du_drop_call = True, du_output_call = False, du_input_rdy = False, du_input_data = ''a'' \<rparr>,
        \<lparr> du_drop_call = False, du_output_call = False, du_input_rdy = True, du_input_data = ''b'' \<rparr>,
        \<lparr> du_drop_call = False, du_output_call = True, du_input_rdy = True, du_input_data = ''c'' \<rparr>]"]
  by (simp add: drop_unit_ok_def drop_unit_step_def)

text \<open>The pipeline arbiter shows the message of the ready client with the lowest index, calls take on
  that client and no other, and is ready exactly when some client is.\<close>

theorem pipeline_arbiter_lowest:
  fixes inputs :: "(bool \<times> 'a::zero) list"
  assumes "length inputs = LENGTH('n::len)"
  shows "case find (\<lambda>i. fst (inputs ! i)) [0..<length inputs] of
           Some k \<Rightarrow> pipeline_arbiter inputs take_call TYPE('n) =
                       (True, snd (inputs ! k), map (\<lambda>i. i = k \<and> take_call) [0..<length inputs])
         | None \<Rightarrow> pipeline_arbiter inputs take_call TYPE('n) =
                     (False, 0, map (\<lambda>_. False) [0..<length inputs])"
proof -
  let ?reqs = "word_bits (\<lambda>i. fst (inputs ! i)) :: 'n word"
  let ?sv = "map (\<lambda>i. push_bit i 1 :: 'n word) [0..<LENGTH('n)]"
  have fs: "first_set ?reqs = find (\<lambda>i. fst (inputs ! i)) [0..<length inputs]"
    unfolding first_set_def assms by (rule find_cong) auto
  have inj: "push_bit i 1 = (push_bit j 1 :: 'n word) \<longleftrightarrow> i = j" if "i < LENGTH('n)" for i j
    using that by (metis bit_exp_word push_bit_of_1)
  have dist: "distinct ?sv" by (auto simp: distinct_map inj_on_def inj simp del: push_bit_of_1)
  show ?thesis
  proof (cases "find (\<lambda>i. fst (inputs ! i)) [0..<length inputs]")
    case None
    have "0 \<notin> set ?sv" by (auto simp: word_neq_0_bit [symmetric])
    then have "case_mux ?sv (map snd inputs) 0 0 = (0, False)"
      unfolding case_mux_def by (intro case_mux_chain_miss) auto
    then show ?thesis
      using None fs assms by (auto simp: pipeline_arbiter_def parb.grant_eq)
  next
    case (Some k)
    then have k: "k < LENGTH('n)" using fs first_set_less by fastforce
    have "case_mux ?sv (map snd inputs) 0 (?sv ! k) = (map snd inputs ! k, True)"
      unfolding case_mux_def using k by (intro case_mux_chain_hit dist) auto
    then have "case_mux ?sv (map snd inputs) 0 (push_bit k 1) = (snd (inputs ! k), True)"
      using k assms by simp
    moreover have "priority_arbiter_grant ?reqs = push_bit k 1"
      using Some fs by (simp add: parb.grant_eq)
    ultimately show ?thesis
      using Some assms k by (auto simp: pipeline_arbiter_def word_neq_0_bit)
  qed
qed

theorem pipeline_arbiter_lowest_witness:
  "pipeline_arbiter [(False, 4 :: nat), (True, 5), (True, 6)] True TYPE(3) =
   (True, 5, [False, True, False])"
  using pipeline_arbiter_lowest [of "[(False, 4 :: nat), (True, 5), (True, 6)]" True, where ?'n = 3]
  by (simp add: upt_rec)

end
