(* ===== verification/Rob.thy ===== *)
theory Rob
  imports Registers Pipeline
begin

text \<open>
  In-order bookkeeping of the instructions in flight: \<open>sequence_allocator.py\<close> and
  \<open>reorder_buffer.py\<close> of \<open>lizard/util/rtl\<close>. The sequence number has \<open>'n\<close> bits and the entry count
  one bit more, the width \<open>'m\<close>.
\<close>

section \<open>Sequence allocator\<close>

record ('n, 'm) seq_alloc =
  sa_tail :: 'n
  sa_head :: 'n
  sa_num :: 'm

record 'n seq_in =
  sa_allocate_call :: bool
  sa_free_call :: bool
  sa_rollback_call :: bool
  sa_rollback_idx :: 'n

record 'n seq_out =
  sa_allocate_rdy :: bool
  sa_allocate_idx :: 'n
  sa_get_head_rdy :: bool
  sa_get_head_idx :: 'n
  sa_free_rdy :: bool

definition seq_alloc_step ::
  "(('n::len word, 'm::len word) seq_alloc, 'n word seq_in, 'n word seq_out) machine" where
  "seq_alloc_step s i =
     (let max_entries = push_bit LENGTH('n) 1 :: 'm word;
          full = (sa_num s = max_entries); empty = (sa_num s = 0);
          tail_write = (sa_allocate_call i \<or> sa_rollback_call i);
          tail_next = (if sa_rollback_call i then sa_rollback_idx i + 1 else sa_tail s + 1);
          head_next = (if sa_free_call i then sa_head s + 1 else sa_head s);
          delta = tail_next - head_next;
          num_write = (tail_write \<or> sa_free_call i);
          num_data =
            (if sa_rollback_call i
             then (if delta = 0 \<and> sa_rollback_idx i \<noteq> sa_head s then max_entries else ucast delta)
             else if sa_allocate_call i \<noteq> sa_free_call i
             then (if sa_allocate_call i then sa_num s + 1
                   else if sa_free_call i then sa_num s - 1 else sa_num s)
             else sa_num s)
      in (\<lparr> sa_tail = (if tail_write then tail_next else sa_tail s),
            sa_head = (if sa_free_call i then head_next else sa_head s),
            sa_num = (if num_write then num_data else sa_num s) \<rparr>,
          \<lparr> sa_allocate_rdy = (\<not> full), sa_allocate_idx = sa_tail s, sa_get_head_rdy = (\<not> empty),
            sa_get_head_idx = sa_head s, sa_free_rdy = (\<not> empty) \<rparr>))"

definition seq_alloc_reset :: "('n::len word, 'm::len word) seq_alloc" where
  "seq_alloc_reset = \<lparr> sa_tail = 0, sa_head = 0, sa_num = 0 \<rparr>"

text \<open>
  The contract: a queue of sequence numbers and the number that comes next. A rollback to a queued
  number drops everything after it; the free of the same cycle then removes the head.
\<close>

type_synonym 'n seq_queue = "'n list \<times> 'n"

fun keep_through :: "'a \<Rightarrow> 'a list \<Rightarrow> 'a list" where
  "keep_through x [] = []"
| "keep_through x (y # ys) = (if x = y then [y] else y # keep_through x ys)"

definition seq_queue_step :: "('n::len word seq_queue, 'n word seq_in, 'n word seq_out) machine" where
  "seq_queue_step st i =
     (let (q, nxt) = st;
          (q1, nxt') =
            (if sa_rollback_call i then (keep_through (sa_rollback_idx i) q, sa_rollback_idx i + 1)
             else if sa_allocate_call i then (q @ [nxt], nxt + 1) else (q, nxt))
      in ((if sa_free_call i then tl q1 else q1, nxt'),
          \<lparr> sa_allocate_rdy = (length q < 2 ^ LENGTH('n)), sa_allocate_idx = nxt,
            sa_get_head_rdy = (q \<noteq> []), sa_get_head_idx = (case q of [] \<Rightarrow> nxt | x # _ \<Rightarrow> x),
            sa_free_rdy = (q \<noteq> []) \<rparr>))"

definition seq_queue_ok :: "'n::len word seq_queue \<Rightarrow> 'n word seq_in \<Rightarrow> bool" where
  "seq_queue_ok st i \<longleftrightarrow>
     (sa_allocate_call i \<longrightarrow> length (fst st) < 2 ^ LENGTH('n)) \<and>
     (sa_free_call i \<longrightarrow> fst st \<noteq> []) \<and>
     (sa_rollback_call i \<longrightarrow> sa_rollback_idx i \<in> set (fst st))"

text \<open>The numbers from a head onwards, wrapping around.\<close>

definition seq_from :: "'n::len word \<Rightarrow> nat \<Rightarrow> 'n word list" where
  "seq_from h n = map (\<lambda>k. h + of_nat k) [0..<n]"

lemma seq_from_simps [simp]:
  "seq_from h 0 = []" "length (seq_from h n) = n" "k < n \<Longrightarrow> seq_from h n ! k = h + of_nat k"
  "seq_from h n = [] \<longleftrightarrow> n = 0"
  by (simp_all add: seq_from_def)

lemma seq_from_Suc: "seq_from h (Suc n) = seq_from h n @ [h + of_nat n]"
  by (simp add: seq_from_def)

lemma seq_from_Cons: "seq_from h (Suc n) = h # seq_from (h + 1) n"
  by (rule nth_equalityI) (auto simp: nth_Cons' seq_from_def algebra_simps simp del: upt_Suc)

lemma seq_from_shift: "0 < n \<Longrightarrow> seq_from (h + 1) (n - Suc 0) @ [h + of_nat n] = seq_from (h + 1) n"
  by (cases n) (simp_all add: seq_from_Suc algebra_simps)

lemma seq_from_tl: "tl (seq_from h n) = seq_from (h + 1) (n - 1)"
  by (cases n) (simp_all add: seq_from_Cons)

lemma seq_from_inj:
  assumes "n \<le> 2 ^ LENGTH('n)" and "j < n" "k < n" and "(h :: 'n::len word) + of_nat j = h + of_nat k"
  shows "j = k"
proof -
  have "(of_nat j :: 'n word) = of_nat k" using assms(4) by simp
  then show ?thesis using assms(1-3) by (metis unat_of_nat_small less_le_trans)
qed

lemma keep_through_seq:
  assumes "n \<le> 2 ^ LENGTH('n)" and "k < n"
  shows "keep_through ((h :: 'n::len word) + of_nat k) (seq_from h n) = seq_from h (Suc k)"
  using assms
proof (induction k arbitrary: h n)
  case 0
  then obtain m where "n = Suc m" by (cases n) auto
  then show ?case by (simp add: seq_from_Cons)
next
  case (Suc k)
  then obtain m where m: "n = Suc m" "k < m" by (cases n) auto
  have "h + of_nat (Suc k) \<noteq> h"
    using seq_from_inj [of n "Suc k" 0 h] Suc.prems by auto
  moreover have "keep_through (h + 1 + of_nat k) (seq_from (h + 1) m) = seq_from (h + 1) (Suc k)"
    using Suc.prems m by (intro Suc.IH) auto
  ultimately show ?case
    by (simp add: m(1) seq_from_Cons [of h] algebra_simps del: of_nat_Suc) (simp add: algebra_simps)
qed

text \<open>Correspondence: head, tail and count describe the queue.\<close>

definition seq_related :: "('n::len word, 'm::len word) seq_alloc \<Rightarrow> 'n word seq_queue \<Rightarrow> bool" where
  "seq_related s st \<longleftrightarrow>
     LENGTH('m) = Suc LENGTH('n) \<and> unat (sa_num s) \<le> 2 ^ LENGTH('n) \<and>
     fst st = seq_from (sa_head s) (unat (sa_num s)) \<and>
     snd st = sa_head s + of_nat (unat (sa_num s)) \<and> sa_tail s = snd st"

lemma seq_max_entries:
  assumes "LENGTH('m) = Suc LENGTH('n)"
  shows "(num :: 'm::len word) = push_bit LENGTH('n::len) 1 \<longleftrightarrow> unat num = 2 ^ LENGTH('n)"
    and "unat (push_bit LENGTH('n) 1 :: 'm word) = 2 ^ LENGTH('n)"
proof -
  show "unat (push_bit LENGTH('n) 1 :: 'm word) = 2 ^ LENGTH('n)"
    using assms by (simp add: unat_exp_small)
  then show "num = push_bit LENGTH('n) 1 \<longleftrightarrow> unat num = 2 ^ LENGTH('n)"
    by (metis unsigned_word_eqI)
qed

lemma unat_ucast_of_nat:
  "LENGTH('m) = Suc LENGTH('n) \<Longrightarrow> k < 2 ^ LENGTH('n) \<Longrightarrow>
   unat (ucast (of_nat k :: 'n::len word) :: 'm::len word) = k"
  by (simp add: unat_of_nat_small unsigned_ucast_eq take_bit_nat_eq_self less_Suc_eq_le)

lemma of_nat_eq_0_small: "k < 2 ^ LENGTH('n) \<Longrightarrow> (of_nat k :: 'n::len word) = 0 \<longleftrightarrow> k = 0"
  using word_eq_of_nat_iff [of k "0 :: 'n word"] by auto

lemma two_le_exp: "2 \<le> (2 :: nat) ^ LENGTH('n::len)"
  using power_increasing [of 1 "LENGTH('n)" "2 :: nat"] by (simp add: Suc_le_eq)

text \<open>The count after a rollback to the element at position \<open>k\<close>.\<close>

lemma seq_rollback_num:
  assumes len: "LENGTH('m) = Suc LENGTH('n)" and k: "k < 2 ^ LENGTH('n)"
    and delta: "delta = (h + of_nat k + 1) - (if fr then h + 1 else h :: 'n::len word)"
  shows "unat (if delta = 0 \<and> h + of_nat k \<noteq> h then push_bit LENGTH('n) 1 else ucast delta :: 'm::len word) =
         (if fr then k else Suc k)"
proof (cases fr)
  case True
  then have "delta = of_nat k" by (simp add: delta)
  then show ?thesis
    using True of_nat_eq_0_small [OF k] unat_ucast_of_nat [OF len k] by auto
next
  case False
  then have d: "delta = of_nat (Suc k)" by (simp add: delta)
  show ?thesis
  proof (cases "Suc k < 2 ^ LENGTH('n)")
    case True
    then show ?thesis
      using False of_nat_eq_0_small [OF True] unat_ucast_of_nat [OF len True]
      by (simp add: d del: of_nat_Suc)
  next
    case full: False
    then have "Suc k = 2 ^ LENGTH('n)" using k by simp
    then have "delta = 0" unfolding d by (simp del: of_nat_Suc)
    moreover have "k \<noteq> 0" using two_le_exp [where ?'n = 'n] \<open>Suc k = 2 ^ LENGTH('n)\<close> by auto
    then have "h + of_nat k \<noteq> h" using of_nat_eq_0_small [OF k] by simp
    ultimately show ?thesis
      using False \<open>Suc k = 2 ^ LENGTH('n)\<close> seq_max_entries(2) [OF len] by simp
  qed
qed

lemma unat_num_bounds:
  assumes "LENGTH('m) = Suc LENGTH('n::len)" and "unat (num :: 'm::len word) \<le> 2 ^ LENGTH('n)"
  shows "unat (num + 1) = Suc (unat num)" and "num \<noteq> 0 \<Longrightarrow> unat (num - 1) = unat num - 1"
proof -
  have "unat num + 1 < 2 ^ LENGTH('m)"
    using assms two_le_exp [where ?'n = 'n] by simp
  then show "unat (num + 1) = Suc (unat num)" by (simp add: unat_word_ariths)
  show "num \<noteq> 0 \<Longrightarrow> unat (num - 1) = unat num - 1"
    by (metis unat_minus_one)
qed

lemma seq_alloc_step_queue:
  assumes R: "seq_related s st" and ok: "seq_queue_ok st i"
  shows "snd (seq_alloc_step s i) = snd (seq_queue_step st i)"
    and "seq_related (fst (seq_alloc_step s i)) (fst (seq_queue_step st i))"
proof -
  obtain h t num q nxt where s: "s = \<lparr> sa_tail = t, sa_head = h, sa_num = num \<rparr>" and st: "st = (q, nxt)"
    by (cases s; cases st) auto
  define n where "n = unat num"
  from R have len: "LENGTH('b) = Suc LENGTH('a)" and n: "n \<le> 2 ^ LENGTH('a)"
    and q: "q = seq_from h n" and nxt: "nxt = h + of_nat n" and t: "t = nxt"
    by (auto simp: seq_related_def s st n_def)
  have num0: "num = 0 \<longleftrightarrow> n = 0" by (simp add: n_def unat_eq_0)
  show "snd (seq_alloc_step s i) = snd (seq_queue_step st i)"
    using n num0 seq_max_entries(1) [OF len, of num]
    by (cases n) (auto simp: seq_alloc_step_def seq_queue_step_def s st q t nxt n_def [symmetric] Let_def
        seq_from_Cons split: prod.splits)
  note bounds = unat_num_bounds [OF len, of num, folded n_def, OF n]
  show "seq_related (fst (seq_alloc_step s i)) (fst (seq_queue_step st i))"
  proof (cases "sa_rollback_call i")
    case True
    then obtain k where k: "k < n" "sa_rollback_idx i = h + of_nat k"
      using ok by (auto simp: seq_queue_ok_def st q seq_from_def)
    have k': "k < 2 ^ LENGTH('a)" using k n by simp
    have num: "sa_num (fst (seq_alloc_step s i)) = (let delta = (h + of_nat k + 1) - (if sa_free_call i then h + 1 else h)
        in if delta = 0 \<and> h + of_nat k \<noteq> h then push_bit LENGTH('a) 1 else ucast delta)"
      using True by (simp add: seq_alloc_step_def s k(2) Let_def)
    have "unat (sa_num (fst (seq_alloc_step s i))) = (if sa_free_call i then k else Suc k)"
      unfolding num Let_def by (rule seq_rollback_num [OF len k' refl])
    moreover have "keep_through (h + of_nat k) q = seq_from h (Suc k)"
      unfolding q by (rule keep_through_seq [OF n k(1)])
    ultimately show ?thesis
      using True len k k' n
      by (auto simp: seq_related_def seq_queue_step_def st s seq_from_tl seq_alloc_step_def Let_def)
  next
    case False
    then show ?thesis
      using ok len n q nxt t bounds num0
      by (cases "sa_allocate_call i"; cases "sa_free_call i")
         (auto simp: seq_related_def seq_queue_step_def seq_queue_ok_def st s seq_alloc_step_def Let_def
            n_def [symmetric] seq_from_Suc seq_from_tl seq_from_shift simp flip: seq_from_Suc)
  qed
qed

interpretation seq_alloc: cycle_refinement seq_alloc_step seq_queue_step seq_related seq_queue_ok
  by unfold_locales (auto simp: seq_alloc_step_queue)

lemma seq_alloc_reset_related:
  "LENGTH('m) = Suc LENGTH('n) \<Longrightarrow>
   seq_related (seq_alloc_reset :: ('n::len word, 'm::len word) seq_alloc) ([], 0)"
  by (simp add: seq_related_def seq_alloc_reset_def)

section \<open>Reorder buffer\<close>

text \<open>The entries live in an asynchronous RAM with one read and one write port, their validity and
  kill data in one valid-value manager per entry; a \<open>None\<close> output is a read outside the table.\<close>

record ('e, 'o) rob =
  rob_entries :: "'e list"
  rob_valids :: "'o vvm list"

record ('i, 'e, 'o, 'k) rob_in =
  rob_add_call :: bool
  rob_add_idx :: 'i
  rob_add_value :: 'e
  rob_add_kill_opaque :: 'o
  rob_check_done_idx :: 'i
  rob_peek_idx :: 'i
  rob_free_call :: bool
  rob_kill_msg :: 'k

definition rob_vvm_in :: "('i::len word, 'e, 'o, 'k) rob_in \<Rightarrow> 'n::len itself \<Rightarrow> nat \<Rightarrow> ('o, 'k) vvm_in" where
  "rob_vvm_in i n k =
     \<lparr> vv_kill_msg = rob_kill_msg i,
       vv_take_call = bit (one_hot_encoder True (rob_free_call i) (rob_peek_idx i) :: 'n word) k,
       vv_add_call = bit (one_hot_encoder True (rob_add_call i) (rob_add_idx i) :: 'n word) k,
       vv_add_msg = rob_add_kill_opaque i, vv_add_dead = False \<rparr>"

definition rob_step ::
  "('o, 'k) drop_controller \<Rightarrow> 'n::len itself \<Rightarrow> ('e, 'o) rob \<Rightarrow> ('i::len word, 'e, 'o, 'k) rob_in
     \<Rightarrow> (('e, 'o) rob \<times> bool option \<times> 'e option) option" where
  "rob_step check n s i = do {
     (entries, reads) \<leftarrow> async_ram_step False (rob_entries s)
       \<lparr> ar_read_addr = [rob_peek_idx i],
         ar_write = [(rob_add_call i, rob_add_idx i, rob_add_value i)] \<rparr>;
     let ticked = map (\<lambda>k. vvm_step False check (rob_valids s ! k) (rob_vvm_in i n k))
                    [0..<length (rob_valids s)];
     Some (\<lparr> rob_entries = entries, rob_valids = map fst ticked \<rparr>,
           mux (map (vv_peek_rdy \<circ> snd) ticked) (rob_check_done_idx i), hd reads) }"

text \<open>The contract: a finite map from sequence numbers to a value and its kill data.\<close>

type_synonym ('e, 'o) rob_map = "nat \<rightharpoonup> 'e \<times> 'o"

definition rob_map_kill :: "('o, 'k) drop_controller \<Rightarrow> 'k \<Rightarrow> ('e, 'o) rob_map \<Rightarrow> ('e, 'o) rob_map" where
  "rob_map_kill check msg m k =
     (case m k of None \<Rightarrow> None
      | Some (v, opq) \<Rightarrow> map_option (Pair v) (survives check msg (Some opq)))"

definition rob_map_step ::
  "('o, 'k) drop_controller \<Rightarrow> ('e, 'o) rob_map \<Rightarrow> ('i::len word, 'e, 'o, 'k) rob_in \<Rightarrow> ('e, 'o) rob_map" where
  "rob_map_step check m i =
     (let live = rob_map_kill check (rob_kill_msg i) m;
          freed = (if rob_free_call i then live(unat (rob_peek_idx i) := None) else live)
      in if rob_add_call i
         then freed(unat (rob_add_idx i) \<mapsto> (rob_add_value i, rob_add_kill_opaque i)) else freed)"

definition rob_related :: "nat \<Rightarrow> ('e, 'o) rob \<Rightarrow> ('e, 'o) rob_map \<Rightarrow> bool" where
  "rob_related n s m \<longleftrightarrow>
     length (rob_entries s) = n \<and> length (rob_valids s) = n \<and> dom m \<subseteq> {..<n} \<and>
     (\<forall>k < n. vvm_abs (rob_valids s ! k) = map_option snd (m k) \<and>
              (\<forall>v opq. m k = Some (v, opq) \<longrightarrow> rob_entries s ! k = v))"

definition rob_ok :: "'n::len itself \<Rightarrow> ('i::len word, 'e, 'o, 'k) rob_in \<Rightarrow> bool" where
  "rob_ok n i \<longleftrightarrow> LENGTH('n) \<le> 2 ^ LENGTH('i) \<and>
     unat (rob_add_idx i) < LENGTH('n) \<and> unat (rob_check_done_idx i) < LENGTH('n) \<and>
     unat (rob_peek_idx i) < LENGTH('n)"

lemma rob_step_map:
  fixes i :: "('i::len word, 'e, 'o, 'k) rob_in"
  assumes R: "rob_related LENGTH('n) s m" and ok: "rob_ok TYPE('n::len) i"
  shows "\<exists>s' v. rob_step check TYPE('n) s i =
           Some (s', Some (rob_map_kill check (rob_kill_msg i) m (unat (rob_check_done_idx i)) \<noteq> None), Some v) \<and>
         (\<forall>w opq. m (unat (rob_peek_idx i)) = Some (w, opq) \<longrightarrow> v = w) \<and>
         rob_related LENGTH('n) s' (rob_map_step check m i)"
proof -
  let ?n = "LENGTH('n)" and ?p = "unat (rob_peek_idx i)" and ?a = "unat (rob_add_idx i)"
    and ?c = "unat (rob_check_done_idx i)"
  have w: "?n \<le> 2 ^ LENGTH('i)" and idx: "?a < ?n" "?c < ?n" "?p < ?n" using ok by (auto simp: rob_ok_def)
  have len: "length (rob_entries s) = ?n" "length (rob_valids s) = ?n"
    and abs: "k < ?n \<Longrightarrow> vvm_abs (rob_valids s ! k) = map_option snd (m k)"
    and val: "k < ?n \<Longrightarrow> m k = Some (v, opq) \<Longrightarrow> rob_entries s ! k = v" for k v opq
    using R by (auto simp: rob_related_def)
  have dom: "m k = Some x \<Longrightarrow> k < ?n" for k x using R by (auto simp: rob_related_def)
  let ?entries = "if rob_add_call i then (rob_entries s)[?a := rob_add_value i] else rob_entries s"
  let ?t = "\<lambda>k. vvm_step False check (rob_valids s ! k) (rob_vvm_in i TYPE('n) k)"
  let ?s' = "\<lparr> rob_entries = ?entries, rob_valids = map (fst \<circ> ?t) [0..<?n] \<rparr>"
  have kill: "survives check (rob_kill_msg i) (map_option snd (m k)) =
      map_option snd (rob_map_kill check (rob_kill_msg i) m k)" for k
    by (auto simp: rob_map_kill_def split: option.splits)
  have rdy: "vv_peek_rdy (snd (?t k)) = (rob_map_kill check (rob_kill_msg i) m k \<noteq> None)" if "k < ?n" for k
    using vvm_step_buffer(2) [of check "rob_valids s ! k" "rob_vvm_in i TYPE('n) k"] abs [OF that] kill [of k]
    by (cases "rob_map_kill check (rob_kill_msg i) m k")
       (auto simp: vvm_view_def buffer_step_def rob_vvm_in_def Let_def split: if_splits)
  have step: "rob_step check TYPE('n) s i =
      Some (?s', Some (rob_map_kill check (rob_kill_msg i) m ?c \<noteq> None), Some (rob_entries s ! ?p))"
    using idx len by (auto simp: rob_step_def async_ram_step_def async_ram_read_def list_read_def mux_def
        rdy comp_def)
  have next_abs: "vvm_abs (fst (?t k)) = map_option snd (rob_map_step check m i k)" if "k < ?n" for k
    using vvm_step_buffer(1) [of check "rob_valids s ! k" "rob_vvm_in i TYPE('n) k"] abs [OF that] kill [of k]
      that w
    by (auto simp: buffer_step_def rob_vvm_in_def Let_def bit_one_hot_encoder rob_map_step_def)
  have next_val: "?entries ! k = v" if "k < ?n" "rob_map_step check m i k = Some (v, opq)" for k v opq
    using that val [of k] len
    by (auto simp: rob_map_step_def rob_map_kill_def Let_def nth_list_update split: if_splits option.splits)
  have "dom (rob_map_step check m i) \<subseteq> {..<?n}"
    using dom idx
    by (auto simp: rob_map_step_def rob_map_kill_def Let_def split: if_splits option.splits)
  then have "rob_related ?n ?s' (rob_map_step check m i)"
    using len next_abs next_val by (auto simp: rob_related_def)
  then show ?thesis
    using step val [OF idx(3)] by (intro exI [of _ ?s'] exI [of _ "rob_entries s ! ?p"]) auto
qed

section \<open>Properties\<close>

text \<open>C6: from reset, the head, tail and count registers of the sequence allocator implement the queue
  of the numbers in flight: ready flags, allocated number and head agree in every cycle with a
  queue that appends, removes its head and, on a rollback, drops everything after the given
  number, for every index width and including allocate, free and rollback in one cycle.\<close>

theorem seq_alloc_refines_queue:
  assumes "LENGTH('m) = Suc LENGTH('n)" and "runs_ok seq_queue_step seq_queue_ok ([], 0) is"
  shows "run seq_alloc_step (seq_alloc_reset :: ('n::len word, 'm::len word) seq_alloc) is =
         run seq_queue_step ([], 0) is"
  using assms by (intro seq_alloc.run_refines seq_alloc_reset_related)

theorem seq_alloc_refines_queue_witness:
  "run seq_alloc_step (seq_alloc_reset :: (1 word, 2 word) seq_alloc)
     [\<lparr> sa_allocate_call = True, sa_free_call = False, sa_rollback_call = False, sa_rollback_idx = 0 \<rparr>,
      \<lparr> sa_allocate_call = True, sa_free_call = False, sa_rollback_call = False, sa_rollback_idx = 0 \<rparr>,
      \<lparr> sa_allocate_call = False, sa_free_call = True, sa_rollback_call = True, sa_rollback_idx = 0 \<rparr>] =
   run seq_queue_step ([], 0)
     [\<lparr> sa_allocate_call = True, sa_free_call = False, sa_rollback_call = False, sa_rollback_idx = 0 \<rparr>,
      \<lparr> sa_allocate_call = True, sa_free_call = False, sa_rollback_call = False, sa_rollback_idx = 0 \<rparr>,
      \<lparr> sa_allocate_call = False, sa_free_call = True, sa_rollback_call = True, sa_rollback_idx = 0 \<rparr>]"
  by (rule seq_alloc_refines_queue) (simp_all add: seq_queue_step_def seq_queue_ok_def)

text \<open>Numbers in flight are distinct and consecutive: after any history that obeys the protocol, the
  queue of the allocator holds at most \<open>2 ^ n\<close> different numbers counting up from the head.\<close>

theorem seq_alloc_distinct:
  assumes "LENGTH('m) = Suc LENGTH('n)" and "runs_ok seq_queue_step seq_queue_ok ([], 0) past"
  shows "let s = final seq_alloc_step (seq_alloc_reset :: ('n::len word, 'm::len word) seq_alloc) past
         in distinct (seq_from (sa_head s) (unat (sa_num s))) \<and> unat (sa_num s) \<le> 2 ^ LENGTH('n) \<and>
            fst (final seq_queue_step ([], 0) past) = seq_from (sa_head s) (unat (sa_num s)) \<and>
            sa_tail s = sa_head s + of_nat (unat (sa_num s))"
proof -
  let ?s = "final seq_alloc_step (seq_alloc_reset :: ('n word, 'm word) seq_alloc) past"
  have R: "seq_related ?s (final seq_queue_step ([], 0) past)"
    using seq_alloc.final_refines [OF seq_alloc_reset_related [OF assms(1)] assms(2)] .
  then have "distinct (seq_from (sa_head ?s) (unat (sa_num ?s)))"
    by (auto simp: seq_related_def distinct_conv_nth dest: seq_from_inj)
  then show ?thesis using R by (auto simp: seq_related_def Let_def)
qed

theorem seq_alloc_distinct_witness:
  "let s = final seq_alloc_step (seq_alloc_reset :: (2 word, 3 word) seq_alloc)
        [\<lparr> sa_allocate_call = True, sa_free_call = False, sa_rollback_call = False, sa_rollback_idx = 0 \<rparr>,
         \<lparr> sa_allocate_call = True, sa_free_call = True, sa_rollback_call = False, sa_rollback_idx = 0 \<rparr>]
   in distinct (seq_from (sa_head s) (unat (sa_num s)))"
  using seq_alloc_distinct [where ?'n = 2 and ?'m = 3 and past =
      "[\<lparr> sa_allocate_call = True, sa_free_call = False, sa_rollback_call = False, sa_rollback_idx = 0 \<rparr>,
        \<lparr> sa_allocate_call = True, sa_free_call = True, sa_rollback_call = False, sa_rollback_idx = 0 \<rparr>]"]
  by (simp add: seq_queue_step_def seq_queue_ok_def Let_def)

text \<open>The reorder buffer is a finite map from sequence numbers to values: whatever the drop
  controller, in every cycle whose indices lie in the table, the done flag tells whether the
  checked entry is present and alive after the kill of the cycle, a peeked entry shows its value,
  and the tables go on representing the map with the killed and freed entries removed and the
  added one present.\<close>

theorem rob_step_refines_map:
  fixes i :: "('i::len word, 'e, 'o, 'k) rob_in"
  assumes R: "rob_related LENGTH('n) s m" and ok: "rob_ok TYPE('n::len) i"
  shows "\<exists>s' v. rob_step check TYPE('n) s i =
           Some (s', Some (rob_map_kill check (rob_kill_msg i) m (unat (rob_check_done_idx i)) \<noteq> None), Some v) \<and>
         (\<forall>w opq. m (unat (rob_peek_idx i)) = Some (w, opq) \<longrightarrow> v = w) \<and>
         rob_related LENGTH('n) s' (rob_map_step check m i)"
  using assms by (rule rob_step_map)

theorem rob_step_refines_map_witness:
  "\<exists>s' v. rob_step null_drop TYPE(2)
      \<lparr> rob_entries = [''x'', ''y''], rob_valids = [vvm_reset (), \<lparr> vv_val = True, vv_out = (), vv_dead = False \<rparr>] \<rparr>
      \<lparr> rob_add_call = True, rob_add_idx = 0 :: 1 word, rob_add_value = ''z'', rob_add_kill_opaque = (),
        rob_check_done_idx = 1, rob_peek_idx = 1, rob_free_call = True, rob_kill_msg = () \<rparr> =
      Some (s', Some True, Some v) \<and> v = ''y''"
  using rob_step_refines_map [where ?'n = 2 and check = null_drop and m = "[1 \<mapsto> (''y'', ())]" and
      s = "\<lparr> rob_entries = [''x'', ''y''],
            rob_valids = [vvm_reset (), \<lparr> vv_val = True, vv_out = (), vv_dead = False \<rparr>] \<rparr>" and
      i = "\<lparr> rob_add_call = True, rob_add_idx = 0 :: 1 word, rob_add_value = ''z'', rob_add_kill_opaque = (),
        rob_check_done_idx = 1, rob_peek_idx = 1, rob_free_call = True, rob_kill_msg = () \<rparr>"]
  by (auto simp: rob_related_def rob_ok_def vvm_abs_def vvm_reset_def less_Suc_eq numeral_2_eq_2
      rob_map_kill_def null_drop_def)

end
