(* ===== verification/ControlFlow.thy ===== *)
theory ControlFlow
  imports Rob
begin

text \<open>
  Speculation control of \<open>lizard/core/rtl/controlflow.py\<close>. Every instruction is registered under a
  sequence number and under a branch mask, the set of the unresolved branches before it. Widths: data
  \<open>'x\<close>, sequence number \<open>'n\<close> (its count \<open>'m\<close>), snapshot id \<open>'s\<close>, branch mask \<open>'b\<close>, store id \<open>'t\<close>.
\<close>

section \<open>The control flow manager\<close>

record ('x, 'n, 'm, 'b) control_flow =
  cf_pc_pred :: "'x list"
  cf_seq :: "('n, 'm) seq_alloc"
  cf_reset_redirect_valid :: bool
  cf_kill_pend :: bool
  cf_reg_force :: bool
  cf_reg_kill :: 'b
  cf_reg_clear :: 'b
  cf_bmask :: 'b
  cf_serial :: bool

record ('x, 'n, 's, 'b, 't) control_flow_in =
  ci_redirect_call :: bool
  ci_redirect_seq :: 'n
  ci_redirect_spec_idx :: 's
  ci_redirect_branch_mask :: 'b
  ci_redirect_target :: 'x
  ci_redirect_force :: bool
  ci_register_call :: bool
  ci_register_speculative :: bool
  ci_register_serialize :: bool
  ci_register_store :: bool
  ci_register_pc_succ :: 'x
  ci_commit_call :: bool
  ci_commit_redirect_target :: 'x
  ci_commit_redirect :: bool
  ci_dflow_store_id_rdy :: bool
  ci_dflow_store_id :: 't
  ci_dflow_snapshot_rdy :: bool
  ci_dflow_snapshot_id :: 's

record ('x, 'n, 's, 'b, 't) control_flow_out =
  co_redirect :: bool
  co_redirect_target :: 'x
  co_register_seq :: 'n
  co_register_spec_idx :: 's
  co_register_branch_mask :: 'b
  co_register_store_id :: 't
  co_register_success :: bool
  co_get_head_rdy :: bool
  co_get_head_seq :: 'n
  co_dflow_get_store_id_call :: bool
  co_dflow_snapshot_call :: bool
  co_dflow_restore_call :: bool
  co_dflow_restore_source_id :: 's
  co_dflow_free_snapshot_call :: bool
  co_dflow_free_snapshot_id :: 's
  co_dflow_rollback_call :: bool

text \<open>The kill broadcast is registered: it is read from the state.\<close>

definition cf_check_kill :: "('x, 'n, 'm, 'b) control_flow \<Rightarrow> 'b kill_type" where
  "cf_check_kill s =
     \<lparr> kill_force = cf_reg_force s, kill_mask = cf_reg_kill s, clear_mask = cf_reg_clear s \<rparr>"

text \<open>\<open>handle_branch_redirection\<close>: the redirect, kill and clear signals. A read outside the table of
  predicted addresses is \<open>None\<close> and never the target.\<close>

definition cf_branch_redirect ::
  "('x::len word, 'n, 'm, 'b) control_flow \<Rightarrow> ('x word, 'n, 's::len word, 'b, 't) control_flow_in \<Rightarrow> bool" where
  "cf_branch_redirect s i =
     (ci_redirect_call i \<and>
      (async_ram_read False (cf_pc_pred s) [] (ci_redirect_spec_idx i) \<noteq> Some (ci_redirect_target i) \<or>
       ci_redirect_force i))"

definition cf_kill_masks ::
  "bool \<Rightarrow> ('x, 'n, 's::len word, 'b::len word, 't) control_flow_in \<Rightarrow> 'b word \<times> 'b word" where
  "cf_kill_masks branch_redirect i =
     (let redirect_mask = one_hot_encoder False False (ci_redirect_spec_idx i)
      in if branch_redirect then (redirect_mask OR NOT (ci_redirect_branch_mask i), 0)
         else if ci_redirect_call i then (0, redirect_mask)
         else (0, 0))"

definition cf_register_success ::
  "('x, 'n, 'm, 'b) control_flow \<Rightarrow> 'n seq_out \<Rightarrow> ('x, 'n, 's, 'b, 't) control_flow_in \<Rightarrow> bool" where
  "cf_register_success s seq i =
     (sa_allocate_rdy seq \<and>
      (\<not> ci_register_speculative i \<or> ci_dflow_snapshot_rdy i) \<and>
      (\<not> ci_register_store i \<or> ci_dflow_store_id_rdy i) \<and>
      (\<not> ci_register_serialize i \<or> \<not> sa_free_rdy seq) \<and>
      \<not> cf_serial s)"

definition cf_step ::
  "'x word \<Rightarrow> ('x::len word, 'n::len word, 'm::len word, 'b::len word) control_flow \<Rightarrow>
   ('x word, 'n word, 's::len word, 'b word, 't) control_flow_in \<Rightarrow>
   (('x word, 'n word, 'm word, 'b word) control_flow \<times>
    ('x word, 'n word, 's word, 'b word, 't) control_flow_out) option" where
  "cf_step reset_vector s i =
     do { let commit_redirect = (ci_commit_call i \<and> ci_commit_redirect i);
          let branch_redirect = cf_branch_redirect s i;
          let is_redirect = (cf_reset_redirect_valid s \<or> commit_redirect \<or> branch_redirect);
          let (kill_mask, clear_mask) = cf_kill_masks branch_redirect i;
          let seq_base = \<lparr> sa_allocate_call = False, sa_free_call = ci_commit_call i,
                           sa_rollback_call = (commit_redirect \<or> branch_redirect),
                           sa_rollback_idx = (if commit_redirect then sa_head (cf_seq s)
                                              else ci_redirect_seq i) \<rparr>;
          let seq_outs = snd (seq_alloc_step (cf_seq s) seq_base);
          let success = cf_register_success s seq_outs i;
          let register_success = (ci_register_call i \<and> success);
          let spec_register_success = (register_success \<and> ci_register_speculative i);
          let update_kills = (cf_kill_pend s \<or> is_redirect \<or> ci_redirect_call i);
          let bmask_curr = cf_bmask s AND NOT (kill_mask OR clear_mask);
          let bmask_next =
            (if commit_redirect then 0
             else if ci_register_speculative i
             then bmask_curr OR one_hot_encoder True spec_register_success (ci_dflow_snapshot_id i)
             else bmask_curr);
          pc_pred' \<leftarrow> async_ram_writes (cf_pc_pred s)
                        [(spec_register_success, ci_dflow_snapshot_id i, ci_register_pc_succ i)];
          Some
            (\<lparr> cf_pc_pred = pc_pred',
               cf_seq = fst (seq_alloc_step (cf_seq s) (seq_base\<lparr>sa_allocate_call := register_success\<rparr>)),
               cf_reset_redirect_valid = False,
               cf_kill_pend = (if update_kills then is_redirect \<or> ci_redirect_call i else cf_kill_pend s),
               cf_reg_force = (if update_kills
                               then branch_redirect \<and> ci_redirect_force i \<or> commit_redirect
                               else cf_reg_force s),
               cf_reg_kill = (if update_kills then kill_mask else cf_reg_kill s),
               cf_reg_clear = (if update_kills then clear_mask else cf_reg_clear s),
               cf_bmask = (if spec_register_success \<or> ci_redirect_call i \<or> commit_redirect
                           then bmask_next else cf_bmask s),
               cf_serial = (if register_success \<and> ci_register_serialize i \<or>
                               cf_serial s \<and> ci_commit_call i
                            then \<not> cf_serial s else cf_serial s) \<rparr>,
             \<lparr> co_redirect = is_redirect,
               co_redirect_target =
                 (if cf_reset_redirect_valid s then reset_vector
                  else if commit_redirect then ci_commit_redirect_target i
                  else ci_redirect_target i),
               co_register_seq = sa_allocate_idx seq_outs,
               co_register_spec_idx = ci_dflow_snapshot_id i,
               co_register_branch_mask = bmask_curr,
               co_register_store_id = ci_dflow_store_id i,
               co_register_success = success,
               co_get_head_rdy = sa_get_head_rdy seq_outs,
               co_get_head_seq = sa_get_head_idx seq_outs,
               co_dflow_get_store_id_call = (register_success \<and> ci_register_store i),
               co_dflow_snapshot_call = spec_register_success,
               co_dflow_restore_call = branch_redirect,
               co_dflow_restore_source_id = ci_redirect_spec_idx i,
               co_dflow_free_snapshot_call = ci_redirect_call i,
               co_dflow_free_snapshot_id = ci_redirect_spec_idx i,
               co_dflow_rollback_call = commit_redirect \<rparr>) }"

text \<open>The registers after a reset cycle: \<open>handle_reset\<close> leaves the redirect to the reset vector
  pending, the table of predicted addresses is not reset.\<close>

definition cf_reset :: "'x list \<Rightarrow> ('x, 'n::len word, 'm::len word, 'b::len word) control_flow" where
  "cf_reset pc_pred =
     \<lparr> cf_pc_pred = pc_pred, cf_seq = seq_alloc_reset, cf_reset_redirect_valid = True,
       cf_kill_pend = False, cf_reg_force = False, cf_reg_kill = 0, cf_reg_clear = 0, cf_bmask = 0,
       cf_serial = False \<rparr>"

section \<open>The contract: instructions in program order\<close>

text \<open>
  An instruction in flight has its sequence number, the snapshot id of the branch it is while that
  branch is unresolved, the address predicted after it and whether it is serialized. The list of them
  in program order is the whole state of the specification: the branch mask of an instruction is the
  set of unresolved branches before it, computed here and never stored.
\<close>

record ('x, 'n) flight_inst =
  fi_seq :: 'n
  fi_branch :: "nat option"
  fi_pred :: 'x
  fi_serial :: bool

record ('x, 'n) flight =
  fl_insts :: "('x, 'n) flight_inst list"
  fl_next :: 'n
  fl_boot :: bool

definition branch_bit :: "nat option \<Rightarrow> 'b::len word" where
  "branch_bit b = (case b of None \<Rightarrow> 0 | Some k \<Rightarrow> push_bit k 1)"

text \<open>Sequence number and branch mask of every instruction; \<open>older\<close> is the mask before the list.\<close>

fun flight_masks :: "'b::len word \<Rightarrow> ('x, 'n) flight_inst list \<Rightarrow> ('n \<times> 'b word) list" where
  "flight_masks older [] = []"
| "flight_masks older (x # xs) = (fi_seq x, older) # flight_masks (older OR branch_bit (fi_branch x)) xs"

fun unresolved_mask :: "('x, 'n) flight_inst list \<Rightarrow> 'b::len word" where
  "unresolved_mask [] = 0"
| "unresolved_mask (x # xs) = branch_bit (fi_branch x) OR unresolved_mask xs"

definition resolve :: "nat \<Rightarrow> ('x, 'n) flight_inst \<Rightarrow> ('x, 'n) flight_inst" where
  "resolve k x = (if fi_branch x = Some k then x\<lparr>fi_branch := None\<rparr> else x)"

fun flight_keep :: "'n \<Rightarrow> ('x, 'n) flight_inst list \<Rightarrow> ('x, 'n) flight_inst list" where
  "flight_keep s [] = []"
| "flight_keep s (x # xs) = (if fi_seq x = s then [x] else x # flight_keep s xs)"

text \<open>A branch is mispredicted when its target is not the predicted address.\<close>

definition flight_mispredict ::
  "('x, 'n) flight_inst list \<Rightarrow> ('x, 'n, 's::len word, 'b, 't) control_flow_in \<Rightarrow> bool" where
  "flight_mispredict insts i =
     (ci_redirect_call i \<and>
      (\<forall>x \<in> set insts. fi_branch x = Some (unat (ci_redirect_spec_idx i)) \<longrightarrow> fi_pred x \<noteq> ci_redirect_target i))"

definition flight_kept ::
  "('x, 'n) flight_inst list \<Rightarrow> ('x, 'n, 's::len word, 'b, 't) control_flow_in \<Rightarrow> ('x, 'n) flight_inst list" where
  "flight_kept insts i =
     (let resolved = (if ci_redirect_call i then map (resolve (unat (ci_redirect_spec_idx i))) insts else insts)
      in if flight_mispredict insts i then flight_keep (ci_redirect_seq i) resolved else resolved)"

definition flight_success ::
  "('x, 'n::len word) flight \<Rightarrow> ('x, 'n word, 's, 'b, 't) control_flow_in \<Rightarrow> bool" where
  "flight_success st i =
     (length (fl_insts st) < 2 ^ LENGTH('n) \<and>
      (ci_register_speculative i \<longrightarrow> ci_dflow_snapshot_rdy i) \<and>
      (ci_register_store i \<longrightarrow> ci_dflow_store_id_rdy i) \<and>
      (ci_register_serialize i \<longrightarrow> fl_insts st = []) \<and>
      \<not> list_ex fi_serial (fl_insts st))"

definition flight_step ::
  "'x \<Rightarrow> (('x, 'n::len word) flight, ('x, 'n word, 's::len word, 'b::len word, 't) control_flow_in,
    ('x, 'n word, 's word, 'b word, 't) control_flow_out \<times> ('n word \<times> 'b word) list) machine" where
  "flight_step reset_vector st i =
     (let insts = fl_insts st;
          commit_redirect = (ci_commit_call i \<and> ci_commit_redirect i);
          mispredict = flight_mispredict insts i;
          registered = (ci_register_call i \<and> flight_success st i);
          kept = flight_kept insts i;
          after = (if commit_redirect then [] else if ci_commit_call i then tl kept else kept);
          inst = \<lparr> fi_seq = fl_next st,
                   fi_branch = (if ci_register_speculative i then Some (unat (ci_dflow_snapshot_id i)) else None),
                   fi_pred = ci_register_pc_succ i, fi_serial = ci_register_serialize i \<rparr>;
          head = (case insts of [] \<Rightarrow> fl_next st | x # _ \<Rightarrow> fi_seq x)
      in (\<lparr> fl_insts = (if registered then after @ [inst] else after),
            fl_next = (if commit_redirect then head + 1 else if mispredict then ci_redirect_seq i + 1
                       else if registered then fl_next st + 1 else fl_next st),
            fl_boot = False \<rparr>,
          \<lparr> co_redirect = (fl_boot st \<or> commit_redirect \<or> mispredict),
            co_redirect_target =
              (if fl_boot st then reset_vector else if commit_redirect then ci_commit_redirect_target i
               else ci_redirect_target i),
            co_register_seq = fl_next st,
            co_register_spec_idx = ci_dflow_snapshot_id i,
            co_register_branch_mask = unresolved_mask kept,
            co_register_store_id = ci_dflow_store_id i,
            co_register_success = flight_success st i,
            co_get_head_rdy = (insts \<noteq> []),
            co_get_head_seq = head,
            co_dflow_get_store_id_call = (registered \<and> ci_register_store i),
            co_dflow_snapshot_call = (registered \<and> ci_register_speculative i),
            co_dflow_restore_call = mispredict,
            co_dflow_restore_source_id = ci_redirect_spec_idx i,
            co_dflow_free_snapshot_call = ci_redirect_call i,
            co_dflow_free_snapshot_id = ci_redirect_spec_idx i,
            co_dflow_rollback_call = commit_redirect \<rparr>,
          flight_masks 0 insts))"

text \<open>
  What the rest of the core promises: a redirect comes from an unresolved branch in flight with its own
  sequence number and current mask and is not forced (\<open>branch.py\<close> ties the wire to 0); the head commits only once it is resolved; nothing is registered in
  a cycle that redirects (the redirect drops the instruction in decode); a granted snapshot id is not
  in use by an unresolved branch.
\<close>

definition flight_ok ::
  "('x, 'n::len word) flight \<Rightarrow> ('x, 'n word, 's::len word, 'b::len word, 't) control_flow_in \<Rightarrow> bool" where
  "flight_ok st i \<longleftrightarrow>
     (let insts = fl_insts st; k = unat (ci_redirect_spec_idx i);
          commit_redirect = (ci_commit_call i \<and> ci_commit_redirect i)
      in (ci_redirect_call i \<longrightarrow> \<not> ci_redirect_force i \<and>
            (ci_redirect_seq i, ci_redirect_branch_mask i) \<in> set (flight_masks 0 insts) \<and>
            list_ex (\<lambda>x. fi_seq x = ci_redirect_seq i \<and> fi_branch x = Some k) insts) \<and>
         (ci_commit_call i \<longrightarrow>
            insts \<noteq> [] \<and>
            (fi_branch (hd insts) = None \<or> ci_redirect_call i \<and> fi_branch (hd insts) = Some k)) \<and>
         (ci_register_call i \<longrightarrow> \<not> fl_boot st \<and> \<not> commit_redirect \<and> \<not> flight_mispredict insts i) \<and>
         (ci_register_call i \<and> ci_register_speculative i \<and> ci_dflow_snapshot_rdy i \<longrightarrow>
            unat (ci_dflow_snapshot_id i) < LENGTH('b) \<and>
            \<not> list_ex (\<lambda>x. fi_branch x = Some (unat (ci_dflow_snapshot_id i))) (flight_kept insts i)))"

section \<open>The kill broadcast\<close>

text \<open>The instructions in flight as the pipelines hold them: sequence number and stored mask, filtered
  every cycle by the kill controller with the broadcast of the manager.\<close>

fun pool_kill :: "'b::len word kill_type \<Rightarrow> ('n \<times> 'b word) list \<Rightarrow> ('n \<times> 'b word) list" where
  "pool_kill msg [] = []"
| "pool_kill msg ((q, m) # pool) =
     (let (m', keep) = kill_drop msg m in if keep then (q, m') # pool_kill msg pool else pool_kill msg pool)"

definition cf_system_step ::
  "'x word \<Rightarrow> ('x::len word, 'n::len word, 'm::len word, 'b::len word) control_flow \<times> ('n word \<times> 'b word) list \<Rightarrow>
   ('x word, 'n word, 's::len word, 'b word, 't) control_flow_in \<Rightarrow>
   ((('x word, 'n word, 'm word, 'b word) control_flow \<times> ('n word \<times> 'b word) list) \<times>
    ('x word, 'n word, 's word, 'b word, 't) control_flow_out \<times> ('n word \<times> 'b word) list) option" where
  "cf_system_step reset_vector st i =
     (let (s, pool) = st; eff = pool_kill (cf_check_kill s) pool
      in do { (s', out) \<leftarrow> cf_step reset_vector s i;
              Some ((s', (if ci_commit_call i then tl eff else eff) @
                         (if ci_register_call i \<and> co_register_success out
                          then [(co_register_seq out, co_register_branch_mask out)] else [])),
                    (out, eff)) })"

lemma pool_kill_append: "pool_kill msg (xs @ ys) = pool_kill msg xs @ pool_kill msg ys"
  by (induction xs) (auto simp: Let_def split: prod.splits)

lemma pool_kill_none: "pool_kill \<lparr> kill_force = False, kill_mask = 0, clear_mask = 0 \<rparr> pool = pool"
  by (induction pool) (auto simp: kill_drop_def)

lemma pool_kill_force: "pool_kill \<lparr> kill_force = True, kill_mask = m, clear_mask = c \<rparr> pool = []"
  by (induction pool) (auto simp: kill_drop_def Let_def)

lemma pool_kill_clear:
  "pool_kill \<lparr> kill_force = False, kill_mask = 0, clear_mask = c \<rparr> pool = map (apsnd (\<lambda>m. m AND NOT c)) pool"
  by (induction pool) (auto simp: kill_drop_def)


text \<open>Branch ids are in range and no instruction reuses the id of an older unresolved branch.\<close>

fun branches_ok :: "'b::len word \<Rightarrow> ('x, 'n) flight_inst list \<Rightarrow> bool" where
  "branches_ok older [] = True"
| "branches_ok older (x # xs) =
     ((case fi_branch x of None \<Rightarrow> True | Some k \<Rightarrow> k < LENGTH('b) \<and> \<not> bit older k) \<and>
      branches_ok (older OR branch_bit (fi_branch x)) xs)"

lemma bit_branch_bit:
  "bit (branch_bit b :: 'b::len word) k \<longleftrightarrow> k < LENGTH('b) \<and> b = Some k"
  by (auto simp: branch_bit_def bit_simps split: option.splits)

lemma bit_unresolved_mask:
  "bit (unresolved_mask xs :: 'b::len word) k \<longleftrightarrow> k < LENGTH('b) \<and> (\<exists>x \<in> set xs. fi_branch x = Some k)"
  by (induction xs) (auto simp: bit_or_iff bit_branch_bit)

lemma flight_masks_older: "(q, m) \<in> set (flight_masks older xs) \<Longrightarrow> bit older k \<Longrightarrow> bit m k"
  by (induction older xs rule: flight_masks.induct) (auto simp: bit_or_iff)

lemma flight_masks_upper:
  "(q, m) \<in> set (flight_masks older xs) \<Longrightarrow> bit m k \<Longrightarrow>
   bit (older OR unresolved_mask xs) k"
  by (induction older xs rule: flight_masks.induct) (auto simp: or.assoc bit_or_iff)

lemma flight_masks_fst: "map fst (flight_masks older xs) = map fi_seq xs"
  by (induction older xs rule: flight_masks.induct) auto

lemma flight_masks_append:
  "flight_masks older (xs @ [y]) = flight_masks older xs @ [(fi_seq y, older OR unresolved_mask xs)]"
  by (induction older xs rule: flight_masks.induct) (auto simp: or.assoc)

lemma unresolved_mask_append: "unresolved_mask (xs @ [y]) = unresolved_mask xs OR branch_bit (fi_branch y)"
  by (induction xs) (auto simp: or.assoc)

lemma branches_ok_append:
  "branches_ok older (xs @ [y]) \<longleftrightarrow>
     branches_ok (older :: 'b::len word) xs \<and>
     (case fi_branch y of None \<Rightarrow> True
      | Some k \<Rightarrow> k < LENGTH('b) \<and> \<not> bit older k \<and> (\<forall>x \<in> set xs. fi_branch x \<noteq> Some k))"
  by (induction older xs rule: branches_ok.induct)
     (auto simp: bit_or_iff bit_branch_bit split: option.splits)

lemma branches_ok_fewer:
  fixes older older' :: "'b::len word"
  shows "branches_ok older xs \<Longrightarrow> (\<And>k. bit older' k \<Longrightarrow> bit older k) \<Longrightarrow> branches_ok older' xs"
proof (induction older xs arbitrary: older' rule: branches_ok.induct)
  case (2 older x xs)
  have "branches_ok (older' OR branch_bit (fi_branch x)) xs"
    by (rule "2.IH") (use "2.prems" in \<open>auto simp: bit_or_iff\<close>)
  then show ?case using "2.prems" by (auto split: option.splits)
qed simp

lemma resolve_simps [simp]:
  "fi_seq (resolve k x) = fi_seq x" "fi_pred (resolve k x) = fi_pred x"
  "fi_serial (resolve k x) = fi_serial x"
  "fi_branch (resolve k x) = (if fi_branch x = Some k then None else fi_branch x)"
  by (auto simp: resolve_def)

lemma branches_ok_resolve: "branches_ok older xs \<Longrightarrow> branches_ok older (map (resolve k) xs)"
proof (induction older xs rule: branches_ok.induct)
  case (2 older x xs)
  have "branches_ok (older OR branch_bit (fi_branch x)) (map (resolve k) xs)"
    using 2 by simp
  then have "branches_ok (older OR branch_bit (fi_branch (resolve k x))) (map (resolve k) xs)"
    by (rule branches_ok_fewer) (auto simp: bit_or_iff bit_branch_bit split: if_splits)
  then show ?case using "2.prems" by (auto split: option.splits)
qed simp

lemma branches_ok_keep: "branches_ok older xs \<Longrightarrow> branches_ok older (flight_keep q xs)"
  by (induction older xs rule: branches_ok.induct) (auto split: option.splits)

text \<open>A correctly predicted branch: its bit is cleared everywhere.\<close>

lemma branch_bit_resolve:
  "branch_bit (fi_branch (resolve k x)) = (branch_bit (fi_branch x) AND NOT (branch_bit (Some k)) :: 'b::len word)"
  by (rule bit_eqI) (auto simp: bit_and_iff bit_not_iff bit_branch_bit)

lemma flight_masks_resolve:
  "flight_masks (older AND NOT (branch_bit (Some k))) (map (resolve k) xs) =
     map (apsnd (\<lambda>m. m AND NOT (branch_bit (Some k)))) (flight_masks older xs)"
  by (induction older xs rule: flight_masks.induct)
     (auto simp: branch_bit_resolve bit.conj_disj_distrib2 [symmetric] simp del: resolve_simps(4))

lemma unresolved_mask_resolve:
  "unresolved_mask (map (resolve k) xs) = unresolved_mask xs AND NOT (branch_bit (Some k))"
  by (induction xs) (auto simp: branch_bit_resolve bit.conj_disj_distrib2 simp del: resolve_simps(4))


text \<open>A misprediction: the instructions after the branch carry its bit and are killed, the branch and
  those before it carry only bits of its own mask and stay.\<close>

lemma pool_kill_bit:
  "bit K k \<Longrightarrow> bit older k \<Longrightarrow>
   pool_kill \<lparr> kill_force = False, kill_mask = K, clear_mask = 0 \<rparr> (flight_masks (older :: 'b::len word) xs) = []"
proof (induction older xs rule: flight_masks.induct)
  case (2 older x xs)
  have "bit (older AND K) k" using "2.prems" by (simp add: bit_and_iff)
  then have "older AND K \<noteq> 0" by auto
  moreover have "bit (older OR branch_bit (fi_branch x)) k" using "2.prems" by (simp add: bit_or_iff)
  ultimately show ?case using "2.IH" "2.prems"(1) by (simp add: kill_drop_def Let_def)
qed simp

lemma pool_kill_mispredict:
  fixes older m :: "'b::len word"
  assumes "(q, m) \<in> set (flight_masks older xs)" "\<exists>x \<in> set xs. fi_seq x = q \<and> fi_branch x = Some k"
    and "branches_ok older xs" "distinct (map fi_seq xs)"
  shows "pool_kill \<lparr> kill_force = False, kill_mask = branch_bit (Some k) OR NOT m, clear_mask = 0 \<rparr>
             (flight_masks older xs) = flight_masks older (flight_keep q (map (resolve k) xs)) \<and>
         older OR unresolved_mask (flight_keep q (map (resolve k) xs)) = m \<and>
         \<not> bit m k \<and> k < LENGTH('b)"
  using assms
proof (induction older xs rule: flight_masks.induct)
  case (2 older x xs)
  let ?K = "branch_bit (Some k) OR NOT m"
  let ?next = "older OR branch_bit (fi_branch x)"
  show ?case
  proof (cases "fi_seq x = q")
    case True
    have "q \<notin> set (map fst (flight_masks ?next xs))"
      using "2.prems"(4) True by (simp add: flight_masks_fst)
    then have "(q, m) \<notin> set (flight_masks ?next xs)" by force
    then have m: "m = older" using "2.prems"(1) True by auto
    have b: "fi_branch x = Some k" using "2.prems"(2,4) True by (auto simp: image_iff)
    then have k: "k < LENGTH('b)" "\<not> bit older k" using "2.prems"(3) by auto
    have "older AND ?K = 0"
      using k by (auto intro!: bit_eqI simp: m bit_and_iff bit_or_iff bit_not_iff bit_branch_bit)
    moreover have "pool_kill \<lparr> kill_force = False, kill_mask = ?K, clear_mask = 0 \<rparr> (flight_masks ?next xs) = []"
      by (rule pool_kill_bit [of _ k]) (use k in \<open>simp_all add: bit_or_iff bit_branch_bit b\<close>)
    ultimately show ?thesis
      using True k m b by (simp add: kill_drop_def branch_bit_def)
  next
    case False
    then have in': "(q, m) \<in> set (flight_masks ?next xs)" "\<exists>y \<in> set xs. fi_seq y = q \<and> fi_branch y = Some k"
      using "2.prems"(1,2) by auto
    from "2.IH" [OF in'] "2.prems"(3,4)
    have IH: "pool_kill \<lparr> kill_force = False, kill_mask = ?K, clear_mask = 0 \<rparr> (flight_masks ?next xs) =
        flight_masks ?next (flight_keep q (map (resolve k) xs))"
      "?next OR unresolved_mask (flight_keep q (map (resolve k) xs)) = m" "\<not> bit m k" "k < LENGTH('b)"
      by auto
    have up: "bit ?next j \<Longrightarrow> bit m j" for j using flight_masks_older [OF in'(1)] .
    have x: "resolve k x = x" using up [of k] IH(3,4) by (auto simp: resolve_def bit_or_iff bit_branch_bit)
    have "older AND ?K = 0"
    proof (rule bit_eqI)
      fix j
      show "bit (older AND ?K) j \<longleftrightarrow> bit 0 j"
        using up [of j] IH(3) by (cases "bit older j") (auto simp: bit_and_iff bit_or_iff bit_not_iff bit_branch_bit)
    qed
    then show ?thesis using IH False x by (simp add: kill_drop_def or.assoc)
  qed
qed simp


section \<open>Simulation\<close>

definition flight_related ::
  "('x::len word, 'n::len word, 'm::len word, 'b::len word) control_flow \<times> ('n word \<times> 'b word) list \<Rightarrow>
   ('x word, 'n word) flight \<Rightarrow> bool" where
  "flight_related sp st \<longleftrightarrow>
     (let s = fst sp; insts = fl_insts st
      in LENGTH('m) = Suc LENGTH('n) \<and>
         seq_related (cf_seq s) (map fi_seq insts, fl_next st) \<and>
         pool_kill (cf_check_kill s) (snd sp) = flight_masks 0 insts \<and>
         cf_bmask s = unresolved_mask insts \<and> branches_ok (0 :: 'b word) insts \<and>
         length (cf_pc_pred s) = LENGTH('b) \<and>
         (\<forall>x \<in> set insts. \<forall>k. fi_branch x = Some k \<longrightarrow> cf_pc_pred s ! k = fi_pred x) \<and>
         (cf_serial s \<longleftrightarrow> list_ex fi_serial insts) \<and>
         (list_ex fi_serial insts \<longrightarrow> length insts = 1) \<and>
         cf_reset_redirect_valid s = fl_boot st \<and>
         (\<not> cf_kill_pend s \<longrightarrow> \<not> cf_reg_force s \<and> cf_reg_kill s = 0 \<and> cf_reg_clear s = 0))"

lemma one_hot_branch_bit:
  "LENGTH('b) \<le> 2 ^ LENGTH('s) \<Longrightarrow>
   one_hot_encoder enable call (n :: 's::len word) =
     (if enable \<longrightarrow> call then branch_bit (Some (unat n)) else (0 :: 'b::len word))"
  by (rule bit_eqI) (auto simp: bit_one_hot_encoder bit_branch_bit)

lemma branches_in_range: "branches_ok (older :: 'b::len word) xs \<Longrightarrow> x \<in> set xs \<Longrightarrow> fi_branch x = Some k \<Longrightarrow> k < LENGTH('b)"
  by (induction older xs rule: branches_ok.induct) (auto split: option.splits)

lemma distinct_seq_from: "n \<le> 2 ^ LENGTH('n) \<Longrightarrow> distinct (seq_from (h :: 'n::len word) n)"
  by (auto simp: distinct_conv_nth dest: seq_from_inj)

lemma flight_keep_seqs: "map fi_seq (flight_keep q xs) = keep_through q (map fi_seq xs)"
  by (induction xs) auto

lemma flight_keep_subset: "set (flight_keep q xs) \<subseteq> set xs"
  by (induction xs) auto

text \<open>Masks, mask register and id invariant after the redirect of a cycle.\<close>

lemma flight_kept_masks:
  fixes st :: "('x, 'n::len word) flight" and i :: "('x, 'n word, 's::len word, 'b::len word, 't) control_flow_in"
  assumes inv: "branches_ok (0 :: 'b word) (fl_insts st)" "distinct (map fi_seq (fl_insts st))" and ok: "flight_ok st i"
    and b: "LENGTH('b) \<le> 2 ^ LENGTH('s)"
    and masks: "cf_kill_masks (flight_mispredict (fl_insts st) i) i = (km, cm)"
  shows "pool_kill \<lparr> kill_force = False, kill_mask = km, clear_mask = cm \<rparr> (flight_masks 0 (fl_insts st)) =
           flight_masks 0 (flight_kept (fl_insts st) i)"
    and "unresolved_mask (fl_insts st) AND NOT (km OR cm) = unresolved_mask (flight_kept (fl_insts st) i)"
    and "branches_ok (0 :: 'b word) (flight_kept (fl_insts st) i)"
proof -
  let ?k = "unat (ci_redirect_spec_idx i)"
  note hot = one_hot_branch_bit [OF b, of False]
  show ok': "branches_ok (0 :: 'b word) (flight_kept (fl_insts st) i)"
    using inv(1) by (simp add: flight_kept_def branches_ok_keep branches_ok_resolve Let_def)
  consider (none) "\<not> ci_redirect_call i"
    | (right) "ci_redirect_call i" "\<not> flight_mispredict (fl_insts st) i"
    | (wrong) "ci_redirect_call i" "flight_mispredict (fl_insts st) i" by blast
  then have "pool_kill \<lparr> kill_force = False, kill_mask = km, clear_mask = cm \<rparr> (flight_masks 0 (fl_insts st)) =
           flight_masks 0 (flight_kept (fl_insts st) i) \<and>
        unresolved_mask (fl_insts st) AND NOT (km OR cm) = unresolved_mask (flight_kept (fl_insts st) i)"
  proof cases
    case none
    then have "\<not> flight_mispredict (fl_insts st) i" by (simp add: flight_mispredict_def)
    then show ?thesis using none masks by (simp add: cf_kill_masks_def flight_kept_def pool_kill_none)
  next
    case right
    then have m: "km = 0" "cm = branch_bit (Some ?k)" using masks by (simp_all add: cf_kill_masks_def hot)
    show ?thesis
      using right flight_masks_resolve [of "0 :: 'b word" ?k "fl_insts st"]
      by (simp add: m flight_kept_def pool_kill_clear unresolved_mask_resolve)
  next
    case wrong
    let ?m = "ci_redirect_branch_mask i"
    have in': "(ci_redirect_seq i, ?m) \<in> set (flight_masks 0 (fl_insts st))"
      "\<exists>x \<in> set (fl_insts st). fi_seq x = ci_redirect_seq i \<and> fi_branch x = Some ?k"
      using ok wrong by (auto simp: flight_ok_def Let_def list_ex_iff)
    have m: "km = branch_bit (Some ?k) OR NOT ?m" "cm = 0" using wrong masks by (simp_all add: cf_kill_masks_def hot)
    have res: "unresolved_mask (flight_keep (ci_redirect_seq i) (map (resolve ?k) (fl_insts st))) = ?m" "\<not> bit ?m ?k"
      using pool_kill_mispredict [OF in' inv] by auto
    have "unresolved_mask (fl_insts st) AND NOT km = ?m"
    proof (rule bit_eqI)
      fix j
      show "bit (unresolved_mask (fl_insts st) AND NOT km) j \<longleftrightarrow> bit ?m j"
        using flight_masks_upper [OF in'(1), of j] res(2)
        by (cases "bit ?m j") (auto dest: bit_imp_le_length simp: m bit_and_iff bit_or_iff bit_not_iff bit_branch_bit)
    qed
    then show ?thesis
      using pool_kill_mispredict [OF in' inv] wrong by (simp add: m flight_kept_def)
  qed
  then show "pool_kill \<lparr> kill_force = False, kill_mask = km, clear_mask = cm \<rparr> (flight_masks 0 (fl_insts st)) =
           flight_masks 0 (flight_kept (fl_insts st) i)"
    "unresolved_mask (fl_insts st) AND NOT (km OR cm) = unresolved_mask (flight_kept (fl_insts st) i)"
    by blast+
qed


text \<open>The redirect decision, the broadcast of the next cycle and the instruction that commits.\<close>

lemma cf_branch_redirect_mispredict:
  assumes "flight_related (s, pool) st" and "flight_ok st i"
  shows "cf_branch_redirect s i = flight_mispredict (fl_insts st) i"
proof (cases "ci_redirect_call i")
  case True
  let ?k = "unat (ci_redirect_spec_idx i)"
  obtain x where x: "x \<in> set (fl_insts st)" "fi_branch x = Some ?k"
    using assms(2) True by (auto simp: flight_ok_def Let_def list_ex_iff)
  then have "?k < length (cf_pc_pred s)"
    using assms(1) by (auto simp: flight_related_def Let_def intro: branches_in_range)
  then have read: "async_ram_read False (cf_pc_pred s) [] (ci_redirect_spec_idx i) = Some (cf_pc_pred s ! ?k)"
    by (simp add: async_ram_read_def list_read_def)
  have pred: "fi_pred y = cf_pc_pred s ! ?k" if "y \<in> set (fl_insts st)" "fi_branch y = Some ?k" for y
    using assms(1) that by (simp add: flight_related_def Let_def)
  have "\<not> ci_redirect_force i" using assms(2) True by (simp add: flight_ok_def Let_def)
  then show ?thesis
    using True x pred by (auto simp: cf_branch_redirect_def flight_mispredict_def read)
qed (simp add: cf_branch_redirect_def flight_mispredict_def)

lemma flight_kept_head:
  assumes "flight_ok st i" and "ci_commit_call i"
  shows "\<exists>x xs. flight_kept (fl_insts st) i = x # xs \<and> fi_branch x = None"
proof -
  let ?k = "unat (ci_redirect_spec_idx i)"
  obtain y ys where st: "fl_insts st = y # ys" using assms by (cases "fl_insts st") (auto simp: flight_ok_def Let_def)
  then have "fi_branch y = None \<or> ci_redirect_call i \<and> fi_branch y = Some ?k"
    using assms by (simp add: flight_ok_def Let_def)
  then show ?thesis by (auto simp: flight_kept_def st flight_mispredict_def Let_def)
qed

lemma flight_kept_origin:
  "x \<in> set (flight_kept insts i) \<Longrightarrow>
   \<exists>y \<in> set insts. fi_pred y = fi_pred x \<and> fi_serial y = fi_serial x \<and> (\<forall>k. fi_branch x = Some k \<longrightarrow> fi_branch y = Some k)"
  using flight_keep_subset by (fastforce simp: flight_kept_def Let_def split: if_splits)

lemma pool_kill_tl:
  assumes "pool = (q, 0) # rest"
  shows "pool_kill \<lparr> kill_force = False, kill_mask = km, clear_mask = cm \<rparr> (tl pool) =
         tl (pool_kill \<lparr> kill_force = False, kill_mask = km, clear_mask = cm \<rparr> pool)"
  by (simp add: assms kill_drop_def)


text \<open>One cycle, part by part: sequence numbers first.\<close>

lemma flight_seq_part:
  fixes st :: "('x, 'n::len word) flight" and i :: "('x, 'n word, 's::len word, 'b::len word, 't) control_flow_in"
  assumes R: "seq_related sq (map fi_seq (fl_insts st), fl_next st)" and ok: "flight_ok st i"
    and reg: "registered = (ci_register_call i \<and> flight_success st i)"
    and sqi: "sqi = \<lparr> sa_allocate_call = registered, sa_free_call = ci_commit_call i,
        sa_rollback_call = (ci_commit_call i \<and> ci_commit_redirect i \<or> flight_mispredict (fl_insts st) i),
        sa_rollback_idx = (if ci_commit_call i \<and> ci_commit_redirect i then sa_head sq else ci_redirect_seq i) \<rparr>"
    and st': "st' = fst (flight_step rv st i)"
  shows "seq_related (fst (seq_alloc_step sq sqi)) (map fi_seq (fl_insts st'), fl_next st')"
proof -
  let ?q = "map fi_seq (fl_insts st)"
  let ?cr = "ci_commit_call i \<and> ci_commit_redirect i"
  let ?mis = "flight_mispredict (fl_insts st) i"
  obtain x xs where ne: "ci_commit_call i \<Longrightarrow> fl_insts st = x # xs"
    using ok by (cases "fl_insts st") (auto simp: flight_ok_def Let_def)
  have head: "sa_head sq = fi_seq x" if "ci_commit_call i"
    using R ne [OF that] by (cases "unat (sa_num sq)") (auto simp: seq_related_def seq_from_Cons)
  have mis: "ci_redirect_seq i \<in> set ?q" if ?mis
  proof -
    have "ci_redirect_call i" using that by (simp add: flight_mispredict_def)
    then have "\<exists>x \<in> set (fl_insts st). fi_seq x = ci_redirect_seq i"
      using ok by (auto simp: flight_ok_def Let_def list_ex_iff)
    then show ?thesis by (auto intro: rev_image_eqI)
  qed
  have noreg: "\<not> registered" if "?cr \<or> ?mis" using that ok by (auto simp: reg flight_ok_def Let_def)
  have "seq_queue_ok (?q, fl_next st) sqi"
    using mis head ne noreg by (auto simp: seq_queue_ok_def sqi reg flight_success_def)
  from seq_alloc_step_queue(2) [OF R this]
  have "seq_related (fst (seq_alloc_step sq sqi)) (fst (seq_queue_step (?q, fl_next st) sqi))" .
  moreover have kept: "map fi_seq (flight_kept (fl_insts st) i) =
      (if ?mis then keep_through (ci_redirect_seq i) ?q else ?q)"
    by (simp add: flight_kept_def Let_def flight_keep_seqs comp_def)
  have "fst (seq_queue_step (?q, fl_next st) sqi) = (map fi_seq (fl_insts st'), fl_next st')"
  proof (cases ?cr)
    case True
    then show ?thesis
      using ne head noreg by (simp add: seq_queue_step_def sqi st' flight_step_def Let_def reg)
  next
    case False
    show ?thesis
    proof (cases ?mis)
      case True
      then have "\<not> (ci_register_call i \<and> flight_success st i)" using noreg reg by blast
      then show ?thesis
        using True False kept noreg
        by (simp add: seq_queue_step_def sqi st' flight_step_def Let_def map_tl)
    next
      case noMis: False
      then show ?thesis
        using False kept ne
        by (cases "ci_commit_call i") (simp_all add: seq_queue_step_def sqi st' flight_step_def Let_def map_tl reg)
    qed
  qed
  ultimately show ?thesis by simp
qed


lemma flight_seq_outputs:
  assumes "seq_related (sq :: ('n::len word, 'm::len word) seq_alloc) (map fi_seq insts, nxt)"
  shows "snd (seq_alloc_step sq sqi) =
    \<lparr> sa_allocate_rdy = (length insts < 2 ^ LENGTH('n)), sa_allocate_idx = nxt,
      sa_get_head_rdy = (insts \<noteq> []), sa_get_head_idx = (case insts of [] \<Rightarrow> nxt | x # _ \<Rightarrow> fi_seq x),
      sa_free_rdy = (insts \<noteq> []) \<rparr>"
proof -
  let ?i = "\<lparr> sa_allocate_call = False, sa_free_call = False, sa_rollback_call = False, sa_rollback_idx = 0 :: 'n word \<rparr>"
  have "snd (seq_alloc_step sq sqi) = snd (seq_alloc_step sq ?i)" by (simp add: seq_alloc_step_def Let_def)
  also have "\<dots> = snd (seq_queue_step (map fi_seq insts, nxt) ?i)"
    by (rule seq_alloc_step_queue(1) [OF assms]) (simp add: seq_queue_ok_def)
  finally show ?thesis by (simp add: seq_queue_step_def Let_def split: list.splits)
qed

lemma cf_step_parts:
  fixes s :: "('x::len word, 'n::len word, 'm::len word, 'b::len word) control_flow"
    and i :: "('x word, 'n word, 's::len word, 'b word, 't) control_flow_in"
  assumes R: "flight_related (s, pool) st" and ok: "flight_ok st i" and b: "LENGTH('b) \<le> 2 ^ LENGTH('s)"
    and masks: "cf_kill_masks (flight_mispredict (fl_insts st) i) i = (km, cm)"
    and reg: "registered \<longleftrightarrow> ci_register_call i \<and> flight_success st i"
    and cr: "cr \<longleftrightarrow> ci_commit_call i \<and> ci_commit_redirect i"
  shows "\<exists>s'. cf_step rv s i = Some (s', fst (snd (flight_step rv st i))) \<and>
    cf_seq s' = fst (seq_alloc_step (cf_seq s)
      \<lparr> sa_allocate_call = registered, sa_free_call = ci_commit_call i,
        sa_rollback_call = (ci_commit_call i \<and> ci_commit_redirect i \<or> flight_mispredict (fl_insts st) i),
        sa_rollback_idx = (if ci_commit_call i \<and> ci_commit_redirect i then sa_head (cf_seq s) else ci_redirect_seq i) \<rparr>) \<and>
    cf_check_kill s' = \<lparr> kill_force = cr, kill_mask = km, clear_mask = cm \<rparr> \<and>
    (\<not> cf_kill_pend s' \<longrightarrow> \<not> cf_reg_force s' \<and> cf_reg_kill s' = 0 \<and> cf_reg_clear s' = 0) \<and>
    cf_bmask s' = (if cr then 0
                   else unresolved_mask (flight_kept (fl_insts st) i) OR
                        (if registered \<and> ci_register_speculative i
                         then branch_bit (Some (unat (ci_dflow_snapshot_id i))) else 0)) \<and>
    cf_pc_pred s' = (if registered \<and> ci_register_speculative i
                     then (cf_pc_pred s)[unat (ci_dflow_snapshot_id i) := ci_register_pc_succ i] else cf_pc_pred s) \<and>
    cf_serial s' = (if registered \<and> ci_register_serialize i \<or> cf_serial s \<and> ci_commit_call i
                    then \<not> cf_serial s else cf_serial s) \<and>
    \<not> cf_reset_redirect_valid s'"
proof -
  let ?mis = "flight_mispredict (fl_insts st) i"
  have br: "cf_branch_redirect s i = ?mis" using cf_branch_redirect_mispredict [OF R ok] .
  have inv: "seq_related (cf_seq s) (map fi_seq (fl_insts st), fl_next st)" "branches_ok (0 :: 'b word) (fl_insts st)"
    "cf_bmask s = unresolved_mask (fl_insts st)" "length (cf_pc_pred s) = LENGTH('b)"
    "cf_serial s \<longleftrightarrow> list_ex fi_serial (fl_insts st)" "cf_reset_redirect_valid s = fl_boot st"
    "\<not> cf_kill_pend s \<longrightarrow> \<not> cf_reg_force s \<and> cf_reg_kill s = 0 \<and> cf_reg_clear s = 0"
    using R by (simp_all add: flight_related_def Let_def)
  have "distinct (map fi_seq (fl_insts st))"
    using inv(1) distinct_seq_from by (auto simp: seq_related_def)
  note kept = flight_kept_masks [OF inv(2) this ok b masks]
  note outs = flight_seq_outputs [OF inv(1)]
  have succ: "cf_register_success s \<lparr> sa_allocate_rdy = (length (fl_insts st) < 2 ^ LENGTH('n)), sa_allocate_idx = fl_next st,
      sa_get_head_rdy = (fl_insts st \<noteq> []), sa_get_head_idx = (case fl_insts st of [] \<Rightarrow> fl_next st | x # _ \<Rightarrow> fi_seq x),
      sa_free_rdy = (fl_insts st \<noteq> []) \<rparr> i \<longleftrightarrow> flight_success st i"
    by (auto simp: cf_register_success_def flight_success_def inv(5))
  have sid: "unat (ci_dflow_snapshot_id i) < length (cf_pc_pred s)" if "registered" "ci_register_speculative i"
    using ok that by (simp add: reg flight_ok_def flight_success_def Let_def inv(4))
  have ram: "async_ram_writes (cf_pc_pred s)
       [(registered \<and> ci_register_speculative i, ci_dflow_snapshot_id i, ci_register_pc_succ i)] =
     Some (if registered \<and> ci_register_speculative i
           then (cf_pc_pred s)[unat (ci_dflow_snapshot_id i) := ci_register_pc_succ i] else cf_pc_pred s)"
    using sid by simp
  have zero: "km = 0 \<and> cm = 0" if "\<not> ci_redirect_call i"
    using masks that by (auto simp: cf_kill_masks_def flight_mispredict_def)
  have noforce: "\<not> (?mis \<and> ci_redirect_force i)"
    using ok by (auto simp: flight_ok_def Let_def flight_mispredict_def)
  have nokeep: "unresolved_mask (fl_insts st) = unresolved_mask (flight_kept (fl_insts st) i)" if "\<not> ci_redirect_call i"
    using that by (simp add: flight_kept_def flight_mispredict_def)
  have call: "?mis \<Longrightarrow> ci_redirect_call i" by (simp add: flight_mispredict_def)
  let ?redir = "fl_boot st \<or> cr \<or> ?mis"
  let ?upd = "cf_kill_pend s \<or> ?redir \<or> ci_redirect_call i"
  let ?sqi = "\<lparr> sa_allocate_call = registered, sa_free_call = ci_commit_call i,
        sa_rollback_call = (ci_commit_call i \<and> ci_commit_redirect i \<or> ?mis),
        sa_rollback_idx = (if ci_commit_call i \<and> ci_commit_redirect i then sa_head (cf_seq s) else ci_redirect_seq i) \<rparr>"
  let ?next = "if cr then 0 else unresolved_mask (flight_kept (fl_insts st) i) OR
       (if registered \<and> ci_register_speculative i then branch_bit (Some (unat (ci_dflow_snapshot_id i))) else 0) :: 'b word"
  define s' where "s' = \<lparr> cf_pc_pred = (if registered \<and> ci_register_speculative i
                     then (cf_pc_pred s)[unat (ci_dflow_snapshot_id i) := ci_register_pc_succ i] else cf_pc_pred s),
      cf_seq = fst (seq_alloc_step (cf_seq s) ?sqi), cf_reset_redirect_valid = False,
      cf_kill_pend = (if ?upd then ?redir \<or> ci_redirect_call i else cf_kill_pend s),
      cf_reg_force = (if ?upd then ?mis \<and> ci_redirect_force i \<or> cr else cf_reg_force s),
      cf_reg_kill = (if ?upd then km else cf_reg_kill s), cf_reg_clear = (if ?upd then cm else cf_reg_clear s),
      cf_bmask = (if registered \<and> ci_register_speculative i \<or> ci_redirect_call i \<or> cr then ?next else cf_bmask s),
      cf_serial = (if registered \<and> ci_register_serialize i \<or> cf_serial s \<and> ci_commit_call i
                    then \<not> cf_serial s else cf_serial s) \<rparr>"
  have "cf_step rv s i = Some (s', fst (snd (flight_step rv st i)))"
    by (simp add: cf_step_def Let_def outs succ br masks reg cr ram [unfolded reg conj_assoc] kept(2) [simplified] inv(3,6)
        one_hot_branch_bit [OF b] flight_step_def s'_def del: async_ram_writes.simps)
  moreover have "cf_check_kill s' = \<lparr> kill_force = cr, kill_mask = km, clear_mask = cm \<rparr>"
    using noforce zero inv(7) by (auto simp: cf_check_kill_def s'_def)
  moreover have "\<not> cf_kill_pend s' \<longrightarrow> \<not> cf_reg_force s' \<and> cf_reg_kill s' = 0 \<and> cf_reg_clear s' = 0"
    using zero inv(7) call by (auto simp: s'_def)
  moreover have "cf_bmask s' = ?next"
    using nokeep by (auto simp: s'_def inv(3))
  ultimately show ?thesis by (intro exI [of _ s']) (simp add: s'_def)
qed


definition flight_rest ::
  "('x, 'n) flight_inst list \<Rightarrow> ('x, 'n, 's::len word, 'b, 't) control_flow_in \<Rightarrow> ('x, 'n) flight_inst list" where
  "flight_rest insts i =
     (if ci_commit_call i \<and> ci_commit_redirect i then []
      else if ci_commit_call i then tl (flight_kept insts i) else flight_kept insts i)"

definition flight_new ::
  "('x, 'n) flight \<Rightarrow> ('x, 'n, 's::len word, 'b, 't) control_flow_in \<Rightarrow> ('x, 'n) flight_inst" where
  "flight_new st i =
     \<lparr> fi_seq = fl_next st,
       fi_branch = (if ci_register_speculative i then Some (unat (ci_dflow_snapshot_id i)) else None),
       fi_pred = ci_register_pc_succ i, fi_serial = ci_register_serialize i \<rparr>"

lemma flight_step_insts:
  "fl_insts (fst (flight_step rv st i)) =
     flight_rest (fl_insts st) i @ (if ci_register_call i \<and> flight_success st i then [flight_new st i] else [])"
  by (simp add: flight_step_def flight_rest_def flight_new_def Let_def)

lemma flight_rest_masks:
  fixes st :: "('x, 'n::len word) flight" and i :: "('x, 'n word, 's::len word, 'b::len word, 't) control_flow_in"
  assumes inv: "branches_ok (0 :: 'b word) (fl_insts st)" "distinct (map fi_seq (fl_insts st))" and ok: "flight_ok st i"
    and b: "LENGTH('b) \<le> 2 ^ LENGTH('s)"
    and masks: "cf_kill_masks (flight_mispredict (fl_insts st) i) i = (km, cm)"
    and cr: "\<not> (ci_commit_call i \<and> ci_commit_redirect i)"
  shows "pool_kill \<lparr> kill_force = False, kill_mask = km, clear_mask = cm \<rparr>
             (if ci_commit_call i then tl (flight_masks 0 (fl_insts st)) else flight_masks 0 (fl_insts st)) =
           flight_masks 0 (flight_rest (fl_insts st) i) \<and>
         unresolved_mask (flight_rest (fl_insts st) i) = (unresolved_mask (flight_kept (fl_insts st) i) :: 'b word) \<and>
         branches_ok (0 :: 'b word) (flight_rest (fl_insts st) i)"
proof (cases "ci_commit_call i")
  case True
  obtain x xs where kept: "flight_kept (fl_insts st) i = x # xs" "fi_branch x = None"
    using flight_kept_head [OF ok True] by blast
  obtain y ys where st: "fl_insts st = y # ys" using ok True by (cases "fl_insts st") (auto simp: flight_ok_def Let_def)
  have "flight_masks 0 (fl_insts st) = (fi_seq y, 0) # flight_masks (0 OR branch_bit (fi_branch y)) ys"
    by (simp add: st)
  note tl = pool_kill_tl [OF this, of km cm]
  show ?thesis
    using True cr flight_kept_masks [OF inv ok b masks]
    by (simp add: flight_rest_def tl kept branch_bit_def)
next
  case False
  then show ?thesis using flight_kept_masks [OF inv ok b masks] by (simp add: flight_rest_def)
qed

lemma flight_rest_origin:
  "x \<in> set (flight_rest insts i) \<Longrightarrow>
   \<exists>y \<in> set insts. fi_pred y = fi_pred x \<and> fi_serial y = fi_serial x \<and> (\<forall>k. fi_branch x = Some k \<longrightarrow> fi_branch y = Some k)"
  by (rule flight_kept_origin [of _ _ i])
    (cases "flight_kept insts i"; auto simp: flight_rest_def split: if_splits)

lemma flight_rest_single:
  "length insts = 1 \<Longrightarrow> flight_rest insts i = (if ci_commit_call i then [] else flight_kept insts i) \<and>
     length (flight_kept insts i) = 1"
  by (cases insts) (auto simp: flight_rest_def flight_kept_def Let_def)

text \<open>A serialized instruction is alone from its registration to its commit.\<close>

lemma flight_serial_part:
  fixes rv :: 'x
  assumes "list_ex fi_serial (fl_insts st) \<longrightarrow> length (fl_insts st) = 1" and ok: "flight_ok st i"
    and reg: "registered \<longleftrightarrow> ci_register_call i \<and> flight_success st i"
  defines "insts' \<equiv> fl_insts (fst (flight_step rv st i))"
  shows "list_ex fi_serial insts' =
           (if registered \<and> ci_register_serialize i \<or> list_ex fi_serial (fl_insts st) \<and> ci_commit_call i
            then \<not> list_ex fi_serial (fl_insts st) else list_ex fi_serial (fl_insts st)) \<and>
         (list_ex fi_serial insts' \<longrightarrow> length insts' = 1)"
proof (cases "list_ex fi_serial (fl_insts st)")
  case True
  then obtain x where x: "fl_insts st = [x]" "fi_serial x" using assms(1) by (cases "fl_insts st") auto
  have "\<not> registered" using True by (simp add: reg flight_success_def)
  moreover obtain y where y: "flight_kept (fl_insts st) i = [y]" "fi_serial y"
    using x by (cases "ci_redirect_call i") (auto simp: flight_kept_def Let_def)
  ultimately show ?thesis
    using True flight_rest_single [of "fl_insts st" i] x y
    by (simp add: insts'_def flight_step_insts reg [symmetric])
next
  case False
  have none: "\<not> list_ex fi_serial (flight_rest (fl_insts st) i)"
    using False flight_rest_origin by (fastforce simp: list_ex_iff)
  have "flight_rest (fl_insts st) i = []" if "registered" "ci_register_serialize i"
    using that by (auto simp: reg flight_success_def flight_rest_def flight_kept_def)
  then show ?thesis
    using False none by (auto simp: insts'_def flight_step_insts reg [symmetric] flight_new_def)
qed


lemma cf_system_step_refines:
  fixes s :: "('x::len word, 'n::len word, 'm::len word, 'b::len word) control_flow"
    and i :: "('x word, 'n word, 's::len word, 'b word, 't) control_flow_in"
  assumes R: "flight_related (s, pool) st" and ok: "flight_ok st i" and b: "LENGTH('b) \<le> 2 ^ LENGTH('s)"
  shows "\<exists>sp'. cf_system_step rv (s, pool) i = Some (sp', snd (flight_step rv st i)) \<and>
               flight_related sp' (fst (flight_step rv st i))"
proof -
  define cr where "cr \<longleftrightarrow> ci_commit_call i \<and> ci_commit_redirect i"
  define registered where "registered \<longleftrightarrow> ci_register_call i \<and> flight_success st i"
  obtain km cm where masks: "cf_kill_masks (flight_mispredict (fl_insts st) i) i = (km, cm)" by force
  let ?insts = "fl_insts st" and ?st' = "fst (flight_step rv st i)" and ?rest = "flight_rest (fl_insts st) i"
  have inv: "LENGTH('m) = Suc LENGTH('n)" "seq_related (cf_seq s) (map fi_seq ?insts, fl_next st)"
    "pool_kill (cf_check_kill s) pool = flight_masks 0 ?insts" "branches_ok (0 :: 'b word) ?insts"
    "length (cf_pc_pred s) = LENGTH('b)"
    "\<forall>x \<in> set ?insts. \<forall>k. fi_branch x = Some k \<longrightarrow> cf_pc_pred s ! k = fi_pred x"
    "cf_serial s \<longleftrightarrow> list_ex fi_serial ?insts" "list_ex fi_serial ?insts \<longrightarrow> length ?insts = 1"
    using R by (simp_all add: flight_related_def Let_def)
  have dist: "distinct (map fi_seq ?insts)"
    using inv(2) distinct_seq_from by (auto simp: seq_related_def)
  from cf_step_parts [OF R ok b masks registered_def cr_def] obtain s' where
    step: "cf_step rv s i = Some (s', fst (snd (flight_step rv st i)))"
    and sq: "cf_seq s' = fst (seq_alloc_step (cf_seq s)
      \<lparr> sa_allocate_call = registered, sa_free_call = ci_commit_call i,
        sa_rollback_call = (ci_commit_call i \<and> ci_commit_redirect i \<or> flight_mispredict ?insts i),
        sa_rollback_idx = (if ci_commit_call i \<and> ci_commit_redirect i then sa_head (cf_seq s) else ci_redirect_seq i) \<rparr>)"
    and kill: "cf_check_kill s' = \<lparr> kill_force = cr, kill_mask = km, clear_mask = cm \<rparr>"
    and pend: "\<not> cf_kill_pend s' \<longrightarrow> \<not> cf_reg_force s' \<and> cf_reg_kill s' = 0 \<and> cf_reg_clear s' = 0"
    and bm: "cf_bmask s' = (if cr then 0 else unresolved_mask (flight_kept ?insts i) OR
        (if registered \<and> ci_register_speculative i then branch_bit (Some (unat (ci_dflow_snapshot_id i))) else 0))"
    and pred: "cf_pc_pred s' = (if registered \<and> ci_register_speculative i
        then (cf_pc_pred s)[unat (ci_dflow_snapshot_id i) := ci_register_pc_succ i] else cf_pc_pred s)"
    and serial: "cf_serial s' = (if registered \<and> ci_register_serialize i \<or> cf_serial s \<and> ci_commit_call i
        then \<not> cf_serial s else cf_serial s)"
    and boot: "\<not> cf_reset_redirect_valid s'" by blast
  have insts': "fl_insts ?st' = ?rest @ (if registered then [flight_new st i] else [])"
    by (simp add: flight_step_insts registered_def)
  have regok: "\<not> cr" "\<not> flight_mispredict ?insts i" if registered
    using that ok by (auto simp: registered_def cr_def flight_ok_def Let_def)
  have restcr: "?rest = []" if cr using that by (simp add: flight_rest_def cr_def)
  note rest = flight_rest_masks [OF inv(4) dist ok b masks, folded cr_def]
  let ?out = "fst (snd (flight_step rv st i))"
  have out: "co_register_success ?out = flight_success st i" "co_register_seq ?out = fl_next st"
    "co_register_branch_mask ?out = unresolved_mask (flight_kept ?insts i)"
    "snd (snd (flight_step rv st i)) = flight_masks 0 ?insts"
    by (simp_all add: flight_step_def Let_def)
  let ?eff = "flight_masks 0 ?insts :: ('n word \<times> 'b word) list"
  let ?pool = "(if ci_commit_call i then tl ?eff else ?eff) @
    (if registered then [(fl_next st, unresolved_mask (flight_kept ?insts i))] else [])"
  have "(fst (snd (flight_step rv st i)), ?eff) = snd (flight_step rv st i)"
    by (simp add: out(4) prod_eq_iff)
  then have sys: "cf_system_step rv (s, pool) i = Some ((s', ?pool), snd (flight_step rv st i))"
    by (simp add: cf_system_step_def step inv(3) out registered_def Let_def)
  have new_mask: "unresolved_mask (flight_kept ?insts i) AND NOT cm = (unresolved_mask (flight_kept ?insts i) :: 'b word) \<and> km = 0"
    if registered
    using masks regok(2) [OF that] unresolved_mask_resolve [of "unat (ci_redirect_spec_idx i)" ?insts, where ?'a = 'b]
    by (auto simp: cf_kill_masks_def flight_kept_def one_hot_branch_bit [OF b] and.assoc split: if_splits)
  have pool': "pool_kill (cf_check_kill s') ?pool = flight_masks 0 (fl_insts ?st')"
  proof (cases cr)
    case True
    then show ?thesis using regok restcr by (auto simp: kill pool_kill_force insts')
  next
    case False
    then show ?thesis
      using rest new_mask
      by (auto simp: kill pool_kill_append insts' flight_masks_append flight_new_def kill_drop_def)
  qed
  have bm': "cf_bmask s' = unresolved_mask (fl_insts ?st')"
    using rest restcr regok by (auto simp: bm insts' unresolved_mask_append flight_new_def branch_bit_def)
  have fresh: "unat (ci_dflow_snapshot_id i) < LENGTH('b) \<and>
      \<not> list_ex (\<lambda>x. fi_branch x = Some (unat (ci_dflow_snapshot_id i))) (flight_kept ?insts i)"
    if "registered" "ci_register_speculative i"
    using that ok by (simp add: registered_def flight_ok_def flight_success_def Let_def)
  have rest_kept: "set ?rest \<subseteq> set (flight_kept ?insts i)"
    by (cases "flight_kept ?insts i") (auto simp: flight_rest_def)
  have brok: "branches_ok (0 :: 'b word) (fl_insts ?st')"
    using rest restcr regok(1) fresh rest_kept
    by (cases cr) (auto simp: insts' branches_ok_append flight_new_def list_ex_iff)
  have pred': "cf_pc_pred s' ! k = fi_pred x" if x: "x \<in> set (fl_insts ?st')" "fi_branch x = Some k" for x k
  proof (cases "x \<in> set ?rest")
    case True
    then obtain y where "y \<in> set ?insts" "fi_pred y = fi_pred x" "fi_branch y = Some k"
      using flight_rest_origin x(2) by blast
    then have old: "cf_pc_pred s ! k = fi_pred x" using inv(6) by auto
    have "k \<noteq> unat (ci_dflow_snapshot_id i)" if "registered" "ci_register_speculative i"
      using fresh [OF that] True rest_kept x(2) by (auto simp: list_ex_iff)
    then show ?thesis using old by (auto simp: pred nth_list_update_neq)
  next
    case False
    then have "registered" "x = flight_new st i" using x(1) by (auto simp: insts' split: if_splits)
    then show ?thesis
      using x(2) fresh inv(5) by (auto simp: pred flight_new_def split: if_splits)
  qed
  have seq': "seq_related (cf_seq s') (map fi_seq (fl_insts ?st'), fl_next ?st')"
    unfolding sq by (rule flight_seq_part [OF inv(2) ok registered_def refl refl])
  have serial': "cf_serial s' = list_ex fi_serial (fl_insts ?st') \<and>
      (list_ex fi_serial (fl_insts ?st') \<longrightarrow> length (fl_insts ?st') = 1)"
    using flight_serial_part [OF inv(8) ok registered_def, of rv] by (simp add: serial inv(7))
  have len': "length (cf_pc_pred s') = LENGTH('b)" by (simp add: pred inv(5))
  have boot': "cf_reset_redirect_valid s' = fl_boot ?st'" using boot by (simp add: flight_step_def Let_def)
  have "flight_related (s', ?pool) ?st'"
    unfolding flight_related_def Let_def fst_conv snd_conv
    using inv(1) seq' pool' bm' brok len' pred' serial' boot' pend by blast
  then show ?thesis using sys by blast
qed


interpretation control_flow: safe_refinement
  "cf_system_step reset_vector ::
     _ \<Rightarrow> ('x::len word, 'n::len word, 's::len word, 'b::len word, 't) control_flow_in \<Rightarrow>
     (((_, _, 'm::len word, _) control_flow \<times> _) \<times> _ \<times> _) option"
  "flight_step reset_vector" "\<lambda>sp st. LENGTH('b) \<le> 2 ^ LENGTH('s) \<and> flight_related sp st" flight_ok
  for reset_vector
proof unfold_locales
  fix sp :: "('x word, 'n word, 'm word, 'b word) control_flow \<times> ('n word \<times> 'b word) list" and st
    and i :: "('x word, 'n word, 's word, 'b word, 't) control_flow_in"
  assume "LENGTH('b) \<le> 2 ^ LENGTH('s) \<and> flight_related sp st" "flight_ok st i"
  then show "\<exists>sp'. cf_system_step reset_vector sp i = Some (sp', snd (flight_step reset_vector st i)) \<and>
      LENGTH('b) \<le> 2 ^ LENGTH('s) \<and> flight_related sp' (fst (flight_step reset_vector st i))"
    using cf_system_step_refines [of "fst sp" "snd sp" st i] by simp
qed

lemma cf_reset_related:
  "LENGTH('m) = Suc LENGTH('n) \<Longrightarrow> length pc_pred = LENGTH('b) \<Longrightarrow>
   flight_related (cf_reset pc_pred :: ('x::len word, 'n::len word, 'm::len word, 'b::len word) control_flow, [])
     \<lparr> fl_insts = [], fl_next = 0, fl_boot = True \<rparr>"
  by (simp add: flight_related_def cf_reset_def seq_alloc_reset_related)

section \<open>Properties\<close>

text \<open>C1: From reset, with the instructions in flight filtered every cycle by the registered kill
  broadcast, the control flow manager behaves as a list of instructions in program order: a
  mispredicted branch removes exactly the instructions after it, from the pipelines by their masks and
  from the sequence allocator by the rollback, a correct one only clears its bit, an exception at
  commit removes everything, a serialized instruction is alone in flight; every returned mask is the
  set of older unresolved branches; redirects, targets and the calls on the data flow manager agree;
  and no table access is out of range.\<close>

theorem control_flow_refines_program_order:
  fixes inputs :: "('x::len word, 'n::len word, 's::len word, 'b::len word, 't) control_flow_in list"
    and pc_pred :: "'x word list"
  assumes "LENGTH('m) = Suc LENGTH('n)" and "LENGTH('b) \<le> 2 ^ LENGTH('s)" and "length pc_pred = LENGTH('b)"
    and "runs_ok (flight_step reset_vector) flight_ok \<lparr> fl_insts = [], fl_next = 0, fl_boot = True \<rparr> inputs"
  shows "run_fl (cf_system_step reset_vector)
           (cf_reset pc_pred :: ('x word, 'n word, 'm::len word, 'b word) control_flow, []) inputs =
         Some (run (flight_step reset_vector) \<lparr> fl_insts = [], fl_next = 0, fl_boot = True \<rparr> inputs)"
  using assms by (intro control_flow.safe_run_refines) (simp_all add: cf_reset_related)

text \<open>A branch is registered, then two instructions after it; the branch turns out mispredicted while
  they are in flight, and the next cycle sees the branch alone.\<close>

definition cf_quiet :: "(4 word, 2 word, 1 word, 2 word, 1 word) control_flow_in" where
  "cf_quiet =
     \<lparr> ci_redirect_call = False, ci_redirect_seq = 0, ci_redirect_spec_idx = 0, ci_redirect_branch_mask = 0,
       ci_redirect_target = 0, ci_redirect_force = False, ci_register_call = False,
       ci_register_speculative = False, ci_register_serialize = False, ci_register_store = False,
       ci_register_pc_succ = 0, ci_commit_call = False, ci_commit_redirect_target = 0,
       ci_commit_redirect = False, ci_dflow_store_id_rdy = True, ci_dflow_store_id = 0,
       ci_dflow_snapshot_rdy = True, ci_dflow_snapshot_id = 1 \<rparr>"

definition cf_story :: "(4 word, 2 word, 1 word, 2 word, 1 word) control_flow_in list" where
  "cf_story =
     [cf_quiet,
      cf_quiet\<lparr>ci_register_call := True, ci_register_speculative := True, ci_register_pc_succ := 4\<rparr>,
      cf_quiet\<lparr>ci_register_call := True\<rparr>,
      cf_quiet\<lparr>ci_register_call := True\<rparr>,
      cf_quiet\<lparr>ci_redirect_call := True, ci_redirect_spec_idx := 1, ci_redirect_target := 8\<rparr>,
      cf_quiet\<lparr>ci_commit_call := True\<rparr>]"

lemmas flight_eval = flight_step_def flight_ok_def flight_kept_def flight_mispredict_def flight_success_def
  resolve_def branch_bit_def

lemma control_flow_refines_program_order_witness:
  "map_option (map snd) (run_fl (cf_system_step 0)
     (cf_reset [0, 0] :: (4 word, 2 word, 3 word, 2 word) control_flow, []) cf_story) =
   Some [[], [], [(0, 0)], [(0, 0), (1, 2)], [(0, 0), (1, 2), (2, 2)], [(0, 0)]]"
proof -
  have ok: "runs_ok (flight_step 0) flight_ok \<lparr> fl_insts = [], fl_next = 0, fl_boot = True \<rparr> cf_story"
    by (simp add: cf_story_def cf_quiet_def flight_eval)
  have "map snd (run (flight_step 0) \<lparr> fl_insts = [], fl_next = 0, fl_boot = True \<rparr> cf_story) =
      [[], [], [(0, 0)], [(0, 0), (1, 2)], [(0, 0), (1, 2), (2, 2)], [(0, 0)]]"
    by (simp add: cf_story_def cf_quiet_def flight_eval)
  then show ?thesis
    by (subst control_flow_refines_program_order [OF _ _ _ ok]) simp_all
qed

end
