(* ===== verification/DataFlow.thy ===== *)
theory DataFlow
  imports Snapshots
begin

text \<open>
  Register renaming: \<open>lizard/core/rtl/renametable.py\<close> and \<open>lizard/core/rtl/dataflow.py\<close>. Widths:
  architectural index \<open>'a\<close>, physical tag \<open>'p\<close>, data \<open>'d\<close>, store id \<open>'t\<close>, snapshot id \<open>'s\<close>; vectors of
  the free physical registers \<open>'f\<close> (one less than there are tags), of the store queue \<open>'q\<close> and of the
  snapshots \<open>'k\<close>.
\<close>

section \<open>Rename table\<close>

record ('a, 'p, 's) rename_in =
  rn_lookup :: "'a list"
  rn_update :: "(bool \<times> 'a \<times> 'p) list"
  rn_snapshot_call :: bool
  rn_target_id :: 's
  rn_restore_call :: bool
  rn_source_id :: 's
  rn_set_call :: bool
  rn_set_in :: "'p list"

definition rename_ports :: "bool \<Rightarrow> ('a::len word, 'p, 's) rename_in \<Rightarrow> ('a word, 'p, 's) snap_rf_in" where
  "rename_ports const_zero i =
     \<lparr> srf_ports =
         \<lparr> rf_read_addr = rn_lookup i,
           rf_write_call = map (\<lambda>(call, areg, _). if const_zero \<and> areg = 0 then False else call) (rn_update i),
           rf_write_addr = map (fst \<circ> snd) (rn_update i),
           rf_write_data = map (snd \<circ> snd) (rn_update i),
           rf_set_call = rn_set_call i, rf_set_in = rn_set_in i \<rparr>,
       srf_snapshot_call = rn_snapshot_call i, srf_target_id = rn_target_id i,
       srf_restore_call = rn_restore_call i, srf_source_id = rn_source_id i \<rparr>"

definition rename_step ::
  "bool \<Rightarrow> 'p \<Rightarrow> ('p snap_rf, ('a::len word, 'p, 's::len word) rename_in, 'p option list) machine" where
  "rename_step const_zero zero_tag st i =
     (let (st', reads) = snap_rf_step False True st (rename_ports const_zero i)
      in (st', map2 (\<lambda>areg r. if const_zero \<and> areg = 0 then Some zero_tag else r) (rn_lookup i) reads))"

section \<open>Data flow manager\<close>

record ('p, 'd, 'f, 'q, 'k) dataflow =
  df_snapshot_allocator :: "'k snap_fl"
  df_free_regs :: "'f snap_fl"
  df_store_ids :: "'q snap_fl"
  df_arch_used_pregs :: "bool list"
  df_rename_table :: "'p snap_rf"
  df_preg_file :: "'d list"
  df_ready_table :: "bool list"
  df_areg_file :: "'p list"

record ('a, 'p, 'd, 't, 's) dataflow_in =
  di_get_src :: "'a list"
  di_get_dst :: "(bool \<times> 'a) list"
  di_get_store_id :: "bool list"
  di_is_ready :: "'p list"
  di_read :: "'p list"
  di_write :: "(bool \<times> 'p \<times> 'd) list"
  di_forward :: "(bool \<times> 'p \<times> 'd) list"
  di_free_store_id :: "(bool \<times> 't) list"
  di_commit :: "(bool \<times> 'p \<times> 'a) list"
  di_rollback :: bool
  di_snapshot :: bool
  di_free_snapshot :: "bool \<times> 's"
  di_restore :: "bool \<times> 's"

record ('p, 'd, 't, 's, 'q) dataflow_out =
  do_get_src :: "'p list"
  do_get_dst :: "(bool \<times> 'p) list"
  do_get_store_id :: "(bool \<times> 't) list"
  do_valid_store_mask :: 'q
  do_is_ready :: "bool list"
  do_read :: "'d list"
  do_get_updated :: "(bool \<times> 'p) list"
  do_snapshot :: "bool \<times> 's"

text \<open>\<open>handle_get_dst_allocate\<close>, port by port: the alloc call of the free list, ready flag and tag
  of the method, and the write-back flag. The alloc ports of the free list are a chain.\<close>

definition dst_port ::
  "'p::len word \<Rightarrow> bool \<times> 'a::len word \<Rightarrow> bool \<times> 'p word \<Rightarrow> bool \<times> 'p word \<times> bool" where
  "dst_port zero_tag dst alloc =
     (let (call, areg) = dst; (alloc_rdy, alloc_index) = alloc
      in if areg = 0 then (False, zero_tag, False)
         else if alloc_rdy then (call, alloc_index, call)
         else (False, zero_tag, False))"

fun dst_ports ::
  "'p::len word \<Rightarrow> (bool \<times> 'a::len word) list \<Rightarrow> 'f::len word \<Rightarrow> (bool \<times> bool \<times> 'p word \<times> bool) list" where
  "dst_ports zero_tag [] inc = []"
| "dst_ports zero_tag (dst # dsts) inc =
     (let (decoded, valid) = priority_decoder inc;
          (alloc_call, preg, writeback) = dst_port zero_tag dst (valid, decoded)
      in (valid, alloc_call, preg, writeback) #
         dst_ports zero_tag dsts (if alloc_call then inc AND NOT (one_hot_encoder False False decoded) else inc))"

text \<open>The chain of forwarding muxes of one read port; the last matching port wins.\<close>

fun forward_chain :: "'p \<Rightarrow> (bool \<times> 'p \<times> 'd) list \<Rightarrow> 'd \<Rightarrow> 'd" where
  "forward_chain tag [] data = data"
| "forward_chain tag ((call, ftag, fvalue) # rest) data =
     forward_chain tag rest (if call \<and> ftag = tag then fvalue else data)"

definition not_zero_tag :: "'p \<Rightarrow> bool \<times> 'p \<times> 'x \<Rightarrow> bool" where
  "not_zero_tag zero_tag port = (fst (snd port) \<noteq> zero_tag \<and> fst port)"

definition dataflow_read ::
  "'p::len word \<Rightarrow> 'd::zero list \<Rightarrow> (bool \<times> 'p word \<times> 'd) list \<Rightarrow> (bool \<times> 'p word \<times> 'd) list \<Rightarrow> 'p word \<Rightarrow> 'd option" where
  "dataflow_read zero_tag preg_file writes forwards tag =
     do { data \<leftarrow> async_ram_read True preg_file writes tag;
          Some (if tag = zero_tag then 0 else forward_chain tag forwards data) }"

definition dataflow_is_ready :: "'p::len word \<Rightarrow> bool list \<Rightarrow> 'p word \<Rightarrow> bool option" where
  "dataflow_is_ready zero_tag ready_table tag =
     do { ready \<leftarrow> async_ram_read False ready_table [] tag;
          Some (if tag = zero_tag then True else ready) }"

text \<open>The ports the three free lists share: they are snapshot, restored and rolled back together.\<close>

definition snapshot_ports ::
  "('a, 'p, 'd, 't, 's) dataflow_in \<Rightarrow> 's \<Rightarrow> (bool \<times> 'i::len word) list \<Rightarrow> bool list \<Rightarrow> 'n::len word \<Rightarrow>
   ('n word, 'i word, 's) snap_fl_in" where
  "snapshot_ports i snapshot_id frees allocs rollback_state =
     \<lparr> sfl_free = frees, sfl_alloc_call = allocs,
       sfl_set_call = di_rollback i, sfl_set_state = rollback_state,
       sfl_reset_call = di_snapshot i, sfl_target_id = snapshot_id,
       sfl_revert_call = fst (di_restore i), sfl_source_id = snd (di_restore i) \<rparr>"

text \<open>\<open>ZERO_TAG\<close> is the last tag. A cycle first resolves the ports (renaming, reads, ready flags),
  then clocks every table; \<open>None\<close> is an access outside a table, which raises.\<close>

definition dataflow_step ::
  "('p::len word, 'd::zero, 'f::len word, 'q::len word, 'k::len word) dataflow \<Rightarrow>
   ('a::len word, 'p word, 'd, 't::len word, 's::len word) dataflow_in \<Rightarrow>
   (('p word, 'd, 'f word, 'q word, 'k word) dataflow \<times>
    ('p word, 'd, 't word, 's word, 'q word) dataflow_out) option" where
  "dataflow_step s i =
     do { let zero_tag = of_nat LENGTH('f);
          let commit_live = map (not_zero_tag zero_tag) (di_commit i);
          let tags = map (fst \<circ> snd) (di_commit i);
          let aregs = map (snd \<circ> snd) (di_commit i);
          let (areg_file', areg_out) =
            regfile_step False True (df_areg_file s)
              \<lparr> rf_read_addr = aregs, rf_write_call = commit_live, rf_write_addr = aregs,
                rf_write_data = tags, rf_set_call = False,
                rf_set_in = replicate (length (df_areg_file s)) 0 \<rparr>;
          old_pregs \<leftarrow> those (rf_read_data areg_out);
          let (arch_used', arch_used_out) =
            regfile_step False True (df_arch_used_pregs s)
              \<lparr> rf_read_addr = [], rf_write_call = commit_live @ commit_live,
                rf_write_addr = old_pregs @ tags,
                rf_write_data = map (\<lambda>_. False) old_pregs @ map (\<lambda>_. True) tags,
                rf_set_call = False, rf_set_in = replicate (length (df_arch_used_pregs s)) False \<rparr>;
          let dst = dst_ports zero_tag (di_get_dst i) (fst (df_free_regs s));
          let dst_preg = map (fst \<circ> snd \<circ> snd) dst;
          let dst_writeback = map (snd \<circ> snd \<circ> snd) dst;
          let store_alloc = fst (alloc_chain (di_get_store_id i) (fst (df_store_ids s)));
          let (snapshot_id, snapshot_rdy) = priority_decoder (fst (df_snapshot_allocator s));
          let (restore_call, restore_source_id) = di_restore i;
          let (snapshot_allocator', _) =
            snap_fl_step (df_snapshot_allocator s)
              (snapshot_ports i snapshot_id [di_free_snapshot i] [di_snapshot i] (NOT 0));
          let (free_regs', _) =
            snap_fl_step (df_free_regs s)
              (snapshot_ports i snapshot_id (zip commit_live old_pregs) (map (fst \<circ> snd) dst)
                 (NOT (pack_bits (rf_dump_out arch_used_out))));
          let (store_ids', _) =
            snap_fl_step (df_store_ids s)
              (snapshot_ports i snapshot_id (di_free_store_id i) (di_get_store_id i) (NOT 0));
          let (rename_table', srcs) =
            rename_step True zero_tag (df_rename_table s)
              \<lparr> rn_lookup = di_get_src i,
                rn_update = zip dst_writeback (zip (map snd (di_get_dst i)) dst_preg),
                rn_snapshot_call = di_snapshot i, rn_target_id = snapshot_id,
                rn_restore_call = restore_call, rn_source_id = restore_source_id,
                rn_set_call = di_rollback i, rn_set_in = rf_dump_out areg_out \<rparr>;
          get_src \<leftarrow> those srcs;
          let write_live = map (not_zero_tag zero_tag) (di_write i);
          let writes = zip write_live (map snd (di_write i));
          is_ready \<leftarrow> those (map (dataflow_is_ready zero_tag (df_ready_table s)) (di_is_ready i));
          reads \<leftarrow> those (map (dataflow_read zero_tag (df_preg_file s) writes (di_forward i)) (di_read i));
          preg_file' \<leftarrow> async_ram_writes (df_preg_file s) writes;
          ready_table' \<leftarrow>
            async_ram_writes (df_ready_table s)
              (zip write_live (map (\<lambda>w. (fst (snd w), True)) (di_write i)) @
               zip dst_writeback (map (\<lambda>p. (p, False)) dst_preg));
          Some
            (\<lparr> df_snapshot_allocator = snapshot_allocator', df_free_regs = free_regs',
               df_store_ids = store_ids', df_arch_used_pregs = arch_used',
               df_rename_table = rename_table', df_preg_file = preg_file',
               df_ready_table = ready_table', df_areg_file = areg_file' \<rparr>,
             \<lparr> do_get_src = get_src, do_get_dst = map (\<lambda>(rdy, _, preg, _). (rdy, preg)) dst,
               do_get_store_id = map (\<lambda>(rdy, index, _). (rdy, index)) store_alloc,
               do_valid_store_mask = NOT (fst (df_store_ids s)),
               do_is_ready = is_ready, do_read = reads,
               do_get_updated =
                 zip write_live (map (fst \<circ> snd) (di_write i)) @
                 map (\<lambda>w. (not_zero_tag zero_tag w, fst (snd w))) (di_forward i),
               do_snapshot = (snapshot_rdy, snapshot_id) \<rparr>) }"

text \<open>Reset: the first \<open>naregs - 1\<close> physical registers back the architectural registers other than
  x0. The vector \<open>arch_used_pregs\<close> has one bit more set, \<open>range(naregs)\<close>.\<close>

definition initial_map :: "nat \<Rightarrow> 'p::len word list" where
  "initial_map naregs = 0 # map of_nat [0..<naregs - 1]"

definition dataflow_reset ::
  "nat \<Rightarrow> nat \<Rightarrow> ('p::len word, 'd::zero, 'f::len word, 'q::len word, 'k::len word) dataflow" where
  "dataflow_reset naregs nsnapshots =
     \<lparr> df_snapshot_allocator = (freelist_reset 0, replicate nsnapshots (replicate LENGTH('k) False)),
       df_free_regs = (freelist_reset (naregs - 1), replicate nsnapshots (replicate LENGTH('f) False)),
       df_store_ids = (freelist_reset 0, replicate nsnapshots (replicate LENGTH('q) False)),
       df_arch_used_pregs = map (\<lambda>i. i < naregs) [0..<LENGTH('f)],
       df_rename_table = (initial_map naregs, replicate nsnapshots (replicate naregs 0)),
       df_preg_file = replicate (LENGTH('f) + 1) 0,
       df_ready_table = replicate (LENGTH('f) + 1) True,
       df_areg_file = initial_map naregs \<rparr>"

end
