(* ===== verification/Renaming.thy ===== *)
theory Renaming
  imports DataFlow
begin

text \<open>
  Correctness of renaming for one destination port, the configuration of the core: free lists, rename
  table, snapshots and architectural map implement a list of destinations and branches in program
  order.
\<close>

section \<open>Destinations and branches in program order\<close>

datatype rename_item = Dst nat nat | Branch nat

primrec item_pregs :: "rename_item list \<Rightarrow> nat list" where
  "item_pregs [] = []"
| "item_pregs (x # xs) = (case x of Dst a p \<Rightarrow> p # item_pregs xs | Branch k \<Rightarrow> item_pregs xs)"

primrec item_branches :: "rename_item list \<Rightarrow> nat list" where
  "item_branches [] = []"
| "item_branches (x # xs) = (case x of Dst a p \<Rightarrow> item_branches xs | Branch k \<Rightarrow> k # item_branches xs)"

text \<open>The register map after the items: the youngest destination of a register wins.\<close>

primrec item_map :: "nat list \<Rightarrow> rename_item list \<Rightarrow> nat list" where
  "item_map m [] = m"
| "item_map m (x # xs) = item_map (case x of Dst a p \<Rightarrow> m[a := p] | Branch k \<Rightarrow> m) xs"

text \<open>\<open>P k m post\<close> at every branch \<open>k\<close>: \<open>m\<close> is the map before it and \<open>post\<close> what follows.\<close>

primrec snaps_ok :: "(nat \<Rightarrow> nat list \<Rightarrow> rename_item list \<Rightarrow> bool) \<Rightarrow> nat list \<Rightarrow> rename_item list \<Rightarrow> bool" where
  "snaps_ok P m [] = True"
| "snaps_ok P m (x # xs) =
     (case x of Dst a p \<Rightarrow> snaps_ok P (m[a := p]) xs | Branch k \<Rightarrow> P k m xs \<and> snaps_ok P m xs)"

lemma item_append [simp]:
  "item_pregs (xs @ ys) = item_pregs xs @ item_pregs ys"
  "item_branches (xs @ ys) = item_branches xs @ item_branches ys"
  "item_map m (xs @ ys) = item_map (item_map m xs) ys"
  by (induction xs arbitrary: m) (auto split: rename_item.splits)

lemma length_item_map [simp]: "length (item_map m xs) = length m"
  by (induction xs arbitrary: m) (auto split: rename_item.splits)

lemma item_branches_iff: "k \<in> set (item_branches xs) \<longleftrightarrow> Branch k \<in> set xs"
  by (induction xs) (auto split: rename_item.splits)

lemma snaps_ok_mono:
  "snaps_ok P m xs \<Longrightarrow> (\<And>k m post. k \<in> set (item_branches xs) \<Longrightarrow> P k m post \<Longrightarrow> Q k m post) \<Longrightarrow> snaps_ok Q m xs"
  by (induction xs arbitrary: m) (auto split: rename_item.splits)

lemma snaps_ok_append:
  assumes "snaps_ok P m xs" and "\<And>k m post. k \<in> set (item_branches xs) \<Longrightarrow> P k m post \<Longrightarrow> Q k m (post @ [x])"
    and "\<And>k. x = Branch k \<Longrightarrow> Q k (item_map m xs) []"
  shows "snaps_ok Q m (xs @ [x])"
  using assms by (induction xs arbitrary: m) (auto split: rename_item.splits)

text \<open>Resolving branch \<open>j\<close> removes it; restoring it keeps what comes before.\<close>

definition item_resolve :: "nat \<Rightarrow> rename_item list \<Rightarrow> rename_item list" where
  "item_resolve j xs = removeAll (Branch j) xs"

definition item_restore :: "nat \<Rightarrow> rename_item list \<Rightarrow> rename_item list" where
  "item_restore j xs = takeWhile (\<lambda>x. x \<noteq> Branch j) xs"

lemma item_resolve_simps [simp]:
  "item_pregs (item_resolve j xs) = item_pregs xs"
  "item_branches (item_resolve j xs) = removeAll j (item_branches xs)"
  "item_map m (item_resolve j xs) = item_map m xs"
  by (induction xs arbitrary: m) (auto simp: item_resolve_def split: rename_item.splits)

lemma snaps_ok_resolve:
  assumes "snaps_ok P m xs"
    and "\<And>k m post. k \<noteq> j \<Longrightarrow> P k m post \<Longrightarrow> Q k m (item_resolve j post)"
  shows "snaps_ok Q m (item_resolve j xs)"
  using assms by (induction xs arbitrary: m) (auto simp: item_resolve_def split: rename_item.splits)

lemma item_restore_split:
  assumes "j \<in> set (item_branches xs)"
  obtains post where "xs = item_restore j xs @ Branch j # post"
proof -
  have "Branch j \<in> set xs" using assms by (simp add: item_branches_iff)
  then have "dropWhile (\<lambda>x. x \<noteq> Branch j) xs \<noteq> []" by (auto simp: dropWhile_eq_Nil_conv)
  then obtain y post where d: "dropWhile (\<lambda>x. x \<noteq> Branch j) xs = y # post" by (cases "dropWhile (\<lambda>x. x \<noteq> Branch j) xs") auto
  then have "y = Branch j" using hd_dropWhile [of "\<lambda>x. x \<noteq> Branch j" xs] by simp
  then show ?thesis
    using that [of post] takeWhile_dropWhile_id [of "\<lambda>x. x \<noteq> Branch j" xs] d by (simp add: item_restore_def)
qed

lemma snaps_ok_restore:
  assumes "snaps_ok P m (pre @ Branch j # post)" and "j \<notin> set (item_branches pre)"
    and "\<And>k m mid. k \<in> set (item_branches pre) \<Longrightarrow> P k m (mid @ Branch j # post) \<Longrightarrow> Q k m mid"
  shows "P j (item_map m pre) post" and "snaps_ok Q m pre"
  using assms by (induction pre arbitrary: m) (auto split: rename_item.splits)


section \<open>The invariant of the tables\<close>

record ('f, 'k) rename_tables =
  rt_free :: 'f
  rt_fsnap :: "'f list"
  rt_sfree :: 'k
  rt_ssnap :: "'k list"
  rt_map :: "nat list"
  rt_msnap :: "nat list list"

text \<open>The snapshot of branch \<open>k\<close>: the map before what follows it, and the registers and snapshot ids
  allocated since, up to some that are free again.\<close>

definition snap_ok :: "('f::len word, 'k::len word) rename_tables \<Rightarrow> nat \<Rightarrow> nat list \<Rightarrow> rename_item list \<Rightarrow> bool" where
  "snap_ok T k m post \<longleftrightarrow>
     tl (rt_msnap T ! k) = tl m \<and>
     (\<forall>p \<in> set (item_pregs post). bit (rt_fsnap T ! k) p) \<and>
     (\<forall>p. bit (rt_fsnap T ! k) p \<longrightarrow> p \<in> set (item_pregs post) \<or> bit (rt_free T) p) \<and>
     (\<forall>j \<in> set (item_branches post). bit (rt_ssnap T ! k) j) \<and>
     (\<forall>j. bit (rt_ssnap T ! k) j \<longrightarrow> j \<in> set (item_branches post) \<or> bit (rt_sfree T) j)"

text \<open>\<open>used\<close> registers back an architectural register or an instruction in flight: they are distinct
  and never free. Conversely every register is used or free, save possibly number \<open>naregs - 1\<close>, and a
  snapshot id is free exactly when no unresolved branch holds it.\<close>

definition used_pregs :: "nat list \<Rightarrow> rename_item list \<Rightarrow> nat list" where
  "used_pregs arch items = tl arch @ item_pregs items"

definition dsts_ok :: "nat \<Rightarrow> rename_item list \<Rightarrow> bool" where
  "dsts_ok naregs items \<longleftrightarrow> (\<forall>a p. Dst a p \<in> set items \<longrightarrow> 0 < a \<and> a < naregs)"

definition renaming_ok ::
  "nat \<Rightarrow> ('f::len word, 'k::len word) rename_tables \<Rightarrow> nat list \<Rightarrow> rename_item list \<Rightarrow> bool" where
  "renaming_ok naregs T arch items \<longleftrightarrow>
     length arch = naregs \<and> dsts_ok naregs items \<and>
     distinct (used_pregs arch items) \<and> (\<forall>p \<in> set (used_pregs arch items). p < LENGTH('f)) \<and>
     (\<forall>p < LENGTH('f). bit (rt_free T) p \<longrightarrow> p \<notin> set (used_pregs arch items)) \<and>
     (\<forall>p < LENGTH('f). p \<noteq> naregs - 1 \<longrightarrow> bit (rt_free T) p \<or> p \<in> set (used_pregs arch items)) \<and>
     length (rt_map T) = naregs \<and> tl (rt_map T) = tl (item_map arch items) \<and>
     distinct (item_branches items) \<and> (\<forall>k \<in> set (item_branches items). k < LENGTH('k)) \<and>
     (\<forall>k < LENGTH('k). bit (rt_sfree T) k \<longleftrightarrow> k \<notin> set (item_branches items)) \<and>
     length (rt_fsnap T) = LENGTH('k) \<and> length (rt_ssnap T) = LENGTH('k) \<and> length (rt_msnap T) = LENGTH('k) \<and>
     (\<forall>m \<in> set (rt_msnap T). length m = naregs) \<and>
     snaps_ok (snap_ok T) arch items"

lemma tl_update: "0 < a \<Longrightarrow> tl (xs[a := p]) = (tl xs)[a - 1 := p]"
  by (cases xs; cases a) auto

lemma renaming_commit:
  assumes inv: "renaming_ok naregs T arch (Dst a p # items)"
  shows "renaming_ok naregs (T\<lparr>rt_free := set_bit (arch ! a) (rt_free T)\<rparr>) (arch[a := p]) items"
    and "arch ! a \<in> set (tl arch)"
proof -
  have a: "0 < a" "a < length arch" using inv by (auto simp: renaming_ok_def dsts_ok_def)
  then have nth: "tl arch ! (a - 1) = arch ! a" "a - 1 < length (tl arch)" by (simp_all add: nth_tl)
  then show mem: "arch ! a \<in> set (tl arch)" by (metis nth_mem)
  have d: "distinct (tl arch)" "p \<notin> set (tl arch)" "distinct (item_pregs items)" "p \<notin> set (item_pregs items)"
    "set (tl arch) \<inter> set (item_pregs items) = {}"
    using inv by (auto simp: renaming_ok_def used_pregs_def)
  have upd: "tl (arch[a := p]) = (tl arch)[a - 1 := p]" using a by (simp add: tl_update)
  have set: "set (tl (arch[a := p])) = insert p (set (tl arch) - {arch ! a})"
    unfolding upd using set_update_distinct [OF d(1) nth(2)] nth(1) by simp
  have dist: "distinct (tl (arch[a := p]))" unfolding upd using d by (intro distinct_list_update) auto
  have used: "set (used_pregs (arch[a := p]) items) = set (used_pregs arch (Dst a p # items)) - {arch ! a}"
    using set d mem by (auto simp: used_pregs_def)
  have "distinct (used_pregs (arch[a := p]) items)"
    using dist d set by (auto simp: used_pregs_def)
  moreover have "snaps_ok (snap_ok (T\<lparr>rt_free := set_bit (arch ! a) (rt_free T)\<rparr>)) (arch[a := p]) items"
    using inv by (auto simp: renaming_ok_def snap_ok_def bit_set_bit_iff elim!: snaps_ok_mono dest: bit_imp_le_length)
  ultimately show "renaming_ok naregs (T\<lparr>rt_free := set_bit (arch ! a) (rt_free T)\<rparr>) (arch[a := p]) items"
    using inv unfolding renaming_ok_def used by (auto simp: dsts_ok_def bit_set_bit_iff)
qed


lemma used_pregs_append: "used_pregs arch (items @ [Dst a p]) = used_pregs arch items @ [p]"
  "used_pregs arch (items @ [Branch k]) = used_pregs arch items"
  by (simp_all add: used_pregs_def)

lemma renaming_alloc:
  fixes T :: "('f::len word, 'k::len word) rename_tables"
  assumes inv: "renaming_ok naregs T arch items" and k: "bit (rt_free T) k" and a: "0 < a" "a < naregs"
  shows "renaming_ok naregs
           (T\<lparr>rt_free := unset_bit k (rt_free T), rt_fsnap := map (set_bit k) (rt_fsnap T), rt_map := (rt_map T)[a := k]\<rparr>)
           arch (items @ [Dst a k])"
    and "k \<notin> set (used_pregs arch items)"
proof -
  have kf: "k < LENGTH('f)" using k by (rule bit_imp_le_length)
  then show fresh: "k \<notin> set (used_pregs arch items)" using inv k by (auto simp: renaming_ok_def)
  have fs: "length (rt_fsnap T) = LENGTH('k)" and br: "\<forall>j \<in> set (item_branches items). j < LENGTH('k)"
    using inv by (auto simp: renaming_ok_def)
  let ?T' = "T\<lparr>rt_free := unset_bit k (rt_free T), rt_fsnap := map (set_bit k) (rt_fsnap T), rt_map := (rt_map T)[a := k]\<rparr>"
  have "snaps_ok (snap_ok ?T') arch (items @ [Dst a k])"
  proof (rule snaps_ok_append)
    show "snaps_ok (snap_ok T) arch items" using inv by (simp add: renaming_ok_def)
    show "snap_ok ?T' j m (post @ [Dst a k])" if "j \<in> set (item_branches items)" "snap_ok T j m post" for j m post
      using that fs br kf by (auto simp: snap_ok_def bit_set_bit_iff bit_unset_bit_iff)
  qed simp
  moreover have "tl ((rt_map T)[a := k]) = tl (item_map arch (items @ [Dst a k]))"
    using inv a by (simp add: tl_update renaming_ok_def)
  moreover have "dsts_ok naregs (items @ [Dst a k])" using inv a by (auto simp: renaming_ok_def dsts_ok_def)
  ultimately show "renaming_ok naregs ?T' arch (items @ [Dst a k])"
    using inv fresh kf unfolding renaming_ok_def used_pregs_append by (auto simp: bit_unset_bit_iff)
qed

lemma renaming_snapshot:
  fixes T :: "('f::len word, 'k::len word) rename_tables"
  assumes inv: "renaming_ok naregs T arch items" and j: "bit (rt_sfree T) j"
  shows "renaming_ok naregs
           (T\<lparr>rt_sfree := unset_bit j (rt_sfree T), rt_ssnap := (map (set_bit j) (rt_ssnap T))[j := 0],
              rt_fsnap := (rt_fsnap T)[j := 0], rt_msnap := (rt_msnap T)[j := rt_map T]\<rparr>)
           arch (items @ [Branch j])" (is "renaming_ok _ ?T' _ _")
    and "j \<notin> set (item_branches items)"
proof -
  have jk: "j < LENGTH('k)" using j by (rule bit_imp_le_length)
  then show fresh: "j \<notin> set (item_branches items)" using inv j by (auto simp: renaming_ok_def)
  have len: "length (rt_fsnap T) = LENGTH('k)" "length (rt_ssnap T) = LENGTH('k)" "length (rt_msnap T) = LENGTH('k)"
    and br: "\<forall>j \<in> set (item_branches items). j < LENGTH('k)" and map: "tl (rt_map T) = tl (item_map arch items)"
    using inv by (auto simp: renaming_ok_def)
  have "snaps_ok (snap_ok ?T') arch (items @ [Branch j])"
  proof (rule snaps_ok_append)
    show "snaps_ok (snap_ok T) arch items" using inv by (simp add: renaming_ok_def)
    show "snap_ok ?T' k m (post @ [Branch j])" if "k \<in> set (item_branches items)" "snap_ok T k m post" for k m post
      using that len br jk fresh
      by (cases "k = j") (auto simp: snap_ok_def bit_set_bit_iff bit_unset_bit_iff)
    show "snap_ok ?T' k (item_map arch items) []" if "Branch j = Branch k" for k
      using that len jk map by (simp add: snap_ok_def)
  qed
  moreover have "\<forall>m \<in> set ((rt_msnap T)[j := rt_map T]). length m = naregs"
    using inv set_update_subset_insert [of "rt_msnap T" j "rt_map T"] by (auto simp: renaming_ok_def)
  moreover have "dsts_ok naregs (items @ [Branch j])" using inv by (auto simp: renaming_ok_def dsts_ok_def)
  ultimately show "renaming_ok naregs ?T' arch (items @ [Branch j])"
    using inv fresh jk unfolding renaming_ok_def used_pregs_append by (auto simp: bit_unset_bit_iff)
qed

lemma renaming_resolve:
  fixes T :: "('f::len word, 'k::len word) rename_tables"
  assumes inv: "renaming_ok naregs T arch items" and j: "j \<in> set (item_branches items)"
  shows "renaming_ok naregs (T\<lparr>rt_sfree := set_bit j (rt_sfree T)\<rparr>) arch (item_resolve j items)"
proof -
  have "snaps_ok (snap_ok (T\<lparr>rt_sfree := set_bit j (rt_sfree T)\<rparr>)) arch (item_resolve j items)"
  proof (rule snaps_ok_resolve)
    show "snaps_ok (snap_ok T) arch items" using inv by (simp add: renaming_ok_def)
    show "snap_ok (T\<lparr>rt_sfree := set_bit j (rt_sfree T)\<rparr>) k m (item_resolve j post)"
      if "k \<noteq> j" "snap_ok T k m post" for k m post
      using that by (auto simp: snap_ok_def bit_set_bit_iff dest: bit_imp_le_length)
  qed
  moreover have "dsts_ok naregs (item_resolve j items)" using inv by (auto simp: renaming_ok_def dsts_ok_def item_resolve_def)
  moreover have "used_pregs arch (item_resolve j items) = used_pregs arch items" by (simp add: used_pregs_def)
  ultimately show ?thesis
    using inv j unfolding renaming_ok_def by (auto simp: bit_set_bit_iff distinct_removeAll)
qed


lemma renaming_restore:
  fixes T :: "('f::len word, 'k::len word) rename_tables"
  assumes inv: "renaming_ok naregs T arch items" and j: "j \<in> set (item_branches items)"
  shows "renaming_ok naregs
           (T\<lparr>rt_sfree := set_bit j (rt_sfree T) OR rt_ssnap T ! j, rt_free := rt_free T OR rt_fsnap T ! j,
              rt_map := rt_msnap T ! j\<rparr>)
           arch (item_restore j items)" (is "renaming_ok _ ?T' _ _")
proof -
  obtain post where split: "items = item_restore j items @ Branch j # post" using item_restore_split [OF j] .
  define pre where "pre = item_restore j items"
  have items: "items = pre @ Branch j # post" using split by (simp add: pre_def)
  have dist: "distinct (item_branches items)" "distinct (used_pregs arch items)" using inv by (auto simp: renaming_ok_def)
  have jpre: "j \<notin> set (item_branches pre)" using dist(1) by (simp add: items)
  have len: "length (rt_msnap T) = LENGTH('k)" "j < LENGTH('k)"
    using inv j by (auto simp: renaming_ok_def)
  have oks: "snaps_ok (snap_ok T) arch (pre @ Branch j # post)" using inv by (simp add: renaming_ok_def items)
  have at_j: "snap_ok T j (item_map arch pre) post" by (rule snaps_ok_restore(1) [OF oks jpre]) simp
  have snaps: "snaps_ok (snap_ok ?T') arch pre"
  proof (rule snaps_ok_restore(2) [OF oks jpre])
    fix k m mid
    assume "k \<in> set (item_branches pre)" "snap_ok T k m (mid @ Branch j # post)"
    then show "snap_ok ?T' k m mid"
      using at_j len by (auto simp: snap_ok_def bit_or_iff bit_set_bit_iff)
  qed
  have free: "bit (rt_free ?T') p \<longleftrightarrow> bit (rt_free T) p \<or> p \<in> set (item_pregs post)" for p
    using at_j by (auto simp: snap_ok_def bit_or_iff)
  have sfree: "bit (rt_sfree ?T') k \<longleftrightarrow> bit (rt_sfree T) k \<or> k = j \<or> k \<in> set (item_branches post)" for k
    using at_j len by (auto simp: snap_ok_def bit_or_iff bit_set_bit_iff)
  have used: "used_pregs arch items = used_pregs arch pre @ item_pregs post" by (simp add: used_pregs_def items)
  have map: "tl (rt_map ?T') = tl (item_map arch pre)" "length (rt_map ?T') = naregs"
    using at_j inv len by (auto simp: snap_ok_def renaming_ok_def)
  have dsts: "dsts_ok naregs pre" using inv by (auto simp: renaming_ok_def dsts_ok_def items)
  have d: "distinct (used_pregs arch pre)" "set (used_pregs arch pre) \<inter> set (item_pregs post) = {}"
    using dist(2) by (auto simp: used)
  have br: "distinct (item_branches pre)" "set (item_branches pre) \<inter> set (item_branches post) = {}"
    using dist(1) by (auto simp: items)
  have arch: "length arch = naregs" and lens: "length (rt_fsnap T) = LENGTH('k)" "length (rt_ssnap T) = LENGTH('k)"
    "\<forall>m \<in> set (rt_msnap T). length m = naregs" and small: "\<forall>p \<in> set (used_pregs arch items). p < LENGTH('f)"
    and kb: "\<forall>k \<in> set (item_branches items). k < LENGTH('k)"
    and fr: "\<forall>p < LENGTH('f). bit (rt_free T) p \<longrightarrow> p \<notin> set (used_pregs arch items)"
    and cons: "\<forall>p < LENGTH('f). p \<noteq> naregs - 1 \<longrightarrow> bit (rt_free T) p \<or> p \<in> set (used_pregs arch items)"
    and sf: "\<forall>k < LENGTH('k). bit (rt_sfree T) k \<longleftrightarrow> k \<notin> set (item_branches items)"
    using inv by (simp_all add: renaming_ok_def)
  have "\<forall>p < LENGTH('f). bit (rt_free ?T') p \<longrightarrow> p \<notin> set (used_pregs arch pre)"
    using fr d(2) unfolding free used by auto
  moreover have "\<forall>p < LENGTH('f). p \<noteq> naregs - 1 \<longrightarrow> bit (rt_free ?T') p \<or> p \<in> set (used_pregs arch pre)"
    using cons unfolding free used by auto
  moreover have "\<forall>k < LENGTH('k). bit (rt_sfree ?T') k \<longleftrightarrow> k \<notin> set (item_branches pre)"
    using sf br(2) jpre unfolding sfree items by auto
  moreover have "\<forall>p \<in> set (used_pregs arch pre). p < LENGTH('f)" using small by (simp add: used)
  moreover have "\<forall>k \<in> set (item_branches pre). k < LENGTH('k)" using kb by (simp add: items)
  ultimately show ?thesis
    unfolding pre_def [symmetric] renaming_ok_def
    using arch lens len(1) snaps map dsts d(1) br(1) by simp
qed

text \<open>A rollback to the committed state; \<open>lost\<close> marks what is kept as used beyond the architectural
  registers.\<close>

lemma bit_not_0: "bit (NOT 0 :: 'k::len word) k \<longleftrightarrow> k < LENGTH('k)"
  by (simp add: bit_not_iff)

lemma renaming_rollback:
  fixes T :: "('f::len word, 'k::len word) rename_tables"
  assumes inv: "renaming_ok naregs T arch items"
    and free: "\<And>p. p < LENGTH('f) \<Longrightarrow> bit fr p \<Longrightarrow> p \<notin> set (tl arch)"
    and lost: "\<And>p. p < LENGTH('f) \<Longrightarrow> p \<noteq> naregs - 1 \<Longrightarrow> \<not> bit fr p \<Longrightarrow> p \<in> set (tl arch)"
    and map: "length m = naregs" "tl m = tl arch"
  shows "renaming_ok naregs (T\<lparr>rt_sfree := NOT 0, rt_free := fr, rt_map := m\<rparr>) arch []"
proof -
  let ?T = "T\<lparr>rt_sfree := NOT 0, rt_free := fr, rt_map := m\<rparr>"
  have used: "distinct (used_pregs arch items)" "\<forall>p \<in> set (used_pregs arch items). p < LENGTH('f)"
    using inv by (simp_all add: renaming_ok_def)
  then have tl: "distinct (tl arch)" "\<forall>p \<in> set (tl arch). p < LENGTH('f)" by (simp_all add: used_pregs_def)
  have keep: "length arch = naregs" "length (rt_fsnap T) = LENGTH('k)" "length (rt_ssnap T) = LENGTH('k)" "length (rt_msnap T) = LENGTH('k)"
    "\<forall>m \<in> set (rt_msnap T). length m = naregs"
    using inv by (simp_all add: renaming_ok_def)
  have "\<forall>p < LENGTH('f). bit (rt_free ?T) p \<longrightarrow> p \<notin> set (tl arch)" using free by simp
  moreover have "\<forall>p < LENGTH('f). p \<noteq> naregs - 1 \<longrightarrow> bit (rt_free ?T) p \<or> p \<in> set (tl arch)"
    using lost by auto
  moreover have "\<forall>k < LENGTH('k). bit (rt_sfree ?T) k \<longleftrightarrow> k \<notin> set (item_branches [])" by (simp add: bit_not_0)
  moreover have "length (rt_map ?T) = naregs" "tl (rt_map ?T) = tl (item_map arch [])" using map by simp_all
  moreover have "dsts_ok naregs []" "used_pregs arch [] = tl arch" by (simp_all add: dsts_ok_def used_pregs_def)
  ultimately show ?thesis
    unfolding renaming_ok_def using keep tl by simp
qed


section \<open>The ports of one cycle\<close>

text \<open>Register files with one write port, or with the two of \<open>arch_used_pregs\<close>.\<close>

lemma regfile_one_port:
  assumes "length z = length regs" and "c \<Longrightarrow> unat a < length regs"
  shows "regfile_step False True regs
           \<lparr> rf_read_addr = ra, rf_write_call = [c], rf_write_addr = [a :: 'i::len word], rf_write_data = [d],
             rf_set_call = False, rf_set_in = z \<rparr> =
         (let regs' = (if c then regs[unat a := d] else regs)
          in (regs', \<lparr> rf_read_data = map (\<lambda>a. list_read regs (unat a)) ra, rf_dump_out = regs' \<rparr>))"
proof -
  let ?i = "\<lparr> rf_read_addr = ra, rf_write_call = [c], rf_write_addr = [a], rf_write_data = [d],
             rf_set_call = False, rf_set_in = z \<rparr>"
  let ?out = "let regs' = (if c then regs[unat a := d] else regs)
          in (regs', \<lparr> rf_read_data = map (\<lambda>a. list_read regs (unat a)) ra, rf_dump_out = regs' \<rparr>)"
  have "regfile_fl_step False True regs ?i = Some ?out"
    using assms by (simp add: regfile_fl_step_def rf_writes_def regfile_fl_write_def regfile_fl_dump_def
        regfile_fl_read_def Let_def)
  then have "regfile_fl_step False True regs ?i = Some (fst ?out, snd ?out)" by simp
  from regfile.step_sim [OF _ _ this, of regs "length regs"] assms
  have "snd (regfile_step False True regs ?i) = snd ?out \<and> fst (regfile_step False True regs ?i) = fst ?out"
    by (simp add: regfile_ok_def regfile_ports_ok_def)
  then show ?thesis by (simp add: prod_eq_iff)
qed

lemma regfile_two_ports:
  assumes "length z = length regs" and "c \<Longrightarrow> unat a < length regs \<and> unat b < length regs"
  shows "regfile_step False True regs
           \<lparr> rf_read_addr = [], rf_write_call = [c, c], rf_write_addr = [a :: 'i::len word, b],
             rf_write_data = [d, e], rf_set_call = False, rf_set_in = z \<rparr> =
         (let regs' = (if c then (regs[unat a := d])[unat b := e] else regs)
          in (regs', \<lparr> rf_read_data = [], rf_dump_out = regs' \<rparr>))"
proof -
  let ?i = "\<lparr> rf_read_addr = [], rf_write_call = [c, c], rf_write_addr = [a, b],
             rf_write_data = [d, e], rf_set_call = False, rf_set_in = z \<rparr>"
  let ?out = "let regs' = (if c then (regs[unat a := d])[unat b := e] else regs)
          in (regs', \<lparr> rf_read_data = [], rf_dump_out = regs' \<rparr>)"
  have "regfile_fl_step False True regs ?i = Some (fst ?out, snd ?out)"
    using assms by (simp add: regfile_fl_step_def rf_writes_def regfile_fl_write_def regfile_fl_dump_def Let_def)
  from regfile.step_sim [OF _ _ this, of regs "length regs"] assms
  have "snd (regfile_step False True regs ?i) = snd ?out \<and> fst (regfile_step False True regs ?i) = fst ?out"
    by (simp add: regfile_ok_def regfile_ports_ok_def)
  then show ?thesis by (simp add: prod_eq_iff)
qed

text \<open>A snapshotting free list with one port of each kind.\<close>

definition snap_fl_next ::
  "'n::len word snap_fl_state \<Rightarrow> bool \<times> nat \<Rightarrow> bool \<Rightarrow> bool \<times> 'n word \<Rightarrow> bool \<times> nat \<Rightarrow> bool \<times> nat \<Rightarrow> 'n word snap_fl_state"
where
  "snap_fl_next st free alloc set_state reset revert =
     (let (bits, snaps) = st; k = the (first_set bits);
          bits1 = (if alloc then unset_bit k bits else bits);
          snaps1 = (if alloc then map (set_bit k) snaps else snaps);
          bits2 = (if fst free then set_bit (snd free) bits1 else bits1);
          snaps2 = (if fst reset then snaps1[snd reset := 0] else snaps1);
          bits3 = (if fst revert then bits2 OR snaps2 ! snd revert else bits2)
      in (if fst set_state then snd set_state else bits3, snaps2))"

lemma snap_fl_one_port:
  fixes t :: "'n::len word snap_fl_state" and s :: "'n word snap_fl"
  assumes R: "snap_fl_rel s t" and w: "LENGTH('n) \<le> 2 ^ LENGTH('i)"
    and alloc: "ac \<Longrightarrow> fst t \<noteq> 0" and free: "fc \<Longrightarrow> unat (fi :: 'i::len word) < LENGTH('n)"
    and rst: "rc \<Longrightarrow> unat (tgt :: 'k::len word) < length (snd t)" and src: "unat src < length (snd t)"
  shows "snap_fl_rel (fst (snap_fl_step s
           \<lparr> sfl_free = [(fc, fi)], sfl_alloc_call = [ac], sfl_set_call = sc, sfl_set_state = ss,
             sfl_reset_call = rc, sfl_target_id = tgt, sfl_revert_call = vc, sfl_source_id = src \<rparr>))
         (snap_fl_next t (fc, unat fi) ac (sc, ss) (rc, unat tgt) (vc, unat src)) \<and>
       length (snd (snap_fl_next t (fc, unat fi) ac (sc, ss) (rc, unat tgt) (vc, unat src))) = length (snd t)"
proof -
  let ?i = "\<lparr> sfl_free = [(fc, fi)], sfl_alloc_call = [ac], sfl_set_call = sc, sfl_set_state = ss,
             sfl_reset_call = rc, sfl_target_id = tgt, sfl_revert_call = vc, sfl_source_id = src \<rparr>"
  obtain bits snaps where t: "t = (bits, snaps)" by force
  have same: "word_bits (bit w) = w" for w :: "'n word" by (rule bit_word_eqI) simp
  have "\<exists>out. snap_fl_fl_step t ?i =
      Some (snap_fl_next t (fc, unat fi) ac (sc, ss) (rc, unat tgt) (vc, unat src), out)"
  proof (cases ac)
    case True
    then obtain k where "first_set bits = Some k" using alloc t by (cases "first_set bits") auto
    then show ?thesis
      using True free rst src t
      by (auto simp: snap_fl_fl_step_def snap_fl_next_def snap_fl_fl_alloc_def freelist_fl_alloc_first
          freelist_fl_free_def snap_fl_fl_reset_def snap_fl_fl_revert_def freelist_fl_release_def
          freelist_fl_set_def same Let_def)
  next
    case False
    then show ?thesis
      using free rst src t
      by (auto simp: snap_fl_fl_step_def snap_fl_next_def freelist_fl_free_def snap_fl_fl_reset_def
          snap_fl_fl_revert_def freelist_fl_release_def freelist_fl_set_def same Let_def)
  qed
  then obtain out where fl: "snap_fl_fl_step t ?i =
      Some (snap_fl_next t (fc, unat fi) ac (sc, ss) (rc, unat tgt) (vc, unat src), out)" by blast
  show ?thesis
    using snap_fl.step_sim [OF _ _ fl, of s "length (snd t)"] R w src by (simp add: snap_fl_ok_def)
qed


text \<open>The rename table with one update port.\<close>

definition rename_next ::
  "'p list \<times> 'p list list \<Rightarrow> bool \<times> nat \<times> 'p \<Rightarrow> bool \<times> nat \<Rightarrow> bool \<times> nat \<Rightarrow> bool \<times> 'p list \<Rightarrow> 'p list \<times> 'p list list"
where
  "rename_next st upd snapshot restore set_in =
     (let (regs, snaps) = st;
          written = (if fst upd then regs[fst (snd upd) := snd (snd upd)] else regs);
          snaps' = (if fst snapshot then snaps[snd snapshot := written] else snaps);
          restored = (if fst restore then snaps' ! snd restore else written)
      in (if fst set_in then snd set_in else restored, snaps'))"

lemma map2_map_self: "map2 f xs (map g xs) = map (\<lambda>x. f x (g x)) xs"
  by (induction xs) auto

lemma rename_one_port:
  fixes st :: "'p snap_rf" and a :: "'a::len word" and tgt src :: "'s::len word"
  assumes shape: "snap_rf_shape naregs nsnapshots st" and a: "c \<Longrightarrow> a \<noteq> 0 \<and> unat a < naregs"
    and z: "length z = naregs" and tgt: "sn \<Longrightarrow> unat tgt < nsnapshots" and src: "unat src < nsnapshots"
    and ra: "\<forall>r \<in> set ra. unat (r :: 'a word) < naregs"
  shows "rename_step True zero_tag st
           \<lparr> rn_lookup = ra, rn_update = [(c, a, p)], rn_snapshot_call = sn, rn_target_id = tgt,
             rn_restore_call = rc, rn_source_id = src, rn_set_call = sc, rn_set_in = z \<rparr> =
         (rename_next st (c, unat a, p) (sn, unat tgt) (rc, unat src) (sc, z),
          map (\<lambda>r. Some (if r = 0 then zero_tag else fst st ! unat r)) ra)"
proof -
  obtain regs snaps where st: "st = (regs, snaps)" by force
  let ?i = "\<lparr> rn_lookup = ra, rn_update = [(c, a, p)], rn_snapshot_call = sn, rn_target_id = tgt,
             rn_restore_call = rc, rn_source_id = src, rn_set_call = sc, rn_set_in = z \<rparr>"
  have len: "length regs = naregs" "length snaps = nsnapshots" using shape by (auto simp: st snap_rf_shape_def)
  have call: "(if True \<and> a = 0 then False else c) = c" using a by auto
  have "snap_rf_fl_step False True st (rename_ports True ?i) =
      Some (rename_next st (c, unat a, p) (sn, unat tgt) (rc, unat src) (sc, z),
            map (\<lambda>r. regfile_fl_read regs (unat r)) ra)"
    using a tgt src len call
    by (simp add: st snap_rf_fl_step_def rename_ports_def rename_next_def rf_writes_def regfile_fl_write_def
        snap_rf_fl_snapshot_def snap_rf_fl_restore_def regfile_fl_set_def regfile_fl_dump_def Let_def)
  from snap_rf.step_sim [OF _ _ this, of st naregs nsnapshots] shape src z
  have "snap_rf_step False True st (rename_ports True ?i) =
      (rename_next st (c, unat a, p) (sn, unat tgt) (rc, unat src) (sc, z),
       map (\<lambda>r. regfile_fl_read regs (unat r)) ra)"
    by (simp add: snap_rf_ok_def rename_ports_def regfile_ports_ok_def prod_eq_iff)
  then show ?thesis
    using ra len by (auto simp: rename_step_def st regfile_fl_read_def list_read_def map2_map_self)
qed

lemma dst_ports_one:
  "dst_ports zero_tag [(call, areg)] (fr :: 'f::len word) =
     (let wb = call \<and> areg \<noteq> 0 \<and> fr \<noteq> 0
      in [(fr \<noteq> 0, wb, if areg = 0 \<or> fr = 0 then zero_tag else of_nat (the (first_set fr)), wb)])"
  by (cases "first_set fr") (auto simp: dst_port_def priority_decoder_first_set Let_def)


section \<open>The data flow manager with the program order beside it\<close>

type_synonym ('p, 'd, 'f, 'q, 'k) rename_system =
  "('p, 'd, 'f, 'q, 'k) dataflow \<times> nat list \<times> rename_item list"

text \<open>What a cycle does to the committed map and the items: commit of the oldest destination,
  allocation, snapshot, resolution or restore of a branch, rollback.\<close>

definition rename_order ::
  "'p::len word \<Rightarrow> nat list \<times> rename_item list \<Rightarrow> ('a::len word, 'p word, 'd, 't, 's::len word) dataflow_in \<Rightarrow>
   ('p word, 'd, 't, 's word, 'q) dataflow_out \<Rightarrow> nat list \<times> rename_item list" where
  "rename_order zero_tag st i out =
     (let (arch, items) = st;
          (commit, tag, areg) = hd (di_commit i);
          (dst, dst_areg) = hd (di_get_dst i);
          (rdy, preg) = hd (do_get_dst out);
          (arch1, items1) = (if commit \<and> tag \<noteq> zero_tag then (arch[unat areg := unat tag], tl items) else (arch, items));
          items2 = (if dst \<and> dst_areg \<noteq> 0 \<and> rdy then items1 @ [Dst (unat dst_areg) (unat preg)] else items1);
          items3 = (if di_snapshot i then items2 @ [Branch (unat (snd (do_snapshot out)))] else items2);
          items4 = (if fst (di_restore i) then item_restore (unat (snd (di_restore i))) items3
                    else if fst (di_free_snapshot i) then item_resolve (unat (snd (di_free_snapshot i))) items3
                    else items3)
      in (arch1, if di_rollback i then [] else items4))"

definition rename_system_step ::
  "('p::len word, 'd::zero, 'f::len word, 'q::len word, 'k::len word) rename_system \<Rightarrow>
   ('a::len word, 'p word, 'd, 't::len word, 's::len word) dataflow_in \<Rightarrow>
   (('p word, 'd, 'f word, 'q word, 'k word) rename_system \<times>
    ('p word, 'd, 't word, 's word, 'q word) dataflow_out) option" where
  "rename_system_step st i =
     (let (s, order) = st
      in do { (s', out) \<leftarrow> dataflow_step s i;
              Some ((s', rename_order (of_nat LENGTH('f)) order i out), out) })"

text \<open>The protocol of the core: one port of each kind; a destination, a snapshot or a store id is asked
  for when ready; the oldest item commits; a branch in flight is resolved, and freed when it is
  restored; nothing is renamed in a cycle that restores or rolls back; every index is in its table.\<close>

definition rename_env_ok ::
  "nat \<Rightarrow> ('p::len word, 'd::zero, 'f::len word, 'q::len word, 'k::len word) rename_system \<Rightarrow>
   ('a::len word, 'p word, 'd, 't::len word, 's::len word) dataflow_in \<Rightarrow> bool" where
  "rename_env_ok naregs st i \<longleftrightarrow>
     (let (s, arch, items) = st; zero_tag = of_nat LENGTH('f) :: 'p word
      in length (di_get_dst i) = 1 \<and> length (di_commit i) = 1 \<and> length (di_get_store_id i) = 1 \<and>
         length (di_free_store_id i) = 1 \<and>
         (fst (hd (di_get_dst i)) \<and> snd (hd (di_get_dst i)) \<noteq> 0 \<longrightarrow> fst (df_free_regs s) \<noteq> 0) \<and>
         unat (snd (hd (di_get_dst i))) < naregs \<and>
         (di_snapshot i \<longrightarrow> fst (df_snapshot_allocator s) \<noteq> 0) \<and>
         (hd (di_get_store_id i) \<longrightarrow> fst (df_store_ids s) \<noteq> 0) \<and>
         (fst (hd (di_free_store_id i)) \<longrightarrow> unat (snd (hd (di_free_store_id i))) < LENGTH('q)) \<and>
         (case hd (di_commit i) of (call, tag, areg) \<Rightarrow>
            unat areg < naregs \<and>
            (call \<and> tag \<noteq> zero_tag \<longrightarrow> items \<noteq> [] \<and> hd items = Dst (unat areg) (unat tag))) \<and>
         (fst (di_free_snapshot i) \<longrightarrow> Branch (unat (snd (di_free_snapshot i))) \<in> set items) \<and>
         (fst (di_restore i) \<longrightarrow> di_free_snapshot i = di_restore i) \<and>
         unat (snd (di_restore i)) < LENGTH('k) \<and>
         (fst (di_restore i) \<or> di_rollback i \<longrightarrow> \<not> fst (hd (di_get_dst i)) \<and> \<not> di_snapshot i) \<and>
         (\<forall>a \<in> set (di_get_src i). unat a < naregs) \<and>
         (\<forall>p \<in> set (di_is_ready i @ di_read i). unat p \<le> LENGTH('f)) \<and>
         (\<forall>w \<in> set (di_write i). fst w \<longrightarrow> unat (fst (snd w)) \<le> LENGTH('f)))"

text \<open>What the core may rely on: a source is the youngest older destination of its register, or else
  the committed one, and x0 the zero tag; a granted register is used by nothing; a snapshot is ready
  exactly when some id is held by no unresolved branch, and the id offered then is such an id.\<close>

definition rename_answers_ok ::
  "('p::len word, 'd::zero, 'f::len word, 'q::len word, 'k::len word) rename_system \<Rightarrow>
   ('a::len word, 'p word, 'd, 't::len word, 's::len word) dataflow_in \<Rightarrow> ('p word, 'd, 't word, 's word, 'q word) dataflow_out \<Rightarrow> bool" where
  "rename_answers_ok st i out \<longleftrightarrow>
     (let (s, arch, items) = st; zero_tag = of_nat LENGTH('f) :: 'p word
      in do_get_src out = map (\<lambda>a. if a = 0 then zero_tag else of_nat (item_map arch items ! unat a)) (di_get_src i) \<and>
         (case (hd (di_get_dst i), hd (do_get_dst out)) of ((call, areg), rdy, preg) \<Rightarrow>
            (areg = 0 \<longrightarrow> preg = zero_tag) \<and>
            (call \<and> areg \<noteq> 0 \<longrightarrow> rdy \<and> unat preg < LENGTH('f) \<and> unat preg \<notin> set (used_pregs arch items))) \<and>
         (fst (do_snapshot out) \<longleftrightarrow> (\<exists>k \<in> {..<LENGTH('k)}. Branch k \<notin> set items)) \<and>
         (fst (do_snapshot out) \<longrightarrow> Branch (unat (snd (do_snapshot out))) \<notin> set items))"


section \<open>One cycle keeps the invariant\<close>

definition tables_of ::
  "'f::len word snap_fl_state \<Rightarrow> 'k::len word snap_fl_state \<Rightarrow> nat list \<times> nat list list \<Rightarrow> ('f word, 'k word) rename_tables" where
  "tables_of ft kt mt =
     \<lparr> rt_free = fst ft, rt_fsnap = snd ft, rt_sfree = fst kt, rt_ssnap = snd kt, rt_map = fst mt, rt_msnap = snd mt \<rparr>"

lemma tables_of_simps [simp]:
  "rt_free (tables_of ft kt mt) = fst ft" "rt_fsnap (tables_of ft kt mt) = snd ft"
  "rt_sfree (tables_of ft kt mt) = fst kt" "rt_ssnap (tables_of ft kt mt) = snd kt"
  "rt_map (tables_of ft kt mt) = fst mt" "rt_msnap (tables_of ft kt mt) = snd mt"
  by (simp_all add: tables_of_def)

lemma set_unset_bit_commute: "j \<noteq> k \<Longrightarrow> set_bit j (unset_bit k w) = unset_bit k (set_bit j w)" for w :: "'a::len word"
  by (rule bit_word_eqI) (auto simp: bit_simps)

lemma renaming_cycle:
  fixes ft :: "'f::len word snap_fl_state" and kt :: "'k::len word snap_fl_state"
  assumes inv: "renaming_ok naregs (tables_of ft kt mt) arch items"
    and live: "live \<Longrightarrow> items \<noteq> [] \<and> hd items = Dst ca ct"
    and wb: "wb \<Longrightarrow> 0 < da \<and> da < naregs \<and> first_set (fst ft) = Some k"
    and sn: "sn \<Longrightarrow> first_set (fst kt) = Some sid"
    and fc: "fc \<Longrightarrow> fid \<in> set (item_branches items)" and rc: "rc \<Longrightarrow> fc \<and> rid = fid"
    and quiet: "rc \<or> rb \<Longrightarrow> \<not> wb \<and> \<not> sn"
    and arch': "arch' = (if live then arch[ca := ct] else arch)"
    and free: "\<And>p. p < LENGTH('f) \<Longrightarrow> bit fr p \<Longrightarrow> p \<notin> set (tl arch')"
    and lost: "\<And>p. p < LENGTH('f) \<Longrightarrow> p \<noteq> naregs - 1 \<Longrightarrow> \<not> bit fr p \<Longrightarrow> p \<in> set (tl arch')"
    and m: "length m = naregs" "tl m = tl arch'"
    and items1: "items1 = (if live then tl items else items)"
    and items2: "items2 = (if wb then items1 @ [Dst da k] else items1)"
    and items3: "items3 = (if sn then items2 @ [Branch sid] else items2)"
    and items4: "items4 = (if rc then item_restore rid items3 else if fc then item_resolve fid items3 else items3)"
  shows "renaming_ok naregs
           (tables_of (snap_fl_next ft (live, arch ! ca) wb (rb, fr) (sn, sid) (rc, rid))
                      (snap_fl_next kt (fc, fid) sn (rb, NOT 0) (sn, sid) (rc, rid))
                      (rename_next mt (wb, da, k) (sn, sid) (rc, rid) (rb, m)))
           arch' (if rb then [] else items4)"
proof -
  let ?T = "tables_of ft kt mt"
  let ?T1 = "if live then ?T\<lparr>rt_free := set_bit (arch ! ca) (rt_free ?T)\<rparr> else ?T"
  have 1: "renaming_ok naregs ?T1 arch' items1" and old: "live \<Longrightarrow> arch ! ca \<in> set (used_pregs arch items)"
  proof -
    have dst: "items = Dst ca ct # tl items" if live using live [OF that] by (cases items) auto
    show "renaming_ok naregs ?T1 arch' items1"
    proof (cases live)
      case True
      then show ?thesis using renaming_commit(1) [of naregs ?T arch ca ct "tl items"] inv dst [OF True]
        by (simp add: arch' items1)
    qed (use inv in \<open>simp add: arch' items1\<close>)
    show "arch ! ca \<in> set (used_pregs arch items)" if live
      using renaming_commit(2) [of naregs ?T arch ca ct "tl items"] inv dst [OF that] by (simp add: used_pregs_def)
  qed
  have fid1: "fid \<in> set (item_branches items1)" if fc
    using fc [OF that] live by (cases items) (auto simp: items1)
  consider (rollback) rb | (restore) "\<not> rb" rc | (normal) "\<not> rb" "\<not> rc" by blast
  then show ?thesis
  proof cases
    case rollback
    then have "tables_of (snap_fl_next ft (live, arch ! ca) wb (rb, fr) (sn, sid) (rc, rid))
        (snap_fl_next kt (fc, fid) sn (rb, NOT 0) (sn, sid) (rc, rid)) (rename_next mt (wb, da, k) (sn, sid) (rc, rid) (rb, m)) =
      ?T1\<lparr>rt_sfree := NOT 0, rt_free := fr, rt_map := m\<rparr>"
      using quiet by (cases ft; cases kt; cases mt; simp add: snap_fl_next_def rename_next_def tables_of_def Let_def)
    then show ?thesis
      using rollback renaming_rollback [OF 1 free lost m] by simp
  next
    case restore
    then have q: "\<not> wb" "\<not> sn" "fc" "rid = fid" using quiet rc by auto
    have "tables_of (snap_fl_next ft (live, arch ! ca) wb (rb, fr) (sn, sid) (rc, rid))
        (snap_fl_next kt (fc, fid) sn (rb, NOT 0) (sn, sid) (rc, rid)) (rename_next mt (wb, da, k) (sn, sid) (rc, rid) (rb, m)) =
      ?T1\<lparr>rt_sfree := set_bit fid (rt_sfree ?T1) OR rt_ssnap ?T1 ! fid, rt_free := rt_free ?T1 OR rt_fsnap ?T1 ! fid,
         rt_map := rt_msnap ?T1 ! fid\<rparr>"
      using restore q by (cases ft; cases kt; cases mt; simp add: snap_fl_next_def rename_next_def tables_of_def Let_def)
    then show ?thesis
      using restore q renaming_restore [OF 1 fid1] by (simp add: items2 items3 items4)
  next
    case normal
    let ?T2 = "if wb then ?T1\<lparr>rt_free := unset_bit k (rt_free ?T1), rt_fsnap := map (set_bit k) (rt_fsnap ?T1),
        rt_map := (rt_map ?T1)[da := k]\<rparr> else ?T1"
    have kfree: "bit (fst ft) k" if wb using wb [OF that] by (auto simp: first_set_Some_iff)
    have "bit (rt_free ?T1) k" if wb using kfree [OF that] by (auto simp: bit_set_bit_iff dest: bit_imp_le_length)
    then have 2: "renaming_ok naregs ?T2 arch' items2"
      using renaming_alloc(1) [OF 1, of k da] wb 1 by (cases wb) (auto simp: items2)
    have knew: "k \<noteq> arch ! ca" if wb live
    proof -
      have "bit (rt_free ?T) k" "k < LENGTH('f)" using kfree [OF that(1)] bit_imp_le_length by auto
      then have "k \<notin> set (used_pregs arch items)" using inv by (simp add: renaming_ok_def)
      then show ?thesis using old [OF that(2)] by auto
    qed
    let ?T3 = "if sn then ?T2\<lparr>rt_sfree := unset_bit sid (rt_sfree ?T2), rt_ssnap := (map (set_bit sid) (rt_ssnap ?T2))[sid := 0],
        rt_fsnap := (rt_fsnap ?T2)[sid := 0], rt_msnap := (rt_msnap ?T2)[sid := rt_map ?T2]\<rparr> else ?T2"
    have "bit (rt_sfree ?T2) sid" if sn using sn [OF that] by (auto simp: first_set_Some_iff)
    then have 3: "renaming_ok naregs ?T3 arch' items3"
      using renaming_snapshot(1) [OF 2, of sid] 2 by (cases sn) (auto simp: items3)
    let ?T4 = "if fc then ?T3\<lparr>rt_sfree := set_bit fid (rt_sfree ?T3)\<rparr> else ?T3"
    have "fid \<in> set (item_branches items3)" if fc using fid1 [OF that] by (simp add: items2 items3)
    then have "renaming_ok naregs ?T4 arch' items4"
      using renaming_resolve [OF 3, of fid] 3 normal by (cases fc) (auto simp: items4)
    moreover have "tables_of (snap_fl_next ft (live, arch ! ca) wb (rb, fr) (sn, sid) (rc, rid))
        (snap_fl_next kt (fc, fid) sn (rb, NOT 0) (sn, sid) (rc, rid)) (rename_next mt (wb, da, k) (sn, sid) (rc, rid) (rb, m)) =
      ?T4"
      using normal wb sn knew
      by (cases ft; cases kt; cases mt; cases live; cases wb; cases sn; cases fc;
          simp add: snap_fl_next_def rename_next_def tables_of_def Let_def set_unset_bit_commute)
    ultimately show ?thesis using normal by simp
  qed
qed


lemma bit_pack_bits:
  assumes "length bs = LENGTH('n)"
  shows "bit (pack_bits bs :: 'n::len word) p \<longleftrightarrow> p < LENGTH('n) \<and> bs ! p"
proof -
  have "bs = map (bit (word_bits (\<lambda>p. bs ! p) :: 'n word)) [0..<LENGTH('n)]"
    using assms by (intro nth_equalityI) auto
  then have "pack_bits bs = (word_bits (\<lambda>p. bs ! p) :: 'n word)" by (metis pack_bits_bit)
  then show ?thesis by simp
qed

lemma zip_map_self: "zip (map f xs) (map g xs) = map (\<lambda>x. (f x, g x)) xs"
  by (induction xs) auto

lemma those_map_Some: "(\<And>x. x \<in> set xs \<Longrightarrow> f x = Some (g x)) \<Longrightarrow> those (map f xs) = Some (map g xs)"
  by (induction xs) auto

lemma async_ram_writes_in_range:
  "(\<And>call addr data. (call, addr, data) \<in> set ws \<Longrightarrow> call \<Longrightarrow> unat addr < length regs) \<Longrightarrow>
   \<exists>regs'. async_ram_writes regs ws = Some regs' \<and> length regs' = length regs"
proof (induction regs ws rule: async_ram_writes.induct)
  case (2 regs call addr data rest)
  show ?case
  proof (cases call)
    case True
    then have "unat addr < length regs" using "2.prems" [of call addr data] by simp
    moreover from this have "\<exists>regs'. async_ram_writes (regs[unat addr := data]) rest = Some regs' \<and>
        length regs' = length (regs[unat addr := data])"
      using True "2.prems" by (intro "2.IH"(2)) auto
    ultimately show ?thesis using True by simp
  next
    case False
    then show ?thesis using "2.IH"(1) "2.prems" by simp
  qed
qed simp

text \<open>The step for single ports, every table update in closed form.\<close>

lemma dataflow_step_one:
  fixes s :: "('p::len word, 'd::zero, 'f::len word, 'q::len word, 'k::len word) dataflow"
    and i :: "('a::len word, 'p word, 'd, 't::len word, 's::len word) dataflow_in" and zt :: "'p word"
  assumes zt: "zt = of_nat LENGTH('f)"
    and ports: "di_get_dst i = [(dc, da)]" "di_commit i = [(cc, ct, ca)]" "di_get_store_id i = [gs]"
      "di_free_store_id i = [(sc, si)]" "di_free_snapshot i = (fc, fid)" "di_restore i = (rc, rid)"
    and live: "live \<longleftrightarrow> cc \<and> ct \<noteq> zt" and wb: "wb \<longleftrightarrow> dc \<and> da \<noteq> 0 \<and> fst (df_free_regs s) \<noteq> 0"
    and preg: "preg = (if da = 0 \<or> fst (df_free_regs s) = 0 then zt else of_nat (the (first_set (fst (df_free_regs s)))))"
    and sid: "sid = (case first_set (fst (df_snapshot_allocator s)) of None \<Rightarrow> 0 | Some k \<Rightarrow> of_nat k)"
    and shape: "snap_rf_shape naregs LENGTH('k) (df_rename_table s)" "length (df_areg_file s) = naregs"
      "length (df_arch_used_pregs s) = LENGTH('f)" "length (df_preg_file s) = Suc LENGTH('f)"
      "length (df_ready_table s) = Suc LENGTH('f)"
    and fits: "LENGTH('f) < 2 ^ LENGTH('p)"
    and rng: "unat ca < naregs" "unat da < naregs" "live \<Longrightarrow> unat ct < LENGTH('f) \<and> unat (df_areg_file s ! unat ca) < LENGTH('f)"
      "di_snapshot i \<Longrightarrow> unat sid < LENGTH('k)" "unat rid < LENGTH('k)" "\<forall>a \<in> set (di_get_src i). unat a < naregs"
      "\<forall>p \<in> set (di_is_ready i @ di_read i). unat p \<le> LENGTH('f)"
      "\<forall>w \<in> set (di_write i). fst w \<longrightarrow> unat (fst (snd w)) \<le> LENGTH('f)" "unat preg \<le> LENGTH('f)"
    and areg': "areg' = (if live then (df_areg_file s)[unat ca := ct] else df_areg_file s)"
    and used': "used' = (if live then (df_arch_used_pregs s)[unat (df_areg_file s ! unat ca) := False, unat ct := True]
                         else df_arch_used_pregs s)"
  shows "\<exists>s' out. dataflow_step s i = Some (s', out) \<and>
    df_areg_file s' = areg' \<and> df_arch_used_pregs s' = used' \<and>
    df_free_regs s' = fst (snap_fl_step (df_free_regs s)
      \<lparr> sfl_free = [(live, df_areg_file s ! unat ca)], sfl_alloc_call = [wb], sfl_set_call = di_rollback i,
        sfl_set_state = NOT (pack_bits used'), sfl_reset_call = di_snapshot i, sfl_target_id = sid,
        sfl_revert_call = rc, sfl_source_id = rid \<rparr>) \<and>
    df_snapshot_allocator s' = fst (snap_fl_step (df_snapshot_allocator s)
      \<lparr> sfl_free = [(fc, fid)], sfl_alloc_call = [di_snapshot i], sfl_set_call = di_rollback i,
        sfl_set_state = NOT 0, sfl_reset_call = di_snapshot i, sfl_target_id = sid,
        sfl_revert_call = rc, sfl_source_id = rid \<rparr>) \<and>
    df_store_ids s' = fst (snap_fl_step (df_store_ids s)
      \<lparr> sfl_free = [(sc, si)], sfl_alloc_call = [gs], sfl_set_call = di_rollback i,
        sfl_set_state = NOT 0, sfl_reset_call = di_snapshot i, sfl_target_id = sid,
        sfl_revert_call = rc, sfl_source_id = rid \<rparr>) \<and>
    df_rename_table s' = rename_next (df_rename_table s) (wb, unat da, preg) (di_snapshot i, unat sid)
      (rc, unat rid) (di_rollback i, areg') \<and>
    length (df_preg_file s') = Suc LENGTH('f) \<and> length (df_ready_table s') = Suc LENGTH('f) \<and>
    do_get_src out = map (\<lambda>r. if r = 0 then zt else fst (df_rename_table s) ! unat r) (di_get_src i) \<and>
    do_get_dst out = [(fst (df_free_regs s) \<noteq> 0, preg)] \<and>
    do_snapshot out = (fst (df_snapshot_allocator s) \<noteq> 0, sid)"
proof -
  have nz: "not_zero_tag zt (cc, ct, ca) = live" by (simp add: live not_zero_tag_def conj_commute)
  have areg: "regfile_step False True (df_areg_file s)
      \<lparr> rf_read_addr = [ca], rf_write_call = [live], rf_write_addr = [ca], rf_write_data = [ct],
        rf_set_call = False, rf_set_in = replicate (length (df_areg_file s)) 0 \<rparr> =
      (areg', \<lparr> rf_read_data = [Some (df_areg_file s ! unat ca)], rf_dump_out = areg' \<rparr>)"
    using rng(1) shape(2) by (subst regfile_one_port) (simp_all add: areg' list_read_def Let_def)
  have used: "regfile_step False True (df_arch_used_pregs s)
      \<lparr> rf_read_addr = [], rf_write_call = [live, live], rf_write_addr = [df_areg_file s ! unat ca, ct],
        rf_write_data = [False, True], rf_set_call = False,
        rf_set_in = replicate (length (df_arch_used_pregs s)) False \<rparr> =
      (used', \<lparr> rf_read_data = [], rf_dump_out = used' \<rparr>)"
    using rng(3) shape(3) by (subst regfile_two_ports) (simp_all add: used' Let_def)
  have dst: "dst_ports zt [(dc, da)] (fst (df_free_regs s)) = [(fst (df_free_regs s) \<noteq> 0, wb, preg, wb)]"
    unfolding dst_ports_one by (simp add: wb preg Let_def)
  have sa: "priority_decoder (fst (df_snapshot_allocator s)) = (sid, fst (df_snapshot_allocator s) \<noteq> 0)"
    by (cases "first_set (fst (df_snapshot_allocator s))") (auto simp: priority_decoder_first_set sid)
  have ren: "rename_step True zt (df_rename_table s)
      \<lparr> rn_lookup = di_get_src i, rn_update = [(wb, da, preg)], rn_snapshot_call = di_snapshot i, rn_target_id = sid,
        rn_restore_call = rc, rn_source_id = rid, rn_set_call = di_rollback i, rn_set_in = areg' \<rparr> =
      (rename_next (df_rename_table s) (wb, unat da, preg) (di_snapshot i, unat sid) (rc, unat rid) (di_rollback i, areg'),
       map (\<lambda>r. Some (if r = 0 then zt else fst (df_rename_table s) ! unat r)) (di_get_src i))"
    using rng shape(2) by (intro rename_one_port [OF shape(1)]) (auto simp: wb areg')
  have src: "those (map (\<lambda>r. Some (if r = 0 then zt else fst (df_rename_table s) ! unat r)) (di_get_src i)) =
      Some (map (\<lambda>r. if r = 0 then zt else fst (df_rename_table s) ! unat r) (di_get_src i))"
    by (rule those_map_Some) simp
  let ?writes = "zip (map (not_zero_tag zt) (di_write i)) (map snd (di_write i))"
  have "\<forall>p \<in> set (di_is_ready i). dataflow_is_ready zt (df_ready_table s) p \<noteq> None"
    using rng(7) shape(5) by (auto simp: dataflow_is_ready_def async_ram_read_def list_read_def less_Suc_eq_le)
  then have rdy: "those (map (dataflow_is_ready zt (df_ready_table s)) (di_is_ready i)) =
      Some (map (\<lambda>p. the (dataflow_is_ready zt (df_ready_table s) p)) (di_is_ready i))"
    by (intro those_map_Some) auto
  have "\<forall>p \<in> set (di_read i). dataflow_read zt (df_preg_file s) ?writes (di_forward i) p \<noteq> None"
    using rng(7) shape(4) by (auto simp: dataflow_read_def async_ram_read_def list_read_def less_Suc_eq_le)
  then have reads: "those (map (dataflow_read zt (df_preg_file s) ?writes (di_forward i)) (di_read i)) =
      Some (map (\<lambda>p. the (dataflow_read zt (df_preg_file s) ?writes (di_forward i) p)) (di_read i))"
    by (intro those_map_Some) auto
  have "\<exists>pf. async_ram_writes (df_preg_file s) ?writes = Some pf \<and> length pf = length (df_preg_file s)"
    using rng(8) shape(4)
    by (intro async_ram_writes_in_range) (auto simp: zip_map_self not_zero_tag_def less_Suc_eq_le dest!: bspec)
  then obtain pf where pf: "async_ram_writes (df_preg_file s) ?writes = Some pf" "length pf = Suc LENGTH('f)"
    using shape(4) by auto
  let ?rw = "zip (map (not_zero_tag zt) (di_write i)) (map (\<lambda>w. (fst (snd w), True)) (di_write i)) @ [(wb, preg, False)]"
  have "\<exists>rt. async_ram_writes (df_ready_table s) ?rw = Some rt \<and> length rt = length (df_ready_table s)"
    using rng(8,9) shape(5)
    by (intro async_ram_writes_in_range) (fastforce simp: zip_map_self not_zero_tag_def less_Suc_eq_le)
  then obtain rt where rt: "async_ram_writes (df_ready_table s) ?rw = Some rt" "length rt = Suc LENGTH('f)"
    using shape(5) by auto
  show ?thesis
    unfolding dataflow_step_def snapshot_ports_def zt [symmetric]
    by (simp add: ports nz areg used dst sa ren src rdy reads pf rt Let_def split_beta del: dst_ports.simps)
qed

end
