(* ===== verification/Rename_Refinement.thy ===== *)
theory Rename_Refinement
  imports Renaming
begin

text \<open>
  The data flow manager keeps its invariant and renames registers the way the program order says:
  the invariant of its state, the one-cycle theorem and the runs of any length.
\<close>

section \<open>The invariant of the data flow manager\<close>

definition words_fit :: "'p::len itself \<Rightarrow> 's::len itself \<Rightarrow> 't::len itself \<Rightarrow> 'f::len itself \<Rightarrow> 'q::len itself \<Rightarrow> 'k::len itself \<Rightarrow> bool" where
  "words_fit p s t f q k \<longleftrightarrow> LENGTH('f) < 2 ^ LENGTH('p) \<and> LENGTH('k) \<le> 2 ^ LENGTH('s) \<and> LENGTH('q) \<le> 2 ^ LENGTH('t)"

definition nat_tables :: "'p::len word list \<times> 'p word list list \<Rightarrow> nat list \<times> nat list list" where
  "nat_tables rt = (map unat (fst rt), map (map unat) (snd rt))"

definition dataflow_inv ::
  "nat \<Rightarrow> ('p::len word, 'd::zero, 'f::len word, 'q::len word, 'k::len word) rename_system \<Rightarrow> bool" where
  "dataflow_inv naregs st \<longleftrightarrow>
     (let (s, arch, items) = st
      in (\<exists>ft kt qt. snap_fl_rel (df_free_regs s) ft \<and> snap_fl_rel (df_snapshot_allocator s) kt \<and>
                     snap_fl_rel (df_store_ids s) qt \<and> length (snd qt) = LENGTH('k) \<and>
                     renaming_ok naregs (tables_of ft kt (nat_tables (df_rename_table s))) arch items) \<and>
         arch = map unat (df_areg_file s) \<and> length (df_arch_used_pregs s) = LENGTH('f) \<and>
         (\<forall>p \<in> set (tl arch). df_arch_used_pregs s ! p) \<and>
         (\<forall>p < LENGTH('f). p \<noteq> naregs - 1 \<longrightarrow> df_arch_used_pregs s ! p \<longrightarrow> p \<in> set (tl arch)) \<and>
         length (df_preg_file s) = Suc LENGTH('f) \<and> length (df_ready_table s) = Suc LENGTH('f))"

lemma rename_next_nat:
  "snd restore < length (snd rt) \<Longrightarrow>
   nat_tables (rename_next rt (c, a, p) snapshot restore (sc, z)) =
   rename_next (nat_tables rt) (c, a, unat p) snapshot restore (sc, map unat z)"
  by (cases rt; cases "snd snapshot < length (snd rt)")
     (auto simp: rename_next_def nat_tables_def map_update nth_list_update list_update_beyond Let_def)

lemma nth_tl_in_set: "0 < a \<Longrightarrow> a < length xs \<Longrightarrow> xs ! a \<in> set (tl xs)"
  by (cases xs; cases a) auto

lemma arch_used_commit:
  assumes d: "distinct (tl arch)" "p \<notin> set (tl arch)" and a: "0 < a" "a < length arch"
    and small: "p < length used" "\<forall>q \<in> set (tl arch). q < length used"
    and used: "\<forall>q \<in> set (tl arch). used ! q" "\<forall>q < length used. q \<noteq> x \<longrightarrow> used ! q \<longrightarrow> q \<in> set (tl arch)"
  shows "\<forall>q \<in> set (tl (arch[a := p])). used[arch ! a := False, p := True] ! q"
    and "\<forall>q < length used. q \<noteq> x \<longrightarrow> used[arch ! a := False, p := True] ! q \<longrightarrow> q \<in> set (tl (arch[a := p]))"
proof -
  have nth: "tl arch ! (a - 1) = arch ! a" "a - 1 < length (tl arch)" using a by (simp_all add: nth_tl)
  have set: "set (tl (arch[a := p])) = insert p (set (tl arch) - {arch ! a})"
    using set_update_distinct [OF d(1) nth(2)] nth(1) a(1) by (simp add: tl_update)
  have old: "arch ! a \<in> set (tl arch)" using a by (rule nth_tl_in_set)
  show "\<forall>q \<in> set (tl (arch[a := p])). used[arch ! a := False, p := True] ! q"
    unfolding set using used(1) small old d(2) by (auto simp: nth_list_update)
  show "\<forall>q < length used. q \<noteq> x \<longrightarrow> used[arch ! a := False, p := True] ! q \<longrightarrow> q \<in> set (tl (arch[a := p]))"
    unfolding set using used(2) small small(2) [rule_format, OF old]
    by (auto simp: nth_list_update split: if_splits)
qed


lemma snap_fl_next_cong:
  "(sn \<Longrightarrow> j = j') \<Longrightarrow> snap_fl_next st free alloc set_state (sn, j) revert = snap_fl_next st free alloc set_state (sn, j') revert"
  by (cases sn) (simp_all add: snap_fl_next_def)

lemma rename_next_cong:
  "(c \<Longrightarrow> p = p') \<Longrightarrow> (sn \<Longrightarrow> j = j') \<Longrightarrow>
   rename_next st (c, a, p) (sn, j) restore set_in = rename_next st (c, a, p') (sn, j') restore set_in"
  by (cases c; cases sn) (simp_all add: rename_next_def)

lemma singleton_port: "length xs = 1 \<Longrightarrow> \<exists>x. xs = [x]"
  by (cases xs) auto

lemma rename_system_keeps:
  fixes s :: "('p::len word, 'd::zero, 'f::len word, 'q::len word, 'k::len word) dataflow"
    and i :: "('a::len word, 'p word, 'd, 't::len word, 's::len word) dataflow_in"
  assumes fit: "words_fit TYPE('p) TYPE('s) TYPE('t) TYPE('f) TYPE('q) TYPE('k)"
    and inv: "dataflow_inv naregs (s, arch, items)" and ok: "rename_env_ok naregs (s, arch, items) i"
  shows "\<exists>st' out. rename_system_step (s, arch, items) i = Some (st', out) \<and>
           rename_answers_ok (s, arch, items) i out \<and> dataflow_inv naregs st'"
proof -
  define zt where "zt = (of_nat LENGTH('f) :: 'p word)"
  have one: "length (di_get_dst i) = 1" "length (di_commit i) = 1" "length (di_get_store_id i) = 1"
      "length (di_free_store_id i) = 1"
    using ok by (simp_all only: rename_env_ok_def Let_def prod.case)
  obtain dc da where dst: "di_get_dst i = [(dc, da)]" using singleton_port [OF one(1)] by (metis surj_pair)
  obtain cc ct ca where commit: "di_commit i = [(cc, ct, ca)]" using singleton_port [OF one(2)] by (metis prod_cases3)
  obtain gs where store: "di_get_store_id i = [gs]" using singleton_port [OF one(3)] by blast
  obtain sc si where free_store: "di_free_store_id i = [(sc, si)]" using singleton_port [OF one(4)] by (metis surj_pair)
  obtain fc fid rc rid where snaps: "di_free_snapshot i = (fc, fid)" "di_restore i = (rc, rid)" by (meson surj_pair)
  note ports = dst commit store free_store snaps
  define live where "live \<longleftrightarrow> cc \<and> ct \<noteq> zt"
  define wb where "wb \<longleftrightarrow> dc \<and> da \<noteq> 0 \<and> fst (df_free_regs s) \<noteq> 0"
  define preg where "preg = (if da = 0 \<or> fst (df_free_regs s) = 0 then zt
      else of_nat (the (first_set (fst (df_free_regs s)))))"
  define sid where "sid = (case first_set (fst (df_snapshot_allocator s)) of None \<Rightarrow> 0 | Some k \<Rightarrow> (of_nat k :: 's word))"
  obtain ft kt qt where rel: "snap_fl_rel (df_free_regs s) ft" "snap_fl_rel (df_snapshot_allocator s) kt"
      "snap_fl_rel (df_store_ids s) qt" "length (snd qt) = LENGTH('k)"
    and tab: "renaming_ok naregs (tables_of ft kt (nat_tables (df_rename_table s))) arch items"
    and arch: "arch = map unat (df_areg_file s)" and used_len: "length (df_arch_used_pregs s) = LENGTH('f)"
    and used: "\<forall>p \<in> set (tl arch). df_arch_used_pregs s ! p"
      "\<forall>p < LENGTH('f). p \<noteq> naregs - 1 \<longrightarrow> df_arch_used_pregs s ! p \<longrightarrow> p \<in> set (tl arch)"
    and files: "length (df_preg_file s) = Suc LENGTH('f)" "length (df_ready_table s) = Suc LENGTH('f)"
    using inv by (auto simp: dataflow_inv_def)
  have same: "fst (df_free_regs s) = fst ft" "fst (df_snapshot_allocator s) = fst kt" "fst (df_store_ids s) = fst qt"
    using rel by (auto simp: snap_fl_rel_def)
  have e: "dc \<and> da \<noteq> 0 \<longrightarrow> fst ft \<noteq> 0" "unat da < naregs" "di_snapshot i \<longrightarrow> fst kt \<noteq> 0" "gs \<longrightarrow> fst qt \<noteq> 0"
      "sc \<longrightarrow> unat si < LENGTH('q)" "unat ca < naregs" "cc \<and> ct \<noteq> zt \<longrightarrow> items \<noteq> [] \<and> hd items = Dst (unat ca) (unat ct)"
      "fc \<longrightarrow> Branch (unat fid) \<in> set items" "rc \<longrightarrow> (fc, fid) = (rc, rid)" "unat rid < LENGTH('k)"
      "rc \<or> di_rollback i \<longrightarrow> \<not> dc \<and> \<not> di_snapshot i" "\<forall>a \<in> set (di_get_src i). unat a < naregs"
      "\<forall>p \<in> set (di_is_ready i @ di_read i). unat p \<le> LENGTH('f)"
      "\<forall>w \<in> set (di_write i). fst w \<longrightarrow> unat (fst (snd w)) \<le> LENGTH('f)"
    using ok unfolding rename_env_ok_def Let_def prod.case ports list.sel fst_conv snd_conv same zt_def [symmetric]
    by blast+
  have w: "LENGTH('f) < 2 ^ LENGTH('p)" "LENGTH('k) \<le> 2 ^ LENGTH('s)" "LENGTH('q) \<le> 2 ^ LENGTH('t)"
    using fit by (auto simp: words_fit_def)
  have T: "length arch = naregs" "distinct (used_pregs arch items)" "\<forall>p \<in> set (used_pregs arch items). p < LENGTH('f)"
      "tl (fst (nat_tables (df_rename_table s))) = tl (item_map arch items)"
      "\<forall>p < LENGTH('f). bit (fst ft) p \<longrightarrow> p \<notin> set (used_pregs arch items)"
      "\<forall>k < LENGTH('k). bit (fst kt) k \<longleftrightarrow> k \<notin> set (item_branches items)"
      "length (snd ft) = LENGTH('k)" "length (snd kt) = LENGTH('k)" "dsts_ok naregs items"
    using tab by (simp_all add: renaming_ok_def)
  have lens: "length (fst (nat_tables (df_rename_table s))) = naregs" "length (snd (nat_tables (df_rename_table s))) = LENGTH('k)"
      "\<forall>m \<in> set (snd (nat_tables (df_rename_table s))). length m = naregs"
    using tab by (simp_all add: renaming_ok_def)
  then have shape: "snap_rf_shape naregs LENGTH('k) (df_rename_table s)" and rtlen: "length (fst (df_rename_table s)) = naregs"
    by (auto simp: snap_rf_shape_def nat_tables_def)
  have alen: "length (df_areg_file s) = naregs" using T(1) by (simp add: arch)
  have zt: "unat zt = LENGTH('f)" using w(1) by (simp add: zt_def unat_of_nat_small)
  define k where "k = the (first_set (fst ft))"
  have k: "first_set (fst ft) = Some k \<and> k < LENGTH('f) \<and> bit (fst ft) k" if "fst ft \<noteq> 0"
  proof -
    obtain j where j: "first_set (fst ft) = Some j" using \<open>fst ft \<noteq> 0\<close> by (cases "first_set (fst ft)") auto
    moreover have "bit (fst ft) j" using j by (simp add: first_set_Some_iff)
    ultimately show ?thesis using first_set_less [OF j] by (simp add: k_def)
  qed
  have pk: "unat preg = k" if wb
    using that k w(1) by (auto simp: wb_def preg_def same k_def [symmetric] unat_of_nat_small)
  have ple: "unat preg \<le> LENGTH('f)"
    using k w(1) zt by (auto simp: preg_def same k_def [symmetric] unat_of_nat_small)
  define sk where "sk = the (first_set (fst kt))"
  have sk: "first_set (fst kt) = Some sk \<and> sk < LENGTH('k) \<and> bit (fst kt) sk \<and> unat sid = sk" if "fst kt \<noteq> 0"
  proof -
    obtain j where j: "first_set (fst kt) = Some j" using \<open>fst kt \<noteq> 0\<close> by (cases "first_set (fst kt)") auto
    then have "j < LENGTH('k)" by (rule first_set_less)
    moreover from this have "j < 2 ^ LENGTH('s)" using w(2) by linarith
    moreover have "bit (fst kt) j" using j by (simp add: first_set_Some_iff)
    ultimately show ?thesis using j by (simp add: sk_def sid_def same unat_of_nat_small)
  qed
  have dst_head: "items = Dst (unat ca) (unat ct) # tl items" if live
    using that e(7) by (cases items) (auto simp: live_def)
  have old: "arch ! unat ca \<in> set (tl arch)" if live
    using renaming_commit(2) [of naregs _ arch "unat ca" "unat ct" "tl items"] tab dst_head [OF that] by metis
  have anth: "arch ! unat ca = unat (df_areg_file s ! unat ca)" using e(6) alen by (simp add: arch)
  have ctu: "unat ct \<in> set (item_pregs items)" if live
    using dst_head [OF that] by (metis item_pregs.simps(2) list.set_intros(1) rename_item.case(1))
  have lrng: "unat ct < LENGTH('f) \<and> unat (df_areg_file s ! unat ca) < LENGTH('f)" if live
    using T(3) ctu [OF that] old [OF that] anth by (auto simp: used_pregs_def)
  define areg' where "areg' = (if live then (df_areg_file s)[unat ca := ct] else df_areg_file s)"
  define used' where "used' = (if live then (df_arch_used_pregs s)[unat (df_areg_file s ! unat ca) := False, unat ct := True]
      else df_arch_used_pregs s)"
  define arch' where "arch' = (if live then arch[unat ca := unat ct] else arch)"
  have arch': "arch' = map unat areg'" by (simp add: arch'_def areg'_def arch map_update)
  have sidlt: "di_snapshot i \<Longrightarrow> unat sid < LENGTH('k)" using sk e(3) by auto
  obtain s' out where step: "dataflow_step s i = Some (s', out)"
    and s'1: "df_areg_file s' = areg'" "df_arch_used_pregs s' = used'"
    and fr: "df_free_regs s' = fst (snap_fl_step (df_free_regs s)
      \<lparr> sfl_free = [(live, df_areg_file s ! unat ca)], sfl_alloc_call = [wb], sfl_set_call = di_rollback i,
        sfl_set_state = NOT (pack_bits used'), sfl_reset_call = di_snapshot i, sfl_target_id = sid,
        sfl_revert_call = rc, sfl_source_id = rid \<rparr>)"
    and sa: "df_snapshot_allocator s' = fst (snap_fl_step (df_snapshot_allocator s)
      \<lparr> sfl_free = [(fc, fid)], sfl_alloc_call = [di_snapshot i], sfl_set_call = di_rollback i,
        sfl_set_state = NOT 0, sfl_reset_call = di_snapshot i, sfl_target_id = sid,
        sfl_revert_call = rc, sfl_source_id = rid \<rparr>)"
    and si: "df_store_ids s' = fst (snap_fl_step (df_store_ids s)
      \<lparr> sfl_free = [(sc, si)], sfl_alloc_call = [gs], sfl_set_call = di_rollback i,
        sfl_set_state = NOT 0, sfl_reset_call = di_snapshot i, sfl_target_id = sid,
        sfl_revert_call = rc, sfl_source_id = rid \<rparr>)"
    and rt: "df_rename_table s' = rename_next (df_rename_table s) (wb, unat da, preg) (di_snapshot i, unat sid)
      (rc, unat rid) (di_rollback i, areg')"
    and s'2: "length (df_preg_file s') = Suc LENGTH('f)" "length (df_ready_table s') = Suc LENGTH('f)"
    and out: "do_get_src out = map (\<lambda>r. if r = 0 then zt else fst (df_rename_table s) ! unat r) (di_get_src i)"
      "do_get_dst out = [(fst (df_free_regs s) \<noteq> 0, preg)]" "do_snapshot out = (fst (df_snapshot_allocator s) \<noteq> 0, sid)"
    using dataflow_step_one [OF zt_def ports live_def wb_def preg_def sid_def shape alen used_len files w(1)
        e(6) e(2) lrng sidlt e(10) e(12) e(13) e(14) ple areg'_def used'_def] by blast
  let ?sn = "di_snapshot i" and ?rb = "di_rollback i" and ?fr = "NOT (pack_bits used') :: 'f word"
  have sidk: "?sn \<Longrightarrow> unat sid = sk" using sk e(3) by auto
  have anth': "unat (df_areg_file s ! unat ca) = arch ! unat ca" using anth by simp
  have fidk: "fc \<Longrightarrow> unat fid < LENGTH('k)"
    using e(8) tab by (auto simp: renaming_ok_def item_branches_iff [symmetric])
  have allocs: "wb \<Longrightarrow> fst ft \<noteq> 0" by (simp add: wb_def same)
  have fits: "LENGTH('f) \<le> 2 ^ LENGTH('p)" using w(1) by simp
  have tgt: "?sn \<Longrightarrow> unat sid < length (snd ft)" "?sn \<Longrightarrow> unat sid < length (snd kt)" "?sn \<Longrightarrow> unat sid < length (snd qt)"
    and src: "unat rid < length (snd ft)" "unat rid < length (snd kt)" "unat rid < length (snd qt)"
    using sidlt e(10) T(7,8) rel(4) by simp_all
  have fsid: "snap_fl_next ft f ac ss (?sn, sk) rv = snap_fl_next ft f ac ss (?sn, unat sid) rv" for f ac ss rv
    by (rule snap_fl_next_cong) (simp add: sidk)
  have ksid: "snap_fl_next kt f ac ss (?sn, sk) rv = snap_fl_next kt f ac ss (?sn, unat sid) rv" for f ac ss rv
    by (rule snap_fl_next_cong) (simp add: sidk)
  have sf: "snap_fl_rel (df_free_regs s') (snap_fl_next ft (live, arch ! unat ca) wb (?rb, ?fr) (?sn, sk) (rc, unat rid))"
    unfolding fr anth fsid
    by (rule snap_fl_one_port [OF rel(1) fits allocs _ tgt(1) src(1), THEN conjunct1]) (simp_all add: lrng)
  have sk': "snap_fl_rel (df_snapshot_allocator s') (snap_fl_next kt (fc, unat fid) ?sn (?rb, NOT 0) (?sn, sk) (rc, unat rid))"
    unfolding sa ksid
    by (rule snap_fl_one_port [OF rel(2) w(2) _ _ tgt(2) src(2), THEN conjunct1])
      (simp_all add: e(3) [rule_format] fidk)
  have sq: "snap_fl_rel (df_store_ids s') (snap_fl_next qt (sc, unat si) gs (?rb, NOT 0) (?sn, unat sid) (rc, unat rid)) \<and>
      length (snd (snap_fl_next qt (sc, unat si) gs (?rb, NOT 0) (?sn, unat sid) (rc, unat rid))) = length (snd qt)"
    unfolding si by (rule snap_fl_one_port [OF rel(3) w(3) _ _ tgt(3) src(3)]) (simp_all add: e(4,5))
  have "unat rid < length (snd (df_rename_table s))" using e(10) shape by (auto simp: snap_rf_shape_def)
  then have mt: "nat_tables (df_rename_table s') = rename_next (nat_tables (df_rename_table s)) (wb, unat da, k) (?sn, sk)
      (rc, unat rid) (?rb, map unat areg')"
    unfolding rt by (subst rename_next_nat) (auto intro: rename_next_cong simp: pk sidk)
  define items1 where "items1 = (if live then tl items else items)"
  define items2 where "items2 = (if wb then items1 @ [Dst (unat da) k] else items1)"
  define items3 where "items3 = (if ?sn then items2 @ [Branch sk] else items2)"
  define items4 where "items4 = (if rc then item_restore (unat rid) items3
      else if fc then item_resolve (unat fid) items3 else items3)"
  have dist: "distinct (tl arch)" "\<forall>q \<in> set (tl arch). q < length (df_arch_used_pregs s)"
    using T(2,3) used_len by (auto simp: used_pregs_def)
  have used_after: "(\<forall>q \<in> set (tl arch'). used' ! q) \<and>
      (\<forall>q < LENGTH('f). q \<noteq> naregs - 1 \<longrightarrow> used' ! q \<longrightarrow> q \<in> set (tl arch'))"
  proof (cases live)
    case True
    have nin: "unat ct \<notin> set (tl arch)" using T(2) ctu [OF True] by (auto simp: used_pregs_def)
    have pos: "0 < unat ca" using T(9) dst_head [OF True] unfolding dsts_ok_def by (metis list.set_intros(1))
    have lt: "unat ct < length (df_arch_used_pregs s)" using lrng [OF True] used_len by simp
    have ca: "unat ca < length arch" using e(6) T(1) by simp
    have used2: "\<forall>q < length (df_arch_used_pregs s). q \<noteq> naregs - 1 \<longrightarrow> df_arch_used_pregs s ! q \<longrightarrow> q \<in> set (tl arch)"
      unfolding used_len by (rule used(2))
    have "used' = (df_arch_used_pregs s)[arch ! unat ca := False, unat ct := True]" "arch' = arch[unat ca := unat ct]"
      unfolding used'_def arch'_def anth' using True by simp_all
    then show ?thesis
      using arch_used_commit [OF dist(1) nin pos ca lt dist(2) used(1) used2] unfolding used_len by blast
  next
    case False
    then show ?thesis using used by (simp add: used'_def arch'_def)
  qed
  have used'_len: "length used' = LENGTH('f)" by (simp add: used'_def used_len)
  have frbit: "bit ?fr p \<longleftrightarrow> p < LENGTH('f) \<and> \<not> used' ! p" for p
    using bit_pack_bits [OF used'_len, of p] by (auto simp: bit_not_iff dest: bit_imp_le_length)
  have cyc: "renaming_ok naregs
     (tables_of (snap_fl_next ft (live, arch ! unat ca) wb (?rb, ?fr) (?sn, sk) (rc, unat rid))
        (snap_fl_next kt (fc, unat fid) ?sn (?rb, NOT 0) (?sn, sk) (rc, unat rid))
        (rename_next (nat_tables (df_rename_table s)) (wb, unat da, k) (?sn, sk) (rc, unat rid) (?rb, map unat areg')))
     arch' (if ?rb then [] else items4)"
  proof (rule renaming_cycle [OF tab _ _ _ _ _ _ arch'_def _ _ _ _ items1_def items2_def items3_def items4_def])
    show "live \<Longrightarrow> items \<noteq> [] \<and> hd items = Dst (unat ca) (unat ct)" using e(7) by (simp add: live_def)
    show "wb \<Longrightarrow> 0 < unat da \<and> unat da < naregs \<and> first_set (fst ft) = Some k"
      using k e(2) by (auto simp: wb_def same unat_gt_0)
    show "?sn \<Longrightarrow> first_set (fst kt) = Some sk" using sk e(3) by blast
    show "fc \<Longrightarrow> unat fid \<in> set (item_branches items)" using e(8) by (simp add: item_branches_iff)
    show "rc \<Longrightarrow> fc \<and> unat rid = unat fid" using e(9) by simp
    show "rc \<or> ?rb \<Longrightarrow> \<not> wb \<and> \<not> ?sn" using e(11) by (auto simp: wb_def)
    show "\<And>p. p < LENGTH('f) \<Longrightarrow> bit ?fr p \<Longrightarrow> p \<notin> set (tl arch')" using used_after frbit by blast
    show "\<And>p. p < LENGTH('f) \<Longrightarrow> p \<noteq> naregs - 1 \<Longrightarrow> \<not> bit ?fr p \<Longrightarrow> p \<in> set (tl arch')" using used_after frbit by blast
    show "length (map unat areg') = naregs" by (simp add: areg'_def alen)
    show "tl (map unat areg') = tl arch'" by (simp add: arch')
  qed
  have order: "rename_order zt (arch, items) i out = (arch', if ?rb then [] else items4)"
    unfolding rename_order_def Let_def prod.case ports out list.sel fst_conv snd_conv
      live_def [symmetric] wb_def [symmetric]
    by (cases live) (simp_all add: arch'_def items4_def items3_def items2_def items1_def pk sidk cong: if_cong)
  have inv': "dataflow_inv naregs (s', arch', if ?rb then [] else items4)"
    unfolding dataflow_inv_def Let_def prod.case
  proof (intro conjI exI)
    show "snap_fl_rel (df_free_regs s') (snap_fl_next ft (live, arch ! unat ca) wb (?rb, ?fr) (?sn, sk) (rc, unat rid))"
      "snap_fl_rel (df_snapshot_allocator s') (snap_fl_next kt (fc, unat fid) ?sn (?rb, NOT 0) (?sn, sk) (rc, unat rid))"
      by (rule sf sk')+
    show "snap_fl_rel (df_store_ids s') (snap_fl_next qt (sc, unat si) gs (?rb, NOT 0) (?sn, unat sid) (rc, unat rid))"
      using sq by blast
    show "length (snd (snap_fl_next qt (sc, unat si) gs (?rb, NOT 0) (?sn, unat sid) (rc, unat rid))) = LENGTH('k)"
      using sq rel(4) by simp
  qed (use cyc mt s'1 s'2 arch' used_after used'_len in simp_all)
  have srcs: "(if r = 0 then zt else fst (df_rename_table s) ! unat r) =
      (if r = 0 then zt else of_nat (item_map arch items ! unat r))" if "r \<in> set (di_get_src i)" for r
  proof (cases "r = 0")
    case False
    then have pos: "0 < unat r" "unat r < naregs" using e(12) that by (auto simp: unat_gt_0)
    have "fst (nat_tables (df_rename_table s)) ! unat r = item_map arch items ! unat r"
      using T(4) pos lens(1) T(1) nth_tl [of "unat r - 1" "fst (nat_tables (df_rename_table s))"]
        nth_tl [of "unat r - 1" "item_map arch items"] by simp
    then have read: "item_map arch items ! unat r = unat (fst (df_rename_table s) ! unat r)"
      using pos rtlen by (simp add: nat_tables_def)
    show ?thesis by (simp add: read)
  qed simp
  have dsts: "(da = 0 \<longrightarrow> preg = zt) \<and>
      (dc \<and> da \<noteq> 0 \<longrightarrow> fst ft \<noteq> 0 \<and> unat preg < LENGTH('f) \<and> unat preg \<notin> set (used_pregs arch items))"
    using e(1) k pk T(5) by (auto simp: preg_def wb_def same)
  have "fst kt \<noteq> 0 \<longleftrightarrow> (\<exists>j \<in> {..<LENGTH('k)}. Branch j \<notin> set items)"
  proof
    assume "fst kt \<noteq> 0"
    then show "\<exists>j \<in> {..<LENGTH('k)}. Branch j \<notin> set items"
      using sk T(6) by (intro bexI [of _ sk]) (auto simp: item_branches_iff [symmetric])
  next
    assume "\<exists>j \<in> {..<LENGTH('k)}. Branch j \<notin> set items"
    then obtain j where "j < LENGTH('k)" "j \<notin> set (item_branches items)" by (auto simp: item_branches_iff)
    then have "bit (fst kt) j" using T(6) by blast
    then show "fst kt \<noteq> 0" by auto
  qed
  moreover have "Branch (unat sid) \<notin> set items" if "fst kt \<noteq> 0"
    using sk [OF that] T(6) by (auto simp: item_branches_iff [symmetric])
  ultimately have ans: "rename_answers_ok (s, arch, items) i out"
    unfolding rename_answers_ok_def Let_def prod.case ports out same zt_def [symmetric] list.sel fst_conv snd_conv
    using dsts srcs by simp
  show ?thesis
    using step order ans inv' by (simp add: rename_system_step_def zt_def [symmetric])
qed


interpretation renaming: guarded_invariant
  "rename_system_step ::
     ('p::len word, 'd::zero, 'f::len word, 'q::len word, 'k::len word) rename_system \<Rightarrow>
     ('a::len word, 'p word, 'd, 't::len word, 's::len word) dataflow_in \<Rightarrow> _"
  "rename_env_ok naregs" rename_answers_ok
  "\<lambda>st. words_fit TYPE('p) TYPE('s) TYPE('t) TYPE('f) TYPE('q) TYPE('k) \<and> dataflow_inv naregs st"
  for naregs
proof unfold_locales
  fix st :: "('p word, 'd, 'f word, 'q word, 'k word) rename_system"
    and i :: "('a word, 'p word, 'd, 't word, 's word) dataflow_in"
  assume "words_fit TYPE('p) TYPE('s) TYPE('t) TYPE('f) TYPE('q) TYPE('k) \<and> dataflow_inv naregs st"
    and "rename_env_ok naregs st i"
  then show "\<exists>st' out. rename_system_step st i = Some (st', out) \<and> rename_answers_ok st i out \<and>
      words_fit TYPE('p) TYPE('s) TYPE('t) TYPE('f) TYPE('q) TYPE('k) \<and> dataflow_inv naregs st'"
    using rename_system_keeps [of naregs "fst st" "fst (snd st)" "snd (snd st)" i] by simp
qed

section \<open>After reset\<close>

lemma snap_fl_rel_zero:
  "snap_fl_rel (w :: 'n::len word, replicate k (replicate LENGTH('n) False)) (w, replicate k 0)"
proof -
  have "map (bit (0 :: 'n word)) [0..<LENGTH('n)] = replicate LENGTH('n) False" by (auto intro: nth_equalityI)
  then show ?thesis by (simp add: snap_fl_rel_def)
qed

lemma unat_initial_map:
  assumes "naregs \<le> 2 ^ LENGTH('p)"
  shows "map unat (initial_map naregs :: 'p::len word list) = 0 # [0..<naregs - 1]"
  using assms by (auto simp: initial_map_def unat_of_nat_small intro!: nth_equalityI)

lemma bit_freelist_reset [simp]: "bit (freelist_reset n :: 'n::len word) p \<longleftrightarrow> n \<le> p \<and> p < LENGTH('n)"
  by (auto simp: freelist_reset_def)

lemma freelist_reset_nonzero: "n < LENGTH('n) \<Longrightarrow> freelist_reset n \<noteq> (0 :: 'n::len word)"
  using bit_freelist_reset [of n n, where ?'n = 'n] by (metis bit_0_eq bot_apply bot_bool_def le_refl)

lemma dataflow_inv_reset:
  fixes naregs :: nat
  defines "s \<equiv> dataflow_reset naregs LENGTH('k) :: ('p::len word, 'd::zero, 'f::len word, 'q::len word, 'k::len word) dataflow"
  assumes n: "0 < naregs" "naregs \<le> LENGTH('f)" and w: "LENGTH('f) < 2 ^ LENGTH('p)"
  shows "dataflow_inv naregs (s, map unat (initial_map naregs :: 'p word list), [])"
proof -
  have m: "map unat (initial_map naregs :: 'p word list) = 0 # [0..<naregs - 1]"
    using n w by (intro unat_initial_map) simp
  have "renaming_ok naregs
     (tables_of (freelist_reset (naregs - 1) :: 'f word, replicate LENGTH('k) 0) (freelist_reset 0 :: 'k word, replicate LENGTH('k) 0)
        (nat_tables (initial_map naregs :: 'p word list, replicate LENGTH('k) (replicate naregs 0))))
     (0 # [0..<naregs - 1]) []"
    using n by (auto simp: renaming_ok_def used_pregs_def dsts_ok_def nat_tables_def m)
  then show ?thesis
    unfolding dataflow_inv_def Let_def prod.case s_def dataflow_reset_def dataflow.simps m
    using n by (auto intro!: exI snap_fl_rel_zero simp: m)
qed


section \<open>Properties\<close>

text \<open>C2: whatever the order of allocations, commits, branches, resolutions, restores and rollbacks the core
  asks for, no cycle of the data flow manager touches an index out of range, every source answered
  is the destination of the youngest older instruction that writes it or else the committed one, a granted
  destination is in use by nobody, and a snapshot is ready exactly when one of its ids is free.\<close>

theorem renaming_refines_program_order:
  fixes inputs :: "('a::len word, 'p::len word, 'd::zero, 't::len word, 's::len word) dataflow_in list"
  assumes "words_fit TYPE('p) TYPE('s) TYPE('t) TYPE('f) TYPE('q) TYPE('k)"
    and "0 < naregs" "naregs \<le> LENGTH('f)"
  shows "safe_run rename_system_step (rename_env_ok naregs) rename_answers_ok
    ((dataflow_reset naregs LENGTH('k) :: ('p word, 'd, 'f::len word, 'q::len word, 'k::len word) dataflow),
     map unat (initial_map naregs :: 'p word list), []) inputs"
  by (rule renaming.runs_safely) (use assms in \<open>simp add: dataflow_inv_reset words_fit_def\<close>)

text \<open>The first cycle after reset: a destination for register 1 and a snapshot are asked for.\<close>

definition first_rename :: "(2 word, 2 word, 8 word, 1 word, 1 word) dataflow_in" where
  "first_rename = \<lparr> di_get_src = [1], di_get_dst = [(True, 1)], di_get_store_id = [False], di_is_ready = [],
     di_read = [], di_write = [], di_forward = [], di_free_store_id = [(False, 0)], di_commit = [(False, 0, 0)],
     di_rollback = False, di_snapshot = True, di_free_snapshot = (False, 0), di_restore = (False, 0) \<rparr>"

theorem renaming_refines_program_order_witness:
  "rename_env_ok 2 ((dataflow_reset 2 2 :: (2 word, 8 word, 3 word, 2 word, 2 word) dataflow),
     map unat (initial_map 2 :: 2 word list), []) first_rename \<and>
   safe_run rename_system_step (rename_env_ok 2) rename_answers_ok
     ((dataflow_reset 2 2 :: (2 word, 8 word, 3 word, 2 word, 2 word) dataflow),
      map unat (initial_map 2 :: 2 word list), []) [first_rename]"
proof
  have "freelist_reset (Suc 0) \<noteq> (0 :: 3 word)" "freelist_reset 0 \<noteq> (0 :: 2 word)"
    by (rule freelist_reset_nonzero; simp)+
  then show "rename_env_ok 2 ((dataflow_reset 2 2 :: (2 word, 8 word, 3 word, 2 word, 2 word) dataflow),
     map unat (initial_map 2 :: 2 word list), []) first_rename"
    by (simp add: rename_env_ok_def first_rename_def dataflow_reset_def)
  show "safe_run rename_system_step (rename_env_ok 2) rename_answers_ok
     ((dataflow_reset 2 2 :: (2 word, 8 word, 3 word, 2 word, 2 word) dataflow),
      map unat (initial_map 2 :: 2 word list), []) [first_rename]"
    using renaming_refines_program_order [where ?'f = 3 and ?'k = 2 and ?'q = 2 and ?'d = "8 word" and naregs = 2
        and inputs = "[first_rename]"] by (simp add: words_fit_def)
qed

text \<open>The register file of used registers is reset to \<open>range(naregs)\<close> although the architectural map only
  uses the registers below \<open>naregs - 1\<close>: when the first thing after reset is a rollback, register
  \<open>naregs - 1\<close>, which was free, is neither free nor backing an architectural register any more.\<close>

theorem rollback_after_reset_loses_register:
  fixes naregs :: nat and i :: "('a::len word, 'p::len word, 'd::zero, 't::len word, 's::len word) dataflow_in"
  defines "s \<equiv> dataflow_reset naregs LENGTH('k) :: ('p word, 'd, 'f::len word, 'q::len word, 'k::len word) dataflow"
  assumes n: "0 < naregs" "naregs \<le> LENGTH('f)" and w: "LENGTH('f) < 2 ^ LENGTH('p)"
    and i: "i = \<lparr> di_get_src = [], di_get_dst = [(False, 0)], di_get_store_id = [False], di_is_ready = [],
      di_read = [], di_write = [], di_forward = [], di_free_store_id = [(False, 0)], di_commit = [(False, 0, 0)],
      di_rollback = True, di_snapshot = False, di_free_snapshot = (False, 0), di_restore = (False, 0) \<rparr>"
  shows "bit (fst (df_free_regs s)) (naregs - 1) \<and>
    (\<exists>s' out. dataflow_step s i = Some (s', out) \<and> \<not> bit (fst (df_free_regs s')) (naregs - 1) \<and>
       naregs - 1 \<notin> set (tl (map unat (df_areg_file s'))))"
proof
  show "bit (fst (df_free_regs s)) (naregs - 1)"
    using n by (simp add: s_def dataflow_reset_def)
  let ?used = "df_arch_used_pregs s"
  have m: "map unat (df_areg_file s) = 0 # [0..<naregs - 1]"
    unfolding s_def dataflow_reset_def dataflow.simps using n w by (intro unat_initial_map) simp
  have alen: "length (df_areg_file s) = naregs" using n by (simp add: s_def dataflow_reset_def initial_map_def)
  have tabs: "snap_rf_shape naregs LENGTH('k) (df_rename_table s)"
    using n by (simp add: s_def dataflow_reset_def initial_map_def snap_rf_shape_def)
  have lens: "length ?used = LENGTH('f)" "length (df_preg_file s) = Suc LENGTH('f)" "length (df_ready_table s) = Suc LENGTH('f)"
    by (simp_all add: s_def dataflow_reset_def)
  have ports: "di_get_dst i = [(False, 0)]" "di_commit i = [(False, 0, 0)]" "di_get_store_id i = [False]"
      "di_free_store_id i = [(False, 0)]" "di_free_snapshot i = (False, 0)" "di_restore i = (False, 0)"
    by (simp_all add: i)
  have zero: "unat (0 :: 'a word) < naregs" "unat (0 :: 's word) < LENGTH('k)" using n by simp_all
  have areg': "df_areg_file s = (if False then (df_areg_file s)[unat (0 :: 'a word) := 0] else df_areg_file s)"
    and used': "?used = (if False then ?used[unat (df_areg_file s ! unat (0 :: 'a word)) := False, unat (0 :: 'p word) := True] else ?used)"
    by simp_all
  have idle: "False \<longleftrightarrow> False \<and> (0 :: 'p word) \<noteq> of_nat LENGTH('f)" "False \<longleftrightarrow> False \<and> (0 :: 'a word) \<noteq> 0 \<and> fst (df_free_regs s) \<noteq> 0"
    by simp_all
  have quiet: "di_snapshot i \<Longrightarrow> X" "\<forall>a \<in> set (di_get_src i). unat a < naregs"
      "\<forall>p \<in> set (di_is_ready i @ di_read i). unat p \<le> LENGTH('f)"
      "\<forall>w \<in> set (di_write i). fst w \<longrightarrow> unat (fst (snd w)) \<le> LENGTH('f)"
      "unat (if (0 :: 'a word) = 0 \<or> fst (df_free_regs s) = 0 then of_nat LENGTH('f) :: 'p word
         else of_nat (the (first_set (fst (df_free_regs s))))) \<le> LENGTH('f)" for X
    using w by (simp_all add: i unat_of_nat_small)
  have roll: "di_rollback i = True" "di_snapshot i = False" by (simp_all add: i)
  obtain s' out where step: "dataflow_step s i = Some (s', out)" and areg: "df_areg_file s' = df_areg_file s"
    and fr: "df_free_regs s' = fst (snap_fl_step (df_free_regs s)
      \<lparr> sfl_free = [(False, df_areg_file s ! unat (0 :: 'a word))], sfl_alloc_call = [False], sfl_set_call = True,
        sfl_set_state = NOT (pack_bits ?used), sfl_reset_call = False,
        sfl_target_id = (case first_set (fst (df_snapshot_allocator s)) of None \<Rightarrow> 0 | Some k \<Rightarrow> (of_nat k :: 's word)),
        sfl_revert_call = False, sfl_source_id = (0 :: 's word) \<rparr>)"
    using dataflow_step_one [OF refl ports idle refl refl tabs alen lens w zero(1) zero(1) FalseE quiet(1) zero(2) quiet(2-5) areg' used']
    unfolding roll by blast
  have "snap_fl_rel (df_free_regs s) (freelist_reset (naregs - 1) :: 'f word, replicate LENGTH('k) 0)"
    unfolding s_def dataflow_reset_def dataflow.simps by (rule snap_fl_rel_zero)
  then have "snap_fl_rel (df_free_regs s') (snap_fl_next (freelist_reset (naregs - 1) :: 'f word, replicate LENGTH('k) 0)
      (False, unat (df_areg_file s ! unat (0 :: 'a word))) False (True, NOT (pack_bits ?used)) (False,
      unat (case first_set (fst (df_snapshot_allocator s)) of None \<Rightarrow> 0 | Some k \<Rightarrow> (of_nat k :: 's word))) (False, unat (0 :: 's word)))"
    unfolding fr by (intro snap_fl_one_port [THEN conjunct1]) (use w in simp_all)
  then have "fst (df_free_regs s') = NOT (pack_bits ?used)" by (simp add: snap_fl_rel_def snap_fl_next_def)
  then have "\<not> bit (fst (df_free_regs s')) (naregs - 1)"
    using n bit_pack_bits [OF lens(1), of "naregs - 1"] by (simp add: bit_not_iff s_def dataflow_reset_def)
  then show "\<exists>s' out. dataflow_step s i = Some (s', out) \<and> \<not> bit (fst (df_free_regs s')) (naregs - 1) \<and>
       naregs - 1 \<notin> set (tl (map unat (df_areg_file s')))"
    unfolding step by (auto simp: areg m)
qed

theorem rollback_after_reset_loses_register_witness:
  "bit (fst (df_free_regs (dataflow_reset 2 2 :: (2 word, 8 word, 3 word, 2 word, 2 word) dataflow))) 1"
  using rollback_after_reset_loses_register [where ?'f = 3 and ?'k = 2 and ?'q = 2 and ?'d = "8 word" and ?'p = 2
      and ?'a = 2 and ?'t = 1 and ?'s = 1 and naregs = 2, OF _ _ _ refl] by simp

end
