(* ===== verification/Isa.thy ===== *)
theory Isa
  imports Codes
begin

text \<open>
  The instruction set description: \<open>lizard/util/arch/isa.py\<close> and \<open>lizard/util/arch/rv64g.py\<close>. An
  instruction is a word of \<open>'i\<close> bits (\<open>ilen\<close>), the value of a field the unsigned reading of its
  \<open>Bits\<close> object, with the width in the field specification; a raise or a failed assertion is \<open>None\<close>.
\<close>

section \<open>Python string methods\<close>

definition is_space :: "char \<Rightarrow> bool" where
  "is_space c \<longleftrightarrow> c \<in> set [CHR '' '', CHR 0x09, CHR 0x0A, CHR 0x0B, CHR 0x0C, CHR 0x0D]"

definition py_lstrip :: "string \<Rightarrow> string" where
  "py_lstrip s = dropWhile is_space s"

definition py_strip :: "string \<Rightarrow> string" where
  "py_strip s = rev (dropWhile is_space (rev (py_lstrip s)))"

text \<open>\<open>s.split()\<close>: the maximal runs of other characters.\<close>

fun py_words_from :: "string \<Rightarrow> string \<Rightarrow> string list" where
  "py_words_from w [] = (if w = [] then [] else [w])"
| "py_words_from w (c # cs) =
     (if is_space c then (if w = [] then py_words_from [] cs else w # py_words_from [] cs)
      else py_words_from (w @ [c]) cs)"

definition py_words :: "string \<Rightarrow> string list" where
  "py_words s = py_words_from [] s"

fun str_replace :: "string \<Rightarrow> string \<Rightarrow> string \<Rightarrow> string" where
  "str_replace old new [] = []"
| "str_replace old new (c # cs) =
     (if old \<noteq> [] \<and> take (length old) (c # cs) = old
      then new @ str_replace old new (drop (length old - 1) cs)
      else c # str_replace old new cs)"

text \<open>\<open>int(s)\<close> and \<open>int(s, 0)\<close>: a sign, a base prefix for base 0, digits.\<close>

definition digit_value :: "char \<Rightarrow> int option" where
  "digit_value c =
     (let n = of_char c :: int
      in if 48 \<le> n \<and> n \<le> 57 then Some (n - 48)
         else if 97 \<le> n \<and> n \<le> 122 then Some (n - 87)
         else if 65 \<le> n \<and> n \<le> 90 then Some (n - 55) else None)"

fun digits_value :: "int \<Rightarrow> int \<Rightarrow> string \<Rightarrow> int option" where
  "digits_value base acc [] = Some acc"
| "digits_value base acc (c # cs) =
     do { d \<leftarrow> digit_value c; if d < base then digits_value base (acc * base + d) cs else None }"

definition unsigned_value :: "int \<Rightarrow> string \<Rightarrow> int option" where
  "unsigned_value base s = (if s = [] then None else digits_value base 0 s)"

definition prefixed_value :: "string \<Rightarrow> int option" where
  "prefixed_value s =
     (if take 2 s \<in> {''0x'', ''0X''} then unsigned_value 16 (drop 2 s)
      else if take 2 s \<in> {''0o'', ''0O''} then unsigned_value 8 (drop 2 s)
      else if take 2 s \<in> {''0b'', ''0B''} then unsigned_value 2 (drop 2 s)
      else if take 1 s = ''0'' then unsigned_value 8 s
      else unsigned_value 10 s)"

definition signed_value :: "(string \<Rightarrow> int option) \<Rightarrow> string \<Rightarrow> int option" where
  "signed_value conv s =
     (case py_strip s of
        [] \<Rightarrow> None
      | c # cs \<Rightarrow> if c = CHR ''-'' then map_option uminus (conv cs)
                 else if c = CHR ''+'' then conv cs else conv (c # cs))"

definition py_int :: "string \<Rightarrow> int option" where
  "py_int s = signed_value (unsigned_value 10) s"

definition py_int0 :: "string \<Rightarrow> int option" where
  "py_int0 s = signed_value prefixed_value s"

section \<open>Slices of values and instructions\<close>

definition cut :: "slice \<Rightarrow> 'a::semiring_bit_operations \<Rightarrow> 'a" where
  "cut sl v = take_bit (slice_len sl) (drop_bit (fst sl) v)"

definition paste :: "slice \<Rightarrow> 'a \<Rightarrow> 'a \<Rightarrow> 'a::ring_bit_operations" where
  "paste sl v target =
     (target AND NOT (push_bit (fst sl) (mask (slice_len sl)))) OR push_bit (fst sl) (take_bit (slice_len sl) v)"

section \<open>Field specifications\<close>

text \<open>The first component of a part is the slice of the instruction, or the value the part must have.\<close>

datatype part_target = InstSlice slice | FixedBits int

datatype field_format =
  IntFormat | RegisterFormat | ImmFormat bool | CsrnumFormat | TargetFormat | FenceFormat

record field_spec =
  fs_width :: nat
  fs_formatter :: field_format
  fs_parts :: "(part_target \<times> slice) list"

definition FieldSpec :: "nat \<Rightarrow> field_format \<Rightarrow> (part_target \<times> slice) list \<Rightarrow> field_spec" where
  "FieldSpec width formatter parts = \<lparr> fs_width = width, fs_formatter = formatter, fs_parts = parts \<rparr>"

definition FieldSpec_slice :: "nat \<Rightarrow> field_format \<Rightarrow> slice \<Rightarrow> field_spec" where
  "FieldSpec_slice width formatter sl = FieldSpec width formatter [(InstSlice sl, bslice (width - 1) (Some 0))]"

fun assemble_parts :: "(part_target \<times> slice) list \<Rightarrow> int \<Rightarrow> 'i::len word \<Rightarrow> 'i word option" where
  "assemble_parts [] value target = Some target"
| "assemble_parts ((InstSlice sl, field_slice) # ps) value target =
     assemble_parts ps value (paste sl (word_of_int (cut field_slice value)) target)"
| "assemble_parts ((FixedBits b, field_slice) # ps) value target =
     (if cut field_slice value \<noteq> b then None else assemble_parts ps value target)"

text \<open>\<open>Bits(width, value)\<close> takes a value from the least signed to the largest unsigned one and wraps a
  negative one.\<close>

definition py_bits :: "nat \<Rightarrow> int \<Rightarrow> int option" where
  "py_bits width value =
     (if - (2 ^ (width - 1)) \<le> value \<and> value < 2 ^ width then Some (value mod 2 ^ width) else None)"

definition field_assemble :: "field_spec \<Rightarrow> int \<Rightarrow> 'i::len word \<Rightarrow> 'i word option" where
  "field_assemble f value target =
     do { value \<leftarrow> py_bits (fs_width f) value; assemble_parts (fs_parts f) value target }"

fun disassemble_parts :: "(part_target \<times> slice) list \<Rightarrow> 'i::len word \<Rightarrow> int \<Rightarrow> int" where
  "disassemble_parts [] source result = result"
| "disassemble_parts ((t, field_slice) # ps) source result =
     disassemble_parts ps source
       (paste field_slice (case t of InstSlice sl \<Rightarrow> uint (cut sl source) | FixedBits b \<Rightarrow> b) result)"

definition field_disassemble :: "field_spec \<Rightarrow> 'i::len word \<Rightarrow> int" where
  "field_disassemble f source = disassemble_parts (fs_parts f) source 0"

section \<open>Field formats\<close>

text \<open>Parsing takes the symbol table and the program counter. \<open>hex\<close> is the method of the \<open>Bits\<close> object.\<close>

definition parse_register :: "string \<Rightarrow> int option" where
  "parse_register spec =
     (if take 1 spec \<noteq> ''x'' then None
      else do { r \<leftarrow> py_int (dropWhile (\<lambda>c. c = CHR ''x'') spec); if 0 \<le> r \<and> r < 32 then Some r else None })"

fun decimal :: "nat \<Rightarrow> string" where
  "decimal n = (if n < 10 then [char_of (48 + n)] else decimal (n div 10) @ [char_of (48 + n mod 10)])"

definition format_register :: "int \<Rightarrow> string" where
  "format_register value = (let d = decimal (nat value) in ''x'' @ replicate (2 - length d) CHR ''0'' @ d)"

definition imm_directive :: "string \<Rightarrow> slice option" where
  "imm_directive d =
     (if d = ''hi'' then Some (bslice 31 (Some 12)) else if d = ''lo'' then Some (bslice 11 (Some 0)) else None)"

definition parse_imm :: "bool \<Rightarrow> (string \<Rightarrow> int option) \<Rightarrow> int \<Rightarrow> string \<Rightarrow> int option" where
  "parse_imm allow_directives symbols pc spec =
     (if take 1 spec = ''%'' \<and> allow_directives
      then (case py_words (map (\<lambda>c. if c \<in> set ''%[]'' then CHR '' '' else c) spec) of
              [directive, arg] \<Rightarrow>
                do { address \<leftarrow> symbols arg;
                     value \<leftarrow> py_bits 64 address;
                     (name, value) \<leftarrow>
                       (if CHR ''_'' \<in> set directive
                        then (let name = takeWhile (\<lambda>c. c \<noteq> CHR ''_'') directive;
                                  variant = tl (dropWhile (\<lambda>c. c \<noteq> CHR ''_'') directive)
                              in if variant = ''pcrel'' then Some (name, (value - pc) mod 2 ^ 64) else None)
                        else Some (directive, value));
                     sl \<leftarrow> imm_directive name;
                     Some (cut sl value) }
            | _ \<Rightarrow> None)
      else py_int0 spec)"

definition csr_class :: bit_enum_class where
  "csr_class = the (bit_enum_pairs ''CsrRegisters'' (Some 12) csr_registers)"

definition parse_csrnum :: "string \<Rightarrow> int option" where
  "parse_csrnum spec =
     (case enum_lookup csr_class spec of
        Some csrnum \<Rightarrow> Some csrnum
      | None \<Rightarrow> do { result \<leftarrow> py_int0 spec; n \<leftarrow> py_int spec; if n < 2 ^ 12 then Some result else None })"

definition format_csrnum :: "(int \<Rightarrow> string) \<Rightarrow> int \<Rightarrow> string option" where
  "format_csrnum hex value =
     (if enum_contains csr_class value then enum_name csr_class value else Some (hex value))"

definition parse_target :: "(string \<Rightarrow> int option) \<Rightarrow> int \<Rightarrow> string \<Rightarrow> int option" where
  "parse_target symbols pc spec =
     (case symbols spec of Some address \<Rightarrow> Some (address - pc) | None \<Rightarrow> py_int0 spec)"

text \<open>\<open>fence_locs\<close> is the dictionary of the pairs of \<open>enumerate(fence_spec)\<close>: position to character.\<close>

datatype py_key = IntKey nat | CharKey char

definition fence_spec :: string where
  "fence_spec = ''iorw''"

definition fence_locs :: "(py_key \<times> py_key) list" where
  "fence_locs = map (\<lambda>(c, i). (c, i)) (zip (map IntKey [0..<length fence_spec]) (map CharKey fence_spec))"

fun parse_fence_chars :: "string \<Rightarrow> int \<Rightarrow> int option" where
  "parse_fence_chars [] result = Some result"
| "parse_fence_chars (c # cs) result =
     (case map_of fence_locs (CharKey c) of
        Some (IntKey i) \<Rightarrow> if bit result i then None else parse_fence_chars cs (set_bit i result)
      | _ \<Rightarrow> None)"

definition parse_fence :: "string \<Rightarrow> int option" where
  "parse_fence spec = (if length spec < length fence_locs then parse_fence_chars spec 0 else None)"

fun format_fence_chars :: "int \<Rightarrow> string \<Rightarrow> string \<Rightarrow> string option" where
  "format_fence_chars value [] result = Some result"
| "format_fence_chars value (c # cs) result =
     (case map_of fence_locs (CharKey c) of
        Some (IntKey i) \<Rightarrow> format_fence_chars value cs (if bit value i then result @ [c] else result)
      | _ \<Rightarrow> None)"

definition format_fence :: "int \<Rightarrow> string option" where
  "format_fence value = format_fence_chars value fence_spec []"

definition format_parse :: "field_format \<Rightarrow> (string \<Rightarrow> int option) \<Rightarrow> int \<Rightarrow> string \<Rightarrow> int option" where
  "format_parse f symbols pc spec =
     (case f of IntFormat \<Rightarrow> py_int0 spec | RegisterFormat \<Rightarrow> parse_register spec
      | ImmFormat allow \<Rightarrow> parse_imm allow symbols pc spec | CsrnumFormat \<Rightarrow> parse_csrnum spec
      | TargetFormat \<Rightarrow> parse_target symbols pc spec | FenceFormat \<Rightarrow> parse_fence spec)"

definition format_value :: "(nat \<Rightarrow> int \<Rightarrow> string) \<Rightarrow> field_spec \<Rightarrow> int \<Rightarrow> string option" where
  "format_value hex f value =
     (case fs_formatter f of
        IntFormat \<Rightarrow> Some (decimal (nat value)) | RegisterFormat \<Rightarrow> Some (format_register value)
      | CsrnumFormat \<Rightarrow> format_csrnum (hex (fs_width f)) value | FenceFormat \<Rightarrow> format_fence value
      | _ \<Rightarrow> Some (hex (fs_width f) value))"

definition field_parse :: "field_spec \<Rightarrow> (string \<Rightarrow> int option) \<Rightarrow> int \<Rightarrow> string \<Rightarrow> int option" where
  "field_parse f symbols pc spec =
     do { result \<leftarrow> format_parse (fs_formatter f) symbols pc spec;
          if result < 2 ^ fs_width f then Some result else None }"

definition field_translate ::
  "field_spec \<Rightarrow> (string \<Rightarrow> int option) \<Rightarrow> int \<Rightarrow> string \<Rightarrow> 'i::len word \<Rightarrow> 'i word option" where
  "field_translate f symbols pc spec target =
     do { value \<leftarrow> field_parse f symbols pc spec; field_assemble f value target }"

definition field_decode :: "(nat \<Rightarrow> int \<Rightarrow> string) \<Rightarrow> field_spec \<Rightarrow> 'i::len word \<Rightarrow> string option" where
  "field_decode hex f source = format_value hex f (field_disassemble f source)"

section \<open>Instruction tables\<close>

text \<open>\<open>expand_gen\<close> maps a function over the rows and concatenates the results.\<close>

definition split_instr :: "string \<Rightarrow> (string \<times> string) option" where
  "split_instr instr =
     (case py_lstrip instr of
        [] \<Rightarrow> None
      | s \<Rightarrow> Some (takeWhile (Not \<circ> is_space) s, py_lstrip (dropWhile (Not \<circ> is_space) s)))"

definition simplify_args :: "string \<Rightarrow> string list" where
  "simplify_args args = py_words (map (\<lambda>c. if c \<in> set '',()'' then CHR '' '' else c) args)"

record 'i inst_spec =
  is_name :: string
  is_args :: string
  is_simple_args :: "string list"
  is_opcode_mask :: 'i
  is_opcode :: 'i

definition expand_encoding_row :: "string \<times> 'i \<times> 'i \<Rightarrow> 'i inst_spec list" where
  "expand_encoding_row row =
     (let (inst, opcode_mask, opcode) = row
      in case split_instr inst of
           None \<Rightarrow> []
         | Some (name, args) \<Rightarrow>
             [\<lparr> is_name = name, is_args = args, is_simple_args = simplify_args args,
                is_opcode_mask = opcode_mask, is_opcode = opcode \<rparr>])"

definition expand_encoding :: "(string \<times> 'i \<times> 'i) list \<Rightarrow> 'i inst_spec list" where
  "expand_encoding rows = concat (map expand_encoding_row rows)"

record pseudo_spec =
  ps_name :: string
  ps_simple_args :: "string list"
  ps_base_list :: "(string \<times> string) list"

definition expand_pseudo_spec :: "(string \<times> string list) list \<Rightarrow> pseudo_spec list option" where
  "expand_pseudo_spec rows =
     those (map (\<lambda>(pseudo, bases).
       do { (name, args) \<leftarrow> split_instr pseudo;
            expanded \<leftarrow> those (map split_instr bases);
            Some \<lparr> ps_name = name, ps_simple_args = simplify_args args, ps_base_list = expanded \<rparr> }) rows)"

section \<open>The instruction set\<close>

text \<open>The dictionaries of the class are lists of rows in insertion order; a later row of the same name
  replaces an earlier one.\<close>

record 'i isa =
  isa_encoding :: "'i inst_spec list"
  isa_pseudo_map :: "pseudo_spec list"
  isa_fields :: "string \<Rightarrow> field_spec option"

definition find_spec :: "'i isa \<Rightarrow> string \<Rightarrow> 'i inst_spec option" where
  "find_spec isa name = find (\<lambda>r. is_name r = name) (rev (isa_encoding isa))"

definition find_pseudo :: "'i isa \<Rightarrow> string \<Rightarrow> pseudo_spec option" where
  "find_pseudo isa name = find (\<lambda>r. ps_name r = name) (rev (isa_pseudo_map isa))"

definition expand_pseudo_instructions :: "'i isa \<Rightarrow> string \<Rightarrow> string list option" where
  "expand_pseudo_instructions isa inst_str =
     do { (name, args) \<leftarrow> split_instr inst_str;
          if find_spec isa name \<noteq> None then Some [inst_str]
          else do {
            p \<leftarrow> find_pseudo isa name;
            let simple = simplify_args args;
            if length simple \<noteq> length (ps_simple_args p) then None
            else Some (map (\<lambda>(base_name, base_args).
                   base_name @ '' '' @
                   foldl (\<lambda>args (var, v). str_replace (''$'' @ var) v args) base_args
                     (zip (ps_simple_args p) simple)) (ps_base_list p)) } }"

text \<open>\<open>decode_inst_name\<close> takes the first row that matches, in the iteration order \<open>rows\<close> of the
  dictionary.\<close>

definition matches :: "'i::len word inst_spec \<Rightarrow> 'i word \<Rightarrow> bool" where
  "matches r inst_bits \<longleftrightarrow> inst_bits AND is_opcode_mask r = is_opcode r"

definition decode_inst_name :: "'i::len word inst_spec list \<Rightarrow> 'i word \<Rightarrow> string" where
  "decode_inst_name rows inst_bits =
     (case find (\<lambda>r. matches r inst_bits) rows of Some r \<Rightarrow> is_name r | None \<Rightarrow> ''invld'')"

fun assemble_args ::
  "(string \<Rightarrow> field_spec option) \<Rightarrow> (string \<Rightarrow> int option) \<Rightarrow> int \<Rightarrow> (string \<times> string) list \<Rightarrow>
   'i::len word \<Rightarrow> 'i word option" where
  "assemble_args flds symbols pc [] result = Some result"
| "assemble_args flds symbols pc ((asm_field_str, field_name) # rest) result =
     do { f \<leftarrow> flds field_name;
          result \<leftarrow> field_translate f symbols pc asm_field_str result;
          assemble_args flds symbols pc rest result }"

definition assemble_inst :: "'i::len word isa \<Rightarrow> (string \<Rightarrow> int option) \<Rightarrow> int \<Rightarrow> string \<Rightarrow> 'i word option" where
  "assemble_inst isa symbols pc inst_str =
     do { (name, args) \<leftarrow> split_instr inst_str;
          spec \<leftarrow> find_spec isa name;
          assemble_args (isa_fields isa) symbols pc (zip (simplify_args args) (is_simple_args spec)) (is_opcode spec) }"

fun disassemble_args ::
  "(nat \<Rightarrow> int \<Rightarrow> string) \<Rightarrow> (string \<Rightarrow> field_spec option) \<Rightarrow> 'i::len word \<Rightarrow> string list \<Rightarrow> string \<Rightarrow> string option" where
  "disassemble_args hex flds inst_bits [] arg_str = Some arg_str"
| "disassemble_args hex flds inst_bits (field_name # rest) arg_str =
     do { f \<leftarrow> flds field_name;
          v \<leftarrow> field_decode hex f inst_bits;
          disassemble_args hex flds inst_bits rest (str_replace field_name v arg_str) }"

definition disassemble_inst :: "(nat \<Rightarrow> int \<Rightarrow> string) \<Rightarrow> 'i::len word isa \<Rightarrow> 'i word \<Rightarrow> string option" where
  "disassemble_inst hex isa inst_bits =
     (let name = decode_inst_name (isa_encoding isa) inst_bits
      in do { spec \<leftarrow> find_spec isa name;
              arg_str \<leftarrow> disassemble_args hex (isa_fields isa) inst_bits (is_simple_args spec) (is_args spec);
              Some (name @ '' '' @ arg_str) })"

section \<open>RV64G\<close>

definition rv64g_fields :: "(string \<times> field_spec) list" where
  "rv64g_fields = [
    (''opcode'', FieldSpec_slice 7 (ImmFormat False) (bslice 6 (Some 0))),
    (''funct2'', FieldSpec_slice 2 (ImmFormat False) (bslice 26 (Some 25))),
    (''funct3'', FieldSpec_slice 3 (ImmFormat False) (bslice 14 (Some 12))),
    (''funct7'', FieldSpec_slice 7 (ImmFormat False) (bslice 31 (Some 25))),
    (''rd'', FieldSpec_slice 5 RegisterFormat (bslice 11 (Some 7))),
    (''rs1'', FieldSpec_slice 5 RegisterFormat (bslice 19 (Some 15))),
    (''rs2'', FieldSpec_slice 5 RegisterFormat (bslice 24 (Some 20))),
    (''shamt32'', FieldSpec_slice 5 (ImmFormat False) (bslice 24 (Some 20))),
    (''shamt64'', FieldSpec_slice 6 (ImmFormat False) (bslice 25 (Some 20))),
    (''i_imm'', FieldSpec_slice 12 (ImmFormat True) (bslice 31 (Some 20))),
    (''csrnum'', FieldSpec_slice 12 CsrnumFormat (bslice 31 (Some 20))),
    (''s_imm'', FieldSpec 12 (ImmFormat True) [(InstSlice (bslice 11 (Some 7)), bslice 4 (Some 0)), (InstSlice (bslice 31 (Some 25)), bslice 11 (Some 5))]),
    (''b_imm'', FieldSpec 13 TargetFormat [(InstSlice (bslice 31 None), bslice 12 None), (InstSlice (bslice 7 None), bslice 11 None), (InstSlice (bslice 30 (Some 25)), bslice 10 (Some 5)), (InstSlice (bslice 11 (Some 8)), bslice 4 (Some 1)), (FixedBits 0, bslice 0 None)]),
    (''u_imm'', FieldSpec_slice 20 (ImmFormat True) (bslice 31 (Some 12))),
    (''j_imm'', FieldSpec 21 TargetFormat [(InstSlice (bslice 31 None), bslice 20 None), (InstSlice (bslice 19 (Some 12)), bslice 19 (Some 12)), (InstSlice (bslice 20 None), bslice 11 None), (InstSlice (bslice 30 (Some 21)), bslice 10 (Some 1)), (FixedBits 0, bslice 0 None)]),
    (''c_imm'', FieldSpec_slice 5 (ImmFormat False) (bslice 19 (Some 15))),
    (''pred'', FieldSpec_slice 4 FenceFormat (bslice 27 (Some 24))),
    (''succ'', FieldSpec_slice 4 FenceFormat (bslice 23 (Some 20))),
    (''aq'', FieldSpec_slice 1 (ImmFormat False) (bslice 26 None)),
    (''rl'', FieldSpec_slice 1 (ImmFormat False) (bslice 25 None))]"

text \<open>The first list of \<open>encoding_table\<close>; masks and opcodes in hexadecimal.\<close>

definition base_encodings :: "(string \<times> 32 word \<times> 32 word) list" where
  "base_encodings = [
    (''lui    rd, u_imm'', 0x0000007F, 0x00000037),
    (''auipc  rd, u_imm'', 0x0000007F, 0x00000017),
    (''jal    rd, j_imm'', 0x0000007F, 0x0000006F),
    (''jalr   rd, rs1, i_imm'', 0x0000707F, 0x00000067),
    (''beq    rs1, rs2, b_imm'', 0x0000707F, 0x00000063),
    (''bne    rs1, rs2, b_imm'', 0x0000707F, 0x00001063),
    (''blt    rs1, rs2, b_imm'', 0x0000707F, 0x00004063),
    (''bge    rs1, rs2, b_imm'', 0x0000707F, 0x00005063),
    (''bltu   rs1, rs2, b_imm'', 0x0000707F, 0x00006063),
    (''bgeu   rs1, rs2, b_imm'', 0x0000707F, 0x00007063),
    (''lb     rd, i_imm(rs1)'', 0x0000707F, 0x00000003),
    (''lh     rd, i_imm(rs1)'', 0x0000707F, 0x00001003),
    (''lw     rd, i_imm(rs1)'', 0x0000707F, 0x00002003),
    (''ld     rd, i_imm(rs1)'', 0x0000707F, 0x00003003),
    (''lbu    rd, i_imm(rs1)'', 0x0000707F, 0x00004003),
    (''lhu    rd, i_imm(rs1)'', 0x0000707F, 0x00005003),
    (''lwu    rd, i_imm(rs1)'', 0x0000707F, 0x00006003),
    (''sb     rs2, s_imm(rs1)'', 0x0000707F, 0x00000023),
    (''sh     rs2, s_imm(rs1)'', 0x0000707F, 0x00001023),
    (''sw     rs2, s_imm(rs1)'', 0x0000707F, 0x00002023),
    (''sd     rs2, s_imm(rs1)'', 0x0000707F, 0x00003023),
    (''addi   rd, rs1, i_imm'', 0x0000707F, 0x00000013),
    (''slti   rd, rs1, i_imm'', 0x0000707F, 0x00002013),
    (''sltiu  rd, rs1, i_imm'', 0x0000707F, 0x00003013),
    (''xori   rd, rs1, i_imm'', 0x0000707F, 0x00004013),
    (''ori    rd, rs1, i_imm'', 0x0000707F, 0x00006013),
    (''andi   rd, rs1, i_imm'', 0x0000707F, 0x00007013),
    (''slli   rd, rs1, shamt64'', 0xFC00707F, 0x00001013),
    (''srli   rd, rs1, shamt64'', 0xFC00707F, 0x00005013),
    (''srai   rd, rs1, shamt64'', 0xFC00707F, 0x40005013),
    (''addiw  rd, rs1, i_imm'', 0x0000707F, 0x0000001B),
    (''slliw  rd, rs1, shamt32'', 0xFE00707F, 0x0000101B),
    (''srliw  rd, rs1, shamt32'', 0xFE00707F, 0x0000501B),
    (''sraiw  rd, rs1, shamt32'', 0xFE00707F, 0x4000501B),
    (''add    rd, rs1, rs2'', 0xFE00707F, 0x00000033),
    (''sub    rd, rs1, rs2'', 0xFE00707F, 0x40000033),
    (''sll    rd, rs1, rs2'', 0xFE00707F, 0x00001033),
    (''slt    rd, rs1, rs2'', 0xFE00707F, 0x00002033),
    (''sltu   rd, rs1, rs2'', 0xFE00707F, 0x00003033),
    (''xor    rd, rs1, rs2'', 0xFE00707F, 0x00004033),
    (''srl    rd, rs1, rs2'', 0xFE00707F, 0x00005033),
    (''sra    rd, rs1, rs2'', 0xFE00707F, 0x40005033),
    (''or     rd, rs1, rs2'', 0xFE00707F, 0x00006033),
    (''and    rd, rs1, rs2'', 0xFE00707F, 0x00007033),
    (''addw   rd, rs1, rs2'', 0xFE00707F, 0x0000003B),
    (''subw   rd, rs1, rs2'', 0xFE00707F, 0x4000003B),
    (''sllw   rd, rs1, rs2'', 0xFE00707F, 0x0000103B),
    (''srlw   rd, rs1, rs2'', 0xFE00707F, 0x0000503B),
    (''sraw   rd, rs1, rs2'', 0xFE00707F, 0x4000503B),
    (''fence   pred, succ'', 0xF00FFFFF, 0x0000000F),
    (''fence.i'', 0xFFFFFFFF, 0x0000100F),
    (''ecall'', 0xFFFFFFFF, 0x00000073),
    (''ebreak'', 0xFFFFFFFF, 0x00100073),
    (''csrrw   rd, csrnum, rs1'', 0x0000707F, 0x00001073),
    (''csrrs   rd, csrnum, rs1'', 0x0000707F, 0x00002073),
    (''csrrc   rd, csrnum, rs1'', 0x0000707F, 0x00003073),
    (''csrrwi  rd, csrnum, c_imm'', 0x0000707F, 0x00005073),
    (''csrrsi  rd, csrnum, c_imm'', 0x0000707F, 0x00006073),
    (''csrrci  rd, csrnum, c_imm'', 0x0000707F, 0x00007073),
    (''mul    rd, rs1, rs2'', 0xFE00707F, 0x02000033),
    (''mulh   rd, rs1, rs2'', 0xFE00707F, 0x02001033),
    (''mulhsu rd, rs1, rs2'', 0xFE00707F, 0x02002033),
    (''mulhu  rd, rs1, rs2'', 0xFE00707F, 0x02003033),
    (''div    rd, rs1, rs2'', 0xFE00707F, 0x02004033),
    (''divu   rd, rs1, rs2'', 0xFE00707F, 0x02005033),
    (''rem    rd, rs1, rs2'', 0xFE00707F, 0x02006033),
    (''remu   rd, rs1, rs2'', 0xFE00707F, 0x02007033),
    (''mulw   rd, rs1, rs2'', 0xFE00707F, 0x0200003B),
    (''divw   rd, rs1, rs2'', 0xFE00707F, 0x0200403B),
    (''divuw  rd, rs1, rs2'', 0xFE00707F, 0x0200503B),
    (''remw   rd, rs1, rs2'', 0xFE00707F, 0x0200603B),
    (''remuw  rd, rs1, rs2'', 0xFE00707F, 0x0200703B),
    (''invld'', 0xFFFFFFFF, 0x00C0FFEE)]"

text \<open>The atomic instructions, before their width and ordering variants.\<close>

definition amo_encodings :: "(string \<times> 32 word \<times> 32 word) list" where
  "amo_encodings = [
    (''lr           rd, rs1'', 0xFFF0707F, 0x1000202F),
    (''sc           rd, rs1, rs2'', 0xFE00707F, 0x1800202F),
    (''amoswap      rd, rs1, rs2'', 0xFE00707F, 0x0800202F),
    (''amoadd       rd, rs1, rs2'', 0xFE00707F, 0x0000202F),
    (''amoxor       rd, rs1, rs2'', 0xFE00707F, 0x2000202F),
    (''amoand       rd, rs1, rs2'', 0xFE00707F, 0x6000202F),
    (''amoor        rd, rs1, rs2'', 0xFE00707F, 0x4000202F),
    (''amomin       rd, rs1, rs2'', 0xFE00707F, 0x8000202F),
    (''amomax       rd, rs1, rs2'', 0xFE00707F, 0xA000202F),
    (''amominu      rd, rs1, rs2'', 0xFE00707F, 0xC000202F),
    (''amomaxu      rd, rs1, rs2'', 0xFE00707F, 0xE000202F)]"

text \<open>The variants set the bits of one field; \<open>assemble\<close> does not raise on them.\<close>

definition set_field :: "string \<Rightarrow> int \<Rightarrow> 32 word \<Rightarrow> 32 word option" where
  "set_field name v opcode = do { f \<leftarrow> map_of rv64g_fields name; field_assemble f v opcode }"

definition gen_amo_consistency_row :: "32 word inst_spec \<Rightarrow> 32 word inst_spec list option" where
  "gen_amo_consistency_row r =
     those (map (\<lambda>(suffix, aq, rl).
       do { word \<leftarrow> set_field ''aq'' aq (is_opcode r);
            word \<leftarrow> set_field ''rl'' rl word;
            Some (r\<lparr>is_name := is_name r @ suffix, is_opcode := word\<rparr>) })
       [('''', 0, 0), (''.aq'', 1, 0), (''.rl'', 0, 1), (''.aqrl'', 1, 1)])"

definition gen_amo_consistency_variants :: "32 word inst_spec list \<Rightarrow> 32 word inst_spec list option" where
  "gen_amo_consistency_variants rows = map_option concat (those (map gen_amo_consistency_row rows))"

definition gen_amo_width_row :: "32 word inst_spec \<Rightarrow> 32 word inst_spec list option" where
  "gen_amo_width_row r =
     those (map (\<lambda>(suffix, funct3).
       do { word \<leftarrow> set_field ''funct3'' funct3 (is_opcode r);
            Some (r\<lparr>is_name := is_name r @ suffix, is_opcode := word\<rparr>) })
       [(''.w'', 0b010), (''.d'', 0b011)])"

definition gen_amo_width_variants :: "32 word inst_spec list \<Rightarrow> 32 word inst_spec list option" where
  "gen_amo_width_variants rows = map_option concat (those (map gen_amo_width_row rows))"

definition encoding_table :: "32 word inst_spec list option" where
  "encoding_table =
     do { amo \<leftarrow> gen_amo_width_variants (expand_encoding amo_encodings);
          amo \<leftarrow> gen_amo_consistency_variants amo;
          Some (expand_encoding base_encodings @ amo) }"

definition pseudo_instructions :: "(string \<times> string list) list" where
  "pseudo_instructions = [
    (''la rd, symbol'', [''lui $rd, %hi[$symbol]'', ''addi $rd, $rd, %lo[$symbol]'']),
    (''nop'', [''addi x0, x0, 0'']),
    (''j j_imm'', [''jal x0, $j_imm'']),
    (''csrr rd, csrnum'', [''csrrs $rd, $csrnum, x0'']),
    (''csrw csrnum, rs1'', [''csrrw x0, $csrnum, $rs1''])]"

definition rv64g_isa :: "32 word isa option" where
  "rv64g_isa =
     do { encoding \<leftarrow> encoding_table;
          pseudo \<leftarrow> expand_pseudo_spec pseudo_instructions;
          Some \<lparr> isa_encoding = encoding, isa_pseudo_map = pseudo, isa_fields = map_of rv64g_fields \<rparr> }"

end
