(* ===== verification/Isa_Encoding.thy ===== *)
theory Isa_Encoding
  imports Isa
begin

text \<open>
  Properties of the instruction set of \<open>Isa\<close>: what the table evaluates to, that no two rows match the
  same instruction, and that what assembles decodes to its own name and fields.
\<close>

section \<open>The rows of the table\<close>

definition row :: "string \<Rightarrow> string \<Rightarrow> string list \<Rightarrow> 32 word \<Rightarrow> 32 word \<Rightarrow> 32 word inst_spec" where
  "row name args simple_args m opc =
     \<lparr> is_name = name, is_args = args, is_simple_args = simple_args, is_opcode_mask = m, is_opcode = opc \<rparr>"

lemma row_simps [simp]:
  "is_name (row n a s m opc) = n" "is_simple_args (row n a s m opc) = s" "is_args (row n a s m opc) = a"
  "is_opcode_mask (row n a s m opc) = m" "is_opcode (row n a s m opc) = opc"
  "(row n a s m opc)\<lparr>is_name := n', is_opcode := opc'\<rparr> = row n' a s m opc'"
  by (simp_all add: row_def)

lemmas expand_defs = expand_encoding_def expand_encoding_row_def split_instr_def simplify_args_def py_words_def
  is_space_def py_lstrip_def Let_def

definition base_rows :: "32 word inst_spec list" where
  "base_rows = [
    row ''lui'' ''rd, u_imm'' [''rd'', ''u_imm''] 0x0000007F 0x00000037,
    row ''auipc'' ''rd, u_imm'' [''rd'', ''u_imm''] 0x0000007F 0x00000017,
    row ''jal'' ''rd, j_imm'' [''rd'', ''j_imm''] 0x0000007F 0x0000006F,
    row ''jalr'' ''rd, rs1, i_imm'' [''rd'', ''rs1'', ''i_imm''] 0x0000707F 0x00000067,
    row ''beq'' ''rs1, rs2, b_imm'' [''rs1'', ''rs2'', ''b_imm''] 0x0000707F 0x00000063,
    row ''bne'' ''rs1, rs2, b_imm'' [''rs1'', ''rs2'', ''b_imm''] 0x0000707F 0x00001063,
    row ''blt'' ''rs1, rs2, b_imm'' [''rs1'', ''rs2'', ''b_imm''] 0x0000707F 0x00004063,
    row ''bge'' ''rs1, rs2, b_imm'' [''rs1'', ''rs2'', ''b_imm''] 0x0000707F 0x00005063,
    row ''bltu'' ''rs1, rs2, b_imm'' [''rs1'', ''rs2'', ''b_imm''] 0x0000707F 0x00006063,
    row ''bgeu'' ''rs1, rs2, b_imm'' [''rs1'', ''rs2'', ''b_imm''] 0x0000707F 0x00007063,
    row ''lb'' ''rd, i_imm(rs1)'' [''rd'', ''i_imm'', ''rs1''] 0x0000707F 0x00000003,
    row ''lh'' ''rd, i_imm(rs1)'' [''rd'', ''i_imm'', ''rs1''] 0x0000707F 0x00001003,
    row ''lw'' ''rd, i_imm(rs1)'' [''rd'', ''i_imm'', ''rs1''] 0x0000707F 0x00002003,
    row ''ld'' ''rd, i_imm(rs1)'' [''rd'', ''i_imm'', ''rs1''] 0x0000707F 0x00003003,
    row ''lbu'' ''rd, i_imm(rs1)'' [''rd'', ''i_imm'', ''rs1''] 0x0000707F 0x00004003,
    row ''lhu'' ''rd, i_imm(rs1)'' [''rd'', ''i_imm'', ''rs1''] 0x0000707F 0x00005003,
    row ''lwu'' ''rd, i_imm(rs1)'' [''rd'', ''i_imm'', ''rs1''] 0x0000707F 0x00006003,
    row ''sb'' ''rs2, s_imm(rs1)'' [''rs2'', ''s_imm'', ''rs1''] 0x0000707F 0x00000023,
    row ''sh'' ''rs2, s_imm(rs1)'' [''rs2'', ''s_imm'', ''rs1''] 0x0000707F 0x00001023,
    row ''sw'' ''rs2, s_imm(rs1)'' [''rs2'', ''s_imm'', ''rs1''] 0x0000707F 0x00002023,
    row ''sd'' ''rs2, s_imm(rs1)'' [''rs2'', ''s_imm'', ''rs1''] 0x0000707F 0x00003023,
    row ''addi'' ''rd, rs1, i_imm'' [''rd'', ''rs1'', ''i_imm''] 0x0000707F 0x00000013,
    row ''slti'' ''rd, rs1, i_imm'' [''rd'', ''rs1'', ''i_imm''] 0x0000707F 0x00002013,
    row ''sltiu'' ''rd, rs1, i_imm'' [''rd'', ''rs1'', ''i_imm''] 0x0000707F 0x00003013,
    row ''xori'' ''rd, rs1, i_imm'' [''rd'', ''rs1'', ''i_imm''] 0x0000707F 0x00004013,
    row ''ori'' ''rd, rs1, i_imm'' [''rd'', ''rs1'', ''i_imm''] 0x0000707F 0x00006013,
    row ''andi'' ''rd, rs1, i_imm'' [''rd'', ''rs1'', ''i_imm''] 0x0000707F 0x00007013,
    row ''slli'' ''rd, rs1, shamt64'' [''rd'', ''rs1'', ''shamt64''] 0xFC00707F 0x00001013,
    row ''srli'' ''rd, rs1, shamt64'' [''rd'', ''rs1'', ''shamt64''] 0xFC00707F 0x00005013,
    row ''srai'' ''rd, rs1, shamt64'' [''rd'', ''rs1'', ''shamt64''] 0xFC00707F 0x40005013,
    row ''addiw'' ''rd, rs1, i_imm'' [''rd'', ''rs1'', ''i_imm''] 0x0000707F 0x0000001B,
    row ''slliw'' ''rd, rs1, shamt32'' [''rd'', ''rs1'', ''shamt32''] 0xFE00707F 0x0000101B,
    row ''srliw'' ''rd, rs1, shamt32'' [''rd'', ''rs1'', ''shamt32''] 0xFE00707F 0x0000501B,
    row ''sraiw'' ''rd, rs1, shamt32'' [''rd'', ''rs1'', ''shamt32''] 0xFE00707F 0x4000501B,
    row ''add'' ''rd, rs1, rs2'' [''rd'', ''rs1'', ''rs2''] 0xFE00707F 0x00000033,
    row ''sub'' ''rd, rs1, rs2'' [''rd'', ''rs1'', ''rs2''] 0xFE00707F 0x40000033,
    row ''sll'' ''rd, rs1, rs2'' [''rd'', ''rs1'', ''rs2''] 0xFE00707F 0x00001033,
    row ''slt'' ''rd, rs1, rs2'' [''rd'', ''rs1'', ''rs2''] 0xFE00707F 0x00002033,
    row ''sltu'' ''rd, rs1, rs2'' [''rd'', ''rs1'', ''rs2''] 0xFE00707F 0x00003033,
    row ''xor'' ''rd, rs1, rs2'' [''rd'', ''rs1'', ''rs2''] 0xFE00707F 0x00004033,
    row ''srl'' ''rd, rs1, rs2'' [''rd'', ''rs1'', ''rs2''] 0xFE00707F 0x00005033,
    row ''sra'' ''rd, rs1, rs2'' [''rd'', ''rs1'', ''rs2''] 0xFE00707F 0x40005033,
    row ''or'' ''rd, rs1, rs2'' [''rd'', ''rs1'', ''rs2''] 0xFE00707F 0x00006033,
    row ''and'' ''rd, rs1, rs2'' [''rd'', ''rs1'', ''rs2''] 0xFE00707F 0x00007033,
    row ''addw'' ''rd, rs1, rs2'' [''rd'', ''rs1'', ''rs2''] 0xFE00707F 0x0000003B,
    row ''subw'' ''rd, rs1, rs2'' [''rd'', ''rs1'', ''rs2''] 0xFE00707F 0x4000003B,
    row ''sllw'' ''rd, rs1, rs2'' [''rd'', ''rs1'', ''rs2''] 0xFE00707F 0x0000103B,
    row ''srlw'' ''rd, rs1, rs2'' [''rd'', ''rs1'', ''rs2''] 0xFE00707F 0x0000503B,
    row ''sraw'' ''rd, rs1, rs2'' [''rd'', ''rs1'', ''rs2''] 0xFE00707F 0x4000503B,
    row ''fence'' ''pred, succ'' [''pred'', ''succ''] 0xF00FFFFF 0x0000000F,
    row ''fence.i'' '''' [] 0xFFFFFFFF 0x0000100F,
    row ''ecall'' '''' [] 0xFFFFFFFF 0x00000073,
    row ''ebreak'' '''' [] 0xFFFFFFFF 0x00100073,
    row ''csrrw'' ''rd, csrnum, rs1'' [''rd'', ''csrnum'', ''rs1''] 0x0000707F 0x00001073,
    row ''csrrs'' ''rd, csrnum, rs1'' [''rd'', ''csrnum'', ''rs1''] 0x0000707F 0x00002073,
    row ''csrrc'' ''rd, csrnum, rs1'' [''rd'', ''csrnum'', ''rs1''] 0x0000707F 0x00003073,
    row ''csrrwi'' ''rd, csrnum, c_imm'' [''rd'', ''csrnum'', ''c_imm''] 0x0000707F 0x00005073,
    row ''csrrsi'' ''rd, csrnum, c_imm'' [''rd'', ''csrnum'', ''c_imm''] 0x0000707F 0x00006073,
    row ''csrrci'' ''rd, csrnum, c_imm'' [''rd'', ''csrnum'', ''c_imm''] 0x0000707F 0x00007073,
    row ''mul'' ''rd, rs1, rs2'' [''rd'', ''rs1'', ''rs2''] 0xFE00707F 0x02000033,
    row ''mulh'' ''rd, rs1, rs2'' [''rd'', ''rs1'', ''rs2''] 0xFE00707F 0x02001033,
    row ''mulhsu'' ''rd, rs1, rs2'' [''rd'', ''rs1'', ''rs2''] 0xFE00707F 0x02002033,
    row ''mulhu'' ''rd, rs1, rs2'' [''rd'', ''rs1'', ''rs2''] 0xFE00707F 0x02003033,
    row ''div'' ''rd, rs1, rs2'' [''rd'', ''rs1'', ''rs2''] 0xFE00707F 0x02004033,
    row ''divu'' ''rd, rs1, rs2'' [''rd'', ''rs1'', ''rs2''] 0xFE00707F 0x02005033,
    row ''rem'' ''rd, rs1, rs2'' [''rd'', ''rs1'', ''rs2''] 0xFE00707F 0x02006033,
    row ''remu'' ''rd, rs1, rs2'' [''rd'', ''rs1'', ''rs2''] 0xFE00707F 0x02007033,
    row ''mulw'' ''rd, rs1, rs2'' [''rd'', ''rs1'', ''rs2''] 0xFE00707F 0x0200003B,
    row ''divw'' ''rd, rs1, rs2'' [''rd'', ''rs1'', ''rs2''] 0xFE00707F 0x0200403B,
    row ''divuw'' ''rd, rs1, rs2'' [''rd'', ''rs1'', ''rs2''] 0xFE00707F 0x0200503B,
    row ''remw'' ''rd, rs1, rs2'' [''rd'', ''rs1'', ''rs2''] 0xFE00707F 0x0200603B,
    row ''remuw'' ''rd, rs1, rs2'' [''rd'', ''rs1'', ''rs2''] 0xFE00707F 0x0200703B,
    row ''invld'' '''' [] 0xFFFFFFFF 0x00C0FFEE]"

lemma expand_base: "expand_encoding base_encodings = base_rows"
  unfolding base_encodings_def base_rows_def by (simp add: expand_defs row_def)

definition amo_row :: "string \<Rightarrow> string list \<Rightarrow> 32 word \<Rightarrow> 32 word \<Rightarrow> 32 word inst_spec" where
  "amo_row name regs m opc = row name (if regs = [''rd'', ''rs1''] then ''rd, rs1'' else ''rd, rs1, rs2'') regs m opc"

text \<open>The operands of the load-reserved instructions and of the others.\<close>

abbreviation "lr_regs \<equiv> [''rd'', ''rs1'']"
abbreviation "amo_regs \<equiv> [''rd'', ''rs1'', ''rs2'']"

definition amo_base_rows :: "32 word inst_spec list" where
  "amo_base_rows = [
    amo_row ''lr'' lr_regs 0xFFF0707F 0x1000202F,
    amo_row ''sc'' amo_regs 0xFE00707F 0x1800202F,
    amo_row ''amoswap'' amo_regs 0xFE00707F 0x0800202F,
    amo_row ''amoadd'' amo_regs 0xFE00707F 0x0000202F,
    amo_row ''amoxor'' amo_regs 0xFE00707F 0x2000202F,
    amo_row ''amoand'' amo_regs 0xFE00707F 0x6000202F,
    amo_row ''amoor'' amo_regs 0xFE00707F 0x4000202F,
    amo_row ''amomin'' amo_regs 0xFE00707F 0x8000202F,
    amo_row ''amomax'' amo_regs 0xFE00707F 0xA000202F,
    amo_row ''amominu'' amo_regs 0xFE00707F 0xC000202F,
    amo_row ''amomaxu'' amo_regs 0xFE00707F 0xE000202F]"

definition amo_width_rows :: "32 word inst_spec list" where
  "amo_width_rows = [
    amo_row ''lr.w'' lr_regs 0xFFF0707F 0x1000202F,
    amo_row ''lr.d'' lr_regs 0xFFF0707F 0x1000302F,
    amo_row ''sc.w'' amo_regs 0xFE00707F 0x1800202F,
    amo_row ''sc.d'' amo_regs 0xFE00707F 0x1800302F,
    amo_row ''amoswap.w'' amo_regs 0xFE00707F 0x0800202F,
    amo_row ''amoswap.d'' amo_regs 0xFE00707F 0x0800302F,
    amo_row ''amoadd.w'' amo_regs 0xFE00707F 0x0000202F,
    amo_row ''amoadd.d'' amo_regs 0xFE00707F 0x0000302F,
    amo_row ''amoxor.w'' amo_regs 0xFE00707F 0x2000202F,
    amo_row ''amoxor.d'' amo_regs 0xFE00707F 0x2000302F,
    amo_row ''amoand.w'' amo_regs 0xFE00707F 0x6000202F,
    amo_row ''amoand.d'' amo_regs 0xFE00707F 0x6000302F,
    amo_row ''amoor.w'' amo_regs 0xFE00707F 0x4000202F,
    amo_row ''amoor.d'' amo_regs 0xFE00707F 0x4000302F,
    amo_row ''amomin.w'' amo_regs 0xFE00707F 0x8000202F,
    amo_row ''amomin.d'' amo_regs 0xFE00707F 0x8000302F,
    amo_row ''amomax.w'' amo_regs 0xFE00707F 0xA000202F,
    amo_row ''amomax.d'' amo_regs 0xFE00707F 0xA000302F,
    amo_row ''amominu.w'' amo_regs 0xFE00707F 0xC000202F,
    amo_row ''amominu.d'' amo_regs 0xFE00707F 0xC000302F,
    amo_row ''amomaxu.w'' amo_regs 0xFE00707F 0xE000202F,
    amo_row ''amomaxu.d'' amo_regs 0xFE00707F 0xE000302F]"

definition amo_rows :: "32 word inst_spec list" where
  "amo_rows = [
    amo_row ''lr.w'' lr_regs 0xFFF0707F 0x1000202F,
    amo_row ''lr.w.aq'' lr_regs 0xFFF0707F 0x1400202F,
    amo_row ''lr.w.rl'' lr_regs 0xFFF0707F 0x1200202F,
    amo_row ''lr.w.aqrl'' lr_regs 0xFFF0707F 0x1600202F,
    amo_row ''lr.d'' lr_regs 0xFFF0707F 0x1000302F,
    amo_row ''lr.d.aq'' lr_regs 0xFFF0707F 0x1400302F,
    amo_row ''lr.d.rl'' lr_regs 0xFFF0707F 0x1200302F,
    amo_row ''lr.d.aqrl'' lr_regs 0xFFF0707F 0x1600302F,
    amo_row ''sc.w'' amo_regs 0xFE00707F 0x1800202F,
    amo_row ''sc.w.aq'' amo_regs 0xFE00707F 0x1C00202F,
    amo_row ''sc.w.rl'' amo_regs 0xFE00707F 0x1A00202F,
    amo_row ''sc.w.aqrl'' amo_regs 0xFE00707F 0x1E00202F,
    amo_row ''sc.d'' amo_regs 0xFE00707F 0x1800302F,
    amo_row ''sc.d.aq'' amo_regs 0xFE00707F 0x1C00302F,
    amo_row ''sc.d.rl'' amo_regs 0xFE00707F 0x1A00302F,
    amo_row ''sc.d.aqrl'' amo_regs 0xFE00707F 0x1E00302F,
    amo_row ''amoswap.w'' amo_regs 0xFE00707F 0x0800202F,
    amo_row ''amoswap.w.aq'' amo_regs 0xFE00707F 0x0C00202F,
    amo_row ''amoswap.w.rl'' amo_regs 0xFE00707F 0x0A00202F,
    amo_row ''amoswap.w.aqrl'' amo_regs 0xFE00707F 0x0E00202F,
    amo_row ''amoswap.d'' amo_regs 0xFE00707F 0x0800302F,
    amo_row ''amoswap.d.aq'' amo_regs 0xFE00707F 0x0C00302F,
    amo_row ''amoswap.d.rl'' amo_regs 0xFE00707F 0x0A00302F,
    amo_row ''amoswap.d.aqrl'' amo_regs 0xFE00707F 0x0E00302F,
    amo_row ''amoadd.w'' amo_regs 0xFE00707F 0x0000202F,
    amo_row ''amoadd.w.aq'' amo_regs 0xFE00707F 0x0400202F,
    amo_row ''amoadd.w.rl'' amo_regs 0xFE00707F 0x0200202F,
    amo_row ''amoadd.w.aqrl'' amo_regs 0xFE00707F 0x0600202F,
    amo_row ''amoadd.d'' amo_regs 0xFE00707F 0x0000302F,
    amo_row ''amoadd.d.aq'' amo_regs 0xFE00707F 0x0400302F,
    amo_row ''amoadd.d.rl'' amo_regs 0xFE00707F 0x0200302F,
    amo_row ''amoadd.d.aqrl'' amo_regs 0xFE00707F 0x0600302F,
    amo_row ''amoxor.w'' amo_regs 0xFE00707F 0x2000202F,
    amo_row ''amoxor.w.aq'' amo_regs 0xFE00707F 0x2400202F,
    amo_row ''amoxor.w.rl'' amo_regs 0xFE00707F 0x2200202F,
    amo_row ''amoxor.w.aqrl'' amo_regs 0xFE00707F 0x2600202F,
    amo_row ''amoxor.d'' amo_regs 0xFE00707F 0x2000302F,
    amo_row ''amoxor.d.aq'' amo_regs 0xFE00707F 0x2400302F,
    amo_row ''amoxor.d.rl'' amo_regs 0xFE00707F 0x2200302F,
    amo_row ''amoxor.d.aqrl'' amo_regs 0xFE00707F 0x2600302F,
    amo_row ''amoand.w'' amo_regs 0xFE00707F 0x6000202F,
    amo_row ''amoand.w.aq'' amo_regs 0xFE00707F 0x6400202F,
    amo_row ''amoand.w.rl'' amo_regs 0xFE00707F 0x6200202F,
    amo_row ''amoand.w.aqrl'' amo_regs 0xFE00707F 0x6600202F,
    amo_row ''amoand.d'' amo_regs 0xFE00707F 0x6000302F,
    amo_row ''amoand.d.aq'' amo_regs 0xFE00707F 0x6400302F,
    amo_row ''amoand.d.rl'' amo_regs 0xFE00707F 0x6200302F,
    amo_row ''amoand.d.aqrl'' amo_regs 0xFE00707F 0x6600302F,
    amo_row ''amoor.w'' amo_regs 0xFE00707F 0x4000202F,
    amo_row ''amoor.w.aq'' amo_regs 0xFE00707F 0x4400202F,
    amo_row ''amoor.w.rl'' amo_regs 0xFE00707F 0x4200202F,
    amo_row ''amoor.w.aqrl'' amo_regs 0xFE00707F 0x4600202F,
    amo_row ''amoor.d'' amo_regs 0xFE00707F 0x4000302F,
    amo_row ''amoor.d.aq'' amo_regs 0xFE00707F 0x4400302F,
    amo_row ''amoor.d.rl'' amo_regs 0xFE00707F 0x4200302F,
    amo_row ''amoor.d.aqrl'' amo_regs 0xFE00707F 0x4600302F,
    amo_row ''amomin.w'' amo_regs 0xFE00707F 0x8000202F,
    amo_row ''amomin.w.aq'' amo_regs 0xFE00707F 0x8400202F,
    amo_row ''amomin.w.rl'' amo_regs 0xFE00707F 0x8200202F,
    amo_row ''amomin.w.aqrl'' amo_regs 0xFE00707F 0x8600202F,
    amo_row ''amomin.d'' amo_regs 0xFE00707F 0x8000302F,
    amo_row ''amomin.d.aq'' amo_regs 0xFE00707F 0x8400302F,
    amo_row ''amomin.d.rl'' amo_regs 0xFE00707F 0x8200302F,
    amo_row ''amomin.d.aqrl'' amo_regs 0xFE00707F 0x8600302F,
    amo_row ''amomax.w'' amo_regs 0xFE00707F 0xA000202F,
    amo_row ''amomax.w.aq'' amo_regs 0xFE00707F 0xA400202F,
    amo_row ''amomax.w.rl'' amo_regs 0xFE00707F 0xA200202F,
    amo_row ''amomax.w.aqrl'' amo_regs 0xFE00707F 0xA600202F,
    amo_row ''amomax.d'' amo_regs 0xFE00707F 0xA000302F,
    amo_row ''amomax.d.aq'' amo_regs 0xFE00707F 0xA400302F,
    amo_row ''amomax.d.rl'' amo_regs 0xFE00707F 0xA200302F,
    amo_row ''amomax.d.aqrl'' amo_regs 0xFE00707F 0xA600302F,
    amo_row ''amominu.w'' amo_regs 0xFE00707F 0xC000202F,
    amo_row ''amominu.w.aq'' amo_regs 0xFE00707F 0xC400202F,
    amo_row ''amominu.w.rl'' amo_regs 0xFE00707F 0xC200202F,
    amo_row ''amominu.w.aqrl'' amo_regs 0xFE00707F 0xC600202F,
    amo_row ''amominu.d'' amo_regs 0xFE00707F 0xC000302F,
    amo_row ''amominu.d.aq'' amo_regs 0xFE00707F 0xC400302F,
    amo_row ''amominu.d.rl'' amo_regs 0xFE00707F 0xC200302F,
    amo_row ''amominu.d.aqrl'' amo_regs 0xFE00707F 0xC600302F,
    amo_row ''amomaxu.w'' amo_regs 0xFE00707F 0xE000202F,
    amo_row ''amomaxu.w.aq'' amo_regs 0xFE00707F 0xE400202F,
    amo_row ''amomaxu.w.rl'' amo_regs 0xFE00707F 0xE200202F,
    amo_row ''amomaxu.w.aqrl'' amo_regs 0xFE00707F 0xE600202F,
    amo_row ''amomaxu.d'' amo_regs 0xFE00707F 0xE000302F,
    amo_row ''amomaxu.d.aq'' amo_regs 0xFE00707F 0xE400302F,
    amo_row ''amomaxu.d.rl'' amo_regs 0xFE00707F 0xE200302F,
    amo_row ''amomaxu.d.aqrl'' amo_regs 0xFE00707F 0xE600302F]"

lemmas amo_defs = amo_base_rows_def amo_width_rows_def amo_rows_def amo_row_def

lemma expand_amo: "expand_encoding amo_encodings = amo_base_rows"
  unfolding amo_encodings_def amo_defs by (simp add: expand_defs row_def)

lemma field_masks: "(- 67108865 :: 32 word) = 0xFBFFFFFF" "(- 33554433 :: 32 word) = 0xFDFFFFFF"
  "NOT (mask (Suc (Suc (Suc 0))) * 4096) = (0xFFFF8FFF :: 32 word)"
  by (simp_all add: mask_eq_exp_minus_1)

lemma set_field_values:
  "v = 0 \<or> v = 1 \<Longrightarrow> set_field ''aq'' v w = Some ((w AND 0xFBFFFFFF) OR (word_of_int v * 0x4000000))"
  "v = 0 \<or> v = 1 \<Longrightarrow> set_field ''rl'' v w = Some ((w AND 0xFDFFFFFF) OR (word_of_int v * 0x2000000))"
  "v = 2 \<or> v = 3 \<Longrightarrow> set_field ''funct3'' v w = Some ((w AND 0xFFFF8FFF) OR (word_of_int v * 0x1000))"
  by (auto simp: set_field_def rv64g_fields_def FieldSpec_slice_def FieldSpec_def field_assemble_def py_bits_def
      cut_def paste_def bslice_def slice_len_def push_bit_eq_mult mask_numeral take_bit_eq_mod field_masks)

lemma amo_width: "gen_amo_width_variants amo_base_rows = Some amo_width_rows"
  unfolding amo_defs by (simp add: gen_amo_width_variants_def gen_amo_width_row_def set_field_values)

lemma amo_consistency: "gen_amo_consistency_variants amo_width_rows = Some amo_rows"
  unfolding amo_defs by (simp add: gen_amo_consistency_variants_def gen_amo_consistency_row_def set_field_values)

definition rv64g_rows :: "32 word inst_spec list" where
  "rv64g_rows = base_rows @ amo_rows"

lemma encoding_table_rows: "encoding_table = Some rv64g_rows"
  by (simp add: encoding_table_def expand_amo amo_width amo_consistency expand_base rv64g_rows_def)


section \<open>No two rows match the same instruction\<close>

text \<open>Every row fixes the bits \<open>key_mask\<close> selects from the major opcode and the minor one, and no two rows
  fix them alike.\<close>

definition key_mask :: "32 word \<Rightarrow> 32 word" where
  "key_mask b =
     (if b AND 0x7F \<in> {0x37, 0x17, 0x6F} then 0x7F
      else if b AND 0x7F \<in> {0x33, 0x3B, 0x2F} \<or> b \<in> {0x101B, 0x501B} then 0xFE00707F
      else if b \<in> {0x1013, 0x5013} then 0xFC00707F
      else if b = 0x73 then 0xFFFFFFFF else 0x707F)"

definition inst_key :: "32 word \<Rightarrow> 32 word" where
  "inst_key w = w AND key_mask (w AND 0x707F)"

definition keyed :: "32 word inst_spec \<Rightarrow> bool" where
  "keyed r \<longleftrightarrow>
     (if is_opcode_mask r = 0x7F then is_opcode r \<in> {0x37, 0x17, 0x6F}
      else is_opcode_mask r AND 0x707F = 0x707F \<and>
           is_opcode_mask r AND key_mask (is_opcode r AND 0x707F) = key_mask (is_opcode r AND 0x707F)) \<and>
     is_opcode r AND is_opcode_mask r = is_opcode r"

lemma submask: "w AND m = v \<Longrightarrow> m AND c = c \<Longrightarrow> w AND c = v AND c" for w :: "'a::len word"
  by (metis and.assoc)

lemma key_of_match:
  assumes "keyed r" "matches r w"
  shows "inst_key w = inst_key (is_opcode r)"
proof (cases "is_opcode_mask r = 0x7F")
  case True
  then have w: "w AND 0x7F = is_opcode r" and ok: "is_opcode r \<in> {0x37, 0x17, 0x6F}"
    using assms by (auto simp: keyed_def matches_def)
  have key: "(w AND 0x707F) AND 0x7F = is_opcode r" using w by (simp add: and.assoc)
  have "key_mask (w AND 0x707F) = 0x7F" using ok unfolding key_mask_def key by simp
  then have "inst_key w = is_opcode r" using w by (simp add: inst_key_def)
  then show ?thesis using ok by (auto simp: inst_key_def key_mask_def)
next
  case False
  then show ?thesis
    using submask [of w "is_opcode_mask r" "is_opcode r"] assms by (simp add: keyed_def matches_def inst_key_def)
qed

lemma rows_keyed: "list_all keyed rv64g_rows"
  unfolding rv64g_rows_def base_rows_def amo_rows_def amo_row_def by (simp add: keyed_def key_mask_def)

lemma base_keys: "map (inst_key \<circ> is_opcode) base_rows =
    [0x37, 0x17, 0x6F, 0x67, 0x63, 0x1063, 0x4063, 0x5063, 0x6063, 0x7063, 0x3, 0x1003, 0x2003, 0x3003,
     0x4003, 0x5003, 0x6003, 0x23, 0x1023, 0x2023, 0x3023, 0x13, 0x2013, 0x3013, 0x4013, 0x6013, 0x7013,
     0x1013, 0x5013, 0x40005013, 0x1B, 0x101B, 0x501B, 0x4000501B, 0x33, 0x40000033, 0x1033, 0x2033,
     0x3033, 0x4033, 0x5033, 0x40005033, 0x6033, 0x7033, 0x3B, 0x4000003B, 0x103B, 0x503B, 0x4000503B,
     0xF, 0x100F, 0x73, 0x100073, 0x1073, 0x2073, 0x3073, 0x5073, 0x6073, 0x7073, 0x2000033, 0x2001033,
     0x2002033, 0x2003033, 0x2004033, 0x2005033, 0x2006033, 0x2007033, 0x200003B, 0x200403B, 0x200503B,
     0x200603B, 0x200703B, 0x706E]"
  unfolding base_rows_def by (simp add: inst_key_def key_mask_def)

lemma amo_keys: "map (inst_key \<circ> is_opcode) amo_rows =
    [0x1000202F, 0x1400202F, 0x1200202F, 0x1600202F, 0x1000302F, 0x1400302F, 0x1200302F, 0x1600302F,
     0x1800202F, 0x1C00202F, 0x1A00202F, 0x1E00202F, 0x1800302F, 0x1C00302F, 0x1A00302F, 0x1E00302F,
     0x800202F, 0xC00202F, 0xA00202F, 0xE00202F, 0x800302F, 0xC00302F, 0xA00302F, 0xE00302F, 0x202F,
     0x400202F, 0x200202F, 0x600202F, 0x302F, 0x400302F, 0x200302F, 0x600302F, 0x2000202F, 0x2400202F,
     0x2200202F, 0x2600202F, 0x2000302F, 0x2400302F, 0x2200302F, 0x2600302F, 0x6000202F, 0x6400202F,
     0x6200202F, 0x6600202F, 0x6000302F, 0x6400302F, 0x6200302F, 0x6600302F, 0x4000202F, 0x4400202F,
     0x4200202F, 0x4600202F, 0x4000302F, 0x4400302F, 0x4200302F, 0x4600302F, 0x8000202F, 0x8400202F,
     0x8200202F, 0x8600202F, 0x8000302F, 0x8400302F, 0x8200302F, 0x8600302F, 0xA000202F, 0xA400202F,
     0xA200202F, 0xA600202F, 0xA000302F, 0xA400302F, 0xA200302F, 0xA600302F, 0xC000202F, 0xC400202F,
     0xC200202F, 0xC600202F, 0xC000302F, 0xC400302F, 0xC200302F, 0xC600302F, 0xE000202F, 0xE400202F,
     0xE200202F, 0xE600202F, 0xE000302F, 0xE400302F, 0xE200302F, 0xE600302F]"
  unfolding amo_rows_def amo_row_def by (simp add: inst_key_def key_mask_def)

lemma rows_distinct_keys: "distinct (map (inst_key \<circ> is_opcode) rv64g_rows)"
proof -
  have "distinct (map unat (map (inst_key \<circ> is_opcode) rv64g_rows))"
    unfolding rv64g_rows_def map_append base_keys amo_keys by simp
  then show ?thesis unfolding distinct_map by blast
qed

lemma match_unique:
  assumes "r \<in> set rv64g_rows" "s \<in> set rv64g_rows" "matches r w" "matches s w"
  shows "r = s"
proof -
  have "inst_key (is_opcode r) = inst_key (is_opcode s)"
    using assms key_of_match rows_keyed by (metis list_all_iff)
  then show ?thesis using rows_distinct_keys assms(1,2) unfolding distinct_map inj_on_def comp_def by blast
qed

lemma decode_matching:
  assumes "set ys = set rv64g_rows" "r \<in> set rv64g_rows" "matches r w"
  shows "decode_inst_name ys w = is_name r"
proof -
  have "find (\<lambda>r. matches r w) ys \<noteq> None" using assms by (auto simp: find_None_iff)
  then obtain s where "find (\<lambda>r. matches r w) ys = Some s" by auto
  moreover from this have "s = r" using match_unique [of s r w] assms by (auto dest: find_SomeD)
  ultimately show ?thesis by (simp add: decode_inst_name_def)
qed

lemma decode_unmatched: "\<forall>r \<in> set ys. \<not> matches r w \<Longrightarrow> decode_inst_name ys w = ''invld''"
  unfolding decode_inst_name_def by (metis (no_types, lifting) find_None_iff option.simps(4))


end
