(* ===== verification/Isa_Roundtrip.thy ===== *)
theory Isa_Roundtrip
  imports Isa_Encoding
begin

text \<open>
  What assembles decodes to its own name and to the fields it was assembled from.
\<close>


section \<open>Fields\<close>

fun target_bits :: "part_target \<times> slice \<Rightarrow> nat list" where
  "target_bits (InstSlice sl, fl) = [fst sl..<snd sl]"
| "target_bits (FixedBits b, fl) = []"

definition value_bits :: "part_target \<times> slice \<Rightarrow> nat list" where
  "value_bits p = [fst (snd p)..<snd (snd p)]"

definition field_bits :: "field_spec \<Rightarrow> nat list" where
  "field_bits f = concat (map target_bits (fs_parts f))"

definition parts_fit :: "part_target \<times> slice \<Rightarrow> bool" where
  "parts_fit p = (case fst p of InstSlice sl \<Rightarrow> slice_len sl = slice_len (snd p) \<and> snd sl \<le> 32 | FixedBits b \<Rightarrow> True)"

definition field_ok :: "field_spec \<Rightarrow> bool" where
  "field_ok f \<longleftrightarrow>
     distinct (field_bits f) \<and> list_all parts_fit (fs_parts f) \<and>
     distinct (concat (map value_bits (fs_parts f))) \<and>
     list_all (\<lambda>j. j < fs_width f) (concat (map value_bits (fs_parts f))) \<and>
     list_all (\<lambda>j. j \<in> set (concat (map value_bits (fs_parts f)))) [0..<fs_width f]"

lemma bit_cut: "bit (cut sl v) n \<longleftrightarrow> n < slice_len sl \<and> bit v (fst sl + n)"
  by (simp add: cut_def bit_take_bit_iff bit_drop_bit_eq)

lemma bit_paste_word: "bit (paste sl v (t :: 'i::len word)) n \<longleftrightarrow>
    n < LENGTH('i) \<and> (if fst sl \<le> n \<and> n < snd sl then bit v (n - fst sl) else bit t n)"
  by (auto simp: paste_def slice_len_def bit_simps)

lemma bit_paste_int: "bit (paste sl v (t :: int)) n \<longleftrightarrow>
    (if fst sl \<le> n \<and> n < snd sl then bit v (n - fst sl) else bit t n)"
  by (auto simp: paste_def slice_len_def bit_simps)

lemma distinct_later: "distinct (concat (map g (p # ps))) \<Longrightarrow> x \<in> set (g p) \<Longrightarrow> x \<notin> set (concat (map g ps))"
  by auto

lemma assemble_parts_other:
  "assemble_parts ps v (t :: 'i::len word) = Some t' \<Longrightarrow> n \<notin> set (concat (map target_bits ps)) \<Longrightarrow>
   bit t' n = bit t n"
  by (induction ps v t rule: assemble_parts.induct)
     (auto simp: bit_paste_word dest: bit_imp_le_length split: if_splits)

lemma assemble_parts_slice:
  assumes "assemble_parts ps v (t :: 32 word) = Some t'" "distinct (concat (map target_bits ps))" "list_all parts_fit ps"
    and "(InstSlice sl, fl) \<in> set ps" "n < slice_len fl"
  shows "bit t' (fst sl + n) = bit v (fst fl + n)"
  using assms
proof (induction ps v t rule: assemble_parts.induct)
  case (2 sl' fl' ps v t)
  let ?t = "paste sl' (word_of_int (cut fl' v)) t"
  show ?case
  proof (cases "(InstSlice sl, fl) = (InstSlice sl', fl')")
    case True
    then have "fst sl + n \<in> set [fst sl..<snd sl]" using 2(4,6) by (auto simp: parts_fit_def slice_len_def)
    then have "fst sl + n \<notin> set (concat (map target_bits ps))"
      using distinct_later [OF 2(3), of "fst sl + n"] True by simp
    then have "bit t' (fst sl + n) = bit ?t (fst sl + n)" using 2(2) by (intro assemble_parts_other) simp_all
    then show ?thesis using True 2(4,6) by (auto simp: bit_paste_word parts_fit_def slice_len_def bit_cut bit_word_of_int_iff)
  next
    case False
    then show ?thesis using 2 by auto
  qed
qed (auto split: if_splits)

lemma assemble_parts_fixed:
  "assemble_parts ps v t = Some t' \<Longrightarrow> (FixedBits b, fl) \<in> set ps \<Longrightarrow> cut fl v = b"
  by (induction ps v t rule: assemble_parts.induct) (auto split: if_splits)

lemma disassemble_parts_other:
  "j \<notin> set (concat (map value_bits ps)) \<Longrightarrow> bit (disassemble_parts ps s r) j = bit r j"
  by (induction ps s r rule: disassemble_parts.induct) (auto simp: bit_paste_int value_bits_def)

lemma disassemble_parts_slice:
  assumes "distinct (concat (map value_bits ps))" "(t, fl) \<in> set ps" "n < slice_len fl"
  shows "bit (disassemble_parts ps s r) (fst fl + n) =
         bit (case t of InstSlice sl \<Rightarrow> uint (cut sl s) | FixedBits b \<Rightarrow> b) n"
  using assms
proof (induction ps s r rule: disassemble_parts.induct)
  case (2 t' fl' ps s r)
  show ?case
  proof (cases "(t, fl) = (t', fl')")
    case True
    then have "fst fl + n \<in> set (value_bits (t', fl'))" using 2(4) by (auto simp: value_bits_def slice_len_def)
    then have other: "bit (disassemble_parts ps s r') (fst fl + n) = bit r' (fst fl + n)" for r'
      using distinct_later [OF 2(2)] disassemble_parts_other by blast
    have same: "t' = t" "fl' = fl" using True by simp_all
    show ?thesis using 2(4) unfolding same by (auto simp: other [unfolded same] bit_paste_int slice_len_def)
  next
    case False
    then show ?thesis using 2 by auto
  qed
qed simp

text \<open>What is disassembled is what was assembled, and it depends on the bits of the field only.\<close>

lemma field_roundtrip:
  fixes t :: "32 word"
  assumes ok: "field_ok f" and asm: "field_assemble f v t = Some t'"
  shows "field_disassemble f t' = v mod 2 ^ fs_width f"
proof -
  have v: "assemble_parts (fs_parts f) (v mod 2 ^ fs_width f) t = Some t'"
    using asm by (auto simp: field_assemble_def py_bits_def split: if_splits)
  let ?v = "v mod 2 ^ fs_width f"
  have fit: "list_all parts_fit (fs_parts f)" "distinct (concat (map target_bits (fs_parts f)))"
    "distinct (concat (map value_bits (fs_parts f)))" "set (concat (map value_bits (fs_parts f))) = {..<fs_width f}"
    using ok unfolding field_ok_def field_bits_def list_all_iff by auto
  have "bit (field_disassemble f t') j = bit ?v j" for j
  proof (cases "j < fs_width f")
    case True
    then have "j \<in> set (concat (map value_bits (fs_parts f)))" using fit(4) by simp
    then obtain t0 fl where p: "(t0, fl) \<in> set (fs_parts f)" "j \<in> set [fst fl..<snd fl]"
      by (auto simp: value_bits_def)
    define n where "n = j - fst fl"
    have n: "j = fst fl + n" "n < slice_len fl" using p(2) by (auto simp: n_def slice_len_def)
    have "bit (case t0 of InstSlice sl \<Rightarrow> uint (cut sl t') | FixedBits b \<Rightarrow> b) n = bit ?v j"
    proof (cases t0)
      case (InstSlice sl)
      then have sl: "slice_len sl = slice_len fl" "snd sl \<le> 32"
        using fit(1) p(1) by (auto simp: list_all_iff parts_fit_def)
      then have "n < 32" using n(2) by (simp add: slice_len_def)
      then show ?thesis
        using assemble_parts_slice [OF v fit(2,1)] p(1) n InstSlice sl(1) by (auto simp: bit_uint_iff bit_cut)
    next
      case (FixedBits b)
      then have b: "b = cut fl ?v" using assemble_parts_fixed [OF v, of b fl] p(1) by simp
      show ?thesis using n by (simp add: FixedBits b bit_cut)
    qed
    then show ?thesis unfolding field_disassemble_def n(1) disassemble_parts_slice [OF fit(3) p(1) n(2)] .
  next
    case False
    then show ?thesis
      using fit(4) by (subst field_disassemble_def, subst disassemble_parts_other) (auto simp flip: take_bit_eq_mod simp: bit_take_bit_iff)
  qed
  then show ?thesis by (rule bit_eqI)
qed

lemma disassemble_cong:
  "(\<forall>n \<in> set (concat (map target_bits ps)). bit s n = bit s' n) \<Longrightarrow>
   disassemble_parts ps (s :: 'i::len word) r = disassemble_parts ps (s' :: 'i word) r"
proof (induction ps s r rule: disassemble_parts.induct)
  case (2 t fl ps s r)
  have "cut sl s = cut sl s'" if "t = InstSlice sl" for sl
    using 2(2) that by (intro bit_eqI) (auto simp: bit_cut slice_len_def)
  then show ?case using 2 by (auto split: part_target.split)
qed simp

lemma field_cong:
  "(\<forall>n \<in> set (field_bits f). bit s n = bit s' n) \<Longrightarrow> field_disassemble f (s :: 'i::len word) = field_disassemble f (s' :: 'i word)"
  unfolding field_disassemble_def field_bits_def by (rule disassemble_cong)

lemma field_other:
  "field_assemble f v (t :: 'i::len word) = Some t' \<Longrightarrow> n \<notin> set (field_bits f) \<Longrightarrow> bit t' n = bit t n"
  unfolding field_bits_def field_assemble_def by (metis (no_types, lifting) assemble_parts_other bind_eq_Some_conv)


section \<open>Instructions\<close>

text \<open>The bits of the arguments are distinct and outside the mask.\<close>

definition arg_bits :: "string \<Rightarrow> nat list" where
  "arg_bits name = (case map_of rv64g_fields name of None \<Rightarrow> [] | Some f \<Rightarrow> field_bits f)"

definition row_ok :: "32 word inst_spec \<Rightarrow> bool" where
  "row_ok r \<longleftrightarrow>
     list_all (\<lambda>name. name \<in> set (map fst rv64g_fields)) (is_simple_args r) \<and>
     distinct (concat (map arg_bits (is_simple_args r))) \<and>
     list_all (\<lambda>n. \<not> bit (is_opcode_mask r) n) (concat (map arg_bits (is_simple_args r)))"

lemma rv64g_fields_ok: "list_all (field_ok \<circ> snd) rv64g_fields"
  unfolding rv64g_fields_def
  by (simp add: field_ok_def field_bits_def parts_fit_def value_bits_def FieldSpec_slice_def FieldSpec_def bslice_def
      slice_len_def upt_rec)

lemma arg_bits_values:
  "arg_bits ''rd'' = [7..<12]" "arg_bits ''rs1'' = [15..<20]" "arg_bits ''rs2'' = [20..<25]"
  "arg_bits ''shamt32'' = [20..<25]" "arg_bits ''shamt64'' = [20..<26]" "arg_bits ''i_imm'' = [20..<32]"
  "arg_bits ''csrnum'' = [20..<32]" "arg_bits ''s_imm'' = [7..<12] @ [25..<32]"
  "arg_bits ''b_imm'' = [31..<32] @ [7..<8] @ [25..<31] @ [8..<12]" "arg_bits ''u_imm'' = [12..<32]"
  "arg_bits ''j_imm'' = [31..<32] @ [12..<20] @ [20..<21] @ [21..<31]" "arg_bits ''c_imm'' = [15..<20]"
  "arg_bits ''pred'' = [24..<28]" "arg_bits ''succ'' = [20..<24]"
  by (simp_all add: arg_bits_def rv64g_fields_def field_bits_def FieldSpec_slice_def FieldSpec_def bslice_def)

lemma row_classes_ok:
  "row_ok (row n a [''rd'', ''u_imm''] 0x0000007F opc)"
  "row_ok (row n a [''rd'', ''j_imm''] 0x0000007F opc)"
  "row_ok (row n a [''rd'', ''rs1'', ''i_imm''] 0x0000707F opc)"
  "row_ok (row n a [''rs1'', ''rs2'', ''b_imm''] 0x0000707F opc)"
  "row_ok (row n a [''rd'', ''i_imm'', ''rs1''] 0x0000707F opc)"
  "row_ok (row n a [''rs2'', ''s_imm'', ''rs1''] 0x0000707F opc)"
  "row_ok (row n a [''rd'', ''rs1'', ''shamt64''] 0xFC00707F opc)"
  "row_ok (row n a [''rd'', ''rs1'', ''shamt32''] 0xFE00707F opc)"
  "row_ok (row n a [''rd'', ''rs1'', ''rs2''] 0xFE00707F opc)"
  "row_ok (row n a [''pred'', ''succ''] 0xF00FFFFF opc)"
  "row_ok (row n a [] 0xFFFFFFFF opc)"
  "row_ok (row n a [''rd'', ''csrnum'', ''rs1''] 0x0000707F opc)"
  "row_ok (row n a [''rd'', ''csrnum'', ''c_imm''] 0x0000707F opc)"
  "row_ok (row n a [''rd'', ''rs1''] 0xFFF0707F opc)"
  by (simp_all add: row_ok_def arg_bits_values rv64g_fields_def upt_rec bit_numeral_rec)

lemma rows_ok: "list_all row_ok rv64g_rows"
  unfolding rv64g_rows_def base_rows_def amo_rows_def amo_row_def by (simp add: row_classes_ok)

lemma assemble_args_roundtrip:
  assumes "assemble_args (map_of rv64g_fields) symbols pc args (t :: 32 word) = Some t'"
    and "distinct (concat (map (arg_bits \<circ> snd) args))"
  shows "(\<forall>n. n \<notin> set (concat (map (arg_bits \<circ> snd) args)) \<longrightarrow> bit t' n = bit t n) \<and>
    (\<forall>(spec, name) \<in> set args. \<exists>f v. map_of rv64g_fields name = Some f \<and> field_parse f symbols pc spec = Some v \<and>
       field_disassemble f t' = v mod 2 ^ fs_width f)"
  using assms
proof (induction args arbitrary: t)
  case (Cons a args)
  obtain spec name where a: "a = (spec, name)" by force
  then obtain f v t1 where f: "map_of rv64g_fields name = Some f" and v: "field_parse f symbols pc spec = Some v"
    and t1: "field_assemble f v t = Some t1" and rest: "assemble_args (map_of rv64g_fields) symbols pc args t1 = Some t'"
    using Cons.prems(1) by (auto simp: field_translate_def split: bind_splits)
  have bits: "arg_bits name = field_bits f" by (simp add: arg_bits_def f)
  have ok: "field_ok f" using rv64g_fields_ok map_of_SomeD [OF f] by (auto simp: list_all_iff)
  have d: "distinct (concat (map (arg_bits \<circ> snd) args))" using Cons.prems(2) by (simp add: comp_def)
  note IH = Cons.IH [OF rest d]
  have "n \<notin> set (concat (map (arg_bits \<circ> snd) args))" if "n \<in> set (field_bits f)" for n
    using distinct_later [OF Cons.prems(2), of n] that by (simp add: a bits)
  then have "\<forall>n \<in> set (field_bits f). bit t' n = bit t1 n" using IH by blast
  then have "field_disassemble f t' = v mod 2 ^ fs_width f"
    using field_roundtrip [OF ok t1] field_cong by metis
  moreover have "bit t' n = bit t n" if "n \<notin> set (concat (map (arg_bits \<circ> snd) (a # args)))" for n
    using that IH field_other [OF t1] by (simp add: a bits)
  ultimately show ?case using IH f v by (simp add: a)
qed simp

lemma find_rev_eq:
  "x \<in> set xs \<Longrightarrow> P x \<Longrightarrow> list_all (\<lambda>y. P y \<longrightarrow> y = x) xs \<Longrightarrow> find P (rev xs) = Some x"
proof -
  assume xs: "x \<in> set xs" "P x" "list_all (\<lambda>y. P y \<longrightarrow> y = x) xs"
  then have "find P (rev xs) \<noteq> None" unfolding find_None_iff by auto
  then obtain y where y: "find P (rev xs) = Some y" by blast
  then have "P y" "y \<in> set xs" using find_SomeD [OF y] by simp_all
  then show ?thesis using xs(3) y by (simp add: list_all_iff)
qed

lemma distinct_concat_take: "distinct (concat xs) \<Longrightarrow> distinct (concat (take k xs))"
  by (metis append_take_drop_id concat_append distinct_append)

lemma matches_kept:
  assumes "r \<in> set rv64g_rows" "\<forall>n. n \<notin> set (concat (map arg_bits (is_simple_args r))) \<longrightarrow> bit w n = bit (is_opcode r) n"
  shows "matches r w"
proof -
  have k: "is_opcode r AND is_opcode_mask r = is_opcode r" and
    m: "\<forall>n \<in> set (concat (map arg_bits (is_simple_args r))). \<not> bit (is_opcode_mask r) n"
    using assms(1) rows_keyed rows_ok by (auto simp: list_all_iff keyed_def row_ok_def)
  have "w AND is_opcode_mask r = is_opcode r AND is_opcode_mask r"
    using assms(2) m by (intro bit_word_eqI) (auto simp: bit_and_iff)
  then show ?thesis by (simp add: matches_def k)
qed

lemma assemble_parts_None_iff:
  "assemble_parts ps v t = None \<longleftrightarrow> (\<exists>(s, fl) \<in> set ps. case s of FixedBits b \<Rightarrow> cut fl v \<noteq> b | InstSlice sl \<Rightarrow> False)"
  by (induction ps v t rule: assemble_parts.induct) auto

lemma isa_parts:
  "rv64g_isa = Some isa \<Longrightarrow> isa_encoding isa = rv64g_rows \<and> isa_fields isa = map_of rv64g_fields"
  by (auto simp: rv64g_isa_def encoding_table_rows split: bind_splits)


section \<open>Properties\<close>

text \<open>C29: \<open>decode_inst_name\<close> iterates over a dictionary, and the order does not matter: no two of the 161
  encodings match the same word, so in whatever order the rows come an instruction decodes to the one
  encoding it matches.\<close>

theorem decode_any_order:
  assumes "encoding_table = Some rows" and "set ys = set rows"
  shows "decode_inst_name ys w = decode_inst_name rows w \<and>
    (\<forall>r \<in> set rows. matches r w \<longrightarrow> decode_inst_name ys w = is_name r) \<and>
    ((\<forall>r \<in> set rows. \<not> matches r w) \<longrightarrow> decode_inst_name ys w = ''invld'')"
proof -
  have rows: "rows = rv64g_rows" using assms(1) by (simp add: encoding_table_rows)
  have ys: "set ys = set rv64g_rows" using assms(2) rows by simp
  show ?thesis
  proof (cases "\<exists>r \<in> set rv64g_rows. matches r w")
    case True
    then obtain r where "r \<in> set rv64g_rows" "matches r w" by blast
    then show ?thesis using decode_matching [OF ys] decode_matching [OF refl] rows by metis
  next
    case False
    then show ?thesis using decode_unmatched [of ys w] decode_unmatched [of rv64g_rows w] ys rows by metis
  qed
qed

theorem decode_any_order_witness:
  "\<exists>rows. encoding_table = Some rows \<and> decode_inst_name (rev rows) 0x01130293 = decode_inst_name rows 0x01130293"
  using decode_any_order [OF encoding_table_rows, of "rev rv64g_rows"] encoding_table_rows by auto

text \<open>C25: an instruction that assembles decodes to the name it was written with, and disassembling each of
  its fields gives back the value the argument was parsed to, modulo the width of the field.\<close>

theorem assemble_decodes:
  assumes "rv64g_isa = Some isa" and "split_instr inst_str = Some (name, args)"
    and "assemble_inst isa symbols pc inst_str = Some w"
  shows "decode_inst_name (isa_encoding isa) w = name \<and>
    (\<exists>spec. find_spec isa name = Some spec \<and>
       (\<forall>(arg, field) \<in> set (zip (simplify_args args) (is_simple_args spec)).
          \<exists>f v. isa_fields isa field = Some f \<and> field_parse f symbols pc arg = Some v \<and>
                field_disassemble f w = v mod 2 ^ fs_width f))"
proof -
  have isa: "isa_encoding isa = rv64g_rows" "isa_fields isa = map_of rv64g_fields"
    using isa_parts [OF assms(1)] by simp_all
  obtain spec where spec: "find_spec isa name = Some spec"
    and asm: "assemble_args (map_of rv64g_fields) symbols pc (zip (simplify_args args) (is_simple_args spec)) (is_opcode spec) = Some w"
    using assms(2,3) isa by (auto simp: assemble_inst_def split: bind_splits)
  then have r: "spec \<in> set rv64g_rows" "is_name spec = name" using isa by (auto simp: find_spec_def dest: find_SomeD)
  let ?args = "zip (simplify_args args) (is_simple_args spec)"
  have take: "map (arg_bits \<circ> snd) ?args = take (length (simplify_args args)) (map arg_bits (is_simple_args spec))"
    by (simp add: map_snd_zip_take take_map min_def flip: map_map)
  have "distinct (concat (map arg_bits (is_simple_args spec)))" using r(1) rows_ok by (auto simp: list_all_iff row_ok_def)
  then have "distinct (concat (map (arg_bits \<circ> snd) ?args))" unfolding take by (rule distinct_concat_take)
  note A = assemble_args_roundtrip [OF asm this]
  have "set (concat (map (arg_bits \<circ> snd) ?args)) \<subseteq> set (concat (map arg_bits (is_simple_args spec)))"
    unfolding take by (auto dest!: in_set_takeD)
  then have "matches spec w" using A by (intro matches_kept [OF r(1)]) blast
  then have "decode_inst_name (isa_encoding isa) w = name" using decode_matching [OF refl r(1)] r(2) isa by simp
  then show ?thesis using spec A isa by simp
qed

theorem assemble_decodes_witness:
  "\<exists>isa. rv64g_isa = Some isa \<and> assemble_inst isa (\<lambda>_. None) 0 ''addi x5, x6, 17'' = Some 0x01130293 \<and>
     decode_inst_name (isa_encoding isa) 0x01130293 = ''addi''"
proof -
  have "expand_pseudo_spec pseudo_instructions \<noteq> None"
    by (simp add: expand_pseudo_spec_def pseudo_instructions_def split_instr_def py_lstrip_def is_space_def)
  then obtain isa where isa: "rv64g_isa = Some isa" "isa_encoding isa = rv64g_rows" "isa_fields isa = map_of rv64g_fields"
    by (auto simp: rv64g_isa_def encoding_table_rows)
  have split: "split_instr ''addi x5, x6, 17'' = Some (''addi'', ''x5, x6, 17'')" by code_simp
  have find: "find_spec isa ''addi'' = Some (row ''addi'' ''rd, rs1, i_imm'' [''rd'', ''rs1'', ''i_imm''] 0x707F 0x13)"
    unfolding find_spec_def isa(2) rv64g_rows_def base_rows_def amo_rows_def amo_row_def
    by (intro find_rev_eq) simp_all
  have args: "assemble_args (map_of rv64g_fields) (\<lambda>_. None) 0
      (zip (simplify_args ''x5, x6, 17'') [''rd'', ''rs1'', ''i_imm'']) (0x13 :: 32 word) = Some 0x01130293"
  proof -
    have toks: "simplify_args ''x5, x6, 17'' = [''x5'', ''x6'', ''17'']" by code_simp
    have vals: "parse_register ''x5'' = Some 5" "parse_register ''x6'' = Some 6" "py_int0 ''17'' = Some 17" by code_simp+
    have flds: "map_of rv64g_fields ''rd'' = Some (FieldSpec_slice 5 RegisterFormat (7, 12))"
      "map_of rv64g_fields ''rs1'' = Some (FieldSpec_slice 5 RegisterFormat (15, 20))"
      "map_of rv64g_fields ''i_imm'' = Some (FieldSpec_slice 12 (ImmFormat True) (20, 32))"
      by (simp_all add: rv64g_fields_def bslice_def)
    show ?thesis
      by (simp add: toks flds vals field_translate_def field_parse_def format_parse_def parse_imm_def field_assemble_def
          py_bits_def FieldSpec_slice_def FieldSpec_def cut_def paste_def bslice_def slice_len_def mask_numeral
          mask_eq_exp_minus_1 push_bit_eq_mult take_bit_eq_mod)
  qed
  have asm: "assemble_inst isa (\<lambda>_. None) 0 ''addi x5, x6, 17'' = Some 0x01130293"
    using args by (simp add: assemble_inst_def split find isa(3))
  show ?thesis using assemble_decodes [OF isa(1) split asm] isa(1) asm by blast
qed

text \<open>Assembling a value into a field raises exactly when the value does not fit the width of the field,
  or when it is an odd branch or jump offset, whose lowest bit is not encoded.\<close>

theorem field_assemble_raises:
  assumes "map_of rv64g_fields name = Some f"
  shows "field_assemble f v t = None \<longleftrightarrow>
    v < - (2 ^ (fs_width f - 1)) \<or> 2 ^ fs_width f \<le> v \<or> name \<in> {''b_imm'', ''j_imm''} \<and> odd v"
proof -
  have slice: "assemble_parts [(InstSlice sl, fl)] x t = None \<longleftrightarrow> False" for sl fl x by simp
  have "assemble_parts (fs_parts f) x t = None \<longleftrightarrow> name \<in> {''b_imm'', ''j_imm''} \<and> odd x" for x
  proof (cases "name \<in> {''b_imm'', ''j_imm'', ''s_imm''}")
    case True
    then show ?thesis
      using assms unfolding assemble_parts_None_iff
      by (auto simp: rv64g_fields_def FieldSpec_def cut_def bslice_def slice_len_def take_bit_Suc odd_iff_mod_2_eq_one)
  next
    case False
    then have "\<exists>sl fl. fs_parts f = [(InstSlice sl, fl)]"
      using assms by (auto simp: rv64g_fields_def FieldSpec_slice_def FieldSpec_def split: if_splits)
    then show ?thesis using False slice by auto
  qed
  moreover have "0 < fs_width f" if "name \<in> {''b_imm'', ''j_imm''}"
    using assms that by (auto simp: rv64g_fields_def FieldSpec_def)
  then have "odd (v mod 2 ^ fs_width f) \<longleftrightarrow> odd v" if "name \<in> {''b_imm'', ''j_imm''}"
    using that by (simp add: dvd_mod_iff)
  ultimately show ?thesis by (auto simp: field_assemble_def py_bits_def split: bind_splits)
qed

theorem field_assemble_raises_witness:
  "field_assemble (FieldSpec 13 TargetFormat [(InstSlice (bslice 31 None), bslice 12 None),
       (InstSlice (bslice 7 None), bslice 11 None), (InstSlice (bslice 30 (Some 25)), bslice 10 (Some 5)),
       (InstSlice (bslice 11 (Some 8)), bslice 4 (Some 1)), (FixedBits 0, bslice 0 None)]) 5 (0x63 :: 32 word) = None"
  using field_assemble_raises [of "''b_imm''" "the (map_of rv64g_fields ''b_imm'')" 5 "0x63 :: 32 word"]
  by (simp add: rv64g_fields_def)

text \<open>The dictionary of \<open>FenceFormat\<close> maps positions to letters, not letters to positions, so formatting a
  fence operand raises for every value, parsing one raises unless it is empty, and no fence instruction
  can be disassembled.\<close>

theorem fence_operands_raise:
  "format_fence v = None \<and> parse_fence spec = (if spec = [] then Some 0 else None) \<and>
   (\<forall>isa w. rv64g_isa = Some isa \<longrightarrow> decode_inst_name (isa_encoding isa) w = ''fence'' \<longrightarrow> disassemble_inst hex isa w = None)"
proof -
  have locs: "map_of fence_locs (CharKey c) = None" for c by (simp add: fence_locs_def fence_spec_def)
  have fmt: "format_fence v = None" for v by (simp add: format_fence_def fence_spec_def locs)
  have "disassemble_inst hex isa w = None" if isa: "rv64g_isa = Some isa" and d: "decode_inst_name (isa_encoding isa) w = ''fence''" for isa w
  proof -
    have parts: "isa_encoding isa = rv64g_rows" "isa_fields isa = map_of rv64g_fields" using isa_parts [OF isa] by simp_all
    have find: "find_spec isa ''fence'' = Some (row ''fence'' ''pred, succ'' [''pred'', ''succ''] 0xF00FFFFF 0x0000000F)"
      unfolding find_spec_def parts(1) rv64g_rows_def base_rows_def amo_rows_def amo_row_def
      by (intro find_rev_eq) simp_all
    show ?thesis
      by (simp add: disassemble_inst_def Let_def d find parts(2) rv64g_fields_def FieldSpec_slice_def FieldSpec_def
          field_decode_def format_value_def fmt)
  qed
  moreover have "parse_fence spec = (if spec = [] then Some 0 else None)"
    by (cases spec) (simp_all add: parse_fence_def fence_locs_def fence_spec_def)
  ultimately show ?thesis using fmt by blast
qed

theorem fence_operands_raise_witness:
  "\<exists>isa. rv64g_isa = Some isa \<and> decode_inst_name (isa_encoding isa) 0x0FF0000F = ''fence'' \<and>
     disassemble_inst (\<lambda>_ _. ''0x0'') isa 0x0FF0000F = None \<and> format_fence 15 = None"
proof -
  have "expand_pseudo_spec pseudo_instructions \<noteq> None"
    by (simp add: expand_pseudo_spec_def pseudo_instructions_def split_instr_def py_lstrip_def is_space_def)
  then obtain isa where isa: "rv64g_isa = Some isa" "isa_encoding isa = rv64g_rows"
    by (auto simp: rv64g_isa_def encoding_table_rows)
  let ?fence = "row ''fence'' ''pred, succ'' [''pred'', ''succ''] 0xF00FFFFF 0x0000000F"
  have "?fence \<in> set base_rows" by (simp add: base_rows_def)
  then have "?fence \<in> set rv64g_rows" by (simp add: rv64g_rows_def)
  then have "decode_inst_name rv64g_rows 0x0FF0000F = is_name ?fence"
    by (rule decode_matching [OF refl]) (simp add: matches_def)
  then show ?thesis
    using fence_operands_raise [of 15 "[]" "\<lambda>_ _. ''0x0''"] isa by (intro exI [of _ isa]) simp
qed

text \<open>The hexadecimal form that \<open>format\<close> gives an unnamed CSR number cannot be parsed back.\<close>

lemma csrnum_hex_raises: "parse_csrnum (''0x'' @ ds) = enum_lookup csr_class (''0x'' @ ds)"
proof -
  have "dropWhile is_space (rev ds @ ''x0'') = dropWhile is_space (rev ds) @ ''x0''"
    by (induction "rev ds" arbitrary: ds) (auto simp: is_space_def dropWhile_append)
  then have "py_strip (''0x'' @ ds) = ''0x'' @ rev (dropWhile is_space (rev ds))"
    by (simp add: py_strip_def py_lstrip_def is_space_def)
  then have "py_int (''0x'' @ ds) = None"
    by (simp add: py_int_def signed_value_def unsigned_value_def digit_value_def Let_def)
  then show ?thesis by (simp add: parse_csrnum_def split: option.split bind_splits)
qed

end
