(* ===== verification/Messages.thy ===== *)
theory Messages
  imports Codes Selectors
begin

text \<open>
  The messages of the pipeline: \<open>lizard/bitutil/bit_struct_generator.py\<close>, \<open>lizard/core/rtl/messages.py\<close>,
  the sizes of \<open>lizard/config/general.py\<close> and the immediate types of \<open>imm_decoder.py\<close>. A bit structure is a
  tree of entry groups; its layout is the list of the named fields with their offset and width.
\<close>

section \<open>Bit structures\<close>

datatype entry_group =
  PrimitiveField string nat
| NestedField string entry_group
| Group "string option" "entry_group list"
| Union "string option" "entry_group list"
| ExplicitStructDefinition nat "(string \<times> nat \<times> nat) list"

text \<open>The width of a group is the sum of its members, of a union their maximum.\<close>

fun size_of :: "entry_group \<Rightarrow> nat" and size_sum :: "entry_group list \<Rightarrow> nat" and size_max :: "entry_group list \<Rightarrow> nat" where
  "size_of (PrimitiveField name width) = width"
| "size_of (NestedField name type) = size_of type"
| "size_of (Group name flds) = size_sum flds"
| "size_of (Union name flds) = size_max flds"
| "size_of (ExplicitStructDefinition width spec) = width"
| "size_sum [] = 0"
| "size_sum (f # fs) = size_of f + size_sum fs"
| "size_max [] = 0"
| "size_max (f # fs) = max (size_of f) (size_max fs)"

definition own_name :: "string option \<Rightarrow> nat \<Rightarrow> (string \<times> nat \<times> nat) list" where
  "own_name name width = (case name of None \<Rightarrow> [] | Some n \<Rightarrow> [(n, 0, width)])"

text \<open>A nested structure prefixes the names of its fields; the members of a group follow each other, those
  of a union overlay each other.\<close>

fun offsets :: "entry_group \<Rightarrow> (string \<times> nat \<times> nat) list"
  and group_offsets :: "nat \<Rightarrow> entry_group list \<Rightarrow> (string \<times> nat \<times> nat) list"
  and union_offsets :: "entry_group list \<Rightarrow> (string \<times> nat \<times> nat) list" where
  "offsets (PrimitiveField name width) = [(name, 0, width)]"
| "offsets (NestedField name type) = map (\<lambda>(n, off, sz). (name @ ''_'' @ n, off, sz)) (offsets type)"
| "offsets (Group name flds) = own_name name (size_sum flds) @ group_offsets 0 flds"
| "offsets (Union name flds) = own_name name (size_max flds) @ union_offsets flds"
| "offsets (ExplicitStructDefinition width spec) = spec"
| "group_offsets base [] = []"
| "group_offsets base (f # fs) = map (\<lambda>(n, off, sz). (n, off + base, sz)) (offsets f) @ group_offsets (base + size_of f) fs"
| "union_offsets [] = []"
| "union_offsets (f # fs) = offsets f @ union_offsets fs"

text \<open>\<open>Field\<close> of an integer width or of another structure, \<open>Inline\<close> and \<open>SlicedStruct\<close>.\<close>

definition Field :: "string \<Rightarrow> nat \<Rightarrow> entry_group" where
  "Field name width = PrimitiveField name width"

definition StructField :: "string \<Rightarrow> entry_group \<Rightarrow> entry_group" where
  "StructField name type = Union (Some name) [NestedField name type]"

fun members :: "entry_group \<Rightarrow> entry_group list" where
  "members (Group name flds) = flds"
| "members (Union name flds) = flds"
| "members g = []"

definition Inline :: "string \<Rightarrow> entry_group \<Rightarrow> entry_group" where
  "Inline name type = Group (Some name) (members type)"

definition SlicedStruct :: "nat \<Rightarrow> (string \<times> slice) list \<Rightarrow> entry_group" where
  "SlicedStruct width slices =
     ExplicitStructDefinition width (map (\<lambda>(name, sl). (name, fst sl, slice_len sl)) slices)"

text \<open>\<open>_bitfields\<close>: the slice of a field; a later entry of the same name replaces an earlier one.\<close>

definition bitfield :: "entry_group \<Rightarrow> string \<Rightarrow> slice option" where
  "bitfield g name = map_option (\<lambda>(off, sz). (off, off + sz)) (map_of (rev (offsets g)) name)"


section \<open>Sizes\<close>

text \<open>The widths the messages use, as \<open>general.py\<close> computes them.\<close>

definition "XLEN = (64 :: nat)"
definition "ILEN = (32 :: nat)"
definition "CSR_SPEC_NBITS = (12 :: nat)"
definition "ROB_SIZE = (32 :: nat)"
definition "DECODED_IMM_LEN = (21 :: nat)"
definition "AREG_COUNT = (32 :: nat)"
definition "PREG_COUNT = (64 :: nat)"
definition "MAX_SPEC_DEPTH = (2 :: nat)"
definition "STORE_QUEUE_SIZE = (4 :: nat)"
definition "MCAUSE_NBITS = (4 :: nat)"

definition "AREG_IDX_NBITS = the (clog2 (int AREG_COUNT))"
definition "PREG_IDX_NBITS = the (clog2 (int PREG_COUNT))"
definition "INST_IDX_NBITS = the (clog2 (int ROB_SIZE))"
definition "SPEC_IDX_NBITS = the (clog2 (int MAX_SPEC_DEPTH))"
definition "SPEC_MASK_NBITS = MAX_SPEC_DEPTH"
definition "STORE_IDX_NBITS = the (clog2 (int STORE_QUEUE_SIZE))"

section \<open>Enumerations\<close>

text \<open>The names of each enumeration with their short forms, the width of its patterns and the pattern of a name.\<close>

type_synonym enum = "(string \<times> string) list"

definition enum_width :: "enum \<Rightarrow> nat" where
  "enum_width e = the (clog2nz (int (length e)))"

definition pattern :: "enum \<Rightarrow> string \<Rightarrow> 'a::len word" where
  "pattern e name = of_nat (length (takeWhile (\<lambda>p. fst p \<noteq> name) e))"

definition PipelineMsgStatus :: enum where
  "PipelineMsgStatus = [
    (''PIPELINE_MSG_STATUS_VALID'', ''va''), (''PIPELINE_MSG_STATUS_EXCEPTION_RAISED'', ''ex''),
    (''PIPELINE_MSG_STATUS_INTERRUPTED'', ''it''), (''PIPELINE_MSG_STATUS_TRAPPED'', ''tr'')]"

definition OpClass :: enum where
  "OpClass = [
    (''OP_CLASS_ALU'', ''in''), (''OP_CLASS_MUL'', ''md''), (''OP_CLASS_BRANCH'', ''br''),
    (''OP_CLASS_JUMP'', ''jp''), (''OP_CLASS_CSR'', ''cs''), (''OP_CLASS_SYSTEM'', ''sy''),
    (''OP_CLASS_MEM'', ''me'')]"

definition AluFunc :: enum where
  "AluFunc = [
    (''ALU_FUNC_ADD'', ''ad''), (''ALU_FUNC_SUB'', ''sb''), (''ALU_FUNC_SLL'', ''sl''),
    (''ALU_FUNC_SLT'', ''lt''), (''ALU_FUNC_XOR'', ''xo''), (''ALU_FUNC_SRL'', ''sr''),
    (''ALU_FUNC_SRA'', ''sa''), (''ALU_FUNC_OR'', ''or''), (''ALU_FUNC_AND'', ''an''),
    (''ALU_FUNC_LUI'', ''li''), (''ALU_FUNC_AUIPC'', ''pc'')]"

definition MFunc :: enum where
  "MFunc = [
    (''M_FUNC_MUL'', ''mu''), (''M_FUNC_DIV'', ''dv''), (''M_FUNC_REM'', ''re'')]"

definition MVariant :: enum where
  "MVariant = [
    (''M_VARIANT_N'', ''n''), (''M_VARIANT_H'', ''h''), (''M_VARIANT_HSU'', ''hu''),
    (''M_VARIANT_HU'', ''hu''), (''M_VARIANT_U'', ''u'')]"

definition CsrFunc :: enum where
  "CsrFunc = [
    (''CSR_FUNC_READ_WRITE'', ''rw''), (''CSR_FUNC_READ_SET'', ''rs''), (''CSR_FUNC_READ_CLEAR'', ''rc'')]"

definition BranchType :: enum where
  "BranchType = [
    (''BRANCH_TYPE_EQ'', ''eq''), (''BRANCH_TYPE_NE'', ''ne''), (''BRANCH_TYPE_LT'', ''lt''),
    (''BRANCH_TYPE_GE'', ''ge'')]"

definition MemFunc :: enum where
  "MemFunc = [
    (''MEM_FUNC_LOAD'', ''ld''), (''MEM_FUNC_STORE'', ''st'')]"

definition SystemFunc :: enum where
  "SystemFunc = [
    (''SYSTEM_FUNC_FENCE'', ''fn''), (''SYSTEM_FUNC_FENCE_I'', ''fi''), (''SYSTEM_FUNC_ECALL'', ''ec''),
    (''SYSTEM_FUNC_EBREAK'', ''eb'')]"

definition ImmType :: enum where
  "ImmType = [
    (''IMM_TYPE_I'', ''i''), (''IMM_TYPE_S'', ''s''), (''IMM_TYPE_B'', ''b''), (''IMM_TYPE_U'', ''u''),
    (''IMM_TYPE_J'', ''j''), (''IMM_TYPE_C'', ''c''), (''IMM_TYPE_SHAMT32'', ''s3''),
    (''IMM_TYPE_SHAMT64'', ''s6'')]"

lemmas enum_defs =
  PipelineMsgStatus_def OpClass_def AluFunc_def MFunc_def MVariant_def CsrFunc_def BranchType_def
  MemFunc_def SystemFunc_def ImmType_def

text \<open>The patterns, evaluated.\<close>

lemma patterns [simp]:
  "pattern PipelineMsgStatus ''PIPELINE_MSG_STATUS_VALID'' = 0"
  "pattern PipelineMsgStatus ''PIPELINE_MSG_STATUS_EXCEPTION_RAISED'' = 1"
  "pattern PipelineMsgStatus ''PIPELINE_MSG_STATUS_INTERRUPTED'' = 2"
  "pattern PipelineMsgStatus ''PIPELINE_MSG_STATUS_TRAPPED'' = 3"
  "pattern OpClass ''OP_CLASS_ALU'' = 0"
  "pattern OpClass ''OP_CLASS_MUL'' = 1"
  "pattern OpClass ''OP_CLASS_BRANCH'' = 2"
  "pattern OpClass ''OP_CLASS_JUMP'' = 3"
  "pattern OpClass ''OP_CLASS_CSR'' = 4"
  "pattern OpClass ''OP_CLASS_SYSTEM'' = 5"
  "pattern OpClass ''OP_CLASS_MEM'' = 6"
  "pattern AluFunc ''ALU_FUNC_ADD'' = 0"
  "pattern AluFunc ''ALU_FUNC_SUB'' = 1"
  "pattern AluFunc ''ALU_FUNC_SLL'' = 2"
  "pattern AluFunc ''ALU_FUNC_SLT'' = 3"
  "pattern AluFunc ''ALU_FUNC_XOR'' = 4"
  "pattern AluFunc ''ALU_FUNC_SRL'' = 5"
  "pattern AluFunc ''ALU_FUNC_SRA'' = 6"
  "pattern AluFunc ''ALU_FUNC_OR'' = 7"
  "pattern AluFunc ''ALU_FUNC_AND'' = 8"
  "pattern AluFunc ''ALU_FUNC_LUI'' = 9"
  "pattern AluFunc ''ALU_FUNC_AUIPC'' = 10"
  "pattern MFunc ''M_FUNC_MUL'' = 0"
  "pattern MFunc ''M_FUNC_DIV'' = 1"
  "pattern MFunc ''M_FUNC_REM'' = 2"
  "pattern MVariant ''M_VARIANT_N'' = 0"
  "pattern MVariant ''M_VARIANT_H'' = 1"
  "pattern MVariant ''M_VARIANT_HSU'' = 2"
  "pattern MVariant ''M_VARIANT_HU'' = 3"
  "pattern MVariant ''M_VARIANT_U'' = 4"
  "pattern CsrFunc ''CSR_FUNC_READ_WRITE'' = 0"
  "pattern CsrFunc ''CSR_FUNC_READ_SET'' = 1"
  "pattern CsrFunc ''CSR_FUNC_READ_CLEAR'' = 2"
  "pattern BranchType ''BRANCH_TYPE_EQ'' = 0"
  "pattern BranchType ''BRANCH_TYPE_NE'' = 1"
  "pattern BranchType ''BRANCH_TYPE_LT'' = 2"
  "pattern BranchType ''BRANCH_TYPE_GE'' = 3"
  "pattern MemFunc ''MEM_FUNC_LOAD'' = 0"
  "pattern MemFunc ''MEM_FUNC_STORE'' = 1"
  "pattern SystemFunc ''SYSTEM_FUNC_FENCE'' = 0"
  "pattern SystemFunc ''SYSTEM_FUNC_FENCE_I'' = 1"
  "pattern SystemFunc ''SYSTEM_FUNC_ECALL'' = 2"
  "pattern SystemFunc ''SYSTEM_FUNC_EBREAK'' = 3"
  "pattern ImmType ''IMM_TYPE_I'' = 0"
  "pattern ImmType ''IMM_TYPE_S'' = 1"
  "pattern ImmType ''IMM_TYPE_B'' = 2"
  "pattern ImmType ''IMM_TYPE_U'' = 3"
  "pattern ImmType ''IMM_TYPE_J'' = 4"
  "pattern ImmType ''IMM_TYPE_C'' = 5"
  "pattern ImmType ''IMM_TYPE_SHAMT32'' = 6"
  "pattern ImmType ''IMM_TYPE_SHAMT64'' = 7"
  by (simp_all add: pattern_def enum_defs)

section \<open>Messages\<close>

definition ValidValuePair :: "string \<Rightarrow> nat \<Rightarrow> entry_group" where
  "ValidValuePair name width = Group (Some (name @ ''_val_pair'')) [Field (name @ ''_val'') 1, Field name width]"

definition FrontendHeader :: entry_group where
  "FrontendHeader = Group None [
     Field ''status'' (enum_width PipelineMsgStatus), Field ''pc'' XLEN, Field ''fence'' 1, Field ''replay'' 1,
     Field ''replay_next'' 1]"

definition BackendHeader :: entry_group where
  "BackendHeader = Group None [
     Inline ''frontend_hdr'' FrontendHeader, Field ''seq'' INST_IDX_NBITS, Field ''is_store'' 1,
     Field ''store_id'' STORE_IDX_NBITS, ValidValuePair ''spec'' SPEC_IDX_NBITS, Field ''branch_mask'' SPEC_MASK_NBITS]"

definition ExceptionInfo :: entry_group where
  "ExceptionInfo = Group None [Field ''mcause'' MCAUSE_NBITS, Field ''mtval'' XLEN]"

definition gen_pipeline_msg :: "entry_group \<Rightarrow> entry_group \<Rightarrow> entry_group" where
  "gen_pipeline_msg payload header = Group None [
     StructField ''hdr'' header,
     Union (Some ''pipeline_msg'') [StructField ''exception_info'' ExceptionInfo, Inline ''pipeline_payload'' payload]]"

definition FrontendMsg :: "entry_group \<Rightarrow> entry_group" where
  "FrontendMsg payload = gen_pipeline_msg payload FrontendHeader"

definition BackendMsg :: "entry_group \<Rightarrow> entry_group" where
  "BackendMsg payload = gen_pipeline_msg payload BackendHeader"

definition AluMsg :: entry_group where
  "AluMsg = Group None [Field ''func'' (enum_width AluFunc), Field ''op32'' 1, Field ''unsigned'' 1]"

definition MMsg :: entry_group where
  "MMsg = Group None [Field ''func'' (enum_width MFunc), Field ''variant'' (enum_width MVariant), Field ''op32'' 1]"

definition CsrMsg :: entry_group where
  "CsrMsg = Group None [Field ''func'' (enum_width CsrFunc), Field ''csr_num'' CSR_SPEC_NBITS, Field ''rs1_is_x0'' 1]"

definition BranchMsg :: entry_group where
  "BranchMsg = Group None [Field ''type_'' (enum_width BranchType), Field ''unsigned'' 1]"

definition JumpMsg :: entry_group where
  "JumpMsg = Group None [Field ''bogus'' 1]"

definition MemMsg :: entry_group where
  "MemMsg = Group None [Field ''func'' (enum_width MemFunc), Field ''unsigned'' 1, Field ''width'' 2]"

definition SystemMsg :: entry_group where
  "SystemMsg = Group None [Field ''func'' (enum_width SystemFunc)]"

definition PipeMsg :: entry_group where
  "PipeMsg = Group None [Union (Some ''pipe_msg'') [
     StructField ''alu_msg'' AluMsg, StructField ''m_msg'' MMsg, StructField ''csr_msg'' CsrMsg,
     StructField ''branch_msg'' BranchMsg, StructField ''jump_msg'' JumpMsg, StructField ''mem_msg'' MemMsg,
     StructField ''system_msg'' SystemMsg]]"

definition ExecutionDataGroup :: entry_group where
  "ExecutionDataGroup = Group (Some ''execution_data'') [
     ValidValuePair ''imm'' DECODED_IMM_LEN, Field ''op_class'' (enum_width OpClass), Inline ''pipe_specific_msg'' PipeMsg]"

definition InstMsg :: entry_group where
  "InstMsg = SlicedStruct ILEN [
     (''opcode'', RV_OPCODE), (''funct3'', RV_FUNCT3), (''funct7'', RV_FUNCT7), (''funct7_shft64'', RV_FUNCT7_SHFT64),
     (''rd'', RV_RD), (''rs1'', RV_RS1), (''rs2'', RV_RS2), (''shamt32'', RV_SHAMT32), (''shamt64'', RV_SHAMT64),
     (''i_imm'', RV_I_IMM), (''s_imm0'', RV_S_IMM0), (''s_imm1'', RV_S_IMM1), (''b_imm0'', RV_B_IMM0),
     (''b_imm1'', RV_B_IMM1), (''b_imm2'', RV_B_IMM2), (''b_imm3'', RV_B_IMM3), (''u_imm'', RV_U_IMM),
     (''j_imm0'', RV_J_IMM0), (''j_imm1'', RV_J_IMM1), (''j_imm2'', RV_J_IMM2), (''j_imm3'', RV_J_IMM3),
     (''csrnum'', RV_CSRNUM), (''c_imm'', RV_C_IMM), (''fence_upper'', RV_FENCE_UPPER)]"

definition FetchPayload :: entry_group where
  "FetchPayload = Group None [StructField ''inst'' InstMsg, Field ''pc_succ'' XLEN]"

definition FetchMsg :: entry_group where
  "FetchMsg = FrontendMsg FetchPayload"

definition DecodePayload :: entry_group where
  "DecodePayload = Group None [
     Field ''serialize'' 1, Field ''speculative'' 1, Field ''store'' 1, Field ''pc_succ'' XLEN,
     ValidValuePair ''rs1'' AREG_IDX_NBITS, ValidValuePair ''rs2'' AREG_IDX_NBITS, ValidValuePair ''rd'' AREG_IDX_NBITS,
     ExecutionDataGroup]"

definition DecodeMsg :: entry_group where
  "DecodeMsg = FrontendMsg DecodePayload"

definition RenamePayload :: entry_group where
  "RenamePayload = Group None [
     ValidValuePair ''rs1'' PREG_IDX_NBITS, ValidValuePair ''rs2'' PREG_IDX_NBITS, ValidValuePair ''rd'' PREG_IDX_NBITS,
     Field ''areg_d'' AREG_IDX_NBITS, ExecutionDataGroup]"

definition RenameMsg :: entry_group where
  "RenameMsg = BackendMsg RenamePayload"

definition IssuePayload :: entry_group where
  "IssuePayload = Group None [
     ValidValuePair ''rs1'' PREG_IDX_NBITS, ValidValuePair ''rs2'' PREG_IDX_NBITS, ValidValuePair ''rd'' PREG_IDX_NBITS,
     Field ''areg_d'' AREG_IDX_NBITS, ExecutionDataGroup]"

definition IssueMsg :: entry_group where
  "IssueMsg = BackendMsg IssuePayload"

definition DispatchPayload :: entry_group where
  "DispatchPayload = Group None [
     ValidValuePair ''rs1'' XLEN, ValidValuePair ''rs2'' XLEN, ValidValuePair ''rd'' PREG_IDX_NBITS,
     Field ''areg_d'' AREG_IDX_NBITS, ExecutionDataGroup]"

definition DispatchMsg :: entry_group where
  "DispatchMsg = BackendMsg DispatchPayload"

definition ExecutePayload :: entry_group where
  "ExecutePayload = Group None [
     ValidValuePair ''rd'' PREG_IDX_NBITS, ValidValuePair ''result'' XLEN, Field ''areg_d'' AREG_IDX_NBITS]"

definition ExecuteMsg :: entry_group where
  "ExecuteMsg = BackendMsg ExecutePayload"

definition WritebackPayload :: entry_group where
  "WritebackPayload = Group None [ValidValuePair ''rd'' PREG_IDX_NBITS, Field ''areg_d'' AREG_IDX_NBITS]"

definition WritebackMsg :: entry_group where
  "WritebackMsg = BackendMsg WritebackPayload"

lemmas message_defs =
  ValidValuePair_def FrontendHeader_def BackendHeader_def ExceptionInfo_def gen_pipeline_msg_def FrontendMsg_def
  BackendMsg_def AluMsg_def MMsg_def CsrMsg_def BranchMsg_def JumpMsg_def MemMsg_def SystemMsg_def PipeMsg_def
  ExecutionDataGroup_def InstMsg_def FetchPayload_def FetchMsg_def DecodePayload_def DecodeMsg_def RenamePayload_def
  RenameMsg_def IssuePayload_def IssueMsg_def DispatchPayload_def DispatchMsg_def ExecutePayload_def ExecuteMsg_def
  WritebackPayload_def WritebackMsg_def


section \<open>Layout\<close>

text \<open>A structure is well formed when its explicit definitions stay within their width.\<close>

fun wf_group :: "entry_group \<Rightarrow> bool" and wf_groups :: "entry_group list \<Rightarrow> bool" where
  "wf_group (PrimitiveField name width) = True"
| "wf_group (NestedField name type) = wf_group type"
| "wf_group (Group name flds) = wf_groups flds"
| "wf_group (Union name flds) = wf_groups flds"
| "wf_group (ExplicitStructDefinition width spec) = list_all (\<lambda>(n, off, sz). off + sz \<le> width) spec"
| "wf_groups [] = True"
| "wf_groups (f # fs) = (wf_group f \<and> wf_groups fs)"

definition within :: "nat \<Rightarrow> (string \<times> nat \<times> nat) list \<Rightarrow> bool" where
  "within width entries = list_all (\<lambda>(n, off, sz). off + sz \<le> width) entries"

lemma within_simps [simp]:
  "within w []" "within w (xs @ ys) \<longleftrightarrow> within w xs \<and> within w ys"
  "within w ((n, off, sz) # xs) \<longleftrightarrow> off + sz \<le> w \<and> within w xs"
  by (simp_all add: within_def)

lemma within_rename [simp]: "within w (map (\<lambda>(n, y). (f n, y)) xs) = within w xs"
  by (induction xs) auto

lemma within_mono: "within w xs \<Longrightarrow> w \<le> w' \<Longrightarrow> within w' xs"
  unfolding within_def list_all_iff by fastforce

lemma within_shift: "within w xs \<Longrightarrow> w + base \<le> w' \<Longrightarrow> within w' (map (\<lambda>(n, off, sz). (n, off + base, sz)) xs)"
  unfolding within_def list_all_iff by fastforce

lemma within_own_name [simp]: "within w (own_name name w)"
  by (simp add: own_name_def within_def split: option.split)

lemma offsets_within:
  "wf_group g \<Longrightarrow> within (size_of g) (offsets g)"
  "wf_groups fs \<Longrightarrow> within (base + size_sum fs) (group_offsets base fs)"
  "wf_groups fs \<Longrightarrow> within (size_max fs) (union_offsets fs)"
proof (induction g and base fs and fs rule: offsets_group_offsets_union_offsets.induct)
  case (7 base f fs)
  then show ?case by (auto simp: add.assoc elim!: within_shift)
next
  case (9 f fs)
  then show ?case by (auto elim: within_mono)
next
  case (5 width spec)
  then show ?case by (simp add: within_def)
qed simp_all

text \<open>The entries of member \<open>i\<close> of a group.\<close>

definition member_offsets :: "entry_group list \<Rightarrow> nat \<Rightarrow> (string \<times> nat \<times> nat) list" where
  "member_offsets fs i = map (\<lambda>(n, off, sz). (n, off + size_sum (take i fs), sz)) (offsets (fs ! i))"

lemma member_in_group:
  "i < length fs \<Longrightarrow>
   set (map (\<lambda>(n, off, sz). (n, off + base, sz)) (member_offsets fs i)) \<subseteq> set (group_offsets base fs)"
proof (induction fs arbitrary: base i)
  case (Cons f fs)
  show ?case
  proof (cases i)
    case 0
    then show ?thesis by (auto simp: member_offsets_def)
  next
    case (Suc k)
    then show ?thesis
      using Cons.IH [of k "base + size_of f"] Cons.prems by (force simp: member_offsets_def add.assoc add.commute add.left_commute)
  qed
qed simp

lemma size_sum_take_mono: "i \<le> j \<Longrightarrow> size_sum (take i fs) \<le> size_sum (take j fs)"
  by (induction fs arbitrary: i j) (auto simp: take_Cons split: nat.split)

lemma size_sum_take_Suc: "i < length fs \<Longrightarrow> size_sum (take (Suc i) fs) = size_sum (take i fs) + size_of (fs ! i)"
  by (induction fs arbitrary: i) (auto simp: nth_Cons split: nat.split)

lemma size_sum_take_le: "size_sum (take i fs) \<le> size_sum fs"
  by (induction fs arbitrary: i) (auto simp: take_Cons split: nat.split)

lemma wf_groups_nth: "wf_groups fs \<Longrightarrow> i < length fs \<Longrightarrow> wf_group (fs ! i)"
  by (induction fs arbitrary: i) (auto simp: nth_Cons split: nat.split)

lemma member_bounds:
  assumes "wf_groups fs" "i < length fs" "(n, off, sz) \<in> set (member_offsets fs i)"
  shows "size_sum (take i fs) \<le> off" "off + sz \<le> size_sum (take (Suc i) fs)"
proof -
  obtain o0 where o: "(n, o0, sz) \<in> set (offsets (fs ! i))" "off = o0 + size_sum (take i fs)"
    using assms(3) by (auto simp: member_offsets_def)
  have "o0 + sz \<le> size_of (fs ! i)"
    using offsets_within(1) [OF wf_groups_nth [OF assms(1,2)]] o(1) by (fastforce simp: within_def list_all_iff)
  then show "size_sum (take i fs) \<le> off" "off + sz \<le> size_sum (take (Suc i) fs)"
    using o(2) size_sum_take_Suc [OF assms(2)] by simp_all
qed


text \<open>The layouts the stages rely on.\<close>

lemma enum_widths [simp]:
  "enum_width PipelineMsgStatus = 2" "enum_width OpClass = 3" "enum_width AluFunc = 4" "enum_width MFunc = 2"
  "enum_width MVariant = 3" "enum_width CsrFunc = 2" "enum_width BranchType = 2" "enum_width MemFunc = 1"
  "enum_width SystemFunc = 2" "enum_width ImmType = 3"
  by (simp_all add: enum_width_def enum_defs clog2nz_def clog2_def clog2_loop.simps)

lemma pipe_msg_layout:
  "size_of PipeMsg = 15"
  "map (bitfield PipeMsg) [''alu_msg_func'', ''alu_msg_op32'', ''alu_msg_unsigned''] = [Some (0, 4), Some (4, 5), Some (5, 6)]"
  "map (bitfield PipeMsg) [''m_msg_func'', ''m_msg_variant'', ''m_msg_op32''] = [Some (0, 2), Some (2, 5), Some (5, 6)]"
  "map (bitfield PipeMsg) [''csr_msg_func'', ''csr_msg_csr_num'', ''csr_msg_rs1_is_x0''] = [Some (0, 2), Some (2, 14), Some (14, 15)]"
  "map (bitfield PipeMsg) [''branch_msg_type_'', ''branch_msg_unsigned''] = [Some (0, 2), Some (2, 3)]"
  "map (bitfield PipeMsg) [''mem_msg_func'', ''mem_msg_unsigned'', ''mem_msg_width''] = [Some (0, 1), Some (1, 2), Some (2, 4)]"
  "bitfield PipeMsg ''system_msg_func'' = Some (0, 2)"
  by (simp_all add: bitfield_def PipeMsg_def StructField_def AluMsg_def MMsg_def CsrMsg_def BranchMsg_def JumpMsg_def
      MemMsg_def SystemMsg_def Field_def own_name_def CSR_SPEC_NBITS_def)

section \<open>Properties\<close>

text \<open>In the layout the generator computes for a group, every field of a member lies in the message, and
  the fields of a later member lie entirely above those of an earlier one: writing one leaves the
  other alone.\<close>

theorem group_layout:
  assumes "wf_groups fs" "i < j" "j < length fs"
    and "(n, off, sz) \<in> set (member_offsets fs i)" "(n', off', sz') \<in> set (member_offsets fs j)"
  shows "off + sz \<le> off' \<and> off' + sz' \<le> size_of (Group name fs) \<and>
    (n, off, sz) \<in> set (offsets (Group name fs)) \<and> (n', off', sz') \<in> set (offsets (Group name fs))"
proof -
  have i: "i < length fs" using assms(2,3) by simp
  have "off + sz \<le> size_sum (take (Suc i) fs)" using member_bounds(2) [OF assms(1) i assms(4)] .
  also have "\<dots> \<le> size_sum (take j fs)" using assms(2) by (intro size_sum_take_mono) simp
  also have "\<dots> \<le> off'" using member_bounds(1) [OF assms(1,3,5)] .
  finally have "off + sz \<le> off'" .
  moreover have "off' + sz' \<le> size_of (Group name fs)"
    using member_bounds(2) [OF assms(1,3,5)] size_sum_take_le [of "Suc j" fs] by simp
  moreover have "set (member_offsets fs k) \<subseteq> set (offsets (Group name fs))" if "k < length fs" for k
    using member_in_group [OF that, of 0] by auto
  ultimately show ?thesis using assms(3-5) i by blast
qed

theorem group_layout_witness:
  "bitfield AluMsg ''unsigned'' = Some (5, 6) \<and>
   (''func'', 0, 4) \<in> set (offsets AluMsg) \<and> (''unsigned'', 5, 1) \<in> set (offsets AluMsg)"
proof -
  let ?fs = "[Field ''func'' 4, Field ''op32'' 1, Field ''unsigned'' 1]"
  have "0 + 4 \<le> (5 :: nat) \<and> 5 + 1 \<le> size_of (Group None ?fs) \<and> (''func'', 0, 4) \<in> set (offsets (Group None ?fs)) \<and>
      (''unsigned'', 5, 1) \<in> set (offsets (Group None ?fs))"
    by (rule group_layout [of ?fs 0 2]) (simp_all add: Field_def member_offsets_def)
  then show ?thesis by (simp add: AluMsg_def bitfield_def Field_def own_name_def)
qed

end
