(* ===== verification/Frontend.thy ===== *)
theory Frontend
  imports Messages Isa
begin

text \<open>
  The decode stage: \<open>sub_decoder.py\<close>, the decoders built from it, \<open>imm_decoder.py\<close> and \<open>decode.py\<close> of
  \<open>lizard/core/rtl/frontend\<close>. The members of \<open>PipeMsg\<close> overlay each other at bit 0, so that the message is
  a 15-bit word whose low bits are the member the operation class selects.
\<close>

section \<open>Decoders generated from a table\<close>

record sub_decode =
  sd_success :: bool
  sd_serialize :: bool
  sd_speculative :: bool
  sd_store :: bool
  sd_rs1_val :: bool
  sd_rs2_val :: bool
  sd_rd_val :: bool
  sd_imm_type :: "3 word"
  sd_imm_val :: bool
  sd_op_class :: "3 word"
  sd_result :: "15 word"

text \<open>The keyword arguments of \<open>GenDecoder\<close> with their defaults.\<close>

definition decoder_flags :: sub_decode where
  "decoder_flags = \<lparr> sd_success = False, sd_serialize = False, sd_speculative = False, sd_store = False,
     sd_rs1_val = False, sd_rs2_val = False, sd_rd_val = False, sd_imm_type = 0, sd_imm_val = False,
     sd_op_class = 0, sd_result = 0 \<rparr>"

text \<open>\<open>merged_value\<close>: the values side by side, the first field at the low end.\<close>

fun merge_fields :: "(nat \<times> int) list \<Rightarrow> int" where
  "merge_fields [] = 0"
| "merge_fields ((width, v) # rest) = take_bit width v + 2 ^ width * merge_fields rest"

definition opcode :: "string \<Rightarrow> int" where
  "opcode name = the (map_of opcodes name)"

text \<open>\<open>gen\<close> is the payload generator: payload, extended to the width of \<open>PipeMsg\<close>, and validity. Without
  fields to select on, the data is the constant \<open>fixed_data\<close>.\<close>

definition gen_decoder ::
  "sub_decode \<Rightarrow> string \<Rightarrow> (slice \<times> int) list \<Rightarrow> slice list \<Rightarrow> (int list \<times> 'd::len word) list \<Rightarrow> 'd word \<Rightarrow>
   (32 word \<Rightarrow> 'd word \<Rightarrow> 15 word \<times> bool) \<Rightarrow> 32 word \<Rightarrow> sub_decode" where
  "gen_decoder flags op_class fixed_map field_list field_map fixed_data gen inst =
     (let (lookup_out, lookup_valid) =
            (if field_list \<noteq> []
             then lookup_table (map (\<lambda>(values, out). (merge_fields (zip (map slice_len field_list) values), out)) field_map)
                    (merge_fields (map (\<lambda>sl. (slice_len sl, uint (cut sl inst))) field_list))
             else (fixed_data, True));
          (payload, gen_valid) = gen inst lookup_out;
          op_out = and_op (map (\<lambda>(sl, v). equals (uint (cut sl inst)) v) fixed_map @ [lookup_valid])
      in flags\<lparr>sd_success := gen_valid \<and> op_out, sd_op_class := pattern OpClass op_class, sd_result := payload\<rparr>)"

definition identity_payload :: "32 word \<Rightarrow> 'd::len word \<Rightarrow> 15 word \<times> bool" where
  "identity_payload inst data = (ucast data, True)"

definition gen_decoder_fixed ::
  "sub_decode \<Rightarrow> string \<Rightarrow> (slice \<times> int) list \<Rightarrow> slice list \<Rightarrow> (int list \<times> 'd::len word) list \<Rightarrow> 'd word \<Rightarrow>
   32 word \<Rightarrow> sub_decode" where
  "gen_decoder_fixed flags op_class fixed_map field_list field_map fixed_data =
     gen_decoder flags op_class fixed_map field_list field_map fixed_data identity_payload"

definition binary_composite_decoder :: "sub_decode \<Rightarrow> sub_decode \<Rightarrow> sub_decode" where
  "binary_composite_decoder a b = (if sd_success a then a else b)"

fun composite_decoder :: "(32 word \<Rightarrow> sub_decode) list \<Rightarrow> 32 word \<Rightarrow> sub_decode" where
  "composite_decoder [d] inst = d inst"
| "composite_decoder (d # e # ds) inst = binary_composite_decoder (d inst) (composite_decoder (e # ds) inst)"


section \<open>ALU\<close>

definition alu_msg :: "string \<Rightarrow> bool \<Rightarrow> bool \<Rightarrow> 6 word" where
  "alu_msg func usign op32 =
     set_slice 4 (of_bool op32 :: 1 word) (set_slice 5 (of_bool usign :: 1 word) (set_slice 0 (pattern AluFunc func :: 4 word) 0))"

definition op_decoder :: "32 word \<Rightarrow> sub_decode" where
  "op_decoder = gen_decoder_fixed (decoder_flags\<lparr>sd_rs1_val := True, sd_rs2_val := True, sd_rd_val := True\<rparr>)
     ''OP_CLASS_ALU'' [(RV_OPCODE, opcode ''OP'')] [RV_FUNCT7, RV_FUNCT3]
     [([0b0000000, 0b000], alu_msg ''ALU_FUNC_ADD'' False False),
      ([0b0100000, 0b000], alu_msg ''ALU_FUNC_SUB'' False False),
      ([0b0000000, 0b001], alu_msg ''ALU_FUNC_SLL'' False False),
      ([0b0000000, 0b010], alu_msg ''ALU_FUNC_SLT'' False False),
      ([0b0000000, 0b011], alu_msg ''ALU_FUNC_SLT'' True False),
      ([0b0000000, 0b100], alu_msg ''ALU_FUNC_XOR'' False False),
      ([0b0000000, 0b101], alu_msg ''ALU_FUNC_SRL'' False False),
      ([0b0100000, 0b101], alu_msg ''ALU_FUNC_SRA'' False False),
      ([0b0000000, 0b110], alu_msg ''ALU_FUNC_OR'' False False),
      ([0b0000000, 0b111], alu_msg ''ALU_FUNC_AND'' False False)] 0"

definition op32_decoder :: "32 word \<Rightarrow> sub_decode" where
  "op32_decoder = gen_decoder_fixed (decoder_flags\<lparr>sd_rs1_val := True, sd_rs2_val := True, sd_rd_val := True\<rparr>)
     ''OP_CLASS_ALU'' [(RV_OPCODE, opcode ''OP_32'')] [RV_FUNCT7, RV_FUNCT3]
     [([0b0000000, 0b000], alu_msg ''ALU_FUNC_ADD'' False True),
      ([0b0100000, 0b000], alu_msg ''ALU_FUNC_SUB'' False True),
      ([0b0000000, 0b001], alu_msg ''ALU_FUNC_SLL'' False True),
      ([0b0000000, 0b101], alu_msg ''ALU_FUNC_SRL'' False True),
      ([0b0100000, 0b101], alu_msg ''ALU_FUNC_SRA'' False True)] 0"

definition imm_flags :: "string \<Rightarrow> sub_decode \<Rightarrow> sub_decode" where
  "imm_flags imm_type flags = flags\<lparr>sd_imm_type := pattern ImmType imm_type, sd_imm_val := True\<rparr>"

definition op_imm_decoder :: "32 word \<Rightarrow> sub_decode" where
  "op_imm_decoder = gen_decoder_fixed (imm_flags ''IMM_TYPE_I'' (decoder_flags\<lparr>sd_rs1_val := True, sd_rd_val := True\<rparr>))
     ''OP_CLASS_ALU'' [(RV_OPCODE, opcode ''OP_IMM'')] [RV_FUNCT3]
     [([0b000], alu_msg ''ALU_FUNC_ADD'' False False),
      ([0b010], alu_msg ''ALU_FUNC_SLT'' False False),
      ([0b011], alu_msg ''ALU_FUNC_SLT'' True False),
      ([0b100], alu_msg ''ALU_FUNC_XOR'' False False),
      ([0b110], alu_msg ''ALU_FUNC_OR'' False False),
      ([0b111], alu_msg ''ALU_FUNC_AND'' False False)] 0"

definition op_imm_shift_decoder :: "32 word \<Rightarrow> sub_decode" where
  "op_imm_shift_decoder = gen_decoder_fixed (imm_flags ''IMM_TYPE_SHAMT64'' (decoder_flags\<lparr>sd_rs1_val := True, sd_rd_val := True\<rparr>))
     ''OP_CLASS_ALU'' [(RV_OPCODE, opcode ''OP_IMM'')] [RV_FUNCT7_SHFT64, RV_FUNCT3]
     [([0b000000, 0b001], alu_msg ''ALU_FUNC_SLL'' False False),
      ([0b000000, 0b101], alu_msg ''ALU_FUNC_SRL'' False False),
      ([0b010000, 0b101], alu_msg ''ALU_FUNC_SRA'' False False)] 0"

definition op_imm32_decoder :: "32 word \<Rightarrow> sub_decode" where
  "op_imm32_decoder = gen_decoder_fixed (imm_flags ''IMM_TYPE_I'' (decoder_flags\<lparr>sd_rs1_val := True, sd_rd_val := True\<rparr>))
     ''OP_CLASS_ALU'' [(RV_OPCODE, opcode ''OP_IMM_32'')] [RV_FUNCT3]
     [([0b000], alu_msg ''ALU_FUNC_ADD'' False True)] 0"

definition op_imm32_shift_decoder :: "32 word \<Rightarrow> sub_decode" where
  "op_imm32_shift_decoder = gen_decoder_fixed (imm_flags ''IMM_TYPE_SHAMT64'' (decoder_flags\<lparr>sd_rs1_val := True, sd_rd_val := True\<rparr>))
     ''OP_CLASS_ALU'' [(RV_OPCODE, opcode ''OP_IMM_32'')] [RV_FUNCT7, RV_FUNCT3]
     [([0b0000000, 0b001], alu_msg ''ALU_FUNC_SLL'' False True),
      ([0b0000000, 0b101], alu_msg ''ALU_FUNC_SRL'' False True),
      ([0b0100000, 0b101], alu_msg ''ALU_FUNC_SRA'' False True)] 0"

definition misc_decoder :: "32 word \<Rightarrow> sub_decode" where
  "misc_decoder = gen_decoder_fixed (imm_flags ''IMM_TYPE_U'' (decoder_flags\<lparr>sd_rd_val := True\<rparr>))
     ''OP_CLASS_ALU'' [] [RV_OPCODE]
     [([opcode ''LUI''], alu_msg ''ALU_FUNC_LUI'' False False),
      ([opcode ''AUIPC''], alu_msg ''ALU_FUNC_AUIPC'' False False)] 0"

definition alu_decoder :: "32 word \<Rightarrow> sub_decode" where
  "alu_decoder = composite_decoder [op_decoder, op32_decoder, op_imm_decoder, op_imm32_decoder, op_imm_shift_decoder,
     op_imm32_shift_decoder, misc_decoder]"


section \<open>Control and status registers\<close>

definition csr_msg_payload :: "bool \<Rightarrow> 32 word \<Rightarrow> 2 word \<Rightarrow> 15 word \<times> bool" where
  "csr_msg_payload set_rs1_is_x0 inst data =
     (set_slice 14 (of_bool (set_rs1_is_x0 \<and> (cut RV_RS1 inst = 0)) :: 1 word)
        (set_slice 2 (get_slice (fst RV_CSRNUM) inst :: 12 word) (set_slice 0 data 0)), True)"

definition csr_r_decoder :: "32 word \<Rightarrow> sub_decode" where
  "csr_r_decoder = gen_decoder (decoder_flags\<lparr>sd_serialize := True, sd_rs1_val := True, sd_rd_val := True\<rparr>)
     ''OP_CLASS_CSR'' [(RV_OPCODE, opcode ''SYSTEM'')] [RV_FUNCT3]
     [([0b001], pattern CsrFunc ''CSR_FUNC_READ_WRITE''), ([0b010], pattern CsrFunc ''CSR_FUNC_READ_SET''),
      ([0b011], pattern CsrFunc ''CSR_FUNC_READ_CLEAR'')] 0 (csr_msg_payload True)"

definition csr_i_decoder :: "32 word \<Rightarrow> sub_decode" where
  "csr_i_decoder = gen_decoder (imm_flags ''IMM_TYPE_C'' (decoder_flags\<lparr>sd_serialize := True, sd_rd_val := True\<rparr>))
     ''OP_CLASS_CSR'' [(RV_OPCODE, opcode ''SYSTEM'')] [RV_FUNCT3]
     [([0b101], pattern CsrFunc ''CSR_FUNC_READ_WRITE''), ([0b110], pattern CsrFunc ''CSR_FUNC_READ_SET''),
      ([0b111], pattern CsrFunc ''CSR_FUNC_READ_CLEAR'')] 0 (csr_msg_payload False)"

definition csr_decoder :: "32 word \<Rightarrow> sub_decode" where
  "csr_decoder = composite_decoder [csr_r_decoder, csr_i_decoder]"


section \<open>Branches and jumps\<close>

definition branch_msg :: "string \<Rightarrow> bool \<Rightarrow> 3 word" where
  "branch_msg type usign = set_slice 2 (of_bool usign :: 1 word) (set_slice 0 (pattern BranchType type :: 2 word) 0)"

definition branch_decoder :: "32 word \<Rightarrow> sub_decode" where
  "branch_decoder = gen_decoder_fixed (imm_flags ''IMM_TYPE_B'' (decoder_flags\<lparr>sd_speculative := True, sd_rs1_val := True, sd_rs2_val := True\<rparr>))
     ''OP_CLASS_BRANCH'' [(RV_OPCODE, opcode ''BRANCH'')] [RV_FUNCT3]
     [([0b000], branch_msg ''BRANCH_TYPE_EQ'' False), ([0b001], branch_msg ''BRANCH_TYPE_NE'' False),
      ([0b100], branch_msg ''BRANCH_TYPE_LT'' False), ([0b101], branch_msg ''BRANCH_TYPE_GE'' False),
      ([0b110], branch_msg ''BRANCH_TYPE_LT'' True), ([0b111], branch_msg ''BRANCH_TYPE_GE'' True)] 0"

definition jal_decoder :: "32 word \<Rightarrow> sub_decode" where
  "jal_decoder = gen_decoder_fixed (imm_flags ''IMM_TYPE_J'' (decoder_flags\<lparr>sd_speculative := True, sd_rd_val := True\<rparr>))
     ''OP_CLASS_JUMP'' [(RV_OPCODE, opcode ''JAL'')] [] [] (0 :: 1 word)"

definition jalr_decoder :: "32 word \<Rightarrow> sub_decode" where
  "jalr_decoder = gen_decoder_fixed (imm_flags ''IMM_TYPE_I'' (decoder_flags\<lparr>sd_speculative := True, sd_rd_val := True, sd_rs1_val := True\<rparr>))
     ''OP_CLASS_JUMP'' [(RV_OPCODE, opcode ''JALR''), (RV_FUNCT3, 0)] [] [] (0 :: 1 word)"

definition jump_decoder :: "32 word \<Rightarrow> sub_decode" where
  "jump_decoder = composite_decoder [jal_decoder, jalr_decoder]"


section \<open>Memory\<close>

definition mem_msg_payload :: "string \<Rightarrow> 32 word \<Rightarrow> 1 word \<Rightarrow> 15 word \<times> bool" where
  "mem_msg_payload mem_func inst data =
     (let funct3 = get_slice (fst RV_FUNCT3) inst :: 3 word;
          usign = bit funct3 2;
          width = get_slice 0 funct3 :: 2 word
      in (set_slice 2 width (set_slice 1 (of_bool usign :: 1 word) (set_slice 0 (pattern MemFunc mem_func :: 1 word) 0)),
          if mem_func = ''MEM_FUNC_LOAD'' then \<not> (width = 0b11 \<and> usign) else \<not> usign))"

definition load_decoder :: "32 word \<Rightarrow> sub_decode" where
  "load_decoder = gen_decoder (imm_flags ''IMM_TYPE_I'' (decoder_flags\<lparr>sd_rs1_val := True, sd_rd_val := True\<rparr>))
     ''OP_CLASS_MEM'' [(RV_OPCODE, opcode ''LOAD'')] [] [] 0 (mem_msg_payload ''MEM_FUNC_LOAD'')"

definition store_decoder :: "32 word \<Rightarrow> sub_decode" where
  "store_decoder = gen_decoder (imm_flags ''IMM_TYPE_S'' (decoder_flags\<lparr>sd_store := True, sd_rs1_val := True, sd_rs2_val := True\<rparr>))
     ''OP_CLASS_MEM'' [(RV_OPCODE, opcode ''STORE'')] [] [] 0 (mem_msg_payload ''MEM_FUNC_STORE'')"

definition mem_decoder :: "32 word \<Rightarrow> sub_decode" where
  "mem_decoder = composite_decoder [load_decoder, store_decoder]"


section \<open>Multiplication and division\<close>

definition m_msg :: "string \<Rightarrow> string \<Rightarrow> bool \<Rightarrow> 6 word" where
  "m_msg func variant op32 =
     set_slice 5 (of_bool op32 :: 1 word)
       (set_slice 2 (pattern MVariant variant :: 3 word) (set_slice 0 (pattern MFunc func :: 2 word) 0))"

definition m_op_decoder :: "32 word \<Rightarrow> sub_decode" where
  "m_op_decoder = gen_decoder_fixed (decoder_flags\<lparr>sd_rs1_val := True, sd_rs2_val := True, sd_rd_val := True\<rparr>)
     ''OP_CLASS_MUL'' [(RV_OPCODE, opcode ''OP'')] [RV_FUNCT7, RV_FUNCT3]
     [([0b0000001, 0b000], m_msg ''M_FUNC_MUL'' ''M_VARIANT_N'' False),
      ([0b0000001, 0b001], m_msg ''M_FUNC_MUL'' ''M_VARIANT_H'' False),
      ([0b0000001, 0b010], m_msg ''M_FUNC_MUL'' ''M_VARIANT_HSU'' False),
      ([0b0000001, 0b011], m_msg ''M_FUNC_MUL'' ''M_VARIANT_HU'' False),
      ([0b0000001, 0b100], m_msg ''M_FUNC_DIV'' ''M_VARIANT_N'' False),
      ([0b0000001, 0b101], m_msg ''M_FUNC_DIV'' ''M_VARIANT_U'' False),
      ([0b0000001, 0b110], m_msg ''M_FUNC_REM'' ''M_VARIANT_N'' False),
      ([0b0000001, 0b111], m_msg ''M_FUNC_REM'' ''M_VARIANT_U'' False)] 0"

definition m_op32_decoder :: "32 word \<Rightarrow> sub_decode" where
  "m_op32_decoder = gen_decoder_fixed (decoder_flags\<lparr>sd_rs1_val := True, sd_rs2_val := True, sd_rd_val := True\<rparr>)
     ''OP_CLASS_MUL'' [(RV_OPCODE, opcode ''OP_32'')] [RV_FUNCT7, RV_FUNCT3]
     [([0b0000001, 0b000], m_msg ''M_FUNC_MUL'' ''M_VARIANT_N'' True),
      ([0b0000001, 0b100], m_msg ''M_FUNC_DIV'' ''M_VARIANT_N'' True),
      ([0b0000001, 0b101], m_msg ''M_FUNC_DIV'' ''M_VARIANT_U'' True),
      ([0b0000001, 0b110], m_msg ''M_FUNC_REM'' ''M_VARIANT_N'' True),
      ([0b0000001, 0b111], m_msg ''M_FUNC_REM'' ''M_VARIANT_U'' True)] 0"

definition m_decoder :: "32 word \<Rightarrow> sub_decode" where
  "m_decoder = composite_decoder [m_op_decoder, m_op32_decoder]"


section \<open>System instructions\<close>

definition system_msg :: "string \<Rightarrow> 2 word" where
  "system_msg func = set_slice 0 (pattern SystemFunc func :: 2 word) 0"

definition system_call_decoder :: "32 word \<Rightarrow> sub_decode" where
  "system_call_decoder = gen_decoder_fixed decoder_flags ''OP_CLASS_SYSTEM''
     [(RV_OPCODE, opcode ''SYSTEM''), (RV_RD, 0), (RV_FUNCT3, 0), (RV_RS1, 0), (RV_FUNCT7, 0)] [RV_RS2]
     [([0], system_msg ''SYSTEM_FUNC_ECALL''), ([1], system_msg ''SYSTEM_FUNC_EBREAK'')] 0"

definition fence_decoder :: "32 word \<Rightarrow> sub_decode" where
  "fence_decoder = gen_decoder_fixed decoder_flags ''OP_CLASS_SYSTEM''
     [(RV_OPCODE, opcode ''MISC_MEM''), (RV_RD, 0), (RV_FUNCT3, 0), (RV_RS1, 0), (RV_FENCE_UPPER, 0)] [] []
     (system_msg ''SYSTEM_FUNC_FENCE'')"

definition fence_i_decoder :: "32 word \<Rightarrow> sub_decode" where
  "fence_i_decoder = gen_decoder_fixed decoder_flags ''OP_CLASS_SYSTEM''
     [(RV_OPCODE, opcode ''MISC_MEM''), (RV_RD, 0), (RV_FUNCT3, 1), (RV_RS1, 0), (RV_RS2, 0), (RV_FUNCT7, 0)] [] []
     (system_msg ''SYSTEM_FUNC_FENCE_I'')"

definition system_decoder :: "32 word \<Rightarrow> sub_decode" where
  "system_decoder = composite_decoder [system_call_decoder, fence_decoder, fence_i_decoder]"

definition composed_decoder :: "32 word \<Rightarrow> sub_decode" where
  "composed_decoder = composite_decoder [alu_decoder, csr_decoder, branch_decoder, jump_decoder, mem_decoder, m_decoder,
     system_decoder]"


section \<open>Immediates\<close>

text \<open>The select of the multiplexer is as wide as the list of its eight inputs is long.\<close>

definition imm_decode :: "3 word \<Rightarrow> 32 word \<Rightarrow> 21 word" where
  "imm_decode type inst =
     (let imm_i = get_slice (fst RV_I_IMM) inst :: 12 word;
          imm_s = word_cat (get_slice (fst RV_S_IMM1) inst :: 7 word) (get_slice (fst RV_S_IMM0) inst :: 5 word) :: 12 word;
          imm_b = word_cat (get_slice (fst RV_B_IMM3) inst :: 1 word)
                    (word_cat (get_slice (fst RV_B_IMM2) inst :: 1 word)
                      (word_cat (get_slice (fst RV_B_IMM1) inst :: 6 word)
                        (word_cat (get_slice (fst RV_B_IMM0) inst :: 4 word) (0 :: 1 word) :: 5 word) :: 11 word) :: 12 word) :: 13 word;
          imm_u = get_slice (fst RV_U_IMM) inst :: 20 word;
          imm_j = word_cat (get_slice (fst RV_J_IMM3) inst :: 1 word)
                    (word_cat (get_slice (fst RV_J_IMM2) inst :: 8 word)
                      (word_cat (get_slice (fst RV_J_IMM1) inst :: 1 word)
                        (word_cat (get_slice (fst RV_J_IMM0) inst :: 10 word) (0 :: 1 word) :: 11 word) :: 12 word) :: 20 word) :: 21 word;
          imm_c = get_slice (fst RV_C_IMM) inst :: 5 word;
          imm_shamt32 = get_slice (fst RV_SHAMT32) inst :: 5 word;
          imm_shamt64 = get_slice (fst RV_SHAMT64) inst :: 6 word
      in [scast imm_i, scast imm_s, scast imm_b, scast imm_u, scast imm_j, ucast imm_c, ucast imm_shamt32, ucast imm_shamt64]
           ! unat type)"


section \<open>The decode stage\<close>

text \<open>The messages as records. The exception information overlays the payload: it is read when the status
  is not valid, the payload when it is.\<close>

record frontend_hdr =
  fh_status :: "2 word"
  fh_pc :: "64 word"
  fh_fence :: bool
  fh_replay :: bool
  fh_replay_next :: bool

record exception_info =
  ei_mcause :: "4 word"
  ei_mtval :: "64 word"

record fetch_msg =
  fm_hdr :: frontend_hdr
  fm_exception_info :: exception_info
  fm_inst :: "32 word"
  fm_pc_succ :: "64 word"

record decode_msg =
  dm_hdr :: frontend_hdr
  dm_exception_info :: exception_info
  dm_serialize :: bool
  dm_speculative :: bool
  dm_store :: bool
  dm_pc_succ :: "64 word"
  dm_rs1_val :: bool
  dm_rs1 :: "5 word"
  dm_rs2_val :: bool
  dm_rs2 :: "5 word"
  dm_rd_val :: bool
  dm_rd :: "5 word"
  dm_imm_val :: bool
  dm_imm :: "21 word"
  dm_op_class :: "3 word"
  dm_pipe_msg :: "15 word"

definition zero_exception :: exception_info where
  "zero_exception = \<lparr> ei_mcause = 0, ei_mtval = 0 \<rparr>"

definition zero_decode :: "frontend_hdr \<Rightarrow> decode_msg" where
  "zero_decode hdr =
     \<lparr> dm_hdr = hdr, dm_exception_info = zero_exception, dm_serialize = False, dm_speculative = False, dm_store = False,
       dm_pc_succ = 0, dm_rs1_val = False, dm_rs1 = 0, dm_rs2_val = False, dm_rs2 = 0, dm_rd_val = False, dm_rd = 0,
       dm_imm_val = False, dm_imm = 0, dm_op_class = 0, dm_pipe_msg = 0 \<rparr>"

definition exception_code :: "string \<Rightarrow> 4 word" where
  "exception_code name = word_of_int (the (map_of exception_codes name))"

definition decode_stage :: "fetch_msg \<Rightarrow> decode_msg" where
  "decode_stage m =
     (let d = composed_decoder (fm_inst m)
      in if fh_status (fm_hdr m) = pattern PipelineMsgStatus ''PIPELINE_MSG_STATUS_VALID''
         then if sd_success d
              then \<lparr> dm_hdr = fm_hdr m, dm_exception_info = zero_exception, dm_serialize = sd_serialize d,
                     dm_speculative = sd_speculative d, dm_store = sd_store d, dm_pc_succ = fm_pc_succ m,
                     dm_rs1_val = sd_rs1_val d, dm_rs1 = get_slice (fst RV_RS1) (fm_inst m),
                     dm_rs2_val = sd_rs2_val d, dm_rs2 = get_slice (fst RV_RS2) (fm_inst m),
                     dm_rd_val = sd_rd_val d, dm_rd = get_slice (fst RV_RD) (fm_inst m),
                     dm_imm_val = sd_imm_val d, dm_imm = imm_decode (sd_imm_type d) (fm_inst m),
                     dm_op_class = sd_op_class d, dm_pipe_msg = sd_result d \<rparr>
              else (zero_decode ((fm_hdr m)\<lparr>fh_status := pattern PipelineMsgStatus ''PIPELINE_MSG_STATUS_EXCEPTION_RAISED''\<rparr>))
                     \<lparr>dm_exception_info :=
                        \<lparr> ei_mcause = exception_code ''ILLEGAL_INSTRUCTION'', ei_mtval = ucast (fm_inst m) \<rparr>\<rparr>
         else (zero_decode (fm_hdr m))\<lparr>dm_exception_info := fm_exception_info m\<rparr>)"

text \<open>The drop controller of the decode buffer: a redirect drops the message.\<close>

definition redirect_keep :: "bool \<Rightarrow> decode_msg \<Rightarrow> decode_msg \<times> bool" where
  "redirect_keep redirect m = (m, \<not> redirect)"

end
