(* ===== verification/Backend.thy ===== *)
theory Backend
  imports Frontend Pipeline Arith_Units
begin

text \<open>
  The stages of \<open>lizard/core/rtl/backend\<close>: rename, issue, dispatch, the execution pipes and writeback, with the
  forwarder of \<open>forwarder.py\<close>. A stage is a function of the incoming message and of what the methods it
  requires return; the calls it makes are part of its result. As in \<open>Frontend\<close>, the exception information of a
  message overlays its payload and is read when the status is not valid.
\<close>

section \<open>Messages\<close>

record backend_hdr = frontend_hdr +
  bh_seq :: "5 word"
  bh_is_store :: bool
  bh_store_id :: "2 word"
  bh_spec_val :: bool
  bh_spec :: "1 word"
  bh_branch_mask :: "2 word"

text \<open>\<open>ExecutionDataGroup\<close>.\<close>

record execution_data =
  ed_imm_val :: bool
  ed_imm :: "21 word"
  ed_op_class :: "3 word"
  ed_pipe_msg :: "15 word"

text \<open>The rename and issue messages have the same fields.\<close>

record rename_msg =
  rm_hdr :: backend_hdr
  rm_exception_info :: exception_info
  rm_rs1_val :: bool
  rm_rs1 :: "6 word"
  rm_rs2_val :: bool
  rm_rs2 :: "6 word"
  rm_rd_val :: bool
  rm_rd :: "6 word"
  rm_areg_d :: "5 word"
  rm_execution_data :: execution_data

record dispatch_msg =
  dx_hdr :: backend_hdr
  dx_exception_info :: exception_info
  dx_rs1_val :: bool
  dx_rs1 :: "64 word"
  dx_rs2_val :: bool
  dx_rs2 :: "64 word"
  dx_rd_val :: bool
  dx_rd :: "6 word"
  dx_areg_d :: "5 word"
  dx_execution_data :: execution_data

record execute_msg =
  ex_hdr :: backend_hdr
  ex_exception_info :: exception_info
  ex_rd_val :: bool
  ex_rd :: "6 word"
  ex_result_val :: bool
  ex_result :: "64 word"
  ex_areg_d :: "5 word"

record writeback_msg =
  wb_hdr :: backend_hdr
  wb_exception_info :: exception_info
  wb_rd_val :: bool
  wb_rd :: "6 word"
  wb_areg_d :: "5 word"

definition zero_execution_data :: execution_data where
  "zero_execution_data = \<lparr> ed_imm_val = False, ed_imm = 0, ed_op_class = 0, ed_pipe_msg = 0 \<rparr>"

definition zero_rename :: "backend_hdr \<Rightarrow> rename_msg" where
  "zero_rename hdr =
     \<lparr> rm_hdr = hdr, rm_exception_info = zero_exception, rm_rs1_val = False, rm_rs1 = 0, rm_rs2_val = False, rm_rs2 = 0,
       rm_rd_val = False, rm_rd = 0, rm_areg_d = 0, rm_execution_data = zero_execution_data \<rparr>"

definition zero_dispatch :: "backend_hdr \<Rightarrow> dispatch_msg" where
  "zero_dispatch hdr =
     \<lparr> dx_hdr = hdr, dx_exception_info = zero_exception, dx_rs1_val = False, dx_rs1 = 0, dx_rs2_val = False, dx_rs2 = 0,
       dx_rd_val = False, dx_rd = 0, dx_areg_d = 0, dx_execution_data = zero_execution_data \<rparr>"

definition zero_execute :: "backend_hdr \<Rightarrow> execute_msg" where
  "zero_execute hdr =
     \<lparr> ex_hdr = hdr, ex_exception_info = zero_exception, ex_rd_val = False, ex_rd = 0, ex_result_val = False,
       ex_result = 0, ex_areg_d = 0 \<rparr>"

definition zero_writeback :: "backend_hdr \<Rightarrow> writeback_msg" where
  "zero_writeback hdr =
     \<lparr> wb_hdr = hdr, wb_exception_info = zero_exception, wb_rd_val = False, wb_rd = 0, wb_areg_d = 0 \<rparr>"

text \<open>The fields of the payload of each pipe; the offsets are those of \<open>pipe_msg_layout\<close>.\<close>

abbreviation "msg_valid hdr \<equiv> fh_status hdr = pattern PipelineMsgStatus ''PIPELINE_MSG_STATUS_VALID''"

definition alu_msg_func :: "15 word \<Rightarrow> 4 word" where "alu_msg_func p = get_slice 0 p"
definition alu_msg_op32 :: "15 word \<Rightarrow> bool" where "alu_msg_op32 p = bit p 4"
definition alu_msg_unsigned :: "15 word \<Rightarrow> bool" where "alu_msg_unsigned p = bit p 5"
definition m_msg_func :: "15 word \<Rightarrow> 2 word" where "m_msg_func p = get_slice 0 p"
definition m_msg_variant :: "15 word \<Rightarrow> 3 word" where "m_msg_variant p = get_slice 2 p"
definition m_msg_op32 :: "15 word \<Rightarrow> bool" where "m_msg_op32 p = bit p 5"
definition csr_msg_func :: "15 word \<Rightarrow> 2 word" where "csr_msg_func p = get_slice 0 p"
definition csr_msg_csr_num :: "15 word \<Rightarrow> 12 word" where "csr_msg_csr_num p = get_slice 2 p"
definition csr_msg_rs1_is_x0 :: "15 word \<Rightarrow> bool" where "csr_msg_rs1_is_x0 p = bit p 14"
definition branch_msg_type :: "15 word \<Rightarrow> 2 word" where "branch_msg_type p = get_slice 0 p"
definition branch_msg_unsigned :: "15 word \<Rightarrow> bool" where "branch_msg_unsigned p = bit p 2"
definition mem_msg_func :: "15 word \<Rightarrow> 1 word" where "mem_msg_func p = get_slice 0 p"
definition mem_msg_unsigned :: "15 word \<Rightarrow> bool" where "mem_msg_unsigned p = bit p 1"
definition mem_msg_width :: "15 word \<Rightarrow> 2 word" where "mem_msg_width p = get_slice 2 p"
definition system_msg_func :: "15 word \<Rightarrow> 2 word" where "system_msg_func p = get_slice 0 p"

lemmas pipe_msg_fields = alu_msg_func_def alu_msg_op32_def alu_msg_unsigned_def m_msg_func_def m_msg_variant_def
  m_msg_op32_def csr_msg_func_def csr_msg_csr_num_def csr_msg_rs1_is_x0_def branch_msg_type_def branch_msg_unsigned_def
  mem_msg_func_def mem_msg_unsigned_def mem_msg_width_def system_msg_func_def

section \<open>Rename\<close>

text \<open>What the methods the stage requires return, and the calls it makes.\<close>

record rename_env =
  re_seq :: "5 word"
  re_spec_idx :: "1 word"
  re_branch_mask :: "2 word"
  re_store_id :: "2 word"
  re_success :: bool
  re_src0 :: "6 word"
  re_src1 :: "6 word"
  re_dst :: "6 word"
  re_dst_rdy :: bool

record rename_calls =
  rc_register_call :: bool
  rc_speculative :: bool
  rc_serialize :: bool
  rc_store :: bool
  rc_pc :: "64 word"
  rc_pc_succ :: "64 word"
  rc_src0_areg :: "5 word"
  rc_src1_areg :: "5 word"
  rc_dst_call :: bool
  rc_dst_areg :: "5 word"
  rc_mflow_call :: bool
  rc_mflow_id :: "2 word"

definition rename_hdr :: "frontend_hdr \<Rightarrow> bool \<Rightarrow> bool \<Rightarrow> rename_env \<Rightarrow> backend_hdr" where
  "rename_hdr hdr store spec env =
     \<lparr> fh_status = fh_status hdr, fh_pc = fh_pc hdr, fh_fence = fh_fence hdr, fh_replay = fh_replay hdr,
       fh_replay_next = fh_replay_next hdr, bh_seq = re_seq env, bh_is_store = store, bh_store_id = re_store_id env,
       bh_spec_val = (msg_valid hdr \<and> spec), bh_spec = (if msg_valid hdr then re_spec_idx env else 0),
       bh_branch_mask = re_branch_mask env \<rparr>"

definition rename_stage :: "bool \<Rightarrow> decode_msg \<Rightarrow> rename_env \<Rightarrow> rename_msg \<times> bool \<times> rename_calls" where
  "rename_stage process_call m env =
     (let no_except = msg_valid (dm_hdr m);
          register_call = (process_call \<and> \<not> (dm_rd_val m \<and> \<not> re_dst_rdy env));
          accepted = (re_success env \<and> register_call);
          going = (accepted \<and> msg_valid (dm_hdr m));
          register_store = (no_except \<and> dm_store m);
          hdr = rename_hdr (dm_hdr m) (dm_store m) (dm_speculative m) env;
          out = (if no_except
                 then \<lparr> rm_hdr = hdr, rm_exception_info = zero_exception,
                        rm_rs1_val = dm_rs1_val m, rm_rs1 = re_src0 env, rm_rs2_val = dm_rs2_val m, rm_rs2 = re_src1 env,
                        rm_rd_val = dm_rd_val m, rm_rd = re_dst env, rm_areg_d = dm_rd m,
                        rm_execution_data = \<lparr> ed_imm_val = dm_imm_val m, ed_imm = dm_imm m,
                          ed_op_class = dm_op_class m, ed_pipe_msg = dm_pipe_msg m \<rparr> \<rparr>
                 else (zero_rename hdr)\<lparr>rm_exception_info := dm_exception_info m\<rparr>)
      in (out, accepted,
          \<lparr> rc_register_call = register_call, rc_speculative = (no_except \<and> dm_speculative m),
            rc_serialize = (no_except \<and> dm_serialize m), rc_store = register_store, rc_pc = fh_pc (dm_hdr m),
            rc_pc_succ = dm_pc_succ m, rc_src0_areg = dm_rs1 m, rc_src1_areg = dm_rs2 m,
            rc_dst_call = (going \<and> dm_rd_val m), rc_dst_areg = dm_rd m,
            rc_mflow_call = (going \<and> register_store), rc_mflow_id = re_store_id env \<rparr>))"


section \<open>Dispatch\<close>

text \<open>\<open>read_value\<close> are the values of the two source tags in the data flow manager.\<close>

definition dispatch_stage :: "64 word \<Rightarrow> 64 word \<Rightarrow> rename_msg \<Rightarrow> dispatch_msg" where
  "dispatch_stage read_value0 read_value1 m =
     (if \<not> msg_valid (rm_hdr m)
      then (zero_dispatch (rm_hdr m))\<lparr>dx_exception_info := rm_exception_info m\<rparr>
      else \<lparr> dx_hdr = rm_hdr m, dx_exception_info = zero_exception, dx_rs1_val = rm_rs1_val m, dx_rs1 = read_value0,
             dx_rs2_val = rm_rs2_val m, dx_rs2 = read_value1, dx_rd_val = rm_rd_val m, dx_rd = rm_rd m,
             dx_areg_d = rm_areg_d m, dx_execution_data = rm_execution_data m \<rparr>)"


section \<open>Pipe selection\<close>

definition pipe_sort :: "dispatch_msg \<Rightarrow> 3 word" where
  "pipe_sort m =
     (let cls = ed_op_class (dx_execution_data m)
      in if \<not> msg_valid (dx_hdr m) then 0
         else if cls = pattern OpClass ''OP_CLASS_CSR'' \<or> cls = pattern OpClass ''OP_CLASS_SYSTEM'' then 0
         else if cls = pattern OpClass ''OP_CLASS_ALU'' then 1
         else if cls = pattern OpClass ''OP_CLASS_BRANCH'' \<or> cls = pattern OpClass ''OP_CLASS_JUMP'' then 2
         else if cls = pattern OpClass ''OP_CLASS_MUL'' then 3
         else if cls = pattern OpClass ''OP_CLASS_MEM'' then 4
         else 0)"

text \<open>\<open>PipeSelector\<close>: the splitter with that sorting over the five pipes.\<close>

definition pipe_selector :: "bool \<Rightarrow> dispatch_msg \<Rightarrow> bool list \<Rightarrow> (bool \<times> dispatch_msg) list \<times> bool option" where
  "pipe_selector in_peek_rdy in_peek_msg take_calls = splitter (pipe_sort in_peek_msg) in_peek_rdy in_peek_msg take_calls"

text \<open>\<open>IssueSelector\<close>: a store goes to both queues, with the data register unused in the memory one and the
  address register unused in the normal one.\<close>

record issue_select_in =
  is_peek_rdy :: bool
  is_peek_msg :: rename_msg
  is_normal_take :: bool
  is_mem_take :: bool
  is_normal_can_take :: bool
  is_mem_can_take :: bool

record issue_select_out =
  is_normal_rdy :: bool
  is_normal_msg :: rename_msg
  is_mem_rdy :: bool
  is_mem_msg :: rename_msg
  is_in_take :: bool

definition zero_hdr :: backend_hdr where
  "zero_hdr = \<lparr> fh_status = 0, fh_pc = 0, fh_fence = False, fh_replay = False, fh_replay_next = False, bh_seq = 0,
     bh_is_store = False, bh_store_id = 0, bh_spec_val = False, bh_spec = 0, bh_branch_mask = 0 \<rparr>"

definition issue_selector :: "issue_select_in \<Rightarrow> issue_select_out" where
  "issue_selector i =
     (let m = is_peek_msg i; valid = msg_valid (rm_hdr m); data = rm_execution_data m
      in if \<not> valid \<or> (valid \<and> ed_op_class data \<noteq> pattern OpClass ''OP_CLASS_MEM'')
         then \<lparr> is_normal_rdy = is_peek_rdy i, is_normal_msg = m, is_mem_rdy = False, is_mem_msg = zero_rename zero_hdr,
                is_in_take = is_normal_take i \<rparr>
         else if mem_msg_func (ed_pipe_msg data) = pattern MemFunc ''MEM_FUNC_LOAD''
         then \<lparr> is_normal_rdy = False, is_normal_msg = zero_rename zero_hdr, is_mem_rdy = is_peek_rdy i, is_mem_msg = m,
                is_in_take = is_mem_take i \<rparr>
         else let rdy = is_peek_rdy i \<and> is_normal_can_take i \<and> is_mem_can_take i
              in \<lparr> is_normal_rdy = rdy, is_normal_msg = m\<lparr>rm_rs1_val := False\<rparr>, is_mem_rdy = rdy,
                   is_mem_msg = m\<lparr>rm_rs2_val := False\<rparr>, is_in_take = is_mem_take i \<rparr>)"


section \<open>The ALU pipe\<close>

definition alu_op_map :: "(4 word \<times> 4 word) list" where
  "alu_op_map = [
     (pattern AluFunc ''ALU_FUNC_ADD'', ALU_ADD), (pattern AluFunc ''ALU_FUNC_SUB'', ALU_SUB),
     (pattern AluFunc ''ALU_FUNC_AND'', ALU_AND), (pattern AluFunc ''ALU_FUNC_OR'', ALU_OR),
     (pattern AluFunc ''ALU_FUNC_XOR'', ALU_XOR), (pattern AluFunc ''ALU_FUNC_SLL'', ALU_SLL),
     (pattern AluFunc ''ALU_FUNC_SRL'', ALU_SRL), (pattern AluFunc ''ALU_FUNC_SRA'', ALU_SRA),
     (pattern AluFunc ''ALU_FUNC_SLT'', ALU_SLT), (pattern AluFunc ''ALU_FUNC_AUIPC'', ALU_ADD),
     (pattern AluFunc ''ALU_FUNC_LUI'', ALU_OR)]"

definition alu_stage :: "dispatch_msg \<Rightarrow> execute_msg" where
  "alu_stage m =
     (let p = ed_pipe_msg (dx_execution_data m);
          func = alu_msg_func p; op32 = alu_msg_op32 p; usign = alu_msg_unsigned p;
          src1_32 = ucast (dx_rs1 m) :: 32 word; src2_32 = ucast (dx_rs2 m) :: 32 word;
          shift = (func = pattern AluFunc ''ALU_FUNC_SLL'' \<or> func = pattern AluFunc ''ALU_FUNC_SRL'' \<or>
                   func = pattern AluFunc ''ALU_FUNC_SRA'');
          (src1, src2) =
            (if op32
             then (let (src1, src2) =
                         (if usign \<or> func = pattern AluFunc ''ALU_FUNC_SRL'' then (ucast src1_32, ucast src2_32)
                          else (scast src1_32, scast src2_32))
                   in (src1, set_slice 5 (of_bool (bit src2 5 \<and> \<not> shift) :: 1 word) src2))
             else if func = pattern AluFunc ''ALU_FUNC_AUIPC'' then (fh_pc (dx_hdr m), dx_rs2 m)
             else if func = pattern AluFunc ''ALU_FUNC_LUI'' then (0, dx_rs2 m)
             else (dx_rs1 m, dx_rs2 m));
          imm_sext = scast (ed_imm (dx_execution_data m)) :: 64 word;
          imm = (if func = pattern AluFunc ''ALU_FUNC_AUIPC'' \<or> func = pattern AluFunc ''ALU_FUNC_LUI''
                 then push_bit 12 imm_sext else imm_sext);
          res = alu_exec (fst (lookup_table alu_op_map func)) src1 (if dx_rs2_val m then src2 else imm) usign;
          res_32 = ucast res :: 32 word;
          res_trunc = (if op32 then (if usign then ucast res_32 else scast res_32) else res)
      in (zero_execute (dx_hdr m))\<lparr>ex_result := res_trunc, ex_rd := dx_rd m, ex_rd_val := dx_rd_val m,
            ex_areg_d := dx_areg_d m\<rparr>)"


section \<open>The branch pipe\<close>

definition branch_op_map :: "(2 word \<times> 2 word) list" where
  "branch_op_map = [
     (pattern BranchType ''BRANCH_TYPE_EQ'', CMP_EQ), (pattern BranchType ''BRANCH_TYPE_NE'', CMP_NE),
     (pattern BranchType ''BRANCH_TYPE_LT'', CMP_LT), (pattern BranchType ''BRANCH_TYPE_GE'', CMP_GE)]"

record branch_calls =
  bc_redirect_call :: bool
  bc_redirect_seq :: "5 word"
  bc_redirect_spec :: "1 word"
  bc_redirect_mask :: "2 word"
  bc_redirect_target :: "64 word"
  bc_redirect_force :: bool
  bc_btb_call :: bool
  bc_btb_key :: "64 word"
  bc_btb_remove :: bool
  bc_btb_value :: "64 word"

definition branch_taken :: "dispatch_msg \<Rightarrow> bool" where
  "branch_taken m =
     (let data = dx_execution_data m; p = ed_pipe_msg data
      in comparator_exec (fst (lookup_table branch_op_map (branch_msg_type p))) (dx_rs1 m) (dx_rs2 m) (branch_msg_unsigned p) \<or>
         ed_op_class data = pattern OpClass ''OP_CLASS_JUMP'')"

definition branch_target :: "dispatch_msg \<Rightarrow> 64 word" where
  "branch_target m =
     (let data = dx_execution_data m;
          imm = scast (ed_imm data) :: 64 word;
          pcimm = fh_pc (dx_hdr m) + imm;
          rs1imm = unset_bit 0 (dx_rs1 m + imm);
          fallthrough = fh_pc (dx_hdr m) + 4
      in if branch_taken m
         then (if ed_op_class data = pattern OpClass ''OP_CLASS_BRANCH'' \<or> \<not> dx_rs1_val m then pcimm else rs1imm)
         else fallthrough)"

definition branch_stage :: "bool \<Rightarrow> dispatch_msg \<Rightarrow> execute_msg \<times> branch_calls" where
  "branch_stage process_call m =
     (let hdr = dx_hdr m; target = branch_target m
      in ((zero_execute hdr)\<lparr>ex_result := fh_pc hdr + 4, ex_rd := dx_rd m, ex_rd_val := dx_rd_val m, ex_areg_d := dx_areg_d m\<rparr>,
          \<lparr> bc_redirect_call = process_call, bc_redirect_seq = bh_seq hdr, bc_redirect_spec = bh_spec hdr,
            bc_redirect_mask = bh_branch_mask hdr, bc_redirect_target = target, bc_redirect_force = False,
            bc_btb_call = process_call, bc_btb_key = fh_pc hdr, bc_btb_remove = (\<not> branch_taken m), bc_btb_value = target \<rparr>))"


section \<open>The CSR pipe\<close>

record csr_request =
  cq_csr :: "12 word"
  cq_op :: "2 word"
  cq_rs1_is_x0 :: bool
  cq_value :: "64 word"
  cq_call :: bool

definition zero_request :: csr_request where
  "zero_request = \<lparr> cq_csr = 0, cq_op = 0, cq_rs1_is_x0 = False, cq_value = 0, cq_call = False \<rparr>"

text \<open>The arguments of \<open>csr_op\<close>.\<close>

definition csr_stage_request :: "bool \<Rightarrow> dispatch_msg \<Rightarrow> csr_request" where
  "csr_stage_request process_call m =
     (let data = dx_execution_data m; p = ed_pipe_msg data
      in if msg_valid (dx_hdr m) \<and> ed_op_class data = pattern OpClass ''OP_CLASS_CSR''
         then \<lparr> cq_csr = csr_msg_csr_num p, cq_op = csr_msg_func p, cq_rs1_is_x0 = csr_msg_rs1_is_x0 p,
                cq_value = (if ed_imm_val data then ucast (ed_imm data) else dx_rs1 m), cq_call = process_call \<rparr>
         else zero_request)"

definition csr_raise :: "backend_hdr \<Rightarrow> 4 word \<Rightarrow> execute_msg \<Rightarrow> execute_msg" where
  "csr_raise hdr mcause out =
     out\<lparr>ex_hdr := hdr\<lparr>fh_status := pattern PipelineMsgStatus ''PIPELINE_MSG_STATUS_EXCEPTION_RAISED''\<rparr>,
         ex_exception_info := \<lparr> ei_mcause = mcause, ei_mtval = 0 \<rparr>\<rparr>"

text \<open>\<open>csr_op_old\<close> and \<open>csr_op_success\<close> are what that call returns. \<open>rd_val_pair\<close> holds \<open>rd_val\<close> and \<open>rd\<close>.\<close>

definition csr_stage :: "64 word \<Rightarrow> bool \<Rightarrow> dispatch_msg \<Rightarrow> execute_msg" where
  "csr_stage csr_op_old csr_op_success m =
     (let data = dx_execution_data m; p = ed_pipe_msg data; hdr = dx_hdr m; out = zero_execute hdr
      in if msg_valid hdr
         then if ed_op_class data = pattern OpClass ''OP_CLASS_CSR''
              then (let out = out\<lparr>ex_rd_val := dx_rd_val m, ex_rd := dx_rd m, ex_areg_d := dx_areg_d m, ex_result := csr_op_old\<rparr>
                    in if \<not> csr_op_success then csr_raise hdr (exception_code ''ILLEGAL_INSTRUCTION'') out else out)
              else let func = system_msg_func p
                   in if func = pattern SystemFunc ''SYSTEM_FUNC_ECALL''
                      then csr_raise hdr (exception_code ''ENVIRONMENT_CALL_FROM_M'') out
                      else if func = pattern SystemFunc ''SYSTEM_FUNC_EBREAK''
                      then csr_raise hdr (exception_code ''BREAKPOINT'') out
                      else if func = pattern SystemFunc ''SYSTEM_FUNC_FENCE_I''
                      then out\<lparr>ex_hdr := hdr\<lparr>fh_fence := True, fh_replay := True, fh_replay_next := True\<rparr>\<rparr>
                      else if func = pattern SystemFunc ''SYSTEM_FUNC_FENCE''
                      then out\<lparr>ex_hdr := hdr\<lparr>fh_fence := True\<rparr>\<rparr>
                      else out
         else out\<lparr>ex_exception_info := dx_exception_info m\<rparr>)"


section \<open>Multiplication and division\<close>

text \<open>The operands of the multiplier as \<open>MultInternal\<close> sets them: the sources with their signs.\<close>

definition mult_inputs :: "dispatch_msg \<Rightarrow> 64 word \<times> bool \<times> 64 word \<times> bool" where
  "mult_inputs m =
     (let p = ed_pipe_msg (dx_execution_data m); variant = m_msg_variant p;
          op32_a = ucast (dx_rs1 m) :: 32 word; op32_b = ucast (dx_rs2 m) :: 32 word
      in (if m_msg_op32 p then scast op32_a else dx_rs1 m,
          \<not> (variant = pattern MVariant ''M_VARIANT_U'' \<or> variant = pattern MVariant ''M_VARIANT_HU''),
          if m_msg_op32 p then scast op32_b else dx_rs2 m,
          variant = pattern MVariant ''M_VARIANT_N'' \<or> variant = pattern MVariant ''M_VARIANT_H''))"

text \<open>The result field carries the message of the instruction while the operation runs.\<close>

definition m_kill_data :: "dispatch_msg \<Rightarrow> execute_msg" where
  "m_kill_data m =
     (zero_execute (dx_hdr m))\<lparr>ex_result := ucast (take_bit 6 (ed_pipe_msg (dx_execution_data m))), ex_rd := dx_rd m,
        ex_rd_val := dx_rd_val m, ex_areg_d := dx_areg_d m\<rparr>"

definition kept_m_msg :: "execute_msg \<Rightarrow> 15 word" where
  "kept_m_msg out = ucast (take_bit 6 (ex_result out))"

definition mult_output :: "128 word \<Rightarrow> execute_msg \<Rightarrow> execute_msg" where
  "mult_output product kill_data =
     (let p = kept_m_msg kill_data; variant = m_msg_variant p; out_32 = ucast product :: 32 word
      in kill_data\<lparr>ex_result :=
           (if m_msg_op32 p then scast out_32
            else if variant = pattern MVariant ''M_VARIANT_N'' \<or> variant = pattern MVariant ''M_VARIANT_U'' then ucast product
            else get_slice 64 product)\<rparr>)"

definition div_inputs :: "dispatch_msg \<Rightarrow> 64 word \<times> 64 word \<times> bool" where
  "div_inputs m =
     (let p = ed_pipe_msg (dx_execution_data m); is_signed = (m_msg_variant p = pattern MVariant ''M_VARIANT_N'');
          rs1_32 = ucast (dx_rs1 m) :: 32 word; rs2_32 = ucast (dx_rs2 m) :: 32 word
      in if m_msg_op32 p
         then (if is_signed then (scast rs1_32, scast rs2_32, is_signed) else (ucast rs1_32, ucast rs2_32, is_signed))
         else (dx_rs1 m, dx_rs2 m, is_signed))"

definition div_output :: "64 word \<Rightarrow> 64 word \<Rightarrow> execute_msg \<Rightarrow> execute_msg" where
  "div_output result_quotient result_rem kept =
     (let p = kept_m_msg kept;
          res = (if m_msg_func p = pattern MFunc ''M_FUNC_REM'' then result_rem else result_quotient);
          res_32 = ucast res :: 32 word
      in kept\<lparr>ex_result := (if m_msg_op32 p then scast res_32 else res)\<rparr>)"

text \<open>\<open>MPipe\<close>: the input goes to the unit its function names; a ready divider has priority at the output.\<close>

record m_pipe_in =
  mp_in_peek_rdy :: bool
  mp_in_peek_msg :: dispatch_msg
  mp_mult_in_take :: bool
  mp_div_in_take :: bool
  mp_mult_peek :: "execute_msg option"
  mp_div_peek :: "execute_msg option"
  mp_take_call :: bool

record m_pipe_out =
  mp_mult_in_rdy :: bool
  mp_div_in_rdy :: bool
  mp_in_take_call :: bool
  mp_peek :: "execute_msg option"
  mp_mult_take :: bool
  mp_div_take :: bool

definition m_pipe :: "m_pipe_in \<Rightarrow> m_pipe_out" where
  "m_pipe i =
     (let is_mul = (m_msg_func (ed_pipe_msg (dx_execution_data (mp_in_peek_msg i))) = pattern MFunc ''M_FUNC_MUL'');
          div_rdy = (mp_div_peek i \<noteq> None)
      in \<lparr> mp_mult_in_rdy = (is_mul \<and> mp_in_peek_rdy i), mp_div_in_rdy = (\<not> is_mul \<and> mp_in_peek_rdy i),
           mp_in_take_call = (if is_mul then mp_mult_in_take i else mp_div_in_take i),
           mp_peek = (if div_rdy then mp_div_peek i else mp_mult_peek i),
           mp_mult_take = (\<not> div_rdy \<and> mp_take_call i), mp_div_take = (div_rdy \<and> mp_take_call i) \<rparr>)"


section \<open>The memory pipe\<close>

text \<open>\<open>MemData\<close> enters the data of a store.\<close>

definition mem_data :: "bool \<Rightarrow> dispatch_msg \<Rightarrow> bool \<times> 2 word \<times> 64 word" where
  "mem_data in_peek_rdy m = (in_peek_rdy, bh_store_id (dx_hdr m), dx_rs2 m)"

definition mem_addr :: "dispatch_msg \<Rightarrow> 64 word" where
  "mem_addr m = dx_rs1 m + scast (ed_imm (dx_execution_data m))"

definition mem_len :: "dispatch_msg \<Rightarrow> 4 word" where
  "mem_len m = push_bit (unat (mem_msg_width (ed_pipe_msg (dx_execution_data m)))) 1"

definition is_load :: "dispatch_msg \<Rightarrow> bool" where
  "is_load m \<longleftrightarrow> mem_msg_func (ed_pipe_msg (dx_execution_data m)) = pattern MemFunc ''MEM_FUNC_LOAD''"

record mem_request_calls =
  mr_load_call :: bool
  mr_store_call :: bool
  mr_store_id :: "2 word"
  mr_addr :: "64 word"
  mr_size :: "4 word"

definition mem_request_stage :: "bool \<Rightarrow> bool \<Rightarrow> bool \<Rightarrow> dispatch_msg \<Rightarrow> dispatch_msg \<times> bool \<times> mem_request_calls" where
  "mem_request_stage process_call store_pending send_load_rdy m =
     (let can_send = (if is_load m then \<not> store_pending \<and> send_load_rdy else True)
      in (m, can_send,
          \<lparr> mr_load_call = (is_load m \<and> can_send \<and> process_call), mr_store_call = (\<not> is_load m \<and> can_send \<and> process_call),
            mr_store_id = bh_store_id (dx_hdr m), mr_addr = mem_addr m, mr_size = mem_len m \<rparr>))"

definition load_result :: "dispatch_msg \<Rightarrow> 64 word \<Rightarrow> 64 word" where
  "load_result m data =
     (let p = ed_pipe_msg (dx_execution_data m); width = mem_msg_width p;
          data_b = ucast data :: 8 word; data_h = ucast data :: 16 word; data_w = ucast data :: 32 word
      in if mem_msg_func p = pattern MemFunc ''MEM_FUNC_STORE'' then 0
         else if mem_msg_unsigned p
         then (if width = 0 then ucast data_b else if width = 1 then ucast data_h else ucast data_w)
         else (if width = 0 then scast data_b else if width = 1 then scast data_h
               else if width = 2 then scast data_w else data))"

text \<open>The message, whether it is accepted, and whether \<open>recv_load\<close> is called.\<close>

definition mem_response_stage :: "bool \<Rightarrow> bool \<Rightarrow> 64 word \<Rightarrow> dispatch_msg \<Rightarrow> execute_msg \<times> bool \<times> bool" where
  "mem_response_stage process_call recv_load_rdy recv_load_data m =
     ((zero_execute (dx_hdr m))\<lparr>ex_result := load_result m recv_load_data, ex_rd := dx_rd m, ex_rd_val := dx_rd_val m,
        ex_areg_d := dx_areg_d m\<rparr>,
      if is_load m then recv_load_rdy else True,
      process_call \<and> is_load m)"

text \<open>The adapters of the killable wrapper: the branch mask is what a kill may change.\<close>

definition mem_split :: "dispatch_msg \<Rightarrow> dispatch_msg \<times> 2 word" where
  "mem_split m = (m, bh_branch_mask (dx_hdr m))"

definition mem_fuse :: "execute_msg \<Rightarrow> 2 word \<Rightarrow> execute_msg" where
  "mem_fuse internal_out kill_data = internal_out\<lparr>ex_hdr := (ex_hdr internal_out)\<lparr>bh_branch_mask := kill_data\<rparr>\<rparr>"


section \<open>Forwarding and writeback\<close>

record forward_call =
  fw_call :: bool
  fw_tag :: "6 word"
  fw_value :: "64 word"

text \<open>What a stage forwards in the cycle it computes the result, and what its buffer forwards later.\<close>

definition stage_forward :: "bool \<Rightarrow> bool \<Rightarrow> execute_msg \<Rightarrow> forward_call" where
  "stage_forward process_call process_accepted out =
     \<lparr> fw_call = (process_call \<and> process_accepted \<and> msg_valid (ex_hdr out) \<and> ex_rd_val out),
       fw_tag = ex_rd out, fw_value = ex_result out \<rparr>"

definition forwarder :: "forward_call \<Rightarrow> bool \<Rightarrow> execute_msg \<Rightarrow> forward_call" where
  "forwarder in_forward in_peek_rdy in_peek_msg =
     (if fw_call in_forward then in_forward
      else \<lparr> fw_call = (in_peek_rdy \<and> msg_valid (ex_hdr in_peek_msg) \<and> ex_rd_val in_peek_msg),
             fw_tag = ex_rd in_peek_msg, fw_value = ex_result in_peek_msg \<rparr>)"

text \<open>The message and the write of the data flow manager.\<close>

definition writeback_stage :: "bool \<Rightarrow> execute_msg \<Rightarrow> writeback_msg \<times> forward_call" where
  "writeback_stage process_call m =
     (if msg_valid (ex_hdr m)
      then ((zero_writeback (ex_hdr m))\<lparr>wb_rd_val := ex_rd_val m, wb_rd := ex_rd m, wb_areg_d := ex_areg_d m\<rparr>,
            \<lparr> fw_call = (ex_rd_val m \<and> process_call), fw_tag = ex_rd m, fw_value = ex_result m \<rparr>)
      else ((zero_writeback (ex_hdr m))\<lparr>wb_exception_info := ex_exception_info m\<rparr>,
            \<lparr> fw_call = False, fw_tag = 0, fw_value = 0 \<rparr>))"

end
