(* ===== verification/Decode_Match.thy ===== *)
theory Decode_Match
  imports Frontend Isa_Roundtrip
begin

text \<open>
  Lemmas that bring the instruction table and the decoders to the same form: a row of the table matches, and
  a decoder accepts, when some slices of the instruction have given values.
\<close>

section \<open>Matching by slices\<close>

text \<open>A mask that is a union of slices compares the slices.\<close>

definition slices_mask :: "slice list \<Rightarrow> 'a::len word" where
  "slices_mask sls = foldr (\<lambda>sl m. push_bit (fst sl) (mask (slice_len sl)) OR m) sls 0"

lemma and_slice_eq:
  assumes "snd sl \<le> LENGTH('a)"
  shows "w AND push_bit (fst sl) (mask (slice_len sl)) = v AND push_bit (fst sl) (mask (slice_len sl)) \<longleftrightarrow>
         cut sl w = cut sl (v :: 'a::len word)"
proof
  assume eq: "w AND push_bit (fst sl) (mask (slice_len sl)) = v AND push_bit (fst sl) (mask (slice_len sl))"
  have "bit w (fst sl + n) = bit v (fst sl + n)" if "n < slice_len sl" for n
    using arg_cong [OF eq, of "\<lambda>x. bit x (fst sl + n)"] that assms
    by (auto simp: bit_simps slice_len_def dest: bit_imp_le_length)
  then show "cut sl w = cut sl v" by (intro bit_word_eqI) (auto simp: bit_cut)
next
  assume eq: "cut sl w = cut sl v"
  have "bit w n = bit v n" if "fst sl \<le> n" "n < snd sl" for n
    using arg_cong [OF eq, of "\<lambda>x. bit x (n - fst sl)"] that by (simp add: bit_cut slice_len_def diff_less_mono)
  then show "w AND push_bit (fst sl) (mask (slice_len sl)) = v AND push_bit (fst sl) (mask (slice_len sl))"
    by (intro bit_word_eqI) (auto simp: bit_simps slice_len_def)
qed

lemma and_or_eq: "w AND (x OR y) = v AND (x OR y) \<longleftrightarrow> w AND x = v AND x \<and> w AND y = v AND y" for w :: "'a::len word"
  by (auto simp: bit_eq_iff bit_simps)

lemma and_slices_eq:
  "list_all (\<lambda>sl. snd sl \<le> LENGTH('a)) sls \<Longrightarrow>
   w AND slices_mask sls = v AND slices_mask sls \<longleftrightarrow> list_all (\<lambda>sl. cut sl w = cut sl v) sls" for w v :: "'a::len word"
  by (induction sls) (simp_all add: slices_mask_def and_or_eq and_slice_eq)

lemma masks_of_slices:
  "0x7F = (slices_mask [RV_OPCODE] :: 32 word)"
  "0x707F = (slices_mask [RV_OPCODE, RV_FUNCT3] :: 32 word)"
  "0xFE00707F = (slices_mask [RV_OPCODE, RV_FUNCT3, RV_FUNCT7] :: 32 word)"
  "0xFC00707F = (slices_mask [RV_OPCODE, RV_FUNCT3, RV_FUNCT7_SHFT64] :: 32 word)"
  "0xF00FFFFF = (slices_mask [RV_OPCODE, RV_RD, RV_FUNCT3, RV_RS1, RV_FENCE_UPPER] :: 32 word)"
  "0xFFFFFFFF = (slices_mask [RV_OPCODE, RV_RD, RV_FUNCT3, RV_RS1, RV_RS2, RV_FUNCT7] :: 32 word)"
  by (simp_all add: slices_mask_def rv_inst_mask_defs slice_len_def mask_numeral push_bit_eq_mult)

text \<open>The slices of an instruction the decoders look at.\<close>

abbreviation "inst_opcode w \<equiv> uint (cut RV_OPCODE (w :: 32 word))"
abbreviation "inst_funct3 w \<equiv> uint (cut RV_FUNCT3 (w :: 32 word))"
abbreviation "inst_funct7 w \<equiv> uint (cut RV_FUNCT7 (w :: 32 word))"
abbreviation "inst_funct6 w \<equiv> uint (cut RV_FUNCT7_SHFT64 (w :: 32 word))"

lemma uint_cut: "uint (cut sl w) = uint w div 2 ^ fst sl mod 2 ^ slice_len sl" for w :: "'a::len word"
  unfolding cut_def unsigned_take_bit_eq unsigned_drop_bit_eq by (simp add: take_bit_eq_mod drop_bit_eq_div flip: uint_mod_distrib)

lemma slice_values:
  "fst RV_OPCODE = 0" "slice_len RV_OPCODE = 7" "fst RV_FUNCT3 = 12" "slice_len RV_FUNCT3 = 3"
  "fst RV_FUNCT7 = 25" "slice_len RV_FUNCT7 = 7" "fst RV_FUNCT7_SHFT64 = 26" "slice_len RV_FUNCT7_SHFT64 = 6"
  "fst RV_RD = 7" "slice_len RV_RD = 5" "fst RV_RS1 = 15" "slice_len RV_RS1 = 5" "fst RV_RS2 = 20" "slice_len RV_RS2 = 5"
  "fst RV_FENCE_UPPER = 28" "slice_len RV_FENCE_UPPER = 4"
  by (simp_all add: slice_len_def rv_inst_mask_defs)

text \<open>The slices of a literal.\<close>

lemma cut_literal:
  "uint (cut sl (numeral n :: 32 word)) = numeral n mod 2 ^ 32 div 2 ^ fst sl mod 2 ^ slice_len sl"
  unfolding uint_cut uint_numeral by simp

lemma matches_slices:
  assumes "list_all (\<lambda>sl. snd sl \<le> 32) sls" "m = slices_mask sls"
  shows "matches (row n a s m b) w \<longleftrightarrow> b AND m = b \<and> list_all (\<lambda>sl. uint (cut sl w) = uint (cut sl b)) sls"
proof -
  have "w AND m = b \<longleftrightarrow> b AND m = b \<and> w AND m = b AND m" by (metis and.assoc and.idem)
  also have "w AND m = b AND m \<longleftrightarrow> list_all (\<lambda>sl. uint (cut sl w) = uint (cut sl b)) sls"
    unfolding assms(2) word_uint_eq_iff [of "cut sl w" "cut sl b" for sl, symmetric]
    using assms(1) by (intro and_slices_eq) simp
  finally show ?thesis by (simp add: matches_def)
qed

lemma matches_rows:
  "matches (row n a s 0x0000007F b) w \<longleftrightarrow> b AND 0x7F = b \<and> inst_opcode w = inst_opcode b"
  "matches (row n a s 0x0000707F b) w \<longleftrightarrow>
     b AND 0x707F = b \<and> inst_opcode w = inst_opcode b \<and> inst_funct3 w = inst_funct3 b"
  "matches (row n a s 0xFE00707F b) w \<longleftrightarrow>
     b AND 0xFE00707F = b \<and> inst_opcode w = inst_opcode b \<and> inst_funct3 w = inst_funct3 b \<and> inst_funct7 w = inst_funct7 b"
  "matches (row n a s 0xFC00707F b) w \<longleftrightarrow>
     b AND 0xFC00707F = b \<and> inst_opcode w = inst_opcode b \<and> inst_funct3 w = inst_funct3 b \<and> inst_funct6 w = inst_funct6 b"
  "matches (row n a s 0xF00FFFFF b) w \<longleftrightarrow>
     b AND 0xF00FFFFF = b \<and> inst_opcode w = inst_opcode b \<and> uint (cut RV_RD w) = uint (cut RV_RD b) \<and>
     inst_funct3 w = inst_funct3 b \<and> uint (cut RV_RS1 w) = uint (cut RV_RS1 b) \<and>
     uint (cut RV_FENCE_UPPER w) = uint (cut RV_FENCE_UPPER b)"
  "matches (row n a s 0xFFFFFFFF b) w \<longleftrightarrow>
     b AND 0xFFFFFFFF = b \<and> inst_opcode w = inst_opcode b \<and> uint (cut RV_RD w) = uint (cut RV_RD b) \<and> inst_funct3 w = inst_funct3 b \<and>
     uint (cut RV_RS1 w) = uint (cut RV_RS1 b) \<and> uint (cut RV_RS2 w) = uint (cut RV_RS2 b) \<and> inst_funct7 w = inst_funct7 b"
  using matches_slices [OF _ masks_of_slices(1), of n a s b w] matches_slices [OF _ masks_of_slices(2), of n a s b w]
    matches_slices [OF _ masks_of_slices(3), of n a s b w] matches_slices [OF _ masks_of_slices(4), of n a s b w]
    matches_slices [OF _ masks_of_slices(5), of n a s b w] matches_slices [OF _ masks_of_slices(6), of n a s b w]
  by (simp_all add: rv_inst_mask_defs)

section \<open>What the decoders accept\<close>

lemma opcode_values [simp]:
  "opcode ''LOAD'' = 3" "opcode ''MISC_MEM'' = 15" "opcode ''OP_IMM'' = 19" "opcode ''AUIPC'' = 23"
  "opcode ''OP_IMM_32'' = 27" "opcode ''STORE'' = 35" "opcode ''OP'' = 51" "opcode ''LUI'' = 55" "opcode ''OP_32'' = 59"
  "opcode ''BRANCH'' = 99" "opcode ''JALR'' = 103" "opcode ''JAL'' = 111" "opcode ''SYSTEM'' = 115"
  by (simp_all add: opcode_def opcodes_def)

lemma cut_take [simp]: "take_bit (slice_len sl) (uint (cut sl w)) = uint (cut sl w)" for w :: "'a::len word"
  by (simp add: uint_cut flip: take_bit_eq_mod)

lemma cut_less: "uint (cut sl w) < 2 ^ slice_len sl" for w :: "'a::len word"
  by (simp add: uint_cut)

lemma merge_pair:
  "0 \<le> x \<Longrightarrow> x < 2 ^ n \<Longrightarrow> 0 \<le> c \<Longrightarrow> c < 2 ^ n \<Longrightarrow> x + 2 ^ n * y = c + 2 ^ n * d \<longleftrightarrow> x = c \<and> y = (d :: int)"
  by (metis add_right_cancel div_mult_self2 div_pos_pos_trivial mod_mult_self2 mod_pos_pos_trivial mult.commute
      less_le_not_le)

text \<open>A decoder succeeds when the fixed fields have their values and some row of its table is selected.\<close>

definition selects :: "slice list \<Rightarrow> 32 word \<Rightarrow> int list \<Rightarrow> bool" where
  "selects fl w key \<longleftrightarrow> list_all2 (\<lambda>sl v. uint (cut sl w) = v) fl key"

definition key_fits :: "slice list \<Rightarrow> int list \<Rightarrow> bool" where
  "key_fits fl key \<longleftrightarrow> list_all2 (\<lambda>sl v. 0 \<le> v \<and> v < 2 ^ slice_len sl) fl key"

abbreviation merged :: "slice list \<Rightarrow> int list \<Rightarrow> int" where
  "merged fl key \<equiv> merge_fields (zip (map slice_len fl) key)"

lemma merged_key:
  "key_fits fl key \<Longrightarrow>
   merge_fields (map (\<lambda>sl. (slice_len sl, uint (cut sl w))) fl) = merged fl key \<longleftrightarrow> selects fl w key"
proof (induction fl arbitrary: key)
  case (Cons sl fl)
  then obtain v vs where v: "key = v # vs" "0 \<le> v" "v < 2 ^ slice_len sl" "key_fits fl vs"
    by (cases key) (auto simp: key_fits_def)
  then have "take_bit (slice_len sl) v = v" by (simp add: take_bit_eq_mod)
  then show ?case
    using merge_pair [of "uint (cut sl w)" "slice_len sl" v] Cons.IH [OF v(4)] v(1-3) cut_less [of sl w]
    by (simp add: selects_def)
qed (simp add: key_fits_def selects_def)

definition table_ok :: "slice list \<Rightarrow> (int list \<times> 'd) list \<Rightarrow> bool" where
  "table_ok fl rows \<longleftrightarrow> list_all (key_fits fl \<circ> fst) rows \<and> distinct (map (merged fl \<circ> fst) rows)"

fun selected :: "slice list \<Rightarrow> 32 word \<Rightarrow> (int list \<times> 'd) list \<Rightarrow> 'd option" where
  "selected fl w [] = None"
| "selected fl w ((key, out) # rows) = (if selects fl w key then Some out else selected fl w rows)"

lemma lookup_selected:
  assumes "table_ok fl rows"
  shows "lookup_table (map (\<lambda>(key, out). (merged fl key, out)) rows) (merge_fields (map (\<lambda>sl. (slice_len sl, uint (cut sl w))) fl)) =
         (case selected fl w rows of Some out \<Rightarrow> (out, True) | None \<Rightarrow> (0, False))"
proof -
  have "map_of (map (\<lambda>(key, out). (merged fl key, out)) rows) (merge_fields (map (\<lambda>sl. (slice_len sl, uint (cut sl w))) fl)) =
      selected fl w rows"
    using assms by (induction fl w rows rule: selected.induct) (auto simp: table_ok_def merged_key)
  then show ?thesis
    using assms by (subst lookup_table_rtl_eq_fl) (simp_all add: lookup_table_fl_def table_ok_def comp_def case_prod_unfold)
qed

lemma and_op_snoc: "and_op (xs @ [b]) \<longleftrightarrow> list_all (\<lambda>x. x) xs \<and> b"
  by (simp add: and_rtl_eq_fl and_fl_def)

definition fixed_match :: "(slice \<times> int) list \<Rightarrow> 32 word \<Rightarrow> bool" where
  "fixed_match fixed w \<longleftrightarrow> list_all (\<lambda>(sl, v). uint (cut sl w) = v) fixed"

lemma fixed_match_simps [simp]:
  "fixed_match [] w" "fixed_match ((sl, v) # fixed) w \<longleftrightarrow> uint (cut sl w) = v \<and> fixed_match fixed w"
  by (simp_all add: fixed_match_def)

definition decoded :: "sub_decode \<Rightarrow> string \<Rightarrow> 15 word \<Rightarrow> sub_decode" where
  "decoded flags cls payload = flags\<lparr>sd_success := True, sd_op_class := pattern OpClass cls, sd_result := payload\<rparr>"

definition chosen :: "slice list \<Rightarrow> (int list \<times> 'd) list \<Rightarrow> 'd \<Rightarrow> 32 word \<Rightarrow> 'd option" where
  "chosen fl rows d w = (if fl = [] then Some d else selected fl w rows)"

lemma gen_decoder_chosen:
  assumes "fl = [] \<or> table_ok fl rows"
  shows "gen_decoder flags cls fixed fl rows d gen w =
    (let out = gen w (case chosen fl rows d w of Some out \<Rightarrow> out | None \<Rightarrow> 0)
     in flags\<lparr>sd_success := snd out \<and> fixed_match fixed w \<and> chosen fl rows d w \<noteq> None,
              sd_op_class := pattern OpClass cls, sd_result := fst out\<rparr>)"
proof -
  have fixed: "list_all (\<lambda>x. x) (map (\<lambda>(sl, v). equals (uint (cut sl w)) v) fixed) = fixed_match fixed w"
    by (simp add: fixed_match_def list_all_iff equals_def case_prod_unfold)
  have lookup: "(if fl \<noteq> []
      then lookup_table (map (\<lambda>(key, out). (merged fl key, out)) rows) (merge_fields (map (\<lambda>sl. (slice_len sl, uint (cut sl w))) fl))
      else (d, True)) = (case chosen fl rows d w of Some out \<Rightarrow> (out, True) | None \<Rightarrow> (0, False))"
    using assms by (auto simp: chosen_def lookup_selected)
  show ?thesis
    unfolding gen_decoder_def Let_def lookup
    by (cases "chosen fl rows d w") (simp_all add: and_op_snoc fixed [unfolded case_prod_unfold] case_prod_unfold)
qed

lemma decoder_accepts:
  assumes "fl = [] \<or> table_ok fl rows"
  shows "sd_success (gen_decoder flags cls fixed fl rows d gen w) \<longleftrightarrow>
      fixed_match fixed w \<and> (\<exists>out. chosen fl rows d w = Some out \<and> snd (gen w out))"
    and "sd_success (gen_decoder flags cls fixed fl rows d gen w) \<Longrightarrow>
      gen_decoder flags cls fixed fl rows d gen w = decoded flags cls (fst (gen w (the (chosen fl rows d w))))"
  unfolding gen_decoder_chosen [OF assms] by (auto simp: Let_def decoded_def)

lemma fixed_decoder_accepts:
  assumes "fl = [] \<or> table_ok fl rows"
  shows "sd_success (gen_decoder_fixed flags cls fixed fl rows d w) \<longleftrightarrow>
      fixed_match fixed w \<and> (\<exists>out. chosen fl rows d w = Some out)"
    and "sd_success (gen_decoder_fixed flags cls fixed fl rows d w) \<Longrightarrow>
      gen_decoder_fixed flags cls fixed fl rows d w = decoded flags cls (ucast (the (chosen fl rows d w)))"
  using decoder_accepts [OF assms, of flags cls fixed d identity_payload w]
  by (simp_all add: gen_decoder_fixed_def identity_payload_def)

lemma composite_accepts:
  "ds \<noteq> [] \<Longrightarrow> sd_success (composite_decoder ds w) \<longleftrightarrow> (\<exists>d \<in> set ds. sd_success (d w))"
  by (induction ds w rule: composite_decoder.induct) (auto simp: binary_composite_decoder_def)

lemma composite_unique:
  "d \<in> set ds \<Longrightarrow> sd_success (d w) \<Longrightarrow> list_all (\<lambda>e. sd_success (e w) \<longrightarrow> e w = d w) ds \<Longrightarrow>
   composite_decoder ds w = d w"
  by (induction ds w rule: composite_decoder.induct) (auto simp: binary_composite_decoder_def composite_accepts)

text \<open>A nested composition is the composition of its members.\<close>

lemma composite_nested:
  "ds \<noteq> [] \<Longrightarrow> composite_decoder (composite_decoder ds # es) w = composite_decoder (ds @ es) w"
proof (induction ds w rule: composite_decoder.induct)
  case (1 d w)
  then show ?case by (cases es) (simp_all add: binary_composite_decoder_def)
next
  case (2 d e ds w)
  then show ?case
    by (cases es; cases "sd_success (composite_decoder (e # ds) w)") (simp_all add: binary_composite_decoder_def)
qed simp

lemma chosen_ex:
  "(\<exists>out. chosen fl rows d w = Some out) \<longleftrightarrow> fl = [] \<or> list_ex (\<lambda>(key, out). selects fl w key) rows"
proof -
  have "(\<exists>out. selected fl w rows = Some out) \<longleftrightarrow> list_ex (\<lambda>(key, out). selects fl w key) rows"
    by (induction rows) auto
  then show ?thesis by (simp add: chosen_def)
qed

end
