(* ===== verification/Decode_Accepts.thy ===== *)
theory Decode_Accepts
  imports Decode_Match
begin

text \<open>
  What each decoder accepts as conditions on slices of the instruction, and that the composed decoder accepts
  what the base table of the instruction set lists.
\<close>

section \<open>What the decoders accept\<close>

lemmas table_checks = table_ok_def key_fits_def slice_values

lemmas accept_simps = fixed_decoder_accepts(1) decoder_accepts(1) chosen_ex selects_def table_checks

lemma op_accepts: "sd_success (op_decoder w) \<longleftrightarrow> inst_opcode w = 51 \<and>
   (inst_funct7 w = 0 \<and> inst_funct3 w \<in> {0, 1, 2, 3, 4, 5, 6, 7} \<or> inst_funct7 w = 32 \<and> inst_funct3 w \<in> {0, 5})"
  unfolding op_decoder_def by (auto simp: accept_simps)

lemma op32_accepts: "sd_success (op32_decoder w) \<longleftrightarrow> inst_opcode w = 59 \<and>
   (inst_funct7 w = 0 \<and> inst_funct3 w \<in> {0, 1, 5} \<or> inst_funct7 w = 32 \<and> inst_funct3 w \<in> {0, 5})"
  unfolding op32_decoder_def by (auto simp: accept_simps)

lemma op_imm_accepts: "sd_success (op_imm_decoder w) \<longleftrightarrow> inst_opcode w = 19 \<and> inst_funct3 w \<in> {0, 2, 3, 4, 6, 7}"
  unfolding op_imm_decoder_def by (auto simp: accept_simps)

lemma op_imm_shift_accepts: "sd_success (op_imm_shift_decoder w) \<longleftrightarrow> inst_opcode w = 19 \<and>
   (inst_funct6 w = 0 \<and> inst_funct3 w \<in> {1, 5} \<or> inst_funct6 w = 16 \<and> inst_funct3 w = 5)"
  unfolding op_imm_shift_decoder_def by (auto simp: accept_simps)

lemma op_imm32_accepts: "sd_success (op_imm32_decoder w) \<longleftrightarrow> inst_opcode w = 27 \<and> inst_funct3 w = 0"
  unfolding op_imm32_decoder_def by (auto simp: accept_simps)

lemma op_imm32_shift_accepts: "sd_success (op_imm32_shift_decoder w) \<longleftrightarrow> inst_opcode w = 27 \<and>
   (inst_funct7 w = 0 \<and> inst_funct3 w \<in> {1, 5} \<or> inst_funct7 w = 32 \<and> inst_funct3 w = 5)"
  unfolding op_imm32_shift_decoder_def by (auto simp: accept_simps)

lemma misc_accepts: "sd_success (misc_decoder w) \<longleftrightarrow> inst_opcode w \<in> {55, 23}"
  unfolding misc_decoder_def by (auto simp: accept_simps)

lemma csr_payload_valid [simp]: "snd (csr_msg_payload x0 w d)"
  by (simp add: csr_msg_payload_def)

lemma csr_r_accepts: "sd_success (csr_r_decoder w) \<longleftrightarrow> inst_opcode w = 115 \<and> inst_funct3 w \<in> {1, 2, 3}"
  unfolding csr_r_decoder_def by (auto simp: accept_simps)

lemma csr_i_accepts: "sd_success (csr_i_decoder w) \<longleftrightarrow> inst_opcode w = 115 \<and> inst_funct3 w \<in> {5, 6, 7}"
  unfolding csr_i_decoder_def by (auto simp: accept_simps)

lemma branch_accepts: "sd_success (branch_decoder w) \<longleftrightarrow> inst_opcode w = 99 \<and> inst_funct3 w \<in> {0, 1, 4, 5, 6, 7}"
  unfolding branch_decoder_def by (auto simp: accept_simps)

lemma jal_accepts: "sd_success (jal_decoder w) \<longleftrightarrow> inst_opcode w = 111"
  unfolding jal_decoder_def by (auto simp: accept_simps)

lemma jalr_accepts: "sd_success (jalr_decoder w) \<longleftrightarrow> inst_opcode w = 103 \<and> inst_funct3 w = 0"
  unfolding jalr_decoder_def by (auto simp: accept_simps)

lemma funct3_slice: "uint (get_slice (fst RV_FUNCT3) w :: 3 word) = inst_funct3 w"
  by (simp add: get_slice_def cut_def slice_values unsigned_ucast_eq unsigned_take_bit_eq)

lemma funct3_range: "inst_funct3 w \<in> {0, 1, 2, 3, 4, 5, 6, 7}"
proof -
  have "x \<in> {0, 1, 2, 3, 4, 5, 6, 7}" if "0 \<le> x" "x < 8" for x :: int using that by auto
  then show ?thesis using cut_less [of RV_FUNCT3 w] by (simp add: slice_values)
qed

lemma funct3_bits:
  "bit (get_slice (fst RV_FUNCT3) w :: 3 word) 2 \<longleftrightarrow> 4 \<le> inst_funct3 w"
  "(get_slice 0 (get_slice (fst RV_FUNCT3) w :: 3 word) :: 2 word) = 3 \<longleftrightarrow> inst_funct3 w \<in> {3, 7}"
proof -
  let ?f = "get_slice (fst RV_FUNCT3) w :: 3 word"
  have "uint ?f \<in> {0, 1, 2, 3, 4, 5, 6, 7}" using funct3_range [of w] by (simp only: funct3_slice)
  then have "?f \<in> {0, 1, 2, 3, 4, 5, 6, 7}" by (simp add: word_uint_eq_iff)
  moreover have "inst_funct3 w = uint ?f" by (rule funct3_slice [symmetric])
  ultimately show "bit ?f 2 \<longleftrightarrow> 4 \<le> inst_funct3 w" "(get_slice 0 ?f :: 2 word) = 3 \<longleftrightarrow> inst_funct3 w \<in> {3, 7}"
    by (auto simp: get_slice_def)
qed

lemma load_accepts: "sd_success (load_decoder w) \<longleftrightarrow> inst_opcode w = 3 \<and> inst_funct3 w \<in> {0, 1, 2, 3, 4, 5, 6}"
  using funct3_range [of w] unfolding load_decoder_def
  by (auto simp: accept_simps(2) chosen_def mem_msg_payload_def Let_def funct3_bits)

lemma store_accepts: "sd_success (store_decoder w) \<longleftrightarrow> inst_opcode w = 35 \<and> inst_funct3 w \<in> {0, 1, 2, 3}"
  using funct3_range [of w] unfolding store_decoder_def
  by (auto simp: accept_simps(2) chosen_def mem_msg_payload_def Let_def funct3_bits)

lemma m_op_accepts: "sd_success (m_op_decoder w) \<longleftrightarrow>
   inst_opcode w = 51 \<and> inst_funct7 w = 1 \<and> inst_funct3 w \<in> {0, 1, 2, 3, 4, 5, 6, 7}"
  unfolding m_op_decoder_def by (auto simp: accept_simps)

lemma m_op32_accepts: "sd_success (m_op32_decoder w) \<longleftrightarrow>
   inst_opcode w = 59 \<and> inst_funct7 w = 1 \<and> inst_funct3 w \<in> {0, 4, 5, 6, 7}"
  unfolding m_op32_decoder_def by (auto simp: accept_simps)

abbreviation "no_operands w \<equiv> uint (cut RV_RD (w :: 32 word)) = 0 \<and> uint (cut RV_RS1 w) = 0"

lemma system_call_accepts: "sd_success (system_call_decoder w) \<longleftrightarrow> inst_opcode w = 115 \<and> no_operands w \<and>
   inst_funct3 w = 0 \<and> inst_funct7 w = 0 \<and> uint (cut RV_RS2 w) \<in> {0, 1}"
  unfolding system_call_decoder_def by (auto simp: accept_simps)

lemma fence_accepts: "sd_success (fence_decoder w) \<longleftrightarrow> inst_opcode w = 15 \<and> no_operands w \<and>
   inst_funct3 w = 0 \<and> uint (cut RV_FENCE_UPPER w) = 0"
  unfolding fence_decoder_def by (auto simp: accept_simps)

lemma fence_i_accepts: "sd_success (fence_i_decoder w) \<longleftrightarrow> inst_opcode w = 15 \<and> no_operands w \<and>
   inst_funct3 w = 1 \<and> uint (cut RV_RS2 w) = 0 \<and> inst_funct7 w = 0"
  unfolding fence_i_decoder_def by (auto simp: accept_simps)

lemmas decoder_accepts_iff = op_accepts op32_accepts op_imm_accepts op_imm_shift_accepts op_imm32_accepts
  op_imm32_shift_accepts misc_accepts csr_r_accepts csr_i_accepts branch_accepts jal_accepts jalr_accepts load_accepts
  store_accepts m_op_accepts m_op32_accepts system_call_accepts fence_accepts fence_i_accepts

text \<open>The whole decoder.\<close>

lemmas composed_defs = composed_decoder_def alu_decoder_def csr_decoder_def jump_decoder_def mem_decoder_def m_decoder_def
  system_decoder_def

definition flat_decoders :: "(32 word \<Rightarrow> sub_decode) list" where
  "flat_decoders = [op_decoder, op32_decoder, op_imm_decoder, op_imm32_decoder, op_imm_shift_decoder,
     op_imm32_shift_decoder, misc_decoder, csr_r_decoder, csr_i_decoder, branch_decoder, jal_decoder, jalr_decoder,
     load_decoder, store_decoder, m_op_decoder, m_op32_decoder, system_call_decoder, fence_decoder, fence_i_decoder]"

lemma composed_flat: "composed_decoder w = composite_decoder flat_decoders w"
  unfolding composed_defs flat_decoders_def
  by (simp add: composite_nested binary_composite_decoder_def)

lemma composed_accepts: "sd_success (composed_decoder w) \<longleftrightarrow> list_ex (\<lambda>d. sd_success (d w)) flat_decoders"
  unfolding composed_flat by (subst composite_accepts) (simp_all add: flat_decoders_def)

lemma decodes_only:
  "sd_success (op_decoder w) \<Longrightarrow> composed_decoder w = op_decoder w"
  "sd_success (op32_decoder w) \<Longrightarrow> composed_decoder w = op32_decoder w"
  "sd_success (op_imm_decoder w) \<Longrightarrow> composed_decoder w = op_imm_decoder w"
  "sd_success (op_imm32_decoder w) \<Longrightarrow> composed_decoder w = op_imm32_decoder w"
  "sd_success (op_imm_shift_decoder w) \<Longrightarrow> composed_decoder w = op_imm_shift_decoder w"
  "sd_success (op_imm32_shift_decoder w) \<Longrightarrow> composed_decoder w = op_imm32_shift_decoder w"
  "sd_success (misc_decoder w) \<Longrightarrow> composed_decoder w = misc_decoder w"
  "sd_success (csr_r_decoder w) \<Longrightarrow> composed_decoder w = csr_r_decoder w"
  "sd_success (csr_i_decoder w) \<Longrightarrow> composed_decoder w = csr_i_decoder w"
  "sd_success (branch_decoder w) \<Longrightarrow> composed_decoder w = branch_decoder w"
  "sd_success (jal_decoder w) \<Longrightarrow> composed_decoder w = jal_decoder w"
  "sd_success (jalr_decoder w) \<Longrightarrow> composed_decoder w = jalr_decoder w"
  "sd_success (load_decoder w) \<Longrightarrow> composed_decoder w = load_decoder w"
  "sd_success (store_decoder w) \<Longrightarrow> composed_decoder w = store_decoder w"
  "sd_success (m_op_decoder w) \<Longrightarrow> composed_decoder w = m_op_decoder w"
  "sd_success (m_op32_decoder w) \<Longrightarrow> composed_decoder w = m_op32_decoder w"
  "sd_success (system_call_decoder w) \<Longrightarrow> composed_decoder w = system_call_decoder w"
  "sd_success (fence_decoder w) \<Longrightarrow> composed_decoder w = fence_decoder w"
  "sd_success (fence_i_decoder w) \<Longrightarrow> composed_decoder w = fence_i_decoder w"
  unfolding composed_flat
  by (rule composite_unique, simp add: flat_decoders_def, assumption, force simp: flat_decoders_def decoder_accepts_iff)+

section \<open>Acceptance\<close>

lemma opcode_split:
  assumes "\<And>k. k \<in> {3, 15, 19, 23, 27, 35, 51, 55, 59, 99, 103, 111, 115} \<Longrightarrow> x = k \<Longrightarrow> P"
    and "x \<notin> {3, 15, 19, 23, 27, 35, 51, 55, 59, 99, 103, 111, 115} \<Longrightarrow> P"
  shows P
  using assms by blast

lemma accepts_rows: "sd_success (composed_decoder w) \<longleftrightarrow> list_ex (\<lambda>r. is_name r \<noteq> ''invld'' \<and> matches r w) base_rows"
  unfolding composed_accepts flat_decoders_def list_ex_Nil_iff list_ex_Cons_iff decoder_accepts_iff base_rows_def matches_rows
    row_simps
  by (simp add: cut_literal slice_values, rule opcode_split [of "inst_opcode w"],
      simp only: insert_iff empty_iff, elim disjE, simp_all, argo+)

end
