(* ===== verification/Decode_Payloads.thy ===== *)
theory Decode_Payloads
  imports Backend Decode_Accepts
begin

text \<open>
  What the decoder hands to the pipes: for each instruction the flags, the class and the payload, and the fields a
  pipe reads from that payload.
\<close>

section \<open>Payloads\<close>

lemma bit_ucast_get: "bit (ucast (x :: 'a::len word) :: 'b::len word) n \<longleftrightarrow> n < LENGTH('b) \<and> bit x n"
  by (simp add: bit_simps)

lemma alu_msg_fields:
  "alu_msg_func (ucast (alu_msg f u o32)) = pattern AluFunc f"
  "alu_msg_op32 (ucast (alu_msg f u o32)) = o32"
  "alu_msg_unsigned (ucast (alu_msg f u o32)) = u"
  by (rule bit_word_eqI; auto simp: alu_msg_func_def bit_get_slice bit_simps alu_msg_def bit_set_slice)
     (auto simp: alu_msg_op32_def alu_msg_unsigned_def bit_simps alu_msg_def bit_set_slice)

lemma m_msg_fields:
  "m_msg_func (ucast (m_msg f v o32)) = pattern MFunc f"
  "m_msg_variant (ucast (m_msg f v o32)) = pattern MVariant v"
  "m_msg_op32 (ucast (m_msg f v o32)) = o32"
  by ((rule bit_word_eqI; auto simp: m_msg_func_def m_msg_variant_def bit_get_slice bit_simps m_msg_def bit_set_slice)+)
     (auto simp: m_msg_op32_def bit_simps m_msg_def bit_set_slice)

lemma branch_msg_fields:
  "branch_msg_type (ucast (branch_msg t u)) = pattern BranchType t"
  "branch_msg_unsigned (ucast (branch_msg t u)) = u"
  by (rule bit_word_eqI; auto simp: branch_msg_type_def bit_get_slice bit_simps branch_msg_def bit_set_slice)
     (auto simp: branch_msg_unsigned_def bit_simps branch_msg_def bit_set_slice)

lemma system_msg_fields: "system_msg_func (ucast (system_msg f)) = pattern SystemFunc f"
  by (rule bit_word_eqI; auto simp: system_msg_func_def bit_get_slice bit_simps system_msg_def bit_set_slice)

lemma alu_op_lookup:
  "fst (lookup_table alu_op_map 0) = ALU_ADD" "fst (lookup_table alu_op_map 1) = ALU_SUB"
  "fst (lookup_table alu_op_map 2) = ALU_SLL" "fst (lookup_table alu_op_map 3) = ALU_SLT"
  "fst (lookup_table alu_op_map 4) = ALU_XOR" "fst (lookup_table alu_op_map 5) = ALU_SRL"
  "fst (lookup_table alu_op_map 6) = ALU_SRA" "fst (lookup_table alu_op_map 7) = ALU_OR"
  "fst (lookup_table alu_op_map 8) = ALU_AND" "fst (lookup_table alu_op_map 9) = ALU_OR"
  "fst (lookup_table alu_op_map 10) = ALU_ADD"
  by (simp_all add: lookup_table_rtl_eq_fl lookup_table_fl_def alu_op_map_def)

lemma branch_op_lookup:
  "fst (lookup_table branch_op_map 0) = CMP_EQ" "fst (lookup_table branch_op_map 1) = CMP_NE"
  "fst (lookup_table branch_op_map 2) = CMP_LT" "fst (lookup_table branch_op_map 3) = CMP_GE"
  by (simp_all add: lookup_table_rtl_eq_fl lookup_table_fl_def branch_op_map_def)


lemma decoded_fixed:
  assumes "sd_success (gen_decoder_fixed flags cls fixed fl rows d w)" "fl = [] \<or> table_ok fl rows"
  shows "gen_decoder_fixed flags cls fixed fl rows d w = decoded flags cls (ucast (the (chosen fl rows d w)))"
  using fixed_decoder_accepts(2) [OF assms(2,1)] .

lemma decodes_op:
  "inst_opcode w = 51 \<Longrightarrow> inst_funct7 w = 0 \<Longrightarrow> inst_funct3 w = 0 \<Longrightarrow>
    composed_decoder w = decoded (decoder_flags\<lparr>sd_rs1_val := True, sd_rs2_val := True, sd_rd_val := True\<rparr>) ''OP_CLASS_ALU'' (ucast (alu_msg ''ALU_FUNC_ADD'' False False))"
  "inst_opcode w = 51 \<Longrightarrow> inst_funct7 w = 32 \<Longrightarrow> inst_funct3 w = 0 \<Longrightarrow>
    composed_decoder w = decoded (decoder_flags\<lparr>sd_rs1_val := True, sd_rs2_val := True, sd_rd_val := True\<rparr>) ''OP_CLASS_ALU'' (ucast (alu_msg ''ALU_FUNC_SUB'' False False))"
  "inst_opcode w = 51 \<Longrightarrow> inst_funct7 w = 0 \<Longrightarrow> inst_funct3 w = 1 \<Longrightarrow>
    composed_decoder w = decoded (decoder_flags\<lparr>sd_rs1_val := True, sd_rs2_val := True, sd_rd_val := True\<rparr>) ''OP_CLASS_ALU'' (ucast (alu_msg ''ALU_FUNC_SLL'' False False))"
  "inst_opcode w = 51 \<Longrightarrow> inst_funct7 w = 0 \<Longrightarrow> inst_funct3 w = 2 \<Longrightarrow>
    composed_decoder w = decoded (decoder_flags\<lparr>sd_rs1_val := True, sd_rs2_val := True, sd_rd_val := True\<rparr>) ''OP_CLASS_ALU'' (ucast (alu_msg ''ALU_FUNC_SLT'' False False))"
  "inst_opcode w = 51 \<Longrightarrow> inst_funct7 w = 0 \<Longrightarrow> inst_funct3 w = 3 \<Longrightarrow>
    composed_decoder w = decoded (decoder_flags\<lparr>sd_rs1_val := True, sd_rs2_val := True, sd_rd_val := True\<rparr>) ''OP_CLASS_ALU'' (ucast (alu_msg ''ALU_FUNC_SLT'' True False))"
  "inst_opcode w = 51 \<Longrightarrow> inst_funct7 w = 0 \<Longrightarrow> inst_funct3 w = 4 \<Longrightarrow>
    composed_decoder w = decoded (decoder_flags\<lparr>sd_rs1_val := True, sd_rs2_val := True, sd_rd_val := True\<rparr>) ''OP_CLASS_ALU'' (ucast (alu_msg ''ALU_FUNC_XOR'' False False))"
  "inst_opcode w = 51 \<Longrightarrow> inst_funct7 w = 0 \<Longrightarrow> inst_funct3 w = 5 \<Longrightarrow>
    composed_decoder w = decoded (decoder_flags\<lparr>sd_rs1_val := True, sd_rs2_val := True, sd_rd_val := True\<rparr>) ''OP_CLASS_ALU'' (ucast (alu_msg ''ALU_FUNC_SRL'' False False))"
  "inst_opcode w = 51 \<Longrightarrow> inst_funct7 w = 32 \<Longrightarrow> inst_funct3 w = 5 \<Longrightarrow>
    composed_decoder w = decoded (decoder_flags\<lparr>sd_rs1_val := True, sd_rs2_val := True, sd_rd_val := True\<rparr>) ''OP_CLASS_ALU'' (ucast (alu_msg ''ALU_FUNC_SRA'' False False))"
  "inst_opcode w = 51 \<Longrightarrow> inst_funct7 w = 0 \<Longrightarrow> inst_funct3 w = 6 \<Longrightarrow>
    composed_decoder w = decoded (decoder_flags\<lparr>sd_rs1_val := True, sd_rs2_val := True, sd_rd_val := True\<rparr>) ''OP_CLASS_ALU'' (ucast (alu_msg ''ALU_FUNC_OR'' False False))"
  "inst_opcode w = 51 \<Longrightarrow> inst_funct7 w = 0 \<Longrightarrow> inst_funct3 w = 7 \<Longrightarrow>
    composed_decoder w = decoded (decoder_flags\<lparr>sd_rs1_val := True, sd_rs2_val := True, sd_rd_val := True\<rparr>) ''OP_CLASS_ALU'' (ucast (alu_msg ''ALU_FUNC_AND'' False False))"
  by (subst decodes_only, (simp add: decoder_accepts_iff; fail), subst op_decoder_def, subst decoded_fixed,
      (simp add: accept_simps; fail), (simp add: table_checks; fail), simp add: chosen_def selects_def)+

lemma decodes_op32:
  "inst_opcode w = 59 \<Longrightarrow> inst_funct7 w = 0 \<Longrightarrow> inst_funct3 w = 0 \<Longrightarrow>
    composed_decoder w = decoded (decoder_flags\<lparr>sd_rs1_val := True, sd_rs2_val := True, sd_rd_val := True\<rparr>) ''OP_CLASS_ALU'' (ucast (alu_msg ''ALU_FUNC_ADD'' False True))"
  "inst_opcode w = 59 \<Longrightarrow> inst_funct7 w = 32 \<Longrightarrow> inst_funct3 w = 0 \<Longrightarrow>
    composed_decoder w = decoded (decoder_flags\<lparr>sd_rs1_val := True, sd_rs2_val := True, sd_rd_val := True\<rparr>) ''OP_CLASS_ALU'' (ucast (alu_msg ''ALU_FUNC_SUB'' False True))"
  "inst_opcode w = 59 \<Longrightarrow> inst_funct7 w = 0 \<Longrightarrow> inst_funct3 w = 1 \<Longrightarrow>
    composed_decoder w = decoded (decoder_flags\<lparr>sd_rs1_val := True, sd_rs2_val := True, sd_rd_val := True\<rparr>) ''OP_CLASS_ALU'' (ucast (alu_msg ''ALU_FUNC_SLL'' False True))"
  "inst_opcode w = 59 \<Longrightarrow> inst_funct7 w = 0 \<Longrightarrow> inst_funct3 w = 5 \<Longrightarrow>
    composed_decoder w = decoded (decoder_flags\<lparr>sd_rs1_val := True, sd_rs2_val := True, sd_rd_val := True\<rparr>) ''OP_CLASS_ALU'' (ucast (alu_msg ''ALU_FUNC_SRL'' False True))"
  "inst_opcode w = 59 \<Longrightarrow> inst_funct7 w = 32 \<Longrightarrow> inst_funct3 w = 5 \<Longrightarrow>
    composed_decoder w = decoded (decoder_flags\<lparr>sd_rs1_val := True, sd_rs2_val := True, sd_rd_val := True\<rparr>) ''OP_CLASS_ALU'' (ucast (alu_msg ''ALU_FUNC_SRA'' False True))"
  by (subst decodes_only, (simp add: decoder_accepts_iff; fail), subst op32_decoder_def, subst decoded_fixed,
      (simp add: accept_simps; fail), (simp add: table_checks; fail), simp add: chosen_def selects_def)+

lemma decodes_op_imm:
  "inst_opcode w = 19 \<Longrightarrow> inst_funct3 w = 0 \<Longrightarrow>
    composed_decoder w = decoded (imm_flags ''IMM_TYPE_I'' (decoder_flags\<lparr>sd_rs1_val := True, sd_rd_val := True\<rparr>)) ''OP_CLASS_ALU'' (ucast (alu_msg ''ALU_FUNC_ADD'' False False))"
  "inst_opcode w = 19 \<Longrightarrow> inst_funct3 w = 2 \<Longrightarrow>
    composed_decoder w = decoded (imm_flags ''IMM_TYPE_I'' (decoder_flags\<lparr>sd_rs1_val := True, sd_rd_val := True\<rparr>)) ''OP_CLASS_ALU'' (ucast (alu_msg ''ALU_FUNC_SLT'' False False))"
  "inst_opcode w = 19 \<Longrightarrow> inst_funct3 w = 3 \<Longrightarrow>
    composed_decoder w = decoded (imm_flags ''IMM_TYPE_I'' (decoder_flags\<lparr>sd_rs1_val := True, sd_rd_val := True\<rparr>)) ''OP_CLASS_ALU'' (ucast (alu_msg ''ALU_FUNC_SLT'' True False))"
  "inst_opcode w = 19 \<Longrightarrow> inst_funct3 w = 4 \<Longrightarrow>
    composed_decoder w = decoded (imm_flags ''IMM_TYPE_I'' (decoder_flags\<lparr>sd_rs1_val := True, sd_rd_val := True\<rparr>)) ''OP_CLASS_ALU'' (ucast (alu_msg ''ALU_FUNC_XOR'' False False))"
  "inst_opcode w = 19 \<Longrightarrow> inst_funct3 w = 6 \<Longrightarrow>
    composed_decoder w = decoded (imm_flags ''IMM_TYPE_I'' (decoder_flags\<lparr>sd_rs1_val := True, sd_rd_val := True\<rparr>)) ''OP_CLASS_ALU'' (ucast (alu_msg ''ALU_FUNC_OR'' False False))"
  "inst_opcode w = 19 \<Longrightarrow> inst_funct3 w = 7 \<Longrightarrow>
    composed_decoder w = decoded (imm_flags ''IMM_TYPE_I'' (decoder_flags\<lparr>sd_rs1_val := True, sd_rd_val := True\<rparr>)) ''OP_CLASS_ALU'' (ucast (alu_msg ''ALU_FUNC_AND'' False False))"
  by (subst decodes_only, (simp add: decoder_accepts_iff; fail), subst op_imm_decoder_def, subst decoded_fixed,
      (simp add: accept_simps; fail), (simp add: table_checks; fail), simp add: chosen_def selects_def)+

lemma decodes_op_imm_shift:
  "inst_opcode w = 19 \<Longrightarrow> inst_funct6 w = 0 \<Longrightarrow> inst_funct3 w = 1 \<Longrightarrow>
    composed_decoder w = decoded (imm_flags ''IMM_TYPE_SHAMT64'' (decoder_flags\<lparr>sd_rs1_val := True, sd_rd_val := True\<rparr>)) ''OP_CLASS_ALU'' (ucast (alu_msg ''ALU_FUNC_SLL'' False False))"
  "inst_opcode w = 19 \<Longrightarrow> inst_funct6 w = 0 \<Longrightarrow> inst_funct3 w = 5 \<Longrightarrow>
    composed_decoder w = decoded (imm_flags ''IMM_TYPE_SHAMT64'' (decoder_flags\<lparr>sd_rs1_val := True, sd_rd_val := True\<rparr>)) ''OP_CLASS_ALU'' (ucast (alu_msg ''ALU_FUNC_SRL'' False False))"
  "inst_opcode w = 19 \<Longrightarrow> inst_funct6 w = 16 \<Longrightarrow> inst_funct3 w = 5 \<Longrightarrow>
    composed_decoder w = decoded (imm_flags ''IMM_TYPE_SHAMT64'' (decoder_flags\<lparr>sd_rs1_val := True, sd_rd_val := True\<rparr>)) ''OP_CLASS_ALU'' (ucast (alu_msg ''ALU_FUNC_SRA'' False False))"
  by (subst decodes_only, (simp add: decoder_accepts_iff; fail), subst op_imm_shift_decoder_def, subst decoded_fixed,
      (simp add: accept_simps; fail), (simp add: table_checks; fail), simp add: chosen_def selects_def)+

lemma decodes_op_imm32:
  "inst_opcode w = 27 \<Longrightarrow> inst_funct3 w = 0 \<Longrightarrow>
    composed_decoder w = decoded (imm_flags ''IMM_TYPE_I'' (decoder_flags\<lparr>sd_rs1_val := True, sd_rd_val := True\<rparr>)) ''OP_CLASS_ALU'' (ucast (alu_msg ''ALU_FUNC_ADD'' False True))"
  by (subst decodes_only, (simp add: decoder_accepts_iff; fail), subst op_imm32_decoder_def, subst decoded_fixed,
      (simp add: accept_simps; fail), (simp add: table_checks; fail), simp add: chosen_def selects_def)+

lemma decodes_op_imm32_shift:
  "inst_opcode w = 27 \<Longrightarrow> inst_funct7 w = 0 \<Longrightarrow> inst_funct3 w = 1 \<Longrightarrow>
    composed_decoder w = decoded (imm_flags ''IMM_TYPE_SHAMT64'' (decoder_flags\<lparr>sd_rs1_val := True, sd_rd_val := True\<rparr>)) ''OP_CLASS_ALU'' (ucast (alu_msg ''ALU_FUNC_SLL'' False True))"
  "inst_opcode w = 27 \<Longrightarrow> inst_funct7 w = 0 \<Longrightarrow> inst_funct3 w = 5 \<Longrightarrow>
    composed_decoder w = decoded (imm_flags ''IMM_TYPE_SHAMT64'' (decoder_flags\<lparr>sd_rs1_val := True, sd_rd_val := True\<rparr>)) ''OP_CLASS_ALU'' (ucast (alu_msg ''ALU_FUNC_SRL'' False True))"
  "inst_opcode w = 27 \<Longrightarrow> inst_funct7 w = 32 \<Longrightarrow> inst_funct3 w = 5 \<Longrightarrow>
    composed_decoder w = decoded (imm_flags ''IMM_TYPE_SHAMT64'' (decoder_flags\<lparr>sd_rs1_val := True, sd_rd_val := True\<rparr>)) ''OP_CLASS_ALU'' (ucast (alu_msg ''ALU_FUNC_SRA'' False True))"
  by (subst decodes_only, (simp add: decoder_accepts_iff; fail), subst op_imm32_shift_decoder_def, subst decoded_fixed,
      (simp add: accept_simps; fail), (simp add: table_checks; fail), simp add: chosen_def selects_def)+

lemma decodes_misc:
  "inst_opcode w = 55 \<Longrightarrow>
    composed_decoder w = decoded (imm_flags ''IMM_TYPE_U'' (decoder_flags\<lparr>sd_rd_val := True\<rparr>)) ''OP_CLASS_ALU'' (ucast (alu_msg ''ALU_FUNC_LUI'' False False))"
  "inst_opcode w = 23 \<Longrightarrow>
    composed_decoder w = decoded (imm_flags ''IMM_TYPE_U'' (decoder_flags\<lparr>sd_rd_val := True\<rparr>)) ''OP_CLASS_ALU'' (ucast (alu_msg ''ALU_FUNC_AUIPC'' False False))"
  by (subst decodes_only, (simp add: decoder_accepts_iff; fail), subst misc_decoder_def, subst decoded_fixed,
      (simp add: accept_simps; fail), (simp add: table_checks; fail), simp add: chosen_def selects_def)+

lemma decodes_branch:
  "inst_opcode w = 99 \<Longrightarrow> inst_funct3 w = 0 \<Longrightarrow>
    composed_decoder w = decoded (imm_flags ''IMM_TYPE_B'' (decoder_flags\<lparr>sd_speculative := True, sd_rs1_val := True, sd_rs2_val := True\<rparr>)) ''OP_CLASS_BRANCH'' (ucast (branch_msg ''BRANCH_TYPE_EQ'' False))"
  "inst_opcode w = 99 \<Longrightarrow> inst_funct3 w = 1 \<Longrightarrow>
    composed_decoder w = decoded (imm_flags ''IMM_TYPE_B'' (decoder_flags\<lparr>sd_speculative := True, sd_rs1_val := True, sd_rs2_val := True\<rparr>)) ''OP_CLASS_BRANCH'' (ucast (branch_msg ''BRANCH_TYPE_NE'' False))"
  "inst_opcode w = 99 \<Longrightarrow> inst_funct3 w = 4 \<Longrightarrow>
    composed_decoder w = decoded (imm_flags ''IMM_TYPE_B'' (decoder_flags\<lparr>sd_speculative := True, sd_rs1_val := True, sd_rs2_val := True\<rparr>)) ''OP_CLASS_BRANCH'' (ucast (branch_msg ''BRANCH_TYPE_LT'' False))"
  "inst_opcode w = 99 \<Longrightarrow> inst_funct3 w = 5 \<Longrightarrow>
    composed_decoder w = decoded (imm_flags ''IMM_TYPE_B'' (decoder_flags\<lparr>sd_speculative := True, sd_rs1_val := True, sd_rs2_val := True\<rparr>)) ''OP_CLASS_BRANCH'' (ucast (branch_msg ''BRANCH_TYPE_GE'' False))"
  "inst_opcode w = 99 \<Longrightarrow> inst_funct3 w = 6 \<Longrightarrow>
    composed_decoder w = decoded (imm_flags ''IMM_TYPE_B'' (decoder_flags\<lparr>sd_speculative := True, sd_rs1_val := True, sd_rs2_val := True\<rparr>)) ''OP_CLASS_BRANCH'' (ucast (branch_msg ''BRANCH_TYPE_LT'' True))"
  "inst_opcode w = 99 \<Longrightarrow> inst_funct3 w = 7 \<Longrightarrow>
    composed_decoder w = decoded (imm_flags ''IMM_TYPE_B'' (decoder_flags\<lparr>sd_speculative := True, sd_rs1_val := True, sd_rs2_val := True\<rparr>)) ''OP_CLASS_BRANCH'' (ucast (branch_msg ''BRANCH_TYPE_GE'' True))"
  by (subst decodes_only, (simp add: decoder_accepts_iff; fail), subst branch_decoder_def, subst decoded_fixed,
      (simp add: accept_simps; fail), (simp add: table_checks; fail), simp add: chosen_def selects_def)+

lemma decodes_m_op:
  "inst_opcode w = 51 \<Longrightarrow> inst_funct7 w = 1 \<Longrightarrow> inst_funct3 w = 0 \<Longrightarrow>
    composed_decoder w = decoded (decoder_flags\<lparr>sd_rs1_val := True, sd_rs2_val := True, sd_rd_val := True\<rparr>) ''OP_CLASS_MUL'' (ucast (m_msg ''M_FUNC_MUL'' ''M_VARIANT_N'' False))"
  "inst_opcode w = 51 \<Longrightarrow> inst_funct7 w = 1 \<Longrightarrow> inst_funct3 w = 1 \<Longrightarrow>
    composed_decoder w = decoded (decoder_flags\<lparr>sd_rs1_val := True, sd_rs2_val := True, sd_rd_val := True\<rparr>) ''OP_CLASS_MUL'' (ucast (m_msg ''M_FUNC_MUL'' ''M_VARIANT_H'' False))"
  "inst_opcode w = 51 \<Longrightarrow> inst_funct7 w = 1 \<Longrightarrow> inst_funct3 w = 2 \<Longrightarrow>
    composed_decoder w = decoded (decoder_flags\<lparr>sd_rs1_val := True, sd_rs2_val := True, sd_rd_val := True\<rparr>) ''OP_CLASS_MUL'' (ucast (m_msg ''M_FUNC_MUL'' ''M_VARIANT_HSU'' False))"
  "inst_opcode w = 51 \<Longrightarrow> inst_funct7 w = 1 \<Longrightarrow> inst_funct3 w = 3 \<Longrightarrow>
    composed_decoder w = decoded (decoder_flags\<lparr>sd_rs1_val := True, sd_rs2_val := True, sd_rd_val := True\<rparr>) ''OP_CLASS_MUL'' (ucast (m_msg ''M_FUNC_MUL'' ''M_VARIANT_HU'' False))"
  "inst_opcode w = 51 \<Longrightarrow> inst_funct7 w = 1 \<Longrightarrow> inst_funct3 w = 4 \<Longrightarrow>
    composed_decoder w = decoded (decoder_flags\<lparr>sd_rs1_val := True, sd_rs2_val := True, sd_rd_val := True\<rparr>) ''OP_CLASS_MUL'' (ucast (m_msg ''M_FUNC_DIV'' ''M_VARIANT_N'' False))"
  "inst_opcode w = 51 \<Longrightarrow> inst_funct7 w = 1 \<Longrightarrow> inst_funct3 w = 5 \<Longrightarrow>
    composed_decoder w = decoded (decoder_flags\<lparr>sd_rs1_val := True, sd_rs2_val := True, sd_rd_val := True\<rparr>) ''OP_CLASS_MUL'' (ucast (m_msg ''M_FUNC_DIV'' ''M_VARIANT_U'' False))"
  "inst_opcode w = 51 \<Longrightarrow> inst_funct7 w = 1 \<Longrightarrow> inst_funct3 w = 6 \<Longrightarrow>
    composed_decoder w = decoded (decoder_flags\<lparr>sd_rs1_val := True, sd_rs2_val := True, sd_rd_val := True\<rparr>) ''OP_CLASS_MUL'' (ucast (m_msg ''M_FUNC_REM'' ''M_VARIANT_N'' False))"
  "inst_opcode w = 51 \<Longrightarrow> inst_funct7 w = 1 \<Longrightarrow> inst_funct3 w = 7 \<Longrightarrow>
    composed_decoder w = decoded (decoder_flags\<lparr>sd_rs1_val := True, sd_rs2_val := True, sd_rd_val := True\<rparr>) ''OP_CLASS_MUL'' (ucast (m_msg ''M_FUNC_REM'' ''M_VARIANT_U'' False))"
  by (subst decodes_only, (simp add: decoder_accepts_iff; fail), subst m_op_decoder_def, subst decoded_fixed,
      (simp add: accept_simps; fail), (simp add: table_checks; fail), simp add: chosen_def selects_def)+

lemma decodes_m_op32:
  "inst_opcode w = 59 \<Longrightarrow> inst_funct7 w = 1 \<Longrightarrow> inst_funct3 w = 0 \<Longrightarrow>
    composed_decoder w = decoded (decoder_flags\<lparr>sd_rs1_val := True, sd_rs2_val := True, sd_rd_val := True\<rparr>) ''OP_CLASS_MUL'' (ucast (m_msg ''M_FUNC_MUL'' ''M_VARIANT_N'' True))"
  "inst_opcode w = 59 \<Longrightarrow> inst_funct7 w = 1 \<Longrightarrow> inst_funct3 w = 4 \<Longrightarrow>
    composed_decoder w = decoded (decoder_flags\<lparr>sd_rs1_val := True, sd_rs2_val := True, sd_rd_val := True\<rparr>) ''OP_CLASS_MUL'' (ucast (m_msg ''M_FUNC_DIV'' ''M_VARIANT_N'' True))"
  "inst_opcode w = 59 \<Longrightarrow> inst_funct7 w = 1 \<Longrightarrow> inst_funct3 w = 5 \<Longrightarrow>
    composed_decoder w = decoded (decoder_flags\<lparr>sd_rs1_val := True, sd_rs2_val := True, sd_rd_val := True\<rparr>) ''OP_CLASS_MUL'' (ucast (m_msg ''M_FUNC_DIV'' ''M_VARIANT_U'' True))"
  "inst_opcode w = 59 \<Longrightarrow> inst_funct7 w = 1 \<Longrightarrow> inst_funct3 w = 6 \<Longrightarrow>
    composed_decoder w = decoded (decoder_flags\<lparr>sd_rs1_val := True, sd_rs2_val := True, sd_rd_val := True\<rparr>) ''OP_CLASS_MUL'' (ucast (m_msg ''M_FUNC_REM'' ''M_VARIANT_N'' True))"
  "inst_opcode w = 59 \<Longrightarrow> inst_funct7 w = 1 \<Longrightarrow> inst_funct3 w = 7 \<Longrightarrow>
    composed_decoder w = decoded (decoder_flags\<lparr>sd_rs1_val := True, sd_rs2_val := True, sd_rd_val := True\<rparr>) ''OP_CLASS_MUL'' (ucast (m_msg ''M_FUNC_REM'' ''M_VARIANT_U'' True))"
  by (subst decodes_only, (simp add: decoder_accepts_iff; fail), subst m_op32_decoder_def, subst decoded_fixed,
      (simp add: accept_simps; fail), (simp add: table_checks; fail), simp add: chosen_def selects_def)+

lemma decodes_system_call:
  "inst_opcode w = 115 \<Longrightarrow> uint (cut RV_RD w) = 0 \<Longrightarrow> uint (cut RV_RS1 w) = 0 \<Longrightarrow> inst_funct3 w = 0 \<Longrightarrow> inst_funct7 w = 0 \<Longrightarrow> uint (cut RV_RS2 w) = 0 \<Longrightarrow>
    composed_decoder w = decoded (decoder_flags) ''OP_CLASS_SYSTEM'' (ucast (system_msg ''SYSTEM_FUNC_ECALL''))"
  "inst_opcode w = 115 \<Longrightarrow> uint (cut RV_RD w) = 0 \<Longrightarrow> uint (cut RV_RS1 w) = 0 \<Longrightarrow> inst_funct3 w = 0 \<Longrightarrow> inst_funct7 w = 0 \<Longrightarrow> uint (cut RV_RS2 w) = 1 \<Longrightarrow>
    composed_decoder w = decoded (decoder_flags) ''OP_CLASS_SYSTEM'' (ucast (system_msg ''SYSTEM_FUNC_EBREAK''))"
  by (subst decodes_only, (simp add: decoder_accepts_iff; fail), subst system_call_decoder_def, subst decoded_fixed,
      (simp add: accept_simps; fail), (simp add: table_checks; fail), simp add: chosen_def selects_def)+

lemma decodes_fence:
  "inst_opcode w = 15 \<Longrightarrow> uint (cut RV_RD w) = 0 \<Longrightarrow> uint (cut RV_RS1 w) = 0 \<Longrightarrow> inst_funct3 w = 0 \<Longrightarrow> uint (cut RV_FENCE_UPPER w) = 0 \<Longrightarrow>
    composed_decoder w = decoded (decoder_flags) ''OP_CLASS_SYSTEM'' (ucast (system_msg ''SYSTEM_FUNC_FENCE''))"
  by (subst decodes_only, (simp add: decoder_accepts_iff; fail), subst fence_decoder_def, subst decoded_fixed,
      (simp add: accept_simps; fail), (simp add: table_checks; fail), simp add: chosen_def selects_def)+

lemma decodes_fence_i:
  "inst_opcode w = 15 \<Longrightarrow> uint (cut RV_RD w) = 0 \<Longrightarrow> uint (cut RV_RS1 w) = 0 \<Longrightarrow> inst_funct3 w = 1 \<Longrightarrow> uint (cut RV_RS2 w) = 0 \<Longrightarrow> inst_funct7 w = 0 \<Longrightarrow>
    composed_decoder w = decoded (decoder_flags) ''OP_CLASS_SYSTEM'' (ucast (system_msg ''SYSTEM_FUNC_FENCE_I''))"
  by (subst decodes_only, (simp add: decoder_accepts_iff; fail), subst fence_i_decoder_def, subst decoded_fixed,
      (simp add: accept_simps; fail), (simp add: table_checks; fail), simp add: chosen_def selects_def)+

lemma decodes_jump:
  "inst_opcode w = 111 \<Longrightarrow>
    composed_decoder w = decoded (imm_flags ''IMM_TYPE_J'' (decoder_flags\<lparr>sd_speculative := True, sd_rd_val := True\<rparr>)) ''OP_CLASS_JUMP'' (ucast (0 :: 1 word))"
  "inst_opcode w = 103 \<Longrightarrow> inst_funct3 w = 0 \<Longrightarrow>
    composed_decoder w = decoded (imm_flags ''IMM_TYPE_I'' (decoder_flags\<lparr>sd_speculative := True, sd_rd_val := True, sd_rs1_val := True\<rparr>)) ''OP_CLASS_JUMP'' (ucast (0 :: 1 word))"
  by (subst decodes_only, (simp add: decoder_accepts_iff; fail), subst jal_decoder_def jalr_decoder_def, subst decoded_fixed,
      (simp add: accept_simps; fail), (simp add: table_checks; fail), simp add: chosen_def selects_def)+

lemma decodes_load:
  "inst_opcode w = 3 \<Longrightarrow> inst_funct3 w \<in> {0, 1, 2, 3, 4, 5, 6} \<Longrightarrow>
    composed_decoder w = decoded (imm_flags ''IMM_TYPE_I'' (decoder_flags\<lparr>sd_rs1_val := True, sd_rd_val := True\<rparr>)) ''OP_CLASS_MEM''
      (fst (mem_msg_payload ''MEM_FUNC_LOAD'' w 0))"
  using decoder_accepts(2) [of "[]" "[]"] load_accepts [of w]
  by (subst decodes_only(13)) (simp_all add: load_decoder_def chosen_def)

lemma decodes_store:
  "inst_opcode w = 35 \<Longrightarrow> inst_funct3 w \<in> {0, 1, 2, 3} \<Longrightarrow>
    composed_decoder w = decoded (imm_flags ''IMM_TYPE_S'' (decoder_flags\<lparr>sd_store := True, sd_rs1_val := True, sd_rs2_val := True\<rparr>)) ''OP_CLASS_MEM''
      (fst (mem_msg_payload ''MEM_FUNC_STORE'' w 0))"
  using decoder_accepts(2) [of "[]" "[]"] store_accepts [of w]
  by (subst decodes_only(14)) (simp_all add: store_decoder_def chosen_def)

lemma mem_payload_fields:
  "mem_msg_func (fst (mem_msg_payload f w d)) = pattern MemFunc f"
  "inst_funct3 w = k \<Longrightarrow> mem_msg_unsigned (fst (mem_msg_payload f w d)) = bit k 2"
  "inst_funct3 w = k \<Longrightarrow> mem_msg_width (fst (mem_msg_payload f w d)) = word_of_int k"
proof -
  show "mem_msg_func (fst (mem_msg_payload f w d)) = pattern MemFunc f"
    by (rule bit_word_eqI) (auto simp: mem_msg_func_def mem_msg_payload_def Let_def bit_get_slice bit_set_slice)
  show "mem_msg_unsigned (fst (mem_msg_payload f w d)) = bit k 2" if "inst_funct3 w = k"
    using that unfolding mem_msg_unsigned_def mem_msg_payload_def Let_def
    by (auto simp: bit_set_slice bit_get_slice bit_cut bit_uint_iff slice_len_def rv_inst_mask_defs)
  show "mem_msg_width (fst (mem_msg_payload f w d)) = word_of_int k" if "inst_funct3 w = k"
    using that unfolding mem_msg_width_def mem_msg_payload_def Let_def
    by (intro bit_word_eqI)
       (auto simp: bit_set_slice bit_get_slice bit_cut bit_uint_iff slice_len_def rv_inst_mask_defs bit_word_of_int_iff)
qed

end
