(* ===== verification/Frontend_Correct.thy ===== *)
theory Frontend_Correct
  imports Decode_Accepts
begin

text \<open>
  The decode stage against the instruction table: what the decoder accepts, which operands it names and which
  immediate it extracts is what the table of \<open>rv64g.py\<close> says.
\<close>

section \<open>Operands\<close>

definition imm_fields :: "(string \<times> bool) list" where
  "imm_fields = [(''i_imm'', True), (''s_imm'', True), (''b_imm'', True), (''u_imm'', True), (''j_imm'', True),
     (''c_imm'', False), (''shamt32'', False), (''shamt64'', False)]"

definition extended_field :: "string \<Rightarrow> bool \<Rightarrow> 32 word \<Rightarrow> 21 word" where
  "extended_field name is_signed w =
     (let f = the (map_of rv64g_fields name); v = field_disassemble f w
      in word_of_int (if is_signed then signed_take_bit (fs_width f - 1) v else v))"

lemmas field_bits_simps = Let_def rv64g_fields_def FieldSpec_slice_def FieldSpec_def bslice_def field_disassemble_def
  bit_word_of_int_iff bit_paste_int bit_cut bit_uint_iff slice_len_def bit_simps bit_get_slice min_def

lemma imm_simple:
  "imm_decode 0 w = extended_field ''i_imm'' True w"
  "imm_decode 3 w = extended_field ''u_imm'' True w"
  "imm_decode 5 w = extended_field ''c_imm'' False w"
  "imm_decode 6 w = extended_field ''shamt32'' False w"
  "imm_decode 7 w = extended_field ''shamt64'' False w"
  unfolding imm_decode_def extended_field_def rv_inst_mask_defs
  by (rule bit_word_eqI; auto simp: field_bits_simps)+

lemma imm_split:
  "imm_decode 1 w = extended_field ''s_imm'' True w"
  "imm_decode 2 w = extended_field ''b_imm'' True w"
  "imm_decode 4 w = extended_field ''j_imm'' True w"
  unfolding imm_decode_def extended_field_def rv_inst_mask_defs
  by (rule bit_word_eqI; auto simp: field_bits_simps)+

text \<open>The word shifts use the six-bit shift amount: its highest bit is zero in what they accept.\<close>

lemma imm_word_shift:
  assumes "inst_funct7 w \<in> {0, 32}"
  shows "imm_decode 7 w = extended_field ''shamt32'' False w"
proof -
  have "\<not> bit (uint (cut RV_FUNCT7 w)) 0" using assms by auto
  then have "\<not> bit w 25" by (simp add: bit_uint_iff bit_cut rv_inst_mask_defs slice_len_def)
  then have "n < 6 \<and> bit w (20 + n) \<longleftrightarrow> n < 5 \<and> bit w (20 + n)" for n by (cases "n = 5") auto
  then have "imm_decode 7 w = imm_decode 6 w"
    unfolding imm_decode_def rv_inst_mask_defs by (intro bit_word_eqI) (auto simp: Let_def bit_simps bit_get_slice)
  then show ?thesis by (simp add: imm_simple)
qed

text \<open>The flags of a decoder do not depend on the instruction.\<close>

lemma decoder_flags_kept [simp]:
  "sd_rs1_val (gen_decoder flags cls fixed fl rows d gen w) = sd_rs1_val flags"
  "sd_rs2_val (gen_decoder flags cls fixed fl rows d gen w) = sd_rs2_val flags"
  "sd_rd_val (gen_decoder flags cls fixed fl rows d gen w) = sd_rd_val flags"
  "sd_imm_val (gen_decoder flags cls fixed fl rows d gen w) = sd_imm_val flags"
  "sd_imm_type (gen_decoder flags cls fixed fl rows d gen w) = sd_imm_type flags"
  by (simp_all add: gen_decoder_def Let_def case_prod_unfold)

lemmas decoder_defs = op_decoder_def op32_decoder_def op_imm_decoder_def op_imm_shift_decoder_def op_imm32_decoder_def
  op_imm32_shift_decoder_def misc_decoder_def csr_r_decoder_def csr_i_decoder_def branch_decoder_def jal_decoder_def
  jalr_decoder_def load_decoder_def store_decoder_def m_op_decoder_def m_op32_decoder_def system_call_decoder_def
  fence_decoder_def fence_i_decoder_def

definition operands_agree :: "string list \<Rightarrow> 32 word \<Rightarrow> sub_decode \<Rightarrow> bool" where
  "operands_agree args w d \<longleftrightarrow>
     sd_rs1_val d = (''rs1'' \<in> set args) \<and> sd_rs2_val d = (''rs2'' \<in> set args) \<and> sd_rd_val d = (''rd'' \<in> set args) \<and>
     sd_imm_val d = list_ex (\<lambda>(name, s). name \<in> set args) imm_fields \<and>
     list_all (\<lambda>(name, s). name \<in> set args \<longrightarrow> imm_decode (sd_imm_type d) w = extended_field name s w) imm_fields"

lemma operands:
  "sd_success (op_decoder w) \<Longrightarrow> operands_agree [''rd'', ''rs1'', ''rs2''] w (composed_decoder w)"
  "sd_success (op32_decoder w) \<Longrightarrow> operands_agree [''rd'', ''rs1'', ''rs2''] w (composed_decoder w)"
  "sd_success (op_imm_decoder w) \<Longrightarrow> operands_agree [''rd'', ''rs1'', ''i_imm''] w (composed_decoder w)"
  "sd_success (op_imm32_decoder w) \<Longrightarrow> operands_agree [''rd'', ''rs1'', ''i_imm''] w (composed_decoder w)"
  "sd_success (op_imm_shift_decoder w) \<Longrightarrow> operands_agree [''rd'', ''rs1'', ''shamt64''] w (composed_decoder w)"
  "sd_success (misc_decoder w) \<Longrightarrow> operands_agree [''rd'', ''u_imm''] w (composed_decoder w)"
  "sd_success (csr_r_decoder w) \<Longrightarrow> operands_agree [''rd'', ''csrnum'', ''rs1''] w (composed_decoder w)"
  "sd_success (csr_i_decoder w) \<Longrightarrow> operands_agree [''rd'', ''csrnum'', ''c_imm''] w (composed_decoder w)"
  "sd_success (branch_decoder w) \<Longrightarrow> operands_agree [''rs1'', ''rs2'', ''b_imm''] w (composed_decoder w)"
  "sd_success (jal_decoder w) \<Longrightarrow> operands_agree [''rd'', ''j_imm''] w (composed_decoder w)"
  "sd_success (jalr_decoder w) \<Longrightarrow> operands_agree [''rd'', ''rs1'', ''i_imm''] w (composed_decoder w)"
  "sd_success (load_decoder w) \<Longrightarrow> operands_agree [''rd'', ''i_imm'', ''rs1''] w (composed_decoder w)"
  "sd_success (store_decoder w) \<Longrightarrow> operands_agree [''rs2'', ''s_imm'', ''rs1''] w (composed_decoder w)"
  "sd_success (m_op_decoder w) \<Longrightarrow> operands_agree [''rd'', ''rs1'', ''rs2''] w (composed_decoder w)"
  "sd_success (m_op32_decoder w) \<Longrightarrow> operands_agree [''rd'', ''rs1'', ''rs2''] w (composed_decoder w)"
  "sd_success (system_call_decoder w) \<Longrightarrow> operands_agree [] w (composed_decoder w)"
  "sd_success (fence_decoder w) \<Longrightarrow> operands_agree [''pred'', ''succ''] w (composed_decoder w)"
  "sd_success (fence_i_decoder w) \<Longrightarrow> operands_agree [] w (composed_decoder w)"
  by (simp_all only: decodes_only)
     (auto simp: operands_agree_def imm_fields_def decoder_defs gen_decoder_fixed_def decoder_flags_def imm_flags_def
       imm_simple imm_split)

lemma operands_word_shift:
  assumes "sd_success (op_imm32_shift_decoder w)"
  shows "operands_agree [''rd'', ''rs1'', ''shamt32''] w (composed_decoder w)"
proof -
  have "imm_decode 7 w = extended_field ''shamt32'' False w"
    using assms by (intro imm_word_shift) (auto simp: decoder_accepts_iff)
  then show ?thesis
    unfolding decodes_only(6) [OF assms]
    by (simp add: operands_agree_def imm_fields_def decoder_defs gen_decoder_fixed_def decoder_flags_def imm_flags_def)
qed

lemma operands_rows:
  "list_all (\<lambda>r. is_name r \<noteq> ''invld'' \<longrightarrow> matches r w \<longrightarrow> operands_agree (is_simple_args r) w (composed_decoder w)) base_rows"
  unfolding base_rows_def list_all_Nil_iff list_all_Cons_iff matches_rows row_simps
  by (simp add: cut_literal slice_values operands operands_word_shift decoder_accepts_iff)


section \<open>Properties\<close>



end
