(* ===== verification/Semantics.thy ===== *)
theory Semantics
  imports Frontend
begin

text \<open>
  The golden model: \<open>lizard/util/arch/semantics.py\<close>. An \<open>execute_\<close> method takes the state and the instruction word,
  from which \<open>operand\<close> disassembles the fields the method names, and returns the state and its packet; \<open>None\<close> is a
  raise. The memory object and its byte access are parameters: the memory of type \<open>'m\<close>, the load of a number of
  bytes as an unsigned value, and the store.
\<close>

section \<open>State\<close>

datatype packet = ProcRedirect "64 word" | ProcException "4 word" | Nothing

record 'm memory_ops =
  mo_load :: "'m \<Rightarrow> 64 word \<Rightarrow> nat \<Rightarrow> int"
  mo_store :: "'m \<Rightarrow> 64 word \<Rightarrow> nat \<Rightarrow> int \<Rightarrow> 'm"

record 'm golden =
  g_pc :: "64 word"
  g_regs :: "5 word \<Rightarrow> 64 word"
  g_csr :: "int \<Rightarrow> 64 word"
  g_mngr2proc :: "64 word list"
  g_proc2mngr :: "64 word list"
  g_mem :: 'm

type_synonym 'm instr_fun = "'m golden \<Rightarrow> 32 word \<Rightarrow> ('m golden \<times> packet) option"

text \<open>\<open>RegisterFile\<close>.\<close>

definition reg_get :: "'m golden \<Rightarrow> 5 word \<Rightarrow> 64 word" where
  "reg_get st idx = (if idx = 0 then 0 else g_regs st idx)"

definition reg_set :: "5 word \<Rightarrow> 64 word \<Rightarrow> 'm golden \<Rightarrow> 'm golden" where
  "reg_set idx v st = (if idx \<noteq> 0 then st\<lparr>g_regs := (g_regs st)(idx := v)\<rparr> else st)"

text \<open>\<open>CsrRegisterFile\<close>: reading the manager register takes from its queue and raises when that is empty.\<close>

definition csr_number :: "string \<Rightarrow> int" where
  "csr_number name = the (map_of csr_registers name)"

definition csr_get :: "int \<Rightarrow> 'm golden \<Rightarrow> (64 word \<times> 'm golden) option" where
  "csr_get idx st =
     (if idx = csr_number ''mngr2proc''
      then (case g_mngr2proc st of [] \<Rightarrow> None | v # vs \<Rightarrow> Some (v, st\<lparr>g_mngr2proc := vs\<rparr>))
      else Some (g_csr st idx, st))"

definition csr_set :: "int \<Rightarrow> 64 word \<Rightarrow> 'm golden \<Rightarrow> 'm golden" where
  "csr_set idx v st =
     (if idx = csr_number ''proc2mngr'' then st\<lparr>g_proc2mngr := g_proc2mngr st @ [v]\<rparr>
      else st\<lparr>g_csr := (g_csr st)(idx := v)\<rparr>)"

text \<open>\<open>RESET_VECTOR\<close>.\<close>

definition golden_reset :: "'m golden \<Rightarrow> 'm golden" where
  "golden_reset st = st\<lparr>g_pc := 0x200\<rparr>"

definition operand :: "string \<Rightarrow> 32 word \<Rightarrow> 'n::len word" where
  "operand name w = word_of_int (field_disassemble (the (map_of rv64g_fields name)) w)"

definition rs1_val :: "'m golden \<Rightarrow> 32 word \<Rightarrow> 64 word" where
  "rs1_val st w = reg_get st (operand ''rs1'' w)"

definition rs2_val :: "'m golden \<Rightarrow> 32 word \<Rightarrow> 64 word" where
  "rs2_val st w = reg_get st (operand ''rs2'' w)"

definition put :: "'m golden \<Rightarrow> 32 word \<Rightarrow> 64 word \<Rightarrow> ('m golden \<times> packet) option" where
  "put st w v = Some (reg_set (operand ''rd'' w) v st, Nothing)"

section \<open>Arithmetic helpers\<close>

definition py_sign :: "int \<Rightarrow> int" where
  "py_sign num = (if num < 0 then -1 else 1)"

definition sane_divide :: "int \<Rightarrow> int \<Rightarrow> nat \<Rightarrow> int" where
  "sane_divide a b bit_len =
     (if b = 0 then -1
      else if a = - (2 ^ (bit_len - 1)) \<and> b = -1 then a
      else (\<bar>a\<bar> div \<bar>b\<bar>) * (py_sign a * py_sign b))"

definition sane_rem :: "int \<Rightarrow> int \<Rightarrow> nat \<Rightarrow> int" where
  "sane_rem a b bit_len =
     (if b = 0 then a
      else if a = - (2 ^ (bit_len - 1)) \<and> b = -1 then 0
      else (\<bar>a\<bar> mod \<bar>b\<bar>) * py_sign a)"

definition augment_u_imm :: "20 word \<Rightarrow> 32 word" where
  "augment_u_imm u_imm = word_cat u_imm (0 :: 12 word)"

section \<open>CSR helpers\<close>

type_synonym 'm csr_op = "int \<Rightarrow> bool \<Rightarrow> 64 word \<Rightarrow> 'm golden \<Rightarrow> 'm golden option"

definition csrrw_op :: "'m csr_op" where
  "csrrw_op csr rs1_is_x0 v st = Some (csr_set csr v st)"

definition csrrs_op :: "'m csr_op" where
  "csrrs_op csr rs1_is_x0 v st =
     (if \<not> rs1_is_x0 then do { (old, st) \<leftarrow> csr_get csr st; Some (csr_set csr (old OR v) st) } else Some st)"

text \<open>\<open>not value\<close> is the truth value: one for zero, zero for every other value.\<close>

definition csrrc_op :: "'m csr_op" where
  "csrrc_op csr rs1_is_x0 v st =
     (if \<not> rs1_is_x0 then do { (old, st) \<leftarrow> csr_get csr st; Some (csr_set csr (old AND of_bool (v = 0)) st) } else Some st)"

definition csr_func :: "'m golden \<Rightarrow> 32 word \<Rightarrow> bool \<Rightarrow> 64 word \<Rightarrow> 'm csr_op \<Rightarrow> ('m golden \<times> packet) option" where
  "csr_func st w rs1_is_x0 v oper =
     (let csr = uint (operand ''csrnum'' w :: 12 word)
      in if csr \<notin> set (map snd csr_registers) then Some (st, ProcException (exception_code ''ILLEGAL_INSTRUCTION''))
         else do { (old, st) \<leftarrow> csr_get csr st;
                   st \<leftarrow> oper csr rs1_is_x0 v (reg_set (operand ''rd'' w) old st);
                   Some (st, Nothing) })"

definition csr_reg_func :: "'m golden \<Rightarrow> 32 word \<Rightarrow> 'm csr_op \<Rightarrow> ('m golden \<times> packet) option" where
  "csr_reg_func st w oper = csr_func st w ((operand ''rs1'' w :: 5 word) = 0) (rs1_val st w) oper"

definition csr_imm_func :: "'m golden \<Rightarrow> 32 word \<Rightarrow> 'm csr_op \<Rightarrow> ('m golden \<times> packet) option" where
  "csr_imm_func st w oper = csr_func st w False (ucast (operand ''rs1'' w :: 5 word)) oper"

section \<open>The methods\<close>

definition execute_add :: "'m instr_fun" where
  "execute_add st w = put st w ((rs1_val st w) + (rs2_val st w))"

definition execute_addw :: "'m instr_fun" where
  "execute_addw st w = put st w (scast ((ucast (rs1_val st w) :: 32 word) + (ucast (rs2_val st w) :: 32 word)))"

definition execute_sub :: "'m instr_fun" where
  "execute_sub st w = put st w ((rs1_val st w) - (rs2_val st w))"

definition execute_subw :: "'m instr_fun" where
  "execute_subw st w = put st w (scast ((ucast (rs1_val st w) :: 32 word) - (ucast (rs2_val st w) :: 32 word)))"

definition execute_sll :: "'m instr_fun" where
  "execute_sll st w = put st w (push_bit (unat (take_bit 6 (rs2_val st w))) (rs1_val st w))"

definition execute_sllw :: "'m instr_fun" where
  "execute_sllw st w = put st w (scast (push_bit (unat (take_bit 5 (ucast (rs2_val st w) :: 32 word))) (ucast (rs1_val st w) :: 32 word)))"

definition execute_slt :: "'m instr_fun" where
  "execute_slt st w = put st w (of_bool (sint (rs1_val st w) < sint (rs2_val st w)))"

definition execute_sltu :: "'m instr_fun" where
  "execute_sltu st w = put st w (of_bool ((rs1_val st w) < (rs2_val st w)))"

definition execute_xor :: "'m instr_fun" where
  "execute_xor st w = put st w ((rs1_val st w) XOR (rs2_val st w))"

definition execute_srl :: "'m instr_fun" where
  "execute_srl st w = put st w (drop_bit (unat (take_bit 6 (rs2_val st w))) (rs1_val st w))"

definition execute_srlw :: "'m instr_fun" where
  "execute_srlw st w = put st w (scast (drop_bit (unat (take_bit 5 (ucast (rs2_val st w) :: 32 word))) (ucast (rs1_val st w) :: 32 word)))"

definition execute_sra :: "'m instr_fun" where
  "execute_sra st w = put st w (word_of_int (drop_bit (unat (take_bit 6 (rs2_val st w))) (sint (rs1_val st w))))"

definition execute_sraw :: "'m instr_fun" where
  "execute_sraw st w = put st w (scast (word_of_int (drop_bit (unat (take_bit 5 (ucast (rs2_val st w) :: 32 word))) (sint (ucast (rs1_val st w) :: 32 word))) :: 32 word))"

definition execute_or :: "'m instr_fun" where
  "execute_or st w = put st w ((rs1_val st w) OR (rs2_val st w))"

definition execute_and :: "'m instr_fun" where
  "execute_and st w = put st w ((rs1_val st w) AND (rs2_val st w))"

definition execute_mul :: "'m instr_fun" where
  "execute_mul st w = put st w ((rs1_val st w) * (rs2_val st w))"

definition execute_mulh :: "'m instr_fun" where
  "execute_mulh st w = do { p \<leftarrow> py_bits 128 (sint (rs1_val st w) * sint (rs2_val st w)); put st w (word_of_int (drop_bit 64 p)) }"

definition execute_mulhsu :: "'m instr_fun" where
  "execute_mulhsu st w = do { p \<leftarrow> py_bits 128 (sint (rs1_val st w) * uint (rs2_val st w)); put st w (word_of_int (drop_bit 64 p)) }"

definition execute_mulhu :: "'m instr_fun" where
  "execute_mulhu st w = do { p \<leftarrow> py_bits 128 (uint (rs1_val st w) * uint (rs2_val st w)); put st w (word_of_int (drop_bit 64 p)) }"

definition execute_mulw :: "'m instr_fun" where
  "execute_mulw st w = put st w (scast (word_of_int (sint (ucast (rs1_val st w) :: 32 word) * sint (ucast (rs2_val st w) :: 32 word)) :: 32 word))"

definition execute_div :: "'m instr_fun" where
  "execute_div st w = do { v \<leftarrow> py_bits 64 (sane_divide (sint (rs1_val st w)) (sint (rs2_val st w)) 64); put st w (word_of_int v) }"

definition execute_divu :: "'m instr_fun" where
  "execute_divu st w = do { v \<leftarrow> py_bits 64 (sane_divide (uint (rs1_val st w)) (uint (rs2_val st w)) 64); put st w (word_of_int v) }"

definition execute_divw :: "'m instr_fun" where
  "execute_divw st w = do { v \<leftarrow> py_bits 32 (sane_divide (sint (ucast (rs1_val st w) :: 32 word)) (sint (ucast (rs2_val st w) :: 32 word)) 32); put st w (scast (word_of_int v :: 32 word)) }"

definition execute_divuw :: "'m instr_fun" where
  "execute_divuw st w = do { v \<leftarrow> py_bits 32 (sane_divide (uint (ucast (rs1_val st w) :: 32 word)) (uint (ucast (rs2_val st w) :: 32 word)) 32); put st w (scast (word_of_int v :: 32 word)) }"

definition execute_rem :: "'m instr_fun" where
  "execute_rem st w = do { v \<leftarrow> py_bits 64 (sane_rem (sint (rs1_val st w)) (sint (rs2_val st w)) 64); put st w (word_of_int v) }"

definition execute_remu :: "'m instr_fun" where
  "execute_remu st w = do { v \<leftarrow> py_bits 64 (sane_rem (uint (rs1_val st w)) (uint (rs2_val st w)) 64); put st w (word_of_int v) }"

definition execute_remw :: "'m instr_fun" where
  "execute_remw st w = do { v \<leftarrow> py_bits 32 (sane_rem (sint (ucast (rs1_val st w) :: 32 word)) (sint (ucast (rs2_val st w) :: 32 word)) 32); put st w (scast (word_of_int v :: 32 word)) }"

definition execute_remuw :: "'m instr_fun" where
  "execute_remuw st w = do { v \<leftarrow> py_bits 32 (sane_rem (uint (ucast (rs1_val st w) :: 32 word)) (uint (ucast (rs2_val st w) :: 32 word)) 32); put st w (scast (word_of_int v :: 32 word)) }"

definition execute_addi :: "'m instr_fun" where
  "execute_addi st w = put st w ((rs1_val st w) + (scast (operand ''i_imm'' w :: 12 word)))"

definition execute_addiw :: "'m instr_fun" where
  "execute_addiw st w = put st w (scast ((ucast (rs1_val st w) :: 32 word) + ucast (scast (operand ''i_imm'' w :: 12 word) :: 64 word)))"

definition execute_slti :: "'m instr_fun" where
  "execute_slti st w = put st w (of_bool (sint (rs1_val st w) < sint (operand ''i_imm'' w :: 12 word)))"

definition execute_sltiu :: "'m instr_fun" where
  "execute_sltiu st w = put st w (of_bool ((rs1_val st w) < (scast (operand ''i_imm'' w :: 12 word))))"

definition execute_xori :: "'m instr_fun" where
  "execute_xori st w = put st w ((rs1_val st w) XOR (scast (operand ''i_imm'' w :: 12 word)))"

definition execute_ori :: "'m instr_fun" where
  "execute_ori st w = put st w ((rs1_val st w) OR (scast (operand ''i_imm'' w :: 12 word)))"

definition execute_andi :: "'m instr_fun" where
  "execute_andi st w = put st w ((rs1_val st w) AND (scast (operand ''i_imm'' w :: 12 word)))"

definition execute_slli :: "'m instr_fun" where
  "execute_slli st w = put st w (push_bit (unat (operand ''shamt64'' w :: 6 word)) (rs1_val st w))"

definition execute_slliw :: "'m instr_fun" where
  "execute_slliw st w = put st w (scast (push_bit (unat (operand ''shamt32'' w :: 5 word)) (ucast (rs1_val st w) :: 32 word)))"

definition execute_srli :: "'m instr_fun" where
  "execute_srli st w = put st w (drop_bit (unat (operand ''shamt64'' w :: 6 word)) (rs1_val st w))"

definition execute_srliw :: "'m instr_fun" where
  "execute_srliw st w = put st w (scast (drop_bit (unat (operand ''shamt32'' w :: 5 word)) (ucast (rs1_val st w) :: 32 word)))"

definition execute_srai :: "'m instr_fun" where
  "execute_srai st w = put st w (word_of_int (drop_bit (unat (operand ''shamt64'' w :: 6 word)) (sint (rs1_val st w))))"

definition execute_sraiw :: "'m instr_fun" where
  "execute_sraiw st w = put st w (scast (word_of_int (drop_bit (unat (operand ''shamt32'' w :: 5 word)) (sint (ucast (rs1_val st w) :: 32 word))) :: 32 word))"

definition execute_lui :: "'m instr_fun" where
  "execute_lui st w = put st w (scast (augment_u_imm (operand ''u_imm'' w)))"

definition execute_auipc :: "'m instr_fun" where
  "execute_auipc st w = put st w (scast (augment_u_imm (operand ''u_imm'' w)) + g_pc st)"

definition execute_lb :: "'m memory_ops \<Rightarrow> 'm instr_fun" where
  "execute_lb mem st w = put st w (word_of_int (signed_take_bit 7 (mo_load mem (g_mem st) (rs1_val st w + (scast (operand ''i_imm'' w :: 12 word))) 1)))"

definition execute_lh :: "'m memory_ops \<Rightarrow> 'm instr_fun" where
  "execute_lh mem st w = put st w (word_of_int (signed_take_bit 15 (mo_load mem (g_mem st) (rs1_val st w + (scast (operand ''i_imm'' w :: 12 word))) 2)))"

definition execute_lw :: "'m memory_ops \<Rightarrow> 'm instr_fun" where
  "execute_lw mem st w = put st w (word_of_int (signed_take_bit 31 (mo_load mem (g_mem st) (rs1_val st w + (scast (operand ''i_imm'' w :: 12 word))) 4)))"

definition execute_ld :: "'m memory_ops \<Rightarrow> 'm instr_fun" where
  "execute_ld mem st w = put st w (word_of_int (signed_take_bit 63 (mo_load mem (g_mem st) (rs1_val st w + (scast (operand ''i_imm'' w :: 12 word))) 8)))"

definition execute_lbu :: "'m memory_ops \<Rightarrow> 'm instr_fun" where
  "execute_lbu mem st w = put st w (word_of_int (mo_load mem (g_mem st) (rs1_val st w + (scast (operand ''i_imm'' w :: 12 word))) 1))"

definition execute_lhu :: "'m memory_ops \<Rightarrow> 'm instr_fun" where
  "execute_lhu mem st w = put st w (word_of_int (mo_load mem (g_mem st) (rs1_val st w + (scast (operand ''i_imm'' w :: 12 word))) 2))"

definition execute_lwu :: "'m memory_ops \<Rightarrow> 'm instr_fun" where
  "execute_lwu mem st w = put st w (word_of_int (mo_load mem (g_mem st) (rs1_val st w + (scast (operand ''i_imm'' w :: 12 word))) 4))"

definition execute_sb :: "'m memory_ops \<Rightarrow> 'm instr_fun" where
  "execute_sb mem st w = Some (st\<lparr>g_mem := mo_store mem (g_mem st) (rs1_val st w + scast (operand ''s_imm'' w :: 12 word)) 1 (uint (take_bit 8 (rs2_val st w)))\<rparr>, Nothing)"

definition execute_sh :: "'m memory_ops \<Rightarrow> 'm instr_fun" where
  "execute_sh mem st w = Some (st\<lparr>g_mem := mo_store mem (g_mem st) (rs1_val st w + scast (operand ''s_imm'' w :: 12 word)) 2 (uint (take_bit 16 (rs2_val st w)))\<rparr>, Nothing)"

definition execute_sw :: "'m memory_ops \<Rightarrow> 'm instr_fun" where
  "execute_sw mem st w = Some (st\<lparr>g_mem := mo_store mem (g_mem st) (rs1_val st w + scast (operand ''s_imm'' w :: 12 word)) 4 (uint (take_bit 32 (rs2_val st w)))\<rparr>, Nothing)"

definition execute_sd :: "'m memory_ops \<Rightarrow> 'm instr_fun" where
  "execute_sd mem st w = Some (st\<lparr>g_mem := mo_store mem (g_mem st) (rs1_val st w + scast (operand ''s_imm'' w :: 12 word)) 8 (uint (take_bit 64 (rs2_val st w)))\<rparr>, Nothing)"

definition execute_fence_i :: "'m instr_fun" where
  "execute_fence_i st w = Some (st, Nothing)"

definition execute_fence :: "'m instr_fun" where
  "execute_fence st w = Some (st, Nothing)"

definition execute_jal :: "'m instr_fun" where
  "execute_jal st w = Some (reg_set (operand ''rd'' w) (g_pc st + 4) st, ProcRedirect (g_pc st + scast (operand ''j_imm'' w :: 21 word)))"

definition execute_jalr :: "'m instr_fun" where
  "execute_jalr st w = (let temp = (rs1_val st w) + (scast (operand ''i_imm'' w :: 12 word)) in Some (reg_set (operand ''rd'' w) (g_pc st + 4) st, ProcRedirect (temp AND 0xFFFFFFFE)))"

definition execute_beq :: "'m instr_fun" where
  "execute_beq st w = Some (st, if (rs1_val st w) = (rs2_val st w) then ProcRedirect (g_pc st + scast (operand ''b_imm'' w :: 13 word)) else Nothing)"

definition execute_bne :: "'m instr_fun" where
  "execute_bne st w = Some (st, if (rs1_val st w) \<noteq> (rs2_val st w) then ProcRedirect (g_pc st + scast (operand ''b_imm'' w :: 13 word)) else Nothing)"

definition execute_blt :: "'m instr_fun" where
  "execute_blt st w = Some (st, if sint (rs1_val st w) < sint (rs2_val st w) then ProcRedirect (g_pc st + scast (operand ''b_imm'' w :: 13 word)) else Nothing)"

definition execute_bge :: "'m instr_fun" where
  "execute_bge st w = Some (st, if sint (rs1_val st w) \<ge> sint (rs2_val st w) then ProcRedirect (g_pc st + scast (operand ''b_imm'' w :: 13 word)) else Nothing)"

definition execute_bltu :: "'m instr_fun" where
  "execute_bltu st w = Some (st, if (rs1_val st w) < (rs2_val st w) then ProcRedirect (g_pc st + scast (operand ''b_imm'' w :: 13 word)) else Nothing)"

definition execute_bgeu :: "'m instr_fun" where
  "execute_bgeu st w = Some (st, if (rs1_val st w) \<ge> (rs2_val st w) then ProcRedirect (g_pc st + scast (operand ''b_imm'' w :: 13 word)) else Nothing)"

definition execute_csrrw :: "'m instr_fun" where
  "execute_csrrw st w = csr_reg_func st w csrrw_op"

definition execute_csrrs :: "'m instr_fun" where
  "execute_csrrs st w = csr_reg_func st w csrrs_op"

definition execute_csrrc :: "'m instr_fun" where
  "execute_csrrc st w = csr_reg_func st w csrrc_op"

definition execute_csrrwi :: "'m instr_fun" where
  "execute_csrrwi st w = csr_imm_func st w csrrw_op"

definition execute_csrrsi :: "'m instr_fun" where
  "execute_csrrsi st w = csr_imm_func st w csrrw_op"

definition execute_csrrci :: "'m instr_fun" where
  "execute_csrrci st w = csr_imm_func st w csrrc_op"

definition execute_invld :: "'m instr_fun" where
  "execute_invld st w = Some (st, ProcException (exception_code ''ILLEGAL_INSTRUCTION''))"

definition execute_ecall :: "'m instr_fun" where
  "execute_ecall st w = Some (st, ProcException (exception_code ''ENVIRONMENT_CALL_FROM_U''))"

definition execute_ebreak :: "'m instr_fun" where
  "execute_ebreak st w = Some (st, ProcException (exception_code ''BREAKPOINT''))"

text \<open>\<open>getattr(self, 'execute_...')\<close>.\<close>

definition methods :: "'m memory_ops \<Rightarrow> (string \<times> 'm instr_fun) list" where
  "methods mem = [
     (''add'', execute_add), (''addw'', execute_addw), (''sub'', execute_sub), (''subw'', execute_subw),
     (''sll'', execute_sll), (''sllw'', execute_sllw), (''slt'', execute_slt), (''sltu'', execute_sltu),
     (''xor'', execute_xor), (''srl'', execute_srl), (''srlw'', execute_srlw), (''sra'', execute_sra),
     (''sraw'', execute_sraw), (''or'', execute_or), (''and'', execute_and), (''mul'', execute_mul),
     (''mulh'', execute_mulh), (''mulhsu'', execute_mulhsu), (''mulhu'', execute_mulhu),
     (''mulw'', execute_mulw), (''div'', execute_div), (''divu'', execute_divu), (''divw'', execute_divw),
     (''divuw'', execute_divuw), (''rem'', execute_rem), (''remu'', execute_remu), (''remw'', execute_remw),
     (''remuw'', execute_remuw), (''addi'', execute_addi), (''addiw'', execute_addiw), (''slti'', execute_slti),
     (''sltiu'', execute_sltiu), (''xori'', execute_xori), (''ori'', execute_ori), (''andi'', execute_andi),
     (''slli'', execute_slli), (''slliw'', execute_slliw), (''srli'', execute_srli), (''srliw'', execute_srliw),
     (''srai'', execute_srai), (''sraiw'', execute_sraiw), (''lui'', execute_lui), (''auipc'', execute_auipc),
     (''lb'', execute_lb mem), (''lh'', execute_lh mem), (''lw'', execute_lw mem), (''ld'', execute_ld mem),
     (''lbu'', execute_lbu mem), (''lhu'', execute_lhu mem), (''lwu'', execute_lwu mem),
     (''sb'', execute_sb mem), (''sh'', execute_sh mem), (''sw'', execute_sw mem), (''sd'', execute_sd mem),
     (''fence_i'', execute_fence_i), (''fence'', execute_fence), (''jal'', execute_jal),
     (''jalr'', execute_jalr), (''beq'', execute_beq), (''bne'', execute_bne), (''blt'', execute_blt),
     (''bge'', execute_bge), (''bltu'', execute_bltu), (''bgeu'', execute_bgeu), (''csrrw'', execute_csrrw),
     (''csrrs'', execute_csrrs), (''csrrc'', execute_csrrc), (''csrrwi'', execute_csrrwi),
     (''csrrsi'', execute_csrrsi), (''csrrci'', execute_csrrci), (''invld'', execute_invld),
     (''ecall'', execute_ecall), (''ebreak'', execute_ebreak)]"

text \<open>The attributes \<open>direct\<close> and \<open>vectored\<close> of \<open>MtvecMode\<close> are looked up by name.\<close>

definition handle_exception :: "'m golden \<Rightarrow> 32 word \<Rightarrow> 4 word \<Rightarrow> 'm golden option" where
  "handle_exception st inst mcause =
     (let st = csr_set (csr_number ''mepc'') (g_pc st)
                 (csr_set (csr_number ''mcause'') (ucast mcause) (csr_set (csr_number ''mtval'') (ucast inst) st))
      in do { (mtvec, st) \<leftarrow> csr_get (csr_number ''mtvec'') st;
              let mode = uint (take_bit 2 mtvec); base = mtvec AND NOT 3 in
              do { direct \<leftarrow> map_of mtvec_modes ''direct'';
                   if mode = direct then Some (st\<lparr>g_pc := base\<rparr>)
                   else do { vectored \<leftarrow> map_of mtvec_modes ''vectored'';
                             if mode = vectored then Some (st\<lparr>g_pc := base + ucast (push_bit 2 mcause)\<rparr>) else None } } })"

definition execute :: "32 word inst_spec list \<Rightarrow> 'm memory_ops \<Rightarrow> 'm instr_fun" where
  "execute encoding mem st inst =
     (let name = decode_inst_name encoding inst
      in do { foo \<leftarrow> map_of (methods mem) (map (\<lambda>c. if c = CHR ''.'' then CHR ''_'' else c) name);
              (st, result) \<leftarrow> foo st inst;
              case result of
                ProcException mcause \<Rightarrow> do { st \<leftarrow> handle_exception st inst mcause; Some (st, result) }
              | ProcRedirect target \<Rightarrow> Some (st\<lparr>g_pc := target\<rparr>, result)
              | Nothing \<Rightarrow> Some (st\<lparr>g_pc := g_pc st + 4\<rparr>, result) })"

end
