(* ===== verification/Multiplier.thy ===== *)
theory Multiplier
  imports Prelude "HOL-Library.Sublist"
begin

text \<open>
  The multipliers of \<open>lizard/util/rtl/multiply.py\<close>: the combinational unit, the pipeline that multiplies a slice of
  the second operand per stage, and the one that computes the product in its first stage. Both pipelines are elastic:
  a stage moves when the next one is free. The specification is the queue of products in the order of their calls.
\<close>

section \<open>The combinational unit\<close>

text \<open>The widths are run-time parameters, so that a wire of width \<open>n\<close> is an integer below \<open>2 ^ n\<close>: an
  assignment to it truncates. \<open>plen\<close> is the width of the product and \<open>rlen\<close> the sum of the widths of the operands.\<close>

primrec mul_tmps :: "nat \<Rightarrow> nat \<Rightarrow> int \<Rightarrow> int \<Rightarrow> nat \<Rightarrow> int" where
  "mul_tmps plen rlen src1 src2 0 = 0"
| "mul_tmps plen rlen src1 src2 (Suc i) =
     (let tmp = mul_tmps plen rlen src1 src2 i
      in if bit src2 i then take_bit rlen (tmp + take_bit plen (push_bit i src1)) else tmp)"

definition mul_combinational :: "bool \<Rightarrow> nat \<Rightarrow> nat \<Rightarrow> nat \<Rightarrow> int \<Rightarrow> int \<Rightarrow> int" where
  "mul_combinational use_mul multiplier_len multiplicand_len plen src1 src2 =
     (let rlen = multiplier_len + multiplicand_len;
          tmp_res = (if use_mul then take_bit rlen (src1 * src2)
                     else mul_tmps plen rlen (take_bit plen src1) src2 multiplicand_len)
      in take_bit plen tmp_res)"

lemma mul_bound:
  fixes a b :: int
  shows "0 \<le> a \<Longrightarrow> a < 2 ^ m \<Longrightarrow> 0 \<le> b \<Longrightarrow> b < 2 ^ k \<Longrightarrow> a * b < 2 ^ (m + k)"
  by (auto simp: power_add intro!: mult_strict_mono')

lemma take_bit_cong_add:
  "take_bit n a = take_bit n (b :: int) \<Longrightarrow> take_bit n c = take_bit n d \<Longrightarrow> take_bit n (a + c) = take_bit n (b + d)"
  by (metis take_bit_add)

lemma mul_tmps_bounds: "0 \<le> mul_tmps plen rlen a b i \<and> mul_tmps plen rlen a b i < 2 ^ rlen"
  by (induction i) (auto simp: Let_def)

lemma mul_tmps_product:
  "take_bit (min plen rlen) (mul_tmps plen rlen (take_bit plen a) b i) =
   take_bit (min plen rlen) (a * take_bit i b)"
proof (induction i)
  case (Suc i)
  have split: "a * take_bit (Suc i) b = a * take_bit i b + (if bit b i then push_bit i a else 0)"
    by (simp add: take_bit_Suc_from_most push_bit_eq_mult algebra_simps)
  show ?case
  proof (cases "bit b i")
    case True
    have "take_bit (min plen rlen) (take_bit plen (push_bit i (take_bit plen a))) = take_bit (min plen rlen) (push_bit i a)"
      by (rule bit_eqI) (auto simp: bit_simps)
    then show ?thesis
      using True Suc take_bit_cong_add [OF Suc, of "take_bit plen (push_bit i (take_bit plen a))" "push_bit i a"]
      by (simp add: split Let_def take_bit_take_bit)
  next
    case False
    then have "a * take_bit (Suc i) b = a * take_bit i b" using split by simp
    then show ?thesis using False Suc by (simp only: mul_tmps.simps Let_def if_False)
  qed
qed simp

lemma mul_combinational_product:
  assumes "0 \<le> a" "a < 2 ^ m" "0 \<le> b" "b < 2 ^ k"
  shows "mul_combinational use_mul m k plen a b = take_bit plen (a * b)"
proof -
  let ?r = "m + k" and ?t = "mul_tmps plen (m + k) (take_bit plen a) b k"
  have small: "take_bit ?r (a * b) = a * b"
    using mul_bound [OF assms] assms by (intro take_bit_int_eq_self) auto
  have b: "take_bit k b = b" using assms by (intro take_bit_int_eq_self) auto
  have "take_bit plen ?t = take_bit plen (a * b)"
  proof (cases "plen \<le> ?r")
    case True
    then show ?thesis using mul_tmps_product [of plen ?r a b k] b by (simp add: min_def)
  next
    case False
    have "take_bit ?r ?t = ?t" using mul_tmps_bounds by (intro take_bit_int_eq_self) auto
    then have "?t = a * b" using mul_tmps_product [of plen ?r a b k] b small False by (simp add: min_def)
    then show ?thesis by simp
  qed
  then show ?thesis by (simp add: mul_combinational_def small Let_def)
qed


section \<open>Signs\<close>

definition mul_negative :: "bool \<Rightarrow> 'm::len word \<Rightarrow> bool" where
  "mul_negative is_signed src \<longleftrightarrow> is_signed \<and> bit src (LENGTH('m) - 1)"

definition mul_usign :: "bool \<Rightarrow> 'm::len word \<Rightarrow> 'm word" where
  "mul_usign is_signed src = (if mul_negative is_signed src then NOT src + 1 else src)"

definition operand_value :: "bool \<Rightarrow> 'm::len word \<Rightarrow> int" where
  "operand_value is_signed src = (if is_signed then sint src else uint src)"

lemma uint_mul_usign: "uint (mul_usign is_signed src) = \<bar>operand_value is_signed src\<bar>" for src :: "'m::len word"
proof (cases "mul_negative is_signed src")
  case True
  then have neg: "sint src < 0" by (simp add: mul_negative_def sint_uint signed_take_bit_negative_iff bit_uint_iff)
  have "sint src = uint src - 2 ^ LENGTH('m)"
    using True take_bit_int_eq_self [of "uint src" "LENGTH('m)"]
    by (simp add: mul_negative_def sint_uint signed_take_bit_eq_take_bit_minus bit_uint_iff
        of_nat_diff Suc_diff_1 flip: power_Suc)
  moreover have "NOT src + 1 = - src" by (simp add: minus_eq_not_plus_1)
  moreover have "uint (- src) = 2 ^ LENGTH('m) - uint src"
    using neg by (subst uint_word_ariths(4)) (auto simp: zmod_zminus1_eq_if uint_0_iff)
  ultimately show ?thesis using True neg uint_lt2p [of src] by (auto simp: mul_usign_def operand_value_def mul_negative_def abs_if)
next
  case False
  then have "is_signed \<Longrightarrow> sint src = uint src"
    using take_bit_int_eq_self [of "uint src" "LENGTH('m)"]
    by (simp add: mul_negative_def sint_uint signed_take_bit_eq_take_bit_minus bit_uint_iff of_nat_diff Suc_diff_1)
  then show ?thesis using False by (auto simp: mul_usign_def operand_value_def)
qed

lemma mul_negative_iff: "mul_negative is_signed src \<longleftrightarrow> operand_value is_signed src < 0"
  by (simp add: mul_negative_def operand_value_def sint_uint signed_take_bit_negative_iff bit_uint_iff)

definition mul_product :: "bool \<Rightarrow> 'm::len word \<Rightarrow> bool \<Rightarrow> 'm word \<Rightarrow> 'r::len word" where
  "mul_product src1_signed src1 src2_signed src2 =
     word_of_int (operand_value src1_signed src1 * operand_value src2_signed src2)"

lemma mul_product_signs:
  "mul_product s1 a s2 b =
     (let p = word_of_int (uint (mul_usign s1 a) * uint (mul_usign s2 b))
      in if mul_negative s1 a \<noteq> mul_negative s2 b then NOT p + 1 else p)"
  by (simp add: mul_product_def uint_mul_usign mul_negative_iff Let_def abs_if flip: minus_eq_not_plus_1 wi_hom_neg)

section \<open>An elastic pipeline\<close>

text \<open>\<open>set_rdy\<close> and \<open>set_rdy_last\<close>: a stage is ready when it is invalid or the next one is ready; the entry after the
  last stage is \<open>take_call\<close>.\<close>

primrec stage_rdy :: "bool list \<Rightarrow> bool \<Rightarrow> bool list" where
  "stage_rdy [] take_call = [take_call]"
| "stage_rdy (v # vs) take_call = (let rdy = stage_rdy vs take_call in (\<not> v \<or> hd rdy) # rdy)"

definition stage_exec :: "bool list \<Rightarrow> bool list \<Rightarrow> bool \<Rightarrow> nat \<Rightarrow> bool" where
  "stage_exec rdy valids mult_call i \<longleftrightarrow> rdy ! i \<and> (if i = 0 then mult_call else valids ! (i - 1))"

definition next_valids :: "bool list \<Rightarrow> bool list \<Rightarrow> bool \<Rightarrow> bool list" where
  "next_valids rdy valids mult_call =
     map (\<lambda>i. (\<not> rdy ! Suc i \<and> valids ! i) \<or> stage_exec rdy valids mult_call i) [0..<length valids]"

text \<open>The items in the stages, first stage first, and how one cycle moves them.\<close>

abbreviation valids_of :: "'x option list \<Rightarrow> bool list" where
  "valids_of \<equiv> map (\<lambda>x. x \<noteq> None)"

primrec advance_items :: "bool \<Rightarrow> 'x option \<Rightarrow> 'x option list \<Rightarrow> 'x option list" where
  "advance_items take_call inp [] = []"
| "advance_items take_call inp (x # xs) =
     (if x = None \<or> hd (stage_rdy (valids_of xs) take_call) then inp else x) # advance_items take_call x xs"

primrec in_flight :: "'x option list \<Rightarrow> 'x list" where
  "in_flight [] = []"
| "in_flight (x # xs) = in_flight xs @ (case x of None \<Rightarrow> [] | Some y \<Rightarrow> [y])"

lemma length_stage_rdy [simp]: "length (stage_rdy vs t) = Suc (length vs)"
  by (induction vs) (auto simp: Let_def)

lemma length_advance_items [simp]: "length (advance_items t inp xs) = length xs"
  by (induction xs arbitrary: inp) auto

lemma advance_items_nth:
  "i < length xs \<Longrightarrow> advance_items t inp xs ! i =
     (if stage_rdy (valids_of xs) t ! i then (if i = 0 then inp else xs ! (i - 1)) else xs ! i)"
proof (induction xs arbitrary: inp i)
  case (Cons x xs)
  then show ?case by (cases i) (auto simp: Let_def nth_Cons split: nat.splits)
qed simp

lemma stage_rdy_nth: "i < length vs \<Longrightarrow> stage_rdy vs t ! i \<longleftrightarrow> \<not> vs ! i \<or> stage_rdy vs t ! Suc i"
proof (induction vs arbitrary: i)
  case (Cons v vs)
  then show ?case
    by (cases i) (auto simp: Let_def hd_conv_nth simp flip: length_greater_0_conv)
qed simp

lemma next_valids_items:
  "next_valids (stage_rdy (valids_of xs) t) (valids_of xs) (inp \<noteq> None) = valids_of (advance_items t inp xs)"
proof (rule nth_equalityI)
  fix i assume "i < length (next_valids (stage_rdy (valids_of xs) t) (valids_of xs) (inp \<noteq> None))"
  then have i: "i < length xs" by (simp add: next_valids_def)
  then show "next_valids (stage_rdy (valids_of xs) t) (valids_of xs) (inp \<noteq> None) ! i = valids_of (advance_items t inp xs) ! i"
    using stage_rdy_nth [of i "valids_of xs" t]
    by (cases "stage_rdy (valids_of xs) t ! i")
       (auto simp: next_valids_def advance_items_nth stage_exec_def simp del: not_None_eq)
qed (simp add: next_valids_def)

lemma in_flight_last: "xs \<noteq> [] \<Longrightarrow> last xs = Some x \<Longrightarrow> in_flight xs = x # tl (in_flight xs)"
proof (induction xs)
  case (Cons a xs)
  then show ?case by (cases "xs = []") (auto, metis append_Cons list.sel(3))
qed simp

lemma in_flight_advance:
  "xs \<noteq> [] \<Longrightarrow> in_flight (advance_items t inp xs) =
     (if t \<and> last xs \<noteq> None then tl (in_flight xs) else in_flight xs) @
     (if hd (stage_rdy (valids_of xs) t) then (case inp of None \<Rightarrow> [] | Some y \<Rightarrow> [y]) else [])"
proof (induction xs arbitrary: inp)
  case (Cons x xs)
  show ?case
  proof (cases "xs = []")
    case False
    then have "last xs \<noteq> None \<Longrightarrow> in_flight xs \<noteq> []" using in_flight_last by fastforce
    then show ?thesis using Cons.IH [OF False] False by (auto simp: Let_def split: option.split)
  qed (auto split: option.split)
qed simp

lemma length_in_flight: "length (in_flight xs) = length (filter id (valids_of xs))"
  by (induction xs) (auto split: option.split)

text \<open>The inputs and outputs of a cycle of either pipeline.\<close>

record 'w mul_in =
  mu_mult_call :: bool
  mu_src1 :: 'w
  mu_src2 :: 'w
  mu_src1_signed :: bool
  mu_src2_signed :: bool
  mu_take_call :: bool

record 'w mul_out =
  mu_mult_rdy :: bool
  mu_peek_rdy :: bool
  mu_peek_res :: 'w

text \<open>The products of the calls that were accepted, and the results that were taken.\<close>

fun mul_accepted :: "'m::len word mul_in list \<Rightarrow> 'r::len word mul_out list \<Rightarrow> 'r word list" where
  "mul_accepted (i # is) (out # outs) =
     (if mu_mult_call i \<and> mu_mult_rdy out
      then [mul_product (mu_src1_signed i) (mu_src1 i) (mu_src2_signed i) (mu_src2 i)] else []) @ mul_accepted is outs"
| "mul_accepted _ _ = []"

fun mul_taken :: "'m::len word mul_in list \<Rightarrow> 'r::len word mul_out list \<Rightarrow> 'r word list" where
  "mul_taken (i # is) (out # outs) =
     (if mu_take_call i \<and> mu_peek_rdy out then [mu_peek_res out] else []) @ mul_taken is outs"
| "mul_taken _ _ = []"

text \<open>An item is the magnitudes of the operands and the sign of the product.\<close>

type_synonym 'm mul_item = "'m word \<times> 'm word \<times> bool"

definition item_of :: "'m::len word mul_in \<Rightarrow> 'm mul_item option" where
  "item_of i =
     (if mu_mult_call i
      then Some (mul_usign (mu_src1_signed i) (mu_src1 i), mul_usign (mu_src2_signed i) (mu_src2 i),
                 mul_negative (mu_src1_signed i) (mu_src1 i) \<noteq> mul_negative (mu_src2_signed i) (mu_src2 i))
      else None)"

fun item_product :: "'m::len mul_item \<Rightarrow> 'r::len word" where
  "item_product (a, b, negative) =
     (let p = word_of_int (uint a * uint b) in if negative then NOT p + 1 else p)"

lemma item_of_product:
  "mu_mult_call i \<Longrightarrow> item_product (the (item_of i)) =
     mul_product (mu_src1_signed i) (mu_src1 i) (mu_src2_signed i) (mu_src2 i)"
  by (simp add: item_of_def mul_product_signs Let_def)

locale elastic_multiplier =
  fixes step :: "'s \<Rightarrow> 'm::len word mul_in \<Rightarrow> 's \<times> 'r::len word mul_out"
    and R :: "'s \<Rightarrow> 'm mul_item option list \<Rightarrow> bool"
  assumes items_move: "R s xs \<Longrightarrow> R (fst (step s i)) (advance_items (mu_take_call i) (item_of i) xs)"
    and rdy_first: "R s xs \<Longrightarrow> mu_mult_rdy (snd (step s i)) = hd (stage_rdy (valids_of xs) (mu_take_call i))"
    and peek_last: "R s xs \<Longrightarrow> mu_peek_rdy (snd (step s i)) = (last xs \<noteq> None)"
    and peek_product: "R s xs \<Longrightarrow> last xs = Some x \<Longrightarrow> mu_peek_res (snd (step s i)) = item_product x"
    and has_stages: "R s xs \<Longrightarrow> xs \<noteq> []"
begin

lemma products_in_order:
  "R s xs \<Longrightarrow> \<exists>ys. R (final step s is) ys \<and>
     map item_product (in_flight xs) @ mul_accepted is (run step s is) =
     mul_taken is (run step s is) @ map item_product (in_flight ys)"
proof (induction "is" arbitrary: s xs)
  case (Cons i "is")
  let ?xs = "advance_items (mu_take_call i) (item_of i) xs" and ?out = "snd (step s i)"
  have ne: "xs \<noteq> []" using has_stages Cons.prems by blast
  obtain ys where ys: "R (final step (fst (step s i)) is) ys"
    "map item_product (in_flight ?xs) @ mul_accepted is (run step (fst (step s i)) is) =
     mul_taken is (run step (fst (step s i)) is) @ map item_product (in_flight ys)"
    using Cons.IH [OF items_move [OF Cons.prems]] by blast
  have "map item_product (in_flight xs) @ (if mu_mult_call i \<and> mu_mult_rdy ?out
          then [mul_product (mu_src1_signed i) (mu_src1 i) (mu_src2_signed i) (mu_src2 i)] else []) =
        (if mu_take_call i \<and> mu_peek_rdy ?out then [mu_peek_res ?out] else []) @ map item_product (in_flight ?xs)"
  proof (cases "last xs")
    case None
    then show ?thesis
      using in_flight_advance [OF ne, of "mu_take_call i" "item_of i"] rdy_first [OF Cons.prems, of i]
        peek_last [OF Cons.prems, of i] item_of_product [of i, where ?'b = 'r]
      by (cases "mu_mult_call i") (auto simp: item_of_def)
  next
    case (Some x)
    then obtain zs where "in_flight xs = x # zs" using in_flight_last [OF ne] by metis
    then show ?thesis
      using in_flight_advance [OF ne, of "mu_take_call i" "item_of i"] rdy_first [OF Cons.prems, of i] Some
        peek_last [OF Cons.prems, of i] peek_product [OF Cons.prems Some, of i] item_of_product [of i, where ?'b = 'r]
      by (cases "mu_mult_call i") (auto simp: item_of_def)
  qed
  then show ?case using ys by (auto intro!: exI [of _ ys] simp flip: append_assoc)
qed auto

end

section \<open>The pipelined multiplier\<close>

record ('w, 'p) mul_pipe =
  mu_valids :: "bool list"
  mu_vals :: "'p list"
  mu_src1s :: "'w list"
  mu_src2s :: "'w list"
  mu_signs :: "bool list"

definition mul_pipelined_step ::
  "bool \<Rightarrow> ('m::len word, 'r::len word) mul_pipe \<Rightarrow> 'm word mul_in \<Rightarrow>
   ('m word, 'r word) mul_pipe \<times> 'r word mul_out" where
  "mul_pipelined_step use_mul s i =
     (let nstages = length (mu_valids s); k = LENGTH('m) div nstages;
          src1_usign = mul_usign (mu_src1_signed i) (mu_src1 i);
          src2_usign = mul_usign (mu_src2_signed i) (mu_src2 i);
          sign_in = (mul_negative (mu_src1_signed i) (mu_src1 i) \<noteq> mul_negative (mu_src2_signed i) (mu_src2 i));
          rdy = stage_rdy (mu_valids s) (mu_take_call i);
          exec = stage_exec rdy (mu_valids s) (mu_mult_call i);
          in1 = (\<lambda>j. if j = 0 then src1_usign else mu_src1s s ! (j - 1));
          in2 = (\<lambda>j. if j = 0 then src2_usign else mu_src2s s ! (j - 1));
          sign = (\<lambda>j. if j = 0 then sign_in else mu_signs s ! (j - 1));
          unit = (\<lambda>j. word_of_int (mul_combinational use_mul LENGTH('m) k LENGTH('r)
                        (uint (in1 j)) (take_bit k (uint (in2 j)))) :: 'r word);
          sum = (\<lambda>j. if j = 0 then unit j else mu_vals s ! (j - 1) + push_bit (k * j) (unit j));
          vals_in = (\<lambda>j. if j = nstages - 1 \<and> sign j then NOT (sum j) + 1 else sum j)
      in (\<lparr> mu_valids = next_valids rdy (mu_valids s) (mu_mult_call i),
            mu_vals = map (\<lambda>j. if exec j then vals_in j else mu_vals s ! j) [0..<nstages],
            mu_src1s = map (\<lambda>j. if exec j then in1 j else mu_src1s s ! j) [0..<nstages - 1],
            mu_src2s = map (\<lambda>j. if exec j then drop_bit k (in2 j) else mu_src2s s ! j) [0..<nstages - 1],
            mu_signs = map (\<lambda>j. if exec j then sign j else mu_signs s ! j) [0..<nstages - 1] \<rparr>,
          \<lparr> mu_mult_rdy = hd rdy, mu_peek_rdy = last (mu_valids s), mu_peek_res = last (mu_vals s) \<rparr>))"

text \<open>What stage \<open>j\<close> holds for an item: the product of the slices used so far and the slices still to be used.\<close>

fun stage_holds :: "nat \<Rightarrow> ('m::len word, 'r::len word) mul_pipe \<Rightarrow> nat \<Rightarrow> 'm mul_item \<Rightarrow> bool" where
  "stage_holds k s j (a, b, negative) =
     (if Suc j = length (mu_valids s) then mu_vals s ! j = item_product (a, b, negative)
      else mu_vals s ! j = word_of_int (uint a * take_bit (k * Suc j) (uint b)) \<and> mu_src1s s ! j = a \<and>
           mu_src2s s ! j = drop_bit (k * Suc j) b \<and> mu_signs s ! j = negative)"

definition pipelined_items :: "('m::len word, 'r::len word) mul_pipe \<Rightarrow> 'm mul_item option list \<Rightarrow> bool" where
  "pipelined_items s xs \<longleftrightarrow>
     xs \<noteq> [] \<and> LENGTH('m) mod length xs = 0 \<and> mu_valids s = valids_of xs \<and> length (mu_vals s) = length xs \<and>
     (\<forall>j x. j < length xs \<longrightarrow> xs ! j = Some x \<longrightarrow> stage_holds (LENGTH('m) div length xs) s j x)"

lemma partial_product:
  "uint a * take_bit (n + k) b = uint a * take_bit n b + push_bit n (uint a * take_bit k (drop_bit n b))" for b :: int
proof -
  have "take_bit (n + k) b = take_bit n b + push_bit n (take_bit k (drop_bit n b))"
    by (metis add.commute bits_ident [of n "take_bit (n + k) b"] drop_bit_take_bit take_bit_take_bit
        add_diff_cancel_left' min.absorb1 le_add1 take_bit_push_bit)
  then show ?thesis by (simp add: push_bit_eq_mult algebra_simps)
qed

lemma unit_product:
  fixes a c :: "'m::len word"
  shows "word_of_int (mul_combinational use_mul LENGTH('m) k LENGTH('r) (uint a) (take_bit k (uint c))) =
         (word_of_int (uint a * take_bit k (uint c)) :: 'r::len word)"
proof -
  have "mul_combinational use_mul LENGTH('m) k LENGTH('r) (uint a) (take_bit k (uint c)) =
        take_bit LENGTH('r) (uint a * take_bit k (uint c))"
    by (rule mul_combinational_product) auto
  moreover have "word_of_int (take_bit LENGTH('r) x) = (word_of_int x :: 'r word)" for x by (simp add: word_of_int_eq_iff)
  ultimately show ?thesis by metis
qed

lemma stage_sum:
  fixes a b :: "'m::len word"
  shows "word_of_int (uint a * take_bit (k * j) (uint b)) +
           push_bit (k * j) (word_of_int (uint a * take_bit k (uint (drop_bit (k * j) b)))) =
         (word_of_int (uint a * take_bit (k * Suc j) (uint b)) :: 'r::len word)"
proof -
  have "push_bit n (word_of_int x :: 'r word) = word_of_int (push_bit n x)" for n x
    by (simp add: push_bit_eq_mult word_of_int_power_hom wi_hom_mult)
  then show ?thesis
    using partial_product [of a "k * j" k "uint b"]
    by (simp add: unsigned_drop_bit_eq take_bit_int_eq_self uint_lt2p algebra_simps del: of_int_mult)
qed

lemma pipelined_last_bits:
  fixes b :: "'m::len word"
  assumes "LENGTH('m) mod n = 0" "Suc j = n"
  shows "take_bit (LENGTH('m) div n * Suc j) (uint b) = uint b"
proof -
  have "LENGTH('m) div n * Suc j = LENGTH('m)" using assms by (metis dvd_div_mult_self mod_0_imp_dvd)
  then show ?thesis by (simp add: take_bit_int_eq_self uint_lt2p)
qed

lemma pipelined_registers:
  fixes s :: "('m::len word, 'r::len word) mul_pipe" and i :: "'m word mul_in" and use_mul :: bool
  defines "t \<equiv> fst (mul_pipelined_step use_mul s i)" and "n \<equiv> length (mu_valids s)"
  defines "k \<equiv> LENGTH('m) div n"
  assumes j: "j < n" "0 < j" and exec: "stage_exec (stage_rdy (mu_valids s) (mu_take_call i)) (mu_valids s) (mu_mult_call i) j"
  shows "mu_vals t ! j =
      (let sum = mu_vals s ! (j - 1) +
                 push_bit (k * j) (word_of_int (uint (mu_src1s s ! (j - 1)) * take_bit k (uint (mu_src2s s ! (j - 1)))))
       in if j = n - 1 \<and> mu_signs s ! (j - 1) then NOT sum + 1 else sum)"
    and "length (mu_valids t) = n"
    and "Suc j < n \<Longrightarrow> mu_src1s t ! j = mu_src1s s ! (j - 1) \<and> mu_src2s t ! j = drop_bit k (mu_src2s s ! (j - 1)) \<and>
      mu_signs t ! j = mu_signs s ! (j - 1)"
  using j exec unfolding t_def n_def k_def
  by (simp_all add: mul_pipelined_step_def Let_def unit_product next_valids_def cong: if_cong split del: if_split del: of_int_mult)

lemma stage_enters:
  fixes s :: "('m::len word, 'r::len word) mul_pipe"
  assumes n: "length (mu_valids s) = n" "LENGTH('m) mod n = 0" and k: "k = LENGTH('m) div n" and j: "j < n"
    and exec: "stage_exec (stage_rdy (mu_valids s) (mu_take_call i)) (mu_valids s) (mu_mult_call i) j"
    and source: "if j = 0 then item_of i = Some x else stage_holds k s (j - 1) x"
  shows "stage_holds k (fst (mul_pipelined_step use_mul s i)) j x"
proof -
  obtain a b neg where x: "x = (a, b, neg)" by (cases x)
  note step = mul_pipelined_step_def Let_def n(1) k [symmetric] unit_product next_valids_def exec
  have full: "Suc j = n \<Longrightarrow> take_bit (k * Suc j) (uint b) = uint b" using pipelined_last_bits [OF n(2)] k by blast
  show ?thesis
  proof (cases j)
    case 0
    then have "mu_mult_call i" "a = mul_usign (mu_src1_signed i) (mu_src1 i)" "b = mul_usign (mu_src2_signed i) (mu_src2 i)"
      "neg = (mul_negative (mu_src1_signed i) (mu_src1 i) \<noteq> mul_negative (mu_src2_signed i) (mu_src2 i))"
      using source by (auto simp: item_of_def x split: if_splits)
    then show ?thesis using 0 full j exec by (cases "n = Suc 0") (simp_all add: x step take_bit_int_eq_self uint_lt2p del: of_int_mult)
  next
    case (Suc l)
    then have held: "mu_vals s ! l = word_of_int (uint a * take_bit (k * j) (uint b))" "mu_src1s s ! l = a"
      "mu_src2s s ! l = drop_bit (k * j) b" "mu_signs s ! l = neg"
      using source j by (simp_all add: x n(1))
    have t: "length (mu_valids (fst (mul_pipelined_step use_mul s i))) = n"
      "mu_vals (fst (mul_pipelined_step use_mul s i)) ! j =
         (let p = word_of_int (uint a * take_bit (k * Suc j) (uint b)) in if j = n - 1 \<and> neg then NOT p + 1 else p)"
      "Suc j < n \<Longrightarrow> mu_src1s (fst (mul_pipelined_step use_mul s i)) ! j = a \<and>
         mu_src2s (fst (mul_pipelined_step use_mul s i)) ! j = drop_bit (k * Suc j) b \<and>
         mu_signs (fst (mul_pipelined_step use_mul s i)) ! j = neg"
      using pipelined_registers [of j s i use_mul] Suc j exec held stage_sum [of a k j b, where ?'r = 'r] n(1) k
      by (simp_all add: drop_bit_drop_bit add.commute Let_def del: of_int_mult)
    show ?thesis using t full Suc j by (cases "Suc j = n") (auto simp: x Let_def simp del: of_int_mult mult_Suc_right)
  qed
qed

lemma stage_stays:
  assumes "length (mu_valids s) = n" "j < n" "length (mu_vals s) = n"
    and "\<not> stage_exec (stage_rdy (mu_valids s) (mu_take_call i)) (mu_valids s) (mu_mult_call i) j" "stage_holds k s j x"
  shows "stage_holds k (fst (mul_pipelined_step use_mul s i)) j x"
  using assms by (cases x) (auto simp: mul_pipelined_step_def Let_def next_valids_def)

definition retimed_items :: "('m::len word, 'r::len word) mul_pipe \<Rightarrow> 'm mul_item option list \<Rightarrow> bool" where
  "retimed_items s xs \<longleftrightarrow>
     xs \<noteq> [] \<and> mu_valids s = valids_of xs \<and> length (mu_vals s) = length xs \<and>
     (\<forall>j x. j < length xs \<longrightarrow> xs ! j = Some x \<longrightarrow> mu_vals s ! j = item_product x)"

declare not_None_eq [simp del] split_paired_Ex [simp del] split_paired_All [simp del]

lemma advance_source:
  assumes "j < length xs" "advance_items t inp xs ! j = Some x"
  shows "if stage_exec (stage_rdy (valids_of xs) t) (valids_of xs) (inp \<noteq> None) j
         then (if j = 0 then inp = Some x else xs ! (j - 1) = Some x) else xs ! j = Some x"
  using assms by (auto simp: advance_items_nth stage_exec_def split: if_splits)

lemma pipelined_moves:
  fixes s :: "('m::len word, 'r::len word) mul_pipe"
  assumes R: "pipelined_items s xs"
  shows "pipelined_items (fst (mul_pipelined_step use_mul s i)) (advance_items (mu_take_call i) (item_of i) xs)"
proof -
  let ?s = "fst (mul_pipelined_step use_mul s i)" and ?xs = "advance_items (mu_take_call i) (item_of i) xs"
    and ?k = "LENGTH('m) div length xs"
  have call: "mu_mult_call i = (item_of i \<noteq> None)" by (simp add: item_of_def)
  have v: "mu_valids s = valids_of xs" "length (mu_vals s) = length xs" "xs \<noteq> []" "LENGTH('m) mod length xs = 0"
    using R by (simp_all add: pipelined_items_def)
  have held: "stage_holds ?k s j x" if "j < length xs" "xs ! j = Some x" for j x
    using R that unfolding pipelined_items_def by blast
  have "stage_holds ?k ?s j x" if j: "j < length xs" "?xs ! j = Some x" for j x
  proof (cases "stage_exec (stage_rdy (mu_valids s) (mu_take_call i)) (mu_valids s) (mu_mult_call i) j")
    case True
    then have "if j = 0 then item_of i = Some x else stage_holds ?k s (j - 1) x"
      using advance_source [OF j] True j(1) held [of "j - 1" x]
      unfolding v(1) call by (simp split: if_splits)
    then show ?thesis using stage_enters [OF _ v(4) refl j(1) True] v(1) by simp
  next
    case False
    then have "stage_holds ?k s j x" using advance_source [OF j] False held [OF j(1)] unfolding v(1) call by simp
    then show ?thesis using stage_stays [OF _ j(1) v(2) False] v(1) by simp
  qed
  moreover have "mu_valids ?s = valids_of ?xs"
    by (simp add: mul_pipelined_step_def Let_def v(1) call next_valids_items)
  moreover have "?xs \<noteq> []" "length (mu_vals ?s) = length xs"
    using v by (auto simp: mul_pipelined_step_def Let_def simp flip: length_greater_0_conv)
  ultimately show ?thesis using v by (simp add: pipelined_items_def)
qed

interpretation pipelined: elastic_multiplier "mul_pipelined_step use_mul" pipelined_items
proof
  fix s :: "('m::len word, 'r::len word) mul_pipe" and xs and i :: "'m word mul_in" and x
  assume R: "pipelined_items s xs"
  then have v: "mu_valids s = valids_of xs" "length (mu_vals s) = length xs" "xs \<noteq> []"
    by (simp_all add: pipelined_items_def)
  then have "mu_vals s \<noteq> []" by auto
  show "pipelined_items (fst (mul_pipelined_step use_mul s i)) (advance_items (mu_take_call i) (item_of i) xs)"
    by (rule pipelined_moves [OF R])
  show "mu_mult_rdy (snd (mul_pipelined_step use_mul s i)) = hd (stage_rdy (valids_of xs) (mu_take_call i))"
    and "mu_peek_rdy (snd (mul_pipelined_step use_mul s i)) = (last xs \<noteq> None)" and "xs \<noteq> []"
    using v by (simp_all add: mul_pipelined_step_def Let_def last_map)
  assume "last xs = Some x"
  then have "stage_holds (LENGTH('m) div length xs) s (length xs - 1) x"
    using R v unfolding pipelined_items_def by (simp add: last_conv_nth del: stage_holds.simps)
  then show "mu_peek_res (snd (mul_pipelined_step use_mul s i)) = item_product x"
    using v \<open>mu_vals s \<noteq> []\<close> by (cases x) (simp add: mul_pipelined_step_def Let_def last_conv_nth)
qed


section \<open>The retimed multiplier\<close>

text \<open>The first stage computes the whole product, the others pass it on. \<open>value_\<close> is truncated to the width of the
  result.\<close>

definition mul_retimed_step ::
  "('m::len word, 'r::len word) mul_pipe \<Rightarrow> 'm word mul_in \<Rightarrow> ('m word, 'r word) mul_pipe \<times> 'r word mul_out" where
  "mul_retimed_step s i =
     (let nstages = length (mu_valids s);
          src1_usign = mul_usign (mu_src1_signed i) (mu_src1 i);
          src2_usign = mul_usign (mu_src2_signed i) (mu_src2 i);
          sign_in = (mul_negative (mu_src1_signed i) (mu_src1 i) \<noteq> mul_negative (mu_src2_signed i) (mu_src2 i));
          val = word_of_int (take_bit (2 * LENGTH('m)) (uint src1_usign * uint src2_usign)) :: 'r word;
          rdy = stage_rdy (mu_valids s) (mu_take_call i);
          exec = stage_exec rdy (mu_valids s) (mu_mult_call i);
          vals_in = (\<lambda>j. if j = 0 then (if sign_in then NOT val + 1 else val) else mu_vals s ! (j - 1))
      in (s\<lparr>mu_valids := next_valids rdy (mu_valids s) (mu_mult_call i),
            mu_vals := map (\<lambda>j. if exec j then vals_in j else mu_vals s ! j) [0..<nstages]\<rparr>,
          \<lparr> mu_mult_rdy = hd rdy, mu_peek_rdy = last (mu_valids s), mu_peek_res = last (mu_vals s) \<rparr>))"

lemma retimed_value:
  "take_bit (2 * LENGTH('m)) (uint a * uint b) = uint a * uint b" for a b :: "'m::len word"
  using mul_bound [of "uint a" "LENGTH('m)" "uint b" "LENGTH('m)"]
  by (intro take_bit_int_eq_self) (auto simp: uint_lt2p mult_2)

lemma retimed_moves:
  fixes s :: "('m::len word, 'r::len word) mul_pipe"
  assumes R: "retimed_items s xs"
  shows "retimed_items (fst (mul_retimed_step s i)) (advance_items (mu_take_call i) (item_of i) xs)"
proof -
  let ?s = "fst (mul_retimed_step s i)" and ?xs = "advance_items (mu_take_call i) (item_of i) xs"
  have call: "mu_mult_call i = (item_of i \<noteq> None)" by (simp add: item_of_def)
  have v: "mu_valids s = valids_of xs" "length (mu_vals s) = length xs" "xs \<noteq> []"
    using R by (simp_all add: retimed_items_def)
  note step = mul_retimed_step_def Let_def retimed_value
  have "mu_vals ?s ! j = item_product x" if j: "j < length xs" "?xs ! j = Some x" for j x
  proof (cases "stage_exec (stage_rdy (mu_valids s) (mu_take_call i)) (mu_valids s) (mu_mult_call i) j \<and> j = 0")
    case True
    then have "item_of i = Some x" using advance_source [OF j] True unfolding v(1) call by simp
    then show ?thesis using True j(1) by (auto simp: step v(1) item_of_def split: if_splits)
  next
    case False
    then show ?thesis using advance_source [OF j] R j(1) by (auto simp: step v(1) call retimed_items_def split: if_splits)
  qed
  moreover have "mu_valids ?s = valids_of ?xs" by (simp add: step v(1) call next_valids_items)
  moreover have "?xs \<noteq> []" "length (mu_vals ?s) = length xs"
    using v by (auto simp: step simp flip: length_greater_0_conv)
  ultimately show ?thesis by (simp add: retimed_items_def)
qed

interpretation retimed: elastic_multiplier mul_retimed_step retimed_items
proof
  fix s :: "('m::len word, 'r::len word) mul_pipe" and xs and i :: "'m word mul_in" and x
  assume R: "retimed_items s xs"
  then have v: "mu_valids s = valids_of xs" "length (mu_vals s) = length xs" "xs \<noteq> []"
    by (simp_all add: retimed_items_def)
  then have "mu_vals s \<noteq> []" by auto
  show "retimed_items (fst (mul_retimed_step s i)) (advance_items (mu_take_call i) (item_of i) xs)"
    by (rule retimed_moves [OF R])
  show "mu_mult_rdy (snd (mul_retimed_step s i)) = hd (stage_rdy (valids_of xs) (mu_take_call i))"
    and "mu_peek_rdy (snd (mul_retimed_step s i)) = (last xs \<noteq> None)" and "xs \<noteq> []"
    using v by (simp_all add: mul_retimed_step_def Let_def last_map)
  assume "last xs = Some x"
  then show "mu_peek_res (snd (mul_retimed_step s i)) = item_product x"
    using R v \<open>mu_vals s \<noteq> []\<close> by (simp add: mul_retimed_step_def Let_def last_conv_nth retimed_items_def)
qed

declare not_None_eq [simp] split_paired_Ex [simp] split_paired_All [simp]

section \<open>Properties\<close>

text \<open>The valid registers are cleared by a reset, the others hold anything.\<close>

definition mul_idle :: "nat \<Rightarrow> ('w, 'p) mul_pipe \<Rightarrow> bool" where
  "mul_idle nstages s \<longleftrightarrow> mu_valids s = replicate nstages False \<and> length (mu_vals s) = nstages"

lemma mul_idle_items:
  assumes "mul_idle nstages s" "0 < nstages"
  shows "retimed_items s (replicate nstages None)"
    and "LENGTH('m) mod nstages = 0 \<Longrightarrow> pipelined_items (s :: ('m::len word, 'r::len word) mul_pipe) (replicate nstages None)"
  using assms by (simp_all add: mul_idle_def retimed_items_def pipelined_items_def)

lemma in_flight_empty: "in_flight (replicate n None) = []"
  by (induction n) auto

text \<open>C13: both pipelined multipliers return the products of the accepted calls, each once and in the order of the
  calls, as signed or unsigned as each operand was given; what is accepted and not yet taken is one product per valid
  stage. Any number of stages that divides the width will do for the first one, and its result may keep the upper half
  or not.\<close>

theorem multipliers_in_order:
  fixes s :: "('m::len word, 'r::len word) mul_pipe"
  assumes "mul_idle nstages s" and "0 < nstages" and "LENGTH('m) mod nstages = 0"
  shows "(\<exists>rest. mul_accepted is (run (mul_pipelined_step use_mul) s is) =
              mul_taken is (run (mul_pipelined_step use_mul) s is) @ rest \<and>
            length rest = length (filter id (mu_valids (final (mul_pipelined_step use_mul) s is)))) \<and>
         (\<exists>rest. mul_accepted is (run mul_retimed_step s is) = mul_taken is (run mul_retimed_step s is) @ rest \<and>
            length rest = length (filter id (mu_valids (final mul_retimed_step s is))))"
  using pipelined.products_in_order [OF mul_idle_items(2) [OF assms], of use_mul "is"]
    retimed.products_in_order [OF mul_idle_items(1) [OF assms(1,2)], of "is"]
  by (auto simp: in_flight_empty length_in_flight pipelined_items_def retimed_items_def)

definition mul_call_of :: "8 word \<Rightarrow> 8 word \<Rightarrow> 8 word mul_in" where
  "mul_call_of a b = \<lparr> mu_mult_call = True, mu_src1 = a, mu_src2 = b, mu_src1_signed = True, mu_src2_signed = False,
     mu_take_call = True \<rparr>"

definition mul_start :: "(8 word, 16 word) mul_pipe" where
  "mul_start = \<lparr> mu_valids = [False, False], mu_vals = [0, 0], mu_src1s = [0], mu_src2s = [0], mu_signs = [False] \<rparr>"

theorem multipliers_in_order_witness:
  "mul_idle 2 mul_start \<and>
   mul_taken (replicate 3 (mul_call_of (- 3) 200)) (run (mul_pipelined_step True) mul_start (replicate 3 (mul_call_of (- 3) 200))) = [- 600]"
proof -
  let ?is = "replicate 3 (mul_call_of (- 3) 200)"
  have i: "mul_idle 2 mul_start" by (simp add: mul_idle_def mul_start_def numeral_2_eq_2)
  have "mul_accepted ?is (run (mul_pipelined_step True) mul_start ?is) = [- 600, - 600, - 600]" by code_simp
  moreover have "filter id (mu_valids (final (mul_pipelined_step True) mul_start ?is)) = [True, True]" by code_simp
  ultimately have "length (mul_taken ?is (run (mul_pipelined_step True) mul_start ?is)) = 1"
    "prefix (mul_taken ?is (run (mul_pipelined_step True) mul_start ?is)) [- 600, - 600, - 600]"
    using multipliers_in_order [OF i, of ?is True] by (auto simp: prefix_def dest: arg_cong [where f = length])
  then show ?thesis using i by (cases "mul_taken ?is (run (mul_pipelined_step True) mul_start ?is)") auto
qed

end
