(* ===== verification/Datapath.thy ===== *)
theory Datapath
  imports Decode_Payloads Frontend_Correct Semantics Multiplier Divider
begin

text \<open>
  One instruction on its way through decode, rename, dispatch and the pipe it is sorted to, against the golden model.
  The values the dispatch stage reads are those of the architectural registers (which the rename refinement provides),
  the multiplier and the divider give the results proved for them, the memory answers a load with the bytes it holds.
\<close>

section \<open>The composition\<close>

definition fetched :: "64 word \<Rightarrow> 64 word \<Rightarrow> 32 word \<Rightarrow> fetch_msg" where
  "fetched pc pc_succ w =
     \<lparr> fm_hdr = \<lparr> fh_status = pattern PipelineMsgStatus ''PIPELINE_MSG_STATUS_VALID'', fh_pc = pc, fh_fence = False,
         fh_replay = False, fh_replay_next = False \<rparr>,
       fm_exception_info = zero_exception, fm_inst = w, fm_pc_succ = pc_succ \<rparr>"

definition issued :: "'m golden \<Rightarrow> 64 word \<Rightarrow> rename_env \<Rightarrow> 32 word \<Rightarrow> dispatch_msg" where
  "issued st pc_succ env w =
     (let d = decode_stage (fetched (g_pc st) pc_succ w)
      in dispatch_stage (reg_get st (dm_rs1 d)) (reg_get st (dm_rs2 d)) (fst (rename_stage True d env)))"

definition m_result :: "dispatch_msg \<Rightarrow> execute_msg" where
  "m_result m =
     (if m_msg_func (ed_pipe_msg (dx_execution_data m)) = pattern MFunc ''M_FUNC_MUL''
      then (let (src1, signed1, src2, signed2) = mult_inputs m
            in mult_output (mul_product signed1 src1 signed2 src2) (m_kill_data m))
      else (let (dividend, divisor, is_signed) = div_inputs m; (result_quotient, result_rem) = div_result is_signed dividend divisor
            in div_output result_quotient result_rem (m_kill_data m)))"

definition write_back :: "execute_msg \<Rightarrow> 'm golden \<Rightarrow> 'm golden" where
  "write_back out st = (if ex_rd_val out then reg_set (ex_areg_d out) (ex_result out) st else st)"

definition after_pipe :: "'m memory_ops \<Rightarrow> 'm golden \<Rightarrow> dispatch_msg \<Rightarrow> 'm golden" where
  "after_pipe mem st m =
     (let pipe = pipe_sort m; fallthrough = st\<lparr>g_pc := g_pc st + 4\<rparr>
      in if pipe = 1 then write_back (alu_stage m) fallthrough
         else if pipe = 2
         then (let (out, calls) = branch_stage True m in write_back out (st\<lparr>g_pc := bc_redirect_target calls\<rparr>))
         else if pipe = 3 then write_back (m_result m) fallthrough
         else if pipe = 4
         then (if is_load m
               then write_back (fst (mem_response_stage True True
                      (word_of_int (mo_load mem (g_mem st) (mem_addr m) (unat (mem_len m)))) m)) fallthrough
               else fallthrough\<lparr>g_mem := mo_store mem (g_mem st) (mem_addr m) (unat (mem_len m))
                      (uint (take_bit (8 * unat (mem_len m)) (snd (snd (mem_data True m)))))\<rparr>)
         else write_back (csr_stage 0 True m) fallthrough)"

definition datapath :: "'m memory_ops \<Rightarrow> 64 word \<Rightarrow> rename_env \<Rightarrow> 'm golden \<Rightarrow> 32 word \<Rightarrow> 'm golden" where
  "datapath mem pc_succ env st w = after_pipe mem st (issued st pc_succ env w)"

section \<open>What is issued\<close>

abbreviation "inst_rs1 w \<equiv> get_slice (fst RV_RS1) (w :: 32 word) :: 5 word"
abbreviation "inst_rs2 w \<equiv> get_slice (fst RV_RS2) (w :: 32 word) :: 5 word"
abbreviation "inst_rd w \<equiv> get_slice (fst RV_RD) (w :: 32 word) :: 5 word"

lemma issued_fields:
  assumes "composed_decoder w = decoded flags cls payload"
  shows "dx_rs1 (issued st pc_succ env w) = reg_get st (inst_rs1 w)"
    "dx_rs2 (issued st pc_succ env w) = reg_get st (inst_rs2 w)"
    "dx_rs1_val (issued st pc_succ env w) = sd_rs1_val flags"
    "dx_rs2_val (issued st pc_succ env w) = sd_rs2_val flags"
    "dx_rd_val (issued st pc_succ env w) = sd_rd_val flags"
    "dx_areg_d (issued st pc_succ env w) = inst_rd w"
    "ed_imm (dx_execution_data (issued st pc_succ env w)) = imm_decode (sd_imm_type flags) w"
    "ed_op_class (dx_execution_data (issued st pc_succ env w)) = pattern OpClass cls"
    "ed_pipe_msg (dx_execution_data (issued st pc_succ env w)) = payload"
    "fh_pc (dx_hdr (issued st pc_succ env w)) = g_pc st"
    "msg_valid (dx_hdr (issued st pc_succ env w))"
  using assms
  by (simp_all add: issued_def fetched_def decode_stage_def rename_stage_def dispatch_stage_def rename_hdr_def decoded_def Let_def)

lemma operand_fields:
  "operand ''rs1'' w = inst_rs1 w" "operand ''rs2'' w = inst_rs2 w" "operand ''rd'' w = inst_rd w"
  unfolding operand_def rv_inst_mask_defs
  by (rule bit_word_eqI; auto simp: field_bits_simps)+

lemma operand_imms:
  "scast (imm_decode 0 w) = (scast (operand ''i_imm'' w :: 12 word) :: 64 word)"
  "scast (imm_decode 1 w) = (scast (operand ''s_imm'' w :: 12 word) :: 64 word)"
  "scast (imm_decode 2 w) = (scast (operand ''b_imm'' w :: 13 word) :: 64 word)"
  "scast (imm_decode 4 w) = (scast (operand ''j_imm'' w :: 21 word) :: 64 word)"
  unfolding operand_def imm_decode_def rv_inst_mask_defs
  by (rule bit_word_eqI; auto simp: field_bits_simps)+

lemma operand_upper:
  "push_bit 12 (scast (imm_decode 3 w)) = (scast (augment_u_imm (operand ''u_imm'' w)) :: 64 word)"
  unfolding operand_def imm_decode_def rv_inst_mask_defs augment_u_imm_def
  by (rule bit_word_eqI; auto simp: field_bits_simps)

end
