(* ===== verification/Datapath_Correct.thy ===== *)
theory Datapath_Correct
  imports Datapath
begin

text \<open>The datapath computes what the golden model does, for every instruction of the computational, memory, branch and
  jump classes.\<close>

section \<open>The ALU pipe\<close>

definition alu_src2 :: "dispatch_msg \<Rightarrow> 64 word" where
  "alu_src2 m = (if dx_rs2_val m then dx_rs2 m else scast (ed_imm (dx_execution_data m)))"

abbreviation "alu_payload m f u o32 \<equiv> ed_pipe_msg (dx_execution_data m) = ucast (alu_msg f u o32)"

lemmas alu_exec_64 = alu_exec_correct [where ?'x = 64 and k = 6, simplified]

lemmas alu_stage_simps = alu_stage_def Let_def alu_msg_fields patterns alu_op_lookup alu_exec_64 zero_execute_def alu_src2_def

lemma alu_fields:
  "ex_rd_val (alu_stage m) = dx_rd_val m" "ex_areg_d (alu_stage m) = dx_areg_d m"
  by (simp_all add: alu_stage_def Let_def case_prod_unfold)

lemma alu_results:
  "alu_payload m ''ALU_FUNC_ADD'' False False \<Longrightarrow> ex_result (alu_stage m) = dx_rs1 m + alu_src2 m"
  "alu_payload m ''ALU_FUNC_SUB'' False False \<Longrightarrow> ex_result (alu_stage m) = dx_rs1 m - alu_src2 m"
  "alu_payload m ''ALU_FUNC_SLL'' False False \<Longrightarrow> ex_result (alu_stage m) = push_bit (unat (alu_src2 m) mod 64) (dx_rs1 m)"
  "alu_payload m ''ALU_FUNC_SLT'' False False \<Longrightarrow> ex_result (alu_stage m) = of_bool (dx_rs1 m <s alu_src2 m)"
  "alu_payload m ''ALU_FUNC_SLT'' True False \<Longrightarrow> ex_result (alu_stage m) = of_bool (dx_rs1 m < alu_src2 m)"
  "alu_payload m ''ALU_FUNC_XOR'' False False \<Longrightarrow> ex_result (alu_stage m) = dx_rs1 m XOR alu_src2 m"
  "alu_payload m ''ALU_FUNC_SRL'' False False \<Longrightarrow> ex_result (alu_stage m) = drop_bit (unat (alu_src2 m) mod 64) (dx_rs1 m)"
  "alu_payload m ''ALU_FUNC_SRA'' False False \<Longrightarrow> ex_result (alu_stage m) = signed_drop_bit (unat (alu_src2 m) mod 64) (dx_rs1 m)"
  "alu_payload m ''ALU_FUNC_OR'' False False \<Longrightarrow> ex_result (alu_stage m) = dx_rs1 m OR alu_src2 m"
  "alu_payload m ''ALU_FUNC_AND'' False False \<Longrightarrow> ex_result (alu_stage m) = dx_rs1 m AND alu_src2 m"
  by (simp_all add: alu_stage_simps)

lemma alu_upper_results:
  "alu_payload m ''ALU_FUNC_LUI'' False False \<Longrightarrow> \<not> dx_rs2_val m \<Longrightarrow> ex_result (alu_stage m) = push_bit 12 (alu_src2 m)"
  "alu_payload m ''ALU_FUNC_AUIPC'' False False \<Longrightarrow> \<not> dx_rs2_val m \<Longrightarrow>
     ex_result (alu_stage m) = fh_pc (dx_hdr m) + push_bit 12 (alu_src2 m)"
  by (simp_all add: alu_stage_simps)

text \<open>The low half of an operation on extended words.\<close>

lemma low_half:
  fixes a b :: "32 word" and y :: "64 word"
  shows "ucast (scast a :: 64 word) = a" "ucast (ucast a :: 64 word) = a"
    and "ucast (push_bit n (scast a :: 64 word)) = push_bit n a" "ucast (drop_bit n (ucast a :: 64 word)) = drop_bit n a"
    and "ucast (signed_drop_bit n (scast a :: 64 word)) = signed_drop_bit n a"
proof -
  show "ucast (signed_drop_bit n (scast a :: 64 word)) = signed_drop_bit n a"
    by (rule bit_word_eqI) (auto simp: bit_simps bit_signed_drop_bit_iff)
qed (rule bit_word_eqI; auto simp: bit_simps dest: bit_imp_le_length)+

lemma low_half_sums:
  fixes x y :: "64 word"
  shows "ucast (x + y) = (ucast x + ucast y :: 32 word)" "ucast (x - y) = (ucast x - ucast y :: 32 word)"
proof -
  have 1: "take_bit 32 (take_bit 64 a + take_bit 64 b) = take_bit 32 (a + b)"
    and 2: "take_bit 32 (take_bit 64 a - take_bit 64 b) = take_bit 32 (a - b)" for a b :: int
    using take_bit_add [of 32 "take_bit 64 a" "take_bit 64 b"] take_bit_add [of 32 a b]
      take_bit_diff [of 32 "take_bit 64 a" "take_bit 64 b"] take_bit_diff [of 32 a b] by simp_all
  show "ucast (x + y) = (ucast x + ucast y :: 32 word)" "ucast (x - y) = (ucast x - ucast y :: 32 word)"
    by (transfer; simp add: 1 2)+
qed

lemma word_shift_amount:
  "unat (set_slice 5 (0 :: 1 word) (scast (ucast x :: 32 word) :: 64 word)) mod 64 = unat (take_bit 5 x)"
  "unat (set_slice 5 (0 :: 1 word) (ucast (ucast x :: 32 word) :: 64 word)) mod 64 = unat (take_bit 5 x)" for x :: "64 word"
proof -
  have "take_bit 6 (set_slice 5 (0 :: 1 word) (scast (ucast x :: 32 word) :: 64 word)) = take_bit 5 x"
    by (rule bit_word_eqI) (auto simp: bit_simps bit_set_slice)
  moreover have "take_bit 6 (set_slice 5 (0 :: 1 word) (ucast (ucast x :: 32 word) :: 64 word)) = take_bit 5 x"
    by (rule bit_word_eqI) (auto simp: bit_simps bit_set_slice)
  moreover have "unat y mod 64 = unat (take_bit 6 y)" for y :: "64 word"
    by (simp only: unsigned_take_bit_eq) (simp add: take_bit_eq_mod)
  ultimately show "unat (set_slice 5 (0 :: 1 word) (scast (ucast x :: 32 word) :: 64 word)) mod 64 = unat (take_bit 5 x)"
    "unat (set_slice 5 (0 :: 1 word) (ucast (ucast x :: 32 word) :: 64 word)) mod 64 = unat (take_bit 5 x)" by metis+
qed

definition alu_shamt32 :: "dispatch_msg \<Rightarrow> nat" where
  "alu_shamt32 m = (if dx_rs2_val m then unat (take_bit 5 (dx_rs2 m)) else unat (alu_src2 m) mod 64)"

lemma set_slice_same: "set_slice k (of_bool (bit x k) :: 1 word) x = x" for x :: "64 word"
  by (rule bit_word_eqI) (auto simp: bit_set_slice bit_simps less_Suc_eq_le dest: le_antisym)

lemma alu_word_results:
  "alu_payload m ''ALU_FUNC_ADD'' False True \<Longrightarrow> ex_result (alu_stage m) = scast (ucast (dx_rs1 m) + ucast (alu_src2 m) :: 32 word)"
  "alu_payload m ''ALU_FUNC_SUB'' False True \<Longrightarrow> ex_result (alu_stage m) = scast (ucast (dx_rs1 m) - ucast (alu_src2 m) :: 32 word)"
  "alu_payload m ''ALU_FUNC_SLL'' False True \<Longrightarrow> ex_result (alu_stage m) = scast (push_bit (alu_shamt32 m) (ucast (dx_rs1 m) :: 32 word))"
  "alu_payload m ''ALU_FUNC_SRL'' False True \<Longrightarrow> ex_result (alu_stage m) = scast (drop_bit (alu_shamt32 m) (ucast (dx_rs1 m) :: 32 word))"
  "alu_payload m ''ALU_FUNC_SRA'' False True \<Longrightarrow> ex_result (alu_stage m) = scast (signed_drop_bit (alu_shamt32 m) (ucast (dx_rs1 m) :: 32 word))"
  by (simp_all add: alu_stage_simps alu_shamt32_def low_half low_half_sums word_shift_amount set_slice_same)

section \<open>The golden model's step\<close>

text \<open>What \<open>execute\<close> does with the packet of a method that does not raise an exception.\<close>

definition golden_next :: "('m golden \<times> packet) option \<Rightarrow> 'm golden option" where
  "golden_next r =
     (case r of Some (st, Nothing) \<Rightarrow> Some (st\<lparr>g_pc := g_pc st + 4\<rparr>)
      | Some (st, ProcRedirect target) \<Rightarrow> Some (st\<lparr>g_pc := target\<rparr>)
      | _ \<Rightarrow> None)"

lemma reg_set_pc: "reg_set r v (st\<lparr>g_pc := p\<rparr>) = (reg_set r v st)\<lparr>g_pc := p\<rparr>" "g_pc (reg_set r v st) = g_pc st"
  by (simp_all add: reg_set_def)

lemma put_next: "golden_next (put st w v) = Some (reg_set (inst_rd w) v (st\<lparr>g_pc := g_pc st + 4\<rparr>))"
  by (simp add: golden_next_def put_def operand_fields reg_set_pc)

lemma source_values: "rs1_val st w = reg_get st (inst_rs1 w)" "rs2_val st w = reg_get st (inst_rs2 w)"
  by (simp_all add: rs1_val_def rs2_val_def operand_fields)

lemma alu_row:
  assumes "composed_decoder w = decoded flags ''OP_CLASS_ALU'' (ucast (alu_msg f u o32))" "sd_rd_val flags"
    and result: "\<And>m. alu_payload m f u o32 \<Longrightarrow> dx_rs1 m = rs1_val st w \<Longrightarrow> dx_rs2_val m = sd_rs2_val flags \<Longrightarrow>
      dx_rs2 m = rs2_val st w \<Longrightarrow> ed_imm (dx_execution_data m) = imm_decode (sd_imm_type flags) w \<Longrightarrow>
      fh_pc (dx_hdr m) = g_pc st \<Longrightarrow> ex_result (alu_stage m) = v"
  shows "golden_next (put st w v) = Some (datapath mem ps env st w)"
  using assms(2) result [of "issued st ps env w"]
  by (simp add: source_values issued_fields [OF assms(1)] put_next datapath_def after_pipe_def pipe_sort_def patterns write_back_def alu_fields Let_def)

lemma signed_less: "sint a < sint b \<longleftrightarrow> a <s b" for a b :: "64 word"
  by (simp add: word_sless_alt)

lemma signed_less_imm: "sint a < sint i \<longleftrightarrow> a <s scast i" for a :: "64 word" and i :: "12 word"
  using sint_up_scast [of i, where ?'b = 64] by (simp add: word_sless_alt is_up)

lemma shift_right_signed: "word_of_int (drop_bit n (sint a)) = signed_drop_bit n a" for a :: "'a::len word"
  by (simp flip: sint_signed_drop_bit_eq)

lemma shift_amount: "unat (take_bit 6 y) = unat y mod 64" "unat y mod 64 mod 64 = unat y mod 64" for y :: "64 word"
  by (simp_all only: unsigned_take_bit_eq) (simp_all add: take_bit_eq_mod)

lemma unat_extended: "LENGTH('a) \<le> 64 \<Longrightarrow> unat (ucast x :: 64 word) = unat x" for x :: "'a::len word"
  using less_le_trans [OF unsigned_less [where ?'a = nat, of x] power_increasing [of "LENGTH('a)" 64 2]]
  by (simp add: unsigned_ucast_eq take_bit_nat_eq_self)

lemma word_shift: "unat (take_bit 5 (ucast x :: 32 word)) = unat (take_bit 5 x)" for x :: "64 word"
proof -
  have "ucast (take_bit 5 (ucast x :: 32 word)) = take_bit 5 x" by (rule bit_word_eqI) (auto simp: bit_simps)
  then show ?thesis using unat_extended [of "take_bit 5 (ucast x :: 32 word)"] by simp
qed

lemma shamt_values:
  "unat (scast (imm_decode 7 w) :: 64 word) mod 64 = unat (operand ''shamt64'' w :: 6 word)"
  "inst_funct7 w \<in> {0, 32} \<Longrightarrow> unat (scast (imm_decode 7 w) :: 64 word) mod 64 = unat (operand ''shamt32'' w :: 5 word)"
proof -
  have "take_bit 6 (scast (imm_decode 7 w) :: 64 word) = ucast (operand ''shamt64'' w :: 6 word)"
    unfolding operand_def imm_decode_def rv_inst_mask_defs by (rule bit_word_eqI; auto simp: field_bits_simps)
  then show "unat (scast (imm_decode 7 w) :: 64 word) mod 64 = unat (operand ''shamt64'' w :: 6 word)"
    by (simp flip: shift_amount(1) add: unat_extended)
  show "unat (scast (imm_decode 7 w) :: 64 word) mod 64 = unat (operand ''shamt32'' w :: 5 word)" if "inst_funct7 w \<in> {0, 32}"
  proof -
    have "imm_decode 7 w = imm_decode 6 w" using imm_word_shift [OF that] imm_simple(4) by simp
    moreover have "take_bit 6 (scast (imm_decode 6 w) :: 64 word) = ucast (operand ''shamt32'' w :: 5 word)"
      unfolding operand_def imm_decode_def rv_inst_mask_defs by (rule bit_word_eqI; auto simp: field_bits_simps)
    ultimately show ?thesis by (simp flip: shift_amount(1) add: unat_extended)
  qed
qed

section \<open>Rows\<close>

lemmas alu_row_simps = alu_results alu_upper_results alu_word_results alu_src2_def alu_shamt32_def imm_flags_def decoder_flags_def
  patterns operand_imms operand_upper signed_less signed_less_imm shift_right_signed shift_amount word_shift low_half_sums add.commute

lemma op_rows:
  "inst_opcode w = 51 \<Longrightarrow> inst_funct7 w = 0 \<Longrightarrow> inst_funct3 w = 0 \<Longrightarrow> golden_next (execute_add st w) = Some (datapath mem ps env st w)"
  "inst_opcode w = 51 \<Longrightarrow> inst_funct7 w = 32 \<Longrightarrow> inst_funct3 w = 0 \<Longrightarrow> golden_next (execute_sub st w) = Some (datapath mem ps env st w)"
  "inst_opcode w = 51 \<Longrightarrow> inst_funct7 w = 0 \<Longrightarrow> inst_funct3 w = 1 \<Longrightarrow> golden_next (execute_sll st w) = Some (datapath mem ps env st w)"
  "inst_opcode w = 51 \<Longrightarrow> inst_funct7 w = 0 \<Longrightarrow> inst_funct3 w = 2 \<Longrightarrow> golden_next (execute_slt st w) = Some (datapath mem ps env st w)"
  "inst_opcode w = 51 \<Longrightarrow> inst_funct7 w = 0 \<Longrightarrow> inst_funct3 w = 3 \<Longrightarrow> golden_next (execute_sltu st w) = Some (datapath mem ps env st w)"
  "inst_opcode w = 51 \<Longrightarrow> inst_funct7 w = 0 \<Longrightarrow> inst_funct3 w = 4 \<Longrightarrow> golden_next (execute_xor st w) = Some (datapath mem ps env st w)"
  "inst_opcode w = 51 \<Longrightarrow> inst_funct7 w = 0 \<Longrightarrow> inst_funct3 w = 5 \<Longrightarrow> golden_next (execute_srl st w) = Some (datapath mem ps env st w)"
  "inst_opcode w = 51 \<Longrightarrow> inst_funct7 w = 32 \<Longrightarrow> inst_funct3 w = 5 \<Longrightarrow> golden_next (execute_sra st w) = Some (datapath mem ps env st w)"
  "inst_opcode w = 51 \<Longrightarrow> inst_funct7 w = 0 \<Longrightarrow> inst_funct3 w = 6 \<Longrightarrow> golden_next (execute_or st w) = Some (datapath mem ps env st w)"
  "inst_opcode w = 51 \<Longrightarrow> inst_funct7 w = 0 \<Longrightarrow> inst_funct3 w = 7 \<Longrightarrow> golden_next (execute_and st w) = Some (datapath mem ps env st w)"
  unfolding execute_add_def execute_sub_def execute_sll_def execute_slt_def execute_sltu_def execute_xor_def execute_srl_def execute_sra_def execute_or_def execute_and_def
  by ((rule alu_row, rule decodes_op, assumption+)[1], (simp add: decoder_flags_def imm_flags_def; fail), (simp add: alu_row_simps; fail))+

lemma op32_rows:
  "inst_opcode w = 59 \<Longrightarrow> inst_funct7 w = 0 \<Longrightarrow> inst_funct3 w = 0 \<Longrightarrow> golden_next (execute_addw st w) = Some (datapath mem ps env st w)"
  "inst_opcode w = 59 \<Longrightarrow> inst_funct7 w = 32 \<Longrightarrow> inst_funct3 w = 0 \<Longrightarrow> golden_next (execute_subw st w) = Some (datapath mem ps env st w)"
  "inst_opcode w = 59 \<Longrightarrow> inst_funct7 w = 0 \<Longrightarrow> inst_funct3 w = 1 \<Longrightarrow> golden_next (execute_sllw st w) = Some (datapath mem ps env st w)"
  "inst_opcode w = 59 \<Longrightarrow> inst_funct7 w = 0 \<Longrightarrow> inst_funct3 w = 5 \<Longrightarrow> golden_next (execute_srlw st w) = Some (datapath mem ps env st w)"
  "inst_opcode w = 59 \<Longrightarrow> inst_funct7 w = 32 \<Longrightarrow> inst_funct3 w = 5 \<Longrightarrow> golden_next (execute_sraw st w) = Some (datapath mem ps env st w)"
  unfolding execute_addw_def execute_subw_def execute_sllw_def execute_srlw_def execute_sraw_def
  by ((rule alu_row, rule decodes_op32, assumption+)[1], (simp add: decoder_flags_def imm_flags_def; fail), (simp add: alu_row_simps; fail))+

lemma op_imm_rows:
  "inst_opcode w = 19 \<Longrightarrow> inst_funct3 w = 0 \<Longrightarrow> golden_next (execute_addi st w) = Some (datapath mem ps env st w)"
  "inst_opcode w = 19 \<Longrightarrow> inst_funct3 w = 2 \<Longrightarrow> golden_next (execute_slti st w) = Some (datapath mem ps env st w)"
  "inst_opcode w = 19 \<Longrightarrow> inst_funct3 w = 3 \<Longrightarrow> golden_next (execute_sltiu st w) = Some (datapath mem ps env st w)"
  "inst_opcode w = 19 \<Longrightarrow> inst_funct3 w = 4 \<Longrightarrow> golden_next (execute_xori st w) = Some (datapath mem ps env st w)"
  "inst_opcode w = 19 \<Longrightarrow> inst_funct3 w = 6 \<Longrightarrow> golden_next (execute_ori st w) = Some (datapath mem ps env st w)"
  "inst_opcode w = 19 \<Longrightarrow> inst_funct3 w = 7 \<Longrightarrow> golden_next (execute_andi st w) = Some (datapath mem ps env st w)"
  unfolding execute_addi_def execute_slti_def execute_sltiu_def execute_xori_def execute_ori_def execute_andi_def
  by ((rule alu_row, rule decodes_op_imm, assumption+)[1], (simp add: decoder_flags_def imm_flags_def; fail), (simp add: alu_row_simps; fail))+

lemma op_imm_shift_rows:
  "inst_opcode w = 19 \<Longrightarrow> inst_funct6 w = 0 \<Longrightarrow> inst_funct3 w = 1 \<Longrightarrow> golden_next (execute_slli st w) = Some (datapath mem ps env st w)"
  "inst_opcode w = 19 \<Longrightarrow> inst_funct6 w = 0 \<Longrightarrow> inst_funct3 w = 5 \<Longrightarrow> golden_next (execute_srli st w) = Some (datapath mem ps env st w)"
  "inst_opcode w = 19 \<Longrightarrow> inst_funct6 w = 16 \<Longrightarrow> inst_funct3 w = 5 \<Longrightarrow> golden_next (execute_srai st w) = Some (datapath mem ps env st w)"
  unfolding execute_slli_def execute_srli_def execute_srai_def
  by ((rule alu_row, rule decodes_op_imm_shift, assumption+)[1], (simp add: decoder_flags_def imm_flags_def; fail), (simp add: alu_row_simps shamt_values(1); fail))+

lemma op_imm32_rows:
  "inst_opcode w = 27 \<Longrightarrow> inst_funct3 w = 0 \<Longrightarrow> golden_next (execute_addiw st w) = Some (datapath mem ps env st w)"
  unfolding execute_addiw_def
  by ((rule alu_row, rule decodes_op_imm32, assumption+)[1], (simp add: decoder_flags_def imm_flags_def; fail), (simp add: alu_row_simps; fail))+

lemma op_imm32_shift_rows:
  "inst_opcode w = 27 \<Longrightarrow> inst_funct7 w = 0 \<Longrightarrow> inst_funct3 w = 1 \<Longrightarrow> golden_next (execute_slliw st w) = Some (datapath mem ps env st w)"
  "inst_opcode w = 27 \<Longrightarrow> inst_funct7 w = 0 \<Longrightarrow> inst_funct3 w = 5 \<Longrightarrow> golden_next (execute_srliw st w) = Some (datapath mem ps env st w)"
  "inst_opcode w = 27 \<Longrightarrow> inst_funct7 w = 32 \<Longrightarrow> inst_funct3 w = 5 \<Longrightarrow> golden_next (execute_sraiw st w) = Some (datapath mem ps env st w)"
  unfolding execute_slliw_def execute_srliw_def execute_sraiw_def
  by ((rule alu_row, rule decodes_op_imm32_shift, assumption+)[1], (simp add: decoder_flags_def imm_flags_def; fail), (simp add: alu_row_simps shamt_values(2); fail))+

lemma misc_rows:
  "inst_opcode w = 55 \<Longrightarrow> golden_next (execute_lui st w) = Some (datapath mem ps env st w)"
  "inst_opcode w = 23 \<Longrightarrow> golden_next (execute_auipc st w) = Some (datapath mem ps env st w)"
  unfolding execute_lui_def execute_auipc_def
  by ((rule alu_row, rule decodes_misc, assumption+)[1], (simp add: decoder_flags_def imm_flags_def; fail), (simp add: alu_row_simps; fail))+

section \<open>Branches and jumps\<close>

lemmas to_pipe = datapath_def after_pipe_def pipe_sort_def patterns write_back_def Let_def

lemma branch_row:
  assumes "composed_decoder w = decoded flags ''OP_CLASS_BRANCH'' (ucast (branch_msg t u))"
    and "\<not> sd_rd_val flags" "sd_imm_type flags = 2"
    and "c = comparator_exec (fst (lookup_table branch_op_map (pattern BranchType t))) (rs1_val st w) (rs2_val st w) u"
  shows "golden_next (Some (st, if c then ProcRedirect (g_pc st + scast (operand ''b_imm'' w :: 13 word)) else Nothing)) =
         Some (datapath mem ps env st w)"
  using assms(2-4)
  by (simp add: issued_fields [OF assms(1)] source_values to_pipe branch_stage_def branch_target_def branch_taken_def
      branch_msg_fields operand_imms golden_next_def zero_execute_def)

lemma branch_rows:
  "inst_opcode w = 99 \<Longrightarrow> inst_funct3 w = 0 \<Longrightarrow> golden_next (execute_beq st w) = Some (datapath mem ps env st w)"
  "inst_opcode w = 99 \<Longrightarrow> inst_funct3 w = 1 \<Longrightarrow> golden_next (execute_bne st w) = Some (datapath mem ps env st w)"
  "inst_opcode w = 99 \<Longrightarrow> inst_funct3 w = 4 \<Longrightarrow> golden_next (execute_blt st w) = Some (datapath mem ps env st w)"
  "inst_opcode w = 99 \<Longrightarrow> inst_funct3 w = 5 \<Longrightarrow> golden_next (execute_bge st w) = Some (datapath mem ps env st w)"
  "inst_opcode w = 99 \<Longrightarrow> inst_funct3 w = 6 \<Longrightarrow> golden_next (execute_bltu st w) = Some (datapath mem ps env st w)"
  "inst_opcode w = 99 \<Longrightarrow> inst_funct3 w = 7 \<Longrightarrow> golden_next (execute_bgeu st w) = Some (datapath mem ps env st w)"
  unfolding execute_beq_def execute_bne_def execute_blt_def execute_bge_def execute_bltu_def execute_bgeu_def
  by ((rule branch_row, rule decodes_branch, assumption+)[1], (simp add: decoder_flags_def imm_flags_def patterns; fail)+,
      (simp add: patterns branch_op_lookup comparator_exec_correct word_sless_alt word_sle_eq; fail))+

lemma jal_row:
  assumes "inst_opcode w = 111"
  shows "golden_next (execute_jal st w) = Some (datapath mem ps env st w)"
  by (simp add: issued_fields [OF decodes_jump(1) [OF assms]] to_pipe branch_stage_def branch_target_def branch_taken_def
      imm_flags_def decoder_flags_def operand_imms golden_next_def zero_execute_def execute_jal_def operand_fields reg_set_pc)

text \<open>The golden model clears the upper half of the target of a register jump.\<close>

lemma low_target: "t < 2 ^ 32 \<Longrightarrow> unset_bit 0 t = t AND 0xFFFFFFFE" for t :: "64 word"
proof -
  assume "t < 2 ^ 32"
  then have "take_bit 32 t = t" by (simp add: take_bit_eq_mod word_mod_def word_less_def)
  then have "t AND (mask 32 AND NOT 1) = t AND NOT 1" by (metis take_bit_eq_mask and.assoc)
  moreover have "mask 32 AND NOT 1 = (0xFFFFFFFE :: 64 word)" by (simp add: mask_eq_exp_minus_1)
  moreover have "unset_bit 0 t = t AND NOT 1" by (rule bit_word_eqI) (auto simp: bit_simps)
  ultimately show ?thesis by simp
qed

lemma jalr_row:
  assumes "inst_opcode w = 103" "inst_funct3 w = 0" "rs1_val st w + scast (operand ''i_imm'' w :: 12 word) < 2 ^ 32"
  shows "golden_next (execute_jalr st w) = Some (datapath mem ps env st w)"
  using low_target [OF assms(3)]
  by (simp add: issued_fields [OF decodes_jump(2) [OF assms(1,2)]] to_pipe branch_stage_def branch_target_def branch_taken_def
      imm_flags_def decoder_flags_def operand_imms golden_next_def zero_execute_def execute_jalr_def operand_fields reg_set_pc
      source_values)

section \<open>Multiplication and division\<close>

abbreviation "m_payload m f v o32 \<equiv> ed_pipe_msg (dx_execution_data m) = ucast (m_msg f v o32)"

lemma kept_payload: "m_payload m f v o32 \<Longrightarrow> kept_m_msg (m_kill_data m) = ucast (m_msg f v o32)"
  by (rule bit_word_eqI) (auto simp: kept_m_msg_def m_kill_data_def bit_simps zero_execute_def dest: bit_imp_le_length)

lemma m_row:
  assumes "composed_decoder w = decoded flags ''OP_CLASS_MUL'' (ucast (m_msg f v o32))" "sd_rd_val flags"
    and result: "\<And>m. m_payload m f v o32 \<Longrightarrow> kept_m_msg (m_kill_data m) = ucast (m_msg f v o32) \<Longrightarrow>
      dx_rs1 m = rs1_val st w \<Longrightarrow> dx_rs2 m = rs2_val st w \<Longrightarrow> ex_result (m_result m) = r"
  shows "golden_next (put st w r) = Some (datapath mem ps env st w)"
proof -
  have "ex_rd_val (m_result m) = dx_rd_val m" "ex_areg_d (m_result m) = dx_areg_d m" for m
    by (simp_all add: m_result_def Let_def case_prod_unfold mult_output_def div_output_def m_kill_data_def zero_execute_def)
  then show ?thesis
    using assms(2) result [of "issued st ps env w"]
    by (simp add: source_values issued_fields [OF assms(1)] put_next kept_payload to_pipe)
qed

lemma m_results:
  "m_payload m ''M_FUNC_MUL'' v o32 \<Longrightarrow> kept_m_msg (m_kill_data m) = ucast (m_msg ''M_FUNC_MUL'' v o32) \<Longrightarrow>
   ex_result (m_result m) = ex_result (mult_output (case mult_inputs m of (a, sa, b, sb) \<Rightarrow> mul_product sa a sb b) (m_kill_data m))"
  "m_payload m ''M_FUNC_DIV'' v o32 \<Longrightarrow>
   ex_result (m_result m) = ex_result (case div_inputs m of (a, b, sg) \<Rightarrow> case div_result sg a b of (q, r) \<Rightarrow> div_output q r (m_kill_data m))"
  "m_payload m ''M_FUNC_REM'' v o32 \<Longrightarrow>
   ex_result (m_result m) = ex_result (case div_inputs m of (a, b, sg) \<Rightarrow> case div_result sg a b of (q, r) \<Rightarrow> div_output q r (m_kill_data m))"
  by (auto simp: m_result_def m_msg_fields patterns split: prod.split)

lemmas m_stage_simps = mult_inputs_def div_inputs_def mult_output_def div_output_def Let_def m_msg_fields patterns

lemma product_halves:
  "ucast (mul_product sa a sb b :: 128 word) = (word_of_int (operand_value sa a * operand_value sb b) :: 64 word)"
  "get_slice 64 (mul_product sa a sb b :: 128 word) =
     (word_of_int (drop_bit 64 ((operand_value sa a * operand_value sb b) mod 2 ^ 128)) :: 64 word)"
  "ucast (mul_product sa a sb b :: 128 word) = (word_of_int (operand_value sa a * operand_value sb b) :: 32 word)"
  unfolding mul_product_def take_bit_eq_mod [symmetric]
  by (rule bit_word_eqI; simp add: bit_simps bit_get_slice bit_word_of_int_iff del: of_int_mult)+

lemma operand_value_bounds:
  "- (2 ^ 63) \<le> operand_value True a" "operand_value True a < 2 ^ 63" "0 \<le> operand_value False a" "operand_value False a < 2 ^ 64"
  for a :: "64 word"
  using sint_ge [of a] sint_lt [of a] uint_lt2p [of a] by (simp_all add: operand_value_def)

lemma product_fits: "py_bits 128 (operand_value sa a * operand_value sb b) = Some ((operand_value sa a * operand_value sb b) mod 2 ^ 128)"
  for a b :: "64 word"
proof -
  let ?x = "operand_value sa a" and ?y = "operand_value sb b"
  have b: "\<bar>operand_value s x\<bar> \<le> (if s then 2 ^ 63 else 2 ^ 64 - 1)" for s and x :: "64 word"
    using operand_value_bounds [of x] by (cases s) auto
  have "\<bar>?x * ?y\<bar> \<le> (if sa then 2 ^ 63 else 2 ^ 64 - 1) * (if sb then 2 ^ 63 else 2 ^ 64 - 1)"
    unfolding abs_mult by (rule mult_mono [OF b b]) auto
  moreover have "\<not> sa \<and> \<not> sb \<Longrightarrow> 0 \<le> ?x * ?y" using operand_value_bounds(3) by (auto intro!: mult_nonneg_nonneg)
  ultimately have "- (2 ^ 127) \<le> ?x * ?y" "?x * ?y < 2 ^ 128" by (cases sa; cases sb; simp)+
  then show ?thesis by (simp add: py_bits_def)
qed

lemma mul_rows:
  "inst_opcode w = 51 \<Longrightarrow> inst_funct7 w = 1 \<Longrightarrow> inst_funct3 w = 0 \<Longrightarrow> golden_next (execute_mul st w) = Some (datapath mem ps env st w)"
  "inst_opcode w = 51 \<Longrightarrow> inst_funct7 w = 1 \<Longrightarrow> inst_funct3 w = 1 \<Longrightarrow> golden_next (execute_mulh st w) = Some (datapath mem ps env st w)"
  "inst_opcode w = 51 \<Longrightarrow> inst_funct7 w = 1 \<Longrightarrow> inst_funct3 w = 2 \<Longrightarrow> golden_next (execute_mulhsu st w) = Some (datapath mem ps env st w)"
  "inst_opcode w = 51 \<Longrightarrow> inst_funct7 w = 1 \<Longrightarrow> inst_funct3 w = 3 \<Longrightarrow> golden_next (execute_mulhu st w) = Some (datapath mem ps env st w)"
  unfolding execute_mul_def execute_mulh_def execute_mulhsu_def execute_mulhu_def
    product_fits [of True _ True, unfolded operand_value_def, simplified]
    product_fits [of True _ False, unfolded operand_value_def, simplified]
    product_fits [of False _ False, unfolded operand_value_def, simplified] bind.bind_lunit
  by ((rule m_row, rule decodes_m_op, assumption+)[1], (simp add: decoder_flags_def; fail),
      (simp add: m_results m_stage_simps product_halves operand_value_def; fail))+

lemma mulw_row:
  "inst_opcode w = 59 \<Longrightarrow> inst_funct7 w = 1 \<Longrightarrow> inst_funct3 w = 0 \<Longrightarrow> golden_next (execute_mulw st w) = Some (datapath mem ps env st w)"
  unfolding execute_mulw_def
  by ((rule m_row, rule decodes_m_op32, assumption+)[1], (simp add: decoder_flags_def; fail),
      (simp add: m_results m_stage_simps product_halves operand_value_def sint_up_scast is_up; fail))

lemma py_bits_range:
  assumes "\<bar>k\<bar> \<le> 2 ^ (n - 1)" "0 < n"
  shows "py_bits n k = Some (k mod 2 ^ n)"
proof -
  have "(2 :: int) ^ (n - 1) < 2 ^ n" using assms(2) by simp
  then have "k < 2 ^ n" "- (2 ^ (n - 1)) \<le> k" using assms by linarith+
  then show ?thesis by (simp add: py_bits_def)
qed

lemma signed_range: "\<bar>sint a\<bar> \<le> 2 ^ (LENGTH('a) - 1)" for a :: "'a::len word"
  using sint_ge [of a] sint_lt [of a] by auto

lemma abs_py_sign: "\<bar>py_sign k\<bar> = 1"
  by (simp add: py_sign_def)

lemma sane_divide_range: "0 < n \<Longrightarrow> \<bar>a\<bar> \<le> 2 ^ (n - 1) \<Longrightarrow> \<bar>sane_divide a b n\<bar> \<le> 2 ^ (n - 1)"
proof -
  assume a: "\<bar>a\<bar> \<le> 2 ^ (n - 1)"
  have "\<bar>a\<bar> div \<bar>b\<bar> \<le> \<bar>a\<bar>" by (simp add: zdiv_le_self)
  moreover have "0 \<le> \<bar>a\<bar> div \<bar>b\<bar>" by (simp add: div_int_pos_iff)
  ultimately show ?thesis using a by (simp add: sane_divide_def abs_mult abs_py_sign)
qed

lemma sane_rem_range: "0 < n \<Longrightarrow> \<bar>a\<bar> \<le> 2 ^ (n - 1) \<Longrightarrow> \<bar>sane_rem a b n\<bar> \<le> 2 ^ (n - 1)"
proof -
  assume a: "\<bar>a\<bar> \<le> 2 ^ (n - 1)"
  have "\<bar>a\<bar> mod \<bar>b\<bar> \<le> \<bar>a\<bar>" by (rule zmod_le_nonneg_dividend) simp
  moreover have "b \<noteq> 0 \<Longrightarrow> 0 \<le> \<bar>a\<bar> mod \<bar>b\<bar>" by simp
  ultimately show ?thesis using a by (auto simp: sane_rem_def abs_mult abs_py_sign)
qed

lemma py_sign_mult: "b \<noteq> 0 \<Longrightarrow> (\<bar>a\<bar> div \<bar>b\<bar>) * (py_sign a * py_sign b) = a sdiv b"
  "b \<noteq> 0 \<Longrightarrow> (\<bar>a\<bar> mod \<bar>b\<bar>) * py_sign a = a smod b"
  by (cases a "0 :: int" rule: linorder_cases; cases b "0 :: int" rule: linorder_cases;
      simp add: py_sign_def signed_divide_int_def signed_modulo_int_def sgn_if)+

lemma word_of_int_half: "word_of_int (- (2 ^ (LENGTH('a) - 1))) = (word_of_int (2 ^ (LENGTH('a) - 1)) :: 'a::len word)"
proof -
  have "(2 :: int) ^ (LENGTH('a) - 1) + 2 ^ (LENGTH('a) - 1) = 2 ^ LENGTH('a)"
    by (metis len_gt_0 mult_2 power_minus_mult mult.commute)
  then have "(- (2 ^ (LENGTH('a) - 1)) :: int) mod 2 ^ LENGTH('a) = 2 ^ (LENGTH('a) - 1) mod 2 ^ LENGTH('a)"
    by (metis add_diff_cancel_left' diff_0 minus_mod_self2 diff_minus_eq_add add.commute add_uminus_conv_diff minus_add_cancel mod_add_self2)
  then show ?thesis unfolding word_of_int_eq_iff take_bit_eq_mod .
qed

lemma sane_divide_result:
  fixes a b :: "'a::len word"
  shows "word_of_int (sane_divide (sint a) (sint b) LENGTH('a)) = fst (div_result True a b)"
    and "word_of_int (sane_rem (sint a) (sint b) LENGTH('a)) = snd (div_result True a b)"
    and "word_of_int (sane_divide (uint a) (uint b) LENGTH('a)) = fst (div_result False a b)"
    and "word_of_int (sane_rem (uint a) (uint b) LENGTH('a)) = snd (div_result False a b)"
proof -
  have z: "sint b = 0 \<longleftrightarrow> b = 0" by (metis sint_0 signed_word_eqI)
  show "word_of_int (sane_divide (sint a) (sint b) LENGTH('a)) = fst (div_result True a b)"
    using word_of_int_half [where ?'a = 'a]
    by (auto simp: sane_divide_def div_result_def z py_sign_mult signed_divide_int_def)
  show "word_of_int (sane_rem (sint a) (sint b) LENGTH('a)) = snd (div_result True a b)"
    by (auto simp: sane_rem_def div_result_def z py_sign_mult signed_modulo_int_def)
  have u: "uint a \<noteq> - (2 ^ (LENGTH('a) - 1))" using uint_ge_0 [of a] by (metis neg_0_le_iff_le not_less zero_less_numeral zero_less_power)
  show "word_of_int (sane_divide (uint a) (uint b) LENGTH('a)) = fst (div_result False a b)"
    using u by (auto simp: sane_divide_def div_result_def word_div_def py_sign_def uint_0_iff)
  show "word_of_int (sane_rem (uint a) (uint b) LENGTH('a)) = snd (div_result False a b)"
    using u by (auto simp: sane_rem_def div_result_def word_mod_def py_sign_def uint_0_iff)
qed

lemma unsigned_range:
  assumes "0 < n" "0 \<le> a" "a < 2 ^ n" "0 \<le> b"
  shows "py_bits n (sane_divide a b n) = Some (sane_divide a b n mod 2 ^ n)" "py_bits n (sane_rem a b n) = Some (sane_rem a b n mod 2 ^ n)"
proof -
  have "a div b \<le> a" "0 \<le> a div b" using assms by (simp_all add: zdiv_le_self div_int_pos_iff)
  moreover have "a mod b \<le> a" "0 \<le> a mod b" using assms zmod_le_nonneg_dividend [of a b] by (simp, cases "b = 0", simp_all)
  moreover have "a \<noteq> - (2 ^ (n - 1))" using assms by (metis neg_0_le_iff_le not_less zero_less_numeral zero_less_power)
  ultimately have "- 1 \<le> sane_divide a b n \<and> sane_divide a b n < 2 ^ n" "0 \<le> sane_rem a b n \<and> sane_rem a b n < 2 ^ n"
    using assms by (auto simp: sane_divide_def sane_rem_def py_sign_def)
  moreover have "- (2 ^ (n - 1)) \<le> (- 1 :: int)" by simp
  ultimately show "py_bits n (sane_divide a b n) = Some (sane_divide a b n mod 2 ^ n)"
    "py_bits n (sane_rem a b n) = Some (sane_rem a b n mod 2 ^ n)"
    unfolding py_bits_def by (metis order_trans zero_le_power neg_le_0_iff_le zero_le_numeral)+
qed

lemma sane_py_bits:
  fixes a b :: "'a::len word"
  defines "n \<equiv> LENGTH('a)"
  shows "py_bits n (sane_divide (sint a) k n) = Some (sane_divide (sint a) k n mod 2 ^ n)"
    "py_bits n (sane_rem (sint a) k n) = Some (sane_rem (sint a) k n mod 2 ^ n)"
    "py_bits n (sane_divide (uint a) (uint b) n) = Some (sane_divide (uint a) (uint b) n mod 2 ^ n)"
    "py_bits n (sane_rem (uint a) (uint b) n) = Some (sane_rem (uint a) (uint b) n mod 2 ^ n)"
  unfolding n_def
  by (rule py_bits_range sane_divide_range sane_rem_range signed_range unsigned_range len_gt_0 uint_ge_0 uint_lt2p)+

lemma word_of_int_mod: "word_of_int (k mod 2 ^ LENGTH('a)) = (word_of_int k :: 'a::len word)"
  by (simp add: word_of_int_eq_iff take_bit_eq_mod)

lemma div_put:
  "do { v \<leftarrow> py_bits 64 (sane_divide (sint x) (sint y) 64); put st w (word_of_int v) } = put st w (fst (div_result True x y))"
  "do { v \<leftarrow> py_bits 64 (sane_divide (uint x) (uint y) 64); put st w (word_of_int v) } = put st w (fst (div_result False x y))"
  "do { v \<leftarrow> py_bits 64 (sane_rem (sint x) (sint y) 64); put st w (word_of_int v) } = put st w (snd (div_result True x y))"
  "do { v \<leftarrow> py_bits 64 (sane_rem (uint x) (uint y) 64); put st w (word_of_int v) } = put st w (snd (div_result False x y))"
  for x y :: "64 word"
  using sane_py_bits [where ?'a = 64] sane_divide_result [where ?'a = 64] word_of_int_mod [where ?'a = 64]
  by simp_all

lemma div32_put:
  "do { v \<leftarrow> py_bits 32 (sane_divide (sint x) (sint y) 32); put st w (scast (word_of_int v :: 32 word)) } = put st w (scast (fst (div_result True x y)))"
  "do { v \<leftarrow> py_bits 32 (sane_divide (uint x) (uint y) 32); put st w (scast (word_of_int v :: 32 word)) } = put st w (scast (fst (div_result False x y)))"
  "do { v \<leftarrow> py_bits 32 (sane_rem (sint x) (sint y) 32); put st w (scast (word_of_int v :: 32 word)) } = put st w (scast (snd (div_result True x y)))"
  "do { v \<leftarrow> py_bits 32 (sane_rem (uint x) (uint y) 32); put st w (scast (word_of_int v :: 32 word)) } = put st w (scast (snd (div_result False x y)))"
  for x y :: "32 word"
  using sane_py_bits [where ?'a = 32] sane_divide_result [where ?'a = 32] word_of_int_mod [where ?'a = 32]
  by simp_all

lemma div_rows:
  "inst_opcode w = 51 \<Longrightarrow> inst_funct7 w = 1 \<Longrightarrow> inst_funct3 w = 4 \<Longrightarrow> golden_next (execute_div st w) = Some (datapath mem ps env st w)"
  "inst_opcode w = 51 \<Longrightarrow> inst_funct7 w = 1 \<Longrightarrow> inst_funct3 w = 5 \<Longrightarrow> golden_next (execute_divu st w) = Some (datapath mem ps env st w)"
  "inst_opcode w = 51 \<Longrightarrow> inst_funct7 w = 1 \<Longrightarrow> inst_funct3 w = 6 \<Longrightarrow> golden_next (execute_rem st w) = Some (datapath mem ps env st w)"
  "inst_opcode w = 51 \<Longrightarrow> inst_funct7 w = 1 \<Longrightarrow> inst_funct3 w = 7 \<Longrightarrow> golden_next (execute_remu st w) = Some (datapath mem ps env st w)"
  unfolding execute_div_def execute_divu_def execute_rem_def execute_remu_def div_put
  by ((rule m_row, rule decodes_m_op, assumption+)[1], (simp add: decoder_flags_def; fail),
      (simp add: m_results m_stage_simps case_prod_unfold; fail))+

lemma half_divide:
  fixes a b :: "32 word"
  shows "ucast (fst (div_result True (scast a :: 64 word) (scast b))) = fst (div_result True a b)"
    and "ucast (snd (div_result True (scast a :: 64 word) (scast b))) = snd (div_result True a b)"
    and "ucast (fst (div_result False (ucast a :: 64 word) (ucast b))) = fst (div_result False a b)"
    and "ucast (snd (div_result False (ucast a :: 64 word) (ucast b))) = snd (div_result False a b)"
proof -
  have s: "(scast b :: 64 word) = 0 \<longleftrightarrow> b = 0" "(ucast b :: 64 word) = 0 \<longleftrightarrow> b = 0"
    by (metis low_half(1) scast_0 ucast_0) (metis low_half(2) ucast_0)
  have e: "sint (scast x :: 64 word) = sint x" "uint (ucast x :: 64 word) = uint x" for x :: "32 word"
    by (simp_all add: sint_up_scast is_up unsigned_ucast_eq take_bit_int_eq_self uint_lt2p less_le_trans [OF uint_lt2p])
  have c: "ucast (word_of_int k :: 64 word) = (word_of_int k :: 32 word)" for k by (rule ucast_word_of_int) simp
  show "ucast (fst (div_result True (scast a :: 64 word) (scast b))) = fst (div_result True a b)"
    and "ucast (snd (div_result True (scast a :: 64 word) (scast b))) = snd (div_result True a b)"
    and "ucast (fst (div_result False (ucast a :: 64 word) (ucast b))) = fst (div_result False a b)"
    and "ucast (snd (div_result False (ucast a :: 64 word) (ucast b))) = snd (div_result False a b)"
    by (auto simp: div_result_def s e c low_half word_div_def word_mod_def c [of "- 1", simplified])
qed

lemma div32_rows:
  "inst_opcode w = 59 \<Longrightarrow> inst_funct7 w = 1 \<Longrightarrow> inst_funct3 w = 4 \<Longrightarrow> golden_next (execute_divw st w) = Some (datapath mem ps env st w)"
  "inst_opcode w = 59 \<Longrightarrow> inst_funct7 w = 1 \<Longrightarrow> inst_funct3 w = 5 \<Longrightarrow> golden_next (execute_divuw st w) = Some (datapath mem ps env st w)"
  "inst_opcode w = 59 \<Longrightarrow> inst_funct7 w = 1 \<Longrightarrow> inst_funct3 w = 6 \<Longrightarrow> golden_next (execute_remw st w) = Some (datapath mem ps env st w)"
  "inst_opcode w = 59 \<Longrightarrow> inst_funct7 w = 1 \<Longrightarrow> inst_funct3 w = 7 \<Longrightarrow> golden_next (execute_remuw st w) = Some (datapath mem ps env st w)"
  unfolding execute_divw_def execute_divuw_def execute_remw_def execute_remuw_def div32_put
  by ((rule m_row, rule decodes_m_op32, assumption+)[1], (simp add: decoder_flags_def; fail),
      (simp add: m_results m_stage_simps case_prod_unfold half_divide; fail))+

section \<open>Memory\<close>

text \<open>The bytes a memory returns for a load of \<open>n\<close> bytes.\<close>

definition bytes_ok :: "'m memory_ops \<Rightarrow> bool" where
  "bytes_ok mem \<longleftrightarrow> (\<forall>s a n. 0 \<le> mo_load mem s a n \<and> mo_load mem s a n < 2 ^ (8 * n))"

lemma load_row:
  assumes "inst_opcode w = 3" "inst_funct3 w = k" "k \<in> {0, 1, 2, 3, 4, 5, 6}"
    and width: "unat (push_bit (unat (word_of_int k :: 2 word)) 1 :: 4 word) = n"
    and "\<And>m. mem_msg_unsigned (ed_pipe_msg (dx_execution_data m)) = bit k 2 \<Longrightarrow>
      mem_msg_width (ed_pipe_msg (dx_execution_data m)) = word_of_int k \<Longrightarrow>
      mem_msg_func (ed_pipe_msg (dx_execution_data m)) = 0 \<Longrightarrow>
      load_result m (word_of_int (mo_load mem (g_mem st) (rs1_val st w + scast (operand ''i_imm'' w :: 12 word)) n)) = v"
  shows "golden_next (put st w v) = Some (datapath mem ps env st w)"
proof -
  note d = decodes_load [OF assms(1), unfolded assms(2), OF assms(3)]
  show ?thesis
    using assms(5) [of "issued st ps env w"] width
    by (simp add: issued_fields [OF d] source_values put_next to_pipe is_load_def mem_payload_fields mem_payload_fields(2,3) [OF assms(2)]
        mem_addr_def mem_len_def mem_response_stage_def zero_execute_def imm_flags_def decoder_flags_def operand_imms)
qed

lemma load_values:
  "scast (ucast (word_of_int v :: 64 word) :: 8 word) = (word_of_int (signed_take_bit 7 v) :: 64 word)"
  "scast (ucast (word_of_int v :: 64 word) :: 16 word) = (word_of_int (signed_take_bit 15 v) :: 64 word)"
  "scast (ucast (word_of_int v :: 64 word) :: 32 word) = (word_of_int (signed_take_bit 31 v) :: 64 word)"
  "word_of_int (signed_take_bit 63 v) = (word_of_int v :: 64 word)"
  "ucast (ucast (word_of_int v :: 64 word) :: 8 word) = (word_of_int (take_bit 8 v) :: 64 word)"
  "ucast (ucast (word_of_int v :: 64 word) :: 16 word) = (word_of_int (take_bit 16 v) :: 64 word)"
  "ucast (ucast (word_of_int v :: 64 word) :: 32 word) = (word_of_int (take_bit 32 v) :: 64 word)"
proof -
  show "word_of_int (signed_take_bit 63 v) = (word_of_int v :: 64 word)"
    by (rule bit_word_eqI) (auto simp: bit_simps bit_word_of_int_iff min_def less_Suc_eq_le dest!: le_antisym)
qed (rule bit_word_eqI; auto simp: bit_simps bit_word_of_int_iff min_def)+

lemma bytes_taken: "bytes_ok mem \<Longrightarrow> 8 * n = k \<Longrightarrow> take_bit k (mo_load mem s a n) = mo_load mem s a n"
  unfolding bytes_ok_def by (metis take_bit_int_eq_self)

lemma load_rows:
  assumes "inst_opcode w = 3" "bytes_ok mem"
  shows
    "inst_funct3 w = 0 \<Longrightarrow> golden_next (execute_lb mem st w) = Some (datapath mem ps env st w)"
    and "inst_funct3 w = 1 \<Longrightarrow> golden_next (execute_lh mem st w) = Some (datapath mem ps env st w)"
    and "inst_funct3 w = 2 \<Longrightarrow> golden_next (execute_lw mem st w) = Some (datapath mem ps env st w)"
    and "inst_funct3 w = 3 \<Longrightarrow> golden_next (execute_ld mem st w) = Some (datapath mem ps env st w)"
    and "inst_funct3 w = 4 \<Longrightarrow> golden_next (execute_lbu mem st w) = Some (datapath mem ps env st w)"
    and "inst_funct3 w = 5 \<Longrightarrow> golden_next (execute_lhu mem st w) = Some (datapath mem ps env st w)"
    and "inst_funct3 w = 6 \<Longrightarrow> golden_next (execute_lwu mem st w) = Some (datapath mem ps env st w)"
  unfolding execute_lb_def execute_lh_def execute_lw_def execute_ld_def execute_lbu_def execute_lhu_def execute_lwu_def
  by ((rule load_row [OF assms(1)], assumption)[1], (simp; fail), (simp; fail),
      (simp add: load_result_def patterns Let_def load_values bytes_taken [OF assms(2)] bit_simps; fail))+

lemma store_row:
  assumes "inst_opcode w = 35" "inst_funct3 w = k" "k \<in> {0, 1, 2, 3}"
    and "unat (push_bit (unat (word_of_int k :: 2 word)) 1 :: 4 word) = n"
  shows "golden_next (Some (st\<lparr>g_mem := mo_store mem (g_mem st) (rs1_val st w + scast (operand ''s_imm'' w :: 12 word)) n
           (uint (take_bit (8 * n) (rs2_val st w)))\<rparr>, Nothing)) = Some (datapath mem ps env st w)"
proof -
  note d = decodes_store [OF assms(1), unfolded assms(2), OF assms(3)]
  show ?thesis
    using assms(4)
    by (simp add: issued_fields [OF d] source_values golden_next_def to_pipe is_load_def mem_payload_fields
        mem_payload_fields(2,3) [OF assms(2)] mem_addr_def mem_len_def mem_data_def imm_flags_def decoder_flags_def operand_imms)
qed

lemma store_rows:
  assumes "inst_opcode w = 35"
  shows
    "inst_funct3 w = 0 \<Longrightarrow> golden_next (execute_sb mem st w) = Some (datapath mem ps env st w)"
    and "inst_funct3 w = 1 \<Longrightarrow> golden_next (execute_sh mem st w) = Some (datapath mem ps env st w)"
    and "inst_funct3 w = 2 \<Longrightarrow> golden_next (execute_sw mem st w) = Some (datapath mem ps env st w)"
    and "inst_funct3 w = 3 \<Longrightarrow> golden_next (execute_sd mem st w) = Some (datapath mem ps env st w)"
  unfolding execute_sb_def execute_sh_def execute_sw_def execute_sd_def
  using store_row [OF assms, of 0 1]
    store_row [OF assms, of 1 2]
    store_row [OF assms, of 2 4]
    store_row [OF assms, of 3 8]
  by simp_all

section \<open>Fences\<close>

lemma fence_row:
  assumes "composed_decoder w = decoded flags ''OP_CLASS_SYSTEM'' (ucast (system_msg f))"
    and "f = ''SYSTEM_FUNC_FENCE'' \<or> f = ''SYSTEM_FUNC_FENCE_I''"
  shows "golden_next (Some (st, Nothing)) = Some (datapath mem ps env st w)"
  using assms(2)
  by (auto simp: issued_fields [OF assms(1)] golden_next_def to_pipe csr_stage_def system_msg_fields zero_execute_def)

lemma fence_rows:
  "inst_opcode w = 15 \<Longrightarrow> uint (cut RV_RD w) = 0 \<Longrightarrow> uint (cut RV_RS1 w) = 0 \<Longrightarrow> inst_funct3 w = 0 \<Longrightarrow>
     uint (cut RV_FENCE_UPPER w) = 0 \<Longrightarrow> golden_next (execute_fence st w) = Some (datapath mem ps env st w)"
  "inst_opcode w = 15 \<Longrightarrow> uint (cut RV_RD w) = 0 \<Longrightarrow> uint (cut RV_RS1 w) = 0 \<Longrightarrow> inst_funct3 w = 1 \<Longrightarrow>
     uint (cut RV_RS2 w) = 0 \<Longrightarrow> inst_funct7 w = 0 \<Longrightarrow> golden_next (execute_fence_i st w) = Some (datapath mem ps env st w)"
  using fence_row [OF decodes_fence] fence_row [OF decodes_fence_i] by (simp_all add: execute_fence_def execute_fence_i_def)

section \<open>All rows\<close>

definition csr_and_traps :: "string list" where
  "csr_and_traps = [''csrrw'', ''csrrs'', ''csrrc'', ''csrrwi'', ''csrrsi'', ''csrrci'', ''ecall'', ''ebreak'', ''invld'']"

lemma method_names_distinct: "distinct (map fst (methods mem))"
  unfolding methods_def list.map fst_conv by code_simp

lemma method_lookup:
  "map_of (methods mem) ''lui'' = Some (execute_lui)"
  "map_of (methods mem) ''auipc'' = Some (execute_auipc)"
  "map_of (methods mem) ''jal'' = Some (execute_jal)"
  "map_of (methods mem) ''jalr'' = Some (execute_jalr)"
  "map_of (methods mem) ''beq'' = Some (execute_beq)"
  "map_of (methods mem) ''bne'' = Some (execute_bne)"
  "map_of (methods mem) ''blt'' = Some (execute_blt)"
  "map_of (methods mem) ''bge'' = Some (execute_bge)"
  "map_of (methods mem) ''bltu'' = Some (execute_bltu)"
  "map_of (methods mem) ''bgeu'' = Some (execute_bgeu)"
  "map_of (methods mem) ''lb'' = Some (execute_lb mem)"
  "map_of (methods mem) ''lh'' = Some (execute_lh mem)"
  "map_of (methods mem) ''lw'' = Some (execute_lw mem)"
  "map_of (methods mem) ''ld'' = Some (execute_ld mem)"
  "map_of (methods mem) ''lbu'' = Some (execute_lbu mem)"
  "map_of (methods mem) ''lhu'' = Some (execute_lhu mem)"
  "map_of (methods mem) ''lwu'' = Some (execute_lwu mem)"
  "map_of (methods mem) ''sb'' = Some (execute_sb mem)"
  "map_of (methods mem) ''sh'' = Some (execute_sh mem)"
  "map_of (methods mem) ''sw'' = Some (execute_sw mem)"
  "map_of (methods mem) ''sd'' = Some (execute_sd mem)"
  "map_of (methods mem) ''addi'' = Some (execute_addi)"
  "map_of (methods mem) ''slti'' = Some (execute_slti)"
  "map_of (methods mem) ''sltiu'' = Some (execute_sltiu)"
  "map_of (methods mem) ''xori'' = Some (execute_xori)"
  "map_of (methods mem) ''ori'' = Some (execute_ori)"
  "map_of (methods mem) ''andi'' = Some (execute_andi)"
  "map_of (methods mem) ''slli'' = Some (execute_slli)"
  "map_of (methods mem) ''srli'' = Some (execute_srli)"
  "map_of (methods mem) ''srai'' = Some (execute_srai)"
  "map_of (methods mem) ''addiw'' = Some (execute_addiw)"
  "map_of (methods mem) ''slliw'' = Some (execute_slliw)"
  "map_of (methods mem) ''srliw'' = Some (execute_srliw)"
  "map_of (methods mem) ''sraiw'' = Some (execute_sraiw)"
  "map_of (methods mem) ''add'' = Some (execute_add)"
  "map_of (methods mem) ''sub'' = Some (execute_sub)"
  "map_of (methods mem) ''sll'' = Some (execute_sll)"
  "map_of (methods mem) ''slt'' = Some (execute_slt)"
  "map_of (methods mem) ''sltu'' = Some (execute_sltu)"
  "map_of (methods mem) ''xor'' = Some (execute_xor)"
  "map_of (methods mem) ''srl'' = Some (execute_srl)"
  "map_of (methods mem) ''sra'' = Some (execute_sra)"
  "map_of (methods mem) ''or'' = Some (execute_or)"
  "map_of (methods mem) ''and'' = Some (execute_and)"
  "map_of (methods mem) ''addw'' = Some (execute_addw)"
  "map_of (methods mem) ''subw'' = Some (execute_subw)"
  "map_of (methods mem) ''sllw'' = Some (execute_sllw)"
  "map_of (methods mem) ''srlw'' = Some (execute_srlw)"
  "map_of (methods mem) ''sraw'' = Some (execute_sraw)"
  "map_of (methods mem) ''fence'' = Some (execute_fence)"
  "map_of (methods mem) ''fence_i'' = Some (execute_fence_i)"
  "map_of (methods mem) ''mul'' = Some (execute_mul)"
  "map_of (methods mem) ''mulh'' = Some (execute_mulh)"
  "map_of (methods mem) ''mulhsu'' = Some (execute_mulhsu)"
  "map_of (methods mem) ''mulhu'' = Some (execute_mulhu)"
  "map_of (methods mem) ''div'' = Some (execute_div)"
  "map_of (methods mem) ''divu'' = Some (execute_divu)"
  "map_of (methods mem) ''rem'' = Some (execute_rem)"
  "map_of (methods mem) ''remu'' = Some (execute_remu)"
  "map_of (methods mem) ''mulw'' = Some (execute_mulw)"
  "map_of (methods mem) ''divw'' = Some (execute_divw)"
  "map_of (methods mem) ''divuw'' = Some (execute_divuw)"
  "map_of (methods mem) ''remw'' = Some (execute_remw)"
  "map_of (methods mem) ''remuw'' = Some (execute_remuw)"
  by (rule map_of_is_SomeI [OF method_names_distinct], simp only: methods_def, (rule list.set_intros)+)+

lemma trap_lookup:
  "map_of (methods mem) ''invld'' = Some execute_invld" "map_of (methods mem) ''ecall'' = Some execute_ecall"
  "map_of (methods mem) ''ebreak'' = Some execute_ebreak"
  by (rule map_of_is_SomeI [OF method_names_distinct], simp only: methods_def, (rule list.set_intros)+)+

abbreviation "method_name name \<equiv> map (\<lambda>c. if c = CHR ''.'' then CHR ''_'' else c) name"

definition row_agrees :: "'m memory_ops \<Rightarrow> 64 word \<Rightarrow> rename_env \<Rightarrow> 'm golden \<Rightarrow> 32 word \<Rightarrow> string \<Rightarrow> bool" where
  "row_agrees mem ps env st w name \<longleftrightarrow>
     (case map_of (methods mem) (method_name name) of None \<Rightarrow> False
      | Some foo \<Rightarrow> golden_next (foo st w) = Some (datapath mem ps env st w))"

lemma rows_agree:
  assumes "bytes_ok mem" "rs1_val st w + scast (operand ''i_imm'' w :: 12 word) < 2 ^ 32 \<or> \<not> (inst_opcode w = 103 \<and> inst_funct3 w = 0)"
  shows "list_all (\<lambda>r. matches r w \<longrightarrow> is_name r \<notin> set csr_and_traps \<longrightarrow> row_agrees mem ps env st w (is_name r)) base_rows"
  unfolding base_rows_def list_all_Nil_iff list_all_Cons_iff matches_rows row_simps
  by (intro conjI TrueI; simp add: cut_literal slice_values row_agrees_def method_lookup csr_and_traps_def
        op_rows op32_rows op_imm_rows op_imm_shift_rows op_imm32_rows op_imm32_shift_rows misc_rows branch_rows jal_row mul_rows mulw_row div_rows div32_rows load_rows [OF _ assms(1)] store_rows fence_rows;
      (intro impI, use assms(2) in \<open>simp add: jalr_row\<close>)?)

lemma execute_step:
  assumes "row_agrees mem ps env st w (decode_inst_name encoding w)"
  shows "map_option fst (execute encoding mem st w) = Some (datapath mem ps env st w)"
  using assms
  by (auto simp: row_agrees_def execute_def golden_next_def Let_def split: option.splits packet.splits)

lemma word_high_bits: "x < 2 ^ 32 \<longleftrightarrow> (\<forall>n \<ge> 32. \<not> bit x n)" for x :: "64 word"
proof
  assume "x < 2 ^ 32"
  then have "take_bit 32 x = x" by (simp add: take_bit_eq_mod word_mod_def word_less_def)
  then show "\<forall>n \<ge> 32. \<not> bit x n" by (metis bit_take_bit_iff not_less)
next
  assume "\<forall>n \<ge> 32. \<not> bit x n"
  then have "take_bit 32 x = x" by (intro bit_word_eqI) (metis bit_take_bit_iff not_less)
  then have "uint x = take_bit 32 (uint x)" by (metis unsigned_take_bit_eq)
  moreover have "take_bit 32 (uint x) < 2 ^ 32" by (rule take_bit_int_less_exp)
  ultimately have "uint x < 2 ^ 32" by simp
  then show "x < 2 ^ 32" by (simp add: word_less_def)
qed

lemma handle_exception_raises: "handle_exception st inst mcause = None"
proof -
  have "map_of mtvec_modes ''direct'' = None" by (simp add: mtvec_modes_def)
  then show ?thesis by (simp add: handle_exception_def Let_def case_prod_unfold Option.bind_eq_None_conv)
qed

abbreviation "jalr_row_of \<equiv> row ''jalr'' ''rd, rs1, i_imm'' [''rd'', ''rs1'', ''i_imm''] 0x0000707F 0x00000067"

lemma jalr_matches: "matches jalr_row_of w \<longleftrightarrow> inst_opcode w = 103 \<and> inst_funct3 w = 0"
  unfolding matches_rows by (simp add: cut_literal slice_values)

section \<open>Properties\<close>

text \<open>C3: for every instruction of the base table but the CSR instructions and the traps (that is, the computational,
  multiply and divide, load, store, branch, jump and fence instructions), the golden model does not raise and its registers, its memory and its program counter after the instruction
  are those of the datapath: decode, rename, dispatch, the pipe the message is sorted to, and its result written to the
  destination. The memory returns as many bytes as it is asked for. For JALR the golden model agrees when the target
  fits in 32 bits.\<close>

theorem datapath_agrees_with_golden:
  assumes "encoding_table = Some rows" and "set encoding = set rows" and "matches r w"
    and "r \<in> set (expand_encoding base_encodings)" and "is_name r \<notin> set csr_and_traps" and "bytes_ok mem"
    and "is_name r = ''jalr'' \<longrightarrow> rs1_val st w + scast (operand ''i_imm'' w :: 12 word) < 2 ^ 32"
  shows "map_option fst (execute encoding mem st w) = Some (datapath mem pc_succ env st w)"
proof (rule execute_step)
  have rows: "rows = rv64g_rows" using assms(1) by (simp add: encoding_table_rows)
  have r: "r \<in> set base_rows" "r \<in> set rv64g_rows" using assms(4) by (simp_all add: expand_base rv64g_rows_def)
  have "jalr_row_of \<in> set base_rows" unfolding base_rows_def by (rule list.set_intros)+
  then have "inst_opcode w = 103 \<and> inst_funct3 w = 0 \<Longrightarrow> r = jalr_row_of"
    using match_unique [of r jalr_row_of w] assms(3) r(2) by (simp add: rows jalr_matches rv64g_rows_def)
  then have "inst_opcode w = 103 \<and> inst_funct3 w = 0 \<Longrightarrow> is_name r = ''jalr''" by (simp add: row_simps)
  then have "row_agrees mem pc_succ env st w (is_name r)"
    using rows_agree [OF assms(6), of st w pc_succ env] r(1) assms(3,5,7) unfolding list_all_iff by blast
  moreover have "decode_inst_name encoding w = is_name r" using decode_matching [of encoding r w] assms(2,3) r(2) rows by simp
  ultimately show "row_agrees mem pc_succ env st w (decode_inst_name encoding w)" by simp
qed

definition empty_memory :: "unit memory_ops" where
  "empty_memory = \<lparr> mo_load = \<lambda>_ _ _. 0, mo_store = \<lambda>s _ _ _. s \<rparr>"

definition golden_start :: "unit golden" where
  "golden_start = \<lparr> g_pc = 0x200, g_regs = (\<lambda>_. 25), g_csr = (\<lambda>_. 0), g_mngr2proc = [], g_proc2mngr = [], g_mem = () \<rparr>"

definition rename_start :: rename_env where
  "rename_start = \<lparr> re_seq = 0, re_spec_idx = 0, re_branch_mask = 0, re_store_id = 0, re_success = True,
     re_src0 = 2, re_src1 = 17, re_dst = 33, re_dst_rdy = True \<rparr>"

theorem datapath_agrees_with_golden_witness:
  "map_option fst (execute rv64g_rows empty_memory golden_start 0x01130293) =
     Some (datapath empty_memory 0 rename_start golden_start 0x01130293)"
proof (rule datapath_agrees_with_golden [OF encoding_table_rows refl])
  let ?addi = "row ''addi'' ''rd, rs1, i_imm'' [''rd'', ''rs1'', ''i_imm''] 0x0000707F 0x00000013"
  show "?addi \<in> set (expand_encoding base_encodings)" unfolding expand_base base_rows_def by (rule list.set_intros)+
  show "matches ?addi 0x01130293" by (simp add: matches_def)
  show "is_name ?addi \<notin> set csr_and_traps" "is_name ?addi = ''jalr'' \<longrightarrow>
      rs1_val golden_start 0x01130293 + scast (operand ''i_imm'' (0x01130293 :: 32 word) :: 12 word) < 2 ^ 32"
    by (simp_all add: row_simps csr_and_traps_def)
  show "bytes_ok empty_memory" by (simp add: bytes_ok_def empty_memory_def)
qed

text \<open>A register jump whose target does not fit in 32 bits: the golden model jumps to the target with its upper half
  and its lowest bit cleared, the datapath to the target with its lowest bit cleared.\<close>

theorem jalr_golden_truncates:
  assumes "inst_opcode w = 103" and "inst_funct3 w = 0"
    and "2 ^ 32 \<le> rs1_val st w + scast (operand ''i_imm'' w :: 12 word)"
  shows "map_option g_pc (golden_next (execute_jalr st w)) \<noteq> Some (g_pc (datapath mem pc_succ env st w))"
proof -
  let ?t = "rs1_val st w + scast (operand ''i_imm'' w :: 12 word)"
  have "g_pc (datapath mem pc_succ env st w) = unset_bit 0 ?t"
    by (simp add: issued_fields [OF decodes_jump(2) [OF assms(1,2)]] to_pipe branch_stage_def branch_target_def branch_taken_def
        imm_flags_def decoder_flags_def operand_imms zero_execute_def operand_fields reg_set_pc source_values)
  moreover have "golden_next (execute_jalr st w) = Some ((reg_set (operand ''rd'' w) (g_pc st + 4) st)\<lparr>g_pc := ?t AND 0xFFFFFFFE\<rparr>)"
    by (simp add: execute_jalr_def golden_next_def)
  moreover have "?t AND 0xFFFFFFFE < 2 ^ 32"
  proof -
    have "?t AND 0xFFFFFFFE \<le> 0xFFFFFFFE" by (rule word_and_le1)
    then show ?thesis by (rule le_less_trans) simp
  qed
  moreover have "2 ^ 32 \<le> unset_bit 0 ?t"
    using assms(3) word_high_bits [of ?t] word_high_bits [of "unset_bit 0 ?t"] by (auto simp: bit_simps simp flip: not_less)
  ultimately show ?thesis by auto
qed

theorem jalr_golden_truncates_witness:
  "map_option g_pc (golden_next (execute_jalr (golden_start\<lparr>g_regs := \<lambda>_. 0x100000000\<rparr>) 0x000100E7)) \<noteq>
   Some (g_pc (datapath empty_memory 0 rename_start (golden_start\<lparr>g_regs := \<lambda>_. 0x100000000\<rparr>) 0x000100E7))"
  by (rule jalr_golden_truncates) code_simp+

text \<open>C39: an instruction that takes an exception in the golden model makes it raise, because \<open>MtvecMode\<close> has no attribute
  \<open>direct\<close>: it never enters the trap handler.\<close>

theorem golden_exception_raises:
  assumes "decode_inst_name encoding w \<in> {''invld'', ''ecall'', ''ebreak''}"
  shows "execute encoding mem st w = None"
  using assms
  by (auto simp: execute_def trap_lookup execute_invld_def execute_ecall_def execute_ebreak_def handle_exception_raises)

theorem golden_exception_raises_witness:
  "execute rv64g_rows empty_memory golden_start 0x00000073 = None"
proof (rule golden_exception_raises)
  let ?ecall = "row ''ecall'' [] [] 0xFFFFFFFF 0x00000073"
  have "?ecall \<in> set rv64g_rows" unfolding rv64g_rows_def base_rows_def append_Cons by (rule list.set_intros)+
  moreover have "matches ?ecall 0x00000073" by (simp add: matches_def)
  ultimately show "decode_inst_name rv64g_rows 0x00000073 \<in> {''invld'', ''ecall'', ''ebreak''}"
    using decode_matching [OF refl] by (simp add: row_simps)
qed

end
