(* ===== verification/Issue_Queue.thy ===== *)
theory Issue_Queue
  imports Pipeline
begin

text \<open>
  The compacting issue queue of \<open>lizard/util/rtl/issue_queue.py\<close>: the slot with its wake-up logic, the
  select and ordering logic, the shift network that closes holes, and the refinement of the whole to a
  bounded list of waiting instructions. The drop controller that a kill message drives is a parameter, as
  \<open>make_kill\<close> is in the source; the methods \<open>status\<close> and \<open>peek\<close> of a slot come before \<open>take\<close> and
  \<open>input\<close> in its ordering chain, so they are functions of the registers and the notifications.
\<close>

section \<open>Issue slots\<close>

record ('t, 'o, 'k) issue_value =
  iv_src0_val :: bool
  iv_src0_rdy :: bool
  iv_src0 :: 't
  iv_src1_val :: bool
  iv_src1_rdy :: bool
  iv_src1 :: 't
  iv_opaque :: 'o
  iv_kill_opaque :: 'k
  iv_ordered :: bool

record ('t, 'o, 'k) issue_slot =
  sl_val_manager :: "'k vvm"
  sl_opaque :: 'o
  sl_src0 :: 't
  sl_src0_val :: bool
  sl_src0_rdy :: bool
  sl_src1 :: 't
  sl_src1_val :: bool
  sl_src1_rdy :: bool
  sl_ordered :: bool

text \<open>The broadcast ports: the \<open>notify\<close> calls with their tags, and the kill message.\<close>

record ('t, 'x) broadcast =
  bc_notify :: "(bool \<times> 't) list"
  bc_kill :: 'x

record ('t, 'o, 'k) slot_in =
  sl_input_call :: bool
  sl_input_value :: "('t, 'o, 'k) issue_value"
  sl_take_call :: bool

record ('t, 'o, 'k) slot_out =
  sl_status_valid :: bool
  sl_status_ready :: bool
  sl_status_ordered :: bool
  sl_peek_value :: "('t, 'o, 'k) issue_value"

text \<open>\<open>match_src\<close>: some notification of this cycle names the source register.\<close>

definition src_match :: "(bool \<times> 't) list \<Rightarrow> bool \<Rightarrow> 't \<Rightarrow> bool" where
  "src_match notify val src = list_ex (\<lambda>(call, tag). val \<and> call \<and> src = tag) notify"

definition slot_vvm_in :: "('t, 'x) broadcast \<Rightarrow> ('t, 'o, 'k) slot_in \<Rightarrow> ('k, 'x) vvm_in" where
  "slot_vvm_in b i =
     \<lparr> vv_kill_msg = bc_kill b, vv_take_call = sl_take_call i, vv_add_call = sl_input_call i,
       vv_add_msg = iv_kill_opaque (sl_input_value i), vv_add_dead = False \<rparr>"

definition slot_status ::
  "('k, 'x) drop_controller \<Rightarrow> bool \<Rightarrow> ('t, 'x) broadcast \<Rightarrow> ('t, 'o, 'k) issue_slot \<Rightarrow> ('t, 'o, 'k) slot_out" where
  "slot_status check bypass_ready b s =
     (let (kill_opaque, keep) = check (bc_kill b) (vv_out (sl_val_manager s));
          status_valid = (vv_val (sl_val_manager s) \<and> keep);
          src0_rdy = (sl_src0_rdy s \<or> src_match (bc_notify b) (sl_src0_val s) (sl_src0 s));
          src1_rdy = (sl_src1_rdy s \<or> src_match (bc_notify b) (sl_src1_val s) (sl_src1 s));
          srcs_ready = (if bypass_ready then src0_rdy \<and> src1_rdy else sl_src0_rdy s \<and> sl_src1_rdy s)
      in \<lparr> sl_status_valid = status_valid, sl_status_ready = (status_valid \<and> srcs_ready),
           sl_status_ordered = sl_ordered s,
           sl_peek_value =
             \<lparr> iv_src0_val = sl_src0_val s, iv_src0_rdy = src0_rdy, iv_src0 = sl_src0 s,
               iv_src1_val = sl_src1_val s, iv_src1_rdy = src1_rdy, iv_src1 = sl_src1 s,
               iv_opaque = sl_opaque s, iv_kill_opaque = kill_opaque, iv_ordered = sl_ordered s \<rparr> \<rparr>)"

text \<open>\<open>set_reg_rdy\<close> and the write enables of the registers.\<close>

definition slot_next ::
  "('k, 'x) drop_controller \<Rightarrow> ('t, 'x) broadcast \<Rightarrow> ('t, 'o, 'k) issue_slot \<Rightarrow> ('t, 'o, 'k) slot_in \<Rightarrow>
   ('t, 'o, 'k) issue_slot" where
  "slot_next check b s i =
     (let (vm, out) = vvm_step False check (sl_val_manager s) (slot_vvm_in b i);
          status_valid = vv_peek_rdy out;
          src0_match = src_match (bc_notify b) (sl_src0_val s) (sl_src0 s);
          src1_match = src_match (bc_notify b) (sl_src1_val s) (sl_src1 s);
          v = sl_input_value i
      in if sl_input_call i
         then \<lparr> sl_val_manager = vm, sl_opaque = iv_opaque v,
                sl_src0 = iv_src0 v, sl_src0_val = iv_src0_val v,
                sl_src0_rdy = (iv_src0_rdy v \<or> \<not> iv_src0_val v),
                sl_src1 = iv_src1 v, sl_src1_val = iv_src1_val v,
                sl_src1_rdy = (iv_src1_rdy v \<or> \<not> iv_src1_val v),
                sl_ordered = iv_ordered v \<rparr>
         else s\<lparr> sl_val_manager := vm,
                 sl_src0_rdy := (if src0_match \<and> status_valid then src0_match else sl_src0_rdy s),
                 sl_src1_rdy := (if src1_match \<and> status_valid then src1_match else sl_src1_rdy s) \<rparr>)"

section \<open>The queue\<close>

record ('t, 'o, 'k, 'x) iq_in =
  iq_add_call :: bool
  iq_add_value :: "('t, 'o, 'k) issue_value"
  iq_remove_call :: bool
  iq_broadcast :: "('t, 'x) broadcast"

record ('t, 'o, 'k) iq_out =
  iq_add_rdy :: bool
  iq_remove_rdy :: bool
  iq_remove_value :: "('t, 'o, 'k) issue_value"

text \<open>\<open>set_wait_pred_0\<close> and \<open>set_wait_pred_k\<close>.\<close>

fun prev_ordered :: "('t, 'o, 'k) slot_out list \<Rightarrow> nat \<Rightarrow> bool" where
  "prev_ordered slots 0 = False"
| "prev_ordered slots (Suc i) =
     (prev_ordered slots i \<or> (sl_status_valid (slots ! i) \<and> sl_status_ordered (slots ! i)))"

fun prev_nonordered :: "('t, 'o, 'k) slot_out list \<Rightarrow> nat \<Rightarrow> bool" where
  "prev_nonordered slots 0 = False"
| "prev_nonordered slots (Suc i) =
     (prev_nonordered slots i \<or> (sl_status_valid (slots ! i) \<and> \<not> sl_status_ordered (slots ! i)))"

fun wait_pred :: "('t, 'o, 'k) slot_out list \<Rightarrow> nat \<Rightarrow> bool" where
  "wait_pred slots 0 = False"
| "wait_pred slots (Suc i) =
     (if sl_status_ordered (slots ! Suc i)
      then prev_ordered slots (Suc i) \<or> prev_nonordered slots (Suc i)
      else prev_ordered slots (Suc i))"

text \<open>The two blocks named \<open>set_first_rdy\<close>.\<close>

fun prev_rdy :: "('t, 'o, 'k) slot_out list \<Rightarrow> nat \<Rightarrow> bool" where
  "prev_rdy slots 0 = sl_status_ready (slots ! 0)"
| "prev_rdy slots (Suc i) = (prev_rdy slots i \<or> sl_status_ready (slots ! Suc i))"

fun first_rdy :: "('t, 'o, 'k) slot_out list \<Rightarrow> nat \<Rightarrow> bool" where
  "first_rdy slots 0 = sl_status_ready (slots ! 0)"
| "first_rdy slots (Suc i) = (\<not> prev_rdy slots i \<and> sl_status_ready (slots ! Suc i))"

text \<open>The value is 0 (the argument \<open>zero\<close>) when no slot is ready.\<close>

definition mux_output :: "('t, 'o, 'k) issue_value \<Rightarrow> ('t, 'o, 'k) slot_out list \<Rightarrow> ('t, 'o, 'k) issue_value" where
  "mux_output zero slots =
     fold (\<lambda>i v. if first_rdy slots i then sl_peek_value (slots ! i) else v) [0..<length slots] zero"

definition handle_add :: "('t, 'x) broadcast \<Rightarrow> ('t, 'o, 'k) issue_value \<Rightarrow> ('t, 'o, 'k) issue_value" where
  "handle_add b v =
     v\<lparr> iv_src0_rdy := (src_match (bc_notify b) True (iv_src0 v) \<or> iv_src0_rdy v),
        iv_src1_rdy := (src_match (bc_notify b) True (iv_src1 v) \<or> iv_src1_rdy v) \<rparr>"

text \<open>\<open>handle_remove\<close>, for an ordered and for an unordered interface.\<close>

definition remove_rdy :: "bool \<Rightarrow> ('t, 'o, 'k) slot_out list \<Rightarrow> bool" where
  "remove_rdy is_ordered slots =
     (if is_ordered then list_ex (\<lambda>i. first_rdy slots i \<and> \<not> wait_pred slots i) [0..<length slots]
      else list_ex (first_rdy slots) [0..<length slots])"

definition will_issue :: "bool \<Rightarrow> ('t, 'o, 'k) slot_out list \<Rightarrow> bool \<Rightarrow> nat \<Rightarrow> bool" where
  "will_issue is_ordered slots remove_call i =
     (if is_ordered
      then list_ex (first_rdy slots) [0..<length slots] \<and> remove_call \<and> first_rdy slots i \<and> \<not> wait_pred slots i
      else remove_call \<and> first_rdy slots i)"

text \<open>\<open>shift0\<close> and \<open>shiftk\<close>; \<open>output0\<close> and \<open>outputk\<close>.\<close>

fun do_shift :: "('t, 'o, 'k) slot_out list \<Rightarrow> (nat \<Rightarrow> bool) \<Rightarrow> nat \<Rightarrow> bool" where
  "do_shift slots issuing 0 =
     ((\<not> sl_status_valid (slots ! 0) \<or> issuing 0) \<and> sl_status_valid (slots ! 1) \<and> \<not> issuing 1)"
| "do_shift slots issuing (Suc i) =
     ((\<not> sl_status_valid (slots ! Suc i) \<or> issuing (Suc i) \<or> do_shift slots issuing i) \<and>
      sl_status_valid (slots ! Suc (Suc i)) \<and> \<not> issuing (Suc (Suc i)))"

fun slot_take :: "('t, 'o, 'k) slot_out list \<Rightarrow> (nat \<Rightarrow> bool) \<Rightarrow> nat \<Rightarrow> bool" where
  "slot_take slots issuing 0 = issuing 0"
| "slot_take slots issuing (Suc i) = (issuing (Suc i) \<or> do_shift slots issuing i)"

definition add_rdy :: "('t, 'o, 'k) slot_out list \<Rightarrow> (nat \<Rightarrow> bool) \<Rightarrow> bool" where
  "add_rdy slots issuing =
     (\<not> sl_status_valid (slots ! (length slots - 1)) \<or> slot_take slots issuing (length slots - 1))"

definition slot_input ::
  "('t, 'o, 'k) slot_out list \<Rightarrow> (nat \<Rightarrow> bool) \<Rightarrow> ('t, 'o, 'k, 'x) iq_in \<Rightarrow> nat \<Rightarrow> ('t, 'o, 'k) slot_in" where
  "slot_input slots issuing i k =
     (if Suc k < length slots
      then \<lparr> sl_input_call = do_shift slots issuing k, sl_input_value = sl_peek_value (slots ! Suc k),
             sl_take_call = slot_take slots issuing k \<rparr>
      else \<lparr> sl_input_call = iq_add_call i, sl_input_value = handle_add (iq_broadcast i) (iq_add_value i),
             sl_take_call = slot_take slots issuing k \<rparr>)"

definition iq_step ::
  "('k, 'x) drop_controller \<Rightarrow> bool \<Rightarrow> bool \<Rightarrow> ('t, 'o, 'k) issue_value \<Rightarrow>
   (('t, 'o, 'k) issue_slot list, ('t, 'o, 'k, 'x) iq_in, ('t, 'o, 'k) iq_out) machine" where
  "iq_step check bypass_ready is_ordered zero ss i =
     (let slots = map (slot_status check bypass_ready (iq_broadcast i)) ss;
          issuing = will_issue is_ordered slots (iq_remove_call i)
      in (map (\<lambda>k. slot_next check (iq_broadcast i) (ss ! k) (slot_input slots issuing i k)) [0..<length ss],
          \<lparr> iq_add_rdy = add_rdy slots issuing, iq_remove_rdy = remove_rdy is_ordered slots,
            iq_remove_value = mux_output zero slots \<rparr>))"


section \<open>The contract\<close>

text \<open>A list of at most \<open>n\<close> waiting instructions, oldest first. In a cycle the kill message removes
  instructions and rewrites the masks of the others; then the oldest instruction that is ready and does
  not have to wait for an older one is offered, and leaves if it is taken; the notifications of the cycle
  mark sources ready, those of an instruction that is just added included.\<close>

definition iv_wake :: "('t, 'x) broadcast \<Rightarrow> ('t, 'o, 'k) issue_value \<Rightarrow> ('t, 'o, 'k) issue_value" where
  "iv_wake b e =
     e\<lparr> iv_src0_rdy := (iv_src0_rdy e \<or> src_match (bc_notify b) (iv_src0_val e) (iv_src0 e)),
        iv_src1_rdy := (iv_src1_rdy e \<or> src_match (bc_notify b) (iv_src1_val e) (iv_src1 e)) \<rparr>"

definition iv_ready :: "('t, 'o, 'k) issue_value \<Rightarrow> bool" where
  "iv_ready e = (iv_src0_rdy e \<and> iv_src1_rdy e)"

text \<open>A source that is not used is ready.\<close>

definition iv_enter :: "('t, 'o, 'k) issue_value \<Rightarrow> ('t, 'o, 'k) issue_value" where
  "iv_enter e = e\<lparr> iv_src0_rdy := (iv_src0_rdy e \<or> \<not> iv_src0_val e),
                   iv_src1_rdy := (iv_src1_rdy e \<or> \<not> iv_src1_val e) \<rparr>"

definition iv_kill :: "('k, 'x) drop_controller \<Rightarrow> ('t, 'x) broadcast \<Rightarrow> ('t, 'o, 'k) issue_value \<Rightarrow>
  ('t, 'o, 'k) issue_value option" where
  "iv_kill check b e =
     (let (out, keep) = check (bc_kill b) (iv_kill_opaque e)
      in if keep then Some (e\<lparr> iv_kill_opaque := out \<rparr>) else None)"

definition iv_waits :: "bool \<Rightarrow> ('t, 'o, 'k) issue_value list \<Rightarrow> ('t, 'o, 'k) issue_value \<Rightarrow> bool" where
  "iv_waits is_ordered older e =
     (is_ordered \<and> (if iv_ordered e then older \<noteq> [] else list_ex iv_ordered older))"

fun iq_select ::
  "bool \<Rightarrow> (('t, 'o, 'k) issue_value \<Rightarrow> bool) \<Rightarrow> ('t, 'o, 'k) issue_value list \<Rightarrow> ('t, 'o, 'k) issue_value list \<Rightarrow>
   (('t, 'o, 'k) issue_value list \<times> ('t, 'o, 'k) issue_value \<times> ('t, 'o, 'k) issue_value list) option" where
  "iq_select is_ordered ready older [] = None"
| "iq_select is_ordered ready older (e # younger) =
     (if ready e \<and> \<not> iv_waits is_ordered older e then Some (older, e, younger)
      else iq_select is_ordered ready (older @ [e]) younger)"

definition somes :: "'a option list \<Rightarrow> 'a list" where
  "somes xs = concat (map contents xs)"

definition iq_spec_step ::
  "('k, 'x) drop_controller \<Rightarrow> bool \<Rightarrow> bool \<Rightarrow> nat \<Rightarrow>
   (('t, 'o, 'k) issue_value list, ('t, 'o, 'k, 'x) iq_in, bool \<times> ('t, 'o, 'k) issue_value option) machine" where
  "iq_spec_step check bypass_ready is_ordered n q i =
     (let b = iq_broadcast i;
          alive = somes (map (iv_kill check b) q);
          choice = iq_select is_ordered (\<lambda>e. iv_ready (if bypass_ready then iv_wake b e else e)) [] alive;
          rest = (case choice of
                    Some (older, e, younger) \<Rightarrow> if iq_remove_call i then older @ younger else alive
                  | None \<Rightarrow> alive);
          added = (if iq_add_call i then [iv_enter (handle_add b (iq_add_value i))] else [])
      in (map (iv_wake b) rest @ added,
          (length rest < n, map_option (\<lambda>(older, e, younger). iv_wake b e) choice)))"

definition iq_view :: "('t, 'o, 'k) iq_out \<Rightarrow> bool \<times> ('t, 'o, 'k) issue_value option" where
  "iq_view out = (iq_add_rdy out, if iq_remove_rdy out then Some (iq_remove_value out) else None)"

text \<open>The environment adds an instruction only when \<open>add\<close> is ready.\<close>

definition iq_ok ::
  "('k, 'x) drop_controller \<Rightarrow> bool \<Rightarrow> bool \<Rightarrow> nat \<Rightarrow> ('t, 'o, 'k) issue_value list \<Rightarrow> ('t, 'o, 'k, 'x) iq_in \<Rightarrow> bool" where
  "iq_ok check bypass_ready is_ordered n q i \<longleftrightarrow>
     (iq_add_call i \<longrightarrow> fst (snd (iq_spec_step check bypass_ready is_ordered n q i)))"

definition slot_abs :: "('t, 'o, 'k) issue_slot \<Rightarrow> ('t, 'o, 'k) issue_value option" where
  "slot_abs s =
     (if vv_val (sl_val_manager s)
      then Some \<lparr> iv_src0_val = sl_src0_val s, iv_src0_rdy = sl_src0_rdy s, iv_src0 = sl_src0 s,
                  iv_src1_val = sl_src1_val s, iv_src1_rdy = sl_src1_rdy s, iv_src1 = sl_src1 s,
                  iv_opaque = sl_opaque s, iv_kill_opaque = vv_out (sl_val_manager s),
                  iv_ordered = sl_ordered s \<rparr>
      else None)"

definition iq_abs :: "('t, 'o, 'k) issue_slot list \<Rightarrow> ('t, 'o, 'k) issue_value list" where
  "iq_abs ss = somes (map slot_abs ss)"

section \<open>Lists with holes\<close>

lemma somes_simps [simp]:
  "somes [] = []" "somes (None # xs) = somes xs" "somes (Some a # xs) = a # somes xs"
  "somes (xs @ ys) = somes xs @ somes ys"
  by (simp_all add: somes_def contents_def)

lemma somes_map_Some: "somes (map (map_option f) xs) = map f (somes xs)"
  by (induction xs rule: list.induct) (auto simp: somes_def contents_def split: option.splits)

lemma somes_bind: "somes (map (\<lambda>x. x \<bind> f) xs) = somes (map f (somes xs))"
proof (induction xs)
  case (Cons x xs)
  then show ?case by (cases x; cases "f (the x)") auto
qed simp

lemma length_somes: "length (somes xs) < length xs \<longleftrightarrow> None \<in> set xs"
proof -
  have le: "length (somes xs) \<le> length xs" for xs :: "'b option list"
    by (induction xs rule: list.induct) (auto simp: somes_def contents_def split: option.splits)
  show ?thesis
  proof (induction xs)
    case (Cons x xs)
    then show ?case using le [of xs] by (cases x) (auto simp: less_Suc_eq_le)
  qed simp
qed

lemma set_somes: "a \<in> set (somes xs) \<longleftrightarrow> Some a \<in> set xs"
  by (induction xs) (auto simp: somes_def contents_def split: option.splits)

text \<open>One cycle of the shift network on a list with holes: a hole takes the next entry.\<close>

fun compact :: "bool \<Rightarrow> 'a option list \<Rightarrow> 'a option list" where
  "compact gone [] = []"
| "compact gone [x] = [if gone then None else x]"
| "compact gone (x # y # xs) =
     (let shift = ((x = None \<or> gone) \<and> y \<noteq> None)
      in (if shift then y else if gone then None else x) # compact shift (y # xs))"

lemma length_compact [simp]: "length (compact gone xs) = length xs"
  by (induction gone xs rule: compact.induct) (simp_all add: Let_def)

lemma somes_compact: "xs \<noteq> [] \<Longrightarrow> somes (compact gone xs) = somes ((if gone then None else hd xs) # tl xs)"
proof (induction gone xs rule: compact.induct)
  case (3 gone x y xs)
  then show ?case by (cases x; cases y) (auto simp: Let_def)
qed simp_all

lemma last_compact: "xs \<noteq> [] \<Longrightarrow> last (compact gone xs) = None \<longleftrightarrow> gone \<or> None \<in> set xs"
proof (induction gone xs rule: compact.induct)
  case (3 gone x y xs)
  have "compact shift (y # xs) \<noteq> []" for shift
    using length_compact [of shift "y # xs"] by (metis length_0_conv list.distinct(1))
  with 3 show ?case by (auto simp: Let_def)
qed auto

fun shifts :: "bool \<Rightarrow> 'a option list \<Rightarrow> nat \<Rightarrow> bool" where
  "shifts gone d 0 = ((d ! 0 = None \<or> gone) \<and> d ! 1 \<noteq> None)"
| "shifts gone d (Suc i) = ((d ! Suc i = None \<or> shifts gone d i) \<and> d ! Suc (Suc i) \<noteq> None)"

lemma shifts_Cons: "shifts gone (x # d) (Suc i) = shifts (shifts gone (x # d) 0) d i"
  by (induction i) simp_all

lemma compact_nth:
  "i < length d \<Longrightarrow>
   compact gone d ! i =
     (if Suc i < length d \<and> shifts gone d i then d ! Suc i
      else if (case i of 0 \<Rightarrow> gone | Suc j \<Rightarrow> shifts gone d j) then None else d ! i)"
proof (induction gone d arbitrary: i rule: compact.induct)
  case (3 gone x y xs)
  let ?shift = "(x = None \<or> gone) \<and> y \<noteq> None"
  show ?case
  proof (cases i)
    case (Suc j)
    then have "compact gone (x # y # xs) ! i = compact ?shift (y # xs) ! j" by (simp add: Let_def)
    also have "\<dots> = (if Suc j < length (y # xs) \<and> shifts ?shift (y # xs) j then (y # xs) ! Suc j
      else if (case j of 0 \<Rightarrow> ?shift | Suc k \<Rightarrow> shifts ?shift (y # xs) k) then None else (y # xs) ! j)"
      using "3.prems" Suc by (intro "3.IH") simp_all
    finally show ?thesis
      using Suc by (cases j) (simp_all add: shifts_Cons del: shifts.simps(2) not_None_eq)
  qed (simp add: Let_def)
qed auto

section \<open>Slots refine the entries of the list\<close>

definition slot_alive ::
  "('k, 'x) drop_controller \<Rightarrow> ('t, 'x) broadcast \<Rightarrow> ('t, 'o, 'k) issue_slot \<Rightarrow> ('t, 'o, 'k) issue_value option" where
  "slot_alive check b s = slot_abs s \<bind> iv_kill check b"

definition shown ::
  "('t, 'x) broadcast \<Rightarrow> (('t, 'o, 'k) issue_value \<Rightarrow> bool) \<Rightarrow> ('t, 'o, 'k) slot_out \<Rightarrow>
   ('t, 'o, 'k) issue_value option \<Rightarrow> bool" where
  "shown b ready out c \<longleftrightarrow>
     (case c of
        None \<Rightarrow> \<not> sl_status_valid out \<and> \<not> sl_status_ready out
      | Some e \<Rightarrow> sl_status_valid out \<and> sl_status_ready out = ready e \<and> sl_status_ordered out = iv_ordered e \<and>
                  sl_peek_value out = iv_wake b e)"

lemma slot_status_shown:
  "shown b (\<lambda>e. iv_ready (if bypass_ready then iv_wake b e else e)) (slot_status check bypass_ready b s)
     (slot_alive check b s)"
  by (auto simp: shown_def slot_status_def slot_alive_def slot_abs_def iv_kill_def iv_ready_def iv_wake_def
      Let_def split: prod.splits)

lemma slot_next_abs:
  "slot_abs (slot_next check b s i) =
     (if sl_input_call i then Some (iv_enter (sl_input_value i))
      else if sl_take_call i then None else map_option (iv_wake b) (slot_alive check b s))"
  by (auto simp: slot_next_def slot_abs_def slot_alive_def vvm_step_def slot_vvm_in_def iv_enter_def iv_kill_def
      iv_wake_def Let_def split: prod.splits)

definition all_shown ::
  "('t, 'x) broadcast \<Rightarrow> (('t, 'o, 'k) issue_value \<Rightarrow> bool) \<Rightarrow> ('t, 'o, 'k) slot_out list \<Rightarrow>
   ('t, 'o, 'k) issue_value option list \<Rightarrow> bool" where
  "all_shown b ready slots c \<longleftrightarrow> list_all2 (shown b ready) slots c"

lemma all_shown_status:
  "all_shown b (\<lambda>e. iv_ready (if bypass_ready then iv_wake b e else e))
     (map (slot_status check bypass_ready b) ss) (map (slot_alive check b) ss)"
  unfolding all_shown_def by (rule list_all2_all_nthI) (simp_all only: length_map nth_map slot_status_shown)

lemma all_shown_length: "all_shown b ready slots c \<Longrightarrow> length slots = length c"
  by (simp add: all_shown_def list_all2_lengthD)

lemma shown_nth: "all_shown b ready slots c \<Longrightarrow> i < length c \<Longrightarrow> shown b ready (slots ! i) (c ! i)"
  by (simp add: all_shown_def list_all2_nthD2)

lemma shown_valid: "all_shown b ready slots c \<Longrightarrow> i < length c \<Longrightarrow> sl_status_valid (slots ! i) \<longleftrightarrow> c ! i \<noteq> None"
  using shown_nth [of b ready slots c i] by (auto simp: shown_def split: option.splits)

lemma shown_ready:
  "all_shown b ready slots c \<Longrightarrow> i < length c \<Longrightarrow>
   sl_status_ready (slots ! i) \<longleftrightarrow> (\<exists>e. c ! i = Some e \<and> ready e)"
  using shown_nth [of b ready slots c i] by (auto simp: shown_def split: option.splits)

lemma shown_entry:
  "all_shown b ready slots c \<Longrightarrow> i < length c \<Longrightarrow> c ! i = Some e \<Longrightarrow>
   sl_status_ordered (slots ! i) = iv_ordered e \<and> sl_peek_value (slots ! i) = iv_wake b e"
  using shown_nth [of b ready slots c i] by (auto simp: shown_def)

section \<open>The select logic finds the oldest eligible entry\<close>

lemma somes_take_Suc:
  "i < length c \<Longrightarrow> somes (take (Suc i) c) = somes (take i c) @ contents (c ! i)"
  by (simp add: take_Suc_conv_app_nth) (simp add: somes_def)

lemma prev_ordered_somes:
  "all_shown b ready slots c \<Longrightarrow> i \<le> length c \<Longrightarrow>
   prev_ordered slots i = list_ex iv_ordered (somes (take i c))"
proof (induction i)
  case (Suc i)
  then show ?case
    using shown_valid [of b ready slots c i] shown_entry [of b ready slots c i]
    by (cases "c ! i") (auto simp: somes_take_Suc contents_def)
qed simp

lemma prev_somes:
  "all_shown b ready slots c \<Longrightarrow> i \<le> length c \<Longrightarrow>
   prev_ordered slots i \<or> prev_nonordered slots i \<longleftrightarrow> somes (take i c) \<noteq> []"
proof (induction i)
  case (Suc i)
  then show ?case
    using shown_valid [of b ready slots c i]
    by (cases "c ! i") (auto simp: somes_take_Suc contents_def)
qed simp

lemma wait_pred_waits:
  assumes "all_shown b ready slots c" "i < length c" "c ! i = Some e"
  shows "wait_pred slots i = iv_waits True (somes (take i c)) e"
  using shown_entry [OF assms] prev_somes [OF assms(1), of i] prev_ordered_somes [OF assms(1), of i] assms(2)
  by (cases i) (auto simp: iv_waits_def)

lemma prev_rdy_iff: "prev_rdy slots i \<longleftrightarrow> (\<exists>j\<le>i. sl_status_ready (slots ! j))"
  by (induction i) (auto simp: le_Suc_eq)

lemma first_rdy_iff: "first_rdy slots i \<longleftrightarrow> sl_status_ready (slots ! i) \<and> (\<forall>j<i. \<not> sl_status_ready (slots ! j))"
  by (cases i) (auto simp: prev_rdy_iff less_Suc_eq_le)

definition eligible ::
  "bool \<Rightarrow> (('t, 'o, 'k) issue_value \<Rightarrow> bool) \<Rightarrow> ('t, 'o, 'k) issue_value option list \<Rightarrow> nat \<Rightarrow> bool" where
  "eligible is_ordered ready c i =
     (case c ! i of None \<Rightarrow> False | Some e \<Rightarrow> ready e \<and> \<not> iv_waits is_ordered (somes (take i c)) e)"

lemma somes_take_mono: "c ! j = Some e \<Longrightarrow> j < i \<Longrightarrow> i \<le> length c \<Longrightarrow> e \<in> set (somes (take i c))"
  by (metis length_take min.absorb2 nth_mem nth_take set_somes)

text \<open>An entry that waits is not overtaken: whatever comes after it waits too. So it is enough that the
  source looks at the first ready slot.\<close>

lemma waits_propagates:
  assumes "c ! j = Some e" "iv_waits is_ordered (somes (take j c)) e" "j < i" "i < length c"
  shows "iv_waits is_ordered (somes (take i c)) e'"
proof -
  have e: "e \<in> set (somes (take i c))" using assms by (intro somes_take_mono) auto
  have sub: "set (somes (take j c)) \<subseteq> set (somes (take i c))"
    using assms(3) set_take_subset_set_take [of j i c] by (auto simp: set_somes)
  show ?thesis
  proof (cases "iv_ordered e")
    case True
    with e assms(2) show ?thesis by (auto simp: iv_waits_def list_ex_iff)
  next
    case False
    with assms(2) obtain x where "x \<in> set (somes (take j c))" "iv_ordered x" "is_ordered"
      by (auto simp: iv_waits_def list_ex_iff)
    with sub show ?thesis by (auto simp: iv_waits_def list_ex_iff)
  qed
qed

lemma first_rdy_eligible:
  assumes "all_shown b ready slots c" "i < length c"
  shows "first_rdy slots i \<and> (is_ordered \<longrightarrow> \<not> wait_pred slots i) \<longleftrightarrow>
         eligible is_ordered ready c i \<and> (\<forall>j<i. \<not> eligible is_ordered ready c j)" (is "?l \<longleftrightarrow> ?r")
proof
  assume l: ?l
  then obtain e where e: "c ! i = Some e" "ready e"
    using shown_ready [OF assms] by (auto simp: first_rdy_iff)
  have "\<not> eligible is_ordered ready c j" if "j < i" for j
    using l that assms(2) shown_ready [OF assms(1), of j]
    by (auto simp: first_rdy_iff eligible_def split: option.splits)
  moreover have "\<not> iv_waits is_ordered (somes (take i c)) e"
    using l wait_pred_waits [OF assms e(1)] by (auto simp: iv_waits_def)
  ultimately show ?r using e by (simp add: eligible_def)
next
  assume r: ?r
  then obtain e where e: "c ! i = Some e" "ready e" "\<not> iv_waits is_ordered (somes (take i c)) e"
    by (auto simp: eligible_def split: option.splits)
  have "\<not> sl_status_ready (slots ! j)" if j: "j < i" for j
  proof
    assume "sl_status_ready (slots ! j)"
    then obtain x where x: "c ! j = Some x" "ready x"
      using shown_ready [OF assms(1), of j] j assms(2) by auto
    then have "iv_waits is_ordered (somes (take j c)) x" using r j by (auto simp: eligible_def)
    from waits_propagates [OF x(1) this j assms(2)] e(3) show False by blast
  qed
  then show ?l
    using e shown_ready [OF assms] wait_pred_waits [OF assms e(1)] by (auto simp: first_rdy_iff iv_waits_def)
qed

lemma iq_select_None:
  "\<forall>j. length pre \<le> j \<and> j < length (pre @ c) \<longrightarrow> \<not> eligible is_ordered ready (pre @ c) j \<Longrightarrow>
   iq_select is_ordered ready (somes pre) (somes c) = None"
proof (induction c arbitrary: pre)
  case (Cons x c)
  from Cons.prems have "\<not> eligible is_ordered ready (pre @ x # c) (length pre)" by simp
  moreover have "iq_select is_ordered ready (somes (pre @ [x])) (somes c) = None"
    using Cons.prems by (intro Cons.IH) auto
  ultimately show ?case by (cases x) (auto simp: eligible_def)
qed simp

lemma iq_select_Some:
  "eligible is_ordered ready (pre @ c) i \<Longrightarrow> length pre \<le> i \<Longrightarrow> i < length (pre @ c) \<Longrightarrow>
   \<forall>j. length pre \<le> j \<and> j < i \<longrightarrow> \<not> eligible is_ordered ready (pre @ c) j \<Longrightarrow>
   iq_select is_ordered ready (somes pre) (somes c) =
     Some (somes (take i (pre @ c)), the ((pre @ c) ! i), somes (drop (Suc i) (pre @ c)))"
proof (induction c arbitrary: pre)
  case (Cons x c)
  show ?case
  proof (cases "i = length pre")
    case True
    with Cons.prems(1) show ?thesis by (cases x) (simp_all add: eligible_def)
  next
    case False
    with Cons.prems have "\<not> eligible is_ordered ready (pre @ x # c) (length pre)" by simp
    moreover have "iq_select is_ordered ready (somes (pre @ [x])) (somes c) =
        Some (somes (take i ((pre @ [x]) @ c)), the (((pre @ [x]) @ c) ! i), somes (drop (Suc i) ((pre @ [x]) @ c)))"
      using Cons.prems False by (intro Cons.IH) auto
    ultimately show ?thesis by (cases x) (auto simp: eligible_def)
  qed
qed simp

text \<open>Both cases for the whole queue.\<close>

lemma select_cases:
  obtains (none) "\<forall>i<length c. \<not> eligible is_ordered ready c i" "iq_select is_ordered ready [] (somes c) = None"
  | (found) i e where "i < length c" "c ! i = Some e" "eligible is_ordered ready c i"
      "\<forall>j<i. \<not> eligible is_ordered ready c j"
      "iq_select is_ordered ready [] (somes c) = Some (somes (take i c), e, somes (drop (Suc i) c))"
proof (cases "\<exists>i<length c. eligible is_ordered ready c i")
  case False
  with iq_select_None [of "[]" c] none show ?thesis by simp
next
  case True
  define i where "i = (LEAST i. eligible is_ordered ready c i)"
  from True have i: "i < length c" "eligible is_ordered ready c i"
    by (auto simp: i_def intro: LeastI Least_le [THEN le_less_trans])
  have least: "\<forall>j<i. \<not> eligible is_ordered ready c j" by (auto simp: i_def dest: not_less_Least)
  from i(2) obtain e where e: "c ! i = Some e" by (auto simp: eligible_def split: option.splits)
  with iq_select_Some [of is_ordered ready "[]" c i] i least found show ?thesis by simp
qed

lemma mux_output_first:
  assumes "first_rdy slots i" "i < length slots"
  shows "mux_output zero slots = sl_peek_value (slots ! i)"
proof -
  have other: "\<not> first_rdy slots j" if "j \<noteq> i" for j
    using that assms(1) by (auto simp: first_rdy_iff) (metis nat_neq_iff)
  have "fold (\<lambda>j v. if first_rdy slots j then sl_peek_value (slots ! j) else v) [0..<n] zero =
        (if i < n then sl_peek_value (slots ! i) else zero)" for n
    by (induction n) (use other assms(1) in \<open>auto simp: less_Suc_eq\<close>)
  with assms(2) show ?thesis by (simp add: mux_output_def)
qed

section \<open>The shift network\<close>

definition issued :: "(nat \<Rightarrow> bool) \<Rightarrow> 'a option list \<Rightarrow> 'a option list" where
  "issued issuing c = map (\<lambda>k. if issuing k then None else c ! k) [0..<length c]"

lemma length_issued [simp]: "length (issued issuing c) = length c" by (simp add: issued_def)

lemma nth_issued [simp]: "k < length c \<Longrightarrow> issued issuing c ! k = (if issuing k then None else c ! k)"
  by (simp add: issued_def)

lemma do_shift_shifts:
  "all_shown b ready slots c \<Longrightarrow> Suc k < length c \<Longrightarrow> do_shift slots issuing k = shifts False (issued issuing c) k"
proof (induction k)
  case 0
  then have "c \<noteq> []" by auto
  with 0 show ?case using shown_valid [OF 0(1), of 0] shown_valid [OF 0(1), of 1] by auto
next
  case (Suc k)
  then show ?case using shown_valid [OF Suc(2), of "Suc k"] shown_valid [OF Suc(2), of "Suc (Suc k)"] by auto
qed

lemma slot_take_shifts:
  "all_shown b ready slots c \<Longrightarrow> k < length c \<Longrightarrow>
   slot_take slots issuing k \<longleftrightarrow>
     issuing k \<or> (case k of 0 \<Rightarrow> False | Suc j \<Rightarrow> shifts False (issued issuing c) j)"
  by (cases k) (simp_all add: do_shift_shifts)

lemma add_rdy_hole:
  assumes "all_shown b ready slots c" "c \<noteq> []"
  shows "add_rdy slots issuing \<longleftrightarrow> None \<in> set (issued issuing c)"
proof -
  let ?n = "length c - 1" and ?d = "issued issuing c"
  have n: "?n < length c" "Suc ?n = length c" "length slots = length c"
    using assms all_shown_length by auto
  have d: "?d \<noteq> []" using assms(2) length_issued [of issuing c] by (metis length_0_conv)
  have "add_rdy slots issuing \<longleftrightarrow> compact False ?d ! ?n = None"
    using n shown_valid [OF assms(1), of ?n] slot_take_shifts [OF assms(1), of ?n]
    by (simp add: add_rdy_def compact_nth del: not_None_eq)
  also have "compact False ?d ! ?n = last (compact False ?d)"
    using d by (metis last_conv_nth length_0_conv length_compact length_issued)
  finally show ?thesis using last_compact [OF d] by simp
qed

lemma somes_update_last:
  "xs \<noteq> [] \<Longrightarrow> last xs = None \<Longrightarrow> somes (xs[length xs - 1 := Some v]) = somes xs @ [v]"
  by (cases xs rule: rev_cases) (auto simp: list_update_append)

section \<open>One cycle of the queue\<close>

definition iv_normal :: "('t, 'o, 'k) issue_value \<Rightarrow> bool" where
  "iv_normal e \<longleftrightarrow> (iv_src0_val e \<or> iv_src0_rdy e) \<and> (iv_src1_val e \<or> iv_src1_rdy e)"

definition iq_related :: "nat \<Rightarrow> ('t, 'o, 'k) issue_slot list \<Rightarrow> ('t, 'o, 'k) issue_value list \<Rightarrow> bool" where
  "iq_related n ss q \<longleftrightarrow> length ss = n \<and> 0 < n \<and> iq_abs ss = q \<and> list_all iv_normal q"

lemma iv_normal_enter [simp]: "iv_normal (iv_enter e)"
  by (auto simp: iv_normal_def iv_enter_def)

lemma iv_normal_wake [simp]: "iv_normal e \<Longrightarrow> iv_normal (iv_wake b e)"
  by (auto simp: iv_normal_def iv_wake_def)

lemma iv_enter_wake [simp]: "iv_normal e \<Longrightarrow> iv_enter (iv_wake b e) = iv_wake b e"
  by (auto simp: iv_normal_def iv_wake_def iv_enter_def)

lemma iv_normal_kill: "iv_normal e \<Longrightarrow> iv_kill check b e = Some e' \<Longrightarrow> iv_normal e'"
  by (auto simp: iv_normal_def iv_kill_def Let_def split: prod.splits if_splits)

lemma alive_somes: "somes (map (slot_alive check b) ss) = somes (map (iv_kill check b) (iq_abs ss))"
proof -
  have "map (slot_alive check b) ss = map (\<lambda>x. x \<bind> iv_kill check b) (map slot_abs ss)"
    by (simp add: slot_alive_def)
  then show ?thesis by (simp only: somes_bind iq_abs_def)
qed

lemma alive_normal:
  assumes "list_all iv_normal (iq_abs ss)" "Some e \<in> set (map (slot_alive check b) ss)"
  shows "iv_normal e"
proof -
  from assms(2) have "e \<in> set (somes (map (iv_kill check b) (iq_abs ss)))"
    by (simp only: set_somes flip: alive_somes)
  then obtain x where "x \<in> set (iq_abs ss)" "iv_kill check b x = Some e" by (auto simp: set_somes)
  with assms(1) show ?thesis by (auto simp: list_all_iff intro: iv_normal_kill)
qed

definition iq_next ::
  "('k, 'x) drop_controller \<Rightarrow> ('t, 'o, 'k) slot_out list \<Rightarrow> (nat \<Rightarrow> bool) \<Rightarrow> ('t, 'o, 'k, 'x) iq_in \<Rightarrow>
   ('t, 'o, 'k) issue_slot list \<Rightarrow> ('t, 'o, 'k) issue_slot list" where
  "iq_next check slots issuing i ss =
     map (\<lambda>k. slot_next check (iq_broadcast i) (ss ! k) (slot_input slots issuing i k)) [0..<length ss]"

lemma slots_next_abs:
  assumes shown: "all_shown (iq_broadcast i) ready slots c"
    and c: "c = map (slot_alive check (iq_broadcast i)) ss" and ss: "ss \<noteq> []"
    and normal: "list_all iv_normal (iq_abs ss)"
  shows "map slot_abs (iq_next check slots issuing i ss) =
    (let m = map (map_option (iv_wake (iq_broadcast i))) (compact False (issued issuing c))
     in if iq_add_call i
        then m[length m - 1 := Some (iv_enter (handle_add (iq_broadcast i) (iq_add_value i)))] else m)"
    (is "?lhs = ?rhs")
proof (rule nth_equalityI)
  show "length ?lhs = length ?rhs" by (simp add: iq_next_def c Let_def)
  fix k assume "k < length ?lhs"
  then have k: "k < length ss" "k < length c" "k < length (issued issuing c)"
    by (simp_all add: iq_next_def c)
  have len: "length slots = length c" "length c = length ss" using all_shown_length [OF shown] c by simp_all
  have alive: "slot_alive check (iq_broadcast i) (ss ! k) = c ! k" using k by (simp add: c)
  note next_k = slot_next_abs [of check "iq_broadcast i" "ss ! k"] alive
  show "?lhs ! k = ?rhs ! k"
  proof (cases "Suc k < length c")
    case True
    have nxt: "iv_enter (sl_peek_value (slots ! Suc k)) = iv_wake (iq_broadcast i) e"
      if "c ! Suc k = Some e" for e
    proof -
      have "iv_normal e" using alive_normal [OF normal, of e check "iq_broadcast i"] that True c
        by (metis nth_mem)
      with shown_entry [OF shown True that] show ?thesis by simp
    qed
    have sh: "do_shift slots issuing k = shifts False (issued issuing c) k"
      using do_shift_shifts [OF shown True] .
    have live: "issued issuing c ! Suc k = c ! Suc k \<and> c ! Suc k \<noteq> None" if "shifts False (issued issuing c) k"
      using that True by (cases k) (auto split: if_splits)
    have "?lhs ! k = (if do_shift slots issuing k then Some (iv_enter (sl_peek_value (slots ! Suc k)))
        else if slot_take slots issuing k then None else map_option (iv_wake (iq_broadcast i)) (c ! k))"
      using k True len by (simp add: iq_next_def slot_input_def next_k)
    also have "\<dots> = map_option (iv_wake (iq_broadcast i)) (compact False (issued issuing c) ! k)"
      using k True live nxt slot_take_shifts [OF shown k(2), of issuing]
      by (auto simp: compact_nth sh)
    also have "\<dots> = ?rhs ! k" using k True by (simp add: Let_def)
    finally show ?thesis .
  next
    case False
    then have last: "k = length c - 1" using k by simp
    have "?lhs ! k = (if iq_add_call i then Some (iv_enter (handle_add (iq_broadcast i) (iq_add_value i)))
        else if slot_take slots issuing k then None else map_option (iv_wake (iq_broadcast i)) (c ! k))"
      using k False len by (simp add: iq_next_def slot_input_def next_k)
    also have "\<dots> = ?rhs ! k"
      using k False last slot_take_shifts [OF shown k(2), of issuing]
      by (auto simp: compact_nth Let_def)
    finally show ?thesis .
  qed
qed

lemma will_issue_eligible:
  assumes "all_shown b ready slots c" "k < length c"
  shows "will_issue is_ordered slots remove_call k \<longleftrightarrow>
         remove_call \<and> eligible is_ordered ready c k \<and> (\<forall>j<k. \<not> eligible is_ordered ready c j)"
proof -
  have "list_ex (first_rdy slots) [0..<length slots]" if "first_rdy slots k"
    using that assms all_shown_length [OF assms(1)] by (auto simp: list_ex_iff)
  then show ?thesis
    using first_rdy_eligible [OF assms, of is_ordered] by (auto simp: will_issue_def)
qed

lemma remove_rdy_eligible:
  assumes "all_shown b ready slots c"
  shows "remove_rdy is_ordered slots \<longleftrightarrow>
         (\<exists>i<length c. eligible is_ordered ready c i \<and> (\<forall>j<i. \<not> eligible is_ordered ready c j))"
proof -
  have "remove_rdy is_ordered slots \<longleftrightarrow>
        (\<exists>i<length slots. first_rdy slots i \<and> (is_ordered \<longrightarrow> \<not> wait_pred slots i))"
    by (auto simp: remove_rdy_def list_ex_iff)
  with first_rdy_eligible [OF assms, of _ is_ordered] all_shown_length [OF assms] show ?thesis by metis
qed

text \<open>What the queue offers, and what the slots hold once the chosen entry has left.\<close>

lemma offered:
  assumes shown: "all_shown b ready slots c"
  shows "(if remove_rdy is_ordered slots then Some (mux_output zero slots) else None) =
         map_option (\<lambda>(older, e, younger). iv_wake b e) (iq_select is_ordered ready [] (somes c))"
proof (cases rule: select_cases [of c is_ordered ready])
  case none
  then show ?thesis using remove_rdy_eligible [OF shown, of is_ordered] by auto
next
  case (found i e)
  have "remove_rdy is_ordered slots" using remove_rdy_eligible [OF shown, of is_ordered] found by blast
  moreover have "first_rdy slots i" using first_rdy_eligible [OF shown found(1), of is_ordered] found by blast
  ultimately show ?thesis
    using found mux_output_first [of slots i zero] shown_entry [OF shown found(1,2)] all_shown_length [OF shown]
    by simp
qed

lemma rest_after_issue:
  assumes shown: "all_shown b ready slots c"
  shows "somes (issued (will_issue is_ordered slots remove_call) c) =
         (case iq_select is_ordered ready [] (somes c) of
            Some (older, e, younger) \<Rightarrow> if remove_call then older @ younger else somes c
          | None \<Rightarrow> somes c)"
proof -
  let ?w = "will_issue is_ordered slots remove_call"
  note w = will_issue_eligible [OF shown, of _ is_ordered remove_call]
  have same: "issued ?w c = c" if "\<forall>k<length c. \<not> ?w k"
    using that by (intro nth_equalityI) auto
  show ?thesis
  proof (cases rule: select_cases [of c is_ordered ready])
    case none
    then have "issued ?w c = c" using w by (intro same) auto
    with none show ?thesis by simp
  next
    case (found i e)
    show ?thesis
    proof (cases remove_call)
      case False
      then have "issued ?w c = c" using w by (intro same) auto
      with found False show ?thesis by simp
    next
      case True
      have "?w k \<longleftrightarrow> k = i" if "k < length c" for k
        using w [OF that] w [OF found(1)] found(3,4) True by (metis nat_neq_iff)
      then have "issued ?w c = c[i := None]"
        by (intro nth_equalityI) (auto simp: nth_list_update)
      also have "somes \<dots> = somes (take i c) @ somes (drop (Suc i) c)"
        using found(1) by (simp add: upd_conv_take_nth_drop)
      finally show ?thesis using found True by simp
    qed
  qed
qed

lemma iq_step_related:
  fixes ss :: "('t, 'o, 'k) issue_slot list"
  assumes r: "iq_related n ss q" and ok: "iq_ok check bypass_ready is_ordered n q i"
  shows "iq_view (snd (iq_step check bypass_ready is_ordered zero ss i)) =
           snd (iq_spec_step check bypass_ready is_ordered n q i) \<and>
         iq_related n (fst (iq_step check bypass_ready is_ordered zero ss i))
           (fst (iq_spec_step check bypass_ready is_ordered n q i))"
proof -
  let ?b = "iq_broadcast i"
  define ready :: "('t, 'o, 'k) issue_value \<Rightarrow> bool" where "ready = (\<lambda>e. iv_ready (if bypass_ready then iv_wake ?b e else e))"
  define slots where "slots = map (slot_status check bypass_ready ?b) ss"
  define c where "c = map (slot_alive check ?b) ss"
  define issuing where "issuing = will_issue is_ordered slots (iq_remove_call i)"
  have shown: "all_shown ?b ready slots c" unfolding slots_def c_def ready_def by (rule all_shown_status)
  from r have ss: "ss \<noteq> []" "length ss = n" and normal: "list_all iv_normal (iq_abs ss)" and q: "iq_abs ss = q"
    by (auto simp: iq_related_def)
  have c: "c \<noteq> []" "length c = n" "issued issuing c \<noteq> []"
    using ss length_issued [of issuing c] by (auto simp: c_def) (metis length_0_conv length_issued length_map)
  have alive: "somes c = somes (map (iv_kill check ?b) q)" unfolding c_def alive_somes q ..
  define rest where "rest = somes (issued issuing c)"
  define new where "new = iv_enter (handle_add ?b (iq_add_value i))"
  have spec: "iq_spec_step check bypass_ready is_ordered n q i =
      (map (iv_wake ?b) rest @ (if iq_add_call i then [new] else []), (length rest < n,
       map_option (\<lambda>(older, e, younger). iv_wake ?b e) (iq_select is_ordered ready [] (somes c))))"
    unfolding iq_spec_step_def Let_def ready_def [symmetric] rest_def issuing_def rest_after_issue [OF shown] alive new_def ..
  have step: "iq_step check bypass_ready is_ordered zero ss i =
      (iq_next check slots issuing i ss, \<lparr> iq_add_rdy = add_rdy slots issuing,
        iq_remove_rdy = remove_rdy is_ordered slots, iq_remove_value = mux_output zero slots \<rparr>)"
    by (simp add: iq_step_def iq_next_def slots_def issuing_def Let_def)
  have add_rdy: "add_rdy slots issuing \<longleftrightarrow> length rest < n"
    using add_rdy_hole [OF shown c(1), of issuing] length_somes [of "issued issuing c"] c
    by (simp add: rest_def)
  let ?m = "map (map_option (iv_wake ?b)) (compact False (issued issuing c))"
  have m: "?m \<noteq> []" "somes ?m = map (iv_wake ?b) rest"
    using c somes_compact [of "issued issuing c" False]
    by (simp_all add: somes_map_Some rest_def flip: length_0_conv)
  have "iq_abs (iq_next check slots issuing i ss) =
      map (iv_wake ?b) rest @ (if iq_add_call i then [new] else [])"
  proof (cases "iq_add_call i")
    case True
    with ok have "length rest < n" by (simp add: iq_ok_def spec)
    then have "None \<in> set (issued issuing c)"
      using length_somes [of "issued issuing c"] c by (simp add: rest_def)
    then have "last ?m = None" using last_compact [OF c(3), of False] m(1) by (simp add: last_map)
    with True show ?thesis
      unfolding iq_abs_def slots_next_abs [OF shown c_def ss(1) normal] Let_def
      using somes_update_last [OF m(1)] m(2) by (simp add: new_def)
  next
    case False
    then show ?thesis
      unfolding iq_abs_def slots_next_abs [OF shown c_def ss(1) normal] Let_def using m(2) by simp
  qed
  moreover have "list_all iv_normal (map (iv_wake ?b) rest @ (if iq_add_call i then [new] else []))"
  proof -
    have "iv_normal e" if "e \<in> set rest" for e
    proof -
      from that have "Some e \<in> set c" by (auto simp: rest_def set_somes issued_def split: if_splits)
      with alive_normal [OF normal, of e check ?b] show ?thesis by (simp add: c_def)
    qed
    then show ?thesis by (auto simp: list_all_iff new_def)
  qed
  ultimately show ?thesis
    using offered [OF shown, of is_ordered zero] ss r
    by (simp add: spec step iq_view_def add_rdy iq_related_def iq_next_def cong: if_cong split del: if_split)
qed

definition iq_reset :: "('t, 'o, 'k) issue_slot list \<Rightarrow> bool" where
  "iq_reset ss \<longleftrightarrow> list_all (\<lambda>s. \<not> vv_val (sl_val_manager s)) ss"

lemma iq_reset_related: "iq_reset ss \<Longrightarrow> ss \<noteq> [] \<Longrightarrow> iq_related (length ss) ss []"
proof -
  assume "iq_reset ss" "ss \<noteq> []"
  then have "map slot_abs ss = replicate (length ss) None"
    by (intro nth_equalityI) (auto simp: iq_reset_def list_all_length slot_abs_def)
  moreover have "somes (replicate k None) = []" for k by (induction k) auto
  ultimately show ?thesis using \<open>ss \<noteq> []\<close> by (simp add: iq_related_def iq_abs_def)
qed

interpretation iq: cycle_refinement
  "\<lambda>ss i. apsnd iq_view (iq_step check bypass_ready is_ordered zero ss i)"
  "iq_spec_step check bypass_ready is_ordered n" "iq_related n" "iq_ok check bypass_ready is_ordered n"
  for check bypass_ready is_ordered zero n
  by unfold_locales (simp_all add: iq_step_related)

section \<open>Properties\<close>

text \<open>C7: from reset on, as long as instructions are added only when \<open>add\<close> is ready, the compacting queue of
  any number of slots behaves on every input sequence like a bounded list in program order: it offers the
  oldest instruction that is ready and need not wait for an older one, accepts whenever one place is free or
  becomes free in the cycle, applies kills before anything else and loses no notification, whether the entry
  is standing, moving to the next slot or just being added.\<close>

theorem issue_queue_refines:
  assumes "iq_reset ss" "ss \<noteq> []"
    and "runs_ok (iq_spec_step check bypass_ready is_ordered (length ss))
           (iq_ok check bypass_ready is_ordered (length ss)) [] is"
  shows "map iq_view (run (iq_step check bypass_ready is_ordered zero) ss is) =
         run (iq_spec_step check bypass_ready is_ordered (length ss)) [] is"
  using iq.run_refines [OF iq_reset_related [OF assms(1,2)] assms(3), of zero]
  by (simp add: run_map_output)

text \<open>Two slots: a load that waits for tag 5 and a ready instruction behind it leave out of order, in the cycle in
  which the first is woken.\<close>

definition example_value :: "nat \<Rightarrow> bool \<Rightarrow> bool \<Rightarrow> nat \<Rightarrow> (nat, nat, nat) issue_value" where
  "example_value src rdy ord opaque =
     \<lparr> iv_src0_val = True, iv_src0_rdy = rdy, iv_src0 = src, iv_src1_val = False, iv_src1_rdy = False, iv_src1 = 0,
       iv_opaque = opaque, iv_kill_opaque = 0, iv_ordered = ord \<rparr>"

definition example_slot :: "(nat, nat, nat) issue_slot" where
  "example_slot =
     \<lparr> sl_val_manager = vvm_reset 0, sl_opaque = 0, sl_src0 = 0, sl_src0_val = True, sl_src0_rdy = False, sl_src1 = 0,
       sl_src1_val = False, sl_src1_rdy = False, sl_ordered = False \<rparr>"

definition example_inputs :: "(nat, nat, nat, unit) iq_in list" where
  "example_inputs =
     (let quiet = \<lparr> bc_notify = [(False, 5)], bc_kill = () \<rparr>; wake = \<lparr> bc_notify = [(True, 5)], bc_kill = () \<rparr>
      in [\<lparr> iq_add_call = True, iq_add_value = example_value 5 False False 1, iq_remove_call = False, iq_broadcast = quiet \<rparr>,
          \<lparr> iq_add_call = True, iq_add_value = example_value 6 True False 2, iq_remove_call = False, iq_broadcast = quiet \<rparr>,
          \<lparr> iq_add_call = False, iq_add_value = example_value 6 True False 2, iq_remove_call = True, iq_broadcast = wake \<rparr>])"

lemma issue_queue_refines_witness:
  "map iq_view (run (iq_step null_drop False True (example_value 0 False False 0)) [example_slot, example_slot] example_inputs) =
   [(True, None), (True, None), (True, Some (example_value 6 True False 2\<lparr> iv_src1_rdy := True \<rparr>))]"
proof -
  have "runs_ok (iq_spec_step null_drop False True 2) (iq_ok null_drop False True 2) [] example_inputs"
    and spec: "run (iq_spec_step null_drop False True 2) [] example_inputs =
      [(True, None), (True, None), (True, Some (example_value 6 True False 2\<lparr> iv_src1_rdy := True \<rparr>))]"
    by code_simp+
  moreover have "iq_reset [example_slot, example_slot]" by code_simp
  ultimately show ?thesis
    using issue_queue_refines [of "[example_slot, example_slot]" null_drop False True example_inputs
        "example_value 0 False False 0"] by (simp add: numeral_2_eq_2)
qed

end
