(* ===== verification/Issue.thy ===== *)
theory Issue
  imports Issue_Queue Backend "HOL-Library.Multiset" "HOL-Library.Sublist"
begin

text \<open>
  The issue stage of \<open>lizard/core/rtl/backend/issue.py\<close> around its issue queue: what it puts into a slot, which
  instructions it marks as ordered, and the guarantees the stage gives to the program order.
\<close>

section \<open>The stage\<close>

text \<open>The three ways of marking an instruction as ordered. In a message that carries an exception the bit read
  as the memory function is bit 47 of \<open>mtval\<close>, which overlays it (\<open>mem_func_overlay\<close>).\<close>

definition IssueOrderedStores :: "rename_msg \<Rightarrow> bool" where
  "IssueOrderedStores m =
     (if msg_valid (rm_hdr m)
      then mem_msg_func (ed_pipe_msg (rm_execution_data m)) = pattern MemFunc ''MEM_FUNC_STORE''
      else bit (ei_mtval (rm_exception_info m)) 47)"

definition IssueInOrder :: "rename_msg \<Rightarrow> bool" where
  "IssueInOrder m = True"

definition IssueOutOfOrder :: "rename_msg \<Rightarrow> bool" where
  "IssueOutOfOrder m = False"

type_synonym issue_entry = "(6 word, rename_msg, 2 word) issue_value"

definition zero_entry :: issue_entry where
  "zero_entry =
     \<lparr> iv_src0_val = False, iv_src0_rdy = False, iv_src0 = 0, iv_src1_val = False, iv_src1_rdy = False, iv_src1 = 0,
       iv_opaque = zero_rename zero_hdr, iv_kill_opaque = 0, iv_ordered = False \<rparr>"

text \<open>\<open>handle_input\<close>: \<open>is_ready\<close> is the answer of the data flow manager for a tag.\<close>

definition issue_handle_input :: "(rename_msg \<Rightarrow> bool) \<Rightarrow> (6 word \<Rightarrow> bool) \<Rightarrow> rename_msg \<Rightarrow> issue_entry" where
  "issue_handle_input set_ordered is_ready m =
     (let slot = zero_entry\<lparr> iv_ordered := set_ordered m, iv_kill_opaque := bh_branch_mask (rm_hdr m) \<rparr>;
          msg = zero_rename (rm_hdr m)
      in if \<not> msg_valid (rm_hdr m)
         then slot\<lparr> iv_opaque := msg\<lparr> rm_exception_info := rm_exception_info m \<rparr> \<rparr>
         else slot\<lparr> iv_opaque := msg\<lparr> rm_execution_data := rm_execution_data m, rm_rd := rm_rd m,
                                      rm_rd_val := rm_rd_val m, rm_areg_d := rm_areg_d m \<rparr>,
                    iv_src0 := rm_rs1 m, iv_src0_val := rm_rs1_val m, iv_src1 := rm_rs2 m, iv_src1_val := rm_rs2_val m,
                    iv_src0_rdy := is_ready (rm_rs1 m), iv_src1_rdy := is_ready (rm_rs2 m) \<rparr>)"

definition issue_handle_output :: "issue_entry \<Rightarrow> rename_msg" where
  "issue_handle_output v =
     (let msg = iv_opaque v;
          msg = (if msg_valid (rm_hdr msg)
                 then msg\<lparr> rm_rs1 := iv_src0 v, rm_rs1_val := iv_src0_val v,
                           rm_rs2 := iv_src1 v, rm_rs2_val := iv_src1_val v \<rparr>
                 else msg)
      in msg\<lparr> rm_hdr := (rm_hdr msg)\<lparr> bh_branch_mask := iv_kill_opaque v \<rparr> \<rparr>)"

record issue_in =
  ii_in_peek_rdy :: bool
  ii_in_peek_msg :: rename_msg
  ii_is_ready :: "6 word \<Rightarrow> bool"
  ii_updated :: "(bool \<times> 6 word) list"
  ii_kill_msg :: "2 word kill_type"
  ii_take_call :: bool

record issue_out =
  io_can_take_rdy :: bool
  io_in_take_call :: bool
  io_peek_rdy :: bool
  io_peek_msg :: rename_msg

type_synonym issue_state = "(6 word, rename_msg, 2 word) issue_slot list"

definition issue_iq_in ::
  "(rename_msg \<Rightarrow> bool) \<Rightarrow> issue_in \<Rightarrow> bool \<Rightarrow> (6 word, rename_msg, 2 word, 2 word kill_type) iq_in" where
  "issue_iq_in set_ordered i accepted =
     \<lparr> iq_add_call = accepted, iq_add_value = issue_handle_input set_ordered (ii_is_ready i) (ii_in_peek_msg i),
       iq_remove_call = ii_take_call i, iq_broadcast = \<lparr> bc_notify = ii_updated i, bc_kill = ii_kill_msg i \<rparr> \<rparr>"

text \<open>\<open>add_rdy\<close> of the queue does not depend on \<open>add_call\<close>, so it is read first.\<close>

definition issue_step ::
  "(rename_msg \<Rightarrow> bool) \<Rightarrow> bool \<Rightarrow> (issue_state, issue_in, issue_out) machine" where
  "issue_step set_ordered bypass_ready ss i =
     (let queue = iq_step kill_drop bypass_ready True zero_entry ss;
          add_rdy = iq_add_rdy (snd (queue (issue_iq_in set_ordered i False)));
          accepted = (ii_in_peek_rdy i \<and> add_rdy);
          (ss', out) = queue (issue_iq_in set_ordered i accepted)
      in (ss', \<lparr> io_can_take_rdy = add_rdy, io_in_take_call = accepted, io_peek_rdy = iq_remove_rdy out,
                 io_peek_msg = issue_handle_output (iq_remove_value out) \<rparr>))"

text \<open>The instructions a run of the stage accepts and those its consumer takes.\<close>

fun issue_accepted :: "issue_in list \<Rightarrow> issue_out list \<Rightarrow> rename_msg list" where
  "issue_accepted (i # is) (out # outs) =
     (if io_in_take_call out then [ii_in_peek_msg i] else []) @ issue_accepted is outs"
| "issue_accepted _ _ = []"

fun issue_taken :: "issue_in list \<Rightarrow> issue_out list \<Rightarrow> rename_msg list" where
  "issue_taken (i # is) (out # outs) =
     (if ii_take_call i \<and> io_peek_rdy out then [io_peek_msg out] else []) @ issue_taken is outs"
| "issue_taken _ _ = []"

text \<open>What an instruction carries through the stage: everything but the branch mask, which the kill
  messages rewrite; of a message that is not valid, the exception information.\<close>

definition carried :: "rename_msg \<Rightarrow> rename_msg" where
  "carried m =
     (let hdr = (rm_hdr m)\<lparr> bh_branch_mask := 0 \<rparr>
      in if msg_valid (rm_hdr m) then m\<lparr> rm_hdr := hdr, rm_exception_info := zero_exception \<rparr>
         else (zero_rename hdr)\<lparr> rm_exception_info := rm_exception_info m \<rparr>)"

definition entry_key :: "issue_entry \<Rightarrow> rename_msg" where
  "entry_key e = carried (issue_handle_output e)"

text \<open>The layout fact behind \<open>IssueOrderedStores\<close>.\<close>

lemma mem_func_overlay:
  "\<exists>base. bitfield RenameMsg ''mem_msg_func'' = Some (base + 4 + 47, base + 4 + 47 + 1) \<and>
          bitfield RenameMsg ''exception_info_mtval'' = Some (base + 4, base + 4 + 64)"
  by (simp add: bitfield_def RenameMsg_def RenamePayload_def BackendMsg_def gen_pipeline_msg_def BackendHeader_def
      FrontendHeader_def ExceptionInfo_def PipeMsg_def ExecutionDataGroup_def ValidValuePair_def Inline_def
      StructField_def AluMsg_def MMsg_def CsrMsg_def BranchMsg_def JumpMsg_def MemMsg_def SystemMsg_def Field_def
      own_name_def CSR_SPEC_NBITS_def XLEN_def DECODED_IMM_LEN_def MCAUSE_NBITS_def PREG_IDX_NBITS_def PREG_COUNT_def
      AREG_IDX_NBITS_def AREG_COUNT_def clog2_def clog2_loop.simps)

section \<open>Entries and messages\<close>

lemma entry_key_wake [simp]: "entry_key (iv_wake b e) = entry_key e"
  by (simp add: entry_key_def issue_handle_output_def iv_wake_def Let_def)

lemma entry_key_kill: "iv_kill check b e = Some e' \<Longrightarrow> entry_key e' = entry_key e \<and> iv_ordered e' = iv_ordered e"
  by (auto simp: entry_key_def issue_handle_output_def iv_kill_def carried_def Let_def split: prod.splits if_splits)

lemma entry_key_enter [simp]:
  "entry_key (iv_enter (handle_add b (issue_handle_input set_ordered is_ready m))) = carried m"
  by (simp add: entry_key_def issue_handle_output_def iv_enter_def handle_add_def issue_handle_input_def carried_def
      zero_entry_def zero_rename_def Let_def)

lemma ordered_enter [simp]:
  "iv_ordered (iv_enter (handle_add b (issue_handle_input set_ordered is_ready m))) = set_ordered m"
  by (simp add: iv_enter_def handle_add_def issue_handle_input_def zero_entry_def Let_def)

lemma ordered_wake [simp]: "iv_ordered (iv_wake b e) = iv_ordered e"
  by (simp add: iv_wake_def)

section \<open>The stage over the contract of the queue\<close>

abbreviation "issue_spec bypass_ready n \<equiv> iq_spec_step kill_drop bypass_ready True n"

definition issue_accepts :: "bool \<Rightarrow> nat \<Rightarrow> (rename_msg \<Rightarrow> bool) \<Rightarrow> issue_entry list \<Rightarrow> issue_in \<Rightarrow> bool" where
  "issue_accepts bypass_ready n set_ordered q i =
     (ii_in_peek_rdy i \<and> fst (snd (issue_spec bypass_ready n q (issue_iq_in set_ordered i False))))"

lemma spec_add_rdy:
  "snd (issue_spec bypass_ready n q (issue_iq_in set_ordered i a)) =
   snd (issue_spec bypass_ready n q (issue_iq_in set_ordered i False))"
  unfolding iq_spec_step_def issue_iq_in_def Let_def by (simp only: snd_conv iq_in.simps)

lemma iq_add_call_in [simp]: "iq_add_call (issue_iq_in set_ordered i a) = a"
  by (simp add: issue_iq_in_def)

lemma issue_step_spec:
  assumes r: "iq_related n ss q" and step: "issue_step set_ordered bypass_ready ss i = (ss', out)"
  defines "inp \<equiv> issue_iq_in set_ordered i (issue_accepts bypass_ready n set_ordered q i)"
  shows "iq_related n ss' (fst (issue_spec bypass_ready n q inp))"
    and "io_in_take_call out = issue_accepts bypass_ready n set_ordered q i"
    and "(if io_peek_rdy out then Some (io_peek_msg out) else None) =
         map_option issue_handle_output (snd (snd (issue_spec bypass_ready n q inp)))"
proof -
  let ?base = "issue_iq_in set_ordered i False"
  have ok0: "iq_ok kill_drop bypass_ready True n q ?base" by (simp add: iq_ok_def issue_iq_in_def)
  have acc: "ii_in_peek_rdy i \<and> iq_add_rdy (snd (iq_step kill_drop bypass_ready True zero_entry ss ?base)) \<longleftrightarrow>
      issue_accepts bypass_ready n set_ordered q i"
    using iq_step_related [OF r ok0, of zero_entry] by (auto simp: issue_accepts_def iq_view_def prod_eq_iff)
  have ok: "iq_ok kill_drop bypass_ready True n q inp"
    unfolding iq_ok_def inp_def iq_add_call_in
      spec_add_rdy [of bypass_ready n q set_ordered i "issue_accepts bypass_ready n set_ordered q i"]
    by (simp add: issue_accepts_def)
  have out: "ss' = fst (iq_step kill_drop bypass_ready True zero_entry ss inp)"
    "io_in_take_call out = issue_accepts bypass_ready n set_ordered q i"
    "io_peek_rdy out = iq_remove_rdy (snd (iq_step kill_drop bypass_ready True zero_entry ss inp))"
    "io_peek_msg out = issue_handle_output (iq_remove_value (snd (iq_step kill_drop bypass_ready True zero_entry ss inp)))"
    using step acc by (auto simp: issue_step_def inp_def Let_def split: prod.splits)
  note rel = iq_step_related [OF r ok, of zero_entry]
  show "iq_related n ss' (fst (issue_spec bypass_ready n q inp))" using rel out(1) by simp
  show "io_in_take_call out = issue_accepts bypass_ready n set_ordered q i" by (rule out(2))
  have "snd (snd (issue_spec bypass_ready n q inp)) =
      snd (iq_view (snd (iq_step kill_drop bypass_ready True zero_entry ss inp)))"
    using rel by simp
  then show "(if io_peek_rdy out then Some (io_peek_msg out) else None) =
         map_option issue_handle_output (snd (snd (issue_spec bypass_ready n q inp)))"
    by (simp add: iq_view_def out)
qed

text \<open>The keys of the entries that leave and stay.\<close>

lemma select_split:
  "iq_select is_ordered ready older q = Some (older', e, younger) \<Longrightarrow>
   older @ q = older' @ e # younger \<and> \<not> iv_waits is_ordered older' e"
  by (induction is_ordered ready older q rule: iq_select.induct) (auto split: if_splits)

lemma alive_keys:
  "subseq (map entry_key (filter iv_ordered (somes (map (iv_kill check b) q))))
     (map entry_key (filter iv_ordered q))"
proof (induction q)
  case (Cons e q)
  then show ?case
    by (cases "iv_kill check b e") (auto dest: entry_key_kill intro: list_emb_Cons)
qed simp

lemma alive_keys_all:
  "(\<And>k. snd (check (bc_kill b) k)) \<Longrightarrow> map entry_key (somes (map (iv_kill check b) q)) = map entry_key q"
proof (induction q)
  case (Cons e q)
  from Cons.prems [of "iv_kill_opaque e"] obtain e' where "iv_kill check b e = Some e'"
    by (cases "check (bc_kill b) (iv_kill_opaque e)") (auto simp: iv_kill_def)
  with Cons entry_key_kill [OF this] show ?case by simp
qed simp

lemma waits_older: "\<not> iv_waits True older e \<Longrightarrow> iv_ordered e \<Longrightarrow> older = []"
  by (simp add: iv_waits_def)

definition leaving :: "issue_in \<Rightarrow> issue_entry option \<Rightarrow> issue_entry list" where
  "leaving i offer = (if ii_take_call i then contents offer else [])"

definition entering :: "(rename_msg \<Rightarrow> bool) \<Rightarrow> issue_in \<Rightarrow> bool \<Rightarrow> rename_msg list" where
  "entering set_ordered i a = (if a then [ii_in_peek_msg i] else [])"

lemma issue_spec_parts:
  assumes "issue_spec bypass_ready n q (issue_iq_in set_ordered i a) = (q', rdy, offer)"
  obtains b older gone younger added where
    "bc_kill b = ii_kill_msg i" "somes (map (iv_kill kill_drop b) q) = older @ gone @ younger"
    "q' = map (iv_wake b) (older @ younger) @ added" "leaving i offer = map (iv_wake b) gone"
    "filter iv_ordered gone \<noteq> [] \<longrightarrow> older = []"
    "map entry_key added = map carried (entering set_ordered i a)"
    "map entry_key (filter iv_ordered added) = map carried (filter set_ordered (entering set_ordered i a))"
    "\<forall>e\<in>set added. \<exists>m. entry_key e = carried m \<and> iv_ordered e = set_ordered m"
proof -
  define b where "b = \<lparr> bc_notify = ii_updated i, bc_kill = ii_kill_msg i \<rparr>"
  define alive where "alive = somes (map (iv_kill kill_drop b) q)"
  define added where "added =
    (if a then [iv_enter (handle_add b (issue_handle_input set_ordered (ii_is_ready i) (ii_in_peek_msg i)))] else [])"
  obtain choice where choice: "iq_select True (\<lambda>e. iv_ready (if bypass_ready then iv_wake b e else e)) [] alive = choice"
    by simp
  define rest where "rest = (case choice of
      Some (older, e, younger) \<Rightarrow> if ii_take_call i then older @ younger else alive | None \<Rightarrow> alive)"
  have "issue_spec bypass_ready n q (issue_iq_in set_ordered i a) =
      (map (iv_wake b) rest @ added, (length rest < n, map_option (\<lambda>(older, e, younger). iv_wake b e) choice))"
    by (simp only: iq_spec_step_def issue_iq_in_def Let_def iq_in.simps b_def [symmetric] alive_def [symmetric] choice
        rest_def added_def)
  with assms have q': "q' = map (iv_wake b) rest @ added"
    and offer: "offer = map_option (\<lambda>(older, e, younger). iv_wake b e) choice"
    by simp_all
  have new: "map entry_key added = map carried (entering set_ordered i a)"
    "map entry_key (filter iv_ordered added) = map carried (filter set_ordered (entering set_ordered i a))"
    by (simp_all add: added_def entering_def)
  have tag: "\<exists>m. entry_key e = carried m \<and> iv_ordered e = set_ordered m" if "e \<in> set added" for e
    using that by (auto simp: added_def split: if_splits)
  have b: "bc_kill b = ii_kill_msg i" by (simp add: b_def)
  show ?thesis
  proof (cases "ii_take_call i \<and> choice \<noteq> None")
    case False
    then have "rest = alive" "leaving i offer = []"
      by (auto simp: rest_def leaving_def offer contents_def split: option.splits)
    then show ?thesis using q' new b tag by (intro that [of b alive "[]" "[]" added]) (simp_all add: alive_def)
  next
    case True
    then obtain older e younger where t: "choice = Some (older, e, younger)" by auto
    from select_split [OF trans [OF choice t]]
    have "alive = older @ e # younger" "\<not> iv_waits True older e" by simp_all
    then show ?thesis
      using q' new b tag t True waits_older [of older e]
      by (intro that [of b older "[e]" younger added])
         (auto simp: alive_def rest_def leaving_def offer contents_def split: if_splits)
  qed
qed

lemma filter_ordered_wake: "map entry_key (filter iv_ordered (map (iv_wake b) xs)) = map entry_key (filter iv_ordered xs)"
  by (induction xs) auto

lemma spec_step_order:
  assumes "issue_spec bypass_ready n q (issue_iq_in set_ordered i a) = (q', rdy, offer)"
  shows "subseq (map entry_key (filter iv_ordered (leaving i offer @ q')))
     (map entry_key (filter iv_ordered q) @ map carried (filter set_ordered (entering set_ordered i a)))"
proof -
  from issue_spec_parts [OF assms] obtain b older gone younger added where p:
    "bc_kill b = ii_kill_msg i" "somes (map (iv_kill kill_drop b) q) = older @ gone @ younger"
    "q' = map (iv_wake b) (older @ younger) @ added" "leaving i offer = map (iv_wake b) gone"
    "filter iv_ordered gone \<noteq> [] \<longrightarrow> older = []"
    "map entry_key added = map carried (entering set_ordered i a)"
    "map entry_key (filter iv_ordered added) = map carried (filter set_ordered (entering set_ordered i a))"
    "\<forall>e\<in>set added. \<exists>m. entry_key e = carried m \<and> iv_ordered e = set_ordered m" .
  have "map entry_key (filter iv_ordered (leaving i offer @ q')) =
      map entry_key (filter iv_ordered (older @ gone @ younger)) @ map carried (filter set_ordered (entering set_ordered i a))"
    unfolding p(3,4) filter_append map_append filter_ordered_wake p(7)
    using p(5) by (cases "filter iv_ordered gone") auto
  moreover have "subseq (map entry_key (filter iv_ordered (older @ gone @ younger))) (map entry_key (filter iv_ordered q))"
    unfolding p(2) [symmetric] by (rule alive_keys)
  ultimately show ?thesis by (simp only: list_emb_append_mono subseq_order.order_refl)
qed

lemma spec_step_mset:
  assumes step: "issue_spec bypass_ready n q (issue_iq_in set_ordered i a) = (q', rdy, offer)"
    and no_kill: "\<And>k. snd (kill_drop (ii_kill_msg i) k)"
  shows "mset (map entry_key (leaving i offer @ q')) =
         mset (map entry_key q @ map carried (entering set_ordered i a))"
proof -
  from issue_spec_parts [OF step] obtain b older gone younger added where p:
    "bc_kill b = ii_kill_msg i" "somes (map (iv_kill kill_drop b) q) = older @ gone @ younger"
    "q' = map (iv_wake b) (older @ younger) @ added" "leaving i offer = map (iv_wake b) gone"
    "filter iv_ordered gone \<noteq> [] \<longrightarrow> older = []"
    "map entry_key added = map carried (entering set_ordered i a)"
    "map entry_key (filter iv_ordered added) = map carried (filter set_ordered (entering set_ordered i a))"
    "\<forall>e\<in>set added. \<exists>m. entry_key e = carried m \<and> iv_ordered e = set_ordered m" .
  have wake: "map entry_key (map (iv_wake b) xs) = map entry_key xs" for xs by simp
  have "map entry_key q = map entry_key (older @ gone @ younger)"
    unfolding p(2) [symmetric] using no_kill p(1) by (simp add: alive_keys_all)
  then show ?thesis by (simp add: p(3,4,6) comp_def)
qed

text \<open>Every entry is marked the way its message says.\<close>

definition tagged :: "(rename_msg \<Rightarrow> bool) \<Rightarrow> issue_entry \<Rightarrow> bool" where
  "tagged set_ordered e \<longleftrightarrow> iv_ordered e = set_ordered (entry_key e)"

lemma spec_step_tagged:
  assumes step: "issue_spec bypass_ready n q (issue_iq_in set_ordered i a) = (q', rdy, offer)"
    and same: "\<And>m. set_ordered (carried m) = set_ordered m" and q: "list_all (tagged set_ordered) q"
  shows "list_all (tagged set_ordered) (leaving i offer @ q')"
proof -
  from issue_spec_parts [OF step] obtain b older gone younger added where p:
    "bc_kill b = ii_kill_msg i" "somes (map (iv_kill kill_drop b) q) = older @ gone @ younger"
    "q' = map (iv_wake b) (older @ younger) @ added" "leaving i offer = map (iv_wake b) gone"
    "filter iv_ordered gone \<noteq> [] \<longrightarrow> older = []"
    "map entry_key added = map carried (entering set_ordered i a)"
    "map entry_key (filter iv_ordered added) = map carried (filter set_ordered (entering set_ordered i a))"
    "\<forall>e\<in>set added. \<exists>m. entry_key e = carried m \<and> iv_ordered e = set_ordered m" .
  have "tagged set_ordered e" if "e \<in> set (older @ gone @ younger)" for e
  proof -
    from that obtain x where "x \<in> set q" "iv_kill kill_drop b x = Some e"
      unfolding p(2) [symmetric] set_somes by auto
    with entry_key_kill [OF this(2)] q show ?thesis by (simp add: list_all_iff tagged_def)
  qed
  moreover have "tagged set_ordered e" if "e \<in> set added" for e
    using p(8) that same by (auto simp: tagged_def)
  ultimately show ?thesis by (auto simp: list_all_iff p(3,4) tagged_def)
qed

section \<open>Runs\<close>

text \<open>One cycle: what the stage hands over and accepts is what leaves and enters the list.\<close>

lemma issue_cycle:
  assumes r: "iq_related n ss q" and step: "issue_step set_ordered bypass_ready ss i = (ss', out)"
  obtains q' rdy offer where
    "issue_spec bypass_ready n q (issue_iq_in set_ordered i (io_in_take_call out)) = (q', rdy, offer)"
    "iq_related n ss' q'" "issue_taken [i] [out] = map issue_handle_output (leaving i offer)"
    "issue_accepted [i] [out] = entering set_ordered i (io_in_take_call out)"
proof -
  obtain q' rdy offer where spec:
    "issue_spec bypass_ready n q (issue_iq_in set_ordered i (io_in_take_call out)) = (q', rdy, offer)"
    by (metis prod_cases3)
  note st = issue_step_spec [OF r step]
  have "(if io_peek_rdy out then Some (io_peek_msg out) else None) = map_option issue_handle_output offer"
    using st(3) spec st(2) by simp
  then have "issue_taken [i] [out] = map issue_handle_output (leaving i offer)"
    by (cases offer) (auto simp: leaving_def contents_def split: if_splits)
  then show ?thesis
    using spec st(1) st(2) by (intro that [of q' rdy offer]) (simp_all add: entering_def)
qed

lemma issue_taken_Cons: "issue_taken (i # is) (out # outs) = issue_taken [i] [out] @ issue_taken is outs"
  by simp

lemma issue_accepted_Cons: "issue_accepted (i # is) (out # outs) = issue_accepted [i] [out] @ issue_accepted is outs"
  by simp

lemma issue_run_order:
  assumes same: "\<And>m. set_ordered (carried m) = set_ordered m"
  shows "iq_related n ss q \<Longrightarrow> list_all (tagged set_ordered) q \<Longrightarrow>
    outs = run (issue_step set_ordered bypass_ready) ss is \<Longrightarrow>
    subseq (map carried (filter set_ordered (issue_taken is outs)))
      (map entry_key (filter iv_ordered q) @ map carried (filter set_ordered (issue_accepted is outs)))"
proof (induction "is" arbitrary: ss q outs)
  case (Cons i "is")
  obtain ss' out where step: "issue_step set_ordered bypass_ready ss i = (ss', out)" by fastforce
  define outs' where "outs' = run (issue_step set_ordered bypass_ready) ss' is"
  have outs: "outs = out # outs'" using Cons.prems(3) step by (simp add: outs'_def)
  from issue_cycle [OF Cons.prems(1) step] obtain q' rdy offer where c:
    "issue_spec bypass_ready n q (issue_iq_in set_ordered i (io_in_take_call out)) = (q', rdy, offer)"
    "iq_related n ss' q'" "issue_taken [i] [out] = map issue_handle_output (leaving i offer)"
    "issue_accepted [i] [out] = entering set_ordered i (io_in_take_call out)" .
  have tag: "list_all (tagged set_ordered) (leaving i offer @ q')"
    by (rule spec_step_tagged [OF c(1) same Cons.prems(2)])
  have filt: "map carried (filter set_ordered (map issue_handle_output xs)) = map entry_key (filter iv_ordered xs)"
    if "list_all (tagged set_ordered) xs" for xs
    using that same by (induction xs) (auto simp: tagged_def entry_key_def)
  let ?later = "map carried (filter set_ordered (issue_accepted is outs'))"
  have "subseq (map carried (filter set_ordered (issue_taken is outs'))) (map entry_key (filter iv_ordered q') @ ?later)"
    using Cons.IH [OF c(2) _ outs'_def] tag by simp
  then have "subseq (map entry_key (filter iv_ordered (leaving i offer)) @
        map carried (filter set_ordered (issue_taken is outs')))
      (map entry_key (filter iv_ordered (leaving i offer @ q')) @ ?later)"
    by (simp add: list_emb_append_mono)
  also have "subseq \<dots> ((map entry_key (filter iv_ordered q) @
        map carried (filter set_ordered (entering set_ordered i (io_in_take_call out)))) @ ?later)"
    by (intro list_emb_append_mono spec_step_order [OF c(1)] subseq_order.order_refl)
  finally show ?case
    unfolding outs issue_taken_Cons [of i "is"] issue_accepted_Cons [of i "is"] c(3,4)
    using filt [of "leaving i offer"] tag by simp
qed simp

lemma flow_sum:
  fixes l :: "'a multiset"
  shows "taken + left = later + new \<Longrightarrow> l + later = q + entered \<Longrightarrow> l + taken + left = q + (entered + new)"
  by (metis add.assoc)

lemma issue_run_mset:
  "iq_related n ss q \<Longrightarrow> \<forall>i\<in>set is. \<forall>k. snd (kill_drop (ii_kill_msg i) k) \<Longrightarrow>
   outs = run (issue_step set_ordered bypass_ready) ss is \<Longrightarrow>
   mset (map carried (issue_taken is outs)) +
     mset (map entry_key (iq_abs (final (issue_step set_ordered bypass_ready) ss is))) =
   mset (map entry_key q) + mset (map carried (issue_accepted is outs))"
proof (induction "is" arbitrary: ss q outs)
  case Nil
  then show ?case by (simp add: iq_related_def)
next
  case (Cons i "is")
  obtain ss' out where step: "issue_step set_ordered bypass_ready ss i = (ss', out)" by fastforce
  define outs' where "outs' = run (issue_step set_ordered bypass_ready) ss' is"
  have outs: "outs = out # outs'" using Cons.prems(3) step by (simp add: outs'_def)
  from issue_cycle [OF Cons.prems(1) step] obtain q' rdy offer where c:
    "issue_spec bypass_ready n q (issue_iq_in set_ordered i (io_in_take_call out)) = (q', rdy, offer)"
    "iq_related n ss' q'" "issue_taken [i] [out] = map issue_handle_output (leaving i offer)"
    "issue_accepted [i] [out] = entering set_ordered i (io_in_take_call out)" .
  have "mset (map carried (issue_taken is outs')) +
      mset (map entry_key (iq_abs (final (issue_step set_ordered bypass_ready) ss' is))) =
      mset (map entry_key q') + mset (map carried (issue_accepted is outs'))"
    using Cons.IH [OF c(2) _ outs'_def] Cons.prems(2) by simp
  moreover have "mset (map entry_key (leaving i offer @ q')) =
      mset (map entry_key q @ map carried (entering set_ordered i (io_in_take_call out)))"
    using Cons.prems(2) by (intro spec_step_mset [OF c(1)]) simp
  moreover have "map carried (map issue_handle_output (leaving i offer)) = map entry_key (leaving i offer)"
    by (simp add: entry_key_def)
  ultimately show ?case
    unfolding outs issue_taken_Cons [of i "is"] issue_accepted_Cons [of i "is"] c(3,4)
    using step by (simp only: final.simps fst_conv map_append mset_append) (rule flow_sum)
qed

section \<open>Properties\<close>

lemma set_ordered_carried:
  "IssueInOrder (carried m) = IssueInOrder m" "IssueOutOfOrder (carried m) = IssueOutOfOrder m"
  "IssueOrderedStores (carried m) = IssueOrderedStores m"
  by (simp_all add: IssueInOrder_def IssueOutOfOrder_def IssueOrderedStores_def carried_def zero_rename_def Let_def)

text \<open>C8: whatever is woken, killed or taken in any cycle, the instructions that the stage marks as ordered leave it
  in the order in which they came in: all of them for \<open>IssueInOrder\<close>, the stores for \<open>IssueOrderedStores\<close>. Each
  carries the fields it came in with.\<close>

theorem issue_keeps_order:
  assumes "set_ordered \<in> {IssueInOrder, IssueOrderedStores, IssueOutOfOrder}" "iq_reset ss" "ss \<noteq> []"
  shows "subseq
     (map carried (filter set_ordered (issue_taken is (run (issue_step set_ordered bypass_ready) ss is))))
     (map carried (filter set_ordered (issue_accepted is (run (issue_step set_ordered bypass_ready) ss is))))"
proof -
  let ?outs = "run (issue_step set_ordered bypass_ready) ss is"
  have "subseq (map carried (filter set_ordered (issue_taken is ?outs)))
      (map entry_key (filter iv_ordered []) @ map carried (filter set_ordered (issue_accepted is ?outs)))"
    using assms(1)
    by (intro issue_run_order [OF _ iq_reset_related [OF assms(2,3)] _ refl]) (auto simp: set_ordered_carried)
  then show ?thesis by simp
qed

text \<open>C19: in a run without kills the stage loses, duplicates and invents no instruction: those that were accepted are
  those that were taken and those still in the queue.\<close>

theorem issue_lossless:
  assumes "iq_reset ss" "ss \<noteq> []" "\<forall>i\<in>set is. kill_mask (ii_kill_msg i) = 0 \<and> \<not> kill_force (ii_kill_msg i)"
  shows "mset (map carried (issue_accepted is (run (issue_step set_ordered bypass_ready) ss is))) =
         mset (map carried (issue_taken is (run (issue_step set_ordered bypass_ready) ss is))) +
         mset (map entry_key (iq_abs (final (issue_step set_ordered bypass_ready) ss is)))"
proof -
  let ?outs = "run (issue_step set_ordered bypass_ready) ss is"
  have "mset (map carried (issue_taken is ?outs)) +
      mset (map entry_key (iq_abs (final (issue_step set_ordered bypass_ready) ss is))) =
      mset (map entry_key []) + mset (map carried (issue_accepted is ?outs))"
    using assms(3) by (intro issue_run_mset [OF iq_reset_related [OF assms(1,2)] _ refl]) (simp add: kill_drop_def)
  then show ?thesis by simp
qed

text \<open>Two slots, a load behind a store whose address is not ready: the load waits for the store.\<close>

definition example_mem :: "1 word \<Rightarrow> 6 word \<Rightarrow> rename_msg" where
  "example_mem func src =
     (zero_rename (zero_hdr\<lparr> bh_branch_mask := 1 \<rparr>))\<lparr> rm_rs1_val := True, rm_rs1 := src,
       rm_execution_data := zero_execution_data\<lparr> ed_op_class := pattern OpClass ''OP_CLASS_MEM'', ed_pipe_msg := ucast func \<rparr> \<rparr>"

definition example_issue_in :: "bool \<Rightarrow> rename_msg \<Rightarrow> bool \<Rightarrow> bool \<Rightarrow> issue_in" where
  "example_issue_in rdy m wake taking =
     \<lparr> ii_in_peek_rdy = rdy, ii_in_peek_msg = m, ii_is_ready = (\<lambda>tag. tag = 2), ii_updated = [(wake, 1)],
       ii_kill_msg = \<lparr> kill_force = False, kill_mask = 0, clear_mask = 1 \<rparr>, ii_take_call = taking \<rparr>"

definition example_issue_run :: "issue_in list" where
  "example_issue_run =
     [example_issue_in True (example_mem 1 1) False True, example_issue_in True (example_mem 0 2) False True,
      example_issue_in False (example_mem 0 2) True True, example_issue_in False (example_mem 0 2) False True]"

definition example_issue_slot :: "(6 word, rename_msg, 2 word) issue_slot" where
  "example_issue_slot =
     \<lparr> sl_val_manager = vvm_reset 0, sl_opaque = zero_rename zero_hdr, sl_src0 = 0, sl_src0_val = False,
       sl_src0_rdy = False, sl_src1 = 0, sl_src1_val = False, sl_src1_rdy = False, sl_ordered = False \<rparr>"

lemma example_taken:
  "map carried (issue_taken example_issue_run
     (run (issue_step IssueOrderedStores True) [example_issue_slot, example_issue_slot] example_issue_run)) =
   map carried [example_mem 1 1, example_mem 0 2]"
  by code_simp

lemma example_issue_reset: "iq_reset [example_issue_slot, example_issue_slot]"
  by code_simp

lemma issue_keeps_order_witness:
  "map carried (issue_taken example_issue_run
     (run (issue_step IssueOrderedStores True) [example_issue_slot, example_issue_slot] example_issue_run)) =
   map carried [example_mem 1 1, example_mem 0 2] \<and>
   subseq
     (map carried (filter IssueOrderedStores (issue_taken example_issue_run
        (run (issue_step IssueOrderedStores True) [example_issue_slot, example_issue_slot] example_issue_run))))
     (map carried (filter IssueOrderedStores (issue_accepted example_issue_run
        (run (issue_step IssueOrderedStores True) [example_issue_slot, example_issue_slot] example_issue_run))))"
  using example_taken by (intro conjI issue_keeps_order example_issue_reset) simp_all

lemma issue_lossless_witness:
  "mset (map carried (issue_accepted example_issue_run
     (run (issue_step IssueOrderedStores True) [example_issue_slot, example_issue_slot] example_issue_run))) =
   mset (map carried [example_mem 1 1, example_mem 0 2]) +
   mset (map entry_key (iq_abs (final (issue_step IssueOrderedStores True) [example_issue_slot, example_issue_slot]
     example_issue_run)))"
proof -
  have "\<forall>i\<in>set example_issue_run. kill_mask (ii_kill_msg i) = 0 \<and> \<not> kill_force (ii_kill_msg i)"
    by (simp add: example_issue_run_def example_issue_in_def)
  from issue_lossless [OF example_issue_reset _ this, of IssueOrderedStores True] example_taken show ?thesis by simp
qed

end
