(* ===== verification/CSR_Manager.thy ===== *)
theory CSR_Manager
  imports Registers Backend Codes
begin

text \<open>
  The control and status registers: \<open>CSRManager\<close> of \<open>lizard/core/rtl/csr_manager.py\<close>, a \<open>LookupRegisterFile\<close> with one
  more read and write port than its interface for the \<open>op\<close> method, and the two registers through which a program talks
  to the manager. The specification is a map from register numbers to values and the operations of the ISA.
\<close>

section \<open>The register file\<close>

definition csr_num :: "string \<Rightarrow> 12 word" where
  "csr_num name = word_of_int (the (map_of csr_registers name))"

definition csr_keys :: "12 word list" where
  "csr_keys = map csr_num [''mtvec'', ''mepc'', ''mcause'', ''mtval'', ''mcycle'', ''minstret'', ''mvendorid'', ''marchid'',
     ''mimpid'', ''mhartid'']"

definition csr_reset :: "64 word list" where
  "csr_reset = [0, 0, 0, 0, 0, 0, 0xdeadbeef, 0x42424242, 0x00000001, 0]"

definition csr_mapping :: "(12 word \<times> nat) list" where
  "csr_mapping = the (key_mapping (map (\<lambda>key. [key]) csr_keys))"

lemma csr_num_values:
  "csr_num ''mtvec'' = 0x305" "csr_num ''mepc'' = 0x341" "csr_num ''mcause'' = 0x342" "csr_num ''mtval'' = 0x343"
  "csr_num ''mcycle'' = 0xB00" "csr_num ''minstret'' = 0xB02" "csr_num ''mvendorid'' = 0xF11" "csr_num ''marchid'' = 0xF12"
  "csr_num ''mimpid'' = 0xF13" "csr_num ''mhartid'' = 0xF14" "csr_num ''proc2mngr'' = 0x7C0" "csr_num ''mngr2proc'' = 0xFC0"
  unfolding csr_num_def csr_registers_def by code_simp+

lemma csr_mapping_zip: "csr_mapping = zip csr_keys [0..<10]"
  by (simp add: csr_mapping_def csr_keys_def csr_num_values key_mapping_def upt_rec)

lemma csr_mapping_distinct: "distinct (map fst csr_mapping)"
  by (simp add: csr_mapping_zip csr_keys_def csr_num_values upt_rec)

section \<open>A cycle\<close>

record csr_in =
  cs_read_csr :: "12 word list"
  cs_write :: "(bool \<times> 12 word \<times> 64 word) list"
  cs_op_call :: bool
  cs_op_csr :: "12 word"
  cs_op_op :: "2 word"
  cs_op_rs1_is_x0 :: bool
  cs_op_value :: "64 word"
  cs_recv_rdy :: bool
  cs_recv_msg :: "64 word"
  cs_send_rdy :: bool

record csr_out =
  cs_read :: "(64 word \<times> bool) list"
  cs_write_valid :: "bool list"
  cs_op_old :: "64 word"
  cs_op_success :: bool
  cs_recv_call :: bool
  cs_send_call :: bool
  cs_send_msg :: "64 word"

definition csr_step :: "(64 word list, csr_in, csr_out) machine" where
  "csr_step regs i =
     (let csr = cs_op_csr i; op_op = cs_op_op i;
          sends = (csr = csr_num ''proc2mngr''); receives = (\<not> sends \<and> csr = csr_num ''mngr2proc'');
          in_file = (\<not> sends \<and> \<not> receives);
          send = (sends \<and> op_op = pattern CsrFunc ''CSR_FUNC_READ_WRITE'' \<and> cs_send_rdy i);
          recv = (receives \<and> op_op \<noteq> pattern CsrFunc ''CSR_FUNC_READ_WRITE'' \<and> cs_recv_rdy i \<and> cs_op_rs1_is_x0 i);
          read_key = (if in_file then csr else 0);
          reads = lrf_read (snd (lookup_rf_step csr_mapping regs \<lparr> lrf_read_key = cs_read_csr i @ [read_key], lrf_write = [] \<rparr>));
          (file_value, file_valid) = last reads;
          old = (if recv then cs_recv_msg i else if in_file then file_value else 0);
          known = (op_op = pattern CsrFunc ''CSR_FUNC_READ_WRITE'' \<or> op_op = pattern CsrFunc ''CSR_FUNC_READ_SET'' \<or>
                   op_op = pattern CsrFunc ''CSR_FUNC_READ_CLEAR'');
          write_key = (if in_file \<and> known then csr else 0);
          write_value = (if \<not> in_file then 0
                         else if op_op = pattern CsrFunc ''CSR_FUNC_READ_WRITE'' then cs_op_value i
                         else if op_op = pattern CsrFunc ''CSR_FUNC_READ_SET'' then cs_op_value i OR old
                         else if op_op = pattern CsrFunc ''CSR_FUNC_READ_CLEAR'' then cs_op_value i AND NOT old
                         else 0);
          (regs', out) = lookup_rf_step csr_mapping regs
            \<lparr> lrf_read_key = cs_read_csr i @ [read_key],
              lrf_write = cs_write i @ [(in_file \<and> cs_op_call i, write_key, write_value)] \<rparr>
      in (regs',
          \<lparr> cs_read = butlast (lrf_read out), cs_write_valid = butlast (lrf_write_valid out), cs_op_old = old,
            cs_op_success = (send \<or> recv \<or> in_file \<and> file_valid), cs_recv_call = (recv \<and> cs_op_call i),
            cs_send_call = (send \<and> cs_op_call i), cs_send_msg = (if send then cs_op_value i else 0) \<rparr>))"

section \<open>The contract\<close>

text \<open>The registers that exist are the domain of a map; a write to another number is ignored. \<open>csr_update\<close> is the
  operation of the ISA.\<close>

definition csr_update :: "2 word \<Rightarrow> 64 word \<Rightarrow> 64 word \<Rightarrow> 64 word" where
  "csr_update op_op old v =
     (if op_op = pattern CsrFunc ''CSR_FUNC_READ_WRITE'' then v
      else if op_op = pattern CsrFunc ''CSR_FUNC_READ_SET'' then old OR v
      else old AND NOT v)"

fun csr_writes :: "(12 word \<rightharpoonup> 64 word) \<Rightarrow> (bool \<times> 12 word \<times> 64 word) list \<Rightarrow> (12 word \<rightharpoonup> 64 word)" where
  "csr_writes m [] = m"
| "csr_writes m ((call, csr, v) # ws) = csr_writes (if call \<and> m csr \<noteq> None then m(csr \<mapsto> v) else m) ws"

definition csr_lookup :: "(12 word \<rightharpoonup> 64 word) \<Rightarrow> 12 word \<Rightarrow> 64 word \<times> bool" where
  "csr_lookup m csr = (case m csr of None \<Rightarrow> (0, False) | Some v \<Rightarrow> (v, True))"

definition csr_spec_step :: "(12 word \<rightharpoonup> 64 word, csr_in, csr_out) machine" where
  "csr_spec_step m i =
     (let csr = cs_op_csr i;
          is_write = (cs_op_op i = pattern CsrFunc ''CSR_FUNC_READ_WRITE'');
          send = (csr = csr_num ''proc2mngr'' \<and> is_write \<and> cs_send_rdy i);
          recv = (csr = csr_num ''mngr2proc'' \<and> \<not> is_write \<and> cs_recv_rdy i \<and> cs_op_rs1_is_x0 i);
          (old, exists) = (if recv then (cs_recv_msg i, True) else if send then (0, True) else csr_lookup m csr)
      in (csr_writes m (cs_write i @ [(cs_op_call i, csr, csr_update (cs_op_op i) old (cs_op_value i))]),
          \<lparr> cs_read = map (csr_lookup m) (cs_read_csr i),
            cs_write_valid = map (\<lambda>(call, csr, v). m csr \<noteq> None) (cs_write i), cs_op_old = old, cs_op_success = exists,
            cs_recv_call = (recv \<and> cs_op_call i), cs_send_call = (send \<and> cs_op_call i),
            cs_send_msg = (if send then cs_op_value i else 0) \<rparr>))"

definition csr_map :: "64 word list \<Rightarrow> 12 word \<rightharpoonup> 64 word" where
  "csr_map regs csr = map_option ((!) regs) (map_of csr_mapping csr)"

definition csr_related :: "64 word list \<Rightarrow> (12 word \<rightharpoonup> 64 word) \<Rightarrow> bool" where
  "csr_related regs m \<longleftrightarrow> length regs = 10 \<and> m = csr_map regs"

text \<open>The code differs from the ISA on a clear, unless the value and its complement clear the same bits.\<close>

definition csr_ok :: "(12 word \<rightharpoonup> 64 word) \<Rightarrow> csr_in \<Rightarrow> bool" where
  "csr_ok m i \<longleftrightarrow> cs_op_op i \<noteq> 3 \<and>
     (cs_op_call i \<longrightarrow> cs_op_op i = pattern CsrFunc ''CSR_FUNC_READ_CLEAR'' \<longrightarrow>
      (case m (cs_op_csr i) of None \<Rightarrow> True | Some old \<Rightarrow> cs_op_value i = old))"

section \<open>Refinement\<close>

lemma csr_mapping_bound: "map_of csr_mapping csr = Some a \<Longrightarrow> a < 10"
  unfolding csr_mapping_zip by (drule map_of_SomeD, drule set_zip_rightD) (simp only: set_upt atLeastLessThan_iff)

lemma csr_mapping_inj: "map_of csr_mapping csr = Some a \<Longrightarrow> map_of csr_mapping csr' = Some a \<Longrightarrow> csr = csr'"
proof -
  assume a: "map_of csr_mapping csr = Some a" "map_of csr_mapping csr' = Some a"
  have "distinct csr_keys" using csr_mapping_distinct by (simp add: csr_mapping_zip csr_keys_def)
  from a have "(csr, a) \<in> set (zip csr_keys [0..<10])" "(csr', a) \<in> set (zip csr_keys [0..<10])"
    by (simp_all add: csr_mapping_zip map_of_SomeD)
  then show "csr = csr'" by (auto simp: in_set_zip)
qed

lemma csr_map_update:
  "length regs = 10 \<Longrightarrow> map_of csr_mapping csr = Some a \<Longrightarrow> csr_map (regs[a := v]) = (csr_map regs)(csr \<mapsto> v)"
proof (rule ext)
  fix x
  assume "length regs = 10" "map_of csr_mapping csr = Some a"
  then show "csr_map (regs[a := v]) x = ((csr_map regs)(csr \<mapsto> v)) x"
    using csr_mapping_bound [of csr a] csr_mapping_inj [of csr a x]
    by (cases "map_of csr_mapping x") (auto simp: csr_map_def nth_list_update)
qed

lemma csr_map_values [simp]:
  "map_of csr_mapping csr = None \<Longrightarrow> csr_map regs csr = None"
  "map_of csr_mapping csr = Some a \<Longrightarrow> csr_map regs csr = Some (regs ! a)"
  by (simp_all add: csr_map_def)

lemma csr_lookup_table:
  "lookup_table csr_mapping csr = (case map_of csr_mapping csr of Some a \<Rightarrow> (a, True) | None \<Rightarrow> (0, False))"
  by (simp add: lookup_table_rtl_eq_fl csr_mapping_distinct lookup_table_fl_def)

lemma csr_file_writes:
  "length regs = 10 \<Longrightarrow> length (lookup_rf_writes csr_mapping regs ws) = 10 \<and>
     csr_map (lookup_rf_writes csr_mapping regs ws) = csr_writes (csr_map regs) ws"
proof (induction ws arbitrary: regs)
  case (Cons w ws)
  obtain call csr v where w: "w = (call, csr, v)" by (cases w)
  show ?case
    using Cons.IH [of regs] Cons.IH [of "regs[the (map_of csr_mapping csr) := v]"] Cons.prems
    by (cases "map_of csr_mapping csr") (auto simp: w csr_lookup_table csr_map_update fun_upd_def)
qed simp

lemma csr_file_read:
  "(case lookup_table csr_mapping csr of (addr, valid) \<Rightarrow> (if valid then regs ! addr else 0, valid)) = csr_lookup (csr_map regs) csr"
  by (cases "map_of csr_mapping csr") (auto simp: csr_lookup_table csr_lookup_def)

lemma csr_writes_append: "csr_writes m (xs @ ys) = csr_writes (csr_writes m xs) ys"
  by (induction m xs rule: csr_writes.induct) auto

lemma csr_writes_None: "csr_writes m ws csr = None \<longleftrightarrow> m csr = None"
  by (induction m ws rule: csr_writes.induct) auto

lemma mngr_not_in_file: "csr_map regs (csr_num ''proc2mngr'') = None" "csr_map regs (csr_num ''mngr2proc'') = None"
  by (simp_all add: csr_map_def csr_mapping_zip csr_keys_def csr_num_values upt_rec)

lemma mngr_distinct: "csr_num ''mngr2proc'' \<noteq> csr_num ''proc2mngr''"
  by (simp add: csr_num_values)

lemma csr_op_cases: "x \<noteq> 3 \<Longrightarrow> x = 0 \<or> x = 1 \<or> x = 2" for x :: "2 word"
proof (cases x rule: word_nat_cases)
  case (1 n)
  assume "x \<noteq> 3"
  moreover have "n = 0 \<or> n = 1 \<or> n = 2 \<or> n = 3" using 1(2) by auto
  ultimately show ?thesis using 1(1) by auto
qed

lemma csr_file_step:
  "lrf_read (snd (lookup_rf_step csr_mapping regs \<lparr> lrf_read_key = keys, lrf_write = ws \<rparr>)) = map (csr_lookup (csr_map regs)) keys"
  "lrf_write_valid (snd (lookup_rf_step csr_mapping regs \<lparr> lrf_read_key = keys, lrf_write = ws \<rparr>)) =
     map (\<lambda>(call, csr, v). csr_map regs csr \<noteq> None) ws"
  "fst (lookup_rf_step csr_mapping regs \<lparr> lrf_read_key = keys, lrf_write = ws \<rparr>) = lookup_rf_writes csr_mapping regs ws"
proof -
  have valid: "snd (lookup_table csr_mapping csr) = (csr_map regs csr \<noteq> None)" for csr
    by (cases "map_of csr_mapping csr") (simp_all add: csr_lookup_table)
  show "lrf_read (snd (lookup_rf_step csr_mapping regs \<lparr> lrf_read_key = keys, lrf_write = ws \<rparr>)) = map (csr_lookup (csr_map regs)) keys"
    "lrf_write_valid (snd (lookup_rf_step csr_mapping regs \<lparr> lrf_read_key = keys, lrf_write = ws \<rparr>)) =
       map (\<lambda>(call, csr, v). csr_map regs csr \<noteq> None) ws"
    "fst (lookup_rf_step csr_mapping regs \<lparr> lrf_read_key = keys, lrf_write = ws \<rparr>) = lookup_rf_writes csr_mapping regs ws"
    by (simp_all add: lookup_rf_step_def Let_def csr_file_read valid del: not_None_eq)
qed

lemma csr_last_write:
  assumes "csr_ok m i" "old = fst (csr_lookup m (cs_op_csr i))" "n (cs_op_csr i) = None \<longleftrightarrow> m (cs_op_csr i) = None"
  shows "csr_writes n [(cs_op_call i, if cs_op_op i = 0 \<or> cs_op_op i = 1 \<or> cs_op_op i = 2 then cs_op_csr i else 0,
            if cs_op_op i = 0 then cs_op_value i else if cs_op_op i = 1 then cs_op_value i OR old
            else if cs_op_op i = 2 then cs_op_value i AND NOT old else 0)] =
         csr_writes n [(cs_op_call i, cs_op_csr i, csr_update (cs_op_op i) old (cs_op_value i))]"
proof -
  have op: "cs_op_op i = 0 \<or> cs_op_op i = 1 \<or> cs_op_op i = 2" using assms(1) csr_op_cases by (auto simp: csr_ok_def)
  show ?thesis
  proof (cases "m (cs_op_csr i) = None \<or> \<not> cs_op_call i")
    case True
    then show ?thesis using op assms(3) by auto
  next
    case False
    then have "cs_op_op i = 2 \<Longrightarrow> cs_op_value i = old"
      using assms(1,2) by (auto simp: csr_ok_def csr_lookup_def patterns split: option.splits)
    then have "(if cs_op_op i = 0 then cs_op_value i else if cs_op_op i = 1 then cs_op_value i OR old
        else if cs_op_op i = 2 then cs_op_value i AND NOT old else 0) = csr_update (cs_op_op i) old (cs_op_value i)"
      using op by (auto simp: csr_update_def patterns or.commute)
    then show ?thesis using op by simp
  qed
qed

lemma csr_step_refines:
  assumes "csr_related regs m" "csr_ok m i"
  shows "snd (csr_step regs i) = snd (csr_spec_step m i) \<and> csr_related (fst (csr_step regs i)) (fst (csr_spec_step m i))"
proof -
  have len: "length regs = 10" and m: "m = csr_map regs" using assms(1) by (simp_all add: csr_related_def)
  have ok: "csr_ok (csr_map regs) i" using assms(2) m by simp
  note mngr = mngr_not_in_file [of regs]
  have none: "csr_lookup m (csr_num ''proc2mngr'') = (0, False)" "csr_lookup m (csr_num ''mngr2proc'') = (0, False)"
    using mngr by (simp_all add: csr_lookup_def m)
  note step = csr_step_def csr_spec_step_def Let_def csr_file_step m [symmetric] case_prod_unfold
  have outs: "snd (csr_step regs i) = snd (csr_spec_step m i)"
    using none mngr_distinct
    by (cases "cs_op_csr i = csr_num ''proc2mngr''"; cases "cs_op_csr i = csr_num ''mngr2proc''")
       (simp_all add: step butlast_append)
  have "csr_map (fst (csr_step regs i)) = fst (csr_spec_step m i)"
  proof (cases "cs_op_csr i = csr_num ''proc2mngr'' \<or> cs_op_csr i = csr_num ''mngr2proc''")
    case True
    then have "m (cs_op_csr i) = None" using mngr by (auto simp: m)
    then show ?thesis using True csr_file_writes [OF len] csr_writes_None [of m "cs_write i" "cs_op_csr i"]
      by (auto simp: step csr_writes_append)
  next
    case False
    let ?old = "fst (csr_lookup m (cs_op_csr i))"
    have "fst (csr_step regs i) = lookup_rf_writes csr_mapping regs (cs_write i @
        [(cs_op_call i, if cs_op_op i = 0 \<or> cs_op_op i = 1 \<or> cs_op_op i = 2 then cs_op_csr i else 0,
          if cs_op_op i = 0 then cs_op_value i else if cs_op_op i = 1 then cs_op_value i OR ?old
          else if cs_op_op i = 2 then cs_op_value i AND NOT ?old else 0)])"
      using False by (simp add: step patterns)
    moreover have "fst (csr_spec_step m i) =
        csr_writes m (cs_write i @ [(cs_op_call i, cs_op_csr i, csr_update (cs_op_op i) ?old (cs_op_value i))])"
      using False by (simp add: step patterns)
    ultimately show ?thesis
      using csr_file_writes [OF len] csr_last_write [OF assms(2), where n = "csr_writes m (cs_write i)", OF refl csr_writes_None]
      by (simp only: csr_writes_append m)
  qed
  moreover have "length (fst (csr_step regs i)) = 10"
    using csr_file_writes [OF len] by (simp add: step)
  ultimately show ?thesis using outs by (simp add: csr_related_def)
qed

interpretation csr: cycle_refinement csr_step csr_spec_step csr_related csr_ok
  by unfold_locales (simp_all add: csr_step_refines)

section \<open>Properties\<close>

text \<open>C30: as long as no operation clears bits, the manager behaves on every input sequence as a map from the register
  numbers that exist to values, with the read and write operations of the ISA: the old value is returned, unknown
  numbers fail, the write of the operation overrides the write ports, and the two manager registers are passed to the
  debug bus. After a reset the identification registers hold their constants.\<close>

theorem csr_manager_refines:
  assumes "runs_ok csr_spec_step csr_ok (csr_map csr_reset) is"
  shows "run csr_step csr_reset is = run csr_spec_step (csr_map csr_reset) is"
  by (rule csr.run_refines [OF _ assms]) (simp add: csr_related_def csr_reset_def)

definition csr_call :: "string \<Rightarrow> 2 word \<Rightarrow> bool \<Rightarrow> 64 word \<Rightarrow> csr_in" where
  "csr_call name op_op x0 v =
     \<lparr> cs_read_csr = [csr_num ''mimpid''], cs_write = [(True, csr_num ''mepc'', 5)], cs_op_call = True, cs_op_csr = csr_num name,
       cs_op_op = op_op, cs_op_rs1_is_x0 = x0, cs_op_value = v, cs_recv_rdy = True, cs_recv_msg = 9, cs_send_rdy = True \<rparr>"

theorem csr_manager_refines_witness:
  "map cs_op_old (run csr_step csr_reset [csr_call ''mtvec'' 0 False 12, csr_call ''mtvec'' 1 False 3, csr_call ''mngr2proc'' 1 True 0,
     csr_call ''mtvec'' 1 True 0]) = [0, 12, 9, 15]"
proof -
  let ?is = "[csr_call ''mtvec'' 0 False 12, csr_call ''mtvec'' 1 False 3, csr_call ''mngr2proc'' 1 True 0, csr_call ''mtvec'' 1 True 0]"
  have "runs_ok csr_spec_step csr_ok (csr_map csr_reset) ?is"
    by (simp add: csr_ok_def csr_call_def patterns)
  then have "run csr_step csr_reset ?is = run csr_spec_step (csr_map csr_reset) ?is" by (rule csr_manager_refines)
  moreover have "map cs_op_old (run csr_spec_step (csr_map csr_reset) ?is) = [0, 12, 9, 15]"
    by (simp add: csr_spec_step_def csr_call_def csr_num_values patterns csr_lookup_def csr_map_def csr_mapping_zip csr_keys_def
        upt_rec csr_reset_def csr_update_def)
  ultimately show ?thesis by simp
qed

text \<open>A clear with the zero register, which must not change the register it reads, sets it to zero: the operands of
  the complement are exchanged.\<close>

theorem csr_clear_with_x0_zeroes:
  assumes "length regs = 10" and "map_of csr_mapping (cs_op_csr i) = Some a"
    and "cs_op_call i" and "cs_op_op i = pattern CsrFunc ''CSR_FUNC_READ_CLEAR''" and "cs_op_value i = 0"
  shows "fst (csr_step regs i) ! a = 0 \<and> csr_update (cs_op_op i) (regs ! a) (cs_op_value i) = regs ! a"
proof -
  have c: "cs_op_csr i \<noteq> csr_num ''proc2mngr''" "cs_op_csr i \<noteq> csr_num ''mngr2proc''"
    using assms(2) mngr_not_in_file [of regs] by (auto simp: csr_map_def)
  have "fst (csr_step regs i) = lookup_rf_writes csr_mapping regs (cs_write i @ [(True, cs_op_csr i, 0)])"
    using c assms(3-5) by (simp add: csr_step_def Let_def csr_file_step case_prod_unfold patterns)
  then have "csr_map (fst (csr_step regs i)) = csr_writes (csr_writes (csr_map regs) (cs_write i)) [(True, cs_op_csr i, 0)]"
    using csr_file_writes [OF assms(1)] by (simp add: csr_writes_append)
  then have "csr_map (fst (csr_step regs i)) (cs_op_csr i) = Some 0"
    using assms(2) csr_writes_None [of "csr_map regs" "cs_write i" "cs_op_csr i"] by auto
  then show ?thesis using assms(2,4,5) by (simp add: csr_update_def patterns)
qed

theorem csr_clear_with_x0_zeroes_witness:
  "fst (csr_step csr_reset (csr_call ''mvendorid'' 2 True 0)) ! 6 = 0 \<and> csr_reset ! 6 = 0xdeadbeef"
proof -
  have a: "map_of csr_mapping (cs_op_csr (csr_call ''mvendorid'' 2 True 0)) = Some 6"
    by (simp add: csr_call_def csr_mapping_zip csr_keys_def csr_num_values upt_rec)
  show ?thesis
    using csr_clear_with_x0_zeroes [OF _ a, of csr_reset] by (simp add: csr_call_def csr_reset_def patterns)
qed

end
