(* ===== verification/Commit.thy ===== *)
theory Commit
  imports Rob CSR_Manager
begin

text \<open>
  The commit stage of \<open>lizard/core/rtl/backend/commit.py\<close>: the reorder buffer in front of it, the conditions under
  which the head retires, what retiring does to the data flow manager, the store queue and the control flow
  manager, and the trap sequence of an instruction that carries an exception.
\<close>

section \<open>The stage\<close>

text \<open>\<open>cm_store_data_available\<close> is the answer of the memory flow manager for a store id, \<open>cm_read_csr\<close> the value
  of a register on the read ports of the CSR manager.\<close>

record commit_in =
  cm_in_peek_rdy :: bool
  cm_in_peek_msg :: writeback_msg
  cm_head_rdy :: bool
  cm_head_seq :: "5 word"
  cm_send_store_rdy :: bool
  cm_store_acks_outstanding :: bool
  cm_store_data_available :: "2 word \<Rightarrow> bool"
  cm_read_csr :: "12 word \<Rightarrow> 64 word"
  cm_kill_msg :: "2 word kill_type"

record commit_out =
  ct_in_take_call :: bool
  ct_dataflow_commit_call :: bool
  ct_dataflow_commit_tag :: "6 word"
  ct_dataflow_commit_areg :: "5 word"
  ct_free_store_id_call :: bool
  ct_free_store_id :: "2 word"
  ct_cflow_commit_call :: bool
  ct_cflow_redirect :: bool
  ct_cflow_redirect_target :: "64 word"
  ct_send_store_call :: bool
  ct_send_store_id :: "2 word"
  ct_btb_clear_call :: bool
  ct_write_csr :: "(bool \<times> 12 word \<times> 64 word) list"

type_synonym commit_state = "(writeback_msg, 2 word) rob"

definition commit_rob_in :: "commit_in \<Rightarrow> bool \<Rightarrow> (5 word, writeback_msg, 2 word, 2 word kill_type) rob_in" where
  "commit_rob_in i free =
     \<lparr> rob_add_call = cm_in_peek_rdy i, rob_add_idx = bh_seq (wb_hdr (cm_in_peek_msg i)),
       rob_add_value = cm_in_peek_msg i, rob_add_kill_opaque = bh_branch_mask (wb_hdr (cm_in_peek_msg i)),
       rob_check_done_idx = cm_head_seq i, rob_peek_idx = cm_head_seq i, rob_free_call = free,
       rob_kill_msg = cm_kill_msg i \<rparr>"

text \<open>\<open>set_rob_remove\<close>: the two conditions a valid instruction may have to wait for.\<close>

definition wait_for_fence :: "commit_in \<Rightarrow> writeback_msg \<Rightarrow> bool" where
  "wait_for_fence i v =
     (if msg_valid (wb_hdr v) \<and> fh_fence (wb_hdr v) then \<not> cm_store_acks_outstanding i else True)"

definition wait_for_store :: "commit_in \<Rightarrow> writeback_msg \<Rightarrow> bool" where
  "wait_for_store i v =
     (if msg_valid (wb_hdr v) \<and> bh_is_store (wb_hdr v)
      then cm_send_store_rdy i \<and> cm_store_data_available i (bh_store_id (wb_hdr v)) else True)"

text \<open>\<open>decode_mtvec\<close> and \<open>compute_exception_target\<close>.\<close>

definition mtvec_mode_direct :: "2 word" where "mtvec_mode_direct = 0"
definition mtvec_mode_vectored :: "2 word" where "mtvec_mode_vectored = 1"

definition exception_target :: "64 word \<Rightarrow> 4 word \<Rightarrow> 64 word" where
  "exception_target mtvec mcause =
     (let mode = ucast mtvec :: 2 word; base = push_bit 2 (drop_bit 2 mtvec)
      in if mode = mtvec_mode_direct then base
         else if mode = mtvec_mode_vectored then base + push_bit 2 (ucast mcause) else base)"

text \<open>\<open>handle_commit\<close>, \<open>handle_committing_store\<close> and the write ports of the CSR manager.\<close>

definition commit_outputs :: "commit_in \<Rightarrow> writeback_msg \<Rightarrow> bool \<Rightarrow> commit_out" where
  "commit_outputs i v remove =
     (let hdr = wb_hdr v; ex = wb_exception_info v; valid = msg_valid hdr;
          commit = (remove \<and> valid \<and> wb_rd_val v);
          is_exception = (remove \<and> \<not> valid);
          replay = (remove \<and> valid \<and> fh_replay hdr);
          store = (remove \<and> bh_is_store hdr \<and> valid)
      in \<lparr> ct_in_take_call = cm_in_peek_rdy i,
           ct_dataflow_commit_call = commit,
           ct_dataflow_commit_tag = (if commit then wb_rd v else 0),
           ct_dataflow_commit_areg = (if commit then wb_areg_d v else 0),
           ct_free_store_id_call = (remove \<and> valid \<and> bh_is_store hdr),
           ct_free_store_id = (if remove \<and> valid then bh_store_id hdr else 0),
           ct_cflow_commit_call = remove,
           ct_cflow_redirect = (replay \<or> is_exception),
           ct_cflow_redirect_target =
             (if replay then (if fh_replay_next hdr then fh_pc hdr + 4 else fh_pc hdr)
              else if is_exception then exception_target (cm_read_csr i (csr_num ''mtvec'')) (ei_mcause ex) else 0),
           ct_send_store_call = store,
           ct_send_store_id = (if store then bh_store_id hdr else 0),
           ct_btb_clear_call = (remove \<and> valid \<and> fh_fence hdr),
           ct_write_csr =
             [(is_exception, csr_num ''mcause'', ucast (ei_mcause ex)),
              (is_exception, csr_num ''mtval'', ei_mtval ex),
              (is_exception, csr_num ''mepc'', fh_pc hdr),
              (True, csr_num ''mcycle'', cm_read_csr i (csr_num ''mcycle'') + 1),
              (remove, csr_num ''minstret'', cm_read_csr i (csr_num ''minstret'') + 1)] \<rparr>)"

text \<open>The peeked entry and its status do not depend on \<open>free\<close>, so they are read first.\<close>

definition commit_step :: "commit_state \<Rightarrow> commit_in \<Rightarrow> (commit_state \<times> commit_out) option" where
  "commit_step s i = do {
     (_, is_rdy, value) \<leftarrow> rob_step kill_drop TYPE(32) s (commit_rob_in i False);
     is_rdy \<leftarrow> is_rdy;
     v \<leftarrow> value;
     let remove = (cm_head_rdy i \<and> is_rdy \<and> wait_for_fence i v \<and> wait_for_store i v);
     (s', _, _) \<leftarrow> rob_step kill_drop TYPE(32) s (commit_rob_in i remove);
     Some (s', commit_outputs i v remove) }"

section \<open>The contract\<close>

text \<open>The state is a finite map from sequence numbers to finished instructions. An entry that the kill message of the
  cycle spares retires when it is at the head and nothing it must wait for is outstanding.\<close>

definition commit_head :: "(writeback_msg, 2 word) rob_map \<Rightarrow> commit_in \<Rightarrow> writeback_msg option" where
  "commit_head m i =
     (if cm_head_rdy i then map_option fst (rob_map_kill kill_drop (cm_kill_msg i) m (unat (cm_head_seq i))) else None)"

definition may_retire :: "commit_in \<Rightarrow> writeback_msg \<Rightarrow> bool" where
  "may_retire i v =
     (msg_valid (wb_hdr v) \<longrightarrow>
        (fh_fence (wb_hdr v) \<longrightarrow> \<not> cm_store_acks_outstanding i) \<and>
        (bh_is_store (wb_hdr v) \<longrightarrow> cm_send_store_rdy i \<and> cm_store_data_available i (bh_store_id (wb_hdr v))))"

definition retiring :: "(writeback_msg, 2 word) rob_map \<Rightarrow> commit_in \<Rightarrow> writeback_msg option" where
  "retiring m i = do { v \<leftarrow> commit_head m i; if may_retire i v then Some v else None }"

text \<open>What retiring an instruction does to the rest of the machine.\<close>

datatype retire_effect =
  Register_commit "6 word" "5 word"
| Free_store "2 word"
| Send_store "2 word"
| Redirect_to "64 word"
| Clear_predictions
| Csr_write "12 word" "64 word"

definition retire_effects :: "commit_in \<Rightarrow> writeback_msg option \<Rightarrow> retire_effect list" where
  "retire_effects i r =
     Csr_write (csr_num ''mcycle'') (cm_read_csr i (csr_num ''mcycle'') + 1) #
     (case r of
        None \<Rightarrow> []
      | Some v \<Rightarrow>
          Csr_write (csr_num ''minstret'') (cm_read_csr i (csr_num ''minstret'') + 1) #
          (if msg_valid (wb_hdr v)
           then (if wb_rd_val v then [Register_commit (wb_rd v) (wb_areg_d v)] else []) @
                (if bh_is_store (wb_hdr v) then [Free_store (bh_store_id (wb_hdr v)), Send_store (bh_store_id (wb_hdr v))] else []) @
                (if fh_fence (wb_hdr v) then [Clear_predictions] else []) @
                (if fh_replay (wb_hdr v)
                 then [Redirect_to (fh_pc (wb_hdr v) + (if fh_replay_next (wb_hdr v) then 4 else 0))] else [])
           else [Csr_write (csr_num ''mcause'') (ucast (ei_mcause (wb_exception_info v))),
                 Csr_write (csr_num ''mtval'') (ei_mtval (wb_exception_info v)),
                 Csr_write (csr_num ''mepc'') (fh_pc (wb_hdr v)),
                 Redirect_to (exception_target (cm_read_csr i (csr_num ''mtvec'')) (ei_mcause (wb_exception_info v)))]))"

definition commit_spec_step ::
  "((writeback_msg, 2 word) rob_map, commit_in, bool \<times> retire_effect list) machine" where
  "commit_spec_step m i =
     (rob_map_step kill_drop m (commit_rob_in i (retiring m i \<noteq> None)),
      (retiring m i \<noteq> None, retire_effects i (retiring m i)))"

definition commit_view :: "commit_out \<Rightarrow> bool \<times> retire_effect list" where
  "commit_view out =
     (ct_cflow_commit_call out,
      map (\<lambda>(_, csr, v). Csr_write csr v) (filter fst (drop 3 (ct_write_csr out))) @
      (if ct_dataflow_commit_call out then [Register_commit (ct_dataflow_commit_tag out) (ct_dataflow_commit_areg out)] else []) @
      (if ct_free_store_id_call out then [Free_store (ct_free_store_id out)] else []) @
      (if ct_send_store_call out then [Send_store (ct_send_store_id out)] else []) @
      (if ct_btb_clear_call out then [Clear_predictions] else []) @
      map (\<lambda>(_, csr, v). Csr_write csr v) (filter fst (take 3 (ct_write_csr out))) @
      (if ct_cflow_redirect out then [Redirect_to (ct_cflow_redirect_target out)] else []))"

section \<open>The stage implements it\<close>

abbreviation commit_related :: "commit_state \<Rightarrow> (writeback_msg, 2 word) rob_map \<Rightarrow> bool" where
  "commit_related \<equiv> rob_related 32"

lemma commit_rob_ok: "rob_ok TYPE(32) (commit_rob_in i free)"
  using unsigned_less [where ?'a = nat, of "bh_seq (wb_hdr (cm_in_peek_msg i))"]
    unsigned_less [where ?'a = nat, of "cm_head_seq i"]
  by (simp add: rob_ok_def commit_rob_in_def)

lemma commit_rob_in_simps [simp]:
  "rob_kill_msg (commit_rob_in i free) = cm_kill_msg i" "rob_check_done_idx (commit_rob_in i free) = cm_head_seq i"
  "rob_peek_idx (commit_rob_in i free) = cm_head_seq i"
  by (simp_all add: commit_rob_in_def)

lemma may_retire_waits: "may_retire i v \<longleftrightarrow> wait_for_fence i v \<and> wait_for_store i v"
  by (auto simp: may_retire_def wait_for_fence_def wait_for_store_def)

lemma commit_outputs_view:
  "commit_view (commit_outputs i v remove) = (remove, retire_effects i (if remove then Some v else None))"
  by (simp add: commit_view_def commit_outputs_def retire_effects_def Let_def)

lemma commit_rob_step:
  assumes "commit_related s m"
  obtains s' v where
    "rob_step kill_drop TYPE(32) s (commit_rob_in i free) =
       Some (s', Some (rob_map_kill kill_drop (cm_kill_msg i) m (unat (cm_head_seq i)) \<noteq> None), Some v)"
    "\<forall>w opq. m (unat (cm_head_seq i)) = Some (w, opq) \<longrightarrow> v = w"
    "commit_related s' (rob_map_step kill_drop m (commit_rob_in i free))"
  using rob_step_map [where ?'n = 32 and s = s and m = m and i = "commit_rob_in i free" and check = kill_drop]
    commit_rob_ok [of i free] assms by auto

text \<open>The value on the read port is the same whether the entry is freed or not.\<close>

lemma rob_peek_free:
  "rob_step kill_drop TYPE(32) s (commit_rob_in i free) = Some (s', rdy, v) \<Longrightarrow>
   rob_step kill_drop TYPE(32) s (commit_rob_in i free') = Some (s'', rdy', v') \<Longrightarrow> v = v'"
  by (auto simp: rob_step_def commit_rob_in_def async_ram_step_def Let_def split: bind_splits)

lemma rob_map_kill_fst:
  "rob_map_kill check msg m k = Some x \<Longrightarrow> \<exists>opq. m k = Some (fst x, opq)"
  by (auto simp: rob_map_kill_def split: option.splits)

lemma commit_step_cases:
  assumes "commit_related s m"
  obtains s' v where "commit_step s i = Some (s', commit_outputs i v (retiring m i \<noteq> None))"
    "\<forall>w. retiring m i = Some w \<longrightarrow> w = v"
    "commit_related s' (rob_map_step kill_drop m (commit_rob_in i (retiring m i \<noteq> None)))"
proof -
  let ?live = "rob_map_kill kill_drop (cm_kill_msg i) m (unat (cm_head_seq i))"
  from commit_rob_step [OF assms, of i False] obtain s0 v where
    first: "rob_step kill_drop TYPE(32) s (commit_rob_in i False) = Some (s0, Some (?live \<noteq> None), Some v)"
    and v: "\<forall>w opq. m (unat (cm_head_seq i)) = Some (w, opq) \<longrightarrow> v = w" .
  let ?remove = "cm_head_rdy i \<and> ?live \<noteq> None \<and> wait_for_fence i v \<and> wait_for_store i v"
  have live: "fst x = v" if "?live = Some x" for x
    using rob_map_kill_fst [OF that] v by auto
  have remove: "?remove \<longleftrightarrow> retiring m i \<noteq> None" and val: "\<forall>w. retiring m i = Some w \<longrightarrow> w = v"
    using live by (cases ?live; auto simp: retiring_def commit_head_def may_retire_waits)+
  from commit_rob_step [OF assms, of i ?remove] obtain s' v' where
    second: "rob_step kill_drop TYPE(32) s (commit_rob_in i ?remove) = Some (s', Some (?live \<noteq> None), Some v')"
    and s': "commit_related s' (rob_map_step kill_drop m (commit_rob_in i ?remove))" .
  have "commit_step s i = Some (s', commit_outputs i v ?remove)"
    by (simp only: commit_step_def first second bind.bind_lunit Let_def prod.case)
  then show ?thesis using val s' unfolding remove by (rule that)
qed

interpretation commit: safe_refinement
  "\<lambda>s i. map_option (apsnd commit_view) (commit_step s i)" commit_spec_step commit_related "\<lambda>_ _. True"
proof (unfold_locales)
  fix s :: commit_state and m i
  assume "commit_related s m"
  from commit_step_cases [OF this, of i] obtain s' v where
    "commit_step s i = Some (s', commit_outputs i v (retiring m i \<noteq> None))" "\<forall>w. retiring m i = Some w \<longrightarrow> w = v"
    "commit_related s' (rob_map_step kill_drop m (commit_rob_in i (retiring m i \<noteq> None)))" .
  then show "\<exists>s'. map_option (apsnd commit_view) (commit_step s i) = Some (s', snd (commit_spec_step m i)) \<and>
      commit_related s' (fst (commit_spec_step m i))"
    by (auto simp: commit_spec_step_def commit_outputs_view)
qed

section \<open>Properties\<close>

definition commit_reset :: "commit_state \<Rightarrow> bool" where
  "commit_reset s \<longleftrightarrow> length (rob_entries s) = 32 \<and> length (rob_valids s) = 32 \<and>
     list_all (\<lambda>v. \<not> vv_val v) (rob_valids s)"

lemma commit_reset_related: "commit_reset s \<Longrightarrow> commit_related s Map.empty"
  by (auto simp: commit_reset_def rob_related_def vvm_abs_def list_all_length)

text \<open>C10: from reset on, on every input sequence, the commit stage retires exactly the instructions at the head whose
  result has arrived, that no kill has removed and that wait for no fence, store port or store data; a valid
  one updates the register state, its store, the predictions and the program counter as its header says, one
  with an exception only starts the trap sequence. No table access is out of range.\<close>

theorem commit_refines:
  assumes "commit_reset s"
  shows "run_fl (\<lambda>s i. map_option (apsnd commit_view) (commit_step s i)) s is =
         Some (run commit_spec_step Map.empty is)"
  using commit_reset_related [OF assms] by (rule commit.safe_run_refines) (simp add: runs_ok_always)

text \<open>C26: traps are precise: an instruction that reaches the head with an exception leaves in that cycle with no
  register, store or prediction update, the fetch is redirected to the vector that \<open>mtvec\<close> gives for its
  cause, and the CSR file afterwards holds cause, value and address of that instruction and the two
  counters incremented, all other registers unchanged. \<open>minstret\<close>, the count of retired instructions, counts
  the trapping one too.\<close>

theorem trap_is_precise:
  assumes "commit_related s m" "retiring m i = Some v" "\<not> msg_valid (wb_hdr v)"
    and "\<forall>r\<in>{''mcause'', ''mtval'', ''mepc'', ''mcycle'', ''minstret''}. csrs (csr_num r) \<noteq> None"
  shows "\<exists>s' out. commit_step s i = Some (s', out) \<and> ct_cflow_commit_call out \<and> ct_cflow_redirect out \<and>
    ct_cflow_redirect_target out = exception_target (cm_read_csr i (csr_num ''mtvec'')) (ei_mcause (wb_exception_info v)) \<and>
    \<not> ct_dataflow_commit_call out \<and> \<not> ct_free_store_id_call out \<and> \<not> ct_send_store_call out \<and> \<not> ct_btb_clear_call out \<and>
    csr_writes csrs (ct_write_csr out) =
      csrs(csr_num ''mcause'' \<mapsto> ucast (ei_mcause (wb_exception_info v)),
           csr_num ''mtval'' \<mapsto> ei_mtval (wb_exception_info v), csr_num ''mepc'' \<mapsto> fh_pc (wb_hdr v),
           csr_num ''mcycle'' \<mapsto> cm_read_csr i (csr_num ''mcycle'') + 1,
           csr_num ''minstret'' \<mapsto> cm_read_csr i (csr_num ''minstret'') + 1)"
proof -
  from commit_step_cases [OF assms(1), of i] obtain s' where
    "commit_step s i = Some (s', commit_outputs i v True)"
    using assms(2) by auto
  then show ?thesis
    using assms(3,4) by (simp add: commit_outputs_def Let_def csr_num_values)
qed

text \<open>An instruction at address 100 that traps with cause 2, while \<open>mtvec\<close> is in vectored mode.\<close>

definition example_trap :: writeback_msg where
  "example_trap = (zero_writeback (zero_hdr\<lparr> fh_status := 1, fh_pc := 100 \<rparr>))\<lparr>
     wb_exception_info := \<lparr> ei_mcause = 2, ei_mtval = 7 \<rparr> \<rparr>"

definition example_commit_in :: "bool \<Rightarrow> bool \<Rightarrow> commit_in" where
  "example_commit_in arrives head =
     \<lparr> cm_in_peek_rdy = arrives, cm_in_peek_msg = example_trap, cm_head_rdy = head, cm_head_seq = 0,
       cm_send_store_rdy = False, cm_store_acks_outstanding = True, cm_store_data_available = (\<lambda>_. False),
       cm_read_csr = (\<lambda>r. if r = csr_num ''mtvec'' then 0x201 else 5),
       cm_kill_msg = \<lparr> kill_force = False, kill_mask = 0, clear_mask = 0 \<rparr> \<rparr>"

definition example_commit_state :: commit_state where
  "example_commit_state =
     \<lparr> rob_entries = replicate 32 (zero_writeback zero_hdr), rob_valids = replicate 32 (vvm_reset 0) \<rparr>"

lemma example_commit_reset: "commit_reset example_commit_state"
  by (simp add: commit_reset_def example_commit_state_def vvm_reset_def list_all_iff)

lemmas example_commit = commit_spec_step_def retiring_def commit_head_def rob_map_kill_def rob_map_step_def
  example_commit_in_def example_trap_def kill_drop_def may_retire_def commit_rob_in_def zero_writeback_def
  zero_hdr_def retire_effects_def csr_num_values exception_target_def mtvec_mode_direct_def mtvec_mode_vectored_def

lemma commit_refines_witness:
  "map_option (map fst) (run_fl (\<lambda>s i. map_option (apsnd commit_view) (commit_step s i)) example_commit_state
     [example_commit_in True False, example_commit_in False True, example_commit_in False True]) =
   Some [False, True, False]"
  unfolding commit_refines [OF example_commit_reset] by (simp add: example_commit)

lemma trap_is_precise_witness:
  "\<exists>s' out. commit_step \<lparr> rob_entries = replicate 32 example_trap,
       rob_valids = (replicate 32 (vvm_reset 0))[0 := \<lparr> vv_val = True, vv_out = 0, vv_dead = False \<rparr>] \<rparr>
       (example_commit_in False True) = Some (s', out) \<and>
     ct_cflow_redirect_target out = 0x208 \<and> \<not> ct_dataflow_commit_call out \<and>
     csr_writes (\<lambda>_. Some 0) (ct_write_csr out) (csr_num ''mepc'') = Some 100"
proof -
  let ?s = "\<lparr> rob_entries = replicate 32 example_trap,
       rob_valids = (replicate 32 (vvm_reset 0))[0 := \<lparr> vv_val = True, vv_out = 0 :: 2 word, vv_dead = False \<rparr>] \<rparr>"
  have related: "commit_related ?s [0 \<mapsto> (example_trap, 0)]"
    by (auto simp: rob_related_def vvm_abs_def vvm_reset_def nth_list_update)
  have head: "retiring [0 \<mapsto> (example_trap, 0)] (example_commit_in False True) = Some example_trap"
    by (simp add: example_commit)
  from trap_is_precise [OF related head, of "\<lambda>_. Some 0"] show ?thesis
    by (auto simp: example_commit)
qed

end
