(* ===== verification/Fetch.thy ===== *)
theory Fetch
  imports Frontend Pipeline
begin

text \<open>
  The fetch stage of \<open>lizard/core/rtl/frontend/fetch.py\<close> with its drop unit, and the memory port it talks to. One
  request is in flight at a time; a redirect drops the response that is still to come. The branch target
  buffer is an argument: what it answers for an address.
\<close>

section \<open>The stage\<close>

definition mem_status_ok :: "2 word" where "mem_status_ok = 0"
definition mem_status_misaligned :: "2 word" where "mem_status_misaligned = 1"
definition mem_status_fault :: "2 word" where "mem_status_fault = 2"

record fetch_regs =
  fe_drop_pending :: bool
  fe_fetch_val :: bool
  fe_fetch_msg :: fetch_msg
  fe_in_flight :: bool
  fe_pc :: "64 word"

record fetch_in =
  fi_mem_recv_rdy :: bool
  fi_mem_recv_data :: "64 word"
  fi_mem_recv_stat :: "2 word"
  fi_redirect :: bool
  fi_redirect_target :: "64 word"
  fi_take_call :: bool

record fetch_out =
  fo_mem_recv_call :: bool
  fo_mem_send_call :: bool
  fo_mem_send_addr :: "64 word"
  fo_peek_rdy :: bool
  fo_peek_msg :: fetch_msg

text \<open>The message \<open>handle_f1\<close> writes for the response at address \<open>pc\<close>.\<close>

definition zero_fetch :: "frontend_hdr \<Rightarrow> fetch_msg" where
  "zero_fetch hdr = \<lparr> fm_hdr = hdr, fm_exception_info = zero_exception, fm_inst = 0, fm_pc_succ = 0 \<rparr>"

definition fetched :: "64 word \<Rightarrow> 64 word \<Rightarrow> 64 word \<times> 2 word \<Rightarrow> fetch_msg" where
  "fetched pc succ resp =
     (let (data, stat) = resp;
          hdr = \<lparr> fh_status = 0, fh_pc = pc, fh_fence = False, fh_replay = False, fh_replay_next = False \<rparr>
      in if stat \<noteq> mem_status_ok
         then (zero_fetch (hdr\<lparr> fh_status := pattern PipelineMsgStatus ''PIPELINE_MSG_STATUS_EXCEPTION_RAISED'' \<rparr>))
                \<lparr> fm_exception_info :=
                    \<lparr> ei_mcause = (if stat = mem_status_misaligned then exception_code ''INSTRUCTION_ADDRESS_MISALIGNED''
                                  else if stat = mem_status_fault then exception_code ''INSTRUCTION_ACCESS_FAULT'' else 0),
                      ei_mtval = pc \<rparr> \<rparr>
         else (zero_fetch (hdr\<lparr> fh_status := pattern PipelineMsgStatus ''PIPELINE_MSG_STATUS_VALID'' \<rparr>))
                \<lparr> fm_inst := ucast data, fm_pc_succ := succ \<rparr>)"

text \<open>\<open>handle_redirect\<close>: the next program counter without a redirect.\<close>

definition next_pc :: "bool \<Rightarrow> (64 word \<Rightarrow> 64 word option) \<Rightarrow> 64 word \<Rightarrow> 64 word" where
  "next_pc enable_btb btb pc =
     (case btb pc of Some target \<Rightarrow> if enable_btb then target else pc + 4 | None \<Rightarrow> pc + 4)"

definition fetch_step ::
  "bool \<Rightarrow> (64 word \<Rightarrow> 64 word option) \<Rightarrow> (fetch_regs, fetch_in, fetch_out) machine" where
  "fetch_step enable_btb btb s i =
     (let drop_base = \<lparr> du_drop_call = (fi_redirect i \<and> fe_in_flight s), du_output_call = False,
                        du_input_rdy = fi_mem_recv_rdy i, du_input_data = fi_mem_recv_data i \<rparr>;
          drop_out = snd (drop_unit_step (fe_drop_pending s) drop_base);
          advance_f1 = (du_output_rdy drop_out \<and> (\<not> fe_fetch_val s \<or> fi_take_call i));
          advance_f0 = (\<not> fe_in_flight s \<or> du_occurred drop_out \<or> advance_f1);
          pc_write = (if fi_redirect i then fi_redirect_target i else next_pc enable_btb btb (fe_pc s));
          output_call = (if fi_redirect i then False else advance_f1);
          (pending', drop) = drop_unit_step (fe_drop_pending s) (drop_base\<lparr> du_output_call := output_call \<rparr>);
          (fetch_val', fetch_msg') =
            (if fi_redirect i then (False, fe_fetch_msg s)
             else if advance_f1
             then (True, fetched (fe_pc s) pc_write (du_output_data drop_out, fi_mem_recv_stat i))
             else if fi_take_call i then (False, fe_fetch_msg s)
             else (fe_fetch_val s, fe_fetch_msg s))
      in (\<lparr> fe_drop_pending = pending', fe_fetch_val = fetch_val', fe_fetch_msg = fetch_msg',
            fe_in_flight = (if advance_f0 then True else fe_in_flight s),
            fe_pc = (if fi_redirect i \<or> advance_f0 then pc_write else fe_pc s) \<rparr>,
          \<lparr> fo_mem_recv_call = du_input_call drop, fo_mem_send_call = advance_f0, fo_mem_send_addr = pc_write,
            fo_peek_rdy = (if fi_redirect i then False else fe_fetch_val s), fo_peek_msg = fe_fetch_msg s \<rparr>))"

definition fetch_reset :: "fetch_msg \<Rightarrow> fetch_regs" where
  "fetch_reset msg =
     \<lparr> fe_drop_pending = False, fe_fetch_val = False, fe_fetch_msg = msg, fe_in_flight = False, fe_pc = 0 \<rparr>"

section \<open>The stage and its memory\<close>

text \<open>The memory holds the address of the request it has accepted and not answered, answers it with \<open>mem\<close> in a cycle in
  which the environment says so, and can accept the next request in the same cycle
  (\<open>TestMemoryBusFL\<close> with some delay).\<close>

record fetch_env =
  fv_answer :: bool
  fv_redirect :: bool
  fv_target :: "64 word"
  fv_take :: bool

definition fetch_system_in ::
  "(64 word \<Rightarrow> 64 word \<times> 2 word) \<Rightarrow> 64 word option \<Rightarrow> fetch_env \<Rightarrow> fetch_in" where
  "fetch_system_in mem outstanding e =
     (let (data, stat) = (case outstanding of None \<Rightarrow> (0, 0) | Some a \<Rightarrow> mem a)
      in \<lparr> fi_mem_recv_rdy = (outstanding \<noteq> None \<and> fv_answer e), fi_mem_recv_data = data, fi_mem_recv_stat = stat,
           fi_redirect = fv_redirect e, fi_redirect_target = fv_target e, fi_take_call = fv_take e \<rparr>)"

definition fetch_system_step ::
  "bool \<Rightarrow> (64 word \<Rightarrow> 64 word option) \<Rightarrow> (64 word \<Rightarrow> 64 word \<times> 2 word) \<Rightarrow>
   (fetch_regs \<times> 64 word option, fetch_env, fetch_msg option) machine" where
  "fetch_system_step enable_btb btb mem st e =
     (let (s, outstanding) = st;
          (s', out) = fetch_step enable_btb btb s (fetch_system_in mem outstanding e)
      in ((s', if fo_mem_send_call out then Some (fo_mem_send_addr out)
               else if fo_mem_recv_call out then None else outstanding),
          if fo_peek_rdy out then Some (fo_peek_msg out) else None))"

text \<open>The contract: the address of the next instruction and a buffer for one message.\<close>

record fetch_stream =
  fs_started :: bool
  fs_pc :: "64 word"
  fs_buffer :: "fetch_msg option"

definition fetch_stream_step ::
  "bool \<Rightarrow> (64 word \<Rightarrow> 64 word option) \<Rightarrow> (64 word \<Rightarrow> 64 word \<times> 2 word) \<Rightarrow>
   (fetch_stream, fetch_env, fetch_msg option) machine" where
  "fetch_stream_step enable_btb btb mem t e =
     (let succ = next_pc enable_btb btb (fs_pc t) in
      if fv_redirect e
      then (\<lparr> fs_started = True, fs_pc = fv_target e, fs_buffer = None \<rparr>, None)
      else if \<not> fs_started t
      then (\<lparr> fs_started = True, fs_pc = succ, fs_buffer = None \<rparr>, None)
      else if fv_answer e \<and> (fs_buffer t = None \<or> fv_take e)
      then (\<lparr> fs_started = True, fs_pc = succ, fs_buffer = Some (fetched (fs_pc t) succ (mem (fs_pc t))) \<rparr>, fs_buffer t)
      else (t\<lparr> fs_buffer := (if fv_take e then None else fs_buffer t) \<rparr>, fs_buffer t))"

text \<open>A redirect does not find a request waiting.\<close>

definition fetch_ok :: "fetch_stream \<Rightarrow> fetch_env \<Rightarrow> bool" where
  "fetch_ok t e \<longleftrightarrow> (fv_redirect e \<longrightarrow> \<not> fs_started t \<or> fv_answer e)"

definition fetch_related :: "fetch_regs \<times> 64 word option \<Rightarrow> fetch_stream \<Rightarrow> bool" where
  "fetch_related st t \<longleftrightarrow>
     (let (s, outstanding) = st
      in \<not> fe_drop_pending s \<and> fe_in_flight s = fs_started t \<and> fe_pc s = fs_pc t \<and>
         outstanding = (if fs_started t then Some (fs_pc t) else None) \<and>
         (if fe_fetch_val s then Some (fe_fetch_msg s) else None) = fs_buffer t \<and>
         (fs_buffer t \<noteq> None \<longrightarrow> fs_started t))"

lemmas fetch_eval = fetch_system_step_def fetch_system_in_def fetch_step_def drop_unit_step_def Let_def

lemma fetch_system_related:
  assumes "fetch_related st t" "fetch_ok t e"
  shows "snd (fetch_system_step enable_btb btb mem st e) = snd (fetch_stream_step enable_btb btb mem t e)"
    and "fetch_related (fst (fetch_system_step enable_btb btb mem st e)) (fst (fetch_stream_step enable_btb btb mem t e))"
  using assms
  by (cases "mem (fs_pc t)"; cases st; cases "fs_started t"; cases "fv_redirect e"; cases "fv_answer e"; cases "fv_take e";
      cases "fs_buffer t";
      auto simp: fetch_related_def fetch_ok_def fetch_stream_step_def fetch_eval split: if_splits)+

interpretation fetch: cycle_refinement
  "fetch_system_step enable_btb btb mem" "fetch_stream_step enable_btb btb mem" fetch_related fetch_ok
  for enable_btb btb mem
  by unfold_locales (simp_all add: fetch_system_related)

section \<open>Properties\<close>

text \<open>C14: from reset on, with a memory that answers every request after any delay and redirects that do not come while an
  answer is still awaited, the stage shows exactly the instruction stream: every message carries the memory
  contents at its own address and the address of the next one, each address follows the predicted or the next
  one, a redirect drops what was fetched and continues at the target, and a message stays until it is taken.\<close>

theorem fetch_refines_stream:
  assumes "runs_ok (fetch_stream_step enable_btb btb mem) fetch_ok
             \<lparr> fs_started = False, fs_pc = 0, fs_buffer = None \<rparr> es"
  shows "run (fetch_system_step enable_btb btb mem) (fetch_reset msg, None) es =
         run (fetch_stream_step enable_btb btb mem) \<lparr> fs_started = False, fs_pc = 0, fs_buffer = None \<rparr> es"
  using assms by (intro fetch.run_refines) (simp_all add: fetch_related_def fetch_reset_def)

definition fetch_hdr :: frontend_hdr where
  "fetch_hdr = \<lparr> fh_status = 0, fh_pc = 0, fh_fence = False, fh_replay = False, fh_replay_next = False \<rparr>"

definition fetch_events :: "fetch_env list" where
  "fetch_events =
     [\<lparr> fv_answer = False, fv_redirect = True, fv_target = 0x200, fv_take = False \<rparr>,
      \<lparr> fv_answer = True, fv_redirect = False, fv_target = 0, fv_take = False \<rparr>,
      \<lparr> fv_answer = True, fv_redirect = False, fv_target = 0, fv_take = True \<rparr>,
      \<lparr> fv_answer = True, fv_redirect = True, fv_target = 0x300, fv_take = False \<rparr>,
      \<lparr> fv_answer = True, fv_redirect = False, fv_target = 0, fv_take = False \<rparr>,
      \<lparr> fv_answer = False, fv_redirect = False, fv_target = 0, fv_take = True \<rparr>]"

lemma fetch_refines_stream_witness:
  "map (map_option (fh_pc \<circ> fm_hdr))
     (run (fetch_system_step True (\<lambda>_. None) (\<lambda>a. (a, 0))) (fetch_reset (zero_fetch fetch_hdr), None) fetch_events) =
   [None, None, Some 0x200, None, None, Some 0x300]"
  by (subst fetch_refines_stream)
     (simp_all add: fetch_events_def fetch_ok_def fetch_stream_step_def next_pc_def fetched_def zero_fetch_def
        mem_status_ok_def Let_def)



end
