(* ===== verification/MemoryFlow.thy ===== *)
theory MemoryFlow
  imports Registers Arith_Units
begin

text \<open>
  The data side of the memory interface: \<open>lizard/core/rtl/memory_arbiter.py\<close>, which shares one memory port between
  the loads and the committed stores, and \<open>lizard/core/rtl/memoryflow.py\<close>, the table of the stores in flight that
  decides whether a load may pass them. The widths are those of \<open>proc.py\<close>: four stores, 64-bit addresses and
  data, sizes of 1 to 8 bytes.
\<close>

section \<open>The memory arbiter\<close>

definition mem_read :: "4 word" where "mem_read = 0"
definition mem_write :: "4 word" where "mem_write = 1"

record mem_req =
  mq_type :: "4 word"
  mq_addr :: "64 word"
  mq_len :: "3 word"
  mq_data :: "64 word"

record arbiter_in =
  ma_recv_load_call :: bool
  ma_send_store_call :: bool
  ma_send_store_addr :: "64 word"
  ma_send_store_size :: "4 word"
  ma_send_store_data :: "64 word"
  ma_send_load_call :: bool
  ma_send_load_addr :: "64 word"
  ma_send_load_size :: "4 word"
  ma_mb_send_rdy :: bool
  ma_mb_recv_rdy :: bool
  ma_mb_recv_data :: "64 word"

record arbiter_out =
  ma_recv_load_rdy :: bool
  ma_recv_load_data :: "64 word"
  ma_store_acks_outstanding :: bool
  ma_send_store_rdy :: bool
  ma_send_load_rdy :: bool
  ma_mb_recv_call :: bool
  ma_mb_send :: "mem_req option"

text \<open>\<open>handle_recv\<close>: the call on the memory, the ready flag of a load and the flag after the receive.\<close>

definition handle_recv :: "bool \<Rightarrow> bool \<Rightarrow> bool \<Rightarrow> bool \<times> bool \<times> bool" where
  "handle_recv store_in_flight mb_recv_rdy recv_load_call =
     (if mb_recv_rdy
      then if store_in_flight then (True, False, False) else (recv_load_call, True, False)
      else (False, False, store_in_flight))"

text \<open>The flag is the register \<open>store_in_flight\<close>; a request that is not sent is \<open>None\<close>.\<close>

definition arbiter_step :: "(bool, arbiter_in, arbiter_out) machine" where
  "arbiter_step store_in_flight i =
     (let (mb_recv_call, recv_load_rdy, after_recv) =
            handle_recv store_in_flight (ma_mb_recv_rdy i) (ma_recv_load_call i);
          (send, store_in_flight') =
            (if ma_send_store_call i
             then (Some \<lparr> mq_type = mem_write, mq_addr = ma_send_store_addr i, mq_len = ucast (ma_send_store_size i),
                          mq_data = ma_send_store_data i \<rparr>, True)
             else if ma_send_load_call i
             then (Some \<lparr> mq_type = mem_read, mq_addr = ma_send_load_addr i, mq_len = ucast (ma_send_load_size i),
                          mq_data = 0 \<rparr>, False)
             else (None, after_recv))
      in (store_in_flight',
          \<lparr> ma_recv_load_rdy = recv_load_rdy, ma_recv_load_data = ma_mb_recv_data i,
            ma_store_acks_outstanding = after_recv,
            ma_send_store_rdy = ma_mb_send_rdy i,
            ma_send_load_rdy = (ma_mb_send_rdy i \<and> \<not> ma_send_store_call i),
            ma_mb_recv_call = mb_recv_call, ma_mb_send = send \<rparr>))"

section \<open>The memory flow manager\<close>

record memflow =
  mf_address :: "(64 word \<times> 4 word) list"
  mf_address_valid :: "bool list"
  mf_data :: "64 word list"
  mf_data_valid :: "bool list"
  mf_store_in_flight :: bool

record memflow_in =
  mi_live_mask :: "4 word"
  mi_pending_addr :: "64 word"
  mi_pending_size :: "4 word"
  mi_data_available_id :: "2 word"
  mi_recv_load_call :: bool
  mi_send_store_call :: bool
  mi_send_store_id :: "2 word"
  mi_send_load_call :: bool
  mi_send_load_addr :: "64 word"
  mi_send_load_size :: "4 word"
  mi_register_call :: bool
  mi_register_id :: "2 word"
  mi_enter_address_call :: bool
  mi_enter_address_id :: "2 word"
  mi_enter_address :: "64 word \<times> 4 word"
  mi_enter_data_call :: bool
  mi_enter_data_id :: "2 word"
  mi_enter_data :: "64 word"
  mi_mb_send_rdy :: bool
  mi_mb_recv_rdy :: bool
  mi_mb_recv_data :: "64 word"

record memflow_out =
  mo_store_pending :: bool
  mo_data_available :: bool
  mo_arbiter :: arbiter_out

definition overlapped_and_live :: "memflow_in \<Rightarrow> (64 word \<times> 4 word) list \<Rightarrow> bool list \<Rightarrow> nat \<Rightarrow> bool" where
  "overlapped_and_live i addresses valids k =
     (\<not> overlap_checker (mi_pending_addr i) (mi_pending_size i) (fst (addresses ! k)) (snd (addresses ! k)) \<and>
      bit (mi_live_mask i) k \<and> valids ! k)"

definition table_in :: "'i list \<Rightarrow> (bool \<times> 'i \<times> 'a) list \<Rightarrow> 'a list \<Rightarrow> ('i, 'a) regfile_in" where
  "table_in reads writes zeros =
     \<lparr> rf_read_addr = reads, rf_write_call = map fst writes, rf_write_addr = map (fst \<circ> snd) writes,
       rf_write_data = map (snd \<circ> snd) writes, rf_set_call = False, rf_set_in = zeros \<rparr>"

definition memflow_step :: "memflow \<Rightarrow> memflow_in \<Rightarrow> (memflow \<times> memflow_out) option" where
  "memflow_step s i =
     (let (address', address_out) = regfile_step False False (mf_address s)
            (table_in [mi_send_store_id i]
               [(mi_enter_address_call i, mi_enter_address_id i, mi_enter_address i)] [(0, 0), (0, 0), (0, 0), (0, 0)]);
          (address_valid', address_valid_out) = regfile_step False False (mf_address_valid s)
            (table_in []
               [(mi_register_call i, mi_register_id i, False), (mi_enter_address_call i, mi_enter_address_id i, True)]
               [False, False, False, False]);
          (data', data_out) = regfile_step False False (mf_data s)
            (table_in [mi_send_store_id i] [(mi_enter_data_call i, mi_enter_data_id i, mi_enter_data i)] [0, 0, 0, 0]);
          (data_valid', data_valid_out) = regfile_step False False (mf_data_valid s)
            (table_in [mi_data_available_id i]
               [(mi_register_call i, mi_register_id i, False), (mi_enter_data_call i, mi_enter_data_id i, True)]
               [False, False, False, False])
      in do {
        (addr, size) \<leftarrow> hd (rf_read_data address_out);
        data \<leftarrow> hd (rf_read_data data_out);
        available \<leftarrow> hd (rf_read_data data_valid_out);
        let (in_flight', arb) = arbiter_step (mf_store_in_flight s)
          \<lparr> ma_recv_load_call = mi_recv_load_call i, ma_send_store_call = mi_send_store_call i,
            ma_send_store_addr = addr, ma_send_store_size = size, ma_send_store_data = data,
            ma_send_load_call = mi_send_load_call i, ma_send_load_addr = mi_send_load_addr i,
            ma_send_load_size = mi_send_load_size i, ma_mb_send_rdy = mi_mb_send_rdy i,
            ma_mb_recv_rdy = mi_mb_recv_rdy i, ma_mb_recv_data = mi_mb_recv_data i \<rparr>;
        Some (\<lparr> mf_address = address', mf_address_valid = address_valid', mf_data = data', mf_data_valid = data_valid',
                mf_store_in_flight = in_flight' \<rparr>,
              \<lparr> mo_store_pending =
                  list_ex (overlapped_and_live i (rf_dump_out address_out) (rf_dump_out address_valid_out)) [0..<4],
                mo_data_available = available, mo_arbiter = arb \<rparr>) })"

section \<open>The contract\<close>

text \<open>Per store id, the address range once it is known and the data once it is known.\<close>

type_synonym store_map = "(2 word \<Rightarrow> (64 word \<times> 4 word) option) \<times> (2 word \<Rightarrow> 64 word option) \<times> bool"

definition ranges_meet :: "64 word \<times> 4 word \<Rightarrow> 64 word \<times> 4 word \<Rightarrow> bool" where
  "ranges_meet r q \<longleftrightarrow> uint (fst r) < uint (fst q) + uint (snd q) \<and> uint (fst q) < uint (fst r) + uint (snd r)"

definition range_ok :: "64 word \<times> 4 word \<Rightarrow> bool" where
  "range_ok r \<longleftrightarrow> snd r \<noteq> 0 \<and> uint (fst r) + uint (snd r) < 2 ^ 64"

definition store_pending :: "store_map \<Rightarrow> 4 word \<Rightarrow> 64 word \<times> 4 word \<Rightarrow> bool" where
  "store_pending t live q =
     list_ex (\<lambda>k. bit live k \<and> (case fst t (of_nat k) of None \<Rightarrow> False | Some r \<Rightarrow> ranges_meet q r)) [0..<4]"

definition store_map_arbiter :: "store_map \<Rightarrow> memflow_in \<Rightarrow> arbiter_in" where
  "store_map_arbiter t i =
     (let r = (case fst t (mi_send_store_id i) of None \<Rightarrow> (0, 0) | Some r \<Rightarrow> r);
          d = (case fst (snd t) (mi_send_store_id i) of None \<Rightarrow> 0 | Some d \<Rightarrow> d)
      in \<lparr> ma_recv_load_call = mi_recv_load_call i, ma_send_store_call = mi_send_store_call i,
           ma_send_store_addr = fst r, ma_send_store_size = snd r, ma_send_store_data = d,
           ma_send_load_call = mi_send_load_call i, ma_send_load_addr = mi_send_load_addr i,
           ma_send_load_size = mi_send_load_size i, ma_mb_send_rdy = mi_mb_send_rdy i,
           ma_mb_recv_rdy = mi_mb_recv_rdy i, ma_mb_recv_data = mi_mb_recv_data i \<rparr>)"

definition store_map_next :: "store_map \<Rightarrow> memflow_in \<Rightarrow> (2 word \<Rightarrow> (64 word \<times> 4 word) option) \<times> (2 word \<Rightarrow> 64 word option)" where
  "store_map_next t i =
     (\<lambda>id. if mi_enter_address_call i \<and> mi_enter_address_id i = id then Some (mi_enter_address i)
           else if mi_register_call i \<and> mi_register_id i = id then None else fst t id,
      \<lambda>id. if mi_enter_data_call i \<and> mi_enter_data_id i = id then Some (mi_enter_data i)
           else if mi_register_call i \<and> mi_register_id i = id then None else fst (snd t) id)"

definition store_map_step :: "(store_map, memflow_in, memflow_out) machine" where
  "store_map_step t i =
     (let (in_flight', arb) = arbiter_step (snd (snd t)) (store_map_arbiter t i); (addr', data') = store_map_next t i
      in ((addr', data', in_flight'),
          \<lparr> mo_store_pending = store_pending t (mi_live_mask i) (mi_pending_addr i, mi_pending_size i),
            mo_data_available = (fst (snd t) (mi_data_available_id i) \<noteq> None), mo_arbiter = arb \<rparr>))"

text \<open>Accesses are not empty and do not wrap; a store is sent when both its address and its data are known.\<close>

definition store_map_ok :: "store_map \<Rightarrow> memflow_in \<Rightarrow> bool" where
  "store_map_ok t i \<longleftrightarrow>
     range_ok (mi_pending_addr i, mi_pending_size i) \<and>
     (mi_enter_address_call i \<longrightarrow> range_ok (mi_enter_address i)) \<and>
     (mi_send_store_call i \<longrightarrow> fst t (mi_send_store_id i) \<noteq> None \<and> fst (snd t) (mi_send_store_id i) \<noteq> None)"

definition memflow_related :: "memflow \<Rightarrow> store_map \<Rightarrow> bool" where
  "memflow_related s t \<longleftrightarrow>
     length (mf_address s) = 4 \<and> length (mf_address_valid s) = 4 \<and> length (mf_data s) = 4 \<and> length (mf_data_valid s) = 4 \<and>
     mf_store_in_flight s = snd (snd t) \<and>
     (\<forall>id. mf_address_valid s ! unat id = (fst t id \<noteq> None) \<and>
           (\<forall>r. fst t id = Some r \<longrightarrow> mf_address s ! unat id = r \<and> range_ok r) \<and>
           mf_data_valid s ! unat id = (fst (snd t) id \<noteq> None) \<and>
           (\<forall>d. fst (snd t) id = Some d \<longrightarrow> mf_data s ! unat id = d))"

lemma memflow_tables:
  "fst (regfile_step False False regs (table_in reads [(c, a, d)] zeros)) = (if c then regs[unat a := d] else regs)"
  "fst (regfile_step False False regs (table_in reads [(c, a, d), (c', a', d')] zeros)) =
     (let regs' = (if c then regs[unat a := d] else regs) in if c' then regs'[unat a' := d'] else regs')"
  "rf_read_data (snd (regfile_step False False regs (table_in reads writes zeros))) = map (\<lambda>a. list_read regs (unat a)) reads"
  "rf_dump_out (snd (regfile_step False False regs (table_in reads writes zeros))) = regs"
  by (auto simp: regfile_step_def regfile_after_set_def regfile_after_write_def table_in_def Let_def nth_list_update
      intro!: nth_equalityI)

lemma id_bound [simp]: "unat (sid :: 2 word) < 4"
  using unsigned_less [where ?'a = nat, of sid] by simp

lemma overlap_checker_meets:
  assumes "range_ok (a, s)" "range_ok (b, t)"
  shows "overlap_checker a s b t \<longleftrightarrow> \<not> ranges_meet (a, s) (b, t)"
proof -
  have pos: "0 < uint s" "0 < uint t" using assms by (auto simp: range_ok_def uint_0_iff less_le)
  have "overlap_checker a s b t \<longleftrightarrow> {uint a ..< uint a + uint s} \<inter> {uint b ..< uint b + uint t} = {}"
    using assms overlap_checker_correct [of s t a b] by (simp add: range_ok_def)
  also have "\<dots> \<longleftrightarrow> \<not> ranges_meet (a, s) (b, t)"
    using pos by (auto simp: ranges_meet_def set_eq_iff dest: spec [of _ "max (uint a) (uint b)"])
  finally show ?thesis .
qed

lemma store_pending_table:
  assumes "memflow_related s t" "range_ok (mi_pending_addr i, mi_pending_size i)"
  shows "list_ex (overlapped_and_live i (mf_address s) (mf_address_valid s)) [0..<4] =
         store_pending t (mi_live_mask i) (mi_pending_addr i, mi_pending_size i)"
proof -
  have "overlapped_and_live i (mf_address s) (mf_address_valid s) k \<longleftrightarrow>
      bit (mi_live_mask i) k \<and>
      (case fst t (of_nat k) of None \<Rightarrow> False | Some r \<Rightarrow> ranges_meet (mi_pending_addr i, mi_pending_size i) r)"
    if "k < 4" for k
  proof -
    have k: "unat (of_nat k :: 2 word) = k" using that by (simp add: unsigned_of_nat take_bit_eq_mod)
    from assms(1) have e: "mf_address_valid s ! k = (fst t (of_nat k) \<noteq> None)"
      "\<And>r. fst t (of_nat k) = Some r \<Longrightarrow> mf_address s ! k = r \<and> range_ok r"
      unfolding memflow_related_def by (metis k)+
    show ?thesis
    proof (cases "fst t (of_nat k)")
      case (Some r)
      with e(2) [of r] overlap_checker_meets [OF assms(2), of "fst r" "snd r"] show ?thesis
        by (simp add: overlapped_and_live_def e(1) conj_comms)
    qed (simp add: overlapped_and_live_def e(1))
  qed
  then show ?thesis by (auto simp: store_pending_def list_ex_iff)
qed

lemma arbiter_send_irrelevant:
  "\<not> ma_send_store_call i \<Longrightarrow>
   arbiter_step f (i\<lparr> ma_send_store_addr := a, ma_send_store_size := s, ma_send_store_data := d \<rparr>) = arbiter_step f i"
  by (simp add: arbiter_step_def cong: if_cong)

lemma nth_update_id:
  "length xs = 4 \<Longrightarrow> (if c then xs[unat a := v] else xs) ! unat sid = (if c \<and> a = sid then v else xs ! unat sid)"
  for a sid :: "2 word"
  by (auto simp: nth_list_update word_unat_eq_iff)

lemma memflow_step_related:
  assumes r: "memflow_related s t" and ok: "store_map_ok t i"
  shows "\<exists>s'. memflow_step s i = Some (s', snd (store_map_step t i)) \<and> memflow_related s' (fst (store_map_step t i))"
proof -
  let ?sid = "mi_send_store_id i"
  let ?arb = "store_map_arbiter t i\<lparr> ma_send_store_addr := fst (mf_address s ! unat ?sid),
      ma_send_store_size := snd (mf_address s ! unat ?sid), ma_send_store_data := mf_data s ! unat ?sid \<rparr>"
  have len: "length (mf_address s) = 4" "length (mf_address_valid s) = 4" "length (mf_data s) = 4" "length (mf_data_valid s) = 4"
    and tab: "mf_address_valid s ! unat k = (fst t k \<noteq> None)" "fst t k = Some q \<Longrightarrow> mf_address s ! unat k = q \<and> range_ok q"
      "mf_data_valid s ! unat k = (fst (snd t) k \<noteq> None)" "fst (snd t) k = Some d \<Longrightarrow> mf_data s ! unat k = d"
    and flag: "mf_store_in_flight s = snd (snd t)" for k q d
    using r unfolding memflow_related_def by blast+
  have arb: "arbiter_step f ?arb = arbiter_step f (store_map_arbiter t i)" for f
  proof (cases "mi_send_store_call i")
    case True
    with ok tab(2) [of ?sid] tab(4) [of ?sid] have "?arb = store_map_arbiter t i"
      by (auto simp: store_map_ok_def store_map_arbiter_def)
    then show ?thesis by simp
  next
    case False
    then show ?thesis by (intro arbiter_send_irrelevant) (simp add: store_map_arbiter_def Let_def)
  qed
  let ?s' = "\<lparr> mf_address = (if mi_enter_address_call i
        then (mf_address s)[unat (mi_enter_address_id i) := mi_enter_address i] else mf_address s),
      mf_address_valid = (let v = (if mi_register_call i then (mf_address_valid s)[unat (mi_register_id i) := False]
          else mf_address_valid s) in if mi_enter_address_call i then v[unat (mi_enter_address_id i) := True] else v),
      mf_data = (if mi_enter_data_call i then (mf_data s)[unat (mi_enter_data_id i) := mi_enter_data i] else mf_data s),
      mf_data_valid = (let v = (if mi_register_call i then (mf_data_valid s)[unat (mi_register_id i) := False]
          else mf_data_valid s) in if mi_enter_data_call i then v[unat (mi_enter_data_id i) := True] else v),
      mf_store_in_flight = fst (arbiter_step (snd (snd t)) (store_map_arbiter t i)) \<rparr>"
  have arb_in: "\<lparr> ma_recv_load_call = mi_recv_load_call i, ma_send_store_call = mi_send_store_call i,
        ma_send_store_addr = fst (mf_address s ! unat ?sid), ma_send_store_size = snd (mf_address s ! unat ?sid),
        ma_send_store_data = mf_data s ! unat ?sid,
        ma_send_load_call = mi_send_load_call i, ma_send_load_addr = mi_send_load_addr i,
        ma_send_load_size = mi_send_load_size i, ma_mb_send_rdy = mi_mb_send_rdy i,
        ma_mb_recv_rdy = mi_mb_recv_rdy i, ma_mb_recv_data = mi_mb_recv_data i \<rparr> = ?arb"
    by (simp add: store_map_arbiter_def Let_def)
  have "memflow_step s i = Some (?s', snd (store_map_step t i))"
    using store_pending_table [OF r, of i] ok
    by (simp add: memflow_step_def case_prod_beta memflow_tables list_read_def len Let_def arb_in arb flag tab(3)
        store_map_step_def store_map_ok_def)
  moreover have "memflow_related ?s' (fst (store_map_step t i))"
  proof -
    have fst_next: "fst (store_map_step t i) = (fst (store_map_next t i), snd (store_map_next t i), mf_store_in_flight ?s')"
      by (simp add: store_map_step_def case_prod_beta)
    have slot: "mf_address_valid ?s' ! unat k = (fst (store_map_next t i) k \<noteq> None) \<and>
           (\<forall>r. fst (store_map_next t i) k = Some r \<longrightarrow> mf_address ?s' ! unat k = r \<and> range_ok r) \<and>
           mf_data_valid ?s' ! unat k = (snd (store_map_next t i) k \<noteq> None) \<and>
           (\<forall>d. snd (store_map_next t i) k = Some d \<longrightarrow> mf_data ?s' ! unat k = d)" for k
      unfolding memflow.select_convs store_map_next_def fst_conv snd_conv Let_def
      using tab(1) [of k] tab(2) [of k] tab(3) [of k] tab(4) [of k] ok
      by (simp add: nth_update_id len store_map_ok_def del: split_paired_All split_paired_Ex not_None_eq)
    have lens: "length (mf_address ?s') = 4" "length (mf_address_valid ?s') = 4" "length (mf_data ?s') = 4"
      "length (mf_data_valid ?s') = 4"
      using len by (simp_all add: Let_def)
    show ?thesis
      unfolding memflow_related_def fst_next fst_conv snd_conv using slot lens by blast
  qed
  ultimately show ?thesis by blast
qed

interpretation memory_flow: safe_refinement memflow_step store_map_step memflow_related store_map_ok
  by unfold_locales (rule memflow_step_related)

section \<open>The arbiter on a memory port\<close>

text \<open>A port that holds one request, answers it when the environment says so and accepts the next one in the cycle in
  which the answer is taken. \<open>ae_store\<close> and \<open>ae_load\<close> are the calls of the cycle.\<close>

record arbiter_env =
  ae_answer :: bool
  ae_data :: "64 word"
  ae_recv_load :: bool
  ae_store :: "(64 word \<times> 4 word \<times> 64 word) option"
  ae_load :: "(64 word \<times> 4 word) option"

definition arbiter_port_in :: "mem_req option \<Rightarrow> bool \<Rightarrow> arbiter_env \<Rightarrow> arbiter_in" where
  "arbiter_port_in outstanding taken e =
     (let (sa, ss, sd) = (case ae_store e of None \<Rightarrow> (0, 0, 0) | Some q \<Rightarrow> q);
          (la, ls) = (case ae_load e of None \<Rightarrow> (0, 0) | Some q \<Rightarrow> q)
      in \<lparr> ma_recv_load_call = ae_recv_load e, ma_send_store_call = (ae_store e \<noteq> None), ma_send_store_addr = sa,
           ma_send_store_size = ss, ma_send_store_data = sd, ma_send_load_call = (ae_load e \<noteq> None),
           ma_send_load_addr = la, ma_send_load_size = ls, ma_mb_send_rdy = (outstanding = None \<or> taken),
           ma_mb_recv_rdy = (outstanding \<noteq> None \<and> ae_answer e), ma_mb_recv_data = ae_data e \<rparr>)"

definition arbiter_port_step :: "(bool \<times> mem_req option, arbiter_env, arbiter_out) machine" where
  "arbiter_port_step st e =
     (let (flag, outstanding) = st;
          taken = ma_mb_recv_call (snd (arbiter_step flag (arbiter_port_in outstanding False e)));
          (flag', out) = arbiter_step flag (arbiter_port_in outstanding taken e)
      in ((flag', case ma_mb_send out of Some q \<Rightarrow> Some q | None \<Rightarrow> if taken then None else outstanding), out))"

text \<open>The contract knows only the request: the answer to a store is taken at once and ends the wait for its
  acknowledgement, the answer to a load is offered until it is taken.\<close>

definition port_taken :: "mem_req option \<Rightarrow> arbiter_env \<Rightarrow> bool" where
  "port_taken outstanding e =
     (case outstanding of None \<Rightarrow> False | Some q \<Rightarrow> ae_answer e \<and> (mq_type q = mem_write \<or> ae_recv_load e))"

definition port_send :: "arbiter_env \<Rightarrow> mem_req option" where
  "port_send e =
     (case ae_store e of
        Some (a, s, d) \<Rightarrow> Some \<lparr> mq_type = mem_write, mq_addr = a, mq_len = ucast s, mq_data = d \<rparr>
      | None \<Rightarrow> map_option (\<lambda>(a, s). \<lparr> mq_type = mem_read, mq_addr = a, mq_len = ucast s, mq_data = 0 \<rparr>) (ae_load e))"

definition port_spec_step :: "(mem_req option, arbiter_env, arbiter_out) machine" where
  "port_spec_step outstanding e =
     (let taken = port_taken outstanding e; rdy = (outstanding = None \<or> taken)
      in (case port_send e of Some q \<Rightarrow> Some q | None \<Rightarrow> if taken then None else outstanding,
          \<lparr> ma_recv_load_rdy = (\<exists>q. outstanding = Some q \<and> mq_type q \<noteq> mem_write \<and> ae_answer e),
            ma_recv_load_data = ae_data e,
            ma_store_acks_outstanding = (\<exists>q. outstanding = Some q \<and> mq_type q = mem_write \<and> \<not> ae_answer e),
            ma_send_store_rdy = rdy, ma_send_load_rdy = (rdy \<and> ae_store e = None),
            ma_mb_recv_call = taken, ma_mb_send = port_send e \<rparr>))"

text \<open>Requests are sent only when the arbiter is ready for them.\<close>

definition port_ok :: "mem_req option \<Rightarrow> arbiter_env \<Rightarrow> bool" where
  "port_ok outstanding e \<longleftrightarrow>
     (ae_store e \<noteq> None \<or> ae_load e \<noteq> None \<longrightarrow> outstanding = None \<or> port_taken outstanding e)"

definition port_related :: "bool \<times> mem_req option \<Rightarrow> mem_req option \<Rightarrow> bool" where
  "port_related st t \<longleftrightarrow> snd st = t \<and> fst st = (case t of None \<Rightarrow> False | Some q \<Rightarrow> mq_type q = mem_write)"

lemma mem_types_differ [simp]: "mem_read \<noteq> mem_write"
  by (simp add: mem_read_def mem_write_def)

lemma handle_recv_port:
  assumes "f = (case t of None \<Rightarrow> False | Some q \<Rightarrow> mq_type q = mem_write)"
  shows "handle_recv f (t \<noteq> None \<and> ae_answer e) (ae_recv_load e) =
     (port_taken t e, \<exists>q. t = Some q \<and> mq_type q \<noteq> mem_write \<and> ae_answer e,
      \<exists>q. t = Some q \<and> mq_type q = mem_write \<and> \<not> ae_answer e)"
  using assms by (cases t) (auto simp: handle_recv_def port_taken_def)

lemma arbiter_port_outputs:
  assumes f: "f = (case t of None \<Rightarrow> False | Some q \<Rightarrow> mq_type q = mem_write)"
  shows "arbiter_step f (arbiter_port_in t (port_taken t e) e) =
     (case port_send e of Some q \<Rightarrow> mq_type q = mem_write
      | None \<Rightarrow> \<exists>q. t = Some q \<and> mq_type q = mem_write \<and> \<not> ae_answer e,
      snd (port_spec_step t e))"
    and "ma_mb_recv_call (snd (arbiter_step f (arbiter_port_in t taken e))) = port_taken t e"
proof -
  have recv: "ma_mb_recv_rdy (arbiter_port_in t x e) = (t \<noteq> None \<and> ae_answer e)"
    "ma_recv_load_call (arbiter_port_in t x e) = ae_recv_load e" for x
    by (simp_all add: arbiter_port_in_def case_prod_beta)
  show "ma_mb_recv_call (snd (arbiter_step f (arbiter_port_in t taken e))) = port_taken t e"
    unfolding arbiter_step_def recv handle_recv_port [OF f] by (simp add: case_prod_beta Let_def)
  show "arbiter_step f (arbiter_port_in t (port_taken t e) e) =
     (case port_send e of Some q \<Rightarrow> mq_type q = mem_write
      | None \<Rightarrow> \<exists>q. t = Some q \<and> mq_type q = mem_write \<and> \<not> ae_answer e,
      snd (port_spec_step t e))"
    unfolding arbiter_step_def recv handle_recv_port [OF f]
    by (cases "ae_store e"; cases "ae_load e")
       (simp_all add: arbiter_port_in_def case_prod_beta Let_def port_send_def port_spec_step_def)
qed

lemma arbiter_port_related:
  assumes "port_related st t" "port_ok t e"
  shows "snd (arbiter_port_step st e) = snd (port_spec_step t e) \<and>
         port_related (fst (arbiter_port_step st e)) (fst (port_spec_step t e))"
proof -
  obtain f where st: "st = (f, t)" and f: "f = (case t of None \<Rightarrow> False | Some q \<Rightarrow> mq_type q = mem_write)"
    using assms(1) by (cases st) (auto simp: port_related_def)
  have send: "ma_mb_send (snd (port_spec_step t e)) = port_send e"
    by (simp add: port_spec_step_def Let_def)
  have "arbiter_port_step st e =
      ((case port_send e of Some q \<Rightarrow> mq_type q = mem_write
        | None \<Rightarrow> \<exists>q. t = Some q \<and> mq_type q = mem_write \<and> \<not> ae_answer e, fst (port_spec_step t e)),
       snd (port_spec_step t e))"
    unfolding arbiter_port_step_def st prod.case arbiter_port_outputs(2) [OF f] Let_def arbiter_port_outputs(1) [OF f] send
    by (simp add: port_spec_step_def Let_def)
  then show ?thesis
    using assms(2) by (cases "port_send e"; cases t)
      (auto simp: port_related_def port_spec_step_def port_taken_def port_ok_def Let_def split: if_splits)
qed

interpretation arbiter: cycle_refinement arbiter_port_step port_spec_step port_related port_ok
  by unfold_locales (simp_all add: arbiter_port_related)

section \<open>Properties\<close>

definition memflow_reset :: "memflow \<Rightarrow> bool" where
  "memflow_reset s \<longleftrightarrow> length (mf_address s) = 4 \<and> mf_address_valid s = [False, False, False, False] \<and>
     length (mf_data s) = 4 \<and> mf_data_valid s = [False, False, False, False]"

lemma memflow_reset_related:
  assumes "memflow_reset s"
  shows "memflow_related s (\<lambda>_. None, \<lambda>_. None, mf_store_in_flight s)"
proof -
  have "[False, False, False, False] ! unat sid = False" for sid :: "2 word"
    using id_bound [of sid] by (auto simp: less_Suc_eq numeral_eq_Suc)
  with assms show ?thesis by (simp add: memflow_related_def memflow_reset_def)
qed


text \<open>C20: a load that the manager lets pass is not stale: whatever the memory holds, and in whatever order the live stores
  that are known will reach it, none of them changes a byte the load reads.\<close>

definition store_byte :: "64 word \<Rightarrow> int \<Rightarrow> 8 word" where
  "store_byte d k = ucast (drop_bit (8 * nat k) d)"

definition apply_store :: "store_map \<Rightarrow> 2 word \<Rightarrow> (int \<Rightarrow> 8 word) \<Rightarrow> int \<Rightarrow> 8 word" where
  "apply_store t sid mem a =
     (case fst t sid of None \<Rightarrow> mem a
      | Some (addr, len) \<Rightarrow>
          if uint addr \<le> a \<and> a < uint addr + uint len
          then (case fst (snd t) sid of None \<Rightarrow> mem a | Some d \<Rightarrow> store_byte d (a - uint addr)) else mem a)"



definition arbiter_events :: "arbiter_env list" where
  "arbiter_events =
     (let quiet = \<lparr> ae_answer = False, ae_data = 7, ae_recv_load = False, ae_store = None, ae_load = None \<rparr>
      in [quiet\<lparr> ae_store := Some (16, 4, 5) \<rparr>, quiet, quiet\<lparr> ae_answer := True, ae_load := Some (32, 8) \<rparr>,
          quiet\<lparr> ae_answer := True \<rparr>, quiet\<lparr> ae_answer := True, ae_recv_load := True \<rparr>])"


text \<open>A store of four bytes at 16, known to the manager, and loads beside and across it.\<close>

definition memflow_quiet :: memflow_in where
  "memflow_quiet =
     \<lparr> mi_live_mask = 1, mi_pending_addr = 20, mi_pending_size = 4, mi_data_available_id = 0, mi_recv_load_call = False,
       mi_send_store_call = False, mi_send_store_id = 0, mi_send_load_call = False, mi_send_load_addr = 0,
       mi_send_load_size = 0, mi_register_call = False, mi_register_id = 0, mi_enter_address_call = False,
       mi_enter_address_id = 0, mi_enter_address = (16, 4), mi_enter_data_call = False, mi_enter_data_id = 0,
       mi_enter_data = 9, mi_mb_send_rdy = True, mi_mb_recv_rdy = False, mi_mb_recv_data = 0 \<rparr>"

definition memflow_events :: "memflow_in list" where
  "memflow_events =
     [memflow_quiet\<lparr> mi_register_call := True \<rparr>, memflow_quiet\<lparr> mi_enter_address_call := True \<rparr>,
      memflow_quiet\<lparr> mi_pending_addr := 19 \<rparr>, memflow_quiet\<lparr> mi_enter_data_call := True \<rparr>,
      memflow_quiet\<lparr> mi_send_store_call := True \<rparr>]"

definition memflow_start :: memflow where
  "memflow_start =
     \<lparr> mf_address = [(0, 0), (0, 0), (0, 0), (0, 0)], mf_address_valid = [False, False, False, False],
       mf_data = [0, 0, 0, 0], mf_data_valid = [False, False, False, False], mf_store_in_flight = False \<rparr>"

lemmas memflow_eval = store_map_step_def store_map_next_def store_map_ok_def store_map_arbiter_def store_pending_def
  ranges_meet_def range_ok_def arbiter_step_def handle_recv_def memflow_quiet_def upt_rec



end
