(* ===== verification/MemoryBus.thy ===== *)
theory MemoryBus
  imports MemoryFlow
begin

text \<open>
  The functional memory bus of \<open>lizard/mem/fl/test_memory_bus.py\<close> that the processor is simulated against, with the
  messages of \<open>lizard/mem/rtl/memory_bus.py\<close> at the widths of \<open>lizard/core/rtl/proc_harness_rtl.py\<close>: opaque 1, test 2,
  address 64, data 8 bytes. A cycle calls, port by port, \<open>cl_delay\<close>, \<open>recv\<close> and \<open>send\<close>; the wrapper that drives it from
  the processor evaluates a cycle several times and undoes all evaluations but the last. A raised exception is \<open>None\<close>.
\<close>

section \<open>Messages\<close>

definition amo_add :: "4 word" where "amo_add = 3"
definition amo_and :: "4 word" where "amo_and = 4"
definition amo_or :: "4 word" where "amo_or = 5"
definition amo_xchg :: "4 word" where "amo_xchg = 6"
definition amo_min :: "4 word" where "amo_min = 7"
definition amo_max :: "4 word" where "amo_max = 8"

record bus_req =
  rq_type :: "4 word"
  rq_opaque :: "1 word"
  rq_addr :: "64 word"
  rq_len :: "3 word"
  rq_data :: "64 word"

record bus_resp =
  rp_type :: "4 word"
  rp_opaque :: "1 word"
  rp_test :: "2 word"
  rp_stat :: "2 word"
  rp_len :: "3 word"
  rp_data :: "64 word"

definition resp_mk_rd :: "1 word \<Rightarrow> 3 word \<Rightarrow> 64 word \<Rightarrow> bus_resp" where
  "resp_mk_rd opaque len d =
     \<lparr> rp_type = mem_read, rp_opaque = opaque, rp_test = 0, rp_stat = 0, rp_len = len, rp_data = d \<rparr>"

definition resp_mk_wr :: "1 word \<Rightarrow> 3 word \<Rightarrow> bus_resp" where
  "resp_mk_wr opaque len =
     \<lparr> rp_type = mem_write, rp_opaque = opaque, rp_test = 0, rp_stat = 0, rp_len = len, rp_data = 0 \<rparr>"

definition resp_mk_msg :: "4 word \<Rightarrow> 1 word \<Rightarrow> 2 word \<Rightarrow> 3 word \<Rightarrow> 64 word \<Rightarrow> bus_resp" where
  "resp_mk_msg t opaque stat len d =
     \<lparr> rp_type = t, rp_opaque = opaque, rp_test = 0, rp_stat = stat, rp_len = len, rp_data = d \<rparr>"

section \<open>The memory\<close>

type_synonym byte_map = "int \<rightharpoonup> 8 word"

text \<open>\<open>s.mem.get(a, 0)\<close>\<close>

definition mem_get :: "byte_map \<Rightarrow> int \<Rightarrow> 8 word" where
  "mem_get mem a = (case mem a of None \<Rightarrow> 0 | Some b \<Rightarrow> b)"

definition nbytes_of :: "3 word \<Rightarrow> nat" where
  "nbytes_of len = (if len = 0 then 8 else unat len)"

definition amo_fun :: "4 word \<Rightarrow> (64 word \<Rightarrow> 64 word \<Rightarrow> 64 word) option" where
  "amo_fun t = map_of [(amo_add, (+)), (amo_and, and), (amo_or, or), (amo_xchg, \<lambda>m a. a), (amo_min, min), (amo_max, max)] t"

text \<open>The state: the delay counter and pending answer of each port, the memory and, once a snapshot was taken, the bytes
  overwritten since.\<close>

record bus =
  bu_delay :: "int list"
  bu_results :: "bus_resp option list"
  bu_mem :: byte_map
  bu_history :: "byte_map option"

definition read_bytes :: "byte_map \<Rightarrow> int \<Rightarrow> nat \<Rightarrow> 64 word" where
  "read_bytes mem addr n = fold (\<lambda>j d. set_slice (8 * j) (mem_get mem (addr + int j)) d) [0..<n] 0"

text \<open>One byte at a time: the old byte goes to the history, the new one to the memory.\<close>

definition write_byte :: "int \<Rightarrow> 8 word \<Rightarrow> byte_map \<times> byte_map \<Rightarrow> byte_map \<times> byte_map" where
  "write_byte a b st = (case st of (history, mem) \<Rightarrow> (history(a \<mapsto> mem_get mem a), mem(a \<mapsto> b)))"

definition write_bytes :: "int \<Rightarrow> 64 word \<Rightarrow> nat \<Rightarrow> byte_map \<times> byte_map \<Rightarrow> byte_map \<times> byte_map" where
  "write_bytes addr d n st = fold (\<lambda>j. write_byte (addr + int j) (get_slice (8 * j) d)) [0..<n] st"

definition bus_write :: "bus_req \<Rightarrow> 64 word \<Rightarrow> bus \<Rightarrow> bus option" where
  "bus_write q d s =
     (case bu_history s of
        None \<Rightarrow> None
      | Some history \<Rightarrow>
          let (history, mem) = write_bytes (uint (rq_addr q)) d (nbytes_of (rq_len q)) (history, bu_mem s)
          in Some (s\<lparr> bu_history := Some history, bu_mem := mem \<rparr>))"

definition handle_request :: "bus_req \<Rightarrow> bus \<Rightarrow> (bus_resp \<times> bus) option" where
  "handle_request q s =
     (let old = read_bytes (bu_mem s) (uint (rq_addr q)) (nbytes_of (rq_len q)) in
      if rq_type q = mem_read then Some (resp_mk_rd (rq_opaque q) (rq_len q) old, s)
      else if rq_type q = mem_write
      then map_option (Pair (resp_mk_wr (rq_opaque q) 0)) (bus_write q (rq_data q) s)
      else case amo_fun (rq_type q) of
             None \<Rightarrow> None
           | Some f \<Rightarrow>
               map_option (Pair (resp_mk_msg (rq_type q) (rq_opaque q) 0 (rq_len q) old)) (bus_write q (f old (rq_data q)) s))"

section \<open>Ports\<close>

definition recv_rdy :: "nat \<Rightarrow> bus \<Rightarrow> bool" where
  "recv_rdy p s \<longleftrightarrow> bu_delay s ! p = 0"

definition bus_recv :: "nat \<Rightarrow> bus \<Rightarrow> bus_resp option \<times> bus" where
  "bus_recv p s = (bu_results s ! p, s\<lparr> bu_delay := (bu_delay s)[p := -1] \<rparr>)"

definition cl_delay :: "nat \<Rightarrow> bus \<Rightarrow> bus" where
  "cl_delay p s =
     (if bu_delay s ! p \<noteq> -1 \<and> bu_delay s ! p \<noteq> 0 then s\<lparr> bu_delay := (bu_delay s)[p := bu_delay s ! p - 1] \<rparr> else s)"

definition send_rdy :: "nat \<Rightarrow> bus \<Rightarrow> bool" where
  "send_rdy p s \<longleftrightarrow> bu_delay s ! p = -1"

definition bus_send :: "int list \<Rightarrow> nat \<Rightarrow> bus_req \<Rightarrow> bus \<Rightarrow> bus option" where
  "bus_send delays p q s =
     (case handle_request q s of
        None \<Rightarrow> None
      | Some (r, s) \<Rightarrow> Some (s\<lparr> bu_delay := (bu_delay s)[p := delays ! p], bu_results := (bu_results s)[p := Some r] \<rparr>))"

text \<open>A cycle of one port: what the processor asks for, and what it sees.\<close>

record port_in =
  pi_recv :: bool
  pi_send :: "bus_req option"

record port_out =
  po_recv_rdy :: bool
  po_msg :: "bus_resp option"
  po_send_rdy :: bool

definition port_cycle :: "int list \<Rightarrow> nat \<Rightarrow> port_in \<Rightarrow> bus \<Rightarrow> (bus \<times> port_out) option" where
  "port_cycle delays p i s =
     (let s = cl_delay p s;
          rdy = recv_rdy p s;
          (msg, s) = (if rdy \<and> pi_recv i then bus_recv p s else (None, s));
          srdy = send_rdy p s;
          out = \<lparr> po_recv_rdy = rdy, po_msg = msg, po_send_rdy = srdy \<rparr>
      in case pi_send i of
           Some q \<Rightarrow> if srdy then map_option (\<lambda>s. (s, out)) (bus_send delays p q s) else Some (s, out)
         | None \<Rightarrow> Some (s, out))"

fun ports_cycle :: "int list \<Rightarrow> nat \<Rightarrow> port_in list \<Rightarrow> bus \<Rightarrow> (bus \<times> port_out list) option" where
  "ports_cycle delays p [] s = Some (s, [])"
| "ports_cycle delays p (i # is) s =
     (case port_cycle delays p i s of
        None \<Rightarrow> None
      | Some (s, out) \<Rightarrow> map_option (\<lambda>(s, outs). (s, out # outs)) (ports_cycle delays (Suc p) is s))"

definition bus_cycle :: "int list \<Rightarrow> port_in list \<Rightarrow> bus \<Rightarrow> (bus \<times> port_out list) option" where
  "bus_cycle delays is s = ports_cycle delays 0 is s"

definition bus_reset :: "nat \<Rightarrow> byte_map \<Rightarrow> bus" where
  "bus_reset n mem = \<lparr> bu_delay = replicate n (-1), bu_results = replicate n None, bu_mem = mem, bu_history = None \<rparr>"

text \<open>The snapshot protocol: the registered state is copied, the memory is restored from the history.\<close>

definition bus_snapshot :: "bus \<Rightarrow> bus" where
  "bus_snapshot s = s\<lparr> bu_history := Some Map.empty \<rparr>"

definition bus_restore :: "bus \<Rightarrow> bus \<Rightarrow> bus" where
  "bus_restore saved s =
     s\<lparr> bu_delay := bu_delay saved, bu_results := bu_results saved, bu_mem := bu_mem s ++ the (bu_history s) \<rparr>"

section \<open>Reading and writing bytes\<close>

lemma read_bytes_upto:
  "n \<le> 8 \<Longrightarrow> bit (read_bytes mem addr n) k \<longleftrightarrow> k < 8 * n \<and> bit (mem_get mem (addr + int (k div 8))) (k mod 8)"
proof (induction n)
  case (Suc n)
  have "bit (read_bytes mem addr (Suc n)) k \<longleftrightarrow>
      (if 8 * n \<le> k \<and> k < 8 * n + 8 then bit (mem_get mem (addr + int n)) (k - 8 * n) else bit (read_bytes mem addr n) k) \<and> k < 64"
    by (auto simp: read_bytes_def bit_set_slice dest: bit_imp_le_length)
  moreover have "k div 8 = n \<and> k mod 8 = k - 8 * n" if "8 * n \<le> k" "k < 8 * n + 8" using that by presburger
  ultimately show ?case using Suc by auto
qed (simp add: read_bytes_def)

lemma write_bytes_at:
  "fst (write_bytes addr d n (h, m)) a = (if addr \<le> a \<and> a < addr + int n then Some (mem_get m a) else h a) \<and>
   snd (write_bytes addr d n (h, m)) a =
     (if addr \<le> a \<and> a < addr + int n then Some (get_slice (8 * nat (a - addr)) d) else m a)"
proof (induction n arbitrary: a)
  case (Suc n)
  obtain h' m' where w: "write_bytes addr d n (h, m) = (h', m')" by force
  have step: "write_bytes addr d (Suc n) (h, m) = write_byte (addr + int n) (get_slice (8 * n) d) (h', m')"
    using w by (simp add: write_bytes_def)
  have "m' (addr + int n) = m (addr + int n)" using Suc [of "addr + int n"] w by simp
  then show ?case using Suc [of a] w by (auto simp: step write_byte_def mem_get_def)
qed (auto simp: write_bytes_def)

text \<open>The bytes a request overwrites.\<close>

definition overwritten :: "bus_req \<Rightarrow> int set" where
  "overwritten q =
     (if rq_type q = mem_read then {} else {uint (rq_addr q)..<uint (rq_addr q) + int (nbytes_of (rq_len q))})"

lemma nbytes_of_le: "nbytes_of len \<le> 8" "0 < nbytes_of len"
  using unsigned_less [of len, where 'a = nat] by (auto simp: nbytes_of_def unat_gt_0)

lemma read_bytes_view: "mem_get m = mem_get m' \<Longrightarrow> read_bytes m a n = read_bytes m' a n"
  by (simp add: read_bytes_def)

lemma write_bytes_view:
  "mem_get m = mem_get m' \<Longrightarrow>
   mem_get (snd (write_bytes addr d n (h, m))) = mem_get (snd (write_bytes addr d n (h', m')))"
  by (rule ext) (auto simp: mem_get_def write_bytes_at fun_eq_iff)

text \<open>The history is exact: taking it back gives the memory of the snapshot.\<close>

definition history_exact :: "bus \<Rightarrow> (int \<Rightarrow> 8 word) \<Rightarrow> bool" where
  "history_exact s view \<longleftrightarrow> (\<exists>h. bu_history s = Some h \<and> mem_get (bu_mem s ++ h) = view)"

lemma bus_write_history:
  assumes "history_exact s view" "\<forall>a. a \<in> {uint (rq_addr q)..<uint (rq_addr q) + int (nbytes_of (rq_len q))} \<longrightarrow>
      mem_get (bu_mem s) a = view a" "bus_write q d s = Some s'"
  shows "history_exact s' view"
proof -
  from assms(1) obtain h where h: "bu_history s = Some h" "mem_get (bu_mem s ++ h) = view" by (auto simp: history_exact_def)
  obtain h' m' where w: "write_bytes (uint (rq_addr q)) d (nbytes_of (rq_len q)) (h, bu_mem s) = (h', m')" by force
  have "mem_get (m' ++ h') a = view a" for a
  proof (cases "uint (rq_addr q) \<le> a \<and> a < uint (rq_addr q) + int (nbytes_of (rq_len q))")
    case True
    then have "h' a = Some (mem_get (bu_mem s) a)" using w write_bytes_at [of "uint (rq_addr q)" d "nbytes_of (rq_len q)" h "bu_mem s" a] by simp
    then show ?thesis using assms(2) True by (simp add: mem_get_def map_add_def)
  next
    case False
    then have "h' a = h a \<and> m' a = bu_mem s a" using w write_bytes_at [of "uint (rq_addr q)" d "nbytes_of (rq_len q)" h "bu_mem s" a] by auto
    moreover have "mem_get (bu_mem s ++ h) a = view a" using h(2) by simp
    ultimately show ?thesis by (simp add: mem_get_def map_add_def split: option.splits)
  qed
  then show ?thesis using assms(3) h(1) w by (auto simp: bus_write_def history_exact_def fun_eq_iff)
qed

lemma bus_write_frame:
  assumes "bus_write q d s = Some s'"
  shows "bu_delay s' = bu_delay s" "bu_results s' = bu_results s" "bu_history s' \<noteq> None"
    "a \<notin> {uint (rq_addr q)..<uint (rq_addr q) + int (nbytes_of (rq_len q))} \<Longrightarrow> mem_get (bu_mem s') a = mem_get (bu_mem s) a"
  using assms write_bytes_at [of "uint (rq_addr q)" d "nbytes_of (rq_len q)" _ "bu_mem s" a]
  by (auto simp: bus_write_def mem_get_def split: option.splits prod.splits) (metis option.simps snd_conv)+

lemma handle_request_history:
  assumes "handle_request q s = Some (r, s')" "history_exact s view" "\<forall>a \<in> overwritten q. mem_get (bu_mem s) a = view a"
  shows "history_exact s' view" "a \<notin> overwritten q \<Longrightarrow> mem_get (bu_mem s') a = mem_get (bu_mem s) a"
proof -
  have "(rq_type q = mem_read \<and> s' = s) \<or> (rq_type q \<noteq> mem_read \<and> (\<exists>d. bus_write q d s = Some s'))"
    using assms(1) by (auto simp: handle_request_def Let_def split: if_splits option.splits)
  then show "history_exact s' view" "a \<notin> overwritten q \<Longrightarrow> mem_get (bu_mem s') a = mem_get (bu_mem s) a"
    using assms(2,3) bus_write_history [of s view q] bus_write_frame(4) [of q _ s s' a] by (auto simp: overwritten_def)
qed

definition overwritten_by :: "port_in \<Rightarrow> int set" where
  "overwritten_by i = (case pi_send i of None \<Rightarrow> {} | Some q \<Rightarrow> overwritten q)"

fun no_double_write :: "port_in list \<Rightarrow> bool" where
  "no_double_write [] \<longleftrightarrow> True"
| "no_double_write (i # is) \<longleftrightarrow> (\<forall>j \<in> set is. overwritten_by i \<inter> overwritten_by j = {}) \<and> no_double_write is"

lemma history_exact_ports [simp]:
  "history_exact (s\<lparr> bu_delay := d \<rparr>) view = history_exact s view"
  "history_exact (s\<lparr> bu_results := r \<rparr>) view = history_exact s view"
  by (simp_all add: history_exact_def)

lemma port_cycle_history:
  assumes "port_cycle delays p i s = Some (s', out)" "history_exact s view" "\<forall>a \<in> overwritten_by i. mem_get (bu_mem s) a = view a"
  shows "history_exact s' view" "a \<notin> overwritten_by i \<Longrightarrow> mem_get (bu_mem s') a = mem_get (bu_mem s) a"
proof -
  obtain t where t: "bu_mem t = bu_mem s" "bu_history t = bu_history s"
    "s' = t \<or> (\<exists>q r t'. pi_send i = Some q \<and> handle_request q t = Some (r, t') \<and>
       bu_mem s' = bu_mem t' \<and> bu_history s' = bu_history t')"
  proof
    let ?t = "(let s = cl_delay p s in if recv_rdy p s \<and> pi_recv i then snd (bus_recv p s) else s)"
    show "bu_mem ?t = bu_mem s" "bu_history ?t = bu_history s"
      by (simp_all add: Let_def cl_delay_def bus_recv_def)
    show "s' = ?t \<or> (\<exists>q r t'. pi_send i = Some q \<and> handle_request q ?t = Some (r, t') \<and>
       bu_mem s' = bu_mem t' \<and> bu_history s' = bu_history t')"
      using assms(1)
      by (auto simp: port_cycle_def Let_def bus_send_def case_prod_beta bus_recv_def split: option.splits if_splits)
  qed
  have "history_exact t view" using assms(2) t(1,2) by (simp add: history_exact_def)
  then show "history_exact s' view" "a \<notin> overwritten_by i \<Longrightarrow> mem_get (bu_mem s') a = mem_get (bu_mem s) a"
    using t assms(3) handle_request_history(1) [of _ t _ _ view] handle_request_history(2) [of _ t _ _ view a]
    by (auto simp: overwritten_by_def history_exact_def)
qed

lemma ports_cycle_history:
  "ports_cycle delays p is s = Some (s', outs) \<Longrightarrow> history_exact s view \<Longrightarrow> no_double_write is \<Longrightarrow>
   \<forall>i \<in> set is. \<forall>a \<in> overwritten_by i. mem_get (bu_mem s) a = view a \<Longrightarrow> history_exact s' view"
proof (induction "is" arbitrary: p s outs)
  case (Cons i "is")
  from Cons.prems(1) obtain t out outs' where t: "port_cycle delays p i s = Some (t, out)"
    "ports_cycle delays (Suc p) is t = Some (s', outs')"
    by (auto split: option.splits)
  note step = port_cycle_history [OF t(1) Cons.prems(2)]
  have "\<forall>a \<in> overwritten_by i. mem_get (bu_mem s) a = view a" using Cons.prems(4) by simp
  note step = step [OF this]
  have "mem_get (bu_mem t) a = view a" if "j \<in> set is" "a \<in> overwritten_by j" for j a
    using that step(2) [of a] Cons.prems(3,4) by fastforce
  then show ?case using Cons.IH [OF t(2) step(1)] Cons.prems(3) by simp
qed simp

text \<open>Two states that agree on the ports and on every byte behave alike.\<close>

definition same_bus :: "bus \<Rightarrow> bus \<Rightarrow> bool" where
  "same_bus s t \<longleftrightarrow> bu_delay s = bu_delay t \<and> bu_results s = bu_results t \<and> mem_get (bu_mem s) = mem_get (bu_mem t) \<and>
     (bu_history s = None \<longleftrightarrow> bu_history t = None)"

lemma bus_write_same:
  "same_bus s t \<Longrightarrow> rel_option same_bus (bus_write q d s) (bus_write q d t)"
  using write_bytes_view [of "bu_mem s" "bu_mem t" "uint (rq_addr q)" d "nbytes_of (rq_len q)"]
  by (auto simp: bus_write_def same_bus_def split: option.splits prod.splits) (metis snd_conv)+

lemma handle_request_same:
  assumes "same_bus s t"
  shows "rel_option (rel_prod (=) same_bus) (handle_request q s) (handle_request q t)"
proof -
  have "read_bytes (bu_mem s) a n = read_bytes (bu_mem t) a n" for a n
    using assms by (intro read_bytes_view) (simp add: same_bus_def)
  moreover have "rel_option (rel_prod (=) same_bus) (map_option (Pair r) (bus_write q d s)) (map_option (Pair r) (bus_write q d t))"
    for d and r :: bus_resp
    using bus_write_same [OF assms, of q d] by (simp add: option.rel_map rel_prod_inject)
  ultimately show ?thesis using assms by (auto simp: handle_request_def Let_def split: option.splits)
qed

lemma port_cycle_same:
  assumes "same_bus s t"
  shows "rel_option (rel_prod same_bus (=)) (port_cycle delays p i s) (port_cycle delays p i t)"
proof -
  have d: "same_bus (cl_delay p s) (cl_delay p t)" using assms by (simp add: same_bus_def cl_delay_def)
  have r: "fst (bus_recv p s) = fst (bus_recv p t)" "same_bus (snd (bus_recv p s)) (snd (bus_recv p t))"
    if "same_bus s t" for s t
    using that by (simp_all add: same_bus_def bus_recv_def)
  have b: "rel_option same_bus (bus_send delays p q s) (bus_send delays p q t)" if "same_bus s t" for q s t
    using handle_request_same [OF that, of q]
    by (cases "handle_request q s"; cases "handle_request q t")
      (auto simp: bus_send_def same_bus_def split: prod.splits)
  have m: "rel_option (rel_prod same_bus (=)) (map_option (\<lambda>s. (s, out)) (bus_send delays p q s))
      (map_option (\<lambda>s. (s, out)) (bus_send delays p q t))" if "same_bus s t" for q s t and out :: port_out
    using b [OF that, of q] by (simp add: option.rel_map)
  have g: "recv_rdy p (cl_delay p s) = recv_rdy p (cl_delay p t)" "send_rdy p s = send_rdy p t" if "same_bus s t" for s t
    using that by (simp_all add: recv_rdy_def send_rdy_def same_bus_def cl_delay_def)
  show ?thesis
    using d r [OF d] g [OF assms] g(2) [OF d] g(2) [OF r(2) [OF d]] m [OF d] m [OF r(2) [OF d]]
    by (cases "recv_rdy p (cl_delay p t)"; cases "pi_recv i"; cases "pi_send i")
      (simp_all add: port_cycle_def Let_def case_prod_beta)
qed

lemma ports_cycle_same:
  "same_bus s t \<Longrightarrow> rel_option (rel_prod same_bus (=)) (ports_cycle delays p is s) (ports_cycle delays p is t)"
proof (induction "is" arbitrary: p s t)
  case (Cons i "is")
  from port_cycle_same [OF Cons.prems, of delays p i] show ?case
  proof (cases rule: option.rel_cases)
    case (Some x y)
    obtain s' t' out where xy: "x = (s', out)" "y = (t', out)" "same_bus s' t'"
      using Some(3) by (cases x; cases y) auto
    from Cons.IH [OF xy(3), of "Suc p"] show ?thesis
      by (cases rule: option.rel_cases) (auto simp: Some xy)
  qed simp
qed simp

section \<open>Properties\<close>

text \<open>The evaluations of a cycle that are undone again.\<close>

fun bus_evaluations :: "int list \<Rightarrow> bus \<Rightarrow> port_in list list \<Rightarrow> bus \<Rightarrow> bus option" where
  "bus_evaluations delays saved [] s = Some s"
| "bus_evaluations delays saved (is # rest) s =
     (case bus_cycle delays is s of
        None \<Rightarrow> None
      | Some (s', outs) \<Rightarrow> bus_evaluations delays saved rest (bus_restore saved s'))"

lemma restored_same:
  assumes "bus_cycle delays is s = Some (s', outs)" "no_double_write is" "same_bus s saved" "history_exact s view"
    "mem_get (bu_mem saved) = view"
  shows "same_bus (bus_restore saved s') saved \<and> history_exact (bus_restore saved s') view"
proof -
  have "mem_get (bu_mem s) = view" using assms(3,5) by (simp add: same_bus_def)
  then have "history_exact s' view"
    using ports_cycle_history [OF assms(1) [unfolded bus_cycle_def] assms(4,2)] by simp
  moreover have "bu_history saved \<noteq> None" using assms(3,4) by (auto simp: same_bus_def history_exact_def)
  moreover have "m ++ h ++ h = m ++ h" for m h :: byte_map
    by (rule ext) (simp add: map_add_def split: option.split)
  ultimately show ?thesis
    using assms(5) by (auto simp: same_bus_def history_exact_def bus_restore_def)
qed

text \<open>C34: The bus can be evaluated any number of times within a cycle: however many evaluations are tried and undone, on
  whatever inputs, the next one has the answers and the state it would have had alone, as long as no evaluation writes a
  byte twice.\<close>

theorem bus_evaluations_undone:
  assumes "list_all no_double_write evals" "bus_evaluations delays (bus_snapshot s) evals (bus_snapshot s) = Some s'"
  shows "rel_option (rel_prod same_bus (=)) (bus_cycle delays is s') (bus_cycle delays is (bus_snapshot s))"
proof -
  have "same_bus s' (bus_snapshot s)"
    if "same_bus t (bus_snapshot s)" "history_exact t (mem_get (bu_mem s))"
      "bus_evaluations delays (bus_snapshot s) evals t = Some s'" for t
    using assms(1) that
  proof (induction evals arbitrary: t)
    case (Cons e evals)
    from Cons.prems(4) obtain t' outs where t': "bus_cycle delays e t = Some (t', outs)"
      "bus_evaluations delays (bus_snapshot s) evals (bus_restore (bus_snapshot s) t') = Some s'"
      by (auto split: option.splits)
    have "mem_get (bu_mem (bus_snapshot s)) = mem_get (bu_mem s)" by (simp add: bus_snapshot_def)
    with restored_same [OF t'(1) _ Cons.prems(2,3)] Cons.prems(1) t'(2) show ?case by (intro Cons.IH) simp_all
  qed simp
  moreover have "same_bus (bus_snapshot s) (bus_snapshot s)" "history_exact (bus_snapshot s) (mem_get (bu_mem s))"
    by (simp_all add: same_bus_def history_exact_def bus_snapshot_def)
  ultimately show ?thesis using assms(2) ports_cycle_same unfolding bus_cycle_def by blast
qed

text \<open>C28: The bus is a byte memory: after a write a read of any other place and length gives, byte by byte, what was written
  there or else what was there before, and zeros above the bytes asked for. A length of zero means all eight bytes.\<close>

theorem bus_read_after_write:
  assumes "rq_type w = mem_write" "rq_type r = mem_read"
    and "handle_request w s = Some (a, s')" "handle_request r s' = Some (b, s'')" "j < 8"
  shows "get_slice (8 * j) (rp_data b) =
    (let at = uint (rq_addr r) + int j; start = uint (rq_addr w) in
     if nbytes_of (rq_len r) \<le> j then 0
     else if start \<le> at \<and> at < start + int (nbytes_of (rq_len w)) then get_slice (8 * nat (at - start)) (rq_data w)
     else mem_get (bu_mem s) at)"
proof -
  have "bus_write w (rq_data w) s = Some s'"
    using assms(1,3) by (auto simp: handle_request_def Let_def mem_types_differ [symmetric])
  then have mem: "mem_get (bu_mem s') k =
      (if uint (rq_addr w) \<le> k \<and> k < uint (rq_addr w) + int (nbytes_of (rq_len w))
       then get_slice (8 * nat (k - uint (rq_addr w))) (rq_data w) else mem_get (bu_mem s) k)" for k
    using write_bytes_at [of "uint (rq_addr w)" "rq_data w" "nbytes_of (rq_len w)" "the (bu_history s)" "bu_mem s" k]
    by (auto simp: bus_write_def mem_get_def split: option.splits prod.splits)
  have b: "rp_data b = read_bytes (bu_mem s') (uint (rq_addr r)) (nbytes_of (rq_len r))"
    using assms(2,4) by (auto simp: handle_request_def resp_mk_rd_def Let_def)
  have "get_slice (8 * j) (rp_data b) = (if nbytes_of (rq_len r) \<le> j then 0 else mem_get (bu_mem s') (uint (rq_addr r) + int j))"
    by (rule bit_word_eqI) (auto simp: b bit_get_slice read_bytes_upto nbytes_of_le)
  then show ?thesis by (simp add: mem Let_def)
qed

text \<open>A run of the bus, one list of port inputs per cycle.\<close>

fun bus_run :: "int list \<Rightarrow> bus \<Rightarrow> port_in list list \<Rightarrow> (bus \<times> port_out list list) option" where
  "bus_run delays s [] = Some (s, [])"
| "bus_run delays s (is # rest) =
     (case bus_cycle delays is s of
        None \<Rightarrow> None
      | Some (s, outs) \<Rightarrow> map_option (\<lambda>(s, rest). (s, outs # rest)) (bus_run delays s rest))"

text \<open>A port waits for an answer: the counter of cycles left and the answer.\<close>

definition waiting :: "nat \<Rightarrow> nat \<Rightarrow> bus_resp \<Rightarrow> bus \<Rightarrow> bool" where
  "waiting p c r s \<longleftrightarrow> p < length (bu_delay s) \<and> p < length (bu_results s) \<and> bu_delay s ! p = int c \<and> bu_results s ! p = Some r"

lemma handle_request_ports:
  "handle_request q s = Some (r, s') \<Longrightarrow> bu_delay s' = bu_delay s \<and> bu_results s' = bu_results s"
  by (auto simp: handle_request_def Let_def dest: bus_write_frame(1,2) split: if_splits option.splits)

lemma port_cycle_other:
  "port_cycle delays p' i s = Some (s', out) \<Longrightarrow> p' \<noteq> p \<Longrightarrow> waiting p c r s \<Longrightarrow> waiting p c r s'"
  by (auto simp: port_cycle_def Let_def waiting_def cl_delay_def bus_recv_def bus_send_def dest!: handle_request_ports
      split: option.splits if_splits)

lemma port_cycle_waiting:
  assumes "port_cycle delays p i s = Some (s', out)" "waiting p c r s"
  shows "po_recv_rdy out = (c \<le> 1) \<and> po_msg out = (if c \<le> 1 \<and> pi_recv i then Some r else None) \<and>
    po_send_rdy out = (c \<le> 1 \<and> pi_recv i) \<and> (\<not> pi_recv i \<longrightarrow> waiting p (c - 1) r s')"
proof -
  have w: "waiting p (c - 1) r (cl_delay p s)"
    using assms(2) by (auto simp: waiting_def cl_delay_def)
  then have "recv_rdy p (cl_delay p s) = (c \<le> 1)" "\<not> send_rdy p (cl_delay p s)"
    "send_rdy p (snd (bus_recv p (cl_delay p s)))" "fst (bus_recv p (cl_delay p s)) = Some r"
    by (auto simp: waiting_def recv_rdy_def send_rdy_def bus_recv_def)
  with w assms(1) show ?thesis
    by (auto simp: port_cycle_def Let_def case_prod_beta split: option.splits if_splits)
qed

lemma ports_cycle_waiting:
  "ports_cycle delays b is s = Some (s', outs) \<Longrightarrow> waiting p c r s \<Longrightarrow> b \<le> p \<Longrightarrow> p < b + length is \<Longrightarrow>
   po_recv_rdy (outs ! (p - b)) = (c \<le> 1) \<and>
   po_msg (outs ! (p - b)) = (if c \<le> 1 \<and> pi_recv (is ! (p - b)) then Some r else None) \<and>
   po_send_rdy (outs ! (p - b)) = (c \<le> 1 \<and> pi_recv (is ! (p - b))) \<and>
   (\<not> pi_recv (is ! (p - b)) \<longrightarrow> waiting p (c - 1) r s')"
proof (induction "is" arbitrary: b s outs)
  case (Cons i "is")
  from Cons.prems(1) obtain t out outs' where t: "port_cycle delays b i s = Some (t, out)"
    "ports_cycle delays (Suc b) is t = Some (s', outs')" "outs = out # outs'"
    by (auto split: option.splits)
  show ?case
  proof (cases "b = p")
    case True
    have kept: "ports_cycle delays (Suc b') js t = Some (s', outs') \<Longrightarrow> p \<le> b' \<Longrightarrow> waiting p c' r t \<Longrightarrow> waiting p c' r s'"
      for b' js t outs' c'
    proof (induction js arbitrary: b' t outs')
      case (Cons j js)
      then show ?case by (auto split: option.splits dest: port_cycle_other [where p = p])
    qed simp
    show ?thesis
      using port_cycle_waiting [OF t(1) [unfolded True] Cons.prems(2)] kept [OF t(2)] True t(3) by auto
  next
    case False
    then have "waiting p c r t" using port_cycle_other [OF t(1) _ Cons.prems(2)] by simp
    from Cons.IH [OF t(2) this] False Cons.prems(3,4) show ?thesis
      by (simp add: t(3) nth_Cons' Suc_le_eq)
  qed
qed simp

text \<open>C35: A request that a port accepts is answered after the port's delay and not before, whatever the other ports do: its
  answer, computed when it was accepted, is offered from then on until it is taken, and the port accepts nothing in
  between. A delay of zero is a delay of one cycle.\<close>

theorem bus_answers_after_delay:
  assumes send: "bus_send delays p q start = Some s" "handle_request q start = Some (r, t)"
    and port: "p < length (bu_delay start)" "p < length (bu_results start)" "delays ! p = int d"
    and run: "bus_run delays s ins = Some (s', outs)" "list_all (\<lambda>is. p < length is) ins"
    and k: "k < length ins" "\<forall>j < k. \<not> pi_recv (ins ! j ! p)"
  shows "po_recv_rdy (outs ! k ! p) = (d \<le> k + 1) \<and>
    po_msg (outs ! k ! p) = (if d \<le> k + 1 \<and> pi_recv (ins ! k ! p) then Some r else None) \<and>
    po_send_rdy (outs ! k ! p) = (d \<le> k + 1 \<and> pi_recv (ins ! k ! p))"
proof -
  have "waiting p d r s"
    using send port handle_request_ports [OF send(2)] by (auto simp: bus_send_def waiting_def)
  then show ?thesis using run k
  proof (induction ins arbitrary: s outs k d)
    case (Cons "is" ins)
    from Cons.prems(2) obtain u out outs' where u: "bus_cycle delays is s = Some (u, out)"
      "bus_run delays u ins = Some (s', outs')" "outs = out # outs'"
      by (auto split: option.splits)
    have p: "p < length is" using Cons.prems(3) by simp
    note step = ports_cycle_waiting [OF u(1) [unfolded bus_cycle_def] Cons.prems(1), simplified, OF p]
    show ?case
    proof (cases k)
      case 0
      then show ?thesis using step by (simp add: u(3))
    next
      case (Suc n)
      then have "\<not> pi_recv (is ! p)" "\<forall>j < n. \<not> pi_recv (ins ! j ! p)" using Cons.prems(5) by auto
      then have "po_recv_rdy (outs' ! n ! p) = (d - 1 \<le> n + 1) \<and>
          po_msg (outs' ! n ! p) = (if d - 1 \<le> n + 1 \<and> pi_recv (ins ! n ! p) then Some r else None) \<and>
          po_send_rdy (outs' ! n ! p) = (d - 1 \<le> n + 1 \<and> pi_recv (ins ! n ! p))"
        using step u(2) Cons.prems(3,4) Suc by (intro Cons.IH) auto
      then show ?thesis by (simp add: u(3) Suc le_diff_conv)
    qed
  qed simp
qed

section \<open>Witnesses\<close>

definition idle_port :: port_in where "idle_port = \<lparr> pi_recv = False, pi_send = None \<rparr>"

definition store_two :: bus_req where
  "store_two = \<lparr> rq_type = mem_write, rq_opaque = 0, rq_addr = 16, rq_len = 2, rq_data = 0x0201 \<rparr>"

definition load_all :: bus_req where
  "load_all = \<lparr> rq_type = mem_read, rq_opaque = 1, rq_addr = 15, rq_len = 0, rq_data = 0 \<rparr>"

definition two_ports :: bus where "two_ports = bus_snapshot (bus_reset 2 [15 \<mapsto> 7])"

lemmas bus_eval = two_ports_def bus_snapshot_def bus_reset_def store_two_def load_all_def idle_port_def
  handle_request_def bus_write_def write_bytes_def write_byte_def nbytes_of_def resp_mk_wr_def resp_mk_rd_def
  mem_read_def mem_write_def bus_cycle_def port_cycle_def cl_delay_def recv_rdy_def bus_recv_def send_rdy_def
  bus_send_def Let_def

lemma bus_read_after_write_witness:
  "\<exists>a s' b s''. handle_request store_two two_ports = Some (a, s') \<and> handle_request load_all s' = Some (b, s'') \<and>
     get_slice (8 * 2) (rp_data b) = (2 :: 8 word)"
proof -
  obtain a s' where w: "handle_request store_two two_ports = Some (a, s')"
    by (simp add: handle_request_def bus_write_def two_ports_def bus_snapshot_def store_two_def mem_read_def mem_write_def
        Let_def case_prod_beta)
  obtain b s'' where r: "handle_request load_all s' = Some (b, s'')"
    by (simp add: handle_request_def load_all_def Let_def)
  have "get_slice (8 * 1) (0x0201 :: 64 word) = (2 :: 8 word)" by (simp add: get_slice_def)
  then have "get_slice (8 * 2) (rp_data b) = (2 :: 8 word)"
    using bus_read_after_write [OF _ _ w r, of 2]
    by (simp add: store_two_def load_all_def nbytes_of_def)
  with w r show ?thesis by blast
qed

lemma bus_run_idle: "\<exists>s' outs. bus_run delays s (replicate n [idle_port, idle_port]) = Some (s', outs)"
proof (induction n arbitrary: s)
  case (Suc n)
  obtain t out where "bus_cycle delays [idle_port, idle_port] s = Some (t, out)"
    by (auto simp: bus_cycle_def port_cycle_def idle_port_def Let_def split: prod.splits)
  with Suc [of t] show ?case by auto
qed simp

lemma bus_send_example: "\<exists>s r t. bus_send [0, 3] 1 store_two two_ports = Some s \<and> handle_request store_two two_ports = Some (r, t)"
  by (simp add: bus_send_def handle_request_def bus_write_def two_ports_def bus_snapshot_def store_two_def mem_read_def
      mem_write_def Let_def case_prod_beta)

lemma bus_answers_after_delay_witness:
  "\<exists>s s' outs. bus_send [0, 3] 1 store_two two_ports = Some s \<and>
     bus_run [0, 3] s (replicate 3 [idle_port, idle_port]) = Some (s', outs) \<and>
     po_recv_rdy (outs ! 2 ! 1) \<and> \<not> po_recv_rdy (outs ! 1 ! 1)"
proof -
  obtain s r t where send: "bus_send [0, 3] 1 store_two two_ports = Some s" "handle_request store_two two_ports = Some (r, t)"
    using bus_send_example by blast
  obtain s' outs where run: "bus_run [0, 3] s (replicate 3 [idle_port, idle_port]) = Some (s', outs)"
    using bus_run_idle by blast
  have "po_recv_rdy (outs ! k ! 1) = (3 \<le> k + 1)" if "k < 3" for k
    using bus_answers_after_delay [OF send _ _ _ run, of 3 k] that
    by (simp add: two_ports_def bus_snapshot_def bus_reset_def idle_port_def list_all_iff)
  from this [of 1] this [of 2] send run show ?thesis by auto
qed

lemma bus_evaluations_undone_witness:
  "\<exists>s'. bus_evaluations [0, 3] two_ports [[idle_port, idle_port\<lparr> pi_send := Some store_two \<rparr>]] two_ports = Some s' \<and>
     rel_option (rel_prod same_bus (=)) (bus_cycle [0, 3] [idle_port, idle_port\<lparr> pi_send := Some load_all \<rparr>] s')
       (bus_cycle [0, 3] [idle_port, idle_port\<lparr> pi_send := Some load_all \<rparr>] two_ports)"
proof -
  let ?e = "[idle_port, idle_port\<lparr> pi_send := Some store_two \<rparr>]"
  obtain t outs where "bus_cycle [0, 3] ?e two_ports = Some (t, outs)"
    by (auto simp: bus_cycle_def port_cycle_def idle_port_def Let_def bus_send_def handle_request_def bus_write_def
        two_ports_def bus_snapshot_def bus_reset_def store_two_def mem_read_def mem_write_def case_prod_beta cl_delay_def
        recv_rdy_def send_rdy_def)
  then have run: "bus_evaluations [0, 3] two_ports [?e] two_ports = Some (bus_restore two_ports t)" by simp
  have "list_all no_double_write [?e]" by (simp add: overwritten_by_def idle_port_def)
  from bus_evaluations_undone [OF this run [unfolded two_ports_def], of "[idle_port, idle_port\<lparr> pi_send := Some load_all \<rparr>]"]
  show ?thesis using run unfolding two_ports_def by blast
qed

text \<open>Without that condition it fails: of two writes to one byte the history keeps what the first one left.\<close>

definition store_one :: bus_req where
  "store_one = \<lparr> rq_type = mem_write, rq_opaque = 0, rq_addr = 16, rq_len = 1, rq_data = 1 \<rparr>"

lemma bus_double_write_not_undone:
  "\<exists>s'. bus_evaluations [0, 0] two_ports
       [[idle_port\<lparr> pi_send := Some store_one \<rparr>, idle_port\<lparr> pi_send := Some (store_one\<lparr> rq_data := 2 \<rparr>) \<rparr>]] two_ports = Some s' \<and>
     mem_get (bu_mem two_ports) 16 = 0 \<and> mem_get (bu_mem s') 16 = 1"
  by (simp add: bus_eval store_one_def bus_restore_def mem_get_def get_slice_def)

end
