(* ===== verification/Elf.thy ===== *)
theory Elf
  imports Prelude
begin

text \<open>
  The ELF reader and writer of \<open>lizard/util/elf.py\<close> and the memory image of
  \<open>lizard/util/sparse_memory_image.py\<close>. A byte string is a list of 8-bit words; \<open>struct.pack\<close> and
  \<open>struct.unpack\<close> are modelled for the little-endian formats the file uses, with \<open>None\<close> for the
  \<open>struct.error\<close> of a value or a length that does not fit. Any other exception is \<open>None\<close> too.
\<close>

section \<open>Packing\<close>

type_synonym bytes = "8 word list"

fun le_bytes :: "nat \<Rightarrow> int \<Rightarrow> bytes" where
  "le_bytes 0 n = []"
| "le_bytes (Suc w) n = word_of_int n # le_bytes w (n div 256)"

fun le_value :: "bytes \<Rightarrow> int" where
  "le_value [] = 0"
| "le_value (b # bs) = uint b + 256 * le_value bs"

text \<open>\<open>16s\<close> is \<open>Chars 16\<close>; \<open>B\<close>, \<open>H\<close>, \<open>I\<close> and \<open>Q\<close> are unsigned integers of 1, 2, 4 and 8 bytes.\<close>

datatype format_item = Chars nat | Unsigned nat

datatype field = Str bytes | Num int

fun item_size :: "format_item \<Rightarrow> nat" where
  "item_size (Chars n) = n"
| "item_size (Unsigned n) = n"

definition calcsize :: "format_item list \<Rightarrow> nat" where
  "calcsize fmt = sum_list (map item_size fmt)"

text \<open>A string is cut or filled with zero bytes to its width.\<close>

fun pack_item :: "format_item \<Rightarrow> field \<Rightarrow> bytes option" where
  "pack_item (Chars n) (Str s) = Some (take n (s @ replicate n 0))"
| "pack_item (Unsigned w) (Num k) = (if 0 \<le> k \<and> k < 256 ^ w then Some (le_bytes w k) else None)"
| "pack_item _ _ = None"

fun struct_pack :: "format_item list \<Rightarrow> field list \<Rightarrow> bytes option" where
  "struct_pack [] [] = Some []"
| "struct_pack (f # fs) (v # vs) = do { b \<leftarrow> pack_item f v; bs \<leftarrow> struct_pack fs vs; Some (b @ bs) }"
| "struct_pack _ _ = None"

fun unpack_item :: "format_item \<Rightarrow> bytes \<Rightarrow> field" where
  "unpack_item (Chars n) bs = Str bs"
| "unpack_item (Unsigned w) bs = Num (le_value bs)"

fun unpack_items :: "format_item list \<Rightarrow> bytes \<Rightarrow> field list" where
  "unpack_items [] bs = []"
| "unpack_items (f # fs) bs = unpack_item f (take (item_size f) bs) # unpack_items fs (drop (item_size f) bs)"

definition struct_unpack :: "format_item list \<Rightarrow> bytes \<Rightarrow> field list option" where
  "struct_unpack fmt bs = (if length bs = calcsize fmt then Some (unpack_items fmt bs) else None)"

section \<open>Headers\<close>

definition ehdr_format :: "bool \<Rightarrow> format_item list" where
  "ehdr_format is_64bit =
     (let a = (if is_64bit then 8 else 4)
      in [Chars 16, Unsigned 2, Unsigned 2, Unsigned 4, Unsigned a, Unsigned a, Unsigned a, Unsigned 4, Unsigned 2, Unsigned 2,
          Unsigned 2, Unsigned 2, Unsigned 2, Unsigned 2])"

record elf_header =
  eh_ident :: bytes
  eh_type :: int
  eh_machine :: int
  eh_version :: int
  eh_entry :: int
  eh_phoff :: int
  eh_shoff :: int
  eh_flags :: int
  eh_ehsize :: int
  eh_phentsize :: int
  eh_phnum :: int
  eh_shentsize :: int
  eh_shnum :: int
  eh_shstrndx :: int

text \<open>An object built from no data has no attributes: reading one raises, which is \<open>None\<close> here.\<close>

definition ehdr_from_bytes :: "bool \<Rightarrow> bytes \<Rightarrow> elf_header option" where
  "ehdr_from_bytes is_64bit data =
     (if data = [] then None
      else case struct_unpack (ehdr_format is_64bit) data of
        Some [Str a, Num b, Num c, Num d, Num e, Num f, Num g, Num h, Num i, Num j, Num k, Num l, Num m, Num n] \<Rightarrow>
          Some \<lparr> eh_ident = a, eh_type = b, eh_machine = c, eh_version = d, eh_entry = e, eh_phoff = f, eh_shoff = g,
                 eh_flags = h, eh_ehsize = i, eh_phentsize = j, eh_phnum = k, eh_shentsize = l, eh_shnum = m,
                 eh_shstrndx = n \<rparr>
      | _ \<Rightarrow> None)"

definition ehdr_to_bytes :: "elf_header \<Rightarrow> bytes option" where
  "ehdr_to_bytes h =
     struct_pack (ehdr_format False)
       [Str (eh_ident h), Num (eh_type h), Num (eh_machine h), Num (eh_version h), Num (eh_entry h), Num (eh_phoff h),
        Num (eh_shoff h), Num (eh_flags h), Num (eh_ehsize h), Num (eh_phentsize h), Num (eh_phnum h),
        Num (eh_shentsize h), Num (eh_shnum h), Num (eh_shstrndx h)]"

definition shdr_format :: "bool \<Rightarrow> format_item list" where
  "shdr_format is_64bit =
     (if is_64bit
      then [Unsigned 4, Unsigned 4, Unsigned 8, Unsigned 8, Unsigned 8, Unsigned 8, Unsigned 4, Unsigned 4, Unsigned 8, Unsigned 8]
      else [Unsigned 4, Unsigned 4, Unsigned 4, Unsigned 4, Unsigned 4, Unsigned 4, Unsigned 4, Unsigned 4, Unsigned 4, Unsigned 4])"

record section_header =
  sh_name :: int
  sh_type :: int
  sh_flags :: int
  sh_addr :: int
  sh_offset :: int
  sh_size :: int
  sh_link :: int
  sh_info :: int
  sh_addralign :: int
  sh_entsize :: int

definition shdr_from_bytes :: "bool \<Rightarrow> bytes \<Rightarrow> section_header option" where
  "shdr_from_bytes is_64bit data =
     (if data = [] then None
      else case struct_unpack (shdr_format is_64bit) data of
        Some [Num a, Num b, Num c, Num d, Num e, Num f, Num g, Num h, Num i, Num j] \<Rightarrow>
          Some \<lparr> sh_name = a, sh_type = b, sh_flags = c, sh_addr = d, sh_offset = e, sh_size = f, sh_link = g,
                 sh_info = h, sh_addralign = i, sh_entsize = j \<rparr>
      | _ \<Rightarrow> None)"

definition shdr_to_bytes :: "section_header \<Rightarrow> bytes option" where
  "shdr_to_bytes h =
     struct_pack (shdr_format False)
       [Num (sh_name h), Num (sh_type h), Num (sh_flags h), Num (sh_addr h), Num (sh_offset h), Num (sh_size h),
        Num (sh_link h), Num (sh_info h), Num (sh_addralign h), Num (sh_entsize h)]"

record symtab_entry =
  st_name :: int
  st_value :: int
  st_size :: int
  st_info :: int
  st_other :: int
  st_shndx :: int

definition symtab_format :: "format_item list" where
  "symtab_format = [Unsigned 4, Unsigned 4, Unsigned 4, Unsigned 1, Unsigned 1, Unsigned 2]"

definition symtab_from_bytes :: "bytes \<Rightarrow> symtab_entry option" where
  "symtab_from_bytes data =
     (if data = [] then None
      else case struct_unpack symtab_format data of
        Some [Num a, Num b, Num c, Num d, Num e, Num f] \<Rightarrow>
          Some \<lparr> st_name = a, st_value = b, st_size = c, st_info = d, st_other = e, st_shndx = f \<rparr>
      | _ \<Rightarrow> None)"

definition symtab_to_bytes :: "symtab_entry \<Rightarrow> bytes option" where
  "symtab_to_bytes e =
     struct_pack symtab_format
       [Num (st_name e), Num (st_value e), Num (st_size e), Num (st_info e), Num (st_other e), Num (st_shndx e)]"

definition SHT_PROGBITS :: int where "SHT_PROGBITS = 1"
definition SHT_SYMTAB :: int where "SHT_SYMTAB = 2"
definition SHT_STRTAB :: int where "SHT_STRTAB = 3"
definition SHF_ALLOC :: int where "SHF_ALLOC = 2"
definition ET_EXEC :: int where "ET_EXEC = 2"

section \<open>The memory image\<close>

text \<open>A dictionary from names to an address and data; the writer iterates over it in some order.\<close>

type_synonym image = "bytes \<rightharpoonup> int \<times> bytes"

definition ascii :: "string \<Rightarrow> bytes" where
  "ascii s = map (\<lambda>c. of_nat (of_char c)) s"

definition add_section :: "image \<Rightarrow> bytes \<Rightarrow> int \<Rightarrow> bytes \<Rightarrow> image" where
  "add_section m name addr data = m(name \<mapsto> (addr, data))"

section \<open>The reader\<close>

text \<open>\<open>file_obj.seek\<close> followed by \<open>read\<close>, which stops at the end of the file.\<close>

definition file_read :: "bytes \<Rightarrow> int \<Rightarrow> int \<Rightarrow> bytes" where
  "file_read file pos n = take (nat n) (drop (nat pos) file)"

definition cstring :: "bytes \<Rightarrow> bytes" where
  "cstring s = takeWhile (\<lambda>b. b \<noteq> 0) s"

definition read_section :: "bool \<Rightarrow> bytes \<Rightarrow> elf_header \<Rightarrow> bytes \<Rightarrow> image \<Rightarrow> nat \<Rightarrow> image option" where
  "read_section is_64bit file ehdr shstrtab m idx =
     (let raw = file_read file (eh_shoff ehdr + int idx * eh_shentsize ehdr) (eh_shentsize ehdr);
          padded = raw @ replicate (calcsize (shdr_format is_64bit) - length raw) 0
      in do {
        shdr \<leftarrow> shdr_from_bytes is_64bit padded;
        let name = cstring (drop (nat (sh_name shdr)) shstrtab);
        if and (sh_flags shdr) SHF_ALLOC = 0 then Some m
        else
          let data = (if name \<in> set [ascii ''.sbss'', ascii ''.bss''] then replicate (nat (sh_size shdr)) 0
                      else file_read file (sh_offset shdr) (sh_size shdr))
          in if sh_type shdr = SHT_STRTAB \<or> sh_type shdr = SHT_SYMTAB then Some m
             else Some (add_section m name (sh_addr shdr) data) })"

fun read_sections :: "bool \<Rightarrow> bytes \<Rightarrow> elf_header \<Rightarrow> bytes \<Rightarrow> nat list \<Rightarrow> image \<Rightarrow> image option" where
  "read_sections is_64bit file ehdr shstrtab [] m = Some m"
| "read_sections is_64bit file ehdr shstrtab (k # ks) m =
     do { m \<leftarrow> read_section is_64bit file ehdr shstrtab m k; read_sections is_64bit file ehdr shstrtab ks m }"

definition elf_magic :: bytes where "elf_magic = [0x7f, 0x45, 0x4c, 0x46]"

definition elf_reader :: "bool \<Rightarrow> bytes \<Rightarrow> image option" where
  "elf_reader is_64bit file = do {
     ehdr \<leftarrow> ehdr_from_bytes is_64bit (file_read file 0 (int (calcsize (ehdr_format is_64bit))));
     if take 4 (eh_ident ehdr) \<noteq> elf_magic then None
     else do {
       shdr \<leftarrow> shdr_from_bytes is_64bit
         (file_read file (eh_shoff ehdr + eh_shstrndx ehdr * eh_shentsize ehdr) (eh_shentsize ehdr));
       let shstrtab = file_read file (sh_offset shdr) (sh_size shdr);
       read_sections is_64bit file ehdr shstrtab [0..<nat (eh_shnum ehdr)] Map.empty } }"

section \<open>The writer\<close>

definition zero_shdr :: section_header where
  "zero_shdr = \<lparr> sh_name = 0, sh_type = 0, sh_flags = 0, sh_addr = 0, sh_offset = 0, sh_size = 0, sh_link = 0,
     sh_info = 0, sh_addralign = 0, sh_entsize = 0 \<rparr>"

definition writer_ehdr :: "nat \<Rightarrow> elf_header" where
  "writer_ehdr n =
     \<lparr> eh_ident = elf_magic @ [1, 1, 1] @ replicate 9 0, eh_type = ET_EXEC, eh_machine = 8, eh_version = 1,
       eh_entry = 0x1000, eh_phoff = 0, eh_shoff = int (calcsize (ehdr_format False)), eh_flags = 0x70b03000,
       eh_ehsize = 0, eh_phentsize = 0, eh_phnum = 0, eh_shentsize = int (calcsize (shdr_format False)),
       eh_shnum = int n + 2, eh_shstrndx = int n + 1 \<rparr>"

text \<open>The loop over the sections: the bytes written, the names collected and the offset of the next data.\<close>

fun write_headers ::
  "(bytes \<times> int \<times> bytes) list \<Rightarrow> bytes \<Rightarrow> int \<Rightarrow> (bytes \<times> bytes \<times> int) option" where
  "write_headers [] names off = Some ([], names, off)"
| "write_headers ((name, addr, data) # sections) names off = do {
     h \<leftarrow> shdr_to_bytes (zero_shdr\<lparr> sh_name := int (length names), sh_type := SHT_PROGBITS, sh_flags := SHF_ALLOC,
            sh_addr := addr, sh_offset := off, sh_size := int (length data) \<rparr>);
     (hs, names, off) \<leftarrow> write_headers sections (names @ name @ [0]) (off + int (length data));
     Some (h @ hs, names, off) }"

definition elf_writer :: "(bytes \<times> int \<times> bytes) list \<Rightarrow> bytes option" where
  "elf_writer sections = do {
     let shdr_bytes = int (calcsize (shdr_format False));
     ehdr \<leftarrow> ehdr_to_bytes (writer_ehdr (length sections));
     null \<leftarrow> shdr_to_bytes zero_shdr;
     let off = int (calcsize (ehdr_format False)) + shdr_bytes + int (length sections) * shdr_bytes + 1 * shdr_bytes;
     (headers, names, off) \<leftarrow> write_headers sections [0] off;
     let all_names = names @ ascii ''.shstrtab'' @ [0];
     last \<leftarrow> shdr_to_bytes (zero_shdr\<lparr> sh_name := int (length names), sh_type := SHT_STRTAB, sh_offset := off,
              sh_size := int (length all_names) \<rparr>);
     Some (ehdr @ null @ headers @ last @ concat (map (\<lambda>(name, addr, data). data) sections) @ all_names) }"

section \<open>Packing and unpacking\<close>

lemma length_le_bytes [simp]: "length (le_bytes w n) = w"
  by (induction w n rule: le_bytes.induct) auto

lemma le_value_bytes: "0 \<le> n \<Longrightarrow> n < 256 ^ w \<Longrightarrow> le_value (le_bytes w n) = n"
proof (induction w n rule: le_bytes.induct)
  case (2 w n)
  have "n div 256 < 256 ^ w" using "2.prems" by (simp add: div_less_iff_less_mult)
  then have "le_value (le_bytes w (n div 256)) = n div 256" using "2.IH" "2.prems" by simp
  then show ?case by (simp add: uint_word_of_int)
qed simp

fun item_exact :: "format_item \<Rightarrow> field \<Rightarrow> bool" where
  "item_exact (Chars n) (Str s) = (length s = n)"
| "item_exact _ _ = True"

lemma pack_item_unpack:
  "pack_item f v = Some b \<Longrightarrow> item_exact f v \<Longrightarrow> length b = item_size f \<and> unpack_item f b = v"
  by (cases "(f, v)" rule: pack_item.cases) (auto simp: le_value_bytes split: if_splits)

lemma struct_pack_unpack:
  "struct_pack fmt vs = Some bs \<Longrightarrow> list_all2 item_exact fmt vs \<Longrightarrow> struct_unpack fmt bs = Some vs \<and> length bs = calcsize fmt"
proof (induction fmt vs arbitrary: bs rule: struct_pack.induct)
  case (2 f fs v vs)
  then obtain b cs where p: "pack_item f v = Some b" "struct_pack fs vs = Some cs" "bs = b @ cs"
    by (auto split: bind_splits)
  have "struct_unpack fs cs = Some vs \<and> length cs = calcsize fs"
    using "2.prems"(2) by (intro "2.IH" [OF p(1,2)]) simp
  moreover have "length b = item_size f \<and> unpack_item f b = v"
    using "2.prems"(2) by (intro pack_item_unpack [OF p(1)]) simp
  ultimately show ?case by (auto simp: struct_unpack_def calcsize_def p(3) split: if_splits)
qed (simp_all add: struct_unpack_def calcsize_def)

lemma calcsizes [simp]: "calcsize (ehdr_format False) = 52" "calcsize (shdr_format False) = 40"
  by (simp_all add: calcsize_def ehdr_format_def shdr_format_def)

lemma ehdr_roundtrip:
  assumes "ehdr_to_bytes h = Some b" "length (eh_ident h) = 16"
  shows "ehdr_from_bytes False b = Some h \<and> length b = 52"
proof -
  have "struct_unpack (ehdr_format False) b = Some [Str (eh_ident h), Num (eh_type h), Num (eh_machine h), Num (eh_version h),
      Num (eh_entry h), Num (eh_phoff h), Num (eh_shoff h), Num (eh_flags h), Num (eh_ehsize h), Num (eh_phentsize h),
      Num (eh_phnum h), Num (eh_shentsize h), Num (eh_shnum h), Num (eh_shstrndx h)] \<and>
      length b = calcsize (ehdr_format False)"
    using assms(2) by (intro struct_pack_unpack [OF assms(1) [unfolded ehdr_to_bytes_def]]) (simp add: ehdr_format_def)
  then show ?thesis by (auto simp: ehdr_from_bytes_def)
qed

lemma shdr_roundtrip:
  assumes "shdr_to_bytes h = Some b"
  shows "shdr_from_bytes False b = Some h \<and> length b = 40"
proof -
  have "struct_unpack (shdr_format False) b = Some [Num (sh_name h), Num (sh_type h), Num (sh_flags h), Num (sh_addr h),
      Num (sh_offset h), Num (sh_size h), Num (sh_link h), Num (sh_info h), Num (sh_addralign h), Num (sh_entsize h)] \<and>
      length b = calcsize (shdr_format False)"
    by (intro struct_pack_unpack [OF assms [unfolded shdr_to_bytes_def]]) (simp add: shdr_format_def)
  then show ?thesis by (auto simp: shdr_from_bytes_def)
qed

lemma symtab_roundtrip:
  assumes "symtab_to_bytes e = Some b"
  shows "symtab_from_bytes b = Some e \<and> length b = 16"
proof -
  have "struct_unpack symtab_format b = Some [Num (st_name e), Num (st_value e), Num (st_size e), Num (st_info e),
      Num (st_other e), Num (st_shndx e)] \<and> length b = calcsize symtab_format"
    by (intro struct_pack_unpack [OF assms [unfolded symtab_to_bytes_def]]) (simp add: symtab_format_def)
  then show ?thesis by (auto simp: symtab_from_bytes_def symtab_format_def calcsize_def)
qed

definition shdr_fits :: "section_header \<Rightarrow> bool" where
  "shdr_fits h \<longleftrightarrow>
     (\<forall>x\<in>{sh_name h, sh_type h, sh_flags h, sh_addr h, sh_offset h, sh_size h, sh_link h, sh_info h, sh_addralign h,
         sh_entsize h}. 0 \<le> x \<and> x < 2 ^ 32)"

lemma shdr_to_bytes_fits: "shdr_fits h \<Longrightarrow> \<exists>b. shdr_to_bytes h = Some b"
  by (simp add: shdr_fits_def shdr_to_bytes_def shdr_format_def)

lemma writer_ehdr_fits: "n + 2 < 2 ^ 16 \<Longrightarrow> \<exists>b. ehdr_to_bytes (writer_ehdr n) = Some b"
  by (simp add: ehdr_to_bytes_def writer_ehdr_def ET_EXEC_def) (simp add: ehdr_format_def)

section \<open>What the writer lays out\<close>

abbreviation hbytes :: "section_header \<Rightarrow> bytes" where
  "hbytes h \<equiv> the (shdr_to_bytes h)"

fun headers_of :: "(bytes \<times> int \<times> bytes) list \<Rightarrow> nat \<Rightarrow> int \<Rightarrow> section_header list" where
  "headers_of [] names off = []"
| "headers_of ((name, addr, data) # sections) names off =
     zero_shdr\<lparr> sh_name := int names, sh_type := SHT_PROGBITS, sh_flags := SHF_ALLOC, sh_addr := addr, sh_offset := off,
       sh_size := int (length data) \<rparr> # headers_of sections (names + length name + 1) (off + int (length data))"

definition all_names :: "(bytes \<times> int \<times> bytes) list \<Rightarrow> bytes" where
  "all_names sections = concat (map (\<lambda>s. fst s @ [0]) sections)"

definition all_data :: "(bytes \<times> int \<times> bytes) list \<Rightarrow> bytes" where
  "all_data sections = concat (map (\<lambda>s. snd (snd s)) sections)"

lemma all_Cons [simp]:
  "all_names ((name, addr, data) # sections) = name @ 0 # all_names sections" "all_names [] = []"
  "all_data ((name, addr, data) # sections) = data @ all_data sections" "all_data [] = []"
  by (simp_all add: all_names_def all_data_def)

lemma length_headers_of [simp]: "length (headers_of sections names off) = length sections"
  by (induction sections names off rule: headers_of.induct) auto

lemma write_headers_of:
  "list_all shdr_fits (headers_of sections (length names) off) \<Longrightarrow>
   write_headers sections names off =
     Some (concat (map hbytes (headers_of sections (length names) off)), names @ all_names sections,
           off + int (length (all_data sections)))"
proof (induction sections names off rule: write_headers.induct)
  case (2 name addr data sections names off)
  let ?h = "zero_shdr\<lparr> sh_name := int (length names), sh_type := SHT_PROGBITS, sh_flags := SHF_ALLOC, sh_addr := addr,
      sh_offset := off, sh_size := int (length data) \<rparr>"
  from "2.prems" obtain b where "shdr_to_bytes ?h = Some b" using shdr_to_bytes_fits [of ?h] by auto
  with 2 show ?case by simp
qed simp

lemma take_chunk:
  "\<forall>x\<in>set xs. length x = n \<Longrightarrow> k < length xs \<Longrightarrow> take n (drop (k * n) (concat xs @ ys)) = xs ! k"
proof (induction xs arbitrary: k)
  case (Cons x xs)
  then show ?case by (cases k) simp_all
qed simp

section \<open>Reading back what was written\<close>

text \<open>What a section header adds to the image, given the string table and the file.\<close>

definition load_section :: "bytes \<Rightarrow> bytes \<Rightarrow> section_header \<Rightarrow> image \<Rightarrow> image" where
  "load_section file shstrtab h m =
     (let name = cstring (drop (nat (sh_name h)) shstrtab) in
      if and (sh_flags h) SHF_ALLOC = 0 \<or> sh_type h = SHT_STRTAB \<or> sh_type h = SHT_SYMTAB then m
      else add_section m name (sh_addr h)
        (if name \<in> set [ascii ''.sbss'', ascii ''.bss''] then replicate (nat (sh_size h)) 0
         else file_read file (sh_offset h) (sh_size h)))"

lemma read_section_header:
  assumes "shdr_to_bytes h = Some b" "file_read file (eh_shoff ehdr + int k * eh_shentsize ehdr) (eh_shentsize ehdr) = b"
  shows "read_section False file ehdr shstrtab m k = Some (load_section file shstrtab h m)"
  using shdr_roundtrip [OF assms(1)] assms(2)
  by (simp add: read_section_def load_section_def Let_def)

lemma read_sections_headers:
  assumes "\<forall>k\<in>set ks. k < length hs \<and> (\<exists>b. shdr_to_bytes (hs ! k) = Some b \<and>
      file_read file (eh_shoff ehdr + int k * eh_shentsize ehdr) (eh_shentsize ehdr) = b)"
  shows "read_sections False file ehdr shstrtab ks m =
    Some (fold (load_section file shstrtab) (map ((!) hs) ks) m)"
  using assms
proof (induction ks arbitrary: m)
  case (Cons k ks)
  then obtain b where "shdr_to_bytes (hs ! k) = Some b"
    "file_read file (eh_shoff ehdr + int k * eh_shentsize ehdr) (eh_shentsize ehdr) = b" by auto
  from read_section_header [OF this] Cons show ?case by simp
qed simp

lemma cstring_append: "0 \<notin> set name \<Longrightarrow> cstring (name @ 0 # rest) = name"
  by (auto simp: cstring_def takeWhile_append takeWhile_eq_all_conv)

text \<open>A name is a C string; a section named for uninitialised data holds zero bytes.\<close>

definition section_ok :: "bytes \<times> int \<times> bytes \<Rightarrow> bool" where
  "section_ok s = (case s of (name, addr, data) \<Rightarrow>
     0 \<notin> set name \<and> (name \<in> set [ascii ''.sbss'', ascii ''.bss''] \<longrightarrow> data = replicate (length data) 0))"

lemma load_headers_of:
  "list_all section_ok sections \<Longrightarrow> 0 \<le> off \<Longrightarrow> drop (nat off) file = all_data sections @ rest \<Longrightarrow>
   drop names shstrtab = all_names sections @ rest' \<Longrightarrow>
   fold (load_section file shstrtab) (headers_of sections names off) m =
     fold (\<lambda>(name, addr, data) m. add_section m name addr data) sections m"
proof (induction sections names off arbitrary: m rule: headers_of.induct)
  case (2 name addr data sections names off)
  let ?h = "zero_shdr\<lparr> sh_name := int names, sh_type := SHT_PROGBITS, sh_flags := SHF_ALLOC, sh_addr := addr,
      sh_offset := off, sh_size := int (length data) \<rparr>"
  have name: "cstring (drop names shstrtab) = name"
    using "2.prems" by (simp add: section_ok_def cstring_append)
  have data: "file_read file off (int (length data)) = data"
    using "2.prems" by (simp add: file_read_def)
  have "load_section file shstrtab ?h m = add_section m name addr data"
    using "2.prems"(1) name data
    by (auto simp: load_section_def section_ok_def SHF_ALLOC_def SHT_PROGBITS_def SHT_STRTAB_def SHT_SYMTAB_def)
  moreover have "drop (nat (off + int (length data))) file = all_data sections @ rest"
  proof -
    have "drop (nat (off + int (length data))) file = drop (length data) (drop (nat off) file)"
      using "2.prems"(2) by (simp add: nat_add_distrib ac_simps)
    then show ?thesis using "2.prems"(3) by simp
  qed
  moreover have "drop (names + length name + 1) shstrtab = all_names sections @ rest'"
  proof -
    have "drop (names + length name + 1) shstrtab = drop (length name + 1) (drop names shstrtab)"
      by (simp add: ac_simps)
    then show ?thesis using "2.prems"(4) by simp
  qed
  ultimately show ?case using 2 by simp
qed simp

lemma fold_add_section:
  "fold (\<lambda>(name, addr, data) m. add_section m name addr data) sections m = m ++ map_of (rev sections)"
  by (induction sections arbitrary: m) (auto simp: add_section_def map_add_assoc [symmetric] split: prod.splits)

section \<open>Properties\<close>

text \<open>The sizes a 32-bit file can hold.\<close>

definition image_fits :: "(bytes \<times> int \<times> bytes) list \<Rightarrow> bool" where
  "image_fits sections \<longleftrightarrow>
     length sections + 2 < 2 ^ 16 \<and> list_all (\<lambda>(name, addr, data). 0 \<le> addr \<and> addr < 2 ^ 32) sections \<and>
     132 + 40 * length sections + length (all_data sections) + length (all_names sections) < 2 ^ 32 - 20"

lemma headers_of_fit:
  "list_all (\<lambda>(name, addr, data). 0 \<le> addr \<and> addr < 2 ^ 32) sections \<Longrightarrow> 0 \<le> off \<Longrightarrow>
   off + int (length (all_data sections)) < 2 ^ 32 \<Longrightarrow> names + length (all_names sections) < 2 ^ 32 \<Longrightarrow>
   list_all shdr_fits (headers_of sections names off)"
proof (induction sections names off rule: headers_of.induct)
  case (2 name addr data sections names off)
  then show ?case
    by (auto simp: shdr_fits_def zero_shdr_def SHF_ALLOC_def SHT_PROGBITS_def)
qed simp

lemma map_of_rev_image: "distinct (map fst xs) \<Longrightarrow> map_of (rev xs) = map_of xs"
  by (rule map_of_eqI) (auto simp: rev_map [symmetric] map_of_eq_Some_iff)

lemma length_concat_const: "\<forall>x\<in>set xs. length x = n \<Longrightarrow> length (concat xs) = length xs * n"
  by (induction xs) auto

text \<open>The parts of the file: where the data starts and ends, the string table and all section headers.\<close>

definition data_start :: "(bytes \<times> int \<times> bytes) list \<Rightarrow> int" where
  "data_start sections = 132 + 40 * int (length sections)"

definition data_stop :: "(bytes \<times> int \<times> bytes) list \<Rightarrow> int" where
  "data_stop sections = data_start sections + int (length (all_data sections))"

definition string_table :: "(bytes \<times> int \<times> bytes) list \<Rightarrow> bytes" where
  "string_table sections = (0 # all_names sections) @ ascii ''.shstrtab'' @ [0]"

definition table_header :: "(bytes \<times> int \<times> bytes) list \<Rightarrow> section_header" where
  "table_header sections = zero_shdr\<lparr> sh_name := int (length (0 # all_names sections)), sh_type := SHT_STRTAB,
     sh_offset := data_stop sections, sh_size := int (length (string_table sections)) \<rparr>"

definition all_headers :: "(bytes \<times> int \<times> bytes) list \<Rightarrow> section_header list" where
  "all_headers sections = zero_shdr # headers_of sections 1 (data_start sections) @ [table_header sections]"

definition file_of :: "(bytes \<times> int \<times> bytes) list \<Rightarrow> bytes" where
  "file_of sections = the (ehdr_to_bytes (writer_ehdr (length sections))) @ concat (map hbytes (all_headers sections)) @
     all_data sections @ string_table sections"

lemma image_bounds:
  assumes "image_fits sections"
  shows "data_stop sections + int (length (string_table sections)) < 2 ^ 32" "0 \<le> data_start sections"
    "length sections + 2 < 2 ^ 16"
  using assms by (simp_all add: image_fits_def data_stop_def data_start_def string_table_def ascii_def)

lemma all_headers_fit:
  assumes "image_fits sections"
  shows "list_all shdr_fits (all_headers sections)"
proof -
  have "list_all shdr_fits (headers_of sections 1 (data_start sections))"
    using assms image_bounds [OF assms]
    by (intro headers_of_fit) (simp_all add: image_fits_def data_stop_def string_table_def)
  then show ?thesis
    using image_bounds [OF assms]
    by (simp add: all_headers_def shdr_fits_def table_header_def zero_shdr_def SHT_STRTAB_def data_stop_def
        string_table_def ascii_def)
qed

lemma header_bytes:
  assumes "image_fits sections" "h \<in> set (all_headers sections)"
  shows "shdr_to_bytes h = Some (hbytes h)" "shdr_from_bytes False (hbytes h) = Some h" "length (hbytes h) = 40"
  using all_headers_fit [OF assms(1)] shdr_to_bytes_fits [of h] shdr_roundtrip [of h] assms(2)
  by (auto simp: list_all_iff)

lemma ehdr_bytes:
  assumes "image_fits sections"
  obtains b where "ehdr_to_bytes (writer_ehdr (length sections)) = Some b"
    "ehdr_from_bytes False b = Some (writer_ehdr (length sections))" "length b = 52"
proof -
  obtain b where b: "ehdr_to_bytes (writer_ehdr (length sections)) = Some b"
    using writer_ehdr_fits image_bounds(3) [OF assms] by blast
  moreover have "length (eh_ident (writer_ehdr (length sections))) = 16" by (simp add: writer_ehdr_def elf_magic_def)
  ultimately show ?thesis using ehdr_roundtrip that by blast
qed

lemma length_all_headers [simp]: "length (all_headers sections) = length sections + 2"
  by (simp add: all_headers_def)

lemma elf_writer_file:
  assumes "image_fits sections"
  shows "elf_writer sections = Some (file_of sections)"
proof -
  obtain eb where eb: "ehdr_to_bytes (writer_ehdr (length sections)) = Some eb" using assms by (rule ehdr_bytes)
  have wh: "write_headers sections [0] (data_start sections) =
      Some (concat (map hbytes (headers_of sections 1 (data_start sections))), 0 # all_names sections, data_stop sections)"
    using write_headers_of [of sections "[0]" "data_start sections"] all_headers_fit [OF assms]
    by (simp add: all_headers_def data_stop_def)
  define nb where "nb = hbytes zero_shdr"
  have null: "shdr_to_bytes zero_shdr = Some nb"
    unfolding nb_def by (rule header_bytes(1) [OF assms]) (simp add: all_headers_def)
  define lb where "lb = hbytes (table_header sections)"
  have "shdr_to_bytes (table_header sections) = Some lb"
    unfolding lb_def by (rule header_bytes(1) [OF assms]) (simp add: all_headers_def)
  then have table: "shdr_to_bytes (zero_shdr\<lparr> sh_name := int (length (0 # all_names sections)), sh_type := SHT_STRTAB,
      sh_offset := data_stop sections,
      sh_size := int (length ((0 # all_names sections) @ ascii ''.shstrtab'' @ [0])) \<rparr>) = Some lb"
    by (simp only: table_header_def string_table_def)
  have off: "int 52 + int 40 + int (length sections) * int 40 + 1 * int 40 = data_start sections"
    by (simp add: data_start_def)
  have data: "concat (map (\<lambda>(name, addr, data). data) sections) = all_data sections"
    by (simp add: all_data_def case_prod_beta')
  show ?thesis
    unfolding elf_writer_def calcsizes Let_def off eb null wh bind.bind_lunit prod.case table data
    by (simp only: file_of_def eb all_headers_def string_table_def lb_def nb_def concat.simps list.map map_append
        concat_append append_assoc append_Nil2 option.sel)
qed

lemma file_header:
  assumes "image_fits sections" "k < length sections + 2"
  shows "file_read (file_of sections) (52 + int k * 40) 40 = hbytes (all_headers sections ! k)"
proof -
  obtain eb where eb: "ehdr_to_bytes (writer_ehdr (length sections)) = Some eb" "length eb = 52"
    using assms(1) by (rule ehdr_bytes)
  let ?hs = "concat (map hbytes (all_headers sections)) @ all_data sections @ string_table sections"
  have n: "nat (52 + int k * 40) = 52 + k * 40" by simp
  have "drop (52 + k * 40) (file_of sections) = drop (k * 40) ?hs"
    unfolding file_of_def by (simp only: drop_append eb option.sel) (simp add: eb(2))
  moreover have "take 40 (drop (k * 40) ?hs) = map hbytes (all_headers sections) ! k"
    by (rule take_chunk) (use header_bytes(3) [OF assms(1)] assms(2) in auto)
  ultimately show ?thesis using assms(2) by (simp add: file_read_def n)
qed

lemma file_data:
  assumes "image_fits sections"
  shows "drop (nat (data_start sections)) (file_of sections) = all_data sections @ string_table sections"
    "drop (nat (data_stop sections)) (file_of sections) = string_table sections"
    "file_read (file_of sections) 0 52 = the (ehdr_to_bytes (writer_ehdr (length sections)))"
proof -
  obtain eb where eb: "ehdr_to_bytes (writer_ehdr (length sections)) = Some eb" "length eb = 52"
    using assms by (rule ehdr_bytes)
  have len: "length (concat (map hbytes (all_headers sections))) = (length sections + 2) * 40"
    using length_concat_const [of "map hbytes (all_headers sections)" 40] header_bytes(3) [OF assms] by simp
  have pos: "nat (data_start sections) = 52 + (length sections + 2) * 40" by (simp add: data_start_def)
  show start: "drop (nat (data_start sections)) (file_of sections) = all_data sections @ string_table sections"
    using eb len pos by (simp add: file_of_def)
  have "drop (nat (data_start sections) + length (all_data sections)) (file_of sections) = string_table sections"
    using start by (metis append_eq_conv_conj drop_drop add.commute)
  moreover have "nat (data_stop sections) = nat (data_start sections) + length (all_data sections)"
    using image_bounds(2) [OF assms] by (simp add: data_stop_def nat_add_distrib)
  ultimately show "drop (nat (data_stop sections)) (file_of sections) = string_table sections" by simp
  show "file_read (file_of sections) 0 52 = the (ehdr_to_bytes (writer_ehdr (length sections)))"
    using eb by (simp add: file_read_def file_of_def)
qed

lemma writer_ehdr_fields [simp]:
  "eh_shoff (writer_ehdr n) = 52" "eh_shentsize (writer_ehdr n) = 40" "eh_shnum (writer_ehdr n) = int n + 2"
  "eh_shstrndx (writer_ehdr n) = int n + 1" "take 4 (eh_ident (writer_ehdr n)) = elf_magic"
  by (simp_all add: writer_ehdr_def elf_magic_def)

lemma read_all_sections:
  assumes fits: "image_fits sections" and ok: "list_all section_ok sections" and distinct: "distinct (map fst sections)"
  shows "read_sections False (file_of sections) (writer_ehdr (length sections)) (string_table sections)
    [0..<length sections + 2] Map.empty = Some (map_of sections)"
proof -
  let ?load = "load_section (file_of sections) (string_table sections)"
  have null: "?load zero_shdr m = m" "?load (table_header sections) m = m" for m
    by (simp_all add: load_section_def table_header_def zero_shdr_def)
  have "read_sections False (file_of sections) (writer_ehdr (length sections)) (string_table sections)
      [0..<length sections + 2] Map.empty =
      Some (fold ?load (map ((!) (all_headers sections)) [0..<length sections + 2]) Map.empty)"
  proof (rule read_sections_headers, rule ballI)
    fix k assume "k \<in> set [0..<length sections + 2]"
    then have k: "k < length sections + 2" by (simp only: atLeastLessThan_upt [symmetric] atLeastLessThan_iff)
    then show "k < length (all_headers sections) \<and>
        (\<exists>b. shdr_to_bytes (all_headers sections ! k) = Some b \<and>
          file_read (file_of sections) (eh_shoff (writer_ehdr (length sections)) +
            int k * eh_shentsize (writer_ehdr (length sections))) (eh_shentsize (writer_ehdr (length sections))) = b)"
      using file_header [OF fits k] header_bytes(1) [OF fits, of "all_headers sections ! k"] by simp
  qed
  also have "map ((!) (all_headers sections)) [0..<length sections + 2] = all_headers sections"
    using map_nth [of "all_headers sections"] by simp
  also have "fold ?load (all_headers sections) Map.empty =
      fold ?load (headers_of sections 1 (data_start sections)) Map.empty"
    by (simp add: all_headers_def null)
  also have "\<dots> = fold (\<lambda>(name, addr, data) m. add_section m name addr data) sections Map.empty"
    using file_data(1) [OF fits] image_bounds(2) [OF fits]
    by (intro load_headers_of [OF ok, where rest = "string_table sections" and rest' = "ascii ''.shstrtab'' @ [0]"])
      (simp_all add: string_table_def)
  also have "\<dots> = map_of sections"
    using distinct by (simp add: fold_add_section map_of_rev_image)
  finally show ?thesis .
qed

text \<open>C16: The reader undoes the writer. Every memory image that a 32-bit file can hold, whatever order the dictionary is
  iterated in, is written without an error, and reading the file gives the image back: the same names with the same
  addresses and the same data. Names are C strings, and sections named for uninitialised data hold only zero bytes.\<close>

theorem elf_write_read:
  assumes fits: "image_fits sections" and ok: "list_all section_ok sections" and distinct: "distinct (map fst sections)"
  shows "\<exists>file. elf_writer sections = Some file \<and> elf_reader False file = Some (map_of sections)"
proof -
  let ?n = "length sections"
  obtain eb where eb: "ehdr_to_bytes (writer_ehdr ?n) = Some eb" "ehdr_from_bytes False eb = Some (writer_ehdr ?n)"
    using fits by (rule ehdr_bytes)
  have table: "all_headers sections ! (?n + 1) = table_header sections" by (simp add: all_headers_def nth_append)
  have "shdr_from_bytes False (file_read (file_of sections) (52 + (int ?n + 1) * 40) 40) = Some (table_header sections)"
    using file_header [OF fits, of "?n + 1"] table
      header_bytes(2) [OF fits, of "table_header sections"] by (simp add: all_headers_def)
  moreover have "file_read (file_of sections) (sh_offset (table_header sections)) (sh_size (table_header sections)) =
      string_table sections"
    using file_data(2) [OF fits] by (simp add: table_header_def file_read_def)
  ultimately have "elf_reader False (file_of sections) = Some (map_of sections)"
    using eb file_data(3) [OF fits] read_all_sections [OF assms] by (simp add: elf_reader_def Let_def nat_add_distrib)
  with elf_writer_file [OF fits] show ?thesis by blast
qed

lemma elf_write_read_witness:
  "\<exists>f. elf_writer [(ascii ''.text'', 0x200, [0x13, 0, 0, 0]), (ascii ''.data'', 0x400, [1, 2]), (ascii ''.bss'', 0x500, [0, 0, 0])]
       = Some f \<and>
     elf_reader False f =
       Some (map_of [(ascii ''.text'', 0x200, [0x13, 0, 0, 0]), (ascii ''.data'', 0x400, [1, 2]), (ascii ''.bss'', 0x500, [0, 0, 0])])"
  by (rule elf_write_read) (simp_all add: image_fits_def section_ok_def ascii_def all_data_def all_names_def)

end
