(* ===== verification/Assembler.thy ===== *)
theory Assembler
  imports Isa Elf
begin

text \<open>
  The two-pass assembler of \<open>lizard/util/arch/assembler.py\<close> for the 32-bit instructions and 64-bit registers of
  \<open>rv64g.py\<close>: it sorts the source lines into sections, gives every label an address, assembles the instructions at theirs
  and collects the memory image. The instruction set is an argument, as in the source. A raised exception is \<open>None\<close>.
\<close>

section \<open>The first pass: lines to sections\<close>

record preprocessed =
  pp_text :: "string list"
  pp_proc2mngr :: "int list"
  pp_mngr2proc :: "int list"
  pp_data :: "string list"

text \<open>\<open>s.splitlines()\<close>: a line ends at a line feed, a carriage return or the pair of both.\<close>

fun split_lines_from :: "string \<Rightarrow> string \<Rightarrow> string list" where
  "split_lines_from line [] = (if line = [] then [] else [line])"
| "split_lines_from line (c # cs) =
     (if c = CHR 0x0D \<and> take 1 cs = [CHR 0x0A] then line # split_lines_from [] (tl cs)
      else if c = CHR 0x0A \<or> c = CHR 0x0D then line # split_lines_from [] cs
      else split_lines_from (line @ [c]) cs)"

definition split_lines :: "string \<Rightarrow> string list" where
  "split_lines s = split_lines_from [] s"

definition before_char :: "char \<Rightarrow> string \<Rightarrow> string" where
  "before_char c s = takeWhile (\<lambda>d. d \<noteq> c) s"

definition after_char :: "char \<Rightarrow> string \<Rightarrow> string" where
  "after_char c s = tl (dropWhile (\<lambda>d. d \<noteq> c) s)"

text \<open>\<open>line, value = line.split(c)\<close>: two parts exactly.\<close>

definition split_pair :: "char \<Rightarrow> string \<Rightarrow> (string \<times> string) option" where
  "split_pair c s = (if count_list s c = 1 then Some (before_char c s, after_char c s) else None)"

text \<open>An instruction line may carry a value to send to or to expect from the manager.\<close>

definition manager_value :: "string \<Rightarrow> int option" where
  "manager_value v = do { n \<leftarrow> py_int0 (py_strip v); py_bits 64 n }"

definition preprocess_inst :: "'i isa \<Rightarrow> string \<Rightarrow> preprocessed \<Rightarrow> preprocessed option" where
  "preprocess_inst isa line pp =
     (if CHR ''<'' \<in> set line
      then do { (line, v) \<leftarrow> split_pair (CHR ''<'') line; v \<leftarrow> manager_value v;
                insts \<leftarrow> expand_pseudo_instructions isa (py_strip line);
                Some (pp\<lparr> pp_mngr2proc := pp_mngr2proc pp @ [v], pp_text := pp_text pp @ insts \<rparr>) }
      else if CHR ''>'' \<in> set line
      then do { (line, v) \<leftarrow> split_pair (CHR ''>'') line; v \<leftarrow> manager_value v;
                insts \<leftarrow> expand_pseudo_instructions isa (py_strip line);
                Some (pp\<lparr> pp_proc2mngr := pp_proc2mngr pp @ [v], pp_text := pp_text pp @ insts \<rparr>) }
      else do { insts \<leftarrow> expand_pseudo_instructions isa line; Some (pp\<lparr> pp_text := pp_text pp @ insts \<rparr>) })"

definition append_line :: "bool \<Rightarrow> string \<Rightarrow> preprocessed \<Rightarrow> preprocessed" where
  "append_line in_data line pp =
     (if in_data then pp\<lparr> pp_data := pp_data pp @ [line] \<rparr> else pp\<lparr> pp_text := pp_text pp @ [line] \<rparr>)"

fun preprocess_lines :: "'i isa \<Rightarrow> string list \<Rightarrow> bool \<Rightarrow> preprocessed \<Rightarrow> preprocessed option" where
  "preprocess_lines isa [] in_data pp = Some pp"
| "preprocess_lines isa (raw # rest) in_data pp =
     (let line = py_strip (before_char (CHR ''#'') raw) in
      if line = [] then preprocess_lines isa rest in_data pp
      else if CHR '':'' \<in> set line then preprocess_lines isa rest in_data (append_line in_data line pp)
      else if line = ''.data'' then (if in_data then None else preprocess_lines isa rest True pp)
      else if \<not> in_data then do { pp \<leftarrow> preprocess_inst isa line pp; preprocess_lines isa rest in_data pp }
      else preprocess_lines isa rest in_data (append_line in_data line pp))"

definition preprocess_asm :: "'i isa \<Rightarrow> string \<Rightarrow> preprocessed option" where
  "preprocess_asm isa seq_list =
     preprocess_lines isa (split_lines seq_list) False
       \<lparr> pp_text = [], pp_proc2mngr = [], pp_mngr2proc = [], pp_data = [] \<rparr>"

section \<open>The symbol table\<close>

type_synonym symbols = "string \<rightharpoonup> int"

definition ilen_bytes :: int where "ilen_bytes = int (byte_count 32)"

definition label_of :: "string \<Rightarrow> string" where
  "label_of line = py_strip (before_char (CHR '':'') line)"

fun augment_symbol_table :: "int \<Rightarrow> string list \<Rightarrow> symbols \<Rightarrow> (string list \<times> symbols) option" where
  "augment_symbol_table addr [] st = Some ([], st)"
| "augment_symbol_table addr (line # code) st =
     (if CHR '':'' \<in> set line
      then if after_char (CHR '':'') line \<noteq> [] \<or> label_of line \<in> dom st then None
           else augment_symbol_table addr code (st(label_of line \<mapsto> addr))
      else do { (result, st) \<leftarrow> augment_symbol_table (addr + ilen_bytes) code st; Some (line # result, st) })"

section \<open>The second pass\<close>

record assembler =
  am_isa :: "32 word isa"
  am_text_offset :: int
  am_data_offset :: int
  am_mngr2proc_offset :: int
  am_proc2mngr_offset :: int

fun assemble_text :: "32 word isa \<Rightarrow> symbols \<Rightarrow> int \<Rightarrow> string list \<Rightarrow> bytes option" where
  "assemble_text isa st addr [] = Some []"
| "assemble_text isa st addr (line # code) =
     do { bits \<leftarrow> assemble_inst isa st addr line;
          b \<leftarrow> struct_pack [Unsigned 4] [Num (uint bits)];
          bs \<leftarrow> assemble_text isa st (addr + ilen_bytes) code;
          Some (b @ bs) }"

fun pack_values :: "int list \<Rightarrow> bytes option" where
  "pack_values [] = Some []"
| "pack_values (v # vs) = do { b \<leftarrow> struct_pack [Unsigned 8] [Num v]; bs \<leftarrow> pack_values vs; Some (b @ bs) }"

definition data_word :: "string \<Rightarrow> bytes option" where
  "data_word line =
     (if take 5 line \<noteq> ''.word'' then None
      else case py_words line of
             [_, v] \<Rightarrow> do { n \<leftarrow> py_int0 v; struct_pack [Unsigned 4] [Num n] }
           | _ \<Rightarrow> None)"

fun assemble_data :: "string list \<Rightarrow> bytes option" where
  "assemble_data [] = Some []"
| "assemble_data (line # code) = do { b \<leftarrow> data_word line; bs \<leftarrow> assemble_data code; Some (b @ bs) }"

definition add_nonempty :: "string \<Rightarrow> int \<Rightarrow> bytes \<Rightarrow> image \<Rightarrow> image" where
  "add_nonempty name addr d m = (if d \<noteq> [] then add_section m (ascii name) addr d else m)"

definition assemble :: "assembler \<Rightarrow> string \<Rightarrow> image option" where
  "assemble A asm_code = do {
     pp \<leftarrow> preprocess_asm (am_isa A) asm_code;
     (text_code, st) \<leftarrow> augment_symbol_table (am_text_offset A) (pp_text pp) Map.empty;
     (data_code, st) \<leftarrow> augment_symbol_table (am_data_offset A) (pp_data pp) st;
     text_bytes \<leftarrow> assemble_text (am_isa A) st (am_text_offset A) text_code;
     mngr2proc_bytes \<leftarrow> pack_values (pp_mngr2proc pp);
     proc2mngr_bytes \<leftarrow> pack_values (pp_proc2mngr pp);
     data_bytes \<leftarrow> assemble_data data_code;
     Some (add_nonempty ''.data'' (am_data_offset A) data_bytes
       (add_nonempty ''.proc2mngr'' (am_proc2mngr_offset A) proc2mngr_bytes
         (add_nonempty ''.mngr2proc'' (am_mngr2proc_offset A) mngr2proc_bytes
           (add_nonempty ''.text'' (am_text_offset A) text_bytes Map.empty)))) }"

section \<open>Addresses\<close>

abbreviation is_label :: "string \<Rightarrow> bool" where
  "is_label line \<equiv> CHR '':'' \<in> set line"

abbreviation lines_of :: "string list \<Rightarrow> string list" where
  "lines_of code \<equiv> filter (\<lambda>line. \<not> is_label line) code"

text \<open>Every label has the address of the line after it.\<close>

definition labels_at :: "int \<Rightarrow> string list \<Rightarrow> symbols \<Rightarrow> bool" where
  "labels_at base code st \<longleftrightarrow>
     (\<forall>k < length code. is_label (code ! k) \<longrightarrow>
        st (label_of (code ! k)) = Some (base + 4 * int (length (lines_of (take k code)))))"

lemma ilen_bytes_4 [simp]: "ilen_bytes = 4"
  by (simp add: ilen_bytes_def byte_count_def)

lemma labels_at_simps [simp]:
  "labels_at base [] st"
  "labels_at base (line # code) st \<longleftrightarrow>
     (if is_label line then st (label_of line) = Some base \<and> labels_at base code st else labels_at (base + 4) code st)"
  by (simp_all add: labels_at_def All_less_Suc2 algebra_simps)

lemma augment_labels:
  "augment_symbol_table base code st = Some (result, st') \<Longrightarrow>
   result = lines_of code \<and> labels_at base code st' \<and> st \<subseteq>\<^sub>m st' \<and>
   dom st' = dom st \<union> set (map label_of (filter is_label code)) \<and>
   distinct (map label_of (filter is_label code)) \<and> dom st \<inter> set (map label_of (filter is_label code)) = {}"
proof (induction base code st arbitrary: result rule: augment_symbol_table.induct)
  case (2 base line code st)
  show ?case
  proof (cases "is_label line")
    case True
    with "2.prems" have "augment_symbol_table base code (st(label_of line \<mapsto> base)) = Some (result, st')"
      and new: "after_char (CHR '':'') line = []" "label_of line \<notin> dom st" by (auto split: if_splits)
    have "result = lines_of code \<and> labels_at base code st' \<and> (st(label_of line \<mapsto> base)) \<subseteq>\<^sub>m st' \<and>
        dom st' = dom (st(label_of line \<mapsto> base)) \<union> set (map label_of (filter is_label code)) \<and>
        distinct (map label_of (filter is_label code)) \<and>
        dom (st(label_of line \<mapsto> base)) \<inter> set (map label_of (filter is_label code)) = {}"
      using True new by (intro "2.IH"(1) \<open>augment_symbol_table base code (st(label_of line \<mapsto> base)) = Some (result, st')\<close>) auto
    then have IH: "result = lines_of code" "labels_at base code st'" "(st(label_of line \<mapsto> base)) \<subseteq>\<^sub>m st'"
      "dom st' = insert (label_of line) (dom st \<union> set (map label_of (filter is_label code)))"
      "distinct (map label_of (filter is_label code))" "label_of line \<notin> set (map label_of (filter is_label code))"
      "dom st \<inter> set (map label_of (filter is_label code)) = {}"
      by (simp_all del: set_map)
    have "st \<subseteq>\<^sub>m st(label_of line \<mapsto> base)" using new(2) by (auto simp: map_le_def)
    then have le: "st \<subseteq>\<^sub>m st'" using IH(3) by (rule map_le_trans)
    have at: "st' (label_of line) = Some base" using IH(3) by (force simp: map_le_def)
    show ?thesis using True new(2) IH le at by (simp del: set_map)
  next
    case False
    with "2.prems" obtain r where "augment_symbol_table (base + ilen_bytes) code st = Some (r, st')" "result = line # r"
      by (auto split: bind_splits)
    with "2.IH"(2) [OF False this(1)] False show ?thesis by simp
  qed
qed simp

lemma labels_at_kept: "labels_at base code st \<Longrightarrow> st \<subseteq>\<^sub>m st' \<Longrightarrow> labels_at base code st'"
  by (force simp: labels_at_def map_le_def dom_def)

section \<open>Words to bytes\<close>

lemma pack_word: "struct_pack [Unsigned w] [Num v] = (if 0 \<le> v \<and> v < 256 ^ w then Some (le_bytes w v) else None)"
  by simp

lemma assemble_text_words:
  "assemble_text isa st addr code = Some bs \<Longrightarrow>
   \<exists>ws. length ws = length code \<and> bs = concat (map (\<lambda>w. le_bytes 4 (uint w)) ws) \<and>
     (\<forall>k < length code. assemble_inst isa st (addr + 4 * int k) (code ! k) = Some (ws ! k))"
proof (induction code arbitrary: addr bs)
  case (Cons line code)
  from Cons.prems obtain w bs' where w: "assemble_inst isa st addr line = Some w"
    "assemble_text isa st (addr + 4) code = Some bs'" "bs = le_bytes 4 (uint w) @ bs'"
    by (auto simp del: le_bytes.simps split: bind_splits if_splits)
  from Cons.IH [OF w(2)] obtain ws where ws: "length ws = length code"
    "bs' = concat (map (\<lambda>w. le_bytes 4 (uint w)) ws)"
    "\<forall>k < length code. assemble_inst isa st (addr + 4 + 4 * int k) (code ! k) = Some (ws ! k)" by blast
  then show ?case
    using w by (intro exI [of _ "w # ws"]) (auto simp: All_less_Suc2 algebra_simps)
qed simp

lemma concat_le_bytes: "0 < w \<Longrightarrow> concat (map (\<lambda>x. le_bytes w (f x)) xs) = [] \<longleftrightarrow> xs = []"
  using length_le_bytes [of w] by (cases xs) (auto simp del: length_le_bytes, metis less_irrefl list.size(3))

lemma pack_values_words:
  "pack_values vs = Some bs \<Longrightarrow> bs = concat (map (le_bytes 8) vs)"
  by (induction vs arbitrary: bs) (auto split: bind_splits if_splits)

lemma data_word_length: "data_word line = Some b \<Longrightarrow> length b = 4"
  by (auto simp: data_word_def split: if_splits list.splits bind_splits)

lemma assemble_data_words:
  "assemble_data code = Some bs \<Longrightarrow>
   \<exists>ws. length ws = length code \<and> bs = concat ws \<and> (\<forall>k < length code. data_word (code ! k) = Some (ws ! k))"
proof (induction code arbitrary: bs)
  case (Cons line code)
  from Cons.prems obtain b bs' where b: "data_word line = Some b" "assemble_data code = Some bs'" "bs = b @ bs'"
    by (auto split: bind_splits)
  from Cons.IH [OF b(2)] obtain ws where "length ws = length code" "bs' = concat ws"
    "\<forall>k < length code. data_word (code ! k) = Some (ws ! k)" by blast
  then show ?case using b by (intro exI [of _ "b # ws"]) (auto simp: All_less_Suc2)
qed simp

lemma section_names [simp]:
  "ascii ''.text'' \<noteq> ascii ''.data''" "ascii ''.text'' \<noteq> ascii ''.mngr2proc''"
  "ascii ''.text'' \<noteq> ascii ''.proc2mngr''" "ascii ''.data'' \<noteq> ascii ''.text''"
  "ascii ''.data'' \<noteq> ascii ''.mngr2proc''" "ascii ''.data'' \<noteq> ascii ''.proc2mngr''"
  "ascii ''.mngr2proc'' \<noteq> ascii ''.text''" "ascii ''.mngr2proc'' \<noteq> ascii ''.data''"
  "ascii ''.mngr2proc'' \<noteq> ascii ''.proc2mngr''" "ascii ''.proc2mngr'' \<noteq> ascii ''.text''"
  "ascii ''.proc2mngr'' \<noteq> ascii ''.data''" "ascii ''.proc2mngr'' \<noteq> ascii ''.mngr2proc''"
  by (simp_all add: ascii_def)

section \<open>Properties\<close>

text \<open>C21: What assembles lies where its labels say: there are addresses for the labels, one for each and each label once,
  such that a label has the address of the instruction or data word after it, every instruction is assembled with all of
  them known at the address where its four bytes stand in the text section, every data word stands at its address in the
  data section, and the manager sections hold the values given with the instructions.\<close>

theorem assemble_places:
  assumes "assemble A code = Some img" "preprocess_asm (am_isa A) code = Some pp"
  shows "\<exists>st ws ds.
    labels_at (am_text_offset A) (pp_text pp) st \<and> labels_at (am_data_offset A) (pp_data pp) st \<and>
    distinct (map label_of (filter is_label (pp_text pp @ pp_data pp))) \<and>
    dom st = set (map label_of (filter is_label (pp_text pp @ pp_data pp))) \<and>
    length ws = length (lines_of (pp_text pp)) \<and>
    (\<forall>k < length ws. assemble_inst (am_isa A) st (am_text_offset A + 4 * int k) (lines_of (pp_text pp) ! k) = Some (ws ! k)) \<and>
    length ds = length (lines_of (pp_data pp)) \<and>
    (\<forall>k < length ds. data_word (lines_of (pp_data pp) ! k) = Some (ds ! k) \<and> length (ds ! k) = 4) \<and>
    img (ascii ''.text'') = (if ws = [] then None else Some (am_text_offset A, concat (map (\<lambda>w. le_bytes 4 (uint w)) ws))) \<and>
    img (ascii ''.data'') = (if ds = [] then None else Some (am_data_offset A, concat ds)) \<and>
    img (ascii ''.mngr2proc'') =
      (if pp_mngr2proc pp = [] then None else Some (am_mngr2proc_offset A, concat (map (le_bytes 8) (pp_mngr2proc pp)))) \<and>
    img (ascii ''.proc2mngr'') =
      (if pp_proc2mngr pp = [] then None else Some (am_proc2mngr_offset A, concat (map (le_bytes 8) (pp_proc2mngr pp))))"
proof -
  from assms obtain text_code st1 data_code st text_bytes m2p p2m data_bytes where run:
    "augment_symbol_table (am_text_offset A) (pp_text pp) Map.empty = Some (text_code, st1)"
    "augment_symbol_table (am_data_offset A) (pp_data pp) st1 = Some (data_code, st)"
    "assemble_text (am_isa A) st (am_text_offset A) text_code = Some text_bytes"
    "pack_values (pp_mngr2proc pp) = Some m2p" "pack_values (pp_proc2mngr pp) = Some p2m"
    "assemble_data data_code = Some data_bytes"
    "img = add_nonempty ''.data'' (am_data_offset A) data_bytes (add_nonempty ''.proc2mngr'' (am_proc2mngr_offset A) p2m
       (add_nonempty ''.mngr2proc'' (am_mngr2proc_offset A) m2p
         (add_nonempty ''.text'' (am_text_offset A) text_bytes Map.empty)))"
    by (auto simp: assemble_def split: bind_splits)
  note text_labels = augment_labels [OF run(1)] and data_labels = augment_labels [OF run(2)]
  from assemble_text_words [OF run(3)] obtain ws where ws: "length ws = length text_code"
    "text_bytes = concat (map (\<lambda>w. le_bytes 4 (uint w)) ws)"
    "\<forall>k < length text_code. assemble_inst (am_isa A) st (am_text_offset A + 4 * int k) (text_code ! k) = Some (ws ! k)"
    by blast
  from assemble_data_words [OF run(6)] obtain ds where ds: "length ds = length data_code" "data_bytes = concat ds"
    "\<forall>k < length data_code. data_word (data_code ! k) = Some (ds ! k)"
    by blast
  note packed = pack_values_words [OF run(4)] pack_values_words [OF run(5)]
  have empty: "text_bytes = [] \<longleftrightarrow> ws = []" "m2p = [] \<longleftrightarrow> pp_mngr2proc pp = []" "p2m = [] \<longleftrightarrow> pp_proc2mngr pp = []"
    unfolding ws(2) packed by (simp_all only: concat_le_bytes zero_less_numeral)
  have "data_bytes = [] \<longleftrightarrow> ds = []"
    using ds data_word_length by (cases ds) (force dest: spec [of _ 0])+
  then have sections: "img (ascii ''.text'') = (if ws = [] then None else Some (am_text_offset A, text_bytes))"
    "img (ascii ''.data'') = (if ds = [] then None else Some (am_data_offset A, data_bytes))"
    "img (ascii ''.mngr2proc'') = (if pp_mngr2proc pp = [] then None else Some (am_mngr2proc_offset A, m2p))"
    "img (ascii ''.proc2mngr'') = (if pp_proc2mngr pp = [] then None else Some (am_proc2mngr_offset A, p2m))"
    using empty by (simp_all add: run(7) add_nonempty_def add_section_def)
  have labels: "labels_at (am_text_offset A) (pp_text pp) st" "labels_at (am_data_offset A) (pp_data pp) st"
    using text_labels data_labels labels_at_kept by blast+
  have names: "distinct (map label_of (filter is_label (pp_text pp @ pp_data pp)))"
    "dom st = set (map label_of (filter is_label (pp_text pp @ pp_data pp)))"
    using text_labels data_labels by auto
  show ?thesis
    using ws ds labels names sections packed text_labels data_labels data_word_length
    by (intro exI [of _ st] exI [of _ ws] exI [of _ ds]) auto
qed

definition tiny_assembler :: assembler where
  "tiny_assembler =
     \<lparr> am_isa = \<lparr> isa_encoding = expand_encoding [(''jal    rd, j_imm'', 0x7F, 0x6F), (''addi   rd, rs1, i_imm'', 0x707F, 0x13)],
         isa_pseudo_map = [], isa_fields = map_of rv64g_fields \<rparr>,
       am_text_offset = 0x200, am_data_offset = 0x2000, am_mngr2proc_offset = 0x13000, am_proc2mngr_offset = 0x14000 \<rparr>"

definition tiny_program :: string where
  "tiny_program = ''again:'' @ [CHR 0x0A] @ ''addi x1, x0, 5 > 7'' @ [CHR 0x0A] @ '' jal x0, again # back''"

lemma tiny_preprocess:
  "preprocess_asm (am_isa tiny_assembler) tiny_program =
     Some \<lparr> pp_text = [''again:'', ''addi x1, x0, 5'', ''jal x0, again''], pp_proc2mngr = [7], pp_mngr2proc = [], pp_data = [] \<rparr>"
  by code_simp

lemma tiny_text:
  "map_option (\<lambda>img. img (ascii ''.text'')) (assemble tiny_assembler tiny_program) =
     Some (Some (0x200, [0x93, 0, 0x50, 0, 0x6f, 0xf0, 0xdf, 0xff]))"
  by code_simp

theorem assemble_places_witness:
  "\<exists>img st. assemble tiny_assembler tiny_program = Some img \<and>
     labels_at 0x200 [''again:'', ''addi x1, x0, 5'', ''jal x0, again''] st \<and> st ''again'' = Some 0x200 \<and>
     img (ascii ''.proc2mngr'') = Some (0x14000, [7, 0, 0, 0, 0, 0, 0, 0])"
proof -
  from tiny_text obtain img where img: "assemble tiny_assembler tiny_program = Some img" by auto
  from assemble_places [OF img tiny_preprocess] obtain st where
    "labels_at 0x200 [''again:'', ''addi x1, x0, 5'', ''jal x0, again''] st"
    "img (ascii ''.proc2mngr'') = Some (0x14000, concat (map (le_bytes 8) [7]))"
    by (auto simp: tiny_assembler_def)
  moreover have "label_of ''again:'' = ''again''" by code_simp
  ultimately show ?thesis using img by (auto simp: numeral_eq_Suc)
qed

end
