(* ===== verification/Interface.thy ===== *)
theory Interface
  imports Toposort "HOL-Library.Sublist" "HOL-Library.List_Lexorder" "HOL-Library.Char_ord"
begin

text \<open>
  \<open>lizard/util/rtl/interface.py\<close> and \<open>lizard/util/rtl/method.py\<close>: a module's interface is a sequence of named
  methods, and the order of the sequence says which effects of a cycle are seen by which methods. The constructor
  collects the methods of the base interfaces and sorts all of them along the ordering chains. A raised exception is
  \<open>None\<close>.
\<close>

section \<open>Method specifications\<close>

datatype data_type = BitsType nat | ArrayType data_type nat

record method_spec =
  ms_name :: string
  ms_args :: "(string \<times> data_type) list"
  ms_rets :: "(string \<times> data_type) list"
  ms_call :: bool
  ms_rdy :: bool
  ms_count :: "nat option"

definition new_method_spec ::
  "string \<Rightarrow> (string \<times> data_type) list \<Rightarrow> (string \<times> data_type) list \<Rightarrow> bool \<Rightarrow> bool \<Rightarrow> nat option \<Rightarrow> method_spec option" where
  "new_method_spec name args rets call rdy count =
     (if ''call'' \<in> fst ` set args \<or> ''call'' \<in> fst ` set rets \<or> ''rdy'' \<in> fst ` set args \<or> ''rdy'' \<in> fst ` set rets
      then None
      else Some \<lparr> ms_name = name, ms_args = args, ms_rets = rets, ms_call = call, ms_rdy = rdy, ms_count = count \<rparr>)"

datatype port_type = InPort | OutPort

definition opposite_port :: "port_type \<Rightarrow> port_type" where
  "opposite_port p = (case p of InPort \<Rightarrow> OutPort | OutPort \<Rightarrow> InPort)"

text \<open>The port dictionary: a name assigned twice keeps the later port.\<close>

definition generate :: "port_type \<Rightarrow> method_spec \<Rightarrow> string \<rightharpoonup> port_type \<times> data_type" where
  "generate incoming m =
     (let outgoing = opposite_port incoming;
          r = (if ms_call m then [''call'' \<mapsto> (incoming, BitsType 1)] else Map.empty);
          r = fold (\<lambda>(name, t) r. r(name \<mapsto> (incoming, t))) (ms_args m) r;
          r = fold (\<lambda>(name, t) r. r(name \<mapsto> (outgoing, t))) (ms_rets m) r
      in if ms_rdy m then r(''rdy'' \<mapsto> (outgoing, BitsType 1)) else r)"

definition num_permitted_calls :: "method_spec \<Rightarrow> nat" where
  "num_permitted_calls m = (case ms_count m of None \<Rightarrow> 1 | Some n \<Rightarrow> n)"

definition spec_prefix :: "string \<Rightarrow> method_spec \<Rightarrow> method_spec" where
  "spec_prefix p m = m\<lparr> ms_name := p @ ''_'' @ ms_name m \<rparr>"

definition spec_variant :: "string \<Rightarrow> nat option \<Rightarrow> method_spec \<Rightarrow> method_spec" where
  "spec_variant name count m =
     m\<lparr> ms_name := (if name = [] then ms_name m else name),
        ms_count := (case count of None \<Rightarrow> ms_count m | Some n \<Rightarrow> if n = 0 then ms_count m else Some n) \<rparr>"

section \<open>Interfaces\<close>

record interface =
  if_chains :: "string list list"
  if_methods :: "(string \<times> method_spec) list"

definition get_ordering_chains :: "string list option \<Rightarrow> interface \<Rightarrow> string list list" where
  "get_ordering_chains methods i =
     (case methods of
        None \<Rightarrow> if_chains i
      | Some ms \<Rightarrow> filter (\<lambda>reduced. reduced \<noteq> []) (map (filter (\<lambda>name. name \<in> set ms)) (if_chains i)))"

text \<open>\<open>includes or interface.methods.keys()\<close>: an empty list counts as no list.\<close>

definition included :: "interface \<Rightarrow> string list option \<Rightarrow> string list" where
  "included i includes =
     (case includes of None \<Rightarrow> map fst (if_methods i)
      | Some ms \<Rightarrow> if ms = [] then map fst (if_methods i) else ms)"

fun add_bases ::
  "(interface \<times> string list option) list \<Rightarrow> method_spec list \<times> string list list \<Rightarrow> (method_spec list \<times> string list list) option" where
  "add_bases [] acc = Some acc"
| "add_bases ((i, includes) # bases) (spec, chs) =
     (case those (map (map_of (if_methods i)) (included i includes)) of
        None \<Rightarrow> None
      | Some ms \<Rightarrow> add_bases bases (spec @ ms, chs @ get_ordering_chains (Some (included i includes)) i))"

text \<open>The dependence graph: every name of a chain depends on the one before it.\<close>

definition add_dep :: "string \<Rightarrow> string \<Rightarrow> string graph \<Rightarrow> string graph" where
  "add_dep current pred g = map (\<lambda>(k, dep). (k, if k = current then List.insert pred dep else dep)) g"

fun add_chain :: "string list \<Rightarrow> string graph \<Rightarrow> string graph" where
  "add_chain (pred # current # chain) g = add_chain (current # chain) (add_dep current pred g)"
| "add_chain _ g = g"

definition interface_init ::
  "method_spec list \<Rightarrow> (interface \<times> string list option) list \<Rightarrow> string list list option \<Rightarrow> interface option" where
  "interface_init spec bases ordering_chains =
     (let chs = (case ordering_chains of None \<Rightarrow> [map ms_name spec] | Some c \<Rightarrow> c)
      in case add_bases bases (spec, chs) of
           None \<Rightarrow> None
         | Some (spec, chs) \<Rightarrow>
             let names = map ms_name spec
             in if \<not> distinct names then None
                else if \<not> list_all (list_all (\<lambda>name. name \<in> set names)) chs then None
                else case toposort (fold add_chain chs (map (\<lambda>name. (name, [])) names)) of
                       None \<Rightarrow> None
                     | Some order \<Rightarrow>
                         Some \<lparr> if_chains = chs,
                           if_methods = map (\<lambda>name. (name, the (map_of (map (\<lambda>m. (ms_name m, m)) spec) name))) order \<rparr>)"

definition bypass_chain :: "string \<Rightarrow> string \<Rightarrow> bool \<Rightarrow> string list" where
  "bypass_chain action1 action2 bypass = (if bypass then [action1, action2] else [action2, action1])"

definition predecessor :: "string \<Rightarrow> string list \<Rightarrow> string list list" where
  "predecessor a latters = map (\<lambda>latter. [a, latter]) latters"

definition successor :: "string \<Rightarrow> string list \<Rightarrow> string list list" where
  "successor a priors = map (\<lambda>prior. [prior, a]) priors"

section \<open>The graph of the chains\<close>

definition chain_edges :: "string list list \<Rightarrow> (string \<times> string) set" where
  "chain_edges chs = (\<Union>chain \<in> set chs. set (zip (tl chain) chain))"

lemma keys_add_dep [simp]: "map fst (add_dep c p g) = map fst g"
  by (induction g) (auto simp: add_dep_def)

lemma keys_add_chain [simp]: "map fst (add_chain chain g) = map fst g"
  by (induction chain g rule: add_chain.induct) auto

lemma keys_add_chains [simp]: "map fst (fold add_chain chs g) = map fst g"
  by (induction chs arbitrary: g) auto

lemma graph_edges_add_dep: "c \<in> set (map fst g) \<Longrightarrow> graph_edges (add_dep c p g) = insert (c, p) (graph_edges g)"
proof -
  assume "c \<in> set (map fst g)"
  moreover have "(i, j) \<in> graph_edges (add_dep c p g) \<longleftrightarrow> (i = c \<and> j = p \<and> c \<in> fst ` set g) \<or> (i, j) \<in> graph_edges g" for i j
  proof -
    have "(i, dep) \<in> set (add_dep c p g) \<longleftrightarrow>
        (\<exists>d. (i, d) \<in> set g \<and> dep = (if i = c then List.insert p d else d))" for dep
      by (auto simp: add_dep_def image_iff split: prod.splits)
    then show ?thesis by (cases "i = c") (force simp: graph_edges_def image_iff)+
  qed
  ultimately show ?thesis by auto
qed

lemma graph_edges_add_chain:
  "set chain \<subseteq> set (map fst g) \<Longrightarrow> graph_edges (add_chain chain g) = set (zip (tl chain) chain) \<union> graph_edges g"
  by (induction chain g rule: add_chain.induct) (auto simp: graph_edges_add_dep simp del: set_map)

lemma graph_edges_add_chains:
  "list_all (\<lambda>chain. set chain \<subseteq> set (map fst g)) chs \<Longrightarrow>
   graph_edges (fold add_chain chs g) = chain_edges chs \<union> graph_edges g"
  by (induction chs arbitrary: g) (auto simp: chain_edges_def graph_edges_add_chain simp del: set_map)

lemma chain_subseq:
  assumes "distinct xs" "set chain \<subseteq> set xs"
    "\<forall>(c, p) \<in> set (zip (tl chain) chain). \<exists>n < length xs. xs ! n = c \<and> p \<in> set (take n xs)"
  shows "subseq chain xs"
  using assms
proof (induction xs arbitrary: chain)
  case (Cons x xs)
  show ?case
  proof (cases chain)
    case (Cons p rest)
    have later: "c \<in> set xs \<and> (p' \<noteq> x \<longrightarrow> (\<exists>n < length xs. xs ! n = c \<and> p' \<in> set (take n xs)))"
      if "(c, p') \<in> set (zip (tl chain) chain)" for c p'
    proof -
      from that Cons.prems(3) obtain n where n: "n < length (x # xs)" "(x # xs) ! n = c" "p' \<in> set (take n (x # xs))"
        by fast
      then show ?thesis by (cases n) auto
    qed
    have rest: "set rest \<subseteq> set xs"
    proof
      fix c assume "c \<in> set rest"
      then obtain k where "k < length rest" "rest ! k = c" by (auto simp: in_set_conv_nth)
      then have "(c, chain ! k) \<in> set (zip (tl chain) chain)" using Cons by (force simp: in_set_zip)
      then show "c \<in> set xs" using later by blast
    qed
    have tail: "subseq rest xs"
    proof (rule Cons.IH)
      show "\<forall>(c, p) \<in> set (zip (tl rest) rest). \<exists>n < length xs. xs ! n = c \<and> p \<in> set (take n xs)"
      proof clarify
        fix c p' assume e: "(c, p') \<in> set (zip (tl rest) rest)"
        then have "(c, p') \<in> set (zip (tl chain) chain)" using Cons by (cases rest) auto
        moreover have "p' \<noteq> x" using set_zip_rightD [OF e] rest Cons.prems(1) by auto
        ultimately show "\<exists>n < length xs. xs ! n = c \<and> p' \<in> set (take n xs)" using later by blast
      qed
    qed (use Cons.prems(1) rest in auto)
    show ?thesis
    proof (cases "p = x")
      case True
      then show ?thesis using tail Cons by simp
    next
      case False
      have "subseq chain xs"
      proof (rule Cons.IH)
        show "\<forall>(c, p) \<in> set (zip (tl chain) chain). \<exists>n < length xs. xs ! n = c \<and> p \<in> set (take n xs)"
        proof clarify
          fix c p' assume e: "(c, p') \<in> set (zip (tl chain) chain)"
          have "p' \<noteq> x" using set_zip_rightD [OF e] rest False Cons Cons.prems(1) by auto
          then show "\<exists>n < length xs. xs ! n = c \<and> p' \<in> set (take n xs)" using later [OF e] by blast
        qed
      qed (use Cons.prems(1,2) Cons rest False in auto)
      then show ?thesis by (rule list_emb_Cons)
    qed
  qed simp
qed simp

section \<open>Properties\<close>

text \<open>The methods of an interface stand under their own names.\<close>

definition wf_interface :: "interface \<Rightarrow> bool" where
  "wf_interface i \<longleftrightarrow> distinct (map fst (if_methods i)) \<and> list_all (\<lambda>(name, m). ms_name m = name) (if_methods i)"

lemma wf_interfaceD: "wf_interface i \<Longrightarrow> map_of (if_methods i) name = Some m \<Longrightarrow> ms_name m = name"
  by (auto simp: wf_interface_def list_all_iff dest: map_of_SomeD)

text \<open>What a base interface demands of an interface built from it.\<close>

definition base_respected :: "(string \<times> method_spec) list \<Rightarrow> interface \<times> string list option \<Rightarrow> bool" where
  "base_respected methods base \<longleftrightarrow>
     (case base of (i, includes) \<Rightarrow>
        (\<forall>name \<in> set (included i includes).
           map_of (if_methods i) name = map_of methods name \<and> name \<in> fst ` set methods) \<and>
        (\<forall>chain \<in> set (if_chains i).
           subseq (filter (\<lambda>name. name \<in> set (included i includes)) chain) (map fst methods)))"

lemma those_Some_iff: "those xs = Some ys \<longleftrightarrow> xs = map Some ys"
  by (induction xs arbitrary: ys) (auto split: option.splits)

lemma those_None_iff: "those xs = None \<longleftrightarrow> None \<in> set xs"
  by (induction xs) (auto split: option.splits)

lemma add_bases_collects:
  "add_bases bases (spec, chs) = Some (spec', chs') \<Longrightarrow>
   set spec \<subseteq> set spec' \<and> set chs \<subseteq> set chs' \<and>
   (\<forall>(i, inc) \<in> set bases.
      (\<forall>name \<in> set (included i inc). \<exists>m \<in> set spec'. map_of (if_methods i) name = Some m) \<and>
      set (get_ordering_chains (Some (included i inc)) i) \<subseteq> set chs') \<and>
   (\<forall>m \<in> set spec'. m \<in> set spec \<or>
      (\<exists>(i, inc) \<in> set bases. \<exists>name \<in> set (included i inc). map_of (if_methods i) name = Some m))"
proof (induction bases arbitrary: spec chs)
  case (Cons base bases)
  obtain i inc where base: "base = (i, inc)" by force
  with Cons.prems obtain ms where ms: "those (map (map_of (if_methods i)) (included i inc)) = Some ms"
    "add_bases bases (spec @ ms, chs @ get_ordering_chains (Some (included i inc)) i) = Some (spec', chs')"
    by (auto split: option.splits)
  have "map (map_of (if_methods i)) (included i inc) = map Some ms"
    using ms(1) by (simp add: those_Some_iff)
  then have "\<forall>name \<in> set (included i inc). \<exists>m \<in> set ms. map_of (if_methods i) name = Some m"
    by (metis (no_types, lifting) image_iff list.set_map)
  moreover from \<open>map (map_of (if_methods i)) (included i inc) = map Some ms\<close>
  have "\<forall>m \<in> set ms. \<exists>name \<in> set (included i inc). map_of (if_methods i) name = Some m"
    by (metis (no_types, lifting) image_iff list.set_map)
  ultimately show ?case using Cons.IH [OF ms(2)] by (simp add: base) blast
qed simp

lemma add_bases_fails:
  "add_bases bases acc = None \<longleftrightarrow>
   (\<exists>(i, inc) \<in> set bases. \<exists>name \<in> set (included i inc). map_of (if_methods i) name = None)"
proof (induction bases acc rule: add_bases.induct)
  case (2 i inc bases spec chs)
  have "those (map (map_of (if_methods i)) (included i inc)) = None \<longleftrightarrow>
      (\<exists>name \<in> set (included i inc). map_of (if_methods i) name = None)"
    by (simp add: those_None_iff image_iff) metis
  with 2 show ?case
    by (cases "those (map (map_of (if_methods i)) (included i inc))") (simp_all del: not_None_eq)
qed simp

definition method_table :: "method_spec list \<Rightarrow> string list \<Rightarrow> (string \<times> method_spec) list" where
  "method_table spec order = map (\<lambda>name. (name, the (map_of (map (\<lambda>m. (ms_name m, m)) spec) name))) order"

lemma method_table:
  assumes "distinct (map ms_name spec)" "distinct order" "set order = set (map ms_name spec)"
  shows "set (method_table spec order) = (\<lambda>m. (ms_name m, m)) ` set spec"
    "wf_interface \<lparr> if_chains = chs, if_methods = method_table spec order \<rparr>"
proof -
  have m: "map_of (map (\<lambda>m. (ms_name m, m)) spec) (ms_name m) = Some m" if "m \<in> set spec" for m
    using that assms(1) by (simp add: comp_def)
  show eq: "set (method_table spec order) = (\<lambda>m. (ms_name m, m)) ` set spec"
    using m by (simp add: method_table_def assms(3) image_comp comp_def)
  show "wf_interface \<lparr> if_chains = chs, if_methods = method_table spec order \<rparr>"
    using eq assms(2) by (auto simp: wf_interface_def list_all_iff method_table_def comp_def)
qed

lemma fst_method_table [simp]: "map fst (method_table spec order) = order"
  by (simp add: method_table_def comp_def)

lemma chains_sorted:
  assumes "distinct names" "list_all (list_all (\<lambda>name. name \<in> set names)) chs"
  shows "case toposort (fold add_chain chs (map (\<lambda>name. (name, [])) names)) of
      None \<Rightarrow> \<not> acyclic (chain_edges chs)
    | Some order \<Rightarrow> acyclic (chain_edges chs) \<and> distinct order \<and> set order = set names \<and>
        (\<forall>chain \<in> set chs. subseq chain order)"
proof -
  define g where "g = fold add_chain chs (map (\<lambda>name. (name, [])) names)"
  have keys: "map fst g = names" by (simp add: g_def comp_def)
  have edges: "graph_edges g = chain_edges chs"
  proof -
    have "graph_edges (map (\<lambda>name. (name, [])) names) = {}" by (auto simp: graph_edges_def)
    then show ?thesis
      using assms(2) graph_edges_add_chains [of "map (\<lambda>name. (name, [])) names" chs]
      by (simp add: g_def comp_def list_all_iff subset_iff)
  qed
  have "snd ` chain_edges chs \<subseteq> set names"
    using assms(2) by (auto simp: chain_edges_def list_all_iff dest!: set_zip_rightD)
  then have nodes: "graph_nodes g = set names"
    using keys edges by (auto simp: graph_nodes_def simp flip: set_map)
  show ?thesis
  proof (cases "toposort g")
    case None
    then show ?thesis using toposort_correct [of g] assms(1) by (simp add: keys edges g_def [symmetric])
  next
    case (Some order)
    have order: "acyclic (chain_edges chs)" "distinct order" "set order = set names"
      "\<forall>(i, j) \<in> chain_edges chs. \<exists>n < length order. order ! n = i \<and> j \<in> set (take n order)"
      using toposort_correct [of g] assms(1) by (simp_all add: keys edges nodes Some)
    have "subseq chain order" if "chain \<in> set chs" for chain
    proof (rule chain_subseq)
      show "set chain \<subseteq> set order" using that assms(2) order(3) by (auto simp: list_all_iff)
      show "\<forall>(c, p) \<in> set (zip (tl chain) chain). \<exists>n < length order. order ! n = c \<and> p \<in> set (take n order)"
        using that order(4) unfolding chain_edges_def by blast
    qed (rule order(2))
    then show ?thesis using order by (simp add: Some g_def [symmetric])
  qed
qed

lemma interface_init_table:
  "interface_init spec bases ordering_chains =
     (case add_bases bases (spec, case ordering_chains of None \<Rightarrow> [map ms_name spec] | Some c \<Rightarrow> c) of
        None \<Rightarrow> None
      | Some (spec, chs) \<Rightarrow>
          if \<not> distinct (map ms_name spec) \<or> \<not> list_all (list_all (\<lambda>name. name \<in> set (map ms_name spec))) chs then None
          else map_option (\<lambda>order. \<lparr> if_chains = chs, if_methods = method_table spec order \<rparr>)
                 (toposort (fold add_chain chs (map (\<lambda>name. (name, [])) (map ms_name spec)))))"
  by (auto simp: interface_init_def method_table_def Let_def split: option.splits)

lemma base_chain_kept:
  assumes "\<forall>chain \<in> set (get_ordering_chains (Some ms) i). subseq chain order" "chain \<in> set (if_chains i)"
  shows "subseq (filter (\<lambda>name. name \<in> set ms) chain) order"
  using assms by (cases "filter (\<lambda>name. name \<in> set ms) chain = []") (auto simp: get_ordering_chains_def)

lemma base_respected_table:
  assumes wf: "wf_interface i" and spec: "distinct (map ms_name spec)"
    and named: "\<forall>name \<in> set (included i inc). \<exists>m \<in> set spec. map_of (if_methods i) name = Some m"
    and chs: "\<forall>chain \<in> set (get_ordering_chains (Some (included i inc)) i). subseq chain order"
    and order: "distinct order" "set order = set (map ms_name spec)"
  shows "base_respected (method_table spec order) (i, inc)"
proof -
  note table = method_table [OF spec order]
  have "map_of (method_table spec order) name = Some m \<and> name \<in> fst ` set (method_table spec order)"
    if "map_of (if_methods i) name = Some m" "m \<in> set spec" for name m
  proof -
    have "(name, m) \<in> set (method_table spec order)" using table(1) wf_interfaceD [OF wf that(1)] that(2) by auto
    then show ?thesis using table(2) by (force simp: wf_interface_def)
  qed
  then have "\<forall>name \<in> set (included i inc). map_of (if_methods i) name = map_of (method_table spec order) name \<and>
      name \<in> fst ` set (method_table spec order)"
    using named by fastforce
  then show ?thesis using base_chain_kept [OF chs] by (simp add: base_respected_def)
qed


definition plain_method :: "string \<Rightarrow> method_spec" where
  "plain_method name = \<lparr> ms_name = name, ms_args = [], ms_rets = [], ms_call = True, ms_rdy = True, ms_count = None \<rparr>"

definition abc_interface :: interface where
  "abc_interface = the (interface_init (map plain_method [''z'', ''m'', ''a'']) [] (Some [[''z'', ''m''], [''m'', ''a'']]))"

lemmas interface_eval = abc_interface_def plain_method_def interface_init_def Let_def included_def get_ordering_chains_def
  toposort_def toposort_loop.simps ordered_items_def remove_items_def extra_items_in_deps_def add_dep_def

lemma abc_interface:
  "map fst (if_methods abc_interface) = [''z'', ''m'', ''a'']" "wf_interface abc_interface"
  by (simp_all add: interface_eval wf_interface_def)


text \<open>An order that a base fixes only through a method that is not included is lost: the base puts \<open>z\<close> before \<open>a\<close>, the
  interface built from these two puts \<open>a\<close> first. Here the two chains meet in \<open>m\<close>.\<close>

lemma included_order_lost:
  "map fst (if_methods abc_interface) = [''z'', ''m'', ''a''] \<and>
   map_option (\<lambda>i. map fst (if_methods i)) (interface_init [] [(abc_interface, Some [''z'', ''a''])] (Some [])) =
     Some [''a'', ''z'']"
  by (simp add: interface_eval)

text \<open>The two sides of a method have the same ports in opposite directions.\<close>

definition flip_ports :: "(string \<rightharpoonup> port_type \<times> data_type) \<Rightarrow> (string \<rightharpoonup> port_type \<times> data_type)" where
  "flip_ports r name = map_option (\<lambda>(p, t). (opposite_port p, t)) (r name)"

lemma flip_ports_simps [simp]:
  "flip_ports Map.empty = Map.empty" "flip_ports (r(name \<mapsto> (p, t))) = (flip_ports r)(name \<mapsto> (opposite_port p, t))"
  "opposite_port (opposite_port p) = p"
  by (auto simp: flip_ports_def fun_eq_iff opposite_port_def split: port_type.splits)

lemma flip_ports_fold:
  "flip_ports (fold (\<lambda>(name, t) r. r(name \<mapsto> (p, t))) xs r) =
   fold (\<lambda>(name, t) r. r(name \<mapsto> (opposite_port p, t))) xs (flip_ports r)"
  by (induction xs arbitrary: r) auto

lemma generate_flip: "generate (opposite_port d) m = flip_ports (generate d m)"
  by (simp add: generate_def Let_def flip_ports_fold)

end
