(* ===== verification/CL_Model.thy ===== *)
theory CL_Model
  imports Prelude "HOL-Library.Sublist"
begin

text \<open>
  The cycle-level models of \<open>lizard/model/clmodel.py\<close> (over \<open>lizard/model/hardware_model.py\<close>): within a cycle the methods
  of an interface run in the order of the interface, instance by instance; a method without a call signal runs by itself
  when the sequence passes it. The state is the position in that sequence, the results are the list of what ran.
\<close>

section \<open>The sequence of a cycle\<close>

record cl_method =
  cm_call :: bool
  cm_calls :: nat

text \<open>What ran: the method, the instance the sequence stood at and the index the call was resolved to.\<close>

type_synonym position = "nat \<times> nat"
type_synonym trace = "(position \<times> nat) list"

datatype cl_error = AllInvoked | IllegalOrder | IndexTooHigh

definition cl_advance :: "cl_method list \<Rightarrow> position \<Rightarrow> position" where
  "cl_advance ms st = (case st of (m, c) \<Rightarrow> if Suc c = cm_calls (ms ! m) then (Suc m, 0) else (m, Suc c))"

text \<open>A method without a call signal is invoked where the sequence stands; the invocation checks the index again.\<close>

definition cl_skip :: "cl_method list \<Rightarrow> position \<times> trace \<Rightarrow> cl_error + position \<times> trace" where
  "cl_skip ms st =
     (case st of (p, tr) \<Rightarrow>
        if cm_call (ms ! fst p) then Inr (cl_advance ms p, tr)
        else if cm_calls (ms ! fst p) \<le> snd p then Inl IndexTooHigh
        else Inr (cl_advance ms p, tr @ [(p, snd p)]))"

definition before_target :: "position \<Rightarrow> nat \<times> int \<Rightarrow> bool" where
  "before_target p tgt \<longleftrightarrow> fst p < fst tgt \<or> (fst p = fst tgt \<and> int (snd p) < snd tgt)"

partial_function (option) cl_drain ::
  "cl_method list \<Rightarrow> nat \<times> int \<Rightarrow> position \<times> trace \<Rightarrow> (cl_error + position \<times> trace) option" where
  "cl_drain ms tgt st =
     (if before_target (fst st) tgt
      then (case cl_skip ms st of Inl e \<Rightarrow> Some (Inl e) | Inr st' \<Rightarrow> cl_drain ms tgt st')
      else Some (Inr st))"

declare cl_drain.simps [code]

definition cl_drain_to ::
  "cl_method list \<Rightarrow> nat \<Rightarrow> int \<Rightarrow> position \<times> trace \<Rightarrow> (cl_error + position \<times> trace) option" where
  "cl_drain_to ms m i st =
     (if m < length ms
      then let limit = int (cm_calls (ms ! m)); i' = (if i = -1 then limit - 1 else i)
           in if i \<noteq> -1 \<and> i \<ge> limit then Some (Inl IndexTooHigh) else cl_drain ms (m, i') st
      else cl_drain ms (m, i) st)"

text \<open>\<open>call_index or s.sequence_call\<close>: index 0 counts as no index.\<close>

definition cl_call_index :: "nat option \<Rightarrow> nat \<Rightarrow> nat" where
  "cl_call_index index d = (case index of None \<Rightarrow> d | Some i \<Rightarrow> if i = 0 then d else i)"

definition cl_pre_call ::
  "cl_method list \<Rightarrow> nat \<Rightarrow> nat option \<Rightarrow> position \<times> trace \<Rightarrow> (cl_error + nat \<times> position \<times> trace) option" where
  "cl_pre_call ms m index st =
     (case fst st of (sm, sc) \<Rightarrow>
        if sm = length ms then Some (Inl AllInvoked)
        else if m < sm then Some (Inl IllegalOrder)
        else let i = (if m = sm then cl_call_index index sc else cl_call_index index 0)
             in map_option (map_sum id (Pair i)) (cl_drain_to ms m (int i) st))"

text \<open>A call from outside: drain up to the method, run it, advance.\<close>

definition cl_invoke ::
  "cl_method list \<Rightarrow> nat \<times> nat option \<Rightarrow> position \<times> trace \<Rightarrow> (cl_error + position \<times> trace) option" where
  "cl_invoke ms call st =
     (case call of (m, index) \<Rightarrow>
        map_option (map_sum id (\<lambda>(i, p, tr). (cl_advance ms p, tr @ [((m, snd p), i)]))) (cl_pre_call ms m index st))"

fun cl_calls ::
  "cl_method list \<Rightarrow> (nat \<times> nat option) list \<Rightarrow> position \<times> trace \<Rightarrow> (cl_error + position \<times> trace) option" where
  "cl_calls ms [] st = Some (Inr st)"
| "cl_calls ms (call # calls) st =
     (case cl_invoke ms call st of
        None \<Rightarrow> None
      | Some (Inl e) \<Rightarrow> Some (Inl e)
      | Some (Inr st) \<Rightarrow> cl_calls ms calls st)"

text \<open>A whole cycle: start at the first method, run the calls, drain what is left.\<close>

definition cl_cycle :: "cl_method list \<Rightarrow> (nat \<times> nat option) list \<Rightarrow> (cl_error + trace) option" where
  "cl_cycle ms calls =
     (case cl_calls ms calls ((0, 0), []) of
        None \<Rightarrow> None
      | Some (Inl e) \<Rightarrow> Some (Inl e)
      | Some (Inr st) \<Rightarrow> map_option (map_sum id snd) (cl_drain_to ms (length ms) (-1) st))"

section \<open>Positions\<close>

definition positions_before :: "cl_method list \<Rightarrow> position \<Rightarrow> position list" where
  "positions_before ms st =
     concat (map (\<lambda>k. map (Pair k) [0..<cm_calls (ms ! k)]) [0..<fst st]) @ map (Pair (fst st)) [0..<snd st]"

definition positions :: "cl_method list \<Rightarrow> position list" where
  "positions ms = concat (map (\<lambda>k. map (Pair k) [0..<cm_calls (ms ! k)]) [0..<length ms])"

text \<open>A position of the sequence, or its end.\<close>

definition on_sequence :: "cl_method list \<Rightarrow> position \<Rightarrow> bool" where
  "on_sequence ms p \<longleftrightarrow> (fst p < length ms \<and> snd p < cm_calls (ms ! fst p)) \<or> p = (length ms, 0)"

definition all_callable :: "cl_method list \<Rightarrow> bool" where
  "all_callable ms \<longleftrightarrow> list_all (\<lambda>m. 0 < cm_calls m) ms"

lemma positions_before_end: "positions_before ms (length ms, 0) = positions ms"
  by (simp add: positions_before_def positions_def)

lemma positions_before_start: "positions_before ms (0, 0) = []"
  by (simp add: positions_before_def)

lemma positions_before_advance:
  "fst p < length ms \<Longrightarrow> snd p < cm_calls (ms ! fst p) \<Longrightarrow>
   positions_before ms (cl_advance ms p) = positions_before ms p @ [p]"
proof (cases "Suc (snd p) = cm_calls (ms ! fst p)")
  case True
  then have "cl_advance ms p = (Suc (fst p), 0)" by (simp add: cl_advance_def case_prod_beta)
  moreover have "[0..<cm_calls (ms ! fst p)] = [0..<snd p] @ [snd p]" unfolding True [symmetric] by simp
  ultimately show ?thesis by (simp add: positions_before_def)
next
  case False
  then have "cl_advance ms p = (fst p, Suc (snd p))" by (simp add: cl_advance_def case_prod_beta)
  then show ?thesis by (simp add: positions_before_def)
qed

lemma advance_on_sequence:
  "all_callable ms \<Longrightarrow> fst p < length ms \<Longrightarrow> snd p < cm_calls (ms ! fst p) \<Longrightarrow> on_sequence ms (cl_advance ms p)"
  by (cases p) (auto simp: on_sequence_def cl_advance_def all_callable_def list_all_length less_Suc_eq_le le_eq_less_or_eq)

text \<open>What holds when the sequence stands at a position: what ran is in order, and no method that runs by itself was
  passed over.\<close>

definition in_order :: "cl_method list \<Rightarrow> position list \<Rightarrow> trace \<Rightarrow> bool" where
  "in_order ms ps tr \<longleftrightarrow>
     subseq (map fst tr) ps \<and> (\<forall>p \<in> set ps. \<not> cm_call (ms ! fst p) \<longrightarrow> p \<in> set (map fst tr))"

lemma in_order_run: "in_order ms ps tr \<Longrightarrow> in_order ms (ps @ [p]) (tr @ [(p, i)])"
  by (auto simp: in_order_def intro: list_emb_append_mono)

lemma in_order_pass: "in_order ms ps tr \<Longrightarrow> cm_call (ms ! fst p) \<Longrightarrow> in_order ms (ps @ [p]) tr"
  by (auto simp: in_order_def)

section \<open>Draining\<close>

definition target_of :: "cl_method list \<Rightarrow> nat \<times> int \<Rightarrow> position \<Rightarrow> bool" where
  "target_of ms tgt q \<longleftrightarrow> on_sequence ms q \<and>
     (tgt = (fst q, int (snd q)) \<or> (tgt = (length ms, -1) \<and> q = (length ms, 0)))"

lemma advance_before:
  "target_of ms tgt q \<Longrightarrow> on_sequence ms p \<Longrightarrow> before_target p tgt \<Longrightarrow>
   fst p < length ms \<and> snd p < cm_calls (ms ! fst p) \<and> (before_target (cl_advance ms p) tgt \<or> cl_advance ms p = q)"
  by (cases p; cases q) (auto simp: target_of_def on_sequence_def before_target_def cl_advance_def)

definition cl_remaining :: "cl_method list \<Rightarrow> position \<Rightarrow> nat" where
  "cl_remaining ms p = (\<Sum>k\<leftarrow>[fst p..<length ms]. cm_calls (ms ! k)) - snd p"

lemma cl_remaining_advance:
  "fst p < length ms \<Longrightarrow> snd p < cm_calls (ms ! fst p) \<Longrightarrow> cl_remaining ms (cl_advance ms p) < cl_remaining ms p"
  by (cases p) (auto simp: cl_remaining_def cl_advance_def upt_conv_Cons)

text \<open>Draining reaches the target, unless the sequence stands behind it already, and returns.\<close>

lemma drain_reaches:
  assumes "all_callable ms" "target_of ms tgt q" "on_sequence ms p" "in_order ms (positions_before ms p) tr"
  shows "\<exists>tr'. cl_drain ms tgt (p, tr) = Some (Inr (if before_target p tgt then q else p, tr')) \<and>
    in_order ms (positions_before ms (if before_target p tgt then q else p)) tr' \<and>
    filter (\<lambda>e. cm_call (ms ! fst (fst e))) tr' = filter (\<lambda>e. cm_call (ms ! fst (fst e))) tr"
  using assms(3,4)
proof (induction "cl_remaining ms p" arbitrary: p tr rule: less_induct)
  case less
  show ?case
  proof (cases "before_target p tgt")
    case True
    note ad = advance_before [OF assms(2) less.prems(1) True]
    let ?tr = "if cm_call (ms ! fst p) then tr else tr @ [(p, snd p)]"
    have in_order: "in_order ms (positions_before ms (cl_advance ms p)) ?tr"
      using less.prems(2) ad by (auto simp: positions_before_advance intro: in_order_run in_order_pass)
    have step: "cl_drain ms tgt (p, tr) = cl_drain ms tgt (cl_advance ms p, ?tr)"
      using ad by (subst cl_drain.simps) (simp add: True cl_skip_def)
    have at: "(if before_target (cl_advance ms p) tgt then q else cl_advance ms p) = q"
      using ad by auto
    obtain tr' where "cl_drain ms tgt (cl_advance ms p, ?tr) = Some (Inr (q, tr'))" "in_order ms (positions_before ms q) tr'"
      "filter (\<lambda>e. cm_call (ms ! fst (fst e))) tr' = filter (\<lambda>e. cm_call (ms ! fst (fst e))) ?tr"
      using less.hyps [OF cl_remaining_advance advance_on_sequence in_order] ad assms(1) unfolding at by blast
    then show ?thesis using step True by auto
  next
    case False
    then show ?thesis using less.prems by (subst cl_drain.simps) simp
  qed
qed

section \<open>Calls\<close>

abbreviation called :: "cl_method list \<Rightarrow> trace \<Rightarrow> nat list" where
  "called ms tr \<equiv> map (\<lambda>e. fst (fst e)) (filter (\<lambda>e. cm_call (ms ! fst (fst e))) tr)"

definition cl_index :: "position \<Rightarrow> nat \<Rightarrow> nat option \<Rightarrow> nat" where
  "cl_index p m index = cl_call_index index (if m = fst p then snd p else 0)"

text \<open>Where an accepted call runs: at the index it asks for, or where the sequence stands when that is further.\<close>

definition cl_runs_at :: "position \<Rightarrow> nat \<Rightarrow> nat option \<Rightarrow> position" where
  "cl_runs_at p m index = (m, if m = fst p then max (snd p) (cl_index p m index) else cl_index p m index)"

lemma cl_pre_call_in_order:
  assumes "m < length ms" "fst p \<noteq> length ms" "fst p \<le> m"
  shows "cl_pre_call ms m index (p, tr) =
    (if cm_calls (ms ! m) \<le> cl_index p m index then Some (Inl IndexTooHigh)
     else map_option (map_sum id (Pair (cl_index p m index))) (cl_drain ms (m, int (cl_index p m index)) (p, tr)))"
proof -
  have "cl_pre_call ms m index (p, tr) =
      map_option (map_sum id (Pair (cl_index p m index))) (cl_drain_to ms m (int (cl_index p m index)) (p, tr))"
    using assms(2,3) by (cases "m = fst p") (auto simp: cl_pre_call_def cl_index_def case_prod_beta Let_def)
  then show ?thesis using assms(1) by (auto simp: cl_drain_to_def)
qed

lemma cl_invoke_error:
  assumes "m < length ms" "on_sequence ms p"
  shows "fst p = length ms \<Longrightarrow> cl_invoke ms (m, index) (p, tr) = Some (Inl AllInvoked)"
    and "fst p \<noteq> length ms \<Longrightarrow> m < fst p \<Longrightarrow> cl_invoke ms (m, index) (p, tr) = Some (Inl IllegalOrder)"
    and "fst p \<noteq> length ms \<Longrightarrow> fst p \<le> m \<Longrightarrow> cm_calls (ms ! m) \<le> cl_index p m index \<Longrightarrow>
      cl_invoke ms (m, index) (p, tr) = Some (Inl IndexTooHigh)"
  using assms(1) by (simp_all add: cl_invoke_def cl_pre_call_in_order) (simp_all add: cl_pre_call_def case_prod_beta)

lemma cl_invoke_runs:
  assumes "all_callable ms" "m < length ms" "on_sequence ms p" "in_order ms (positions_before ms p) tr"
    and "fst p \<le> m" "cl_index p m index < cm_calls (ms ! m)"
  shows "\<exists>tr'. cl_invoke ms (m, index) (p, tr) = Some (Inr (cl_advance ms (cl_runs_at p m index), tr')) \<and>
    on_sequence ms (cl_advance ms (cl_runs_at p m index)) \<and>
    in_order ms (positions_before ms (cl_advance ms (cl_runs_at p m index))) tr' \<and>
    called ms tr' = called ms tr @ (if cm_call (ms ! m) then [m] else [])"
proof -
  let ?i = "cl_index p m index" and ?q = "cl_runs_at p m index"
  have q: "fst ?q = m" "snd ?q < cm_calls (ms ! m)"
    using assms(2,3,5,6) by (auto simp: cl_runs_at_def on_sequence_def)
  have tgt: "target_of ms (m, int ?i) (m, ?i)"
    using assms(2,6) by (simp add: target_of_def on_sequence_def)
  have at: "(if before_target p (m, int ?i) then (m, ?i) else p) = ?q"
    using assms(5) by (cases p) (auto simp: before_target_def cl_runs_at_def)
  obtain tr' where drain: "cl_drain ms (m, int ?i) (p, tr) = Some (Inr (?q, tr'))" "in_order ms (positions_before ms ?q) tr'"
    "filter (\<lambda>e. cm_call (ms ! fst (fst e))) tr' = filter (\<lambda>e. cm_call (ms ! fst (fst e))) tr"
    using drain_reaches [OF assms(1) tgt assms(3,4)] unfolding at by blast
  have "cl_pre_call ms m index (p, tr) = Some (Inr (?i, ?q, tr'))"
    using drain(1) assms(2,5,6) by (simp add: cl_pre_call_in_order)
  moreover have "(m, snd ?q) = ?q" using q(1) by (metis prod.collapse)
  ultimately have "cl_invoke ms (m, index) (p, tr) = Some (Inr (cl_advance ms ?q, tr' @ [(?q, ?i)]))"
    by (simp add: cl_invoke_def)
  moreover have "positions_before ms (cl_advance ms ?q) = positions_before ms ?q @ [?q]"
    using q assms(2) by (simp add: positions_before_advance)
  moreover have "on_sequence ms (cl_advance ms ?q)" using advance_on_sequence assms(1,2) q by simp
  ultimately show ?thesis using in_order_run [OF drain(2)] drain(3) q(1) by auto
qed

lemma cl_invoke_cases:
  assumes "all_callable ms" "m < length ms" "on_sequence ms p" "in_order ms (positions_before ms p) tr"
  obtains e where "cl_invoke ms (m, index) (p, tr) = Some (Inl e)"
  | p' tr' where "cl_invoke ms (m, index) (p, tr) = Some (Inr (p', tr'))" "on_sequence ms p'"
    "in_order ms (positions_before ms p') tr'" "called ms tr' = called ms tr @ (if cm_call (ms ! m) then [m] else [])"
  using cl_invoke_error [OF assms(2,3)] cl_invoke_runs [OF assms]
  by (metis (no_types, lifting) linorder_not_less)

lemma cl_calls_in_order:
  assumes "all_callable ms" "list_all (\<lambda>(m, index). m < length ms) calls" "on_sequence ms p"
    "in_order ms (positions_before ms p) tr"
  shows "\<exists>r. cl_calls ms calls (p, tr) = Some r \<and>
    (\<forall>p' tr'. r = Inr (p', tr') \<longrightarrow> on_sequence ms p' \<and> in_order ms (positions_before ms p') tr' \<and>
       called ms tr' = called ms tr @ filter (\<lambda>m. cm_call (ms ! m)) (map fst calls))"
  using assms(2-)
proof (induction calls arbitrary: p tr)
  case (Cons call calls)
  obtain m index where call: "call = (m, index)" by force
  with Cons.prems have m: "m < length ms" by simp
  show ?case
  proof (rule cl_invoke_cases [OF assms(1) m Cons.prems(2,3), of index])
    fix p' tr'
    assume step: "cl_invoke ms (m, index) (p, tr) = Some (Inr (p', tr'))" "on_sequence ms p'"
      "in_order ms (positions_before ms p') tr'" "called ms tr' = called ms tr @ (if cm_call (ms ! m) then [m] else [])"
    have "list_all (\<lambda>(m, index). m < length ms) calls" using Cons.prems(1) by simp
    from Cons.IH [OF this step(2,3)] show ?thesis using step(1,4) by (auto simp: call)
  qed (auto simp: call)
qed auto

text \<open>Which sequences of calls are accepted: methods in order, each at most as often as the interface still permits.\<close>

definition permitted :: "cl_method list \<Rightarrow> position \<Rightarrow> nat list \<Rightarrow> bool" where
  "permitted ms p ks \<longleftrightarrow> sorted ks \<and> (\<forall>k \<in> set ks. fst p \<le> k) \<and>
     (\<forall>k < length ms. count_list ks k \<le> cm_calls (ms ! k) - (if k = fst p then snd p else 0))"

lemma count_list_above: "\<forall>j \<in> set ks. k < j \<Longrightarrow> count_list ks (k :: nat) = 0"
  by (metis count_list_0_iff less_irrefl)

lemma permitted_start: "permitted ms (m, 0) ks \<longleftrightarrow>
   sorted ks \<and> (\<forall>k \<in> set ks. m \<le> k) \<and> (\<forall>k < length ms. count_list ks k \<le> cm_calls (ms ! k))"
proof -
  have "cm_calls (ms ! k) - (if k = fst (m, 0) then snd (m, 0) else 0) = cm_calls (ms ! k)" for k by simp
  then show ?thesis unfolding permitted_def by simp
qed

lemma permitted_below:
  assumes "fst p < m"
  shows "permitted ms p (m # ks) \<longleftrightarrow> permitted ms (m, 0) (m # ks)"
proof -
  have "count_list (m # ks) (fst p) = 0" if "sorted (m # ks)"
    using assms that by (intro count_list_above) auto
  then show ?thesis
    unfolding permitted_start using assms
    by (auto simp: permitted_def simp del: count_list.simps intro: order_trans [OF less_imp_le])
qed

lemma permitted_step:
  assumes m: "m < length ms" "c < cm_calls (ms ! m)" and calls: "all_callable ms"
  shows "permitted ms (m, c) (m # ks) \<longleftrightarrow> permitted ms (cl_advance ms (m, c)) ks"
proof (cases "Suc c = cm_calls (ms ! m)")
  case True
  then have ad: "cl_advance ms (m, c) = (Suc m, 0)" by (simp add: cl_advance_def)
  have "count_list ks m = 0 \<longleftrightarrow> m \<notin> set ks" by (rule count_list_0_iff)
  moreover have "Suc n \<le> cm_calls (ms ! m) - c \<longleftrightarrow> n = 0" for n using True by linarith
  ultimately have "permitted ms (m, c) (m # ks) \<longleftrightarrow> sorted ks \<and> (\<forall>k \<in> set ks. m \<le> k) \<and> m \<notin> set ks \<and>
      (\<forall>k < length ms. k \<noteq> m \<longrightarrow> count_list ks k \<le> cm_calls (ms ! k))"
    using m by (auto simp: permitted_def)
  also have "\<dots> \<longleftrightarrow> permitted ms (Suc m, 0) ks"
    unfolding permitted_start by (auto simp: Suc_le_eq le_less count_list_above)
  finally show ?thesis unfolding ad .
next
  case False
  then have ad: "cl_advance ms (m, c) = (m, Suc c)" by (simp add: cl_advance_def)
  have "Suc n \<le> cm_calls (ms ! m) - c \<longleftrightarrow> n \<le> cm_calls (ms ! m) - Suc c" for n using m(2) by linarith
  then show ?thesis unfolding ad using m(1) by (auto simp: permitted_def)
qed

lemma cl_calls_accepted:
  assumes "all_callable ms" "list_all (\<lambda>m. m < length ms) ks" "on_sequence ms p" "in_order ms (positions_before ms p) tr"
  shows "(\<exists>st. cl_calls ms (map (\<lambda>m. (m, None)) ks) (p, tr) = Some (Inr st)) \<longleftrightarrow> permitted ms p ks"
  using assms(2-)
proof (induction ks arbitrary: p tr)
  case (Cons m ks)
  then have m: "m < length ms" by simp
  show ?case
  proof (cases "fst p \<le> m")
    case False
    then have "\<exists>e. cl_invoke ms (m, None) (p, tr) = Some (Inl e)"
      using cl_invoke_error [OF m Cons.prems(2)] by (metis not_le_imp_less)
    then show ?thesis using False by (auto simp: permitted_def)
  next
    case True
    let ?c = "if m = fst p then snd p else 0"
    have q: "cl_runs_at p m None = (m, ?c)" by (simp add: cl_runs_at_def cl_index_def cl_call_index_def)
    have c: "?c < cm_calls (ms ! m)"
      using Cons.prems(2) m True assms(1) by (auto simp: on_sequence_def all_callable_def list_all_length)
    then have "cl_index p m None < cm_calls (ms ! m)" by (simp add: cl_index_def cl_call_index_def split: if_splits)
    from cl_invoke_runs [OF assms(1) m Cons.prems(2,3) True this] obtain tr' where
      step: "cl_invoke ms (m, None) (p, tr) = Some (Inr (cl_advance ms (m, ?c), tr'))"
        "on_sequence ms (cl_advance ms (m, ?c))" "in_order ms (positions_before ms (cl_advance ms (m, ?c))) tr'"
      unfolding q by blast
    have "list_all (\<lambda>m. m < length ms) ks" using Cons.prems(1) by simp
    note Cons.IH [OF this step(2,3)]
    also have "permitted ms (cl_advance ms (m, ?c)) ks \<longleftrightarrow> permitted ms (m, ?c) (m # ks)"
      using permitted_step [OF m c assms(1)] by simp
    also have "\<dots> \<longleftrightarrow> permitted ms p (m # ks)"
      using permitted_below [of p m ms ks] True by (cases "m = fst p") (auto simp: le_less)
    finally show ?thesis using step(1) by simp
  qed
qed (simp add: permitted_def)

section \<open>Properties\<close>


definition queue_methods :: "cl_method list" where
  "queue_methods = [\<lparr> cm_call = True, cm_calls = 2 \<rparr>, \<lparr> cm_call = False, cm_calls = 1 \<rparr>, \<lparr> cm_call = True, cm_calls = 2 \<rparr>]"


text \<open>A method with a call signal and an array of zero instances, which the specification permits, is never passed: the
  sequence counts its calls up for ever. A cycle of an interface that begins with such a method does not return.\<close>

lemma cl_drain_returns_callable:
  "cl_drain ms tgt st = Some r \<Longrightarrow> fst (fst st) < fst tgt \<and> cm_call (ms ! fst (fst st)) \<longrightarrow> cm_calls (ms ! fst (fst st)) \<noteq> 0"
proof (erule cl_drain.raw_induct [rotated])
  fix drain ms tgt st r
  assume IH: "\<And>ms tgt st r. drain ms tgt st = Some r \<Longrightarrow>
      fst (fst st) < fst tgt \<and> cm_call (ms ! fst (fst st)) \<longrightarrow> cm_calls (ms ! fst (fst st)) \<noteq> 0"
    and step: "(if before_target (fst st) tgt
      then (case cl_skip ms st of Inl e \<Rightarrow> Some (Inl e) | Inr st' \<Rightarrow> drain ms tgt st') else Some (Inr st)) = Some r"
  show "fst (fst st) < fst tgt \<and> cm_call (ms ! fst (fst st)) \<longrightarrow> cm_calls (ms ! fst (fst st)) \<noteq> 0"
  proof (intro impI notI)
    assume at: "fst (fst st) < fst tgt \<and> cm_call (ms ! fst (fst st))" "cm_calls (ms ! fst (fst st)) = 0"
    then have "drain ms tgt (cl_advance ms (fst st), snd st) = Some r"
      using step by (simp add: before_target_def cl_skip_def case_prod_beta)
    moreover have "fst (cl_advance ms (fst st)) = fst (fst st)" using at(2) by (simp add: cl_advance_def case_prod_beta)
    ultimately show False using IH [of ms tgt "(cl_advance ms (fst st), snd st)" r] at by simp
  qed
qed

lemma cl_cycle_never_returns:
  assumes "ms \<noteq> []" "cm_call (ms ! 0)" "cm_calls (ms ! 0) = 0"
  shows "cl_cycle ms [] = None"
proof -
  have "cl_drain ms (length ms, -1) ((0, 0), []) = None"
    using cl_drain_returns_callable [of ms "(length ms, -1)" "((0, 0), [])"] assms
    by (cases "cl_drain ms (length ms, -1) ((0, 0), [])") auto
  then show ?thesis by (simp add: cl_cycle_def cl_drain_to_def)
qed

text \<open>An index below the one the sequence stands at is neither refused nor heeded.\<close>

lemma cl_low_index_accepted:
  "cl_cycle [\<lparr> cm_call = True, cm_calls = 3 \<rparr>] [(0, Some 1), (0, Some 1)] = Some (Inr [((0, 1), 1), ((0, 2), 1)])"
  by (simp add: cl_cycle_def cl_invoke_def cl_pre_call_def cl_drain_to_def cl_call_index_def
      cl_drain.simps cl_skip_def cl_advance_def before_target_def Let_def)

end
