(* ===== verification/Killable.thy ===== *)
theory Killable
  imports Pipeline Multiplier
begin

text \<open>
  Killing messages inside a pipeline of several stages: \<open>lizard/util/rtl/killable_pipeline_wrapper.py\<close>. The internal
  pipeline knows nothing of kills. Beside it runs a chain of tracking valid-value managers, one per stage, that holds
  what a kill may change of each message in flight and marks the killed ones dead; a dead message that comes out of the
  internal pipeline is eaten. The internal pipeline is a parameter, its contract the locale \<open>internal_pipeline\<close>; the
  specification is the queue of the messages that are still alive.
\<close>

section \<open>The internal pipeline\<close>

text \<open>\<open>pi_env\<close> is what the methods it requires beside its input answer in the cycle, \<open>po_calls\<close> what it calls them
  with.\<close>

record ('m, 'e) pipe_in =
  pi_in_peek_rdy :: bool
  pi_in_peek_msg :: 'm
  pi_take_call :: bool
  pi_env :: 'e

record ('o, 'c) pipe_out =
  po_in_take_call :: bool
  po_peek_rdy :: bool
  po_peek_msg :: 'o
  po_calls :: 'c

section \<open>The tracking chain\<close>

text \<open>The outputs of a tracking manager do not depend on what is added to it.\<close>

definition tracking_peek :: "('a, 'k) drop_controller \<Rightarrow> 'k \<Rightarrow> bool \<Rightarrow> 'a vvm \<Rightarrow> 'a vvm_out" where
  "tracking_peek check k take_call v =
     snd (vvm_step True check v \<lparr> vv_kill_msg = k, vv_take_call = take_call, vv_add_call = False, vv_add_msg = vv_out v,
                                  vv_add_dead = False \<rparr>)"

text \<open>\<open>handle_shift\<close>: the take call of the first manager of a chain whose last one is taken by the output.\<close>

primrec shadow_take :: "('a, 'k) drop_controller \<Rightarrow> 'k \<Rightarrow> bool \<Rightarrow> 'a vvm list \<Rightarrow> bool" where
  "shadow_take check k take_call [] = take_call"
| "shadow_take check k take_call (v # vs) =
     (if vs = [] then take_call
      else vv_peek_rdy (tracking_peek check k False v) \<and>
           vv_add_rdy (tracking_peek check k (shadow_take check k take_call vs) (hd vs)))"

primrec shadow_step ::
  "('a, 'k) drop_controller \<Rightarrow> 'k \<Rightarrow> bool \<Rightarrow> bool \<times> 'a \<times> bool \<Rightarrow> 'a vvm list \<Rightarrow> 'a vvm list" where
  "shadow_step check k take_call add [] = []"
| "shadow_step check k take_call add (v # vs) =
     (let (add_call, add_msg, add_dead) = add; take_v = shadow_take check k take_call (v # vs);
          (v', out) = vvm_step True check v \<lparr> vv_kill_msg = k, vv_take_call = take_v, vv_add_call = add_call,
                        vv_add_msg = add_msg, vv_add_dead = add_dead \<rparr>
      in v' # shadow_step check k take_call (take_v, vv_peek_msg out, vv_peek_dead out) vs)"

section \<open>The wrapper\<close>

record ('s, 'k) wrapper =
  wr_internal_pipeline :: 's
  wr_vvms :: "'k vvm list"

record ('m, 'k, 'e) wrapper_in =
  wi_in_peek_rdy :: bool
  wi_in_peek_msg :: 'm
  wi_kill_msg :: 'k
  wi_take_call :: bool
  wi_env :: 'e

record ('o, 'c) wrapper_out =
  wo_in_take_call :: bool
  wo_peek_rdy :: bool
  wo_peek_msg :: 'o
  wo_calls :: 'c

text \<open>\<open>split\<close> and \<open>fuse\<close> are the adapters. The peek methods of both parts are read before the take is decided.\<close>

definition wrapper_step ::
  "('m \<Rightarrow> 'i \<times> 'a) \<Rightarrow> ('x \<Rightarrow> 'a \<Rightarrow> 'o) \<Rightarrow> ('a, 'k) drop_controller \<Rightarrow>
   ('s \<Rightarrow> ('i, 'e) pipe_in \<Rightarrow> 's \<times> ('x, 'c) pipe_out) \<Rightarrow>
   (('s, 'a) wrapper, ('m, 'k, 'e) wrapper_in, ('o, 'c) wrapper_out) machine" where
  "wrapper_step split fuse check internal w i =
     (let (internal_in, kill_data) = split (wi_in_peek_msg i); k = wi_kill_msg i;
          base = \<lparr> pi_in_peek_rdy = wi_in_peek_rdy i, pi_in_peek_msg = internal_in, pi_take_call = False,
                   pi_env = wi_env i \<rparr>;
          peek = snd (internal (wr_internal_pipeline w) base);
          tail = tracking_peek check k False (last (wr_vvms w));
          both = (po_peek_rdy peek \<and> vv_peek_rdy tail);
          dead = vv_peek_dead tail;
          take_call = (if both then (if \<not> dead then wi_take_call i else True) else False);
          (s', out) = internal (wr_internal_pipeline w) (base\<lparr>pi_take_call := take_call\<rparr>)
      in (\<lparr> wr_internal_pipeline = s',
            wr_vvms = shadow_step check k take_call (po_in_take_call out, kill_data, False) (wr_vvms w) \<rparr>,
          \<lparr> wo_in_take_call = po_in_take_call out, wo_peek_rdy = (both \<and> \<not> dead),
            wo_peek_msg = fuse (po_peek_msg out) (vv_peek_msg tail), wo_calls = po_calls out \<rparr>))"

section \<open>The chain is a queue\<close>

definition vvm_slot :: "'a vvm \<Rightarrow> ('a \<times> bool) option" where
  "vvm_slot v = (if vv_val v then Some (vv_out v, vv_dead v) else None)"

text \<open>What a cycle's kill message does to an entry that stays.\<close>

definition aged :: "('a, 'k) drop_controller \<Rightarrow> 'k \<Rightarrow> 'a \<times> bool \<Rightarrow> 'a \<times> bool" where
  "aged check k = (\<lambda>(a, dead). (fst (check k a), dead \<or> \<not> snd (check k a)))"

definition tracked :: "'a vvm list \<Rightarrow> ('a \<times> bool) list" where
  "tracked vs = in_flight (map vvm_slot vs)"

lemma tracking_peek_simps [simp]:
  "vv_peek_rdy (tracking_peek check k t v) = vv_val v"
  "vv_peek_msg (tracking_peek check k t v) = fst (check k (vv_out v))"
  "vv_peek_dead (tracking_peek check k t v) = (vv_dead v \<or> \<not> snd (check k (vv_out v)))"
  "vv_add_rdy (tracking_peek check k t v) = (\<not> vv_val v \<or> t)"
  by (simp_all add: tracking_peek_def vvm_step_def Let_def split: prod.splits)

lemma hd_stage_rdy: "hd (stage_rdy (v # vs) t) = (\<not> v \<or> hd (stage_rdy vs t))"
  by (simp add: Let_def)

lemma shadow_take_rdy:
  "vs \<noteq> [] \<Longrightarrow> (\<not> vv_val (hd vs) \<or> shadow_take check k take_call vs) = hd (stage_rdy (map vv_val vs) take_call)"
proof (induction vs)
  case (Cons v vs)
  then show ?case by (cases "vs = []") (auto simp: Let_def)
qed simp

lemma valids_of_slots: "valids_of (map vvm_slot vs) = map vv_val vs"
  by (simp add: vvm_slot_def)

lemma valids_of_map_option [simp]: "valids_of (map (map_option f) xs) = valids_of xs"
  by (simp add: comp_def)

lemma shadow_step_Cons:
  "shadow_step check k take_call add (v # vs) =
     fst (vvm_step True check v \<lparr> vv_kill_msg = k, vv_take_call = shadow_take check k take_call (v # vs),
            vv_add_call = fst add, vv_add_msg = fst (snd add), vv_add_dead = snd (snd add) \<rparr>) #
     shadow_step check k take_call (shadow_take check k take_call (v # vs), fst (check k (vv_out v)),
            vv_dead v \<or> \<not> snd (check k (vv_out v))) vs"
  by (cases add) (simp add: vvm_step_def Let_def split: prod.splits)

lemma shadow_step_slots:
  assumes "fst add \<longrightarrow> hd (stage_rdy (map vv_val vs) take_call)" and "take_call \<longrightarrow> vv_val (last vs)"
  shows "map vvm_slot (shadow_step check k take_call add vs) =
         advance_items take_call (if fst add then Some (snd add) else None) (map (map_option (aged check k)) (map vvm_slot vs))"
  using assms
proof (induction vs arbitrary: add)
  case (Cons v vs)
  let ?t = "shadow_take check k take_call (v # vs)"
  let ?next = "(?t, fst (check k (vv_out v)), vv_dead v \<or> \<not> snd (check k (vv_out v)))"
  have t: "vs \<noteq> [] \<Longrightarrow> ?t = (vv_val v \<and> hd (stage_rdy (map vv_val vs) take_call))"
    using shadow_take_rdy [of vs check k take_call] by auto
  have tail: "map vvm_slot (shadow_step check k take_call ?next vs) =
      advance_items take_call (map_option (aged check k) (vvm_slot v)) (map (map_option (aged check k)) (map vvm_slot vs))"
  proof (cases "vs = []")
    case False
    have IH: "map vvm_slot (shadow_step check k take_call ?next vs) =
        advance_items take_call (if ?t then Some (snd ?next) else None) (map (map_option (aged check k)) (map vvm_slot vs))"
      using Cons.IH [of ?next] Cons.prems False t by auto
    show ?thesis
    proof (cases "hd (stage_rdy (map vv_val vs) take_call)")
      case True
      then show ?thesis unfolding IH using t [OF False] by (simp add: vvm_slot_def aged_def)
    next
      case stuck: False
      obtain u us where us: "vs = u # us" using False by (cases vs) auto
      then have "vv_val u" "\<not> hd (stage_rdy (map vv_val us) take_call)" using stuck by (auto simp: Let_def)
      then show ?thesis unfolding IH using us by (auto simp: vvm_slot_def comp_def)
    qed
  qed simp
  have head: "vvm_slot (fst (vvm_step True check v \<lparr> vv_kill_msg = k, vv_take_call = ?t, vv_add_call = fst add,
        vv_add_msg = fst (snd add), vv_add_dead = snd (snd add) \<rparr>)) =
      (if vvm_slot v = None \<or> hd (stage_rdy (map vv_val vs) take_call)
       then (if fst add then Some (snd add) else None) else map_option (aged check k) (vvm_slot v))"
    using Cons.prems t by (cases "vs = []") (auto simp: vvm_step_def vvm_slot_def aged_def Let_def split: prod.splits)
  show ?case
    unfolding shadow_step_Cons list.map advance_items.simps head tail
    by (simp add: valids_of_slots comp_def vvm_slot_def)
qed simp


lemma in_flight_map_option: "in_flight (map (map_option f) xs) = map f (in_flight xs)"
  by (induction xs) (auto split: option.split)

lemma length_in_flight_le: "length (in_flight xs) \<le> length xs"
  by (induction xs) (auto split: option.split)

lemma stage_rdy_room: "hd (stage_rdy (valids_of xs) t) \<longleftrightarrow> t \<or> length (in_flight xs) < length xs"
proof (induction xs)
  case (Cons x xs)
  then show ?case using length_in_flight_le [of xs] by (auto simp: Let_def split: option.split)
qed simp

lemma length_shadow_step [simp]: "length (shadow_step check k take_call add vs) = length vs"
  by (induction vs arbitrary: add) (auto simp: shadow_step_Cons simp del: shadow_step.simps(2))

lemma tracked_last:
  "vs \<noteq> [] \<Longrightarrow> vv_val (last vs) \<Longrightarrow> tracked vs = (vv_out (last vs), vv_dead (last vs)) # tl (tracked vs)"
  unfolding tracked_def by (rule in_flight_last) (simp_all add: last_map vvm_slot_def)

lemma shadow_step_tracked:
  assumes "vs \<noteq> []" and "fst add \<longrightarrow> take_call \<or> length (tracked vs) < length vs" and "take_call \<longrightarrow> vv_val (last vs)"
  shows "tracked (shadow_step check k take_call add vs) =
         (if take_call then tl (map (aged check k) (tracked vs)) else map (aged check k) (tracked vs)) @
         (if fst add then [snd add] else [])"
proof -
  let ?xs = "map (map_option (aged check k)) (map vvm_slot vs)"
  have rdy: "hd (stage_rdy (map vv_val vs) take_call) \<longleftrightarrow> take_call \<or> length (tracked vs) < length vs"
    using stage_rdy_room [of "map vvm_slot vs" take_call] unfolding valids_of_slots tracked_def by simp
  have "tracked (shadow_step check k take_call add vs) =
      in_flight (advance_items take_call (if fst add then Some (snd add) else None) ?xs)"
    unfolding tracked_def using shadow_step_slots [of add vs take_call check k] assms rdy by simp
  also have "\<dots> = (if take_call \<and> last ?xs \<noteq> None then tl (in_flight ?xs) else in_flight ?xs) @
      (if fst add then [snd add] else [])"
    using in_flight_advance [of ?xs take_call "if fst add then Some (snd add) else None"] assms rdy
    unfolding valids_of_map_option valids_of_slots by simp
  also have "last ?xs \<noteq> None \<longleftrightarrow> vv_val (last vs)"
    using assms(1) by (simp add: last_map vvm_slot_def)
  finally show ?thesis
    using assms(3) unfolding in_flight_map_option tracked_def [symmetric] by simp
qed

section \<open>The contract\<close>

text \<open>What the wrapper needs of a pipeline of \<open>nstages\<close> stages: it is a queue of the messages it accepted, it accepts
  one only when there is room or the first one leaves, and what it shows was computed from the first one.\<close>

locale internal_pipeline =
  fixes step :: "'s \<Rightarrow> ('i, 'e) pipe_in \<Rightarrow> 's \<times> ('x, 'c) pipe_out"
    and R :: "'s \<Rightarrow> 'i list \<Rightarrow> bool"
    and computes :: "'i \<Rightarrow> 'x \<Rightarrow> bool"
    and nstages :: nat
  assumes peek_first: "po_peek_rdy (snd (step s (i\<lparr>pi_take_call := t\<rparr>))) = po_peek_rdy (snd (step s i))"
    and shows_first: "R s q \<Longrightarrow> po_peek_rdy (snd (step s i)) \<Longrightarrow> q \<noteq> [] \<and> computes (hd q) (po_peek_msg (snd (step s i)))"
    and has_room: "R s q \<Longrightarrow> po_in_take_call (snd (step s i)) \<Longrightarrow> length q < nstages \<or> pi_take_call i"
    and accepts_offered: "po_in_take_call (snd (step s i)) \<Longrightarrow> pi_in_peek_rdy i"
    and moves: "R s q \<Longrightarrow> pi_take_call i \<longrightarrow> po_peek_rdy (snd (step s i)) \<Longrightarrow>
        R (fst (step s i)) ((if pi_take_call i then tl q else q) @
                            (if po_in_take_call (snd (step s i)) then [pi_in_peek_msg i] else []))"
    and has_stages: "0 < nstages"

text \<open>The specification: a queue of the live messages, each with what is left of its kill data. The kill message of a
  cycle is applied first; the output may stall, but what it shows is the oldest live message.\<close>

definition survivors :: "('a, 'k) drop_controller \<Rightarrow> 'k \<Rightarrow> ('i \<times> 'a) list \<Rightarrow> ('i \<times> 'a) list" where
  "survivors check k q = map (\<lambda>(x, a). (x, fst (check k a))) (filter (\<lambda>(x, a). snd (check k a)) q)"

fun live_trace ::
  "('m \<Rightarrow> 'i \<times> 'a) \<Rightarrow> ('a, 'k) drop_controller \<Rightarrow> ('i \<Rightarrow> 'a \<Rightarrow> 'o \<Rightarrow> bool) \<Rightarrow>
   ('i \<times> 'a) list \<Rightarrow> ('m, 'k, 'e) wrapper_in list \<Rightarrow> ('o, 'c) wrapper_out list \<Rightarrow> bool" where
  "live_trace split check completes q (i # is) (out # outs) =
     (let q' = survivors check (wi_kill_msg i) q
      in (wo_peek_rdy out \<longrightarrow> q' \<noteq> [] \<and> completes (fst (hd q')) (snd (hd q')) (wo_peek_msg out)) \<and>
         (wo_in_take_call out \<longrightarrow> wi_in_peek_rdy i) \<and>
         live_trace split check completes
           ((if wo_peek_rdy out \<and> wi_take_call i then tl q' else q') @
            (if wo_in_take_call out then [split (wi_in_peek_msg i)] else [])) is outs)"
| "live_trace split check completes q _ _ = True"

text \<open>Both parts of the wrapper hold the same messages.\<close>

definition alive :: "('i \<times> 'a \<times> bool) list \<Rightarrow> ('i \<times> 'a) list" where
  "alive full = map (\<lambda>(x, a, dead). (x, a)) (filter (\<lambda>(x, a, dead). \<not> dead) full)"

definition aged_item :: "('a, 'k) drop_controller \<Rightarrow> 'k \<Rightarrow> 'i \<times> 'a \<times> bool \<Rightarrow> 'i \<times> 'a \<times> bool" where
  "aged_item check k = (\<lambda>(x, e). (x, aged check k e))"

lemma alive_aged: "alive (map (aged_item check k) full) = survivors check k (alive full)"
  by (induction full) (auto simp: alive_def survivors_def aged_item_def aged_def)

lemma alive_simps [simp]:
  "alive [] = []"
  "alive ((x, a, dead) # full) = (if dead then [] else [(x, a)]) @ alive full"
  "alive (full @ full') = alive full @ alive full'"
  by (simp_all add: alive_def)

definition wrapper_related ::
  "('s \<Rightarrow> 'i list \<Rightarrow> bool) \<Rightarrow> nat \<Rightarrow> ('s, 'a) wrapper \<Rightarrow> ('i \<times> 'a) list \<Rightarrow> bool" where
  "wrapper_related R nstages w q \<longleftrightarrow>
     (\<exists>full. R (wr_internal_pipeline w) (map fst full) \<and> tracked (wr_vvms w) = map snd full \<and>
             length (wr_vvms w) = nstages \<and> q = alive full)"

context internal_pipeline
begin

lemma wrapper_step_live:
  assumes rel: "wrapper_related R nstages w q"
  shows "let (w', out) = wrapper_step split fuse check step w i; q' = survivors check (wi_kill_msg i) q
         in (wo_peek_rdy out \<longrightarrow> q' \<noteq> [] \<and>
               (\<exists>x. computes (fst (hd q')) x \<and> wo_peek_msg out = fuse x (snd (hd q')))) \<and>
            (wo_in_take_call out \<longrightarrow> wi_in_peek_rdy i) \<and>
            wrapper_related R nstages w'
              ((if wo_peek_rdy out \<and> wi_take_call i then tl q' else q') @
               (if wo_in_take_call out then [split (wi_in_peek_msg i)] else []))"
proof -
  let ?k = "wi_kill_msg i" and ?vs = "wr_vvms w" and ?s = "wr_internal_pipeline w"
  obtain full where full: "R ?s (map fst full)" "tracked ?vs = map snd full" "length ?vs = nstages" "q = alive full"
    using rel unfolding wrapper_related_def by blast
  then have ne: "?vs \<noteq> []" using has_stages by auto
  obtain inp kd where split: "split (wi_in_peek_msg i) = (inp, kd)" by force
  define base where "base = \<lparr> pi_in_peek_rdy = wi_in_peek_rdy i, pi_in_peek_msg = inp, pi_take_call = False, pi_env = wi_env i \<rparr>"
  define both where "both = (po_peek_rdy (snd (step ?s base)) \<and> vv_val (last ?vs))"
  define dead where "dead = (vv_dead (last ?vs) \<or> \<not> snd (check ?k (vv_out (last ?vs))))"
  define t where "t = (both \<and> (dead \<or> wi_take_call i))"
  define j where "j = base\<lparr>pi_take_call := t\<rparr>"
  obtain s' out where step: "step ?s j = (s', out)" by force
  have j: "pi_take_call j = t" "pi_in_peek_msg j = inp" "pi_in_peek_rdy j = wi_in_peek_rdy i" by (simp_all add: j_def base_def)
  define vs' where "vs' = shadow_step check ?k t (po_in_take_call out, kd, False) ?vs"
  define full' where "full' = map (aged_item check ?k) full"
  have peek: "po_peek_rdy out = po_peek_rdy (snd (step ?s base))"
    using peek_first [of ?s t base] unfolding j_def [symmetric] step by simp
  have w': "wrapper_step split fuse check step w i =
      (\<lparr> wr_internal_pipeline = s', wr_vvms = vs' \<rparr>,
       \<lparr> wo_in_take_call = po_in_take_call out, wo_peek_rdy = (both \<and> \<not> dead),
         wo_peek_msg = fuse (po_peek_msg out) (fst (check ?k (vv_out (last ?vs)))), wo_calls = po_calls out \<rparr>)"
    unfolding wrapper_step_def split Let_def prod.case base_def [symmetric] tracking_peek_simps
      both_def [symmetric] dead_def [symmetric] if_bool_eq_conj
    using step unfolding j_def t_def vs'_def by (cases both; cases dead) simp_all
  have room: "po_in_take_call out \<longrightarrow> t \<or> length (tracked ?vs) < length ?vs"
    using has_room [OF full(1), of j] full unfolding step j by auto
  have t: "t \<longrightarrow> vv_val (last ?vs)" "t \<longrightarrow> po_peek_rdy out" by (auto simp: t_def both_def peek)
  have tr: "tracked vs' = (if t then tl (map snd full') else map snd full') @ (if po_in_take_call out then [(kd, False)] else [])"
    using shadow_step_tracked [OF ne _ t(1), of "(po_in_take_call out, kd, False)" check ?k] room full(2)
    unfolding vs'_def full'_def by (simp add: aged_item_def case_prod_beta comp_def)
  have fst: "map fst full' = map fst full" by (simp add: full'_def aged_item_def case_prod_beta)
  have R': "R s' ((if t then tl (map fst full') else map fst full') @ (if po_in_take_call out then [inp] else []))"
    using moves [OF full(1), of j] t(2) unfolding step fst j by simp
  define new where "new = (if t then tl full' else full') @ (if po_in_take_call out then [(inp, kd, False)] else [])"
  have "wrapper_related R nstages \<lparr> wr_internal_pipeline = s', wr_vvms = vs' \<rparr> (alive new)"
    unfolding wrapper_related_def
  proof (intro exI [of _ new] conjI)
    show "R (wr_internal_pipeline \<lparr> wr_internal_pipeline = s', wr_vvms = vs' \<rparr>) (map fst new)"
      using R' unfolding new_def by (auto simp: map_tl)
    show "tracked (wr_vvms \<lparr> wr_internal_pipeline = s', wr_vvms = vs' \<rparr>) = map snd new"
      using tr unfolding new_def by (auto simp: map_tl)
  qed (simp_all add: vs'_def full(3))
  moreover have alive: "alive full' = survivors check ?k q" by (simp add: full'_def alive_aged full(4))
  have first: "both \<Longrightarrow> full' = (fst (hd full), fst (check ?k (vv_out (last ?vs))), dead) # tl full' \<and> full \<noteq> [] \<and>
      computes (fst (hd full)) (po_peek_msg out)"
  proof -
    assume both
    then have "full \<noteq> []" "computes (hd (map fst full)) (po_peek_msg out)"
      using shows_first [OF full(1), of j] peek unfolding step both_def by auto
    then obtain x e rest where f: "full = (x, e) # rest" "computes x (po_peek_msg out)" by (cases full) auto
    have "tracked ?vs = (vv_out (last ?vs), vv_dead (last ?vs)) # tl (tracked ?vs)"
      using \<open>both\<close> ne by (intro tracked_last) (simp_all add: both_def)
    then have "e = (vv_out (last ?vs), vv_dead (last ?vs))" using full(2) f by simp
    then show ?thesis using f by (simp add: full'_def aged_item_def aged_def dead_def)
  qed
  have split_first: "both \<Longrightarrow> survivors check ?k q =
      (if dead then [] else [(fst (hd full), fst (check ?k (vv_out (last ?vs))))]) @ alive (tl full')"
    unfolding alive [symmetric] alive_simps(2) [symmetric] by (rule arg_cong [of _ _ alive]) (use first in blast)
  have "alive (if t then tl full' else full') =
      (if (both \<and> \<not> dead) \<and> wi_take_call i then tl (survivors check ?k q) else survivors check ?k q)"
    using split_first alive by (cases both; cases dead) (simp_all add: t_def)
  moreover have "po_in_take_call out \<longrightarrow> wi_in_peek_rdy i"
    using accepts_offered [of ?s j] unfolding step j by simp
  ultimately show ?thesis
    unfolding w' Let_def prod.case split
    using split_first first by (auto simp: new_def)
qed

lemma wrapper_live:
  "wrapper_related R nstages w q \<Longrightarrow>
   live_trace split check (\<lambda>x a out. \<exists>y. computes x y \<and> out = fuse y a) q is (run (wrapper_step split fuse check step) w is)"
proof (induction "is" arbitrary: w q)
  case (Cons i "is")
  obtain w' out where step: "wrapper_step split fuse check step w i = (w', out)" by force
  show ?case
    using wrapper_step_live [OF Cons.prems, of split fuse check i] Cons.IH [of w']
    unfolding step by (simp add: step Let_def)
qed simp

end

end
