(* ===== verification/Execution.thy ===== *)
theory Execution
  imports Killable Datapath
begin

text \<open>
  The multiply/divide pipe and the memory pipe as machines: \<open>lizard/core/rtl/backend/multiply.py\<close>, \<open>divide.py\<close>,
  \<open>m_pipe.py\<close> and the joint of \<open>mem_pipe.py\<close>. \<open>Backend\<close> has the functions of their stages and adapters,
  \<open>Multiplier\<close> and \<open>Divider\<close> the arithmetic units, \<open>Killable\<close> the wrapper that lets a message be killed on its
  way; here they run.
\<close>

section \<open>The multiplier pipe\<close>

record mult_in =
  mi_a :: "64 word"
  mi_b :: "64 word"
  mi_func :: "2 word"
  mi_variant :: "3 word"
  mi_op32 :: bool

definition mult_split :: "dispatch_msg \<Rightarrow> mult_in \<times> execute_msg" where
  "mult_split m =
     (let p = ed_pipe_msg (dx_execution_data m)
      in (\<lparr> mi_a = dx_rs1 m, mi_b = dx_rs2 m, mi_func = m_msg_func p, mi_variant = m_msg_variant p,
            mi_op32 = m_msg_op32 p \<rparr>, m_kill_data m))"

text \<open>\<open>set_inputs\<close>.\<close>

definition mult_set_inputs :: "mult_in \<Rightarrow> bool \<Rightarrow> bool \<Rightarrow> 64 word mul_in" where
  "mult_set_inputs m call take_call =
     (let op32_a = ucast (mi_a m) :: 32 word; op32_b = ucast (mi_b m) :: 32 word
      in \<lparr> mu_mult_call = call, mu_src1 = (if mi_op32 m then scast op32_a else mi_a m),
           mu_src2 = (if mi_op32 m then scast op32_b else mi_b m),
           mu_src1_signed = (\<not> (mi_variant m = pattern MVariant ''M_VARIANT_U'' \<or>
                                mi_variant m = pattern MVariant ''M_VARIANT_HU'')),
           mu_src2_signed = (mi_variant m = pattern MVariant ''M_VARIANT_N'' \<or>
                             mi_variant m = pattern MVariant ''M_VARIANT_H''),
           mu_take_call = take_call \<rparr>)"

definition mult_internal_step ::
  "(64 word, 128 word) mul_pipe \<Rightarrow> (mult_in, unit) pipe_in \<Rightarrow> (64 word, 128 word) mul_pipe \<times> (128 word, unit) pipe_out"
where
  "mult_internal_step s i =
     (let args = (\<lambda>call. mult_set_inputs (pi_in_peek_msg i) call (pi_take_call i));
          in_take_call = (mu_mult_rdy (snd (mul_pipelined_step True s (args False))) \<and> pi_in_peek_rdy i);
          (s', out) = mul_pipelined_step True s (args in_take_call)
      in (s', \<lparr> po_in_take_call = in_take_call, po_peek_rdy = mu_peek_rdy out, po_peek_msg = mu_peek_res out,
                po_calls = () \<rparr>))"

definition MUL_NSTAGES :: nat where "MUL_NSTAGES = 4"

abbreviation execute_mask :: "execute_msg \<Rightarrow> 2 word" where
  "execute_mask m \<equiv> bh_branch_mask (ex_hdr m)"

definition set_execute_mask :: "2 word \<Rightarrow> execute_msg \<Rightarrow> execute_msg" where
  "set_execute_mask bmask m = m\<lparr>ex_hdr := (ex_hdr m)\<lparr>bh_branch_mask := bmask\<rparr>\<rparr>"

definition mult_drop_controller :: "(execute_msg, 2 word kill_type) drop_controller" where
  "mult_drop_controller = pipeline_kill_drop execute_mask set_execute_mask"

type_synonym mult_pipe = "((64 word, 128 word) mul_pipe, execute_msg) wrapper"

type_synonym m_pipe_machine_in = "(dispatch_msg, 2 word kill_type, unit) wrapper_in"

definition mult_step :: "(mult_pipe, m_pipe_machine_in, (execute_msg, unit) wrapper_out) machine" where
  "mult_step = wrapper_step mult_split mult_output mult_drop_controller mult_internal_step"

section \<open>The divider pipe\<close>

definition DIV_NSTEPS :: nat where "DIV_NSTEPS = 32"

record div_pipe =
  dp_divider :: "(64 word, 65 word, 6 word) divider"
  dp_vvm :: "execute_msg vvm"

definition div_step :: "(div_pipe, m_pipe_machine_in, (execute_msg, unit) wrapper_out) machine" where
  "div_step s i =
     (let m = wi_in_peek_msg i; (dividend, divisor, is_signed) = div_inputs m;
          vvm_base = \<lparr> vv_kill_msg = wi_kill_msg i, vv_take_call = wi_take_call i, vv_add_call = False,
                       vv_add_msg = m_kill_data m, vv_add_dead = False \<rparr>;
          vvm_peek = snd (vvm_step False mult_drop_controller (dp_vvm s) vvm_base);
          divider_base = \<lparr> dv_preempt_call = vv_dropping vvm_peek, dv_result_call = wi_take_call i, dv_div_call = False,
                           dv_in_dividend = dividend, dv_in_divisor = divisor, dv_in_signed = is_signed \<rparr>;
          divider = divider_step (64 div DIV_NSTEPS) DIV_NSTEPS (dp_divider s);
          divider_peek = snd (divider divider_base);
          can_take_input = (wi_in_peek_rdy i \<and> dv_div_rdy divider_peek);
          output_rdy = (dv_result_rdy divider_peek \<and> vv_peek_rdy vvm_peek)
      in (\<lparr> dp_divider = fst (divider (divider_base\<lparr>dv_div_call := can_take_input\<rparr>)),
            dp_vvm = fst (vvm_step False mult_drop_controller (dp_vvm s) (vvm_base\<lparr>vv_add_call := can_take_input\<rparr>)) \<rparr>,
          \<lparr> wo_in_take_call = can_take_input, wo_peek_rdy = output_rdy,
            wo_peek_msg = div_output (dv_quotient divider_peek) (dv_rem divider_peek) (vv_peek_msg vvm_peek),
            wo_calls = () \<rparr>))"

section \<open>The multiply/divide pipe\<close>

record m_pipe_state =
  ms_mult :: mult_pipe
  ms_div :: div_pipe

definition offered :: "(execute_msg, unit) wrapper_out \<Rightarrow> execute_msg option" where
  "offered out = (if wo_peek_rdy out then Some (wo_peek_msg out) else None)"

definition m_pipe_step :: "(m_pipe_state, m_pipe_machine_in, (execute_msg, unit) wrapper_out) machine" where
  "m_pipe_step s i =
     (let quiet = i\<lparr>wi_in_peek_rdy := False, wi_take_call := False\<rparr>;
          wires = \<lparr> mp_in_peek_rdy = wi_in_peek_rdy i, mp_in_peek_msg = wi_in_peek_msg i, mp_mult_in_take = False,
                    mp_div_in_take = False, mp_mult_peek = offered (snd (mult_step (ms_mult s) quiet)),
                    mp_div_peek = offered (snd (div_step (ms_div s) quiet)), mp_take_call = wi_take_call i \<rparr>;
          route = m_pipe wires;
          (mult', mult_out) =
            mult_step (ms_mult s) (i\<lparr>wi_in_peek_rdy := mp_mult_in_rdy route, wi_take_call := mp_mult_take route\<rparr>);
          (div', div_out) =
            div_step (ms_div s) (i\<lparr>wi_in_peek_rdy := mp_div_in_rdy route, wi_take_call := mp_div_take route\<rparr>);
          out = m_pipe (wires\<lparr>mp_mult_in_take := wo_in_take_call mult_out, mp_div_in_take := wo_in_take_call div_out\<rparr>)
      in (\<lparr> ms_mult = mult', ms_div = div' \<rparr>,
          \<lparr> wo_in_take_call = mp_in_take_call out, wo_peek_rdy = (mp_peek out \<noteq> None),
            wo_peek_msg = (case mp_peek out of None \<Rightarrow> wo_peek_msg mult_out | Some m \<Rightarrow> m), wo_calls = () \<rparr>))"

section \<open>The memory pipe\<close>

text \<open>What the methods of the memory flow manager answer in a cycle: whether a store the load depends on is pending, for
  an address and a size; whether a load can be sent; whether an answer is there and its data.\<close>

record mem_joint_env =
  me_store_pending :: "64 word \<Rightarrow> 4 word \<Rightarrow> bool"
  me_send_load_rdy :: bool
  me_recv_load_rdy :: bool
  me_recv_load_data :: "64 word"

record mem_joint_calls =
  mc_request :: mem_request_calls
  mc_recv_load :: bool

record mem_joint =
  mj_request :: "dispatch_msg vvm"
  mj_response :: "execute_msg vvm"

definition mem_joint_step ::
  "mem_joint \<Rightarrow> (dispatch_msg, mem_joint_env) pipe_in \<Rightarrow> mem_joint \<times> (execute_msg, mem_joint_calls) pipe_out" where
  "mem_joint_step s i =
     (let env = pi_env i;
          request = (\<lambda>call m. mem_request_stage call (me_store_pending env (mem_addr m) (mem_len m)) (me_send_load_rdy env) m);
          response = (\<lambda>call m. mem_response_stage call (me_recv_load_rdy env) (me_recv_load_data env) m);
          req_base = \<lparr> st_in_peek_rdy = pi_in_peek_rdy i, st_in_peek_msg = pi_in_peek_msg i,
                       st_process = (\<lambda>m. let (out, accepted, _) = request True m in (out, accepted)),
                       st_kill_msg = (), st_take_call = False \<rparr>;
          req_peek = snd (stage_step null_drop (mj_request s) req_base);
          (resp', resp_out) = stage_step null_drop (mj_response s)
             \<lparr> st_in_peek_rdy = st_peek_rdy req_peek, st_in_peek_msg = st_peek_msg req_peek,
               st_process = (\<lambda>m. let (out, accepted, _) = response True m in (out, accepted)),
               st_kill_msg = (), st_take_call = pi_take_call i \<rparr>;
          (req', req_out) = stage_step null_drop (mj_request s) (req_base\<lparr>st_take_call := st_in_take_call resp_out\<rparr>)
      in (\<lparr> mj_request = req', mj_response = resp' \<rparr>,
          \<lparr> po_in_take_call = st_in_take_call req_out, po_peek_rdy = st_peek_rdy resp_out,
            po_peek_msg = st_peek_msg resp_out,
            po_calls = \<lparr> mc_request = snd (snd (request (st_process_call req_out) (pi_in_peek_msg i))),
                         mc_recv_load = snd (snd (response (st_process_call resp_out) (st_peek_msg req_peek))) \<rparr> \<rparr>))"

type_synonym mem_pipe = "(mem_joint, 2 word) wrapper"

definition mem_step ::
  "(mem_pipe, (dispatch_msg, 2 word kill_type, mem_joint_env) wrapper_in, (execute_msg, mem_joint_calls) wrapper_out) machine"
where
  "mem_step = wrapper_step mem_split mem_fuse kill_drop mem_joint_step"


section \<open>The internal pipelines keep the contract\<close>

definition mult_item :: "mult_in \<Rightarrow> 64 mul_item" where
  "mult_item m = the (item_of (mult_set_inputs m True False))"

definition mult_computes :: "mult_in \<Rightarrow> 128 word \<Rightarrow> bool" where
  "mult_computes m product \<longleftrightarrow>
     (let a = mult_set_inputs m True False
      in product = mul_product (mu_src1_signed a) (mu_src1 a) (mu_src2_signed a) (mu_src2 a))"

definition mult_holds :: "(64 word, 128 word) mul_pipe \<Rightarrow> mult_in list \<Rightarrow> bool" where
  "mult_holds s q \<longleftrightarrow>
     (\<exists>xs. pipelined_items s xs \<and> in_flight xs = map mult_item q \<and> length xs = MUL_NSTAGES)"

lemma mult_item_of: "item_of (mult_set_inputs m call t) = (if call then Some (mult_item m) else None)"
  by (simp add: item_of_def mult_item_def mult_set_inputs_def Let_def)

lemma mult_set_inputs_take: "mu_take_call (mult_set_inputs m call t) = t" "mu_mult_call (mult_set_inputs m call t) = call"
  by (simp_all add: mult_set_inputs_def Let_def)

lemma mult_computes_item: "mult_computes m (item_product (mult_item m))"
  using item_of_product [of "mult_set_inputs m True False", where ?'b = 128]
  by (simp add: mult_computes_def mult_item_def Let_def mult_set_inputs_take)

lemma mult_internal_step_simps:
  "mult_internal_step s i =
     (let t = pi_take_call i; m = pi_in_peek_msg i;
          acc = (mu_mult_rdy (snd (mul_pipelined_step True s (mult_set_inputs m False t))) \<and> pi_in_peek_rdy i);
          r = mul_pipelined_step True s (mult_set_inputs m acc t)
      in (fst r, \<lparr> po_in_take_call = acc, po_peek_rdy = mu_peek_rdy (snd r), po_peek_msg = mu_peek_res (snd r), po_calls = () \<rparr>))"
  by (simp add: mult_internal_step_def Let_def split: prod.splits)

interpretation mult_internal: internal_pipeline mult_internal_step mult_holds mult_computes MUL_NSTAGES
proof
  fix s :: "(64 word, 128 word) mul_pipe" and q and i :: "(mult_in, unit) pipe_in" and t
  show "po_peek_rdy (snd (mult_internal_step s (i\<lparr>pi_take_call := t\<rparr>))) = po_peek_rdy (snd (mult_internal_step s i))"
    by (simp add: mult_internal_step_simps mul_pipelined_step_def Let_def)
  show "po_in_take_call (snd (mult_internal_step s i)) \<Longrightarrow> pi_in_peek_rdy i"
    by (simp add: mult_internal_step_simps Let_def)
  assume "mult_holds s q"
  then obtain xs where xs: "pipelined_items s xs" "in_flight xs = map mult_item q" "length xs = MUL_NSTAGES"
    unfolding mult_holds_def by blast
  then have ne: "xs \<noteq> []" by (auto simp: MUL_NSTAGES_def)
  have len: "length q = length (in_flight xs)" using xs(2) by simp
  have acc: "po_in_take_call (snd (mult_internal_step s i)) \<longleftrightarrow>
      (pi_take_call i \<or> length q < MUL_NSTAGES) \<and> pi_in_peek_rdy i"
    using pipelined.rdy_first [OF xs(1), of True] stage_rdy_room [of xs "pi_take_call i"] xs(3) len
    by (simp add: mult_internal_step_simps Let_def mult_set_inputs_take)
  have peek: "po_peek_rdy (snd (mult_internal_step s i)) \<longleftrightarrow> last xs \<noteq> None"
    using pipelined.peek_last [OF xs(1), of True] by (simp add: mult_internal_step_simps Let_def)
  show "po_in_take_call (snd (mult_internal_step s i)) \<Longrightarrow> length q < MUL_NSTAGES \<or> pi_take_call i"
    using acc by blast
  show "q \<noteq> [] \<and> mult_computes (hd q) (po_peek_msg (snd (mult_internal_step s i)))"
    if rdy: "po_peek_rdy (snd (mult_internal_step s i))"
  proof -
    obtain x where x: "last xs = Some x" using rdy unfolding peek not_None_eq by blast
    then have "map mult_item q = x # tl (map mult_item q)" using in_flight_last [OF ne] xs(2) by metis
    then obtain m ms where q: "q = m # ms" "x = mult_item m" by (cases q) auto
    have "po_peek_msg (snd (mult_internal_step s i)) = item_product x"
      using pipelined.peek_product [OF xs(1) x, of True] by (simp add: mult_internal_step_simps Let_def)
    then show ?thesis using q mult_computes_item by simp
  qed
  show "mult_holds (fst (mult_internal_step s i)) ((if pi_take_call i then tl q else q) @
      (if po_in_take_call (snd (mult_internal_step s i)) then [pi_in_peek_msg i] else []))"
    if "pi_take_call i \<longrightarrow> po_peek_rdy (snd (mult_internal_step s i))"
  proof -
    let ?acc = "po_in_take_call (snd (mult_internal_step s i))"
    let ?a = "mult_set_inputs (pi_in_peek_msg i) ?acc (pi_take_call i)"
    have step: "fst (mult_internal_step s i) = fst (mul_pipelined_step True s ?a)"
      by (simp add: mult_internal_step_simps Let_def)
    let ?ys = "advance_items (pi_take_call i) (item_of ?a) xs"
    have "pipelined_items (fst (mul_pipelined_step True s ?a)) ?ys"
      using pipelined.items_move [OF xs(1), of True ?a] by (simp add: mult_set_inputs_take)
    moreover have "in_flight ?ys = map mult_item ((if pi_take_call i then tl q else q) @ (if ?acc then [pi_in_peek_msg i] else []))"
    proof -
      have room: "hd (stage_rdy (valids_of xs) (pi_take_call i)) \<longleftrightarrow> pi_take_call i \<or> length q < MUL_NSTAGES"
        using stage_rdy_room [of xs "pi_take_call i"] len xs(3) by simp
      have last: "pi_take_call i \<and> last xs \<noteq> None \<longleftrightarrow> pi_take_call i" using that peek by blast
      have "?acc \<Longrightarrow> pi_take_call i \<or> length q < MUL_NSTAGES" using acc by blast
      then show ?thesis
        unfolding in_flight_advance [OF ne] room last mult_item_of xs(2) by (cases ?acc) (simp_all add: map_tl)
    qed
    ultimately show ?thesis unfolding mult_holds_def step using xs(3) by (intro exI [of _ ?ys]) simp
  qed
qed (simp add: MUL_NSTAGES_def)

definition mem_executed :: "dispatch_msg \<Rightarrow> 64 word \<Rightarrow> execute_msg" where
  "mem_executed m data = fst (mem_response_stage True True data m)"

definition mem_computes :: "dispatch_msg \<Rightarrow> execute_msg \<Rightarrow> bool" where
  "mem_computes m out \<longleftrightarrow> (\<exists>data. out = mem_executed m data)"

definition mem_holds :: "mem_joint \<Rightarrow> dispatch_msg list \<Rightarrow> bool" where
  "mem_holds s q \<longleftrightarrow>
     (\<exists>first. q = first @ contents (vvm_abs (mj_request s)) \<and> list_all2 mem_computes first (contents (vvm_abs (mj_response s))))"


lemma survives_null: "survives null_drop k b = b"
  by (cases b) (simp_all add: null_drop_def)

lemma stage_step_null:
  "st_peek_rdy (snd (stage_step null_drop s i)) = (vvm_abs s \<noteq> None)"
  "vvm_abs s = Some a \<Longrightarrow> st_peek_msg (snd (stage_step null_drop s i)) = a"
  "st_process_call (snd (stage_step null_drop s i)) = ((vvm_abs s = None \<or> st_take_call i) \<and> st_in_peek_rdy i)"
  "st_in_take_call (snd (stage_step null_drop s i)) =
     ((vvm_abs s = None \<or> st_take_call i) \<and> st_in_peek_rdy i \<and> snd (st_process i (st_in_peek_msg i)))"
  "vvm_abs (fst (stage_step null_drop s i)) =
     (if st_in_take_call (snd (stage_step null_drop s i)) then Some (fst (st_process i (st_in_peek_msg i)))
      else if st_take_call i then None else vvm_abs s)"
  using stage_step_buffer [of null_drop i s, unfolded survives_null] by (auto simp: Let_def split: prod.splits)

text \<open>One cycle of the joint in terms of what its two stages hold.\<close>

lemma mem_joint_step_moves:
  fixes s :: mem_joint and i :: "(dispatch_msg, mem_joint_env) pipe_in"
  defines "env \<equiv> pi_env i" and "m \<equiv> pi_in_peek_msg i" and "req \<equiv> vvm_abs (mj_request s)" and "resp \<equiv> vvm_abs (mj_response s)"
  defines "free \<equiv> resp = None \<or> pi_take_call i"
  defines "moved \<equiv> free \<and> (case req of None \<Rightarrow> False | Some r \<Rightarrow> is_load r \<longrightarrow> me_recv_load_rdy env)"
  defines "accepted \<equiv> (req = None \<or> moved) \<and> pi_in_peek_rdy i \<and>
     (is_load m \<longrightarrow> \<not> me_store_pending env (mem_addr m) (mem_len m) \<and> me_send_load_rdy env)"
  shows "po_in_take_call (snd (mem_joint_step s i)) = accepted"
    and "po_peek_rdy (snd (mem_joint_step s i)) = (resp \<noteq> None)"
    and "resp = Some out \<Longrightarrow> po_peek_msg (snd (mem_joint_step s i)) = out"
    and "vvm_abs (mj_request (fst (mem_joint_step s i))) = (if accepted then Some m else if moved then None else req)"
    and "vvm_abs (mj_response (fst (mem_joint_step s i))) =
           (if moved then Some (mem_executed (the req) (me_recv_load_data env)) else if pi_take_call i then None else resp)"
    and "mr_load_call (mc_request (po_calls (snd (mem_joint_step s i)))) = (accepted \<and> is_load m)"
    and "mc_recv_load (po_calls (snd (mem_joint_step s i))) = (free \<and> (case req of None \<Rightarrow> False | Some r \<Rightarrow> is_load r))"
  by (cases req; auto simp: mem_joint_step_def Let_def case_prod_beta stage_step_null mem_request_stage_def
      mem_response_stage_def mem_executed_def free_def moved_def accepted_def req_def resp_def env_def m_def)+


lemma contents_simps [simp]: "contents None = []" "contents (Some a) = [a]"
  by (simp_all add: contents_def)

lemma mem_computes_executed [simp]: "mem_computes m (mem_executed m data)"
  by (auto simp: mem_computes_def)

interpretation mem_internal: internal_pipeline mem_joint_step mem_holds mem_computes 2
proof
  fix s :: mem_joint and q and i :: "(dispatch_msg, mem_joint_env) pipe_in" and t
  show "po_peek_rdy (snd (mem_joint_step s (i\<lparr>pi_take_call := t\<rparr>))) = po_peek_rdy (snd (mem_joint_step s i))"
    by (simp only: mem_joint_step_moves(2))
  show "po_in_take_call (snd (mem_joint_step s i)) \<Longrightarrow> pi_in_peek_rdy i"
    by (simp only: mem_joint_step_moves(1))
  assume "mem_holds s q"
  then obtain first where q: "q = first @ contents (vvm_abs (mj_request s))"
    "list_all2 mem_computes first (contents (vvm_abs (mj_response s)))"
    unfolding mem_holds_def by blast
  show "q \<noteq> [] \<and> mem_computes (hd q) (po_peek_msg (snd (mem_joint_step s i)))"
    if rdy: "po_peek_rdy (snd (mem_joint_step s i))"
  proof -
    obtain out where "vvm_abs (mj_response s) = Some out" using rdy by (auto simp: mem_joint_step_moves(2))
    then show ?thesis using q mem_joint_step_moves(3) [of s out i] by (auto simp: list_all2_Cons2)
  qed
  show "length q < 2 \<or> pi_take_call i" if "po_in_take_call (snd (mem_joint_step s i))"
  proof -
    have "length q = length (contents (vvm_abs (mj_response s))) + length (contents (vvm_abs (mj_request s)))"
      using q list_all2_lengthD by fastforce
    then show ?thesis
      using that by (cases "vvm_abs (mj_response s)"; cases "vvm_abs (mj_request s)") (auto simp: mem_joint_step_moves(1))
  qed
  show "mem_holds (fst (mem_joint_step s i)) ((if pi_take_call i then tl q else q) @
      (if po_in_take_call (snd (mem_joint_step s i)) then [pi_in_peek_msg i] else []))"
    if rdy: "pi_take_call i \<longrightarrow> po_peek_rdy (snd (mem_joint_step s i))"
  proof -
    let ?moved = "(vvm_abs (mj_response s) = None \<or> pi_take_call i) \<and>
      (case vvm_abs (mj_request s) of None \<Rightarrow> False | Some r \<Rightarrow> is_load r \<longrightarrow> me_recv_load_rdy (pi_env i))"
    let ?first = "if ?moved then [the (vvm_abs (mj_request s))] else if pi_take_call i then [] else first"
    have "pi_take_call i \<longrightarrow> vvm_abs (mj_response s) \<noteq> None" using rdy by (simp add: mem_joint_step_moves(2))
    then have "(if pi_take_call i then tl q else q) @
        (if po_in_take_call (snd (mem_joint_step s i)) then [pi_in_peek_msg i] else []) =
        ?first @ contents (vvm_abs (mj_request (fst (mem_joint_step s i))))"
      using q unfolding mem_joint_step_moves(1,4)
      by (cases "vvm_abs (mj_response s)"; cases "vvm_abs (mj_request s)"; cases ?moved) (auto simp: list_all2_Cons2)
    moreover have "list_all2 mem_computes ?first (contents (vvm_abs (mj_response (fst (mem_joint_step s i)))))"
      using q unfolding mem_joint_step_moves(5) by (cases ?moved) auto
    ultimately show ?thesis unfolding mem_holds_def by blast
  qed
qed simp

section \<open>Loads and their answers\<close>

text \<open>What the memory pipe accepts and gives out, the loads it sends and the answers it consumes along a run.\<close>

type_synonym mem_joint_in = "(dispatch_msg, mem_joint_env) pipe_in"

type_synonym mem_joint_out = "(execute_msg, mem_joint_calls) pipe_out"

fun mem_accepted :: "mem_joint_in list \<Rightarrow> mem_joint_out list \<Rightarrow> dispatch_msg list" where
  "mem_accepted (i # is) (out # outs) = (if po_in_take_call out then [pi_in_peek_msg i] else []) @ mem_accepted is outs"
| "mem_accepted _ _ = []"

fun mem_taken :: "mem_joint_in list \<Rightarrow> mem_joint_out list \<Rightarrow> execute_msg list" where
  "mem_taken (i # is) (out # outs) = (if pi_take_call i \<and> po_peek_rdy out then [po_peek_msg out] else []) @ mem_taken is outs"
| "mem_taken _ _ = []"

fun loads_sent :: "mem_joint_out list \<Rightarrow> (64 word \<times> 4 word) list" where
  "loads_sent (out # outs) =
     (let c = mc_request (po_calls out) in if mr_load_call c then [(mr_addr c, mr_size c)] else []) @ loads_sent outs"
| "loads_sent [] = []"

fun loads_answered :: "mem_joint_in list \<Rightarrow> mem_joint_out list \<Rightarrow> 64 word list" where
  "loads_answered (i # is) (out # outs) =
     (if mc_recv_load (po_calls out) \<and> me_recv_load_rdy (pi_env i) then [me_recv_load_data (pi_env i)] else []) @
     loads_answered is outs"
| "loads_answered _ _ = []"

text \<open>The specification: a load takes the next answer, a store needs none.\<close>

fun mem_results :: "dispatch_msg list \<Rightarrow> 64 word list \<Rightarrow> execute_msg list" where
  "mem_results [] answers = []"
| "mem_results (m # ms) answers =
     (if is_load m then (case answers of [] \<Rightarrow> [] | d # ds \<Rightarrow> mem_executed m d # mem_results ms ds)
      else mem_executed m 0 # mem_results ms answers)"

lemma one_bit_word: "w = 0 \<or> w = 1" for w :: "1 word"
  by (cases w) (auto simp: less_2_cases_iff)

lemma mem_executed_store: "\<not> is_load m \<Longrightarrow> mem_executed m d = mem_executed m 0"
proof -
  assume "\<not> is_load m"
  then have "mem_msg_func (ed_pipe_msg (dx_execution_data m)) = pattern MemFunc ''MEM_FUNC_STORE''"
    using one_bit_word [of "mem_msg_func (ed_pipe_msg (dx_execution_data m))"] by (auto simp: is_load_def)
  then show ?thesis by (simp add: mem_executed_def mem_response_stage_def load_result_def Let_def)
qed


text \<open>One cycle: what the response stage holds and what follows from the queue behind it.\<close>

lemma mem_joint_step_results:
  fixes s :: mem_joint and i :: mem_joint_in
  defines "s' \<equiv> fst (mem_joint_step s i)" and "out \<equiv> snd (mem_joint_step s i)"
  shows "contents (vvm_abs (mj_response s)) @
           mem_results (contents (vvm_abs (mj_request s)) @ mem_accepted [i] [out] @ later) (loads_answered [i] [out] @ answers) =
         mem_taken [i] [out] @ contents (vvm_abs (mj_response s')) @
           mem_results (contents (vvm_abs (mj_request s')) @ later) answers"
proof (cases "vvm_abs (mj_request s)")
  case None
  then show ?thesis
    by (cases "vvm_abs (mj_response s)"; cases "po_in_take_call out"; cases "pi_take_call i")
       (auto simp: s'_def out_def mem_joint_step_moves)
next
  case (Some m)
  let ?free = "vvm_abs (mj_response s) = None \<or> pi_take_call i"
  show ?thesis
  proof (cases "?free \<and> (is_load m \<longrightarrow> me_recv_load_rdy (pi_env i))")
    case True
    then show ?thesis
      using Some mem_executed_store [of m "me_recv_load_data (pi_env i)"]
      by (cases "vvm_abs (mj_response s)"; cases "is_load m"; cases "pi_take_call i")
         (auto simp: s'_def out_def mem_joint_step_moves(1,2,4,5,7) mem_joint_step_moves(3) [of s])
  next
    case False
    then show ?thesis
      using Some by (cases "vvm_abs (mj_response s)"; cases "pi_take_call i")
         (auto simp: s'_def out_def mem_joint_step_moves(1,2,4,5,7) mem_joint_step_moves(3) [of s])
  qed
qed

lemma mem_joint_run_results:
  "contents (vvm_abs (mj_response s)) @
     mem_results (contents (vvm_abs (mj_request s)) @ mem_accepted is (run mem_joint_step s is))
       (loads_answered is (run mem_joint_step s is)) =
   mem_taken is (run mem_joint_step s is) @ contents (vvm_abs (mj_response (final mem_joint_step s is))) @
     mem_results (contents (vvm_abs (mj_request (final mem_joint_step s is)))) []"
proof (induction "is" arbitrary: s)
  case (Cons i "is")
  let ?s = "fst (mem_joint_step s i)"
  show ?case
    using mem_joint_step_results [of s i "mem_accepted is (run mem_joint_step ?s is)" "loads_answered is (run mem_joint_step ?s is)"]
      Cons.IH [of ?s] by simp
qed simp

lemma mem_joint_sends:
  "loads_sent (run mem_joint_step s is) =
     map (\<lambda>m. (mem_addr m, mem_len m)) (filter is_load (mem_accepted is (run mem_joint_step s is)))"
proof (induction "is" arbitrary: s)
  case (Cons i "is")
  let ?c = "mc_request (po_calls (snd (mem_joint_step s i)))"
  have "mr_addr ?c = mem_addr (pi_in_peek_msg i) \<and> mr_size ?c = mem_len (pi_in_peek_msg i)"
    by (simp add: mem_joint_step_def mem_request_stage_def Let_def case_prod_beta)
  then show ?case using Cons.IH by (auto simp: mem_joint_step_moves Let_def)
qed simp


section \<open>The multiplier keeps to the live messages\<close>

text \<open>A message in flight and what is left of its branch mask; the rest of the kill data does not change.\<close>

type_synonym live_msg = "dispatch_msg \<times> 2 word"

definition dispatch_mask :: "dispatch_msg \<Rightarrow> 2 word" where
  "dispatch_mask m = bh_branch_mask (dx_hdr m)"

definition mult_result :: "dispatch_msg \<Rightarrow> execute_msg" where
  "mult_result m =
     (let (src1, signed1, src2, signed2) = mult_inputs m
      in mult_output (mul_product signed1 src1 signed2 src2) (m_kill_data m))"

definition division_result :: "dispatch_msg \<Rightarrow> execute_msg" where
  "division_result m =
     (let (dividend, divisor, is_signed) = div_inputs m; (result_quotient, result_rem) = div_result is_signed dividend divisor
      in div_output result_quotient result_rem (m_kill_data m))"

abbreviation is_mul :: "dispatch_msg \<Rightarrow> bool" where
  "is_mul m \<equiv> m_msg_func (ed_pipe_msg (dx_execution_data m)) = pattern MFunc ''M_FUNC_MUL''"

lemma m_result_cases: "m_result m = (if is_mul m then mult_result m else division_result m)"
  by (simp add: m_result_def mult_result_def division_result_def)

lemma set_execute_mask_kill:
  "mult_drop_controller k (set_execute_mask b r) = (set_execute_mask (fst (kill_drop k b)) r, snd (kill_drop k b))"
  by (simp add: mult_drop_controller_def pipeline_kill_drop_def set_execute_mask_def split: prod.splits)

lemma set_execute_mask_output:
  "mult_output y (set_execute_mask b r) = set_execute_mask b (mult_output y r)"
  "div_output u v (set_execute_mask b r) = set_execute_mask b (div_output u v r)"
  by (simp_all add: mult_output_def div_output_def set_execute_mask_def kept_m_msg_def Let_def)

lemma m_kill_data_mask: "set_execute_mask (dispatch_mask m) (m_kill_data m) = m_kill_data m"
  by (simp add: set_execute_mask_def m_kill_data_def dispatch_mask_def zero_execute_def)

definition tracks :: "mult_in \<times> execute_msg \<Rightarrow> live_msg \<Rightarrow> bool" where
  "tracks = (\<lambda>(x, a) (m, b). x = fst (mult_split m) \<and> a = set_execute_mask b (m_kill_data m))"

lemma tracks_accepted: "tracks (mult_split m) (m, dispatch_mask m)"
  by (simp add: tracks_def mult_split_def Let_def m_kill_data_mask)

lemma tracks_survivors:
  "list_all2 tracks q0 q \<Longrightarrow> list_all2 tracks (survivors mult_drop_controller k q0) (survivors kill_drop k q)"
  by (induction rule: list_all2_induct) (auto simp: survivors_def tracks_def set_execute_mask_kill)

lemma mult_computes_result: "mult_computes (fst (mult_split m)) y \<Longrightarrow> mult_output y (m_kill_data m) = mult_result m"
  by (simp add: mult_computes_def mult_split_def mult_set_inputs_def mult_result_def mult_inputs_def Let_def)

definition mult_lane :: "mult_pipe \<Rightarrow> live_msg list \<Rightarrow> bool" where
  "mult_lane w q \<longleftrightarrow> (\<exists>q0. wrapper_related mult_holds MUL_NSTAGES w q0 \<and> list_all2 tracks q0 q)"

text \<open>What a unit shows in a cycle and how the live messages in it move.\<close>

definition lane_moves ::
  "(dispatch_msg \<Rightarrow> execute_msg) \<Rightarrow> ('s \<Rightarrow> live_msg list \<Rightarrow> bool) \<Rightarrow> live_msg list \<Rightarrow> m_pipe_machine_in \<Rightarrow>
   's \<Rightarrow> (execute_msg, unit) wrapper_out \<Rightarrow> bool" where
  "lane_moves result lane q i s' out \<longleftrightarrow>
     (let q' = survivors kill_drop (wi_kill_msg i) q; m = wi_in_peek_msg i
      in (wo_peek_rdy out \<longrightarrow> q' \<noteq> [] \<and> wo_peek_msg out = set_execute_mask (snd (hd q')) (result (fst (hd q')))) \<and>
         (wo_in_take_call out \<longrightarrow> wi_in_peek_rdy i) \<and>
         lane s' ((if wo_peek_rdy out \<and> wi_take_call i then tl q' else q') @
                  (if wo_in_take_call out then [(m, dispatch_mask m)] else [])))"

lemma mult_step_live:
  assumes "mult_lane w q"
  shows "lane_moves mult_result mult_lane q i (fst (mult_step w i)) (snd (mult_step w i))"
proof -
  obtain q0 where q0: "wrapper_related mult_holds MUL_NSTAGES w q0" "list_all2 tracks q0 q"
    using assms unfolding mult_lane_def by blast
  obtain w' out where step: "mult_step w i = (w', out)" by force
  let ?orig = "survivors mult_drop_controller (wi_kill_msg i) q0" and ?q = "survivors kill_drop (wi_kill_msg i) q"
  let ?m = "wi_in_peek_msg i"
  have moves: "wo_peek_rdy out \<longrightarrow> ?orig \<noteq> [] \<and>
        (\<exists>y. mult_computes (fst (hd ?orig)) y \<and> wo_peek_msg out = mult_output y (snd (hd ?orig)))"
    "wo_in_take_call out \<longrightarrow> wi_in_peek_rdy i"
    "wrapper_related mult_holds MUL_NSTAGES w' ((if wo_peek_rdy out \<and> wi_take_call i then tl ?orig else ?orig) @
        (if wo_in_take_call out then [mult_split ?m] else []))"
    using mult_internal.wrapper_step_live [OF q0(1), of mult_split mult_output mult_drop_controller i] step
    unfolding mult_step_def [symmetric] by (simp_all add: Let_def)
  have tr: "list_all2 tracks ?orig ?q" using tracks_survivors [OF q0(2)] .
  have "list_all2 tracks (tl ?orig) (tl ?q)" using tr by (cases ?orig; cases ?q) auto
  then have "mult_lane w' ((if wo_peek_rdy out \<and> wi_take_call i then tl ?q else ?q) @
      (if wo_in_take_call out then [(?m, dispatch_mask ?m)] else []))"
    unfolding mult_lane_def using moves(3) tr tracks_accepted [of ?m]
    by (intro exI conjI) (assumption, auto intro!: list_all2_appendI)
  moreover have "?q \<noteq> [] \<and> wo_peek_msg out = set_execute_mask (snd (hd ?q)) (mult_result (fst (hd ?q)))" if "wo_peek_rdy out"
  proof -
    obtain y where y: "?orig \<noteq> []" "mult_computes (fst (hd ?orig)) y" "wo_peek_msg out = mult_output y (snd (hd ?orig))"
      using moves(1) \<open>wo_peek_rdy out\<close> by blast
    then obtain x a m b where "hd ?orig = (x, a)" "?q \<noteq> []" "hd ?q = (m, b)" "tracks (x, a) (m, b)"
      using tr by (cases ?orig; cases ?q) auto
    then show ?thesis
      using y mult_computes_result [of m y] by (simp add: tracks_def set_execute_mask_output)
  qed
  ultimately show ?thesis unfolding lane_moves_def step Let_def using moves(2) by simp
qed

lemma mult_step_peek:
  "wo_peek_rdy (snd (mult_step w (i\<lparr>wi_in_peek_rdy := r\<rparr>))) = wo_peek_rdy (snd (mult_step w i))"
  "wo_peek_rdy (snd (mult_step w (i\<lparr>wi_take_call := t\<rparr>))) = wo_peek_rdy (snd (mult_step w i))"
  "wo_peek_msg (snd (mult_step w (i\<lparr>wi_in_peek_rdy := r\<rparr>))) = wo_peek_msg (snd (mult_step w i))"
  "wo_peek_msg (snd (mult_step w (i\<lparr>wi_take_call := t\<rparr>))) = wo_peek_msg (snd (mult_step w i))"
  by (simp_all add: mult_step_def wrapper_step_def mult_internal_step_simps mul_pipelined_step_def Let_def case_prod_beta)

section \<open>The divider keeps to the live message\<close>

definition division_runs :: "dispatch_msg \<Rightarrow> nat \<Rightarrow> (64 word, 65 word, 6 word) divider \<Rightarrow> bool" where
  "division_runs m k d \<longleftrightarrow>
     div_running (64 div DIV_NSTEPS) DIV_NSTEPS (snd (snd (div_inputs m))) (fst (div_inputs m)) (fst (snd (div_inputs m))) k d"

definition div_lane :: "div_pipe \<Rightarrow> live_msg list \<Rightarrow> bool" where
  "div_lane s q \<longleftrightarrow>
     dv_busy (dp_divider s) = vv_val (dp_vvm s) \<and>
     (if vv_val (dp_vvm s)
      then \<exists>m b k. q = [(m, b)] \<and> vv_out (dp_vvm s) = set_execute_mask b (m_kill_data m) \<and> division_runs m k (dp_divider s)
      else q = [])"

text \<open>The parts of a cycle of the divider pipe.\<close>

definition div_args :: "m_pipe_machine_in \<Rightarrow> bool \<Rightarrow> bool \<Rightarrow> 64 word div_in" where
  "div_args i preempt call =
     \<lparr> dv_preempt_call = preempt, dv_result_call = wi_take_call i, dv_div_call = call,
       dv_in_dividend = fst (div_inputs (wi_in_peek_msg i)), dv_in_divisor = fst (snd (div_inputs (wi_in_peek_msg i))),
       dv_in_signed = snd (snd (div_inputs (wi_in_peek_msg i))) \<rparr>"

lemma vvm_step_parts:
  "vv_dropping (snd (vvm_step False check v j)) = (vv_val v \<and> \<not> snd (check (vv_kill_msg j) (vv_out v)))"
  "vv_peek_rdy (snd (vvm_step False check v j)) = (vv_val v \<and> snd (check (vv_kill_msg j) (vv_out v)))"
  "vv_peek_msg (snd (vvm_step False check v j)) = fst (check (vv_kill_msg j) (vv_out v))"
  "vv_val (fst (vvm_step False check v j)) =
     (vv_add_call j \<or> vv_val v \<and> snd (check (vv_kill_msg j) (vv_out v)) \<and> \<not> vv_take_call j)"
  "vv_out (fst (vvm_step False check v j)) = (if vv_add_call j then vv_add_msg j else fst (check (vv_kill_msg j) (vv_out v)))"
  by (auto simp: vvm_step_def Let_def split: prod.splits)

lemma divider_parts:
  "dv_div_rdy (snd (divider_step n k d j)) = (\<not> dv_busy d \<or> dv_result_call j)"
  "dv_result_rdy (snd (divider_step n k d j)) = (dv_busy d \<and> dv_counter d = 0)"
  "dv_quotient (snd (divider_step n k d j)) = dv_dividend d"
  "dv_rem (snd (divider_step n k d j)) = ucast (dv_acc d)"
  "dv_busy (fst (divider_step n k d j)) =
     (if dv_div_call j \<or> dv_result_call j \<or> dv_preempt_call j then dv_div_call j else dv_busy d)"
  by (simp_all add: divider_step_def Let_def split: prod.splits)

lemma div_step_parts:
  fixes s :: div_pipe and i :: m_pipe_machine_in
  defines "checked \<equiv> mult_drop_controller (wi_kill_msg i) (vv_out (dp_vvm s))"
  defines "shown \<equiv> dv_busy (dp_divider s) \<and> dv_counter (dp_divider s) = 0 \<and> vv_val (dp_vvm s) \<and> snd checked"
  defines "call \<equiv> wi_in_peek_rdy i \<and> (\<not> dv_busy (dp_divider s) \<or> wi_take_call i)"
  shows "dp_divider (fst (div_step s i)) = fst (divider_step (64 div DIV_NSTEPS) DIV_NSTEPS (dp_divider s)
           (div_args i (vv_val (dp_vvm s) \<and> \<not> snd checked) call))"
    and "vv_val (dp_vvm (fst (div_step s i))) = (call \<or> vv_val (dp_vvm s) \<and> snd checked \<and> \<not> wi_take_call i)"
    and "vv_out (dp_vvm (fst (div_step s i))) = (if call then m_kill_data (wi_in_peek_msg i) else fst checked)"
    and "wo_in_take_call (snd (div_step s i)) = call"
    and "wo_peek_rdy (snd (div_step s i)) = shown"
    and "wo_peek_msg (snd (div_step s i)) =
           div_output (dv_dividend (dp_divider s)) (ucast (dv_acc (dp_divider s))) (fst checked)"
  by (auto simp: div_step_def div_args_def vvm_step_parts divider_parts case_prod_beta Let_def
      checked_def shown_def call_def)

lemma div_args_simps [simp]:
  "dv_div_call (div_args i p c) = c" "dv_result_call (div_args i p c) = wi_take_call i" "dv_preempt_call (div_args i p c) = p"
  by (simp_all add: div_args_def)

lemma division_starts:
  "division_runs (wi_in_peek_msg i) 0 (fst (divider_step (64 div DIV_NSTEPS) DIV_NSTEPS d (div_args i p True)))"
  using div_running_start [of "div_args i p True" DIV_NSTEPS "64 div DIV_NSTEPS" d]
  by (simp add: division_runs_def div_args_def DIV_NSTEPS_def)

lemma division_continues:
  "division_runs m k d \<Longrightarrow> \<not> wi_take_call i \<Longrightarrow>
   division_runs m (Suc k) (fst (divider_step (64 div DIV_NSTEPS) DIV_NSTEPS d (div_args i False False)))"
  unfolding division_runs_def by (rule div_running_idle) (auto simp: div_idle_def DIV_NSTEPS_def)

lemma division_shows:
  assumes "division_runs m k d" and "dv_busy d \<and> dv_counter d = 0"
  shows "div_output (dv_dividend d) (ucast (dv_acc d)) (m_kill_data m) = division_result m"
proof -
  let ?j = "div_args i True True"
  have out: "dv_result_rdy (snd (divider_step (64 div DIV_NSTEPS) DIV_NSTEPS d ?j)) \<longleftrightarrow> DIV_NSTEPS \<le> k"
    "DIV_NSTEPS \<le> k \<Longrightarrow> (dv_dividend d, ucast (dv_acc d)) =
       div_result (snd (snd (div_inputs m))) (fst (div_inputs m)) (fst (snd (div_inputs m)))"
    using div_running_outputs [OF assms(1) [unfolded division_runs_def], of ?j] by (simp_all add: divider_parts DIV_NSTEPS_def)
  have "(dv_dividend d, ucast (dv_acc d)) =
       div_result (snd (snd (div_inputs m))) (fst (div_inputs m)) (fst (snd (div_inputs m)))"
    by (rule out(2)) (use out(1) assms(2) in \<open>simp add: divider_parts\<close>)
  then show ?thesis
    by (metis (no_types, lifting) division_result_def case_prod_beta fst_conv snd_conv)
qed


lemma div_step_live:
  assumes lane: "div_lane s q" and take: "wi_take_call i \<longrightarrow> wo_peek_rdy (snd (div_step s i))"
  shows "lane_moves division_result div_lane q i (fst (div_step s i)) (snd (div_step s i))"
proof (cases "vv_val (dp_vvm s)")
  case False
  then have "q = []" "\<not> dv_busy (dp_divider s)" "\<not> wi_take_call i" using lane take by (auto simp: div_lane_def div_step_parts(5))
  then show ?thesis
    using False division_starts [of i "dp_divider s" False] m_kill_data_mask [of "wi_in_peek_msg i"]
    by (cases "wi_in_peek_rdy i") (auto simp: lane_moves_def survivors_def div_lane_def div_step_parts divider_parts)
next
  case True
  let ?k = "wi_kill_msg i"
  obtain m b n where q: "q = [(m, b)]" "vv_out (dp_vvm s) = set_execute_mask b (m_kill_data m)"
    "division_runs m n (dp_divider s)" and busy: "dv_busy (dp_divider s)"
    using lane True by (auto simp: div_lane_def)
  note parts = div_step_parts divider_parts set_execute_mask_kill q(1,2) busy True
  show ?thesis
  proof (cases "snd (kill_drop ?k b)")
    case False
    then show ?thesis
      using take by (auto simp: lane_moves_def survivors_def div_lane_def parts)
  next
    case keep: True
    have out: "dv_counter (dp_divider s) = 0 \<Longrightarrow> wo_peek_msg (snd (div_step s i)) =
        set_execute_mask (fst (kill_drop ?k b)) (division_result m)"
      using division_shows [OF q(3)] busy by (simp add: parts set_execute_mask_output)
    show ?thesis
    proof (cases "wi_take_call i")
      case True
      then show ?thesis
        using take keep out division_starts [of i "dp_divider s" False] m_kill_data_mask [of "wi_in_peek_msg i"]
        by (cases "wi_in_peek_rdy i") (auto simp: lane_moves_def survivors_def div_lane_def parts)
    next
      case False
      then show ?thesis
        using keep out division_continues [OF q(3), of i]
        by (auto simp: lane_moves_def survivors_def div_lane_def parts)
    qed
  qed
qed

lemma div_step_peek:
  "wo_peek_rdy (snd (div_step s (i\<lparr>wi_in_peek_rdy := r\<rparr>))) = wo_peek_rdy (snd (div_step s i))"
  "wo_peek_rdy (snd (div_step s (i\<lparr>wi_take_call := t\<rparr>))) = wo_peek_rdy (snd (div_step s i))"
  "wo_peek_msg (snd (div_step s (i\<lparr>wi_in_peek_rdy := r\<rparr>))) = wo_peek_msg (snd (div_step s i))"
  "wo_peek_msg (snd (div_step s (i\<lparr>wi_take_call := t\<rparr>))) = wo_peek_msg (snd (div_step s i))"
  by (simp_all add: div_step_parts(5,6))

section \<open>Both units\<close>

text \<open>The specification of the pipe: the live messages of each unit, in order; what is shown is the result of the first
  one of either.\<close>

fun m_pipe_trace :: "live_msg list \<Rightarrow> live_msg list \<Rightarrow> m_pipe_machine_in list \<Rightarrow> (execute_msg, unit) wrapper_out list \<Rightarrow> bool"
where
  "m_pipe_trace muls divs (i # is) (out # outs) =
     (let m = wi_in_peek_msg i; taken = (wo_peek_rdy out \<and> wi_take_call i);
          new = (if wo_in_take_call out then [(m, dispatch_mask m)] else []);
          muls' = survivors kill_drop (wi_kill_msg i) muls; divs' = survivors kill_drop (wi_kill_msg i) divs
      in (wo_in_take_call out \<longrightarrow> wi_in_peek_rdy i) \<and>
         (\<exists>from_div. let q = (if from_div then divs' else muls')
           in (wo_peek_rdy out \<longrightarrow> q \<noteq> [] \<and> wo_peek_msg out = set_execute_mask (snd (hd q)) (m_result (fst (hd q)))) \<and>
              m_pipe_trace ((if taken \<and> \<not> from_div then tl muls' else muls') @ (if is_mul m then new else []))
                ((if taken \<and> from_div then tl divs' else divs') @ (if is_mul m then [] else new)) is outs))"
| "m_pipe_trace muls divs _ _ = True"

definition m_lanes :: "m_pipe_state \<Rightarrow> live_msg list \<Rightarrow> live_msg list \<Rightarrow> bool" where
  "m_lanes s muls divs \<longleftrightarrow>
     mult_lane (ms_mult s) muls \<and> div_lane (ms_div s) divs \<and>
     (\<forall>l \<in> set muls. is_mul (fst l)) \<and> (\<forall>l \<in> set divs. \<not> is_mul (fst l))"

lemma survivors_fst: "(\<forall>l \<in> set q. P (fst l)) \<Longrightarrow> \<forall>l \<in> set (survivors check k q). P (fst l)"
  by (auto simp: survivors_def)

lemma set_tl_subset: "x \<in> set (tl xs) \<Longrightarrow> x \<in> set xs"
  by (cases xs) auto

text \<open>One cycle as the cycles of the two units with the calls that are routed to them.\<close>

lemma m_pipe_step_units:
  fixes s :: m_pipe_state and i :: m_pipe_machine_in
  defines "mul \<equiv> is_mul (wi_in_peek_msg i)" and "div_rdy \<equiv> wo_peek_rdy (snd (div_step (ms_div s) i))"
  defines "mi \<equiv> i\<lparr>wi_in_peek_rdy := mul \<and> wi_in_peek_rdy i, wi_take_call := \<not> div_rdy \<and> wi_take_call i\<rparr>"
    and "di \<equiv> i\<lparr>wi_in_peek_rdy := \<not> mul \<and> wi_in_peek_rdy i, wi_take_call := div_rdy \<and> wi_take_call i\<rparr>"
  shows "m_pipe_step s i =
     (\<lparr> ms_mult = fst (mult_step (ms_mult s) mi), ms_div = fst (div_step (ms_div s) di) \<rparr>,
      \<lparr> wo_in_take_call = (if mul then wo_in_take_call (snd (mult_step (ms_mult s) mi))
                           else wo_in_take_call (snd (div_step (ms_div s) di))),
        wo_peek_rdy = (div_rdy \<or> wo_peek_rdy (snd (mult_step (ms_mult s) mi))),
        wo_peek_msg = (if div_rdy then wo_peek_msg (snd (div_step (ms_div s) di)) else wo_peek_msg (snd (mult_step (ms_mult s) mi))),
        wo_calls = () \<rparr>)"
proof -
  have mul: "(m_msg_func (ed_pipe_msg (dx_execution_data (wi_in_peek_msg i))) = 0) = mul" by (simp add: mul_def)
  show ?thesis
    unfolding m_pipe_step_def m_pipe_def
    by (cases mul; cases div_rdy; cases "wo_peek_rdy (snd (mult_step (ms_mult s) i))")
       (simp_all add: mul Let_def case_prod_beta offered_def mi_def di_def mult_step_peek div_step_peek div_rdy_def)
qed


lemma m_pipe_step_live:
  fixes s :: m_pipe_state and i :: m_pipe_machine_in
  assumes lanes: "m_lanes s muls divs"
  defines "s' \<equiv> fst (m_pipe_step s i)" and "out \<equiv> snd (m_pipe_step s i)" and "m \<equiv> wi_in_peek_msg i"
    and "from_div \<equiv> wo_peek_rdy (snd (div_step (ms_div s) i))"
    and "muls' \<equiv> survivors kill_drop (wi_kill_msg i) muls" and "divs' \<equiv> survivors kill_drop (wi_kill_msg i) divs"
  defines "q \<equiv> if from_div then divs' else muls'" and "taken \<equiv> wo_peek_rdy out \<and> wi_take_call i"
    and "new \<equiv> if wo_in_take_call out then [(m, dispatch_mask m)] else []"
  shows "wo_in_take_call out \<longrightarrow> wi_in_peek_rdy i"
    and "wo_peek_rdy out \<longrightarrow> q \<noteq> [] \<and> wo_peek_msg out = set_execute_mask (snd (hd q)) (m_result (fst (hd q)))"
    and "m_lanes s' ((if taken \<and> \<not> from_div then tl muls' else muls') @ (if is_mul m then new else []))
           ((if taken \<and> from_div then tl divs' else divs') @ (if is_mul m then [] else new))"
proof -
  define mi where "mi = i\<lparr>wi_in_peek_rdy := is_mul m \<and> wi_in_peek_rdy i, wi_take_call := \<not> from_div \<and> wi_take_call i\<rparr>"
  define di where "di = i\<lparr>wi_in_peek_rdy := \<not> is_mul m \<and> wi_in_peek_rdy i, wi_take_call := from_div \<and> wi_take_call i\<rparr>"
  have div_peek: "wo_peek_rdy (snd (div_step (ms_div s) di)) = from_div"
    by (simp add: di_def div_step_peek from_div_def)
  have st: "ms_mult s' = fst (mult_step (ms_mult s) mi)" "ms_div s' = fst (div_step (ms_div s) di)"
    unfolding s'_def m_pipe_step_units mi_def di_def m_def from_div_def by simp_all
  have lm: "lane_moves mult_result mult_lane muls mi (ms_mult s') (snd (mult_step (ms_mult s) mi))"
    and ld: "lane_moves division_result div_lane divs di (ms_div s') (snd (div_step (ms_div s) di))"
    unfolding st using lanes div_peek by (auto simp: m_lanes_def di_def intro: mult_step_live div_step_live)
  have out: "out = \<lparr> wo_in_take_call = (if is_mul m then wo_in_take_call (snd (mult_step (ms_mult s) mi))
                           else wo_in_take_call (snd (div_step (ms_div s) di))),
        wo_peek_rdy = (from_div \<or> wo_peek_rdy (snd (mult_step (ms_mult s) mi))),
        wo_peek_msg = (if from_div then wo_peek_msg (snd (div_step (ms_div s) di)) else wo_peek_msg (snd (mult_step (ms_mult s) mi))),
        wo_calls = () \<rparr>"
    unfolding out_def m_pipe_step_units mi_def di_def m_def from_div_def by simp
  have args: "wi_kill_msg mi = wi_kill_msg i" "wi_kill_msg di = wi_kill_msg i" "wi_in_peek_msg mi = m" "wi_in_peek_msg di = m"
    "wi_in_peek_rdy mi = (is_mul m \<and> wi_in_peek_rdy i)" "wi_in_peek_rdy di = (\<not> is_mul m \<and> wi_in_peek_rdy i)"
    "wi_take_call mi = (\<not> from_div \<and> wi_take_call i)" "wi_take_call di = (from_div \<and> wi_take_call i)"
    unfolding mi_def di_def m_def by simp_all
  note lm = lm [unfolded lane_moves_def Let_def args, folded muls'_def]
    and ld = ld [unfolded lane_moves_def Let_def args, folded divs'_def]
  have kinds: "\<forall>l \<in> set muls'. is_mul (fst l)" "\<forall>l \<in> set divs'. \<not> is_mul (fst l)"
    unfolding muls'_def divs'_def
    by (rule survivors_fst [OF lanes [unfolded m_lanes_def, THEN conjunct2, THEN conjunct2, THEN conjunct1]],
        rule survivors_fst [OF lanes [unfolded m_lanes_def, THEN conjunct2, THEN conjunct2, THEN conjunct2]])
  show "wo_in_take_call out \<longrightarrow> wi_in_peek_rdy i"
    using lm [THEN conjunct2, THEN conjunct1] ld [THEN conjunct2, THEN conjunct1] unfolding out
    by (cases "is_mul m") simp_all
  show "wo_peek_rdy out \<longrightarrow> q \<noteq> [] \<and> wo_peek_msg out = set_execute_mask (snd (hd q)) (m_result (fst (hd q)))"
  proof (cases from_div)
    case True
    then have "divs' \<noteq> [] \<and> wo_peek_msg out = set_execute_mask (snd (hd divs')) (division_result (fst (hd divs')))"
      using ld [THEN conjunct1] div_peek unfolding out by simp
    then show ?thesis using True kinds(2) by (simp add: q_def m_result_cases)
  next
    case False
    then have "wo_peek_rdy out \<Longrightarrow> muls' \<noteq> [] \<and> wo_peek_msg out = set_execute_mask (snd (hd muls')) (mult_result (fst (hd muls')))"
      using lm [THEN conjunct1] unfolding out by simp
    then show ?thesis using False kinds(1) by (simp add: q_def m_result_cases)
  qed
  have taken: "wo_peek_rdy (snd (mult_step (ms_mult s) mi)) \<and> \<not> from_div \<and> wi_take_call i \<longleftrightarrow> taken \<and> \<not> from_div"
    "wo_peek_rdy (snd (div_step (ms_div s) di)) \<and> from_div \<and> wi_take_call i \<longleftrightarrow> taken \<and> from_div"
    unfolding taken_def out div_peek by (cases from_div; simp)+
  have new: "(if wo_in_take_call (snd (mult_step (ms_mult s) mi)) then [(m, dispatch_mask m)] else []) = (if is_mul m then new else [])"
    "(if wo_in_take_call (snd (div_step (ms_div s) di)) then [(m, dispatch_mask m)] else []) = (if is_mul m then [] else new)"
    using lm [THEN conjunct2, THEN conjunct1] ld [THEN conjunct2, THEN conjunct1] unfolding new_def out
    by (cases "is_mul m"; simp)+
  show "m_lanes s' ((if taken \<and> \<not> from_div then tl muls' else muls') @ (if is_mul m then new else []))
           ((if taken \<and> from_div then tl divs' else divs') @ (if is_mul m then [] else new))"
    unfolding m_lanes_def
  proof (intro conjI)
    show "mult_lane (ms_mult s') ((if taken \<and> \<not> from_div then tl muls' else muls') @ (if is_mul m then new else []))"
      using lm [THEN conjunct2, THEN conjunct2] unfolding taken new .
    show "div_lane (ms_div s') ((if taken \<and> from_div then tl divs' else divs') @ (if is_mul m then [] else new))"
      using ld [THEN conjunct2, THEN conjunct2] unfolding taken new .
  qed (use kinds in \<open>auto simp: new_def dest!: set_tl_subset split: if_splits\<close>)
qed

lemma m_pipe_live: "m_lanes s muls divs \<Longrightarrow> m_pipe_trace muls divs is (run m_pipe_step s is)"
proof (induction "is" arbitrary: s muls divs)
  case (Cons i "is")
  note live = m_pipe_step_live [OF Cons.prems, of i]
  show ?case
    unfolding run.simps m_pipe_trace.simps Let_def case_prod_beta
    by (intro conjI exI [of _ "wo_peek_rdy (snd (div_step (ms_div s) i))"] live(1) live(2) Cons.IH [OF live(3)])
qed simp


section \<open>The multiplier as a delay line\<close>

text \<open>When the output never stalls, the multiplier is a shift register: what is offered is accepted, shown \<open>MUL_NSTAGES\<close>
  cycles later, and replaced by a bubble when it is killed.\<close>

definition survive_slot :: "2 word kill_type \<Rightarrow> live_msg option \<Rightarrow> live_msg option" where
  "survive_slot k z =
     (case z of None \<Rightarrow> None
      | Some (m, b) \<Rightarrow> (let (b', keep) = kill_drop k b in if keep then Some (m, b') else None))"

definition delay_step :: "(live_msg option list, m_pipe_machine_in, bool \<times> execute_msg option) machine" where
  "delay_step zs i =
     (let zs' = map (survive_slot (wi_kill_msg i)) zs; m = wi_in_peek_msg i
      in ((if wi_in_peek_rdy i then Some (m, dispatch_mask m) else None) # butlast zs',
          (wi_in_peek_rdy i, map_option (\<lambda>(m, b). set_execute_mask b (mult_result m)) (last zs'))))"

definition slot_tracks :: "(mult_in \<times> execute_msg \<times> bool) option \<Rightarrow> live_msg option \<Rightarrow> bool" where
  "slot_tracks f z =
     (case f of None \<Rightarrow> z = None
      | Some (x, a, dead) \<Rightarrow> (if dead then z = None else (\<exists>l. z = Some l \<and> tracks (x, a) l)))"

definition in_slots :: "mult_pipe \<Rightarrow> live_msg option list \<Rightarrow> bool" where
  "in_slots w zs \<longleftrightarrow>
     (\<exists>fs. fs \<noteq> [] \<and> pipelined_items (wr_internal_pipeline w) (map (map_option (\<lambda>f. mult_item (fst f))) fs) \<and>
           map vvm_slot (wr_vvms w) = map (map_option snd) fs \<and> list_all2 slot_tracks fs zs)"

lemma advance_draining:
  "xs \<noteq> [] \<Longrightarrow> last xs = None \<or> t \<Longrightarrow>
   advance_items t inp xs = inp # butlast xs \<and> hd (stage_rdy (valids_of xs) t)"
proof (induction xs arbitrary: inp)
  case (Cons x xs)
  then show ?case by (cases "xs = []") (auto simp: Let_def)
qed simp

lemma slot_tracks_aged:
  "slot_tracks f z \<Longrightarrow> slot_tracks (map_option (aged_item mult_drop_controller k) f) (survive_slot k z)"
  by (auto simp: slot_tracks_def survive_slot_def aged_item_def aged_def tracks_def set_execute_mask_kill
      split: option.splits prod.splits if_splits)

lemma list_all2_butlast: "list_all2 P xs ys \<Longrightarrow> list_all2 P (butlast xs) (butlast ys)"
  by (simp add: butlast_conv_take list_all2_lengthD list_all2_takeI)

lemma list_all2_last: "list_all2 P xs ys \<Longrightarrow> xs \<noteq> [] \<Longrightarrow> P (last xs) (last ys)"
proof (induction rule: list_all2_induct)
  case (Cons x xs y ys)
  then show ?case by (cases xs; cases ys) auto
qed simp

lemma mult_step_shifts:
  assumes slots: "in_slots w zs" and taking: "wi_take_call i"
  defines "out \<equiv> snd (mult_step w i)"
  shows "(wo_in_take_call out, offered out) = snd (delay_step zs i)"
    and "in_slots (fst (mult_step w i)) (fst (delay_step zs i))"
proof -
  let ?k = "wi_kill_msg i" and ?s = "wr_internal_pipeline w" and ?vs = "wr_vvms w" and ?m = "wi_in_peek_msg i"
  obtain fs where fs: "fs \<noteq> []" "pipelined_items ?s (map (map_option (\<lambda>f. mult_item (fst f))) fs)"
    "map vvm_slot ?vs = map (map_option snd) fs" "list_all2 slot_tracks fs zs"
    using slots unfolding in_slots_def by blast
  let ?xs = "map (map_option (\<lambda>f. mult_item (fst f))) fs"
  have ne: "?vs \<noteq> []" "zs \<noteq> []" using fs(1,3,4) by (auto dest: map_eq_imp_length_eq list_all2_lengthD)
  have last_slot: "vvm_slot (last ?vs) = map_option snd (last fs)"
    using fs(1,3) ne by (metis last_map)
  define t where "t \<longleftrightarrow> last fs \<noteq> None"
  have last_xs: "last ?xs = map_option (\<lambda>f. mult_item (fst f)) (last fs)" using fs(1) by (rule last_map)
  have val: "vv_val (last ?vs) = t" using last_slot by (cases "last fs") (auto simp: vvm_slot_def t_def split: if_splits)
  have peek: "mu_peek_rdy (snd (mul_pipelined_step True ?s j)) = t" for j
    unfolding pipelined.peek_last [OF fs(2)] last_xs t_def by simp
  have rdy: "mu_mult_rdy (snd (mul_pipelined_step True ?s (mult_set_inputs x c u)))" if "u = t" for x c u
    unfolding pipelined.rdy_first [OF fs(2)] mult_set_inputs_take that
    by (rule advance_draining [THEN conjunct2]) (use fs(1) last_xs t_def in auto)
  let ?a = "mult_set_inputs (fst (mult_split ?m)) (wi_in_peek_rdy i) t"
  let ?r = "mul_pipelined_step True ?s ?a"
  let ?dead = "vv_dead (last ?vs) \<or> \<not> snd (mult_drop_controller ?k (vv_out (last ?vs)))"
  have step: "mult_step w i =
     (\<lparr> wr_internal_pipeline = fst ?r,
        wr_vvms = shadow_step mult_drop_controller ?k t (wi_in_peek_rdy i, m_kill_data ?m, False) ?vs \<rparr>,
      \<lparr> wo_in_take_call = wi_in_peek_rdy i, wo_peek_rdy = (t \<and> \<not> ?dead),
        wo_peek_msg = mult_output (mu_peek_res (snd ?r)) (fst (mult_drop_controller ?k (vv_out (last ?vs)))), wo_calls = () \<rparr>)"
    using taking by (cases t) (simp_all add: mult_step_def wrapper_step_def mult_internal_step_simps peek rdy val
        mult_split_def Let_def case_prod_beta cong: if_cong)
  define gs where "gs = map (map_option (aged_item mult_drop_controller ?k)) fs"
  define new where "new = (if wi_in_peek_rdy i then Some (fst (mult_split ?m), m_kill_data ?m, False) else None)"
  have gs: "gs \<noteq> []" "last gs = None \<longleftrightarrow> \<not> t" "list_all2 slot_tracks gs (map (survive_slot ?k) zs)"
    using fs(1,4) by (simp_all add: gs_def t_def last_map list_all2_map1 list_all2_map2 del: not_None_eq)
       (rule list_all2_mono, assumption, rule slot_tracks_aged)
  have "pipelined_items (fst ?r) (map (map_option (\<lambda>f. mult_item (fst f))) (new # butlast gs))"
  proof -
    have "pipelined_items (fst ?r) (advance_items t (item_of ?a) ?xs)"
      using pipelined.items_move [OF fs(2), of True ?a] by (simp add: mult_set_inputs_take)
    moreover have "advance_items t (item_of ?a) ?xs = item_of ?a # butlast ?xs"
      by (rule advance_draining [THEN conjunct1]) (use fs(1) last_xs t_def in auto)
    moreover have "butlast ?xs = map (map_option (\<lambda>f. mult_item (fst f))) (butlast gs)"
      by (simp add: gs_def map_butlast option.map_comp comp_def aged_item_def case_prod_beta)
    ultimately show ?thesis by (cases "wi_in_peek_rdy i") (simp_all add: mult_item_of new_def)
  qed
  moreover have "map vvm_slot (shadow_step mult_drop_controller ?k t (wi_in_peek_rdy i, m_kill_data ?m, False) ?vs) =
      map (map_option snd) (new # butlast gs)"
  proof -
    let ?ys = "map (map_option (aged mult_drop_controller ?k)) (map vvm_slot ?vs)"
    have ys: "?ys = map (map_option snd) gs"
      unfolding fs(3) by (simp add: gs_def option.map_comp comp_def aged_item_def case_prod_beta)
    have "last ?ys = map_option snd (last gs)" unfolding ys by (rule last_map [OF gs(1)])
    then have last: "last ?ys = None \<or> t" using gs(2) by (metis option.simps(8))
    have drain: "advance_items t inp ?ys = inp # butlast ?ys \<and> hd (stage_rdy (valids_of ?ys) t)" for inp
      using ne by (intro advance_draining last) simp
    have "hd (stage_rdy (map vv_val ?vs) t)" using drain unfolding valids_of_map_option valids_of_slots by blast
    then have "map vvm_slot (shadow_step mult_drop_controller ?k t (wi_in_peek_rdy i, m_kill_data ?m, False) ?vs) =
        advance_items t (if wi_in_peek_rdy i then Some (m_kill_data ?m, False) else None) ?ys"
      by (subst shadow_step_slots) (simp_all add: val)
    also have "\<dots> = (if wi_in_peek_rdy i then Some (m_kill_data ?m, False) else None) # butlast ?ys"
      using drain by blast
    also have "\<dots> = map (map_option snd) (new # butlast gs)"
      unfolding ys by (simp add: new_def map_butlast)
    finally show ?thesis .
  qed
  moreover have "list_all2 slot_tracks (new # butlast gs) (fst (delay_step zs i))"
    using list_all2_butlast [OF gs(3)] tracks_accepted [of ?m]
    by (simp add: delay_step_def Let_def new_def slot_tracks_def mult_split_def)
  ultimately show "in_slots (fst (mult_step w i)) (fst (delay_step zs i))"
    unfolding in_slots_def step by (intro exI [of _ "new # butlast gs"]) simp
  have lz: "slot_tracks (last gs) (last (map (survive_slot ?k) zs))" using list_all2_last [OF gs(3,1)] .
  show "(wo_in_take_call out, offered out) = snd (delay_step zs i)"
  proof (cases "last fs")
    case None
    then have "last (map (survive_slot ?k) zs) = None" using lz fs(1) by (simp add: gs_def last_map slot_tracks_def)
    then show ?thesis unfolding out_def step using None by (simp add: delay_step_def offered_def t_def Let_def)
  next
    case (Some f)
    obtain x a dead where f: "f = (x, a, dead)" by (cases f)
    have v: "vv_out (last ?vs) = a" "vv_dead (last ?vs) = dead"
      using last_slot Some f by (auto simp: vvm_slot_def split: if_splits)
    have lg: "last gs = Some (x, fst (mult_drop_controller ?k a), dead \<or> \<not> snd (mult_drop_controller ?k a))"
      using fs(1) Some f by (simp add: gs_def last_map aged_item_def aged_def)
    have res: "mu_peek_res (snd (mul_pipelined_step True ?s j)) = item_product (mult_item x)" for j
      by (rule pipelined.peek_product [OF fs(2)]) (simp add: last_xs Some f)
    show ?thesis
    proof (cases "dead \<or> \<not> snd (mult_drop_controller ?k a)")
      case True
      then have "last (map (survive_slot ?k) zs) = None" using lz lg by (auto simp: slot_tracks_def)
      then show ?thesis unfolding out_def step using True v by (auto simp: delay_step_def offered_def Let_def)
    next
      case False
      then obtain m b where mb: "last (map (survive_slot ?k) zs) = Some (m, b)"
        "x = fst (mult_split m)" "fst (mult_drop_controller ?k a) = set_execute_mask b (m_kill_data m)"
        using lz lg by (auto simp: slot_tracks_def tracks_def)
      have "mult_output (item_product (mult_item x)) (m_kill_data m) = mult_result m"
        unfolding mb(2) by (rule mult_computes_result [OF mult_computes_item])
      then show ?thesis
        unfolding out_def step using False v mb Some
        by (simp add: delay_step_def offered_def t_def Let_def res set_execute_mask_output)
    qed
  qed
qed


lemma mult_run_shifts:
  "in_slots w zs \<Longrightarrow> list_all wi_take_call is \<Longrightarrow>
   map (\<lambda>out. (wo_in_take_call out, offered out)) (run mult_step w is) = run delay_step zs is"
proof (induction "is" arbitrary: w zs)
  case (Cons i "is")
  then show ?case
    using mult_step_shifts [OF Cons.prems(1), of i] Cons.IH [of "fst (mult_step w i)" "fst (delay_step zs i)"]
    by simp
qed simp

section \<open>Reset\<close>

text \<open>A reset clears the valid registers and the busy register; the others hold anything.\<close>

definition mult_reset :: "mult_pipe \<Rightarrow> bool" where
  "mult_reset w \<longleftrightarrow>
     mul_idle MUL_NSTAGES (wr_internal_pipeline w) \<and> length (wr_vvms w) = MUL_NSTAGES \<and> list_all (\<lambda>v. \<not> vv_val v) (wr_vvms w)"

definition m_pipe_reset :: "m_pipe_state \<Rightarrow> bool" where
  "m_pipe_reset s \<longleftrightarrow> mult_reset (ms_mult s) \<and> \<not> dv_busy (dp_divider (ms_div s)) \<and> \<not> vv_val (dp_vvm (ms_div s))"

definition mem_joint_reset :: "mem_joint \<Rightarrow> bool" where
  "mem_joint_reset s \<longleftrightarrow> \<not> vv_val (mj_request s) \<and> \<not> vv_val (mj_response s)"

definition mem_reset :: "mem_pipe \<Rightarrow> bool" where
  "mem_reset w \<longleftrightarrow>
     mem_joint_reset (wr_internal_pipeline w) \<and> length (wr_vvms w) = 2 \<and> list_all (\<lambda>v. \<not> vv_val v) (wr_vvms w)"

lemma empty_slots: "list_all (\<lambda>v. \<not> vv_val v) vs \<Longrightarrow> map vvm_slot vs = replicate (length vs) None"
  by (induction vs) (auto simp: vvm_slot_def)

lemma tracked_empty: "list_all (\<lambda>v. \<not> vv_val v) vs \<Longrightarrow> tracked vs = []"
  by (simp add: tracked_def empty_slots in_flight_empty)

lemma mult_reset_items: "mult_reset w \<Longrightarrow> pipelined_items (wr_internal_pipeline w) (replicate MUL_NSTAGES None)"
  unfolding mult_reset_def by (rule mul_idle_items(2) [of MUL_NSTAGES]) (simp_all add: MUL_NSTAGES_def)

lemma mult_reset_lane: "mult_reset w \<Longrightarrow> mult_lane w []"
  using mult_reset_items [of w]
  by (auto simp: mult_lane_def wrapper_related_def mult_holds_def mult_reset_def tracked_empty in_flight_empty
      intro!: exI [of _ "replicate MUL_NSTAGES None"])

lemma mult_reset_slots: "mult_reset w \<Longrightarrow> in_slots w (replicate MUL_NSTAGES None)"
  using mult_reset_items [of w] unfolding in_slots_def
  by (intro exI [of _ "replicate MUL_NSTAGES None"])
     (simp add: mult_reset_def empty_slots slot_tracks_def list_all2_conv_all_nth MUL_NSTAGES_def)

lemma m_pipe_reset_lanes: "m_pipe_reset s \<Longrightarrow> m_lanes s [] []"
  by (simp add: m_pipe_reset_def m_lanes_def mult_reset_lane div_lane_def)

lemma mem_reset_related: "mem_reset w \<Longrightarrow> wrapper_related mem_holds 2 w []"
  by (auto simp: mem_reset_def mem_joint_reset_def wrapper_related_def mem_holds_def tracked_empty vvm_abs_def intro!: exI [of _ "[]"])


section \<open>Properties\<close>

text \<open>C11: from reset on, on every input sequence, each message the multiply/divide pipe shows is the result the
  instruction computes (\<open>m_result\<close>, which is what the golden model computes), for a message that was accepted, has not been
  taken and whose branch no kill since then, the one of the cycle included, has killed; only its branch mask has changed,
  by the cleared bits. Multiplications come out in the order of their acceptance, and so do divisions.\<close>

theorem m_pipe_returns_live:
  assumes "m_pipe_reset s"
  shows "m_pipe_trace [] [] is (run m_pipe_step s is)"
  by (rule m_pipe_live [OF m_pipe_reset_lanes [OF assms]])

definition start_hdr :: backend_hdr where
  "start_hdr = \<lparr> fh_status = 0, fh_pc = 512, fh_fence = False, fh_replay = False, fh_replay_next = False, bh_seq = 3,
     bh_is_store = False, bh_store_id = 0, bh_spec_val = False, bh_spec = 0, bh_branch_mask = 1 \<rparr>"

definition start_mult :: mult_pipe where
  "start_mult = \<lparr> wr_internal_pipeline = \<lparr> mu_valids = [False, False, False, False], mu_vals = [0, 0, 0, 0],
       mu_src1s = [0, 0, 0], mu_src2s = [0, 0, 0], mu_signs = [False, False, False] \<rparr>,
     wr_vvms = replicate 4 (vvm_reset (zero_execute start_hdr)) \<rparr>"

definition start_m_pipe :: m_pipe_state where
  "start_m_pipe = \<lparr> ms_mult = start_mult,
     ms_div = \<lparr> dp_divider = \<lparr> dv_acc = 0, dv_divisor = 0, dv_dividend = 0, dv_negate = False, dv_negate_rem = False,
                                   dv_counter = 0, dv_busy = False \<rparr>,
               dp_vvm = vvm_reset (zero_execute start_hdr) \<rparr> \<rparr>"

text \<open>\<open>MUL\<close> of 6 and 7 under branch 0, with a kill message of its own in each cycle.\<close>

definition mul_msg :: dispatch_msg where
  "mul_msg = (zero_dispatch start_hdr)\<lparr>dx_rs1 := 6, dx_rs2 := 7, dx_rd_val := True, dx_rd := 9\<rparr>"

definition mul_cycle :: "bool \<Rightarrow> 2 word \<Rightarrow> m_pipe_machine_in" where
  "mul_cycle rdy killed = \<lparr> wi_in_peek_rdy = rdy, wi_in_peek_msg = mul_msg,
     wi_kill_msg = \<lparr> kill_force = False, kill_mask = killed, clear_mask = 0 \<rparr>, wi_take_call = True, wi_env = () \<rparr>"

lemma start_resets: "mult_reset start_mult" "m_pipe_reset start_m_pipe"
  by (simp_all add: mult_reset_def m_pipe_reset_def start_mult_def start_m_pipe_def mul_idle_def MUL_NSTAGES_def vvm_reset_def
      numeral_eq_Suc)

theorem m_pipe_returns_live_witness:
  "m_pipe_trace [] [] [mul_cycle True 0, mul_cycle True 2] (run m_pipe_step start_m_pipe [mul_cycle True 0, mul_cycle True 2])"
  by (rule m_pipe_returns_live [OF start_resets(2)])

text \<open>C22: while its output is taken whenever it shows something, the multiplier is a delay line: it accepts a message in
  every cycle in which one is offered and shows its result exactly \<open>MUL_NSTAGES\<close> cycles later, unless a kill of one of
  the cycles after its acceptance, the last one included, has killed it; then it shows nothing in that cycle and no other
  message is delayed by it.\<close>

theorem mult_delay_line:
  assumes "mult_reset w" and "list_all wi_take_call is"
  shows "map (\<lambda>out. (wo_in_take_call out, offered out)) (run mult_step w is) =
         run delay_step (replicate MUL_NSTAGES None) is"
  by (rule mult_run_shifts [OF mult_reset_slots [OF assms(1)] assms(2)])

text \<open>Two multiplications, the second killed in the cycle before its last.\<close>

theorem mult_delay_line_witness:
  "map (\<lambda>out. map_option ex_result (offered out))
     (run mult_step start_mult [mul_cycle True 0, mul_cycle False 0, mul_cycle True 0, mul_cycle False 0, mul_cycle False 0,
                                mul_cycle False 1, mul_cycle False 0]) = [None, None, None, None, Some 42, None, None]"
proof -
  let ?is = "[mul_cycle True 0, mul_cycle False 0, mul_cycle True 0, mul_cycle False 0, mul_cycle False 0, mul_cycle False 1,
              mul_cycle False 0]"
  have line: "map (\<lambda>out. (wo_in_take_call out, offered out)) (run mult_step start_mult ?is) =
      run delay_step (replicate MUL_NSTAGES None) ?is"
    by (rule mult_delay_line [OF start_resets(1)]) (simp add: mul_cycle_def)
  have "map (map_option ex_result) (map snd (run delay_step (replicate MUL_NSTAGES None) ?is)) =
      [None, None, None, None, Some 42, None, None]"
    by code_simp
  then show ?thesis unfolding line [symmetric] by (simp add: comp_def)
qed

text \<open>C23: from reset on, on every input sequence, each message the memory pipe shows is the result of a message that
  was accepted, has not been taken and whose branch no kill since then has killed, in the order of acceptance, with the cleared
  branch mask and the result of a load or store with some data word (which one, the next property says).\<close>

theorem mem_pipe_returns_live:
  assumes "mem_reset w"
  shows "live_trace mem_split kill_drop (\<lambda>m bmask out. \<exists>data. out = mem_fuse (mem_executed m data) bmask) []
           is (run mem_step w is)"
proof -
  have shown: "(\<lambda>m bmask out. \<exists>data. out = mem_fuse (mem_executed m data) bmask) =
      (\<lambda>m bmask out. \<exists>y. mem_computes m y \<and> out = mem_fuse y bmask)"
    by (auto simp: mem_computes_def fun_eq_iff)
  show ?thesis
    unfolding mem_step_def shown by (rule mem_internal.wrapper_live [OF mem_reset_related [OF assms]])
qed


definition start_mem_joint :: mem_joint where
  "start_mem_joint = \<lparr> mj_request = vvm_reset (zero_dispatch start_hdr), mj_response = vvm_reset (zero_execute start_hdr) \<rparr>"

definition start_mem :: mem_pipe where
  "start_mem = \<lparr> wr_internal_pipeline = start_mem_joint, wr_vvms = replicate 2 (vvm_reset 0) \<rparr>"

text \<open>\<open>LD\<close> of address 64; the answer is there from the second cycle on.\<close>

definition load_msg :: dispatch_msg where
  "load_msg = (zero_dispatch start_hdr)\<lparr>dx_rs1 := 64, dx_rd_val := True,
     dx_execution_data := zero_execution_data\<lparr>ed_pipe_msg := 0b110\<rparr>\<rparr>"

definition load_env :: "bool \<Rightarrow> mem_joint_env" where
  "load_env rdy = \<lparr> me_store_pending = (\<lambda>addr size. False), me_send_load_rdy = True, me_recv_load_rdy = rdy, me_recv_load_data = 99 \<rparr>"

definition load_cycle :: "bool \<Rightarrow> bool \<Rightarrow> (dispatch_msg, 2 word kill_type, mem_joint_env) wrapper_in" where
  "load_cycle offer rdy = \<lparr> wi_in_peek_rdy = offer, wi_in_peek_msg = load_msg,
     wi_kill_msg = \<lparr> kill_force = False, kill_mask = 0, clear_mask = 1 \<rparr>, wi_take_call = True, wi_env = load_env rdy \<rparr>"

definition load_joint_cycle :: "bool \<Rightarrow> bool \<Rightarrow> mem_joint_in" where
  "load_joint_cycle offer rdy =
     \<lparr> pi_in_peek_rdy = offer, pi_in_peek_msg = load_msg, pi_take_call = True, pi_env = load_env rdy \<rparr>"

lemma start_mem_resets: "mem_reset start_mem" "mem_joint_reset start_mem_joint"
  by (simp_all add: mem_reset_def mem_joint_reset_def start_mem_def start_mem_joint_def vvm_reset_def numeral_2_eq_2)

theorem mem_pipe_returns_live_witness:
  "live_trace mem_split kill_drop (\<lambda>m bmask out. \<exists>data. out = mem_fuse (mem_executed m data) bmask) []
     [load_cycle True False, load_cycle False True, load_cycle False True]
     (run mem_step start_mem [load_cycle True False, load_cycle False True, load_cycle False True])"
  by (rule mem_pipe_returns_live [OF start_mem_resets(1)])

text \<open>C17: along every run of the memory pipe from reset, whatever its output does: one load is sent for each load that
  was accepted, with its address and size and in the order of acceptance; the messages taken, followed by those still in the
  pipe that need no further answer, are the results of the messages accepted, each once and in order, every load with
  the data of its own answer (the answers consumed are paired with the loads in order) and a store with none.\<close>

theorem mem_joint_in_order:
  fixes s :: mem_joint and "is" :: "mem_joint_in list"
  assumes "mem_joint_reset s"
  defines "outs \<equiv> run mem_joint_step s is" and "s' \<equiv> final mem_joint_step s is"
  shows "loads_sent outs = map (\<lambda>m. (mem_addr m, mem_len m)) (filter is_load (mem_accepted is outs)) \<and>
         mem_results (mem_accepted is outs) (loads_answered is outs) =
           mem_taken is outs @ contents (vvm_abs (mj_response s')) @ mem_results (contents (vvm_abs (mj_request s'))) []"
  using mem_joint_run_results [of s "is"] mem_joint_sends [of s "is"] assms(1)
  by (simp add: outs_def s'_def mem_joint_reset_def vvm_abs_def)

theorem mem_joint_in_order_witness:
  "map ex_result (mem_taken (map (load_joint_cycle True) [False, True, True])
     (run mem_joint_step start_mem_joint (map (load_joint_cycle True) [False, True, True]))) = [99]"
proof -
  let ?is = "map (load_joint_cycle True) [False, True, True]"
  let ?outs = "run mem_joint_step start_mem_joint ?is" and ?s = "final mem_joint_step start_mem_joint ?is"
  have order: "mem_results (mem_accepted ?is ?outs) (loads_answered ?is ?outs) =
      mem_taken ?is ?outs @ contents (vvm_abs (mj_response ?s)) @ mem_results (contents (vvm_abs (mj_request ?s))) []"
    using mem_joint_in_order [OF start_mem_resets(2), of ?is] by blast
  have "map ex_result (mem_results (mem_accepted ?is ?outs) (loads_answered ?is ?outs)) = [99, 99]" by code_simp
  moreover have "map ex_result (contents (vvm_abs (mj_response ?s)) @ mem_results (contents (vvm_abs (mj_request ?s))) []) = [99]"
    by code_simp
  ultimately show ?thesis unfolding order map_append by simp
qed

end
